(* ===== verification/Prelude.thy ===== *)
theory Prelude
  imports Main "HOL-Library.Word" "HOL-Library.Monad_Syntax"
begin

unbundle bit_operations_syntax

text \<open>
  Shared vocabulary of the development: the outcome type of a C function that may end the
  process (\<open>KOUT\<close> logs and calls \<open>exit(-1)\<close>), C's machine integers written out on \<open>int\<close>, and
  the list lemmas that the linked lists of the sources need. \<open>None\<close> is a call that does not
  return to its caller: a \<open>KOUT\<close>, or a spin on a lock that nobody releases.
\<close>

named_theorems run_simps \<open>equations that unfold a guarded step of a C function\<close>
named_theorems frame_simps \<open>what an operation leaves unchanged\<close>
named_theorems keeps_inv \<open>an operation keeps an invariant\<close>

section \<open>Calls that may end the process\<close>

type_synonym 'a run = "'a option"

definition kout_if :: "bool \<Rightarrow> unit run" where
  "kout_if b = (if b then None else Some ())"

lemma kout_if_simps [simp, run_simps]:
  "kout_if True = None" "kout_if False = Some ()"
  by (simp_all add: kout_if_def)

lemma kout_if_eq_Some [simp]: "kout_if b = Some u \<longleftrightarrow> \<not> b"
  by (simp add: kout_if_def)

lemma kout_if_bind [run_simps]: "(kout_if b \<bind> f) = (if b then None else f ())"
  by (simp add: kout_if_def)

lemma bind_eq_Some [run_simps]:
  "(m \<bind> f) = Some y \<longleftrightarrow> (\<exists>x. m = Some x \<and> f x = Some y)"
  by (cases m) simp_all

lemma bind_eq_None [run_simps]:
  "(m \<bind> f) = None \<longleftrightarrow> m = None \<or> (\<exists>x. m = Some x \<and> f x = None)"
  by (cases m) simp_all

text \<open>
  A read outside of the buffer it is meant for, or through a pointer to a freed object, has no
  defined result either; it is \<open>None\<close> as well.
\<close>

abbreviation ub_if :: "bool \<Rightarrow> unit run" where
  "ub_if \<equiv> kout_if"

section \<open>C integers\<close>

text \<open>
  An \<open>int\<close> variable holds a value of 32 bits, a \<open>long long\<close> one of 64. \<open>i32\<close> and \<open>i64\<close> bring
  the exact result of an expression back to its type, in two's complement (what the
  compilers the project is built with do on signed overflow).
\<close>

definition i32 :: "int \<Rightarrow> int" where
  "i32 x = (x + 2 ^ 31) mod 2 ^ 32 - 2 ^ 31"

definition i64 :: "int \<Rightarrow> int" where
  "i64 x = (x + 2 ^ 63) mod 2 ^ 64 - 2 ^ 63"

lemma i32_id: "- (2 ^ 31) \<le> x \<Longrightarrow> x < 2 ^ 31 \<Longrightarrow> i32 x = x"
  by (simp add: i32_def)

lemma i64_id: "- (2 ^ 63) \<le> x \<Longrightarrow> x < 2 ^ 63 \<Longrightarrow> i64 x = x"
  by (simp add: i64_def)

lemma i32_range: "- (2 ^ 31) \<le> i32 x \<and> i32 x < 2 ^ 31"
  by (simp add: i32_def)

lemma i64_range: "- (2 ^ 63) \<le> i64 x \<and> i64 x < 2 ^ 63"
  by (simp add: i64_def)

text \<open>C division of integers truncates towards zero.\<close>

definition c_div :: "int \<Rightarrow> int \<Rightarrow> int" where
  "c_div a b = sgn a * sgn b * (\<bar>a\<bar> div \<bar>b\<bar>)"

lemma c_div_nonneg: "0 \<le> a \<Longrightarrow> 0 < b \<Longrightarrow> c_div a b = a div b"
  by (cases "a = 0") (simp_all add: c_div_def)

section \<open>Unsigned words\<close>

type_synonym u8 = "8 word"
type_synonym u16 = "16 word"
type_synonym u32 = "32 word"

lemma uint_and_mask12: "uint (x AND 0xFFF) = uint x mod 4096" for x :: u32
proof -
  have "x AND 0xFFF = take_bit 12 x"
    by (simp add: take_bit_eq_mask mask_eq_exp_minus_1)
  then show ?thesis
    by (simp only: unsigned_take_bit_eq) (simp add: take_bit_eq_mod)
qed

lemma sint_small: "unat x < 2 ^ 31 \<Longrightarrow> sint x = int (unat x)" for x :: u32
proof -
  assume "unat x < 2 ^ 31"
  then have "int (unat x) < int (2 ^ 31)" by (simp only: of_nat_less_iff)
  then have "uint x < 2 ^ 31" by simp
  moreover have "0 \<le> uint x" by simp
  ultimately have "signed_take_bit 31 (uint x) = uint x"
    by (intro signed_take_bit_int_eq_self) linarith+
  then show ?thesis by (simp add: sint_uint)
qed

section \<open>Lists\<close>

text \<open>
  The sources keep their objects on linked lists. \<open>replace_first P f xs\<close> updates in place the
  first element that a search loop stops at.
\<close>

fun replace_first :: "('a \<Rightarrow> bool) \<Rightarrow> ('a \<Rightarrow> 'a) \<Rightarrow> 'a list \<Rightarrow> 'a list" where
  "replace_first P f [] = []"
| "replace_first P f (x # xs) = (if P x then f x # xs else x # replace_first P f xs)"

fun remove_first :: "('a \<Rightarrow> bool) \<Rightarrow> 'a list \<Rightarrow> 'a list" where
  "remove_first P [] = []"
| "remove_first P (x # xs) = (if P x then xs else x # remove_first P xs)"

lemma find_SomeD: "find P xs = Some x \<Longrightarrow> x \<in> set xs \<and> P x"
  by (induction xs) (auto split: if_splits)

lemma find_NoneD: "find P xs = None \<Longrightarrow> x \<in> set xs \<Longrightarrow> \<not> P x"
  by (induction xs) (auto split: if_splits)

lemma find_Some_ex: "x \<in> set xs \<Longrightarrow> P x \<Longrightarrow> \<exists>y. find P xs = Some y"
  by (induction xs) auto

lemma length_replace_first [simp]: "length (replace_first P f xs) = length xs"
  by (induction xs) auto

lemma replace_first_id: "find P xs = None \<Longrightarrow> replace_first P f xs = xs"
  by (induction xs) (auto split: if_splits)

lemma map_replace_first: "(\<And>x. g (f x) = g x) \<Longrightarrow> map g (replace_first P f xs) = map g xs"
  by (induction xs) auto

lemma set_replace_first_subset: "set (replace_first P f xs) \<subseteq> set xs \<union> f ` {x \<in> set xs. P x}"
  by (induction xs) auto

lemma set_remove_first_subset: "set (remove_first P xs) \<subseteq> set xs"
  by (induction xs) auto

lemma remove_first_id: "find P xs = None \<Longrightarrow> remove_first P xs = xs"
  by (induction xs) (auto split: if_splits)

lemma length_remove_first: "find P xs = Some x \<Longrightarrow> length xs = Suc (length (remove_first P xs))"
  by (induction xs) (auto split: if_splits)

lemma distinct_map_remove_first: "distinct (map g xs) \<Longrightarrow> distinct (map g (remove_first P xs))"
  by (induction xs) (auto dest: set_remove_first_subset [THEN subsetD])

text \<open>With distinct keys a search by key finds the one element that has it.\<close>

lemma find_key_unique:
  "distinct (map g xs) \<Longrightarrow> x \<in> set xs \<Longrightarrow> find (\<lambda>y. g y = g x) xs = Some x"
  by (induction xs) force+

lemma remove_first_key:
  "distinct (map g xs) \<Longrightarrow> remove_first (\<lambda>y. g y = k) xs = filter (\<lambda>y. g y \<noteq> k) xs"
proof (induction xs)
  case Nil
  show ?case by simp
next
  case (Cons x xs)
  show ?case
  proof (cases "g x = k")
    case True
    with Cons.prems have "filter (\<lambda>y. g y \<noteq> k) xs = xs"
      by (auto simp: filter_id_conv image_iff)
    with True show ?thesis by simp
  next
    case False
    with Cons show ?thesis by simp
  qed
qed

section \<open>Step systems and their invariants\<close>

text \<open>A sequence of events, each handled to the end before the next one; it stops when one
  of them ends the process.\<close>

primrec run_events :: "('s \<Rightarrow> 'e \<Rightarrow> 's run) \<Rightarrow> 's \<Rightarrow> 'e list \<Rightarrow> 's run" where
  "run_events step s [] = Some s"
| "run_events step s (e # es) = step s e \<bind> (\<lambda>t. run_events step t es)"

lemma run_events_append:
  "run_events step s (es @ fs) = run_events step s es \<bind> (\<lambda>t. run_events step t fs)"
  by (induction es arbitrary: s) (simp_all split: bind_split)

text \<open>Two step functions that keep a relation end the process together and keep it over runs.\<close>

lemma run_events_rel:
  assumes "\<And>s t e. R s t \<Longrightarrow> rel_option R (f s e) (g t e)" and "R s t"
  shows "rel_option R (run_events f s es) (run_events g t es)"
  using assms(2)
proof (induction es arbitrary: s t)
  case (Cons e es)
  from assms(1) [OF Cons.prems, of e] Cons.IH show ?case
    by (cases "f s e"; cases "g t e") simp_all
qed simp

text \<open>
  The interface of every component whose state is driven by events: a start state, a step
  that may end the process, the events that the environment can produce, and an invariant
  that the start has and every step keeps.
\<close>

locale step_system =
  fixes start :: "'s"
    and step :: "'s \<Rightarrow> 'e \<Rightarrow> 's run"
    and legal :: "'e \<Rightarrow> bool"
    and inv :: "'s \<Rightarrow> bool"
  assumes inv_start: "inv start"
    and inv_step: "inv s \<Longrightarrow> legal e \<Longrightarrow> step s e = Some t \<Longrightarrow> inv t"
begin

lemma run_inv:
  "inv s \<Longrightarrow> list_all legal es \<Longrightarrow> run_events step s es = Some t \<Longrightarrow> inv t"
  by (induction es arbitrary: s) (auto simp: bind_eq_Some intro: inv_step)

lemma reach_inv: "list_all legal es \<Longrightarrow> run_events step start es = Some t \<Longrightarrow> inv t"
  by (rule run_inv [OF inv_start])

lemma reach_frame:
  assumes "list_all legal es" and "run_events step start es = Some t" and "\<And>s. inv s \<Longrightarrow> P s"
  shows "P t"
  using assms reach_inv by blast

end

text \<open>The same for a component that no legal event makes end the process.\<close>

locale safe_system = step_system +
  assumes no_exit: "inv s \<Longrightarrow> legal e \<Longrightarrow> \<exists>t. step s e = Some t"
begin

lemma run_returns:
  "inv s \<Longrightarrow> list_all legal es \<Longrightarrow> \<exists>t. run_events step s es = Some t \<and> inv t"
proof (induction es arbitrary: s)
  case Nil
  then show ?case by simp
next
  case (Cons e es)
  then obtain t where "step s e = Some t" "inv t"
    using no_exit [of s e] inv_step [of s e] by auto
  with Cons show ?case by auto
qed

lemma reach_returns: "list_all legal es \<Longrightarrow> \<exists>t. run_events step start es = Some t \<and> inv t"
  by (rule run_returns [OF inv_start])

end

end
