(* ===== verification/Slot_Fifo.thy ===== *)
theory Slot_Fifo
  imports Prelude
begin

text \<open>
  The interface between the packet scheduler and the ring of slots: a bounded first-in
  first-out queue whose operations may end the process, seen through the list of its
  elements. The client lemmas (a burst of insertions, a drain) are proved here once.
\<close>

primrec put_all :: "('a \<Rightarrow> 'q \<Rightarrow> 'q run) \<Rightarrow> 'q \<Rightarrow> 'a list \<Rightarrow> 'q run" where
  "put_all put q [] = Some q"
| "put_all put q (x # xs) = put x q \<bind> (\<lambda>q'. put_all put q' xs)"

primrec get_n :: "('q \<Rightarrow> ('a option \<times> 'q) run) \<Rightarrow> nat \<Rightarrow> 'q \<Rightarrow> ('a option list \<times> 'q) run" where
  "get_n get 0 q = Some ([], q)"
| "get_n get (Suc n) q = do {
     (x, q') \<leftarrow> get q;
     (xs, q'') \<leftarrow> get_n get n q';
     Some (x # xs, q'')
   }"

locale slot_fifo =
  fixes cap :: nat
    and empty :: "'q"
    and put :: "'a \<Rightarrow> 'q \<Rightarrow> 'q run"
    and get :: "'q \<Rightarrow> ('a option \<times> 'q) run"
    and look :: "'q \<Rightarrow> 'a option"
    and used :: "'q \<Rightarrow> (u32 \<times> 'q) run"
    and space :: "'q \<Rightarrow> (u32 \<times> 'q) run"
    and list :: "'q \<Rightarrow> 'a list"
    and invar :: "'q \<Rightarrow> bool"
  assumes invar_empty: "invar empty"
    and list_empty: "list empty = []"
    and bounded: "invar q \<Longrightarrow> length (list q) \<le> cap"
    and put_room: "invar q \<Longrightarrow> length (list q) < cap \<Longrightarrow>
          \<exists>q'. put x q = Some q' \<and> invar q' \<and> list q' = list q @ [x]"
    and put_full: "invar q \<Longrightarrow> length (list q) = cap \<Longrightarrow> put x q = None"
    and get_spec: "invar q \<Longrightarrow>
          \<exists>q'. get q = Some (case list q of [] \<Rightarrow> None | x # _ \<Rightarrow> Some x, q') \<and>
               invar q' \<and> list q' = tl (list q)"
    and look_spec: "invar q \<Longrightarrow> look q = (case list q of [] \<Rightarrow> None | x # _ \<Rightarrow> Some x)"
    and used_spec: "invar q \<Longrightarrow> \<exists>n. used q = Some (n, q) \<and> unat n = length (list q)"
    and space_spec: "invar q \<Longrightarrow> \<exists>n. space q = Some (n, q) \<and> unat n = cap - length (list q)"
begin

lemma put_cases: "invar q \<Longrightarrow> put x q = Some q' \<Longrightarrow>
    invar q' \<and> list q' = list q @ [x] \<and> length (list q) < cap"
  using bounded [of q] put_full [of q x] put_room [of q x]
  by (cases "length (list q) = cap") auto

lemma get_some: "invar q \<Longrightarrow> list q = x # xs \<Longrightarrow>
    \<exists>q'. get q = Some (Some x, q') \<and> invar q' \<and> list q' = xs"
  using get_spec [of q] by auto

lemma get_none: "invar q \<Longrightarrow> list q = [] \<Longrightarrow>
    \<exists>q'. get q = Some (None, q') \<and> invar q' \<and> list q' = []"
  using get_spec [of q] by auto

lemma look_then_get: "invar q \<Longrightarrow> look q = Some x \<Longrightarrow>
    \<exists>q'. get q = Some (Some x, q') \<and> invar q' \<and> list q = x # list q'"
  using look_spec [of q] get_some [of q x] by (auto split: list.splits)

lemma put_all_spec:
  "invar q \<Longrightarrow> length (list q) + length xs \<le> cap \<Longrightarrow>
   \<exists>q'. put_all put q xs = Some q' \<and> invar q' \<and> list q' = list q @ xs"
proof (induction xs arbitrary: q)
  case Nil
  then show ?case by simp
next
  case (Cons x xs)
  then obtain q1 where "put x q = Some q1" "invar q1" "list q1 = list q @ [x]"
    using put_room [of q x] by auto
  with Cons.IH [of q1] Cons.prems show ?case by auto
qed

lemma put_all_overflow:
  assumes "invar q" and "cap < length (list q) + length xs"
  shows "put_all put q xs = None"
  using assms
proof (induction xs arbitrary: q)
  case Nil
  then show ?case using bounded [of q] by simp
next
  case (Cons x xs)
  show ?case
  proof (cases "put x q")
    case None
    then show ?thesis by simp
  next
    case (Some q1)
    with put_cases [OF Cons.prems(1) Some] Cons show ?thesis by auto
  qed
qed

lemma get_n_spec:
  "invar q \<Longrightarrow> n \<le> length (list q) \<Longrightarrow>
   \<exists>q'. get_n get n q = Some (map Some (take n (list q)), q') \<and> invar q' \<and>
        list q' = drop n (list q)"
proof (induction n arbitrary: q)
  case 0
  then show ?case by simp
next
  case (Suc n)
  then obtain x xs where "list q = x # xs" by (cases "list q") auto
  moreover from this Suc.prems obtain q1
    where "get q = Some (Some x, q1)" "invar q1" "list q1 = xs"
    using get_some [of q x xs] by blast
  ultimately show ?case using Suc.IH [of q1] Suc.prems by auto
qed

lemma burst_order:
  "length xs \<le> cap \<Longrightarrow>
   \<exists>q'. put_all put empty xs \<bind> get_n get (length xs) = Some (map Some xs, q') \<and>
        invar q' \<and> list q' = []"
  using put_all_spec [OF invar_empty, of xs] get_n_spec [of _ "length xs"] list_empty by fastforce

end

end
