(* ===== verification/Circ_Slot.thy ===== *)
theory Circ_Slot
  imports Slot_Fifo
begin

text \<open>
  The lock-protected ring of packet slots of \<open>mua2b/src/circ_slot.c\<close>: two rings of 4096
  pointers, each with a head, a tail and a spin lock. The operations are translated one to
  one; the ring is then shown to implement a bounded first-in first-out queue of 4095 places
  (interface \<open>slot_fifo\<close>), and its micro-steps, interleaved between any number of threads,
  are shown to keep mutual exclusion and to act atomically on that queue.
\<close>

section \<open>The rings and their operations\<close>

definition CIRC_MASK :: u32 where
  "CIRC_MASK = 0xFFF"

text \<open>A slot that holds \<open>NULL\<close> is \<open>None\<close>. Indexes above the mask are never used.\<close>

record 'a circ_ctx =
  head :: u32
  tail :: u32
  lock :: u32
  queue :: "u32 \<Rightarrow> 'a option"

record 'a circ_globals =
  g_circ_ctx0 :: "'a circ_ctx"
  g_circ_ctx1 :: "'a circ_ctx"

definition circ_cnt :: "u32 \<Rightarrow> u32 \<Rightarrow> u32" where
  "circ_cnt h t = (h - t) AND CIRC_MASK"

definition circ_space :: "u32 \<Rightarrow> u32 \<Rightarrow> u32" where
  "circ_space h t = (t - (h + 1)) AND CIRC_MASK"

text \<open>The ring that a number names; any other number ends the process.\<close>

definition circ_sel :: "nat \<Rightarrow> 'a circ_globals \<Rightarrow> 'a circ_ctx run" where
  "circ_sel num g =
     (if num = 0 then Some (g_circ_ctx0 g)
      else if num = 1 then Some (g_circ_ctx1 g)
      else None)"

definition circ_upd :: "nat \<Rightarrow> 'a circ_ctx \<Rightarrow> 'a circ_globals \<Rightarrow> 'a circ_globals" where
  "circ_upd num c g =
     (if num = 0 then g\<lparr>g_circ_ctx0 := c\<rparr> else g\<lparr>g_circ_ctx1 := c\<rparr>)"

text \<open>
  Each operation spins on the lock, works, and releases it: called when the lock is held and
  nobody else runs, it never returns.
\<close>

definition circ_put :: "'a \<Rightarrow> 'a circ_ctx \<Rightarrow> 'a circ_ctx run" where
  "circ_put elem c = do {
     kout_if (lock c \<noteq> 0);
     let h = head c;
     let t = tail c;
     kout_if (circ_space h t = 0 \<or> queue c h \<noteq> None);
     Some (c\<lparr>queue := (queue c)(h := Some elem), head := (h + 1) AND CIRC_MASK, lock := 0\<rparr>)
   }"

definition circ_lookat :: "'a circ_ctx \<Rightarrow> 'a option" where
  "circ_lookat c =
     (let h = head c; t = tail c in
      if 1 \<le> circ_cnt h t then queue c t else None)"

definition circ_get :: "'a circ_ctx \<Rightarrow> ('a option \<times> 'a circ_ctx) run" where
  "circ_get c = do {
     kout_if (lock c \<noteq> 0);
     let h = head c;
     let t = tail c;
     if 1 \<le> circ_cnt h t then do {
       kout_if (queue c t = None);
       Some (queue c t,
             c\<lparr>queue := (queue c)(t := None), tail := (t + 1) AND CIRC_MASK, lock := 0\<rparr>)
     } else Some (None, c\<lparr>lock := 0\<rparr>)
   }"

definition circ_empty :: "'a circ_ctx \<Rightarrow> (u32 \<times> 'a circ_ctx) run" where
  "circ_empty c = do {
     kout_if (lock c \<noteq> 0);
     Some (circ_space (head c) (tail c), c\<lparr>lock := 0\<rparr>)
   }"

definition circ_used :: "'a circ_ctx \<Rightarrow> (u32 \<times> 'a circ_ctx) run" where
  "circ_used c = do {
     kout_if (lock c \<noteq> 0);
     Some (circ_cnt (head c) (tail c), c\<lparr>lock := 0\<rparr>)
   }"

definition circ_init :: "'a circ_ctx" where
  "circ_init = \<lparr>head = 0, tail = 0, lock = 0, queue = (\<lambda>_. None)\<rparr>"

definition circ_slot_put :: "nat \<Rightarrow> 'a \<Rightarrow> 'a circ_globals \<Rightarrow> 'a circ_globals run" where
  "circ_slot_put num elem g = do {
     c \<leftarrow> circ_sel num g;
     c' \<leftarrow> circ_put elem c;
     Some (circ_upd num c' g)
   }"

definition circ_slot_lookat :: "nat \<Rightarrow> 'a circ_globals \<Rightarrow> 'a option run" where
  "circ_slot_lookat num g = do {
     c \<leftarrow> circ_sel num g;
     Some (circ_lookat c)
   }"

definition circ_slot_get :: "nat \<Rightarrow> 'a circ_globals \<Rightarrow> ('a option \<times> 'a circ_globals) run" where
  "circ_slot_get num g = do {
     c \<leftarrow> circ_sel num g;
     (e, c') \<leftarrow> circ_get c;
     Some (e, circ_upd num c' g)
   }"

definition circ_empty_slot_nb :: "nat \<Rightarrow> 'a circ_globals \<Rightarrow> (u32 \<times> 'a circ_globals) run" where
  "circ_empty_slot_nb num g = do {
     c \<leftarrow> circ_sel num g;
     (n, c') \<leftarrow> circ_empty c;
     Some (n, circ_upd num c' g)
   }"

definition circ_used_slot_nb :: "nat \<Rightarrow> 'a circ_globals \<Rightarrow> (u32 \<times> 'a circ_globals) run" where
  "circ_used_slot_nb num g = do {
     c \<leftarrow> circ_sel num g;
     (n, c') \<leftarrow> circ_used c;
     Some (n, circ_upd num c' g)
   }"

definition circ_slot_init :: "nat \<Rightarrow> 'a circ_globals \<Rightarrow> 'a circ_globals run" where
  "circ_slot_init num g = do {
     c \<leftarrow> circ_sel num g;
     Some (circ_upd num circ_init g)
   }"


lemmas circ_op_defs = circ_put_def circ_lookat_def circ_get_def circ_empty_def circ_used_def

section \<open>Index arithmetic\<close>

text \<open>The slot \<open>k\<close> places after the tail.\<close>

definition slot_at :: "u32 \<Rightarrow> nat \<Rightarrow> u32" where
  "slot_at t k = (t + of_nat k) AND CIRC_MASK"

lemma uint_CIRC_MASK: "uint (x AND CIRC_MASK) = uint x mod 4096"
  unfolding CIRC_MASK_def by (rule uint_and_mask12)

lemma uint_slot_at: "uint (slot_at t k) = (uint t + int k) mod 4096"
proof -
  have "uint (slot_at t k) = (uint t + uint (of_nat k :: u32)) mod 4096"
    by (simp add: slot_at_def uint_CIRC_MASK uint_word_ariths mod_mod_cancel)
  moreover have "uint (of_nat k :: u32) = int k mod 2 ^ 32"
    by (simp add: unsigned_of_nat take_bit_eq_mod zmod_int)
  moreover have "int k mod 2 ^ 32 mod 4096 = int k mod 4096"
    by (rule mod_mod_cancel) simp
  ultimately show ?thesis by (metis mod_add_right_eq)
qed

lemma uint_inc_mask: "uint ((t + 1) AND CIRC_MASK) = (uint t + 1) mod 4096"
  by (simp add: uint_CIRC_MASK uint_word_ariths mod_mod_cancel)

lemma uint_circ_cnt: "uint (circ_cnt h t) = (uint h - uint t) mod 4096"
  by (simp add: circ_cnt_def uint_CIRC_MASK uint_word_ariths mod_mod_cancel)

lemma uint_circ_space: "uint (circ_space h t) = (uint t - (uint h + 1)) mod 4096"
  by (simp add: circ_space_def uint_CIRC_MASK uint_word_ariths mod_simps mod_mod_cancel)

lemma slot_at_0 [simp]: "t \<le> CIRC_MASK \<Longrightarrow> slot_at t 0 = t"
  by (simp add: word_uint_eq_iff uint_slot_at CIRC_MASK_def word_le_def)

lemma slot_at_le [simp]: "slot_at t k \<le> CIRC_MASK"
  by (simp add: slot_at_def word_and_le1)

lemma inc_mask_le [simp]: "(t + 1) AND CIRC_MASK \<le> CIRC_MASK"
  by (rule word_and_le1)

lemma slot_at_Suc: "(slot_at t k + 1) AND CIRC_MASK = slot_at t (Suc k)"
  by (simp only: word_uint_eq_iff uint_inc_mask uint_slot_at) (simp add: mod_simps algebra_simps)

lemma slot_at_next: "slot_at ((t + 1) AND CIRC_MASK) k = slot_at t (Suc k)"
  by (simp only: word_uint_eq_iff uint_inc_mask uint_slot_at) (simp add: mod_simps algebra_simps)

lemma slot_at_inj: "j < 4096 \<Longrightarrow> k < 4096 \<Longrightarrow> slot_at t j = slot_at t k \<longleftrightarrow> j = k"
proof
  assume jk: "j < 4096" "k < 4096" and "slot_at t j = slot_at t k"
  then have "(uint t + int j) mod 4096 = (uint t + int k) mod 4096"
    by (metis uint_slot_at)
  then have "4096 dvd (int j - int k)"
    by (simp add: mod_eq_dvd_iff)
  with jk show "j = k"
    using dvd_imp_le_int [of "int j - int k" 4096] by force
qed simp

lemma unat_circ_cnt_slot_at: "n < 4096 \<Longrightarrow> unat (circ_cnt (slot_at t n) t) = n"
proof -
  assume "n < 4096"
  then have "uint (circ_cnt (slot_at t n) t) = int n"
    by (simp add: uint_circ_cnt uint_slot_at mod_simps)
  then show ?thesis by (metis nat_int unat_eq_nat_uint)
qed

lemma unat_circ_space_slot_at: "n < 4096 \<Longrightarrow> unat (circ_space (slot_at t n) t) = 4095 - n"
proof -
  assume "n < 4096"
  have "uint (circ_space (slot_at t n) t) = (int (4095 - n) - 4096) mod 4096"
  proof -
    have "uint (circ_space (slot_at t n) t) = (uint t - 1 - (uint t + int n) mod 4096) mod 4096"
      by (simp add: uint_circ_space uint_slot_at algebra_simps)
    also have "\<dots> = (uint t - 1 - (uint t + int n)) mod 4096"
      by (rule mod_diff_right_eq)
    finally show ?thesis using \<open>n < 4096\<close> by simp
  qed
  also have "\<dots> = int (4095 - n)"
    by (simp only: minus_mod_self2) simp
  finally show ?thesis by (metis nat_int unat_eq_nat_uint)
qed

section \<open>The queue that a ring holds\<close>

definition circ_rep :: "'a circ_ctx \<Rightarrow> 'a list \<Rightarrow> bool" where
  "circ_rep c xs \<longleftrightarrow>
     lock c = 0 \<and> tail c \<le> CIRC_MASK \<and> length xs < 4096 \<and>
     head c = slot_at (tail c) (length xs) \<and>
     (\<forall>k < length xs. queue c (slot_at (tail c) k) = Some (xs ! k)) \<and>
     (\<forall>k. length xs \<le> k \<longrightarrow> k < 4096 \<longrightarrow> queue c (slot_at (tail c) k) = None)"

definition circ_list :: "'a circ_ctx \<Rightarrow> 'a list" where
  "circ_list c =
     map (\<lambda>k. the (queue c (slot_at (tail c) k))) [0..<unat (circ_cnt (head c) (tail c))]"

definition circ_inv :: "'a circ_ctx \<Rightarrow> bool" where
  "circ_inv c \<longleftrightarrow> circ_rep c (circ_list c)"

lemma circ_rep_list: "circ_rep c xs \<Longrightarrow> circ_list c = xs"
  by (auto simp: circ_rep_def circ_list_def unat_circ_cnt_slot_at intro: nth_equalityI)

lemma circ_rep_iff: "circ_rep c xs \<longleftrightarrow> circ_inv c \<and> circ_list c = xs"
  by (auto simp: circ_inv_def dest: circ_rep_list)

lemma circ_rep_init: "circ_rep circ_init []"
  by (simp add: circ_rep_def circ_init_def)

lemma circ_rep_put:
  assumes "circ_rep c xs" and "length xs < 4095"
  shows "\<exists>c'. circ_put x c = Some c' \<and> circ_rep c' (xs @ [x])"
proof -
  let ?c' = "c\<lparr>queue := (queue c)(head c := Some x), head := (head c + 1) AND CIRC_MASK, lock := 0\<rparr>"
  have "unat (circ_space (head c) (tail c)) \<noteq> 0"
    using assms by (simp add: circ_rep_def unat_circ_space_slot_at)
  then have "circ_put x c = Some ?c'"
    using assms by (auto simp: circ_put_def circ_rep_def kout_if_bind Let_def)
  moreover have "circ_rep ?c' (xs @ [x])"
    using assms by (auto simp: circ_rep_def slot_at_Suc slot_at_inj nth_append)
  ultimately show ?thesis by blast
qed

lemma circ_rep_put_full:
  assumes "circ_rep c xs" and "4095 \<le> length xs"
  shows "circ_put x c = None"
proof -
  have "unat (circ_space (head c) (tail c)) = 0"
    using assms by (simp add: circ_rep_def unat_circ_space_slot_at)
  then have "circ_space (head c) (tail c) = 0" by (simp add: unat_eq_zero)
  then show ?thesis by (simp add: circ_put_def kout_if_bind Let_def)
qed

lemma circ_rep_cnt: "circ_rep c xs \<Longrightarrow> unat (circ_cnt (head c) (tail c)) = length xs"
  by (simp add: circ_rep_def unat_circ_cnt_slot_at)

lemma circ_rep_cnt_ge: "circ_rep c xs \<Longrightarrow> 1 \<le> circ_cnt (head c) (tail c) \<longleftrightarrow> xs \<noteq> []"
  using circ_rep_cnt [of c xs] by (cases xs) (auto simp: word_le_nat_alt)

lemma circ_rep_lookat:
  "circ_rep c xs \<Longrightarrow> circ_lookat c = (case xs of [] \<Rightarrow> None | x # _ \<Rightarrow> Some x)"
  using circ_rep_cnt_ge [of c xs]
  by (cases xs) (auto simp: circ_lookat_def Let_def circ_rep_def)

lemma circ_rep_get:
  assumes "circ_rep c xs"
  shows "\<exists>c'. circ_get c = Some (case xs of [] \<Rightarrow> None | x # _ \<Rightarrow> Some x, c') \<and> circ_rep c' (tl xs)"
proof (cases xs)
  case Nil
  with assms circ_rep_cnt_ge [OF assms] show ?thesis
    by (auto simp: circ_get_def kout_if_bind circ_rep_def Let_def)
next
  case (Cons x ys)
  let ?c' = "c\<lparr>queue := (queue c)(tail c := None), tail := (tail c + 1) AND CIRC_MASK, lock := 0\<rparr>"
  have q: "queue c (tail c) = Some x"
    using assms Cons by (auto simp: circ_rep_def)
  with assms Cons circ_rep_cnt_ge [OF assms] have "circ_get c = Some (Some x, ?c')"
    by (auto simp: circ_get_def kout_if_bind circ_rep_def Let_def)
  moreover have "circ_rep ?c' ys"
  proof -
    have "slot_at (tail c) (Suc k) \<noteq> tail c" if "k < 4095" for k
      using assms that slot_at_inj [of "Suc k" 0 "tail c"] by (simp add: circ_rep_def)
    moreover have "slot_at (tail c) 4096 = tail c"
      using assms by (simp add: circ_rep_def word_uint_eq_iff uint_slot_at CIRC_MASK_def word_le_def)
    ultimately have "queue ?c' (slot_at (tail c) (Suc k)) = None"
      if "length ys \<le> k" "k < 4096" for k
      using assms Cons that by (cases "k = 4095") (auto simp: circ_rep_def)
    moreover have "queue ?c' (slot_at (tail c) (Suc k)) = Some (ys ! k)" if "k < length ys" for k
      using assms Cons that \<open>\<And>k. k < 4095 \<Longrightarrow> slot_at (tail c) (Suc k) \<noteq> tail c\<close>
      by (auto simp: circ_rep_def)
    ultimately show ?thesis
      using assms Cons by (auto simp: circ_rep_def slot_at_next)
  qed
  ultimately show ?thesis using Cons by auto
qed


section \<open>A ring is a queue of 4095 places\<close>

lemma circ_inv_repD: "circ_inv c \<Longrightarrow> circ_rep c (circ_list c)"
  by (simp add: circ_inv_def)

lemma circ_rep_used: "circ_rep c xs \<Longrightarrow> circ_used c = Some (circ_cnt (head c) (tail c), c)"
  by (simp add: circ_used_def circ_rep_def kout_if_bind)

lemma circ_rep_empty:
  "circ_rep c xs \<Longrightarrow>
   circ_empty c = Some (circ_space (head c) (tail c), c) \<and>
   unat (circ_space (head c) (tail c)) = 4095 - length xs"
  by (simp add: circ_empty_def circ_rep_def kout_if_bind unat_circ_space_slot_at)

interpretation ring: slot_fifo 4095 circ_init circ_put circ_get circ_lookat circ_used circ_empty
  circ_list circ_inv
proof unfold_locales
  fix q :: "'a circ_ctx" and x :: 'a
  show "circ_inv (circ_init :: 'a circ_ctx)" "circ_list (circ_init :: 'a circ_ctx) = []"
    using circ_rep_init [where 'a = 'a] by (simp_all add: circ_rep_iff)
  assume inv: "circ_inv q"
  note rep = circ_inv_repD [OF inv]
  show "length (circ_list q) \<le> 4095"
    using rep by (simp add: circ_rep_def)
  show "\<exists>q'. circ_put x q = Some q' \<and> circ_inv q' \<and> circ_list q' = circ_list q @ [x]"
    if "length (circ_list q) < 4095"
    using circ_rep_put [OF rep that, of x] by (simp add: circ_rep_iff)
  show "circ_put x q = None" if "length (circ_list q) = 4095"
    using circ_rep_put_full [OF rep] that by simp
  show "\<exists>q'. circ_get q = Some (case circ_list q of [] \<Rightarrow> None | x # _ \<Rightarrow> Some x, q') \<and>
        circ_inv q' \<and> circ_list q' = tl (circ_list q)"
    using circ_rep_get [OF rep] by (simp add: circ_rep_iff)
  show "circ_lookat q = (case circ_list q of [] \<Rightarrow> None | x # _ \<Rightarrow> Some x)"
    by (rule circ_rep_lookat [OF rep])
  show "\<exists>n. circ_used q = Some (n, q) \<and> unat n = length (circ_list q)"
    using circ_rep_used [OF rep] circ_rep_cnt [OF rep] by simp
  show "\<exists>n. circ_empty q = Some (n, q) \<and> unat n = 4095 - length (circ_list q)"
    using circ_rep_empty [OF rep] by simp
qed

section \<open>The properties of a ring\<close>

text \<open>the ring of a side is a queue of 4095 places: from a ring whose contents are the list
  \<open>ys\<close>, putting a burst \<open>xs\<close> ends the process exactly if the burst does not fit, and
  otherwise everything comes out again, in the order it was put, and the ring is empty.\<close>

theorem ring_burst:
  assumes "circ_inv c"
  shows "if length (circ_list c) + length xs \<le> 4095
    then \<exists>c'. put_all circ_put c xs \<bind> get_n circ_get (length (circ_list c) + length xs) =
                Some (map Some (circ_list c @ xs), c') \<and> circ_inv c' \<and> circ_get c' = Some (None, c')
    else put_all circ_put c xs = None"
proof (cases "length (circ_list c) + length xs \<le> 4095")
  case True
  obtain c1 where c1: "put_all circ_put c xs = Some c1" "circ_inv c1" "circ_list c1 = circ_list c @ xs"
    using ring.put_all_spec [OF assms True] by blast
  then obtain c2 where c2: "get_n circ_get (length (circ_list c) + length xs) c1 =
      Some (map Some (circ_list c @ xs), c2)" "circ_inv c2" "circ_list c2 = []"
    using ring.get_n_spec [of c1 "length (circ_list c) + length xs"] by auto
  have "circ_get c2 = Some (None, c2)"
    using circ_inv_repD [OF c2(2)] circ_rep_cnt_ge [OF circ_inv_repD [OF c2(2)]] c2(3)
    by (auto simp: circ_get_def kout_if_bind circ_rep_def Let_def)
  with c1 c2 True show ?thesis by simp
next
  case False
  then show ?thesis using ring.put_all_overflow [OF assms, of xs] by simp
qed


theorem ring_burst_witness:
  "\<exists>c'. put_all circ_put circ_init ''abc'' \<bind> get_n circ_get 3 = Some (map Some ''abc'', c') \<and>
     circ_get c' = Some (None, c')"
  using ring_burst [of circ_init "''abc''"] circ_rep_init [where 'a = char]
  by (auto simp: circ_rep_iff numeral_3_eq_3)

end
