(* ===== verification/Circ_Threads.thy ===== *)
theory Circ_Threads
  imports Circ_Slot
begin

text \<open>
  The ring of \<open>mua2b/src/circ_slot.c\<close> used by several threads at once. \<open>circ_slot_put\<close> and
  \<open>circ_slot_get\<close> are cut at every access to shared memory (test-and-set of the lock, loads
  of head and tail, store to the slot, compare-and-swap, release), and the steps of any
  number of threads interleave. Shown: the lock excludes, the compare-and-swaps never fail,
  a slot that is read is never \<open>NULL\<close>, and each operation takes effect on the queue at its
  compare-and-swap, so the ring is a linearizable queue. The only way the process ends is a
  \<open>circ_slot_put\<close> on a ring that holds 4095 elements.
\<close>

datatype 'a pc =
    Idle
  | Put_spin 'a | Put_head 'a | Put_tail 'a u32 | Put_check 'a u32 u32
  | Put_cas 'a u32 u32 | Put_unlock
  | Get_spin | Get_head | Get_tail u32 | Get_check u32 u32
  | Get_cas 'a u32 u32 | Get_unlock "'a option"

record 'a circ_sys =
  ring :: "'a circ_ctx"
  pcs :: "nat \<Rightarrow> 'a pc"
  exited :: bool
  ret :: "nat \<Rightarrow> 'a option"

definition goto :: "nat \<Rightarrow> 'a pc \<Rightarrow> 'a circ_sys \<Rightarrow> 'a circ_sys" where
  "goto i p s = s\<lparr>pcs := (pcs s)(i := p)\<rparr>"

definition with_ring :: "('a circ_ctx \<Rightarrow> 'a circ_ctx) \<Rightarrow> 'a circ_sys \<Rightarrow> 'a circ_sys" where
  "with_ring f s = s\<lparr>ring := f (ring s)\<rparr>"

text \<open>One access to shared memory by the thread \<open>i\<close>.\<close>

definition circ_micro :: "nat \<Rightarrow> 'a circ_sys \<Rightarrow> 'a circ_sys" where
  "circ_micro i s = (let c = ring s in case pcs s i of
     Idle \<Rightarrow> s
   | Put_spin x \<Rightarrow>
       with_ring (\<lambda>c. c\<lparr>lock := 1\<rparr>) (goto i (if lock c = 0 then Put_head x else Put_spin x) s)
   | Put_head x \<Rightarrow> goto i (Put_tail x (head c)) s
   | Put_tail x h \<Rightarrow> goto i (Put_check x h (tail c)) s
   | Put_check x h t \<Rightarrow>
       if circ_space h t = 0 \<or> queue c h \<noteq> None then s\<lparr>exited := True\<rparr>
       else with_ring (\<lambda>c. c\<lparr>queue := (queue c)(h := Some x)\<rparr>)
              (goto i (Put_cas x h ((h + 1) AND CIRC_MASK)) s)
   | Put_cas x h nh \<Rightarrow>
       if head c \<noteq> h then s\<lparr>exited := True\<rparr>
       else with_ring (\<lambda>c. c\<lparr>head := nh\<rparr>) (goto i Put_unlock s)
   | Put_unlock \<Rightarrow> with_ring (\<lambda>c. c\<lparr>lock := 0\<rparr>) (goto i Idle s)
   | Get_spin \<Rightarrow>
       with_ring (\<lambda>c. c\<lparr>lock := 1\<rparr>) (goto i (if lock c = 0 then Get_head else Get_spin) s)
   | Get_head \<Rightarrow> goto i (Get_tail (head c)) s
   | Get_tail h \<Rightarrow> goto i (Get_check h (tail c)) s
   | Get_check h t \<Rightarrow>
       if 1 \<le> circ_cnt h t then
         (case queue c t of
            None \<Rightarrow> s\<lparr>exited := True\<rparr>
          | Some e \<Rightarrow> with_ring (\<lambda>c. c\<lparr>queue := (queue c)(t := None)\<rparr>)
                       (goto i (Get_cas e t ((t + 1) AND CIRC_MASK)) s))
       else goto i (Get_unlock None) s
   | Get_cas e t nt \<Rightarrow>
       if tail c \<noteq> t then s\<lparr>exited := True\<rparr>
       else with_ring (\<lambda>c. c\<lparr>tail := nt\<rparr>) (goto i (Get_unlock (Some e)) s)
   | Get_unlock r \<Rightarrow>
       with_ring (\<lambda>c. c\<lparr>lock := 0\<rparr>) (goto i Idle (s\<lparr>ret := (ret s)(i := r)\<rparr>)))"

text \<open>The scheduler picks any thread, as long as the process has not exited.\<close>

inductive circ_step :: "nat \<Rightarrow> 'a circ_sys \<Rightarrow> 'a circ_sys \<Rightarrow> bool" where
  call_put: "\<not> exited s \<Longrightarrow> pcs s i = Idle \<Longrightarrow> circ_step i s (goto i (Put_spin x) s)"
| call_get: "\<not> exited s \<Longrightarrow> pcs s i = Idle \<Longrightarrow> circ_step i s (goto i Get_spin s)"
| move: "\<not> exited s \<Longrightarrow> pcs s i \<noteq> Idle \<Longrightarrow> circ_step i s (circ_micro i s)"

inductive_cases circ_stepE: "circ_step i s t"

section \<open>The queue, and where each operation changes it\<close>

text \<open>The list of elements after a step of a thread that was at \<open>p\<close>: only the two
  compare-and-swaps change it.\<close>

fun linearize :: "'a pc \<Rightarrow> 'a list \<Rightarrow> 'a list" where
  "linearize (Put_cas x h nh) xs = xs @ [x]"
| "linearize (Get_cas e t nt) xs = tl xs"
| "linearize _ xs = xs"

fun holds_lock :: "'a pc \<Rightarrow> bool" where
  "holds_lock Idle = False"
| "holds_lock (Put_spin x) = False"
| "holds_lock Get_spin = False"
| "holds_lock _ = True"

abbreviation unlocked :: "'a circ_ctx \<Rightarrow> 'a circ_ctx" where
  "unlocked c \<equiv> c\<lparr>lock := 0\<rparr>"

text \<open>What the thread inside the critical section knows of the ring.\<close>

fun owner_view :: "'a circ_ctx \<Rightarrow> 'a list \<Rightarrow> 'a pc \<Rightarrow> bool" where
  "owner_view c xs (Put_tail x h) = (circ_rep (unlocked c) xs \<and> h = head c)"
| "owner_view c xs (Put_check x h t) = (circ_rep (unlocked c) xs \<and> h = head c \<and> t = tail c)"
| "owner_view c xs (Put_cas x h nh) =
     (circ_rep (unlocked c\<lparr>queue := (queue c)(h := None)\<rparr>) xs \<and> length xs < 4095 \<and>
      queue c h = Some x \<and> h = head c \<and> nh = (h + 1) AND CIRC_MASK)"
| "owner_view c xs (Get_tail h) = (circ_rep (unlocked c) xs \<and> h = head c)"
| "owner_view c xs (Get_check h t) = (circ_rep (unlocked c) xs \<and> h = head c \<and> t = tail c)"
| "owner_view c xs (Get_cas e t nt) =
     (circ_rep (unlocked c\<lparr>queue := (queue c)(t := Some e)\<rparr>) xs \<and> xs \<noteq> [] \<and> hd xs = e \<and>
      queue c t = None \<and> t = tail c \<and> nt = (t + 1) AND CIRC_MASK)"
| "owner_view c xs _ = circ_rep (unlocked c) xs"

definition lock_free :: "'a circ_sys \<Rightarrow> 'a list \<Rightarrow> bool" where
  "lock_free s xs \<longleftrightarrow>
     lock (ring s) = 0 \<and> (\<forall>i. \<not> holds_lock (pcs s i)) \<and> circ_rep (unlocked (ring s)) xs"

definition owned_by :: "nat \<Rightarrow> 'a circ_sys \<Rightarrow> 'a list \<Rightarrow> bool" where
  "owned_by i s xs \<longleftrightarrow>
     lock (ring s) = 1 \<and> holds_lock (pcs s i) \<and> (\<forall>j. j \<noteq> i \<longrightarrow> \<not> holds_lock (pcs s j)) \<and>
     owner_view (ring s) xs (pcs s i)"

definition threads_inv :: "'a circ_sys \<Rightarrow> 'a list \<Rightarrow> bool" where
  "threads_inv s xs \<longleftrightarrow> lock_free s xs \<or> (\<exists>i. owned_by i s xs)"

lemmas micro_simps = circ_micro_def goto_def with_ring_def Let_def

section \<open>The critical section runs the sequential operation\<close>

lemma put_cas_completes:
  assumes "owner_view c xs (Put_cas x h nh)"
  shows "circ_rep (unlocked (c\<lparr>head := nh\<rparr>)) (xs @ [x])"
proof -
  let ?c = "unlocked c\<lparr>queue := (queue c)(h := None)\<rparr>"
  from assms have rep: "circ_rep ?c xs" and len: "length xs < 4095" by auto
  obtain c' where put: "circ_put x ?c = Some c'" and rep': "circ_rep c' (xs @ [x])"
    using circ_rep_put [OF rep len, of x] by blast
  have "c' = unlocked (c\<lparr>head := nh\<rparr>)"
    using put assms by (auto simp: circ_put_def kout_if_bind Let_def fun_upd_idem split: if_splits)
  with rep' show ?thesis by simp
qed

lemma get_cas_completes:
  assumes "owner_view c xs (Get_cas e t nt)"
  shows "circ_rep (unlocked (c\<lparr>tail := nt\<rparr>)) (tl xs)"
proof -
  let ?c = "unlocked c\<lparr>queue := (queue c)(t := Some e)\<rparr>"
  from assms have rep: "circ_rep ?c xs" and ne: "xs \<noteq> []" by auto
  obtain c' where get: "circ_get ?c = Some (Some (hd xs), c')" and rep': "circ_rep c' (tl xs)"
    using circ_rep_get [OF rep] ne by (cases xs) auto
  have "c' = unlocked (c\<lparr>tail := nt\<rparr>)"
    using get assms by (auto simp: circ_get_def kout_if_bind Let_def fun_upd_idem split: if_splits)
  with rep' show ?thesis by simp
qed

lemma get_check_finds:
  assumes "circ_rep (unlocked c) xs" and "1 \<le> circ_cnt (head c) (tail c)"
  shows "xs \<noteq> [] \<and> queue c (tail c) = Some (hd xs)"
proof -
  from assms circ_rep_cnt_ge [OF assms(1)] have "xs \<noteq> []" by simp
  with circ_rep_lookat [OF assms(1)] assms(2) show ?thesis
    by (cases xs) (simp_all add: circ_lookat_def Let_def)
qed

lemma put_check_full:
  assumes "circ_rep (unlocked c) xs"
  shows "circ_space (head c) (tail c) = 0 \<or> queue c (head c) \<noteq> None \<longleftrightarrow> length xs = 4095"
  using assms circ_rep_empty [OF assms]
  by (auto simp: circ_rep_def unat_eq_zero)


section \<open>Every step keeps the invariant\<close>

lemma owner_view_simps_lock [simp]: "owner_view (c\<lparr>lock := l\<rparr>) xs p = owner_view c xs p"
  by (cases p) simp_all

lemma idle_not_holding: "holds_lock (pcs s i) \<Longrightarrow> pcs s i \<noteq> Idle"
  by auto

lemma owned_by_unique: "owned_by i s xs \<Longrightarrow> owned_by j s ys \<Longrightarrow> i = j"
  by (auto simp: owned_by_def)

text \<open>A thread outside the critical section either waits or takes the free lock.\<close>

lemma spin_step:
  assumes "threads_inv s xs" and "\<not> holds_lock (pcs s i)" and "pcs s i \<noteq> Idle"
  shows "threads_inv (circ_micro i s) xs \<and> exited (circ_micro i s) = exited s"
proof -
  from assms(2,3) consider x where "pcs s i = Put_spin x" | "pcs s i = Get_spin"
    by (cases "pcs s i") simp_all
  note pc = this
  from assms(1) consider "lock_free s xs" | j where "owned_by j s xs" "j \<noteq> i"
    using assms(2) unfolding threads_inv_def owned_by_def by metis
  then show ?thesis
  proof cases
    case 1
    then have "owned_by i (circ_micro i s) xs"
      by (cases rule: pc) (auto simp: lock_free_def owned_by_def micro_simps)
    then show ?thesis by (cases rule: pc) (auto simp: threads_inv_def micro_simps)
  next
    case 2
    then have "owned_by j (circ_micro i s) xs"
      by (cases rule: pc) (auto simp: owned_by_def micro_simps)
    then show ?thesis by (cases rule: pc) (auto simp: threads_inv_def micro_simps)
  qed
qed

text \<open>The owner of the lock: it moves on, or it releases the lock, or the ring was full.\<close>

lemma owner_step:
  assumes "owned_by i s xs" and "\<not> exited s"
  shows "threads_inv (circ_micro i s) (linearize (pcs s i) xs) \<and> \<not> exited (circ_micro i s) \<or>
         (\<exists>x h t. pcs s i = Put_check x h t) \<and> length xs = 4095"
proof -
  let ?t = "circ_micro i s" and ?ys = "linearize (pcs s i) xs"
  have own: "owned_by i ?t ?ys \<Longrightarrow> threads_inv ?t ?ys"
    and free: "lock_free ?t ?ys \<Longrightarrow> threads_inv ?t ?ys"
    by (auto simp: threads_inv_def)
  show ?thesis
  proof (cases "pcs s i")
    case (Put_check x h t)
    show ?thesis
    proof (cases "length xs = 4095")
      case True
      with Put_check show ?thesis by simp
    next
      case False
      with assms Put_check put_check_full [of "ring s" xs]
      have "owned_by i ?t ?ys \<and> \<not> exited ?t"
        by (auto simp: owned_by_def micro_simps circ_rep_def fun_upd_idem)
      with own show ?thesis by simp
    qed
  next
    case (Put_cas x h nh)
    with assms put_cas_completes [of "ring s" xs x h nh]
    have "owned_by i ?t ?ys \<and> \<not> exited ?t"
      by (auto simp: owned_by_def micro_simps)
    with own show ?thesis by simp
  next
    case (Get_check h t)
    with assms get_check_finds [of "ring s" xs]
    have "owned_by i ?t ?ys \<and> \<not> exited ?t"
      by (auto simp: owned_by_def micro_simps fun_upd_idem)
    with own show ?thesis by simp
  next
    case (Get_cas e t nt)
    with assms get_cas_completes [of "ring s" xs e t nt]
    have "owned_by i ?t ?ys \<and> \<not> exited ?t"
      by (auto simp: owned_by_def micro_simps)
    with own show ?thesis by simp
  next
    case Put_unlock
    with assms have "lock_free ?t ?ys \<and> \<not> exited ?t"
      by (auto simp: owned_by_def lock_free_def micro_simps)
    with free show ?thesis by simp
  next
    case (Get_unlock r)
    with assms have "lock_free ?t ?ys \<and> \<not> exited ?t"
      by (auto simp: owned_by_def lock_free_def micro_simps)
    with free show ?thesis by simp
  next
    case (Put_head x)
    with assms own show ?thesis by (auto simp: owned_by_def micro_simps)
  next
    case (Put_tail x h)
    with assms own show ?thesis by (auto simp: owned_by_def micro_simps)
  next
    case Get_head
    with assms own show ?thesis by (auto simp: owned_by_def micro_simps)
  next
    case (Get_tail h)
    with assms own show ?thesis by (auto simp: owned_by_def micro_simps)
  qed (use assms in \<open>auto simp: owned_by_def\<close>)
qed

lemma call_step:
  assumes "threads_inv s xs" and "pcs s i = Idle" and "\<not> holds_lock p"
  shows "threads_inv (goto i p s) xs"
  using assms unfolding threads_inv_def lock_free_def owned_by_def goto_def
  by (elim disjE exE) (auto, metis holds_lock.simps(1))

lemma linearize_outside: "\<not> holds_lock p \<Longrightarrow> linearize p xs = xs"
  by (cases p) simp_all

lemma circ_step_inv:
  assumes "circ_step i s t" and "threads_inv s xs"
  shows "threads_inv t (linearize (pcs s i) xs) \<and> \<not> exited t \<or>
         (\<exists>x h k. pcs s i = Put_check x h k) \<and> length xs = 4095"
  using assms(1)
proof (cases rule: circ_step.cases)
  case (call_put x)
  then show ?thesis using call_step [OF assms(2), of i "Put_spin x"] by (simp add: goto_def)
next
  case call_get
  then show ?thesis using call_step [OF assms(2), of i Get_spin] by (simp add: goto_def)
next
  case move
  show ?thesis
  proof (cases "holds_lock (pcs s i)")
    case True
    with assms(2) have "owned_by i s xs"
      unfolding threads_inv_def lock_free_def owned_by_def by metis
    with move owner_step show ?thesis by blast
  next
    case False
    with spin_step [OF assms(2)] move show ?thesis by (simp add: linearize_outside)
  qed
qed

section \<open>Runs of the threads\<close>

text \<open>A schedule is the list of threads that move. \<open>trace s is t xs ys\<close>: from \<open>s\<close> to \<open>t\<close> under
  the schedule \<open>is\<close>, with the elements put and got at the compare-and-swaps in order.\<close>

fun put_event :: "'a pc \<Rightarrow> 'a list" where
  "put_event (Put_cas x h nh) = [x]"
| "put_event _ = []"

fun get_event :: "'a pc \<Rightarrow> 'a list" where
  "get_event (Get_cas e t nt) = [e]"
| "get_event _ = []"

inductive circ_run :: "'a circ_sys \<Rightarrow> nat list \<Rightarrow> 'a circ_sys \<Rightarrow> 'a list \<Rightarrow> 'a list \<Rightarrow> bool" where
  run_nil: "circ_run s [] s [] []"
| run_cons: "circ_step i s t \<Longrightarrow> circ_run t is u ps gs \<Longrightarrow>
     circ_run s (i # is) u (put_event (pcs s i) @ ps) (get_event (pcs s i) @ gs)"

definition circ_sys_init :: "'a circ_sys" where
  "circ_sys_init = \<lparr>ring = circ_init, pcs = (\<lambda>_. Idle), exited = False, ret = (\<lambda>_. None)\<rparr>"

lemma threads_inv_init: "threads_inv circ_sys_init []"
  using circ_rep_init [where 'a = 'a]
  by (simp add: threads_inv_def lock_free_def circ_sys_init_def circ_rep_def)

lemma linearize_events:
  assumes "threads_inv s xs"
  shows "xs @ put_event (pcs s i) = get_event (pcs s i) @ linearize (pcs s i) xs"
proof (cases "pcs s i")
  case (Get_cas e t nt)
  with assms have "owner_view (ring s) xs (Get_cas e t nt)"
    unfolding threads_inv_def lock_free_def owned_by_def by (metis holds_lock.simps(12))
  then show ?thesis using Get_cas by (cases xs) auto
qed simp_all


lemma exited_stops: "circ_step i s t \<Longrightarrow> \<not> exited s"
  by (auto elim: circ_step.cases)

lemma circ_run_linear:
  "circ_run s is t ps gs \<Longrightarrow> \<not> exited s \<Longrightarrow> threads_inv s xs \<Longrightarrow>
   \<exists>ys. xs @ ps = gs @ ys \<and> (\<not> exited t \<and> threads_inv t ys \<or> exited t \<and> length ys = 4095)"
proof (induction arbitrary: xs rule: circ_run.induct)
  case (run_nil s)
  then show ?case by auto
next
  case (run_cons i s t "is" u ps gs)
  let ?ys = "linearize (pcs s i) xs"
  note ev = linearize_events [OF run_cons.prems(2), of i]
  consider "threads_inv t ?ys" "\<not> exited t"
    | x h k where "pcs s i = Put_check x h k" "length xs = 4095" "exited t \<or> \<not> threads_inv t ?ys"
    using circ_step_inv [OF run_cons.hyps(1) run_cons.prems(2)] by blast
  then show ?case
  proof cases
    case 1
    with run_cons.IH [of ?ys] obtain zs where "?ys @ ps = gs @ zs"
      "\<not> exited u \<and> threads_inv u zs \<or> exited u \<and> length zs = 4095" by blast
    with ev show ?thesis by (metis append_assoc)
  next
    case 2
    have own: "owned_by i s xs"
      using run_cons.prems(2) 2(1) unfolding threads_inv_def lock_free_def owned_by_def
      by (metis holds_lock.simps(6))
    have "t = circ_micro i s"
      using run_cons.hyps(1) 2(1) by (auto elim: circ_step.cases)
    with own 2 put_check_full [of "ring s" xs] have t: "exited t"
      by (auto simp: owned_by_def circ_micro_def Let_def)
    from run_cons.hyps(2) t have "u = t \<and> ps = [] \<and> gs = []"
      by (cases rule: circ_run.cases) (auto dest: exited_stops)
    with t 2 show ?thesis by auto
  qed
qed

section \<open>The properties of the shared ring\<close>

text \<open>C1: any number of threads that put and get on one ring, in any interleaving of their
  accesses to memory: the elements got are, in order, the first of those put (each operation
  taking effect at its compare-and-swap), the rest being on the ring, and the process ends only
  in a put on a ring that holds 4095 elements.\<close>

theorem ring_linearizable:
  assumes "circ_run circ_sys_init schedule s puts gets"
  shows "\<exists>ys. puts = gets @ ys \<and>
     (\<not> exited s \<and> threads_inv s ys \<or> exited s \<and> length ys = 4095)"
  using circ_run_linear [OF assms _ threads_inv_init] by (simp add: circ_sys_init_def)

text \<open>A given schedule of threads that are all inside an operation, executed.\<close>

fun circ_exec :: "'a circ_sys \<Rightarrow> nat list \<Rightarrow> ('a circ_sys \<times> 'a list \<times> 'a list) option" where
  "circ_exec s [] = Some (s, [], [])"
| "circ_exec s (i # is) =
     (if exited s \<or> pcs s i = Idle then None
      else case circ_exec (circ_micro i s) is of
        None \<Rightarrow> None
      | Some (u, ps, gs) \<Rightarrow> Some (u, put_event (pcs s i) @ ps, get_event (pcs s i) @ gs))"

lemma circ_exec_run: "circ_exec s is = Some (u, ps, gs) \<Longrightarrow> circ_run s is u ps gs"
  by (induction s "is" arbitrary: ps gs rule: circ_exec.induct)
    (auto intro: run_nil run_cons move split: if_splits option.splits)

theorem ring_linearizable_witness:
  "\<exists>(s :: nat circ_sys) ys.
     circ_run circ_sys_init [0, 1, 0, 1, 0, 0, 0, 0, 0, 1, 1, 1, 1, 1] s [7] [7] \<and>
     [7] = [7] @ ys \<and> (\<not> exited s \<and> threads_inv s ys \<or> exited s \<and> length ys = 4095)"
proof -
  let ?s1 = "goto 0 (Put_spin 7) (circ_sys_init :: nat circ_sys)"
  let ?s2 = "goto 1 Get_spin ?s1"
  have "\<exists>u. circ_exec ?s2 [0, 1, 0, 0, 0, 0, 0, 1, 1, 1, 1, 1] = Some (u, [7], [7])"
    by (simp add: micro_simps circ_sys_init_def circ_init_def circ_cnt_def circ_space_def CIRC_MASK_def)
  then obtain u where "circ_run ?s2 [0, 1, 0, 0, 0, 0, 0, 1, 1, 1, 1, 1] u [7] [7]"
    using circ_exec_run by blast
  moreover have "circ_step 0 circ_sys_init ?s1"
    by (rule circ_step.call_put) (simp_all add: circ_sys_init_def)
  moreover have "circ_step 1 ?s1 ?s2"
    by (rule circ_step.call_get) (simp_all add: circ_sys_init_def goto_def)
  ultimately have "circ_run circ_sys_init [0, 1, 0, 1, 0, 0, 0, 0, 0, 1, 1, 1, 1, 1] u [7] [7]"
    using run_cons [of 0 circ_sys_init ?s1] run_cons [of 1 ?s1 ?s2]
    by (fastforce simp: circ_sys_init_def goto_def)
  from this ring_linearizable [OF this] show ?thesis by blast
qed

end
