(* ===== verification/C_Text.thy ===== *)
theory C_Text
  imports Prelude
begin

text \<open>
  What the sources use of \<open>sprintf\<close>, \<open>sscanf\<close> and \<open>string.h\<close>. A C string is the list of its
  characters before the NUL.
\<close>

section \<open>Decimal numbers and words\<close>

text \<open>\<open>sprintf\<close> of \<open>%d\<close>.\<close>

fun dec_nat :: "nat \<Rightarrow> string" where
  "dec_nat n = (if n < 10 then [char_of (48 + n)] else dec_nat (n div 10) @ [char_of (48 + n mod 10)])"

declare dec_nat.simps [simp del]

definition dec_int :: "int \<Rightarrow> string" where
  "dec_int i = (if i < 0 then CHR ''-'' # dec_nat (nat (- i)) else dec_nat (nat i))"

text \<open>\<open>sscanf\<close>: white space, the conversion \<open>%s\<close>, and the conversion \<open>%d\<close>, whose value \<open>strtol\<close>
  saturates to a \<open>long\<close> before it is stored in an \<open>int\<close>. \<open>None\<close> when nothing is converted.\<close>

definition is_space :: "char \<Rightarrow> bool" where
  "is_space c \<longleftrightarrow> (of_char c :: nat) \<in> {9, 10, 11, 12, 13, 32}"

definition is_digit :: "char \<Rightarrow> bool" where
  "is_digit c \<longleftrightarrow> 48 \<le> (of_char c :: nat) \<and> (of_char c :: nat) \<le> 57"

definition scan_word :: "string \<Rightarrow> (string \<times> string) option" where
  "scan_word s =
     (let t = dropWhile is_space s; w = takeWhile (\<lambda>c. \<not> is_space c) t in
      if w = [] then None else Some (w, dropWhile (\<lambda>c. \<not> is_space c) t))"

definition dec_value :: "string \<Rightarrow> int" where
  "dec_value ds = foldl (\<lambda>n c. 10 * n + (of_char c - 48)) 0 ds"

definition scan_int :: "string \<Rightarrow> (int \<times> string) option" where
  "scan_int s =
     (let t = dropWhile is_space s;
          neg = (case t of c # _ \<Rightarrow> c = CHR ''-'' | [] \<Rightarrow> False);
          u = (case t of c # r \<Rightarrow> if c = CHR ''-'' \<or> c = CHR ''+'' then r else t | [] \<Rightarrow> []);
          ds = takeWhile is_digit u;
          v = (if neg then - dec_value ds else dec_value ds) in
      if ds = [] then None
      else Some (i32 (max (- (2 ^ 63)) (min (2 ^ 63 - 1) v)), dropWhile is_digit u))"

section \<open>Unsigned numbers and literal characters\<close>

text \<open>The conversion \<open>%u\<close>, by \<open>strtoul\<close>: a sign is taken, too large a value saturates to an \<open>unsigned long\<close>.\<close>

definition scan_uint :: "string \<Rightarrow> (int \<times> string) option" where
  "scan_uint s =
     (let t = dropWhile is_space s;
          neg = (case t of c # _ \<Rightarrow> c = CHR ''-'' | [] \<Rightarrow> False);
          u = (case t of c # r \<Rightarrow> if c = CHR ''-'' \<or> c = CHR ''+'' then r else t | [] \<Rightarrow> []);
          ds = takeWhile is_digit u;
          v = (if dec_value ds \<le> 2 ^ 64 - 1 then (if neg then - dec_value ds else dec_value ds) else 2 ^ 64 - 1) in
      if ds = [] then None else Some (v mod 2 ^ 32, dropWhile is_digit u))"

definition scan_char :: "char \<Rightarrow> string \<Rightarrow> string option" where
  "scan_char c s = (case s of d # r \<Rightarrow> if d = c then Some r else None | [] \<Rightarrow> None)"

text \<open>The words of a format that are not conversions; a space of the format skips white space.\<close>

fun scan_lit :: "string \<Rightarrow> string \<Rightarrow> string option" where
  "scan_lit [] s = Some s"
| "scan_lit (c # cs) s = scan_char c s \<bind> scan_lit cs"

section \<open>Formats\<close>

text \<open>\<open>sscanf\<close> with a whole format: the values converted up to the first item that does not match. The
  number that the code compares is the length of the list.\<close>

datatype scan_item = Lit string | Blank | Str | Dec
datatype scan_val = SStr string | SDec int

fun sscanf :: "scan_item list \<Rightarrow> string \<Rightarrow> scan_val list" where
  "sscanf [] s = []"
| "sscanf (Lit w # fs) s = (case scan_lit w s of None \<Rightarrow> [] | Some r \<Rightarrow> sscanf fs r)"
| "sscanf (Blank # fs) s = sscanf fs (dropWhile is_space s)"
| "sscanf (Str # fs) s = (case scan_word s of None \<Rightarrow> [] | Some (w, r) \<Rightarrow> SStr w # sscanf fs r)"
| "sscanf (Dec # fs) s = (case scan_int s of None \<Rightarrow> [] | Some (n, r) \<Rightarrow> SDec n # sscanf fs r)"

text \<open>A word is stored in a buffer whether or not the rest of the line matches: whether the words of a
  line fit in the buffers, of the given sizes in order.\<close>

fun words_fit :: "nat list \<Rightarrow> scan_val list \<Rightarrow> bool" where
  "words_fit (n # ns) (SStr w # vs) \<longleftrightarrow> length w < n \<and> words_fit ns vs"
| "words_fit ns (SDec _ # vs) \<longleftrightarrow> words_fit ns vs"
| "words_fit ns vs \<longleftrightarrow> vs = []"

text \<open>\<open>snprintf\<close> into a buffer of \<open>n\<close> bytes.\<close>

definition c_trunc :: "nat \<Rightarrow> string \<Rightarrow> string" where
  "c_trunc n s = take (n - 1) s"

section \<open>Searching\<close>

fun strstr_at :: "string \<Rightarrow> string \<Rightarrow> nat option" where
  "strstr_at [] pat = (if pat = [] then Some 0 else None)"
| "strstr_at (c # s) pat = (if take (length pat) (c # s) = pat then Some 0 else map_option Suc (strstr_at s pat))"

section \<open>Facts\<close>

lemma is_digit_char: "n < 10 \<Longrightarrow> is_digit (char_of (48 + n))" for n :: nat
  by (simp add: is_digit_def)

lemma is_digit_not_space: "is_digit c \<Longrightarrow> \<not> is_space c"
  by (auto simp: is_digit_def is_space_def)

lemma dec_nat_digits: "\<forall>c \<in> set (dec_nat n). is_digit c"
proof (induction n rule: dec_nat.induct)
  case (1 n)
  then show ?case
    by (subst dec_nat.simps) (auto simp: is_digit_char)
qed

lemma dec_nat_nonempty: "dec_nat n \<noteq> []"
  by (subst dec_nat.simps) simp

lemma dec_value_append: "dec_value (xs @ [c]) = 10 * dec_value xs + (of_char c - 48)"
  by (simp add: dec_value_def)

lemma digit_value: "n < 10 \<Longrightarrow> of_char (char_of (48 + n) :: char) = 48 + int n"
proof -
  assume "n < 10"
  then have "of_char (char_of (48 + n) :: char) = (48 + n :: nat)" by simp
  then have "int (of_char (char_of (48 + n) :: char)) = 48 + int n" by simp
  then show ?thesis by (simp only: of_nat_of_char)
qed

lemma dec_value_dec_nat: "dec_value (dec_nat n) = int n"
proof (induction n rule: dec_nat.induct)
  case (1 n)
  show ?case
  proof (cases "n < 10")
    case True
    then show ?thesis by (subst dec_nat.simps) (simp add: dec_value_def digit_value)
  next
    case False
    have "10 * int (n div 10) + int (n mod 10) = int n" by presburger
    then show ?thesis using 1 False by (subst dec_nat.simps) (simp add: dec_value_append digit_value)
  qed
qed

text \<open>What a format reads back of a line that was printed with it.\<close>

lemma scan_lit_self [simp]: "scan_lit w (w @ s) = Some s"
  by (induction w) (simp_all add: scan_char_def)

lemma scan_int_dec:
  assumes "- (2 ^ 31) \<le> i" "i < 2 ^ 31" "r = [] \<or> \<not> is_digit (hd r)"
  shows "scan_int (dec_int i @ r) = Some (i, r)"
proof -
  let ?n = "nat \<bar>i\<bar>"
  obtain c cs where d: "dec_nat ?n = c # cs" using dec_nat_nonempty by (cases "dec_nat ?n") auto
  have all: "\<forall>x \<in> set (dec_nat ?n). is_digit x" by (rule dec_nat_digits)
  have c: "is_digit c" using all d by simp
  then have sign: "\<not> is_space c" "c \<noteq> CHR ''-''" "c \<noteq> CHR ''+''" using is_digit_not_space by (auto simp: is_digit_def)
  have tw: "takeWhile is_digit (dec_nat ?n @ r) = dec_nat ?n" "dropWhile is_digit (dec_nat ?n @ r) = r"
    using assms(3) all by (cases r; auto simp: takeWhile_append2 dropWhile_append2)+
  have v: "dec_value (dec_nat ?n) = \<bar>i\<bar>" by (simp add: dec_value_dec_nat)
  have "\<not> is_space CHR ''-''" by (simp add: is_space_def)
  then show ?thesis
    using assms(1,2) sign tw v d
    by (cases "i < 0") (simp_all add: scan_int_def dec_int_def Let_def i32_id)
qed

lemma scan_word_self:
  assumes "w \<noteq> []" "\<forall>c \<in> set w. \<not> is_space c" "r = [] \<or> is_space (hd r)"
  shows "scan_word (w @ r) = Some (w, r)"
proof -
  from assms(1,2) have "dropWhile is_space (w @ r) = w @ r" by (cases w) auto
  moreover have "takeWhile (\<lambda>c. \<not> is_space c) (w @ r) = w" "dropWhile (\<lambda>c. \<not> is_space c) (w @ r) = r"
    using assms(2,3) by (cases r; auto simp: takeWhile_append2 dropWhile_append2)+
  ultimately show ?thesis using assms(1) by (simp add: scan_word_def)
qed

text \<open>What \<open>%u\<close> reads back of a number printed with \<open>%d\<close>, before a character that is no digit.\<close>

lemma scan_uint_dec_nat:
  assumes "n < 2 ^ 32" and "r = [] \<or> \<not> is_digit (hd r)"
  shows "scan_uint (dec_nat n @ r) = Some (int n, r)"
proof -
  obtain c cs where d: "dec_nat n = c # cs" using dec_nat_nonempty by (cases "dec_nat n") auto
  have c: "is_digit c" using dec_nat_digits [of n] d by simp
  then have sp: "dropWhile is_space (dec_nat n @ r) = dec_nat n @ r" using is_digit_not_space d by simp
  have sign: "c \<noteq> CHR ''-''" "c \<noteq> CHR ''+''" using c by (auto simp: is_digit_def)
  have all: "\<forall>x \<in> set (dec_nat n). is_digit x" by (rule dec_nat_digits)
  then have "takeWhile is_digit (dec_nat n @ r) = dec_nat n" "dropWhile is_digit (dec_nat n @ r) = r"
    using assms(2) by (cases r; auto simp: takeWhile_append2 dropWhile_append2)+
  moreover have "int n < 2 ^ 32" using assms(1) by (metis of_nat_less_numeral_power_cancel_iff)
  ultimately show ?thesis
    using sign dec_value_dec_nat [of n] unfolding scan_uint_def sp Let_def by (simp add: d)
qed

lemma length_dec_nat: "0 < k \<Longrightarrow> n < 10 ^ k \<Longrightarrow> length (dec_nat n) \<le> k"
proof (induction k arbitrary: n)
  case (Suc k)
  show ?case
  proof (cases "n < 10")
    case True
    then show ?thesis by (subst dec_nat.simps) simp
  next
    case False
    with Suc.prems have "0 < k" by (cases k) auto
    moreover have "n div 10 < 10 ^ k" using Suc.prems(2) by (simp add: less_mult_imp_div_less mult.commute)
    ultimately have "length (dec_nat (n div 10)) \<le> k" by (rule Suc.IH)
    then show ?thesis using False by (subst dec_nat.simps) simp
  qed
qed simp

end
