(* ===== verification/A2b_Config.thy ===== *)
theory A2b_Config
  imports C_Text
begin

text \<open>
  The configuration of the delay line between two endpoints (\<open>mua2b/src/config.c\<close>,
  \<open>config.h\<close>): one record per side, the start values and the command that changes one value.
  Traffic from A to B leaves by side B, so a command for the direction A to B sets the delay,
  queue, bucket and rate of side B; only the loss is drawn where the packet comes in.
\<close>

datatype input_cmd =
  input_cmd_none | input_cmd_delay | input_cmd_loss | input_cmd_qsize | input_cmd_bsize
  | input_cmd_rate | input_cmd_dump_config

datatype input_dir = input_dir_none | input_dir_a2b | input_dir_b2a

record t_connect_side =
  side_llid :: int
  enqueue :: int
  dequeue :: int
  dropped :: int
  tockens :: int
  stored :: int
  lost :: int
  conf_loss :: int
  conf_delay :: int
  conf_qsize :: int
  conf_bsize :: int
  conf_brate :: int

record a2b_sides =
  g_sideA :: t_connect_side
  g_sideB :: t_connect_side

definition zero_side :: t_connect_side where
  "zero_side = \<lparr>side_llid = 0, enqueue = 0, dequeue = 0, dropped = 0, tockens = 0, stored = 0,
     lost = 0, conf_loss = 0, conf_delay = 0, conf_qsize = 0, conf_bsize = 0, conf_brate = 0\<rparr>"

definition default_side :: t_connect_side where
  "default_side = zero_side\<lparr>conf_qsize := 10000000, conf_bsize := 10000000,
     conf_brate := 100000000\<rparr>"

definition config_init :: a2b_sides where
  "config_init = \<lparr>g_sideA = default_side, g_sideB = default_side\<rparr>"

text \<open>The three commands that go to the side a direction leaves by, and the loss.\<close>

fun config_recv_command ::
  "input_cmd \<Rightarrow> input_dir \<Rightarrow> int \<Rightarrow> a2b_sides \<Rightarrow> a2b_sides run" where
  "config_recv_command cmd input_dir_a2b val g = (case cmd of
      input_cmd_delay \<Rightarrow> Some (g\<lparr>g_sideB := (g_sideB g)\<lparr>conf_delay := val\<rparr>\<rparr>)
    | input_cmd_loss \<Rightarrow> Some (g\<lparr>g_sideA := (g_sideA g)\<lparr>conf_loss := val\<rparr>\<rparr>)
    | input_cmd_qsize \<Rightarrow> Some (g\<lparr>g_sideB := (g_sideB g)\<lparr>conf_qsize := val\<rparr>\<rparr>)
    | input_cmd_bsize \<Rightarrow> Some (g\<lparr>g_sideB := (g_sideB g)\<lparr>conf_bsize := val\<rparr>\<rparr>)
    | input_cmd_rate \<Rightarrow> Some (g\<lparr>g_sideB := (g_sideB g)\<lparr>conf_brate := val\<rparr>\<rparr>)
    | _ \<Rightarrow> None)"
| "config_recv_command cmd input_dir_b2a val g = (case cmd of
      input_cmd_delay \<Rightarrow> Some (g\<lparr>g_sideA := (g_sideA g)\<lparr>conf_delay := val\<rparr>\<rparr>)
    | input_cmd_loss \<Rightarrow> Some (g\<lparr>g_sideB := (g_sideB g)\<lparr>conf_loss := val\<rparr>\<rparr>)
    | input_cmd_qsize \<Rightarrow> Some (g\<lparr>g_sideA := (g_sideA g)\<lparr>conf_qsize := val\<rparr>\<rparr>)
    | input_cmd_bsize \<Rightarrow> Some (g\<lparr>g_sideA := (g_sideA g)\<lparr>conf_bsize := val\<rparr>\<rparr>)
    | input_cmd_rate \<Rightarrow> Some (g\<lparr>g_sideA := (g_sideA g)\<lparr>conf_brate := val\<rparr>\<rparr>)
    | _ \<Rightarrow> None)"
| "config_recv_command cmd input_dir_none val g = None"

text \<open>The words of a command line (\<open>resolv_input_cmd\<close>, \<open>resolv_input_dir\<close> of \<open>main.c\<close>).\<close>

definition resolv_input_cmd :: "string \<Rightarrow> input_cmd" where
  "resolv_input_cmd cmd =
     (if cmd = ''delay'' then input_cmd_delay
      else if cmd = ''loss'' then input_cmd_loss
      else if cmd = ''qsize'' then input_cmd_qsize
      else if cmd = ''bsize'' then input_cmd_bsize
      else if cmd = ''brate'' then input_cmd_rate
      else if cmd = ''dump_config'' then input_cmd_dump_config
      else input_cmd_none)"

definition resolv_input_dir :: "string \<Rightarrow> input_dir" where
  "resolv_input_dir d =
     (if d = ''A2B'' then input_dir_a2b
      else if d = ''B2A'' then input_dir_b2a
      else input_dir_none)"

section \<open>The command line\<close>

definition MAX_PATH_LEN :: nat where
  "MAX_PATH_LEN = 300"

text \<open>\<open>sscanf(line, "%s %s %d", \<dots>) == 3\<close>.\<close>

definition scan_cmd_dir_val :: "string \<Rightarrow> (string \<times> string \<times> int) option" where
  "scan_cmd_dir_val line = do {
     (cmd, r1) \<leftarrow> scan_word line;
     (d, r2) \<leftarrow> scan_word r1;
     (val, _) \<leftarrow> scan_int r2;
     Some (cmd, d, val)
   }"

text \<open>A line of the dump is printed while more than 20 bytes of the buffer are left.\<close>

definition fill_line :: "int \<Rightarrow> string \<Rightarrow> string \<Rightarrow> string" where
  "fill_line max_len resp txt = (if 20 < max_len - int (length resp) then resp @ txt else resp)"

definition config_fill_resp :: "int \<Rightarrow> a2b_sides \<Rightarrow> string" where
  "config_fill_resp max_len g = (let a = g_sideA g; b = g_sideB g in
     foldl (fill_line max_len) []
       [''CONFIG A2B:'' @ [CHR 0x0A],
        CHR 0x09 # ''delay:'' @ dec_int (conf_delay b) @ '' ms'' @ [CHR 0x0A],
        CHR 0x09 # ''loss:'' @ dec_int (conf_loss a) @ ''/10000'' @ [CHR 0x0A],
        CHR 0x09 # ''qsize:'' @ dec_int (conf_qsize b) @ '' bytes'' @ [CHR 0x0A],
        CHR 0x09 # ''bsize:'' @ dec_int (conf_bsize b) @ '' bytes'' @ [CHR 0x0A],
        CHR 0x09 # ''brate:'' @ dec_int (conf_brate b) @ '' bytes/sec'' @ [CHR 0x0A],
        ''CONFIG B2A:'' @ [CHR 0x0A],
        CHR 0x09 # ''delay:'' @ dec_int (conf_delay a) @ [CHR 0x0A] @ '' ms'',
        CHR 0x09 # ''loss:'' @ dec_int (conf_loss b) @ ''/10000'' @ [CHR 0x0A],
        CHR 0x09 # ''qsize:'' @ dec_int (conf_qsize a) @ '' bytes'' @ [CHR 0x0A],
        CHR 0x09 # ''bsize:'' @ dec_int (conf_bsize a) @ '' bytes'' @ [CHR 0x0A],
        CHR 0x09 # ''brate:'' @ dec_int (conf_brate a) @ '' bytes/sec'' @ [CHR 0x0A]])"

text \<open>
  The handler of a command line: the text sent back and the sides after it. \<open>snprintf\<close> cuts
  its text to the size it is given, less the final zero.
\<close>

definition cut_resp :: "string \<Rightarrow> string" where
  "cut_resp txt = take (2 * MAX_PATH_LEN - 2) txt"

definition rpct_recv_cli_req :: "string \<Rightarrow> a2b_sides \<Rightarrow> (string \<times> a2b_sides) run" where
  "rpct_recv_cli_req line g =
     (if MAX_PATH_LEN \<le> length line then Some (cut_resp (''TOO LONG: '' @ line), g)
      else case scan_cmd_dir_val line of
        None \<Rightarrow>
          (case scan_word line of
             Some (cmd, _) \<Rightarrow>
               if resolv_input_cmd cmd = input_cmd_dump_config
               then Some (config_fill_resp (2 * int MAX_PATH_LEN - 1) g, g)
               else Some (cut_resp (''BAD COMMAND: '' @ line), g)
           | None \<Rightarrow> Some (cut_resp (''BAD FORMAT: '' @ line), g))
      | Some (cmd, d, val) \<Rightarrow>
          if resolv_input_cmd cmd = input_cmd_none
          then Some (cut_resp (''BAD COMMAND: '' @ line), g)
          else if resolv_input_dir d = input_dir_none
          then Some (cut_resp (''BAD DIRECTION: '' @ line), g)
          else do {
            g' \<leftarrow> config_recv_command (resolv_input_cmd cmd) (resolv_input_dir d) val g;
            Some (''OK'', g')
          })"

section \<open>What a command can do\<close>

lemma config_recv_command_None:
  "config_recv_command cmd d val g = None \<longleftrightarrow>
   d = input_dir_none \<or> cmd = input_cmd_none \<or> cmd = input_cmd_dump_config"
  by (cases d; cases cmd) simp_all

lemma config_recv_command_frame:
  assumes "config_recv_command cmd d val g = Some g'"
  shows "tockens (g_sideA g') = tockens (g_sideA g)" "stored (g_sideA g') = stored (g_sideA g)"
    and "tockens (g_sideB g') = tockens (g_sideB g)" "stored (g_sideB g') = stored (g_sideB g)"
  using assms by (cases d; cases cmd; force)+


text \<open>C6: of all lines, the only ones that end the process are those that name \<open>dump_config\<close>
  with a valid direction and a value; every other line is answered.\<close>

theorem cli_req_exits_iff:
  "rpct_recv_cli_req line g = None \<longleftrightarrow>
   length line < MAX_PATH_LEN \<and>
   (\<exists>cmd d val. scan_cmd_dir_val line = Some (cmd, d, val) \<and>
      resolv_input_cmd cmd = input_cmd_dump_config \<and> resolv_input_dir d \<noteq> input_dir_none)"
  by (auto simp: rpct_recv_cli_req_def config_recv_command_None bind_eq_None split: option.splits)

lemma cli_req_kills_example: "rpct_recv_cli_req ''dump_config A2B 1'' g = None"
  by code_simp

lemma cli_req_rate_example:
  "rpct_recv_cli_req ''brate B2A 5000'' g =
   Some (''OK'', g\<lparr>g_sideA := (g_sideA g)\<lparr>conf_brate := 5000\<rparr>\<rparr>)"
  by code_simp

end
