(* ===== verification/Blkd_Types.thy ===== *)
theory Blkd_Types
  imports Prelude
begin

text \<open>
  The packet descriptor that the traffic components hand to each other (\<open>t_blkd\<close> of
  \<open>glob_include/ioc_blkd.h\<close>). The two buffers are byte lists; the pointer to the group a
  descriptor belongs to is a reference, \<open>None\<close> for \<open>NULL\<close>. Fields of type \<open>int\<close> and \<open>long
  long\<close> are integers of the ranges of \<open>i32\<close> and \<open>i64\<close>.
\<close>

record t_blkd =
  count_reference :: u32
  blkd_group :: "nat option"
  qemu_group_rank :: int
  blkd_llid :: int
  blkd_type :: int
  blkd_val :: int
  blkd_usec :: int
  header_blkd_len :: int
  payload_len :: int
  header_blkd :: "u8 list"
  payload_blkd :: "u8 list"

definition PAYLOAD_BLKD_SIZE :: int where
  "PAYLOAD_BLKD_SIZE = 1524"

end
