(* ===== verification/Sched.thy ===== *)
theory Sched
  imports Circ_Slot A2b_Config Blkd_Types
begin

text \<open>
  The token-bucket scheduler of a delay line (\<open>mua2b/src/sched.c\<close>): a packet is lost, refused
  by the byte limit, or put on the ring of its side; a timer and a wake-up add tokens and send
  from the ring while the delay and the tokens allow it. Time, the random number and the date
  that the real-time timer was armed for are arguments.
\<close>

section \<open>State\<close>

record t_queue =
  blkd :: t_blkd
  arrival_date_us :: int

text \<open>
  \<open>sent\<close> is the list of the calls of \<open>sock_fd_tx\<close>, with the number of the socket they go to;
  \<open>timers\<close> the list of the calls of \<open>clownix_real_timer_add\<close>, \<open>wakes\<close> the bytes that
  \<open>wake_tx_send\<close> wrote to the pipe of a thread. \<open>g_rx0\<close> and \<open>g_rx1\<close> count packets (\<open>main.c\<close>).
\<close>

record sched =
  rings :: "t_queue circ_globals"
  sides :: a2b_sides
  g_prev_date_us_a :: int
  g_prev_date_us_b :: int
  sent :: "(nat \<times> t_blkd) list"
  timers :: "(nat \<times> int) list"
  wakes :: "nat list"
  g_rx0 :: int
  g_rx1 :: int

definition TOTAL_LOSS_VALUE :: int where
  "TOTAL_LOSS_VALUE = 10000"

definition get_side :: "nat \<Rightarrow> sched \<Rightarrow> t_connect_side" where
  "get_side num s = (if num = 0 then g_sideA (sides s) else g_sideB (sides s))"

definition set_side :: "nat \<Rightarrow> t_connect_side \<Rightarrow> sched \<Rightarrow> sched" where
  "set_side num sd s =
     s\<lparr>sides := (if num = 0 then (sides s)\<lparr>g_sideA := sd\<rparr> else (sides s)\<lparr>g_sideB := sd\<rparr>)\<rparr>"

section \<open>Counters and tokens\<close>

definition inc_queue_size :: "t_connect_side \<Rightarrow> int \<Rightarrow> t_connect_side" where
  "inc_queue_size side len =
     side\<lparr>enqueue := i64 (enqueue side + len), stored := i64 (stored side + len)\<rparr>"

definition dec_queue_size :: "t_connect_side \<Rightarrow> int \<Rightarrow> t_connect_side" where
  "dec_queue_size side len =
     side\<lparr>dequeue := i64 (dequeue side + len), stored := i64 (stored side - len)\<rparr>"

definition tocken_authorization :: "t_connect_side \<Rightarrow> int \<Rightarrow> bool" where
  "tocken_authorization side len \<longleftrightarrow> i32 (len * 1000) < tockens side"

definition update_remove_tockens :: "t_connect_side \<Rightarrow> int \<Rightarrow> t_connect_side run" where
  "update_remove_tockens side len =
     (let t = i64 (tockens side - i32 (len * 1000)) in
      if t < 0 then None else Some (side\<lparr>tockens := t\<rparr>))"

definition update_add_tockens :: "t_connect_side \<Rightarrow> int \<Rightarrow> t_connect_side" where
  "update_add_tockens side ms_delta =
     (let bsize = i32 (1000 * conf_bsize side);
          t = i64 (tockens side + i32 (conf_brate side * ms_delta)) in
      side\<lparr>tockens := (if bsize < t then bsize else t)\<rparr>)"

section \<open>Sending\<close>

definition do_dequeue :: "nat \<Rightarrow> sched \<Rightarrow> (t_blkd option \<times> sched) run" where
  "do_dequeue num s = do {
     (count, g) \<leftarrow> circ_used_slot_nb num (rings s);
     if count \<noteq> 0 then do {
       (q, g') \<leftarrow> circ_slot_get num g;
       (case q of None \<Rightarrow> None | Some e \<Rightarrow> Some (Some (blkd e), s\<lparr>rings := g'\<rparr>))
     } else Some (None, s\<lparr>rings := g\<rparr>)
   }"

definition action_dequeue_if_ok :: "nat \<Rightarrow> int \<Rightarrow> sched \<Rightarrow> (t_blkd option \<times> sched) run" where
  "action_dequeue_if_ok num len s =
     (if tocken_authorization (get_side num s) len then do {
        (b, s1) \<leftarrow> do_dequeue num s;
        let sd = dec_queue_size (get_side num s1) len;
        sd' \<leftarrow> update_remove_tockens sd len;
        Some (b, set_side num sd' s1)
      } else Some (None, s))"

definition sock_fd_tx :: "nat \<Rightarrow> t_blkd \<Rightarrow> sched \<Rightarrow> sched" where
  "sock_fd_tx num b s = s\<lparr>sent := sent s @ [(if num = 0 then 0 else 1, b)]\<rparr>"

text \<open>A successful dequeue leaves one element less on the ring: the loop below ends.\<close>

definition ring_load :: "nat \<Rightarrow> sched \<Rightarrow> nat" where
  "ring_load num s =
     (let c = (if num = 0 then g_circ_ctx0 (rings s) else g_circ_ctx1 (rings s)) in
      unat (circ_cnt (head c) (tail c)))"

lemma circ_get_load:
  assumes "circ_get c = Some (Some e, c')"
  shows "unat (circ_cnt (head c') (tail c')) < unat (circ_cnt (head c) (tail c))"
proof -
  from assms have ge: "1 \<le> circ_cnt (head c) (tail c)"
    and c': "head c' = head c" "tail c' = (tail c + 1) AND CIRC_MASK"
    by (auto simp: circ_get_def kout_if_bind Let_def split: if_splits)
  let ?d = "uint (head c) - uint (tail c)"
  have pos: "1 \<le> ?d mod 4096"
    using ge by (simp add: word_le_def uint_circ_cnt)
  have "uint (circ_cnt (head c') (tail c')) = (?d mod 4096 - 1) mod 4096"
    by (simp only: c' uint_circ_cnt uint_inc_mask mod_diff_left_eq mod_diff_right_eq)
      (simp add: algebra_simps)
  also have "\<dots> = ?d mod 4096 - 1"
    using pos by (simp add: mod_pos_pos_trivial)
  finally show ?thesis
    using pos by (simp add: unat_eq_nat_uint uint_circ_cnt)
qed

lemma circ_slot_get_load:
  assumes "circ_slot_get num g = Some (Some e, g')"
  shows "ring_load num (s\<lparr>rings := g'\<rparr>) < ring_load num (s\<lparr>rings := g\<rparr>)"
  using assms circ_get_load
  by (auto simp: circ_slot_get_def circ_sel_def circ_upd_def ring_load_def bind_eq_Some
      Let_def split: if_splits)

lemma circ_used_slot_nb_load:
  "circ_used_slot_nb num g = Some (n, g') \<Longrightarrow>
   ring_load num (s\<lparr>rings := g'\<rparr>) = ring_load num (s\<lparr>rings := g\<rparr>)"
  by (auto simp: circ_used_slot_nb_def circ_used_def circ_sel_def circ_upd_def ring_load_def
      bind_eq_Some Let_def split: if_splits)

lemma ring_load_set_side [simp]: "ring_load num (set_side k sd s) = ring_load num s"
  by (simp add: ring_load_def set_side_def)

lemma ring_load_sock_fd_tx [simp]: "ring_load num (sock_fd_tx k b s) = ring_load num s"
  by (simp add: ring_load_def sock_fd_tx_def)

lemma action_dequeue_load:
  assumes "action_dequeue_if_ok num len s = Some (Some b, s')"
  shows "ring_load num s' < ring_load num s"
proof -
  from assms obtain s1 sd where "do_dequeue num s = Some (Some b, s1)" and s': "s' = set_side num sd s1"
    by (auto simp: action_dequeue_if_ok_def bind_eq_Some Let_def split: if_splits)
  then obtain n g e g' where "circ_used_slot_nb num (rings s) = Some (n, g)"
    and "circ_slot_get num g = Some (Some e, g')" and "s1 = s\<lparr>rings := g'\<rparr>"
    by (auto simp: do_dequeue_def bind_eq_Some split: if_splits option.splits)
  with s' circ_slot_get_load [of num g e g' s] circ_used_slot_nb_load [of num "rings s" n g s]
  show ?thesis by simp
qed

text \<open>The loop of \<open>activate_tx\<close>; \<open>q\<close> is the element at the tail.\<close>

function activate_loop :: "nat \<Rightarrow> int \<Rightarrow> t_queue option \<Rightarrow> sched \<Rightarrow> sched run" where
  "activate_loop num now None s = Some s"
| "activate_loop num now (Some q) s =
     (let delta = c_div (i32 (now - arrival_date_us q)) 1000 in
      if delta < conf_delay (get_side num s) then Some s
      else case action_dequeue_if_ok num (payload_len (blkd q)) s of
        None \<Rightarrow> None
      | Some (None, s1) \<Rightarrow> Some s1
      | Some (Some b, s1) \<Rightarrow>
          (case circ_slot_lookat num (rings (sock_fd_tx num b s1)) of
             None \<Rightarrow> None
           | Some q' \<Rightarrow> activate_loop num now q' (sock_fd_tx num b s1)))"
  by pat_completeness auto
termination
  by (relation "measure (\<lambda>(num, now, q, s). ring_load num s)") (auto dest: action_dequeue_load)

definition activate_tx :: "nat \<Rightarrow> int \<Rightarrow> int \<Rightarrow> sched \<Rightarrow> sched run" where
  "activate_tx num now ms_delta s = do {
     q \<leftarrow> circ_slot_lookat num (rings s);
     activate_loop num now q (set_side num (update_add_tockens (get_side num s) ms_delta) s)
   }"

text \<open>
  The timer arms itself again first; \<open>res\<close> is what \<open>clownix_real_timer_add\<close> gives: the date
  it armed, or \<open>None\<close> for its error return.
\<close>

definition timer_sched :: "nat \<Rightarrow> int option \<Rightarrow> sched \<Rightarrow> sched run" where
  "timer_sched num res s = (case res of
     None \<Rightarrow> None
   | Some date_us \<Rightarrow>
       (let s1 = s\<lparr>timers := timers s @ [(num, 1000)]\<rparr> in
        if num = 0 then
          activate_tx 0 date_us (c_div (i32 (date_us - g_prev_date_us_a s)) 1000)
            (s1\<lparr>g_prev_date_us_a := date_us\<rparr>)
        else if num = 1 then
          activate_tx 1 date_us (c_div (i32 (date_us - g_prev_date_us_b s)) 1000)
            (s1\<lparr>g_prev_date_us_b := date_us\<rparr>)
        else None))"

definition sched_tx0_activate :: "int \<Rightarrow> sched \<Rightarrow> sched run" where
  "sched_tx0_activate now s =
     activate_tx 0 now (c_div (i32 (now - g_prev_date_us_a s)) 1000) (s\<lparr>g_prev_date_us_a := now\<rparr>)"

definition sched_tx1_activate :: "int \<Rightarrow> sched \<Rightarrow> sched run" where
  "sched_tx1_activate now s =
     activate_tx 1 now (c_div (i32 (now - g_prev_date_us_b s)) 1000) (s\<lparr>g_prev_date_us_b := now\<rparr>)"

section \<open>Receiving\<close>

definition is_lost :: "int \<Rightarrow> int \<Rightarrow> bool" where
  "is_lost rnd loss \<longleftrightarrow> loss \<noteq> 0 \<and> rnd mod TOTAL_LOSS_VALUE \<le> loss"

definition can_enqueue :: "int \<Rightarrow> int \<Rightarrow> t_connect_side \<Rightarrow> bool \<times> t_connect_side" where
  "can_enqueue rnd len side =
     (if is_lost rnd (conf_loss side) then (False, side\<lparr>lost := i64 (lost side + len)\<rparr>)
      else if i64 (stored side + len) < conf_qsize side then (True, inc_queue_size side len)
      else (False, side\<lparr>dropped := i64 (dropped side + len)\<rparr>))"

definition do_enqueue :: "nat \<Rightarrow> int \<Rightarrow> t_blkd \<Rightarrow> sched \<Rightarrow> sched run" where
  "do_enqueue num now b s = do {
     (count, g) \<leftarrow> circ_empty_slot_nb num (rings s);
     if 0 < sint count then do {
       g' \<leftarrow> circ_slot_put num \<lparr>blkd = b, arrival_date_us = now\<rparr> g;
       Some (s\<lparr>rings := g'\<rparr>)
     } else
       (let side = get_side num s in
        Some (set_side num (side\<lparr>dropped := i64 (dropped side + payload_len b)\<rparr>) (s\<lparr>rings := g\<rparr>)))
   }"

definition sched_tx_pkt :: "nat \<Rightarrow> int \<Rightarrow> int \<Rightarrow> t_blkd \<Rightarrow> sched \<Rightarrow> sched run" where
  "sched_tx_pkt num now rnd b s =
     (if num \<noteq> 0 \<and> num \<noteq> 1 then None
      else case can_enqueue rnd (payload_len b) (get_side num s) of
        (True, side) \<Rightarrow> do_enqueue num now b (set_side num side s)
      | (False, side) \<Rightarrow> Some (set_side num side s))"

text \<open>
  The byte that wakes the sending thread (\<open>wake_tx.c\<close>; \<open>wr\<close> is what \<open>write\<close> returns), and the
  handlers of that byte.
\<close>

definition wake_tx_send :: "nat \<Rightarrow> int \<Rightarrow> sched \<Rightarrow> sched run" where
  "wake_tx_send num wr s =
     (if num = 0 \<or> num = 1 then do {
        kout_if (wr \<noteq> 1);
        Some (s\<lparr>wakes := wakes s @ [num]\<rparr>)
      } else None)"

definition rx_wake_tx0 :: "int \<Rightarrow> sched \<Rightarrow> sched run" where
  "rx_wake_tx0 now s = sched_tx0_activate now s"

definition rx_wake_tx1 :: "int \<Rightarrow> sched \<Rightarrow> sched run" where
  "rx_wake_tx1 now s = sched_tx1_activate now s"

text \<open>A packet from the socket of the thread \<open>g_num\<close> goes to the other side (\<open>main.c\<close>).\<close>

definition rx_from_traffic_sock ::
  "nat \<Rightarrow> int \<Rightarrow> int \<Rightarrow> int \<Rightarrow> t_blkd option \<Rightarrow> sched \<Rightarrow> sched run" where
  "rx_from_traffic_sock g_num now rnd wr bd s = (case bd of
     None \<Rightarrow> Some s
   | Some b \<Rightarrow>
       if g_num = 0 then do {
         s1 \<leftarrow> sched_tx_pkt 1 now rnd b s;
         s2 \<leftarrow> wake_tx_send 1 wr s1;
         Some (s2\<lparr>g_rx0 := i32 (g_rx0 s2 + 1)\<rparr>)
       } else if g_num = 1 then do {
         s1 \<leftarrow> sched_tx_pkt 0 now rnd b s;
         s2 \<leftarrow> wake_tx_send 0 wr s1;
         Some (s2\<lparr>g_rx1 := i32 (g_rx1 s2 + 1)\<rparr>)
       } else None)"

definition sched_init :: "nat \<Rightarrow> int option \<Rightarrow> sched \<Rightarrow> sched run" where
  "sched_init num res s =
     (if num \<noteq> 0 \<and> num \<noteq> 1 then None
      else do {
        g \<leftarrow> circ_slot_init num (rings s);
        date_us \<leftarrow> res;
        Some (s\<lparr>rings := g, timers := timers s @ [(num, 1000)],
                g_prev_date_us_a := date_us, g_prev_date_us_b := date_us\<rparr>)
      })"

end
