(* ===== verification/Sched_Props.thy ===== *)
theory Sched_Props
  imports Sched
begin

text \<open>
  What the scheduler of a delay line does, over the list of the packets on its ring: the loop
  over the ring refines a recursion over that list (\<open>drain_spec\<close>), from which the order, the
  token budget, the delay and the byte accounting follow. The ring is used through the
  interface \<open>slot_fifo\<close> only.
\<close>

section \<open>The two rings as lists\<close>

definition side_ring :: "nat \<Rightarrow> sched \<Rightarrow> t_queue circ_ctx" where
  "side_ring num s = (if num = 0 then g_circ_ctx0 (rings s) else g_circ_ctx1 (rings s))"

definition queued :: "nat \<Rightarrow> sched \<Rightarrow> t_queue list" where
  "queued num s = circ_list (side_ring num s)"

definition sched_inv :: "sched \<Rightarrow> bool" where
  "sched_inv s \<longleftrightarrow> circ_inv (g_circ_ctx0 (rings s)) \<and> circ_inv (g_circ_ctx1 (rings s))"

text \<open>What an activation of one side leaves alone.\<close>

definition same_other :: "nat \<Rightarrow> sched \<Rightarrow> sched \<Rightarrow> bool" where
  "same_other num s t \<longleftrightarrow>
     side_ring (1 - num) t = side_ring (1 - num) s \<and> get_side (1 - num) t = get_side (1 - num) s \<and>
     g_prev_date_us_a t = g_prev_date_us_a s \<and> g_prev_date_us_b t = g_prev_date_us_b s \<and>
     timers t = timers s \<and> wakes t = wakes s \<and> g_rx0 t = g_rx0 s \<and> g_rx1 t = g_rx1 s"

lemma same_other_refl [simp]: "same_other num s s"
  by (simp add: same_other_def)

lemma same_other_trans: "same_other num s t \<Longrightarrow> same_other num t u \<Longrightarrow> same_other num s u"
  by (simp add: same_other_def)

lemma sched_inv_side: "sched_inv s \<Longrightarrow> circ_inv (side_ring num s)"
  by (simp add: sched_inv_def side_ring_def)

lemma circ_sel_side: "num \<le> 1 \<Longrightarrow> circ_sel num (rings s) = Some (side_ring num s)"
  by (auto simp: circ_sel_def side_ring_def)

lemma side_ring_upd [simp]:
  "num \<le> 1 \<Longrightarrow> side_ring num (s\<lparr>rings := circ_upd num c (rings s)\<rparr>) = c"
  "num \<le> 1 \<Longrightarrow> side_ring (Suc 0 - num) (s\<lparr>rings := circ_upd num c (rings s)\<rparr>) = side_ring (Suc 0 - num) s"
  by (auto simp: side_ring_def circ_upd_def)

lemma sched_inv_upd: "sched_inv s \<Longrightarrow> circ_inv c \<Longrightarrow> sched_inv (s\<lparr>rings := circ_upd num c (rings s)\<rparr>)"
  by (simp add: sched_inv_def circ_upd_def)

lemma circ_upd_same: "num \<le> 1 \<Longrightarrow> circ_upd num (side_ring num s) (rings s) = rings s"
  by (auto simp: circ_upd_def side_ring_def)

lemma get_set_side [simp]:
  "get_side num (set_side num sd s) = sd"
  "num \<le> 1 \<Longrightarrow> get_side (Suc 0 - num) (set_side num sd s) = get_side (Suc 0 - num) s"
  by (auto simp: get_side_def set_side_def)

lemma set_side_frame [simp]:
  "rings (set_side num sd s) = rings s" "sent (set_side num sd s) = sent s"
  "side_ring k (set_side num sd s) = side_ring k s" "sched_inv (set_side num sd s) = sched_inv s"
  "g_prev_date_us_a (set_side num sd s) = g_prev_date_us_a s"
  "g_prev_date_us_b (set_side num sd s) = g_prev_date_us_b s"
  "timers (set_side num sd s) = timers s" "wakes (set_side num sd s) = wakes s"
  "g_rx0 (set_side num sd s) = g_rx0 s" "g_rx1 (set_side num sd s) = g_rx1 s"
  by (simp_all add: set_side_def side_ring_def sched_inv_def)

lemma get_side_rings [simp]: "get_side num (s\<lparr>rings := g\<rparr>) = get_side num s"
  by (simp add: get_side_def)

lemma sock_fd_tx_frame [simp]:
  "rings (sock_fd_tx num b s) = rings s" "get_side k (sock_fd_tx num b s) = get_side k s"
  "side_ring k (sock_fd_tx num b s) = side_ring k s" "sched_inv (sock_fd_tx num b s) = sched_inv s"
  "num \<le> 1 \<Longrightarrow> sent (sock_fd_tx num b s) = sent s @ [(num, b)]"
  "g_prev_date_us_a (sock_fd_tx num b s) = g_prev_date_us_a s"
  "g_prev_date_us_b (sock_fd_tx num b s) = g_prev_date_us_b s"
  "timers (sock_fd_tx num b s) = timers s" "wakes (sock_fd_tx num b s) = wakes s"
  "g_rx0 (sock_fd_tx num b s) = g_rx0 s" "g_rx1 (sock_fd_tx num b s) = g_rx1 s"
  by (auto simp: sock_fd_tx_def side_ring_def sched_inv_def get_side_def)

lemma slot_lookat_queued:
  assumes "sched_inv s" and "num \<le> 1"
  shows "circ_slot_lookat num (rings s) = Some (case queued num s of [] \<Rightarrow> None | q # _ \<Rightarrow> Some q)"
  using assms ring.look_spec [OF sched_inv_side [OF assms(1)], of num]
  by (simp add: circ_slot_lookat_def circ_sel_side queued_def)

lemma do_dequeue_queued:
  assumes inv: "sched_inv s" and num: "num \<le> 1" and q: "queued num s = q # qs"
  shows "\<exists>g. do_dequeue num s = Some (Some (blkd q), s\<lparr>rings := g\<rparr>) \<and>
           sched_inv (s\<lparr>rings := g\<rparr>) \<and> queued num (s\<lparr>rings := g\<rparr>) = qs \<and>
           same_other num s (s\<lparr>rings := g\<rparr>)"
proof -
  note ring_inv = sched_inv_side [OF inv, of num]
  obtain n where n: "circ_used (side_ring num s) = Some (n, side_ring num s)"
    and "unat n = length (q # qs)"
    using ring.used_spec [OF ring_inv] q by (auto simp: queued_def)
  then have "n \<noteq> 0" by auto
  obtain c where c: "circ_get (side_ring num s) = Some (Some q, c)" "circ_inv c" "circ_list c = qs"
    using ring.get_some [OF ring_inv, of q qs] q by (auto simp: queued_def)
  let ?g = "circ_upd num c (rings s)"
  have "circ_used_slot_nb num (rings s) = Some (n, rings s)"
    using n num by (simp add: circ_used_slot_nb_def circ_sel_side circ_upd_same)
  moreover have "circ_slot_get num (rings s) = Some (Some q, ?g)"
    using c num by (simp add: circ_slot_get_def circ_sel_side)
  ultimately have "do_dequeue num s = Some (Some (blkd q), s\<lparr>rings := ?g\<rparr>)"
    using \<open>n \<noteq> 0\<close> by (simp add: do_dequeue_def)
  then show ?thesis
    using c num sched_inv_upd [OF inv c(2), of num]
    by (intro exI [of _ ?g]) (simp add: queued_def same_other_def)
qed

section \<open>The loop refines a recursion over the list\<close>

fun drain_spec ::
  "int \<Rightarrow> t_connect_side \<Rightarrow> t_queue list \<Rightarrow> (t_blkd list \<times> t_connect_side \<times> t_queue list) run" where
  "drain_spec now sd [] = Some ([], sd, [])"
| "drain_spec now sd (q # qs) =
     (if c_div (i32 (now - arrival_date_us q)) 1000 < conf_delay sd then Some ([], sd, q # qs)
      else if tocken_authorization sd (payload_len (blkd q)) then do {
        sd1 \<leftarrow> update_remove_tockens (dec_queue_size sd (payload_len (blkd q))) (payload_len (blkd q));
        (bs, sd2, rest) \<leftarrow> drain_spec now sd1 qs;
        Some (blkd q # bs, sd2, rest)
      } else Some ([], sd, q # qs))"

definition opt_hd :: "'a list \<Rightarrow> 'a option" where
  "opt_hd xs = (case xs of [] \<Rightarrow> None | x # _ \<Rightarrow> Some x)"

lemma opt_hd_simps [simp]: "opt_hd [] = None" "opt_hd (x # xs) = Some x"
  by (simp_all add: opt_hd_def)

lemma loop_refines:
  assumes "sched_inv s" and "num \<le> 1" and "queued num s = qs"
  shows "case drain_spec now (get_side num s) qs of
      None \<Rightarrow> activate_loop num now (opt_hd qs) s = None
    | Some (bs, sd, rest) \<Rightarrow>
        \<exists>t. activate_loop num now (opt_hd qs) s = Some t \<and> sched_inv t \<and> queued num t = rest \<and>
            get_side num t = sd \<and> sent t = sent s @ map (Pair num) bs \<and> same_other num s t"
  using assms
proof (induction qs arbitrary: s)
  case Nil
  then show ?case by simp
next
  case (Cons q qs)
  let ?len = "payload_len (blkd q)" and ?sd = "get_side num s"
  show ?case
  proof (cases "c_div (i32 (now - arrival_date_us q)) 1000 < conf_delay ?sd \<or>
                \<not> tocken_authorization ?sd ?len")
    case True
    with Cons.prems show ?thesis
      by (auto simp: action_dequeue_if_ok_def Let_def)
  next
    case False
    obtain g where g: "do_dequeue num s = Some (Some (blkd q), s\<lparr>rings := g\<rparr>)"
      "sched_inv (s\<lparr>rings := g\<rparr>)" "queued num (s\<lparr>rings := g\<rparr>) = qs" "same_other num s (s\<lparr>rings := g\<rparr>)"
      using do_dequeue_queued Cons.prems by blast
    show ?thesis
    proof (cases "update_remove_tockens (dec_queue_size ?sd ?len) ?len")
      case None
      with False g show ?thesis
        by (simp add: action_dequeue_if_ok_def Let_def)
    next
      case (Some sd1)
      define s1 where "s1 = sock_fd_tx num (blkd q) (set_side num sd1 (s\<lparr>rings := g\<rparr>))"
      have s1: "sched_inv s1" "queued num s1 = qs" "get_side num s1 = sd1"
        "sent s1 = sent s @ [(num, blkd q)]" "same_other num s s1"
        using g Cons.prems(2) by (auto simp: s1_def queued_def same_other_def)
      have "activate_loop num now (opt_hd (q # qs)) s = activate_loop num now (opt_hd qs) s1"
        using False g Some slot_lookat_queued [OF s1(1) Cons.prems(2)] s1(2)
        by (simp add: action_dequeue_if_ok_def Let_def s1_def opt_hd_def)
      with Cons.IH [OF s1(1) Cons.prems(2) s1(2)] False Some s1
      show ?thesis
        by (auto split: option.splits intro: same_other_trans)
    qed
  qed
qed


section \<open>Order, budget, delay and accounting of one activation\<close>

definition pkt_ok :: "t_queue \<Rightarrow> bool" where
  "pkt_ok q \<longleftrightarrow> 0 \<le> payload_len (blkd q) \<and> payload_len (blkd q) \<le> PAYLOAD_BLKD_SIZE"

definition bytes :: "t_blkd list \<Rightarrow> int" where
  "bytes bs = sum_list (map payload_len bs)"

lemma bytes_simps [simp]:
  "bytes [] = 0" "bytes (b # bs) = payload_len b + bytes bs" "bytes (bs @ cs) = bytes bs + bytes cs"
  by (simp_all add: bytes_def)

lemma bytes_nonneg: "\<forall>q \<in> set qs. pkt_ok q \<Longrightarrow> 0 \<le> bytes (map blkd qs)"
  by (induction qs) (auto simp: pkt_ok_def)

lemma drain_order:
  "drain_spec now sd qs = Some (bs, sd', rest) \<Longrightarrow>
   \<exists>k. bs = map blkd (take k qs) \<and> rest = drop k qs \<and>
       (\<forall>q \<in> set (take k qs). conf_delay sd \<le> c_div (i32 (now - arrival_date_us q)) 1000)"
proof (induction qs arbitrary: sd bs)
  case Nil
  then show ?case by simp
next
  case (Cons q qs)
  show ?case
  proof (cases "c_div (i32 (now - arrival_date_us q)) 1000 < conf_delay sd \<or>
                \<not> tocken_authorization sd (payload_len (blkd q))")
    case True
    with Cons.prems have "bs = []" "rest = q # qs" by (auto split: if_splits)
    then show ?thesis by (intro exI [of _ 0]) simp
  next
    case False
    with Cons.prems obtain sd1 bs1 where
      rm: "update_remove_tockens (dec_queue_size sd (payload_len (blkd q))) (payload_len (blkd q)) = Some sd1"
      and dr: "drain_spec now sd1 qs = Some (bs1, sd', rest)" and bs: "bs = blkd q # bs1"
      by (auto simp: bind_eq_Some)
    from rm have "conf_delay sd1 = conf_delay sd"
      by (auto simp: update_remove_tockens_def dec_queue_size_def Let_def split: if_splits)
    with Cons.IH [OF dr] obtain k where "bs1 = map blkd (take k qs)" "rest = drop k qs"
      "\<forall>q \<in> set (take k qs). conf_delay sd \<le> c_div (i32 (now - arrival_date_us q)) 1000"
      by auto
    with False bs show ?thesis by (intro exI [of _ "Suc k"]) auto
  qed
qed

lemma remove_tockens_exact:
  assumes "pkt_ok q" and "tocken_authorization sd (payload_len (blkd q))" and "tockens sd < 2 ^ 63"
  shows "update_remove_tockens (dec_queue_size sd (payload_len (blkd q))) (payload_len (blkd q)) =
         Some ((dec_queue_size sd (payload_len (blkd q)))
                 \<lparr>tockens := tockens sd - 1000 * payload_len (blkd q)\<rparr>)"
proof -
  have "i32 (payload_len (blkd q) * 1000) = 1000 * payload_len (blkd q)"
    using assms(1) by (subst i32_id) (simp_all add: pkt_ok_def PAYLOAD_BLKD_SIZE_def)
  with assms show ?thesis
    by (simp add: update_remove_tockens_def tocken_authorization_def dec_queue_size_def i64_id
        pkt_ok_def PAYLOAD_BLKD_SIZE_def Let_def)
qed

lemma drain_budget:
  assumes "\<forall>q \<in> set qs. pkt_ok q" and "tockens sd < 2 ^ 63"
    and "bytes (map blkd qs) \<le> stored sd" and "stored sd < 2 ^ 63"
  shows "\<exists>bs sd' rest. drain_spec now sd qs = Some (bs, sd', rest) \<and>
      1000 * bytes bs + tockens sd' = tockens sd \<and> (bs \<noteq> [] \<longrightarrow> 0 < tockens sd') \<and>
      stored sd' = stored sd - bytes bs \<and>
      conf_qsize sd' = conf_qsize sd \<and> conf_bsize sd' = conf_bsize sd \<and>
      conf_brate sd' = conf_brate sd \<and> conf_loss sd' = conf_loss sd \<and> conf_delay sd' = conf_delay sd"
  using assms
proof (induction qs arbitrary: sd)
  case Nil
  then show ?case by simp
next
  case (Cons q qs)
  let ?len = "payload_len (blkd q)"
  show ?case
  proof (cases "c_div (i32 (now - arrival_date_us q)) 1000 < conf_delay sd \<or> \<not> tocken_authorization sd ?len")
    case True
    then show ?thesis by auto
  next
    case False
    let ?sd1 = "(dec_queue_size sd ?len)\<lparr>tockens := tockens sd - 1000 * ?len\<rparr>"
    have q: "pkt_ok q" and len: "0 \<le> ?len" using Cons.prems(1) by (auto simp: pkt_ok_def)
    have "0 \<le> bytes (map blkd qs)" using Cons.prems(1) by (simp add: bytes_nonneg)
    then have st: "stored ?sd1 = stored sd - ?len"
      using Cons.prems len by (simp add: dec_queue_size_def i64_id)
    have pos: "0 < tockens ?sd1"
      using False q by (auto simp: tocken_authorization_def pkt_ok_def PAYLOAD_BLKD_SIZE_def i32_id)
    from Cons.IH [of ?sd1] Cons.prems st len obtain bs sd' rest where
      dr: "drain_spec now ?sd1 qs = Some (bs, sd', rest)"
      "1000 * bytes bs + tockens sd' = tockens ?sd1" "bs \<noteq> [] \<longrightarrow> 0 < tockens sd'"
      "stored sd' = stored ?sd1 - bytes bs" "conf_qsize sd' = conf_qsize ?sd1"
      "conf_bsize sd' = conf_bsize ?sd1" "conf_brate sd' = conf_brate ?sd1"
      "conf_loss sd' = conf_loss ?sd1" "conf_delay sd' = conf_delay ?sd1"
      by auto
    have "drain_spec now sd (q # qs) = Some (blkd q # bs, sd', rest)"
      using False remove_tockens_exact [OF q _ Cons.prems(2)] dr(1) by simp
    moreover have "0 < tockens sd'"
      using dr(2,3) pos by (cases "bs = []") auto
    ultimately show ?thesis using dr st by (auto simp: dec_queue_size_def)
  qed
qed

text \<open>The tokens added for \<open>ms\<close> milliseconds, when nothing overflows.\<close>

definition rates_fit :: "t_connect_side \<Rightarrow> int \<Rightarrow> bool" where
  "rates_fit sd ms \<longleftrightarrow>
     0 \<le> tockens sd \<and> tockens sd < 2 ^ 62 \<and> 0 \<le> conf_brate sd * ms \<and> conf_brate sd * ms < 2 ^ 31 \<and>
     0 \<le> conf_bsize sd \<and> 1000 * conf_bsize sd < 2 ^ 31"

lemma add_tockens_exact:
  assumes "rates_fit sd ms"
  shows "update_add_tockens sd ms =
         sd\<lparr>tockens := min (1000 * conf_bsize sd) (tockens sd + conf_brate sd * ms)\<rparr>"
  using assms
  by (auto simp: update_add_tockens_def rates_fit_def i32_id i64_id Let_def min_def)

lemma add_tockens_bound: "tockens (update_add_tockens sd ms) < 2 ^ 63"
  using i64_range [of "tockens sd + i32 (conf_brate sd * ms)"]
  by (auto simp: update_add_tockens_def Let_def)

lemma add_tockens_frame [simp]:
  "stored (update_add_tockens sd ms) = stored sd" "conf_qsize (update_add_tockens sd ms) = conf_qsize sd"
  "conf_bsize (update_add_tockens sd ms) = conf_bsize sd" "conf_brate (update_add_tockens sd ms) = conf_brate sd"
  "conf_loss (update_add_tockens sd ms) = conf_loss sd" "conf_delay (update_add_tockens sd ms) = conf_delay sd"
  by (simp_all add: update_add_tockens_def Let_def)


lemma activate_refines:
  assumes "sched_inv s" and "num \<le> 1"
  shows "case drain_spec now (update_add_tockens (get_side num s) ms) (queued num s) of
      None \<Rightarrow> activate_tx num now ms s = None
    | Some (bs, sd, rest) \<Rightarrow>
        \<exists>t. activate_tx num now ms s = Some t \<and> sched_inv t \<and> queued num t = rest \<and>
            get_side num t = sd \<and> sent t = sent s @ map (Pair num) bs \<and> same_other num s t"
proof -
  let ?s = "set_side num (update_add_tockens (get_side num s) ms) s"
  have "same_other num s ?s" using assms(2) by (simp add: same_other_def)
  moreover have "activate_tx num now ms s = activate_loop num now (opt_hd (queued num s)) ?s"
    using slot_lookat_queued [OF assms] by (simp add: activate_tx_def opt_hd_def)
  ultimately show ?thesis
    using loop_refines [of ?s num "queued num s" now] assms
    by (auto simp: queued_def split: option.splits intro: same_other_trans)
qed

section \<open>The component as an event-driven system\<close>

datatype sched_event =
    Ev_timer nat int
  | Ev_wake nat int
  | Ev_packet nat int int t_blkd

text \<open>\<open>clownix_real_timer_add\<close> succeeds and \<open>write\<close> writes its byte.\<close>

fun sched_step :: "sched \<Rightarrow> sched_event \<Rightarrow> sched run" where
  "sched_step s (Ev_timer num date) = timer_sched num (Some date) s"
| "sched_step s (Ev_wake num now) = (if num = 0 then rx_wake_tx0 now s else rx_wake_tx1 now s)"
| "sched_step s (Ev_packet g_num now rnd b) = rx_from_traffic_sock g_num now rnd 1 (Some b) s"

fun sched_legal :: "sched_event \<Rightarrow> bool" where
  "sched_legal (Ev_timer num date) = (num \<le> 1)"
| "sched_legal (Ev_wake num now) = (num \<le> 1)"
| "sched_legal (Ev_packet g_num now rnd b) =
     (g_num \<le> 1 \<and> 0 \<le> payload_len b \<and> payload_len b \<le> PAYLOAD_BLKD_SIZE)"

text \<open>
  The ring is a queue of packets of legal size, and \<open>stored\<close> counts at least their bytes.
\<close>

definition side_ok :: "t_connect_side \<Rightarrow> t_queue list \<Rightarrow> bool" where
  "side_ok sd qs \<longleftrightarrow>
     (\<forall>q \<in> set qs. pkt_ok q) \<and> bytes (map blkd qs) \<le> stored sd \<and> stored sd < 2 ^ 31 \<and>
     conf_qsize sd < 2 ^ 31"

definition sched_ok :: "sched \<Rightarrow> bool" where
  "sched_ok s \<longleftrightarrow>
     sched_inv s \<and> (\<forall>num \<le> 1. side_ok (get_side num s) (queued num s))"

lemma all_le_1: "(\<forall>n \<le> (1::nat). P n) \<longleftrightarrow> P 0 \<and> P 1"
  by (auto simp: le_Suc_eq)

lemma sched_okI:
  assumes "sched_inv s" and "num \<le> 1"
    and "side_ok (get_side num s) (queued num s)"
    and "side_ok (get_side (1 - num) s) (queued (1 - num) s)"
  shows "sched_ok s"
  using assms unfolding sched_ok_def all_le_1 by (cases num) auto

lemma sched_okD:
  "sched_ok s \<Longrightarrow> num \<le> 1 \<Longrightarrow> sched_inv s \<and> side_ok (get_side num s) (queued num s) \<and>
     side_ok (get_side (1 - num) s) (queued (1 - num) s)"
  by (simp add: sched_ok_def)

lemma same_other_queued: "same_other num s t \<Longrightarrow> queued (1 - num) t = queued (1 - num) s"
  by (simp add: same_other_def queued_def)

lemma sum_stored_frame: "0 \<le> stored sd \<Longrightarrow> stored sd < 2 ^ 31 \<Longrightarrow> stored sd < 2 ^ 63"
  by simp

text \<open>An activation never ends the process, and does what the list recursion says.\<close>

lemma activate_ok:
  assumes ok: "sched_ok s" and num: "num \<le> 1"
  shows "\<exists>t bs. activate_tx num now ms s = Some t \<and> sched_ok t \<and>
      sent t = sent s @ map (Pair num) bs \<and> map blkd (queued num s) = bs @ map blkd (queued num t) \<and>
      1000 * bytes bs + tockens (get_side num t) = tockens (update_add_tockens (get_side num s) ms) \<and>
      (bs \<noteq> [] \<longrightarrow> 0 < tockens (get_side num t)) \<and>
      stored (get_side num t) = stored (get_side num s) - bytes bs"
proof -
  let ?sd = "update_add_tockens (get_side num s) ms" and ?qs = "queued num s"
  from sched_okD [OF ok num] have inv: "sched_inv s" and side: "side_ok (get_side num s) ?qs"
    and other: "side_ok (get_side (1 - num) s) (queued (1 - num) s)" by simp_all
  then obtain bs sd rest where dr: "drain_spec now ?sd ?qs = Some (bs, sd, rest)"
    and bud: "1000 * bytes bs + tockens sd = tockens ?sd" "bs \<noteq> [] \<longrightarrow> 0 < tockens sd"
      "stored sd = stored (get_side num s) - bytes bs" "conf_qsize sd = conf_qsize (get_side num s)"
    using drain_budget [of ?qs ?sd now] add_tockens_bound [of "get_side num s" ms]
    by (auto simp: side_ok_def)
  from activate_refines [OF inv num, of now ms] dr obtain t where
    t: "activate_tx num now ms s = Some t" "sched_inv t" "queued num t = rest" "get_side num t = sd"
      "sent t = sent s @ map (Pair num) bs" "same_other num s t" by auto
  from drain_order [OF dr] obtain k where k: "bs = map blkd (take k ?qs)" "rest = drop k ?qs" by auto
  then have split: "map blkd ?qs = bs @ map blkd rest"
    by (simp flip: map_append)
  have "0 \<le> bytes bs"
    using bytes_nonneg [of "take k ?qs"] side k by (auto simp: side_ok_def dest: in_set_takeD)
  moreover have "\<forall>q \<in> set rest. pkt_ok q"
    using side k by (auto simp: side_ok_def dest: in_set_dropD)
  moreover have "bytes (map blkd ?qs) = bytes bs + bytes (map blkd rest)"
    by (simp add: split)
  ultimately have "side_ok sd rest"
    using side bud by (auto simp: side_ok_def)
  moreover have "get_side (1 - num) t = get_side (1 - num) s"
    using t(6) by (simp add: same_other_def)
  ultimately have "sched_ok t"
    using t num other same_other_queued [OF t(6)] by (intro sched_okI [of t num]) simp_all
  with t bud split show ?thesis by (intro exI [of _ t] exI [of _ bs]) simp
qed


lemma sched_ok_dates [simp]:
  "sched_ok (s\<lparr>g_prev_date_us_a := d\<rparr>) = sched_ok s"
  "sched_ok (s\<lparr>g_prev_date_us_b := d\<rparr>) = sched_ok s"
  "sched_ok (s\<lparr>timers := ts\<rparr>) = sched_ok s" "sched_ok (s\<lparr>wakes := ws\<rparr>) = sched_ok s"
  "sched_ok (s\<lparr>g_rx0 := r\<rparr>) = sched_ok s" "sched_ok (s\<lparr>g_rx1 := r\<rparr>) = sched_ok s"
  by (simp_all add: sched_ok_def sched_inv_def get_side_def queued_def side_ring_def)

text \<open>A packet that is put on a ring with room, and one that finds the ring full.\<close>

lemma enqueue_room:
  assumes inv: "sched_inv s" and num: "num \<le> 1" and room: "length (queued num s) < 4095"
  shows "\<exists>t. do_enqueue num now b s = Some t \<and> sched_inv t \<and>
      queued num t = queued num s @ [\<lparr>blkd = b, arrival_date_us = now\<rparr>] \<and>
      get_side num t = get_side num s \<and> sent t = sent s \<and> same_other num s t"
proof -
  note ring_inv = sched_inv_side [OF inv, of num]
  let ?q = "\<lparr>blkd = b, arrival_date_us = now\<rparr>"
  obtain n where n: "circ_empty (side_ring num s) = Some (n, side_ring num s)"
    and un: "unat n = 4095 - length (queued num s)"
    using ring.space_spec [OF ring_inv] by (auto simp: queued_def)
  have "0 < sint n"
    using un room sint_small [of n] by simp
  moreover obtain c where c: "circ_put ?q (side_ring num s) = Some c" "circ_inv c"
    "circ_list c = queued num s @ [?q]"
    using ring.put_room [OF ring_inv, of ?q] room by (auto simp: queued_def)
  ultimately have "do_enqueue num now b s = Some (s\<lparr>rings := circ_upd num c (rings s)\<rparr>)"
    using n num by (simp add: do_enqueue_def circ_empty_slot_nb_def circ_slot_put_def circ_sel_side
        circ_upd_same)
  then show ?thesis
    using c num sched_inv_upd [OF inv c(2), of num]
    by (intro exI [of _ "s\<lparr>rings := circ_upd num c (rings s)\<rparr>"]) (simp add: queued_def same_other_def)
qed

lemma enqueue_full:
  assumes inv: "sched_inv s" and num: "num \<le> 1" and full: "length (queued num s) = 4095"
  shows "do_enqueue num now b s =
    Some (set_side num ((get_side num s)\<lparr>dropped := i64 (dropped (get_side num s) + payload_len b)\<rparr>) s)"
proof -
  note ring_inv = sched_inv_side [OF inv, of num]
  obtain n where n: "circ_empty (side_ring num s) = Some (n, side_ring num s)" and un: "unat n = 0"
    using ring.space_spec [OF ring_inv] full by (auto simp: queued_def)
  then have "n = 0" by (simp add: unat_eq_zero)
  with n num show ?thesis
    by (simp add: do_enqueue_def circ_empty_slot_nb_def circ_sel_side circ_upd_same Let_def)
qed


lemma packet_ok:
  assumes ok: "sched_ok s" and num: "num \<le> 1" and b: "0 \<le> payload_len b" "payload_len b \<le> PAYLOAD_BLKD_SIZE"
  shows "\<exists>t. sched_tx_pkt num now rnd b s = Some t \<and> sched_ok t"
proof -
  let ?sd = "get_side num s"
  from sched_okD [OF ok num] have inv: "sched_inv s" and side: "side_ok ?sd (queued num s)"
    and other: "side_ok (get_side (1 - num) s) (queued (1 - num) s)" by simp_all
  have nonneg: "0 \<le> stored ?sd"
    using side bytes_nonneg [of "queued num s"] by (auto simp: side_ok_def)
  obtain acc sd where ce: "can_enqueue rnd (payload_len b) ?sd = (acc, sd)"
    by (cases "can_enqueue rnd (payload_len b) ?sd")
  have i: "i64 (stored ?sd + payload_len b) = stored ?sd + payload_len b"
    using side nonneg b by (simp add: i64_id side_ok_def PAYLOAD_BLKD_SIZE_def)
  have sd: "side_ok sd (queued num s)"
    and acc: "acc \<Longrightarrow> stored sd = stored ?sd + payload_len b \<and> stored sd < 2 ^ 31 \<and> conf_qsize sd = conf_qsize ?sd"
    using ce side b by (auto simp: can_enqueue_def inc_queue_size_def side_ok_def i split: if_splits)
  let ?s = "set_side num sd s"
  have ok': "sched_ok ?s"
    using inv num sd other by (intro sched_okI [of ?s num]) (simp_all add: queued_def)
  show ?thesis
  proof (cases acc)
    case False
    with ce ok' num show ?thesis by (auto simp: sched_tx_pkt_def)
  next
    case True
    have inv': "sched_inv ?s" using inv by simp
    have len: "length (queued num ?s) \<le> 4095"
      using ring.bounded [OF sched_inv_side [OF inv']] by (simp add: queued_def)
    have tx: "sched_tx_pkt num now rnd b s = do_enqueue num now b ?s"
      using True ce num by (auto simp: sched_tx_pkt_def)
    show ?thesis
    proof (cases "length (queued num ?s) = 4095")
      case full: True
      let ?sd' = "sd\<lparr>dropped := i64 (dropped sd + payload_len b)\<rparr>"
      have "side_ok ?sd' (queued num s)" using sd by (simp add: side_ok_def)
      then have "sched_ok (set_side num ?sd' ?s)"
        using inv num other by (intro sched_okI [of _ num]) (simp_all add: queued_def)
      with tx enqueue_full [OF inv' num full, of now b] show ?thesis by simp
    next
      case False
      with len enqueue_room [OF inv' num, of now b] obtain t where
        t: "do_enqueue num now b ?s = Some t" "sched_inv t" "get_side num t = sd"
          "queued num t = queued num s @ [\<lparr>blkd = b, arrival_date_us = now\<rparr>]" "same_other num ?s t"
        by (auto simp: queued_def)
      have "side_ok (get_side num t) (queued num t)"
        using t b acc [OF True] side by (auto simp: side_ok_def pkt_ok_def)
      moreover have "side_ok (get_side (1 - num) t) (queued (1 - num) t)"
        using other t(5) num same_other_queued [OF t(5)] by (simp add: same_other_def queued_def)
      ultimately have "sched_ok t" by (rule sched_okI [OF t(2) num])
      with tx t show ?thesis by simp
    qed
  qed
qed

definition sched_start :: sched where
  "sched_start = \<lparr>rings = \<lparr>g_circ_ctx0 = circ_init, g_circ_ctx1 = circ_init\<rparr>, sides = config_init,
     g_prev_date_us_a = 0, g_prev_date_us_b = 0, sent = [], timers = [], wakes = [],
     g_rx0 = 0, g_rx1 = 0\<rparr>"

lemma sched_step_ok:
  assumes "sched_ok s" and "sched_legal e"
  shows "\<exists>t. sched_step s e = Some t \<and> sched_ok t"
proof (cases e)
  case (Ev_timer num date)
  let ?s = "s\<lparr>timers := timers s @ [(num, 1000)]\<rparr>"
  from assms(1) have ok: "sched_ok (?s\<lparr>g_prev_date_us_a := date\<rparr>)" "sched_ok (?s\<lparr>g_prev_date_us_b := date\<rparr>)"
    by simp_all
  from Ev_timer assms(2) consider "num = 0" | "num = 1" by fastforce
  then show ?thesis
    using activate_ok [OF ok(1), of 0] activate_ok [OF ok(2), of 1] Ev_timer
    by cases (simp add: timer_sched_def Let_def, metis)+
next
  case (Ev_wake num now)
  from assms(1) have ok: "sched_ok (s\<lparr>g_prev_date_us_a := now\<rparr>)" "sched_ok (s\<lparr>g_prev_date_us_b := now\<rparr>)"
    by simp_all
  from Ev_wake assms(2) consider "num = 0" | "num = 1" by fastforce
  then show ?thesis
    using activate_ok [OF ok(1), of 0] activate_ok [OF ok(2), of 1] Ev_wake
    by cases (simp add: rx_wake_tx0_def rx_wake_tx1_def sched_tx0_activate_def
        sched_tx1_activate_def, metis)+
next
  case (Ev_packet g_num now rnd b)
  with assms packet_ok [of s "1 - g_num" b now rnd] obtain t where
    t: "sched_tx_pkt (1 - g_num) now rnd b s = Some t" "sched_ok t" by auto
  from Ev_packet assms(2) consider "g_num = 0" | "g_num = 1" by fastforce
  then show ?thesis
    using t Ev_packet by cases (simp_all add: rx_from_traffic_sock_def wake_tx_send_def)
qed

lemma sched_ok_start: "sched_ok sched_start"
  by (auto simp: sched_ok_def sched_inv_def sched_start_def queued_def side_ring_def side_ok_def
      get_side_def config_init_def default_side_def zero_side_def ring.invar_empty ring.list_empty)

interpretation sched_sys: safe_system sched_start sched_step sched_legal sched_ok
proof unfold_locales
  show "sched_ok sched_start" by (rule sched_ok_start)
  show "sched_ok t" if "sched_ok s" "sched_legal e" "sched_step s e = Some t" for s e t
    using sched_step_ok [OF that(1,2)] that(3) by auto
  show "\<exists>t. sched_step s e = Some t" if "sched_ok s" "sched_legal e" for s e
    using sched_step_ok [OF that] by auto
qed


section \<open>The properties of the delay line\<close>

text \<open>A state with one packet on the ring of side A, for the witnesses.\<close>

definition demo_blkd :: t_blkd where
  "demo_blkd = \<lparr>count_reference = 1, blkd_group = None, qemu_group_rank = 0, blkd_llid = 0,
     blkd_type = 0, blkd_val = 0, blkd_usec = 0, header_blkd_len = 20, payload_len = 100,
     header_blkd = [], payload_blkd = []\<rparr>"

definition demo_sched :: "t_queue list \<Rightarrow> t_queue circ_ctx \<Rightarrow> bool" where
  "demo_sched qs c \<longleftrightarrow> circ_inv c \<and> circ_list c = qs"

definition demo_side :: t_connect_side where
  "demo_side = zero_side\<lparr>tockens := 500000, stored := 1000000, conf_qsize := 10000000,
     conf_bsize := 1000000, conf_brate := 1000\<rparr>"

definition demo_state :: "t_queue circ_ctx \<Rightarrow> sched" where
  "demo_state c = sched_start\<lparr>rings := \<lparr>g_circ_ctx0 = c, g_circ_ctx1 = circ_init\<rparr>,
     sides := \<lparr>g_sideA = demo_side, g_sideB = default_side\<rparr>\<rparr>"

abbreviation demo_q :: t_queue where
  "demo_q \<equiv> \<lparr>blkd = demo_blkd, arrival_date_us = 0\<rparr>"

lemma demo_blkd_len [simp]: "payload_len demo_blkd = 100"
  by (simp add: demo_blkd_def)

lemma bytes_replicate [simp]: "bytes (replicate n demo_blkd) = 100 * int n"
  by (induction n) simp_all

lemma demo_ring: "n \<le> 4095 \<Longrightarrow> \<exists>c. demo_sched (replicate n demo_q) c"
  using ring.put_all_spec [OF ring.invar_empty, of "replicate n demo_q"]
  by (auto simp: demo_sched_def ring.list_empty)

lemma demo_state_ok:
  assumes "demo_sched (replicate n demo_q) c" and "n \<le> 4095"
  shows "sched_ok (demo_state c) \<and> queued 0 (demo_state c) = replicate n demo_q \<and>
         get_side 0 (demo_state c) = demo_side"
proof -
  have q: "queued 0 (demo_state c) = replicate n demo_q" "queued 1 (demo_state c) = []"
    using assms(1) by (simp_all add: queued_def side_ring_def demo_state_def demo_sched_def ring.list_empty)
  have sd: "get_side 0 (demo_state c) = demo_side" "get_side 1 (demo_state c) = default_side"
    by (simp_all add: get_side_def demo_state_def)
  have "sched_inv (demo_state c)"
    using assms(1) by (simp add: sched_inv_def demo_state_def demo_sched_def ring.invar_empty)
  moreover have "side_ok demo_side (replicate n demo_q)"
    using assms(2) by (auto simp: side_ok_def demo_side_def pkt_ok_def PAYLOAD_BLKD_SIZE_def zero_side_def)
  moreover have "side_ok default_side []"
    by (simp add: side_ok_def default_side_def zero_side_def)
  ultimately have "sched_ok (demo_state c)"
    using q sd by (intro sched_okI [of _ 0]) simp_all
  with q sd show ?thesis by simp
qed

text \<open>C2: an activation of a side behaves as the recursion over the list of its queued packets
  says: same end of process, same packets handed to the socket, same counters, same packets left,
  and nothing of the other side changes.\<close>

theorem activation_refines_list:
  assumes "sched_inv s" and "num \<le> 1"
  shows "case drain_spec now (update_add_tockens (get_side num s) ms) (queued num s) of
      None \<Rightarrow> activate_tx num now ms s = None
    | Some (bs, sd, rest) \<Rightarrow>
        \<exists>t. activate_tx num now ms s = Some t \<and> sched_inv t \<and> queued num t = rest \<and>
            get_side num t = sd \<and> sent t = sent s @ map (Pair num) bs \<and> same_other num s t"
  by (rule activate_refines [OF assms])

theorem activation_refines_list_witness:
  "\<exists>s t. queued 0 s = [demo_q, demo_q] \<and> activate_tx 0 5000 1 s = Some t \<and>
     sent t = [(0, demo_blkd), (0, demo_blkd)] \<and> queued 0 t = []"
proof -
  obtain c where c: "demo_sched (replicate 2 demo_q) c" using demo_ring [of 2] by auto
  from demo_state_ok [OF c] have ok: "sched_inv (demo_state c)" "queued 0 (demo_state c) = [demo_q, demo_q]"
    "get_side 0 (demo_state c) = demo_side" by (simp_all add: sched_ok_def numeral_2_eq_2)
  have "drain_spec 5000 (update_add_tockens demo_side 1) [demo_q, demo_q] =
        Some ([demo_blkd, demo_blkd], demo_side\<lparr>tockens := 301000, stored := 999800, dequeue := 200\<rparr>, [])"
    by (simp add: demo_side_def zero_side_def update_add_tockens_def i32_def i64_def c_div_def
        tocken_authorization_def update_remove_tockens_def dec_queue_size_def Let_def)
  with activation_refines_list [OF ok(1), of 0 5000 1] ok obtain t where
    "activate_tx 0 5000 1 (demo_state c) = Some t" "queued 0 t = []"
    "sent t = sent (demo_state c) @ map (Pair 0) [demo_blkd, demo_blkd]"
    by (auto simp del: drain_spec.simps)
  moreover have "sent (demo_state c) = []" by (simp add: demo_state_def sched_start_def)
  ultimately show ?thesis using ok(2) by (intro exI [of _ "demo_state c"] exI [of _ t]) simp
qed

text \<open>an activation sends a prefix of the queue of its side, in the order of arrival, every
  packet of it has waited for the configured delay, and the rest stays queued.\<close>

theorem activation_order_and_delay:
  assumes "sched_inv s" and "num \<le> 1" and "activate_tx num now ms s = Some t"
  shows "\<exists>k. sent t = sent s @ map (\<lambda>q. (num, blkd q)) (take k (queued num s)) \<and>
             queued num t = drop k (queued num s) \<and>
             (\<forall>q \<in> set (take k (queued num s)).
                conf_delay (get_side num s) \<le> c_div (i32 (now - arrival_date_us q)) 1000)"
proof -
  from activate_refines [OF assms(1,2), of now ms] assms(3) obtain bs sd rest where
    "drain_spec now (update_add_tockens (get_side num s) ms) (queued num s) = Some (bs, sd, rest)"
    "sent t = sent s @ map (Pair num) bs" "queued num t = rest"
    by (auto split: option.splits)
  with drain_order [OF this(1)] show ?thesis by (auto simp: comp_def)
qed

theorem activation_order_and_delay_witness:
  "\<exists>s t k. activate_tx 0 5000 1 s = Some t \<and> queued 0 s = replicate 3 demo_q \<and>
     queued 0 t = drop k (replicate 3 demo_q)"
proof -
  obtain c where c: "demo_sched (replicate 3 demo_q) c" using demo_ring [of 3] by auto
  from demo_state_ok [OF c] have ok: "sched_ok (demo_state c)" "queued 0 (demo_state c) = replicate 3 demo_q"
    by simp_all
  then have inv: "sched_inv (demo_state c)" by (simp add: sched_ok_def)
  obtain t where t: "activate_tx 0 5000 1 (demo_state c) = Some t"
    using activate_ok [OF ok(1), of 0 5000 1] by auto
  from activation_order_and_delay [OF inv _ t] ok t show ?thesis by fastforce
qed





text \<open>a packet that finds the ring full is counted in \<open>stored\<close> although it is dropped: the
  bytes stay counted as queued, and no later dequeue takes them off.\<close>

theorem full_ring_leaks_stored:
  assumes "sched_ok s" and "num \<le> 1" and "length (queued num s) = 4095"
    and "\<not> is_lost rnd (conf_loss (get_side num s))"
    and "0 \<le> payload_len b" and "payload_len b \<le> PAYLOAD_BLKD_SIZE"
    and "stored (get_side num s) + payload_len b < conf_qsize (get_side num s)"
  shows "\<exists>t. sched_tx_pkt num now rnd b s = Some t \<and> queued num t = queued num s \<and> sent t = sent s \<and>
     stored (get_side num t) = stored (get_side num s) + payload_len b"
proof -
  let ?sd = "inc_queue_size (get_side num s) (payload_len b)"
  let ?s = "set_side num ?sd s"
  from sched_okD [OF assms(1,2)] have inv: "sched_inv s" and side: "side_ok (get_side num s) (queued num s)"
    by simp_all
  then have i: "i64 (stored (get_side num s) + payload_len b) = stored (get_side num s) + payload_len b"
    using bytes_nonneg [of "queued num s"] assms(5,6)
    by (auto simp: i64_id side_ok_def PAYLOAD_BLKD_SIZE_def)
  have "sched_tx_pkt num now rnd b s = do_enqueue num now b ?s"
    using assms i by (auto simp: sched_tx_pkt_def can_enqueue_def)
  also have "\<dots> = Some (set_side num (?sd\<lparr>dropped := i64 (dropped ?sd + payload_len b)\<rparr>) ?s)"
    using enqueue_full [of ?s num now b] inv assms(2,3) by (simp add: queued_def)
  finally show ?thesis using i by (simp add: queued_def inc_queue_size_def)
qed

theorem full_ring_leaks_stored_witness:
  "\<exists>s t. length (queued 0 s) = 4095 \<and> sched_tx_pkt 0 1 2 demo_blkd s = Some t \<and>
     queued 0 t = queued 0 s \<and> stored (get_side 0 t) = stored (get_side 0 s) + 100"
proof -
  obtain c where c: "demo_sched (replicate 4095 demo_q) c" using demo_ring [of 4095] by auto
  from demo_state_ok [OF c] have ok: "sched_ok (demo_state c)"
    "queued 0 (demo_state c) = replicate 4095 demo_q" "get_side 0 (demo_state c) = demo_side" by simp_all
  then obtain t where "sched_tx_pkt 0 1 2 demo_blkd (demo_state c) = Some t"
    "queued 0 t = queued 0 (demo_state c)"
    "stored (get_side 0 t) = stored (get_side 0 (demo_state c)) + 100"
    using full_ring_leaks_stored [of "demo_state c" 0 2 demo_blkd 1]
    by (auto simp: demo_side_def zero_side_def is_lost_def PAYLOAD_BLKD_SIZE_def)
  with ok(2,3) show ?thesis
    by (intro exI [of _ "demo_state c"] exI [of _ t]) simp
qed

text \<open>C5: with the start configuration the tokens are computed with an overflow: after 22 to 42
  milliseconds without an activation the bucket of an empty side is negative.\<close>

theorem default_rate_overflows:
  assumes "22 \<le> ms" and "ms \<le> 42"
  shows "tockens (update_add_tockens default_side ms) < 0"
proof -
  have "(100000000 * ms + 2 ^ 31) mod 2 ^ 32 = 100000000 * ms + 2 ^ 31 - 2 ^ 32"
    using assms by (intro mod_pos_pos_trivial [of "100000000 * ms + 2 ^ 31 - 2 ^ 32" "2 ^ 32", simplified
        mod_diff_right_eq minus_mod_self2]) auto
  then have "i32 (100000000 * ms) = 100000000 * ms - 2 ^ 32"
    by (simp add: i32_def)
  then show ?thesis
    using assms by (auto simp: update_add_tockens_def default_side_def zero_side_def i64_id Let_def)
qed

theorem default_rate_overflows_witness:
  "tockens (update_add_tockens default_side 22) < 0"
  using default_rate_overflows [of 22] by simp

text \<open>a configured loss of \<open>n\<close> per 10000 loses \<open>n + 1\<close> out of 10000 random values.\<close>

theorem loss_is_one_too_many:
  assumes "0 < loss" and "loss < 10000"
  shows "card {r. 0 \<le> r \<and> r < 10000 \<and> is_lost r loss} = nat (loss + 1)"
proof -
  have "{r. 0 \<le> r \<and> r < 10000 \<and> is_lost r loss} = {0..loss}"
    using assms by (auto simp: is_lost_def TOTAL_LOSS_VALUE_def)
  then show ?thesis by simp
qed

theorem loss_is_one_too_many_witness:
  "card {r. 0 \<le> r \<and> r < 10000 \<and> is_lost r 10} = 11"
  using loss_is_one_too_many [of 10] by simp

end
