(* ===== verification/Tcp_Packet.thy ===== *)
theory Tcp_Packet
  imports Prelude
begin

text \<open>
  The codec of the TCP segments of munat (\<open>munat/clo_tcp/src/clo_low.c\<close>) and the test that a
  frame passes before it (\<open>munat/src/packet_ip_input.c\<close>). A frame is the list of its bytes, of
  length \<open>mac_len\<close>; a buffer that the source fills byte after byte is the list of the bytes in
  that order. The two checksum functions read their 16-bit words in the order of bytes of the
  machine (little endian) and of the network.
\<close>

section \<open>Segments\<close>

record t_low =
  mac_src :: "u8 list"
  mac_dest :: "u8 list"
  ip_src :: u32
  ip_dest :: u32
  tcp_src :: u16
  tcp_dest :: u16
  ackno :: u32
  seqno :: u32
  flags :: u8
  wnd :: u16
  datalen :: u16
  tcplen :: u16
  low_data :: "u8 list"

definition MAC_HLEN :: nat where "MAC_HLEN = 14"
definition IP_HLEN :: nat where "IP_HLEN = 20"
definition TCP_HLEN :: nat where "TCP_HLEN = 20"

definition TH_FIN :: u8 where "TH_FIN = 0x01"
definition TH_SYN :: u8 where "TH_SYN = 0x02"
definition TH_RST :: u8 where "TH_RST = 0x04"
definition TH_PUSH :: u8 where "TH_PUSH = 0x08"
definition TH_ACK :: u8 where "TH_ACK = 0x10"

definition has :: "u8 \<Rightarrow> u8 \<Rightarrow> bool" where
  "has fl b \<longleftrightarrow> fl AND b \<noteq> 0"

section \<open>Bytes of integers\<close>

definition be16 :: "u8 \<Rightarrow> u8 \<Rightarrow> u16" where
  "be16 a b = push_bit 8 (ucast a) + ucast b"

definition be32 :: "u8 \<Rightarrow> u8 \<Rightarrow> u8 \<Rightarrow> u8 \<Rightarrow> u32" where
  "be32 a b c d = push_bit 24 (ucast a) + push_bit 16 (ucast b) + push_bit 8 (ucast c) + ucast d"

definition byte16 :: "nat \<Rightarrow> u16 \<Rightarrow> u8" where
  "byte16 k w = ucast (drop_bit (8 * k) w)"

definition byte32 :: "nat \<Rightarrow> u32 \<Rightarrow> u8" where
  "byte32 k w = ucast (drop_bit (8 * k) w)"

definition bytes16 :: "u16 \<Rightarrow> u8 list" where
  "bytes16 w = [byte16 1 w, byte16 0 w]"

definition bytes32 :: "u32 \<Rightarrow> u8 list" where
  "bytes32 w = [byte32 3 w, byte32 2 w, byte32 1 w, byte32 0 w]"

section \<open>Checksums\<close>

fun sum_le :: "u8 list \<Rightarrow> int" where
  "sum_le [] = 0"
| "sum_le [a] = uint a"
| "sum_le (a # b # r) = uint a + 256 * uint b + sum_le r"

fun sum_be :: "u8 list \<Rightarrow> int" where
  "sum_be [] = 0"
| "sum_be [a] = 256 * uint a"
| "sum_be (a # b # r) = 256 * uint a + uint b + sum_be r"

definition in_cksum :: "u8 list \<Rightarrow> u16" where
  "in_cksum addr =
     (let s0 = sum_le addr mod 2 ^ 32;
          s1 = s0 div 65536 + s0 mod 65536;
          s2 = s1 + s1 div 65536 in
      NOT (word_of_int s2))"

definition tcp_sum_calc :: "u8 list \<Rightarrow> u8 list \<Rightarrow> u16" where
  "tcp_sum_calc buff pseudo_header =
     (let s0 = i32 (sum_be buff + sum_be pseudo_header);
          s1 = s0 mod 65536 + s0 div 65536;
          s2 = s1 mod 65536 + s1 div 65536 in
      NOT (word_of_int s2))"

text \<open>\<open>len\<close> is the number of bytes of \<open>data\<close>; \<open>iph\<close> starts at the IP header.\<close>

definition tcp_checksum :: "u8 list \<Rightarrow> u8 list \<Rightarrow> u16" where
  "tcp_checksum data iph =
     tcp_sum_calc data
       (take 8 (drop 12 iph) @ [0, 6, word_of_int (int (length data) div 256), word_of_int (int (length data))])"

section \<open>Decoding\<close>

definition mac_get_src_dest :: "u8 list \<Rightarrow> u8 list \<times> u8 list" where
  "mac_get_src_dest mac_data = (take 6 (drop 6 mac_data), take 6 mac_data)"

definition ip_get_src_dest :: "u8 list \<Rightarrow> u32 \<times> u32" where
  "ip_get_src_dest ip_data =
     (be32 (ip_data ! 12) (ip_data ! 13) (ip_data ! 14) (ip_data ! 15),
      be32 (ip_data ! 16) (ip_data ! 17) (ip_data ! 18) (ip_data ! 19))"

definition local_tcp_packet2low :: "int \<Rightarrow> u8 list \<Rightarrow> t_low run" where
  "local_tcp_packet2low len mac_data = do {
     let ip_data = drop MAC_HLEN mac_data;
     let data = drop (MAC_HLEN + IP_HLEN) mac_data;
     ub_if (length data < 16);
     let header_len = drop_bit 2 (data ! 12 AND 0xF0);
     let fl = data ! 13;
     let dlen = (word_of_int (len - uint header_len) :: u16);
     ub_if (length data < unat header_len + unat dlen);
     Some \<lparr>mac_src = fst (mac_get_src_dest mac_data), mac_dest = snd (mac_get_src_dest mac_data),
       ip_src = fst (ip_get_src_dest ip_data), ip_dest = snd (ip_get_src_dest ip_data),
       tcp_src = be16 (data ! 0) (data ! 1), tcp_dest = be16 (data ! 2) (data ! 3),
       ackno = be32 (data ! 8) (data ! 9) (data ! 10) (data ! 11),
       seqno = be32 (data ! 4) (data ! 5) (data ! 6) (data ! 7),
       flags = fl, wnd = be16 (data ! 14) (data ! 15),
       datalen = dlen, tcplen = (if has fl (TH_FIN OR TH_SYN) then dlen + 1 else dlen),
       low_data = take (unat dlen) (drop (unat header_len) data)\<rparr>
   }"

text \<open>The inner option is the result -1, a frame that is dropped.\<close>

definition tcp_packet2low :: "u8 list \<Rightarrow> t_low option run" where
  "tcp_packet2low mac_data = do {
     let ip_data = drop MAC_HLEN mac_data;
     let data = drop (MAC_HLEN + IP_HLEN) mac_data;
     ub_if (length mac_data < MAC_HLEN + IP_HLEN);
     let len = 256 * uint (ip_data ! 2) + uint (ip_data ! 3) - int IP_HLEN;
     if len < 0 then Some None
     else do {
       ub_if (length data < nat len);
       if tcp_checksum (take (nat len) data) ip_data \<noteq> 0 then
         (if len \<noteq> 20 then Some None
          else do {
            low \<leftarrow> local_tcp_packet2low len mac_data;
            Some (Some low)
          })
       else do {
         low \<leftarrow> local_tcp_packet2low len mac_data;
         Some (Some low)
       }
     }
   }"

section \<open>Encoding\<close>

definition fill_mac_header :: "u8 list \<Rightarrow> u8 list \<Rightarrow> u8 list" where
  "fill_mac_header local remote = remote @ local @ [0x08, 0x00]"

definition ip_header_with :: "u16 \<Rightarrow> u16 \<Rightarrow> int \<Rightarrow> u32 \<Rightarrow> u32 \<Rightarrow> u8 list" where
  "ip_header_with checksum identification len local remote =
     [0x45, 0, word_of_int (len div 256), word_of_int len] @ bytes16 identification @
     [0x40, 0, 0x40, 6, byte16 0 checksum, byte16 1 checksum] @ bytes32 local @ bytes32 remote"

text \<open>The static counter \<open>identification\<close> is passed in and returned.\<close>

definition fill_ip_header :: "u16 \<Rightarrow> int \<Rightarrow> u32 \<Rightarrow> u32 \<Rightarrow> u8 list \<times> u16" where
  "fill_ip_header identification len local remote =
     (let ident = identification + 1;
          checksum = in_cksum (ip_header_with 0 ident len local remote) in
      (ip_header_with checksum ident len local remote, ident))"

definition tcp_segment_with :: "u16 \<Rightarrow> t_low \<Rightarrow> u8 list" where
  "tcp_segment_with checksum low =
     bytes16 (tcp_src low) @ bytes16 (tcp_dest low) @ bytes32 (seqno low) @
     (if has (flags low) TH_ACK then bytes32 (ackno low) else [0, 0, 0, 0]) @
     [0x50, flags low] @ bytes16 (wnd low) @ bytes16 checksum @ [0, 0] @
     take (unat (datalen low)) (low_data low)"

definition fill_tcp :: "u8 list \<Rightarrow> t_low \<Rightarrow> u8 list" where
  "fill_tcp ip_header low =
     tcp_segment_with (tcp_checksum (tcp_segment_with 0 low) ip_header) low"

definition tcp_low2packet :: "u16 \<Rightarrow> t_low \<Rightarrow> u8 list \<times> u16" where
  "tcp_low2packet identification low =
     (let (iph, ident) = fill_ip_header identification
            (int (IP_HLEN + TCP_HLEN) + uint (datalen low)) (ip_src low) (ip_dest low) in
      (fill_mac_header (mac_src low) (mac_dest low) @ iph @ fill_tcp iph low, ident))"

section \<open>The test of the frame before it is decoded\<close>

definition tst_ip_input :: "u8 list \<Rightarrow> int option run" where
  "tst_ip_input data = do {
     ub_if (length data < 4);
     let ip_len = 256 * uint (data ! 2) + uint (data ! 3);
     Some (if int IP_HLEN < int (length data) \<and> data ! 0 = 0x45 \<and> ip_len \<le> int (length data) \<and>
              in_cksum (take IP_HLEN data) = 0 \<and> data ! 6 AND NOT 0x40 = 0 \<and> data ! 7 = 0
           then Some ip_len else None)
   }"

text \<open>What \<open>packet_ip_input\<close> hands to the TCP stack of an IP frame.\<close>

definition packet_ip_input_tcp :: "u8 list \<Rightarrow> t_low option run" where
  "packet_ip_input_tcp mac_data = do {
     ub_if (length mac_data < MAC_HLEN);
     r \<leftarrow> tst_ip_input (drop MAC_HLEN mac_data);
     case r of
       None \<Rightarrow> Some None
     | Some _ \<Rightarrow>
         if drop MAC_HLEN mac_data ! 9 = 6 then tcp_packet2low mac_data else Some None
   }"

section \<open>Bytes and integers\<close>

lemma uint_byte16: "uint (byte16 k w) = uint w div 256 ^ k mod 256"
proof -
  have "uint w mod 2 ^ 16 = uint w" using uint_lt2p [of w] by (intro mod_pos_pos_trivial) auto
  then show ?thesis
    by (simp only: byte16_def unsigned_ucast_eq unsigned_drop_bit_eq)
       (simp add: drop_bit_eq_div take_bit_eq_mod power_mult)
qed

lemma uint_byte32: "uint (byte32 k w) = uint w div 256 ^ k mod 256"
proof -
  have "uint w mod 2 ^ 32 = uint w" using uint_lt2p [of w] by (intro mod_pos_pos_trivial) auto
  then show ?thesis
    by (simp only: byte32_def unsigned_ucast_eq unsigned_drop_bit_eq)
       (simp add: drop_bit_eq_div take_bit_eq_mod power_mult)
qed

lemma uint_u8: "0 \<le> uint (b :: u8) \<and> uint b < 256"
  using uint_lt2p [of b] by simp

lemma uint_be16: "uint (be16 a b) = 256 * uint a + uint b"
proof -
  have "uint (be16 a b) = (uint a * 256 + uint b) mod 65536"
    by (simp add: be16_def uint_word_ariths push_bit_eq_mult uint_up_ucast is_up mod_simps)
  then show ?thesis using uint_u8 [of a] uint_u8 [of b] by simp
qed

lemma uint_be32:
  "uint (be32 a b c d) = 16777216 * uint a + 65536 * uint b + 256 * uint c + uint d"
proof -
  have "uint (be32 a b c d) =
      (uint a * 16777216 + uint b * 65536 + uint c * 256 + uint d) mod 2 ^ 32"
    by (simp add: be32_def uint_word_ariths push_bit_eq_mult uint_up_ucast is_up mod_simps)
  then show ?thesis using uint_u8 [of a] uint_u8 [of b] uint_u8 [of c] uint_u8 [of d] by simp
qed

lemma int_bytes2: "256 * (x div 256 mod 256) + x mod 256 = x" if "0 \<le> x" "x < 65536" for x :: int
proof -
  have "x div 256 < 256" "0 \<le> x div 256" using that by simp_all
  then have "x div 256 mod 256 = x div 256" by simp
  then show ?thesis using div_mult_mod_eq [of x 256] by linarith
qed

lemma int_bytes4:
  "16777216 * (x div 16777216 mod 256) + 65536 * (x div 65536 mod 256) + 256 * (x div 256 mod 256) +
   x mod 256 = x" if "0 \<le> x" "x < 4294967296" for x :: int
proof -
  define a b c where "a = x div 256" and "b = a div 256" and "c = b div 256"
  define q r s where "q = x mod 256" and "r = a mod 256" and "s = b mod 256"
  have d: "x div 65536 = b" "x div 16777216 = c"
    by (simp_all add: a_def b_def c_def zdiv_zmult2_eq [symmetric])
  have "0 \<le> c" "c < 256"
    using that by (simp_all add: a_def b_def c_def zdiv_zmult2_eq [symmetric])
  then have m: "c mod 256 = c" by simp
  have e: "a * 256 + q = x" "b * 256 + r = a" "c * 256 + s = b"
    by (simp_all only: a_def b_def c_def q_def r_def s_def div_mult_mod_eq)
  have "16777216 * c + 65536 * s + 256 * r + q = x"
    using e by linarith
  then show ?thesis
    by (simp only: d m a_def [symmetric] q_def [symmetric] r_def [symmetric] s_def [symmetric])
qed

lemma be16_bytes [simp]: "be16 (byte16 1 w) (byte16 0 w) = w"
proof (subst word_uint_eq_iff)
  have "uint w < 65536" using uint_lt2p [of w] by simp
  then show "uint (be16 (byte16 1 w) (byte16 0 w)) = uint w"
    using int_bytes2 [of "uint w"] unfolding uint_be16 uint_byte16 by simp
qed

lemma bytes_powers: "(256::int) ^ 3 = 16777216" "(256::int) ^ 2 = 65536" "(256::int) ^ 1 = 256" "(256::int) ^ 0 = 1"
  by simp_all

lemma be32_bytes [simp]: "be32 (byte32 3 w) (byte32 2 w) (byte32 1 w) (byte32 0 w) = w"
proof (subst word_uint_eq_iff)
  have "uint w < 4294967296" using uint_lt2p [of w] by simp
  then show "uint (be32 (byte32 3 w) (byte32 2 w) (byte32 1 w) (byte32 0 w)) = uint w"
    using int_bytes4 [of "uint w"] uint_ge_0 [of w]
    by (simp only: uint_be32 uint_byte32 bytes_powers div_by_1 simp_thms)
qed

section \<open>A checksum makes the sum of the words a multiple of 65535\<close>

definition fold16 :: "int \<Rightarrow> int" where
  "fold16 s = (let t = s div 65536 + s mod 65536 in t div 65536 + t mod 65536)"

lemma fold_step_mod: "(s div 65536 + s mod 65536) mod 65535 = s mod 65535" for s :: int
proof -
  have "s = (s div 65536 + s mod 65536) + 65535 * (s div 65536)"
    using div_mult_mod_eq [of s 65536] by linarith
  then show ?thesis by (metis mod_mult_self2)
qed

lemma fold16_mod: "fold16 s mod 65535 = s mod 65535"
  by (simp only: fold16_def Let_def fold_step_mod)

lemma fold_step_bounds:
  "0 < s \<Longrightarrow> 0 < s div 65536 + s mod 65536" "0 \<le> s \<Longrightarrow> 0 \<le> s div 65536 + s mod 65536" for s :: int
proof -
  show "0 \<le> s div 65536 + s mod 65536" if "0 \<le> s"
    using that by (intro add_nonneg_nonneg) simp_all
  have "s div 65536 \<noteq> 0 \<or> s mod 65536 \<noteq> 0" if "0 < s"
    using that div_mult_mod_eq [of s 65536] by auto
  moreover have "0 \<le> s div 65536" "0 \<le> s mod 65536" if "0 < s" using that by simp_all
  ultimately show "0 < s div 65536 + s mod 65536" if "0 < s"
    using that by (smt (verit))
qed

lemma fold16_pos: "0 < s \<Longrightarrow> 0 < fold16 s"
  by (simp only: fold16_def Let_def fold_step_bounds)

lemma fold16_nonneg: "0 \<le> s \<Longrightarrow> 0 \<le> fold16 s"
  by (simp only: fold16_def Let_def fold_step_bounds)

lemma fold16_le:
  assumes "0 \<le> s" and "s < 2 ^ 32"
  shows "fold16 s \<le> 65535"
proof -
  define t where "t = s div 65536 + s mod 65536"
  have "s div 65536 < 65536" "s mod 65536 < 65536" using assms by simp_all
  then have "t \<le> 131070" by (simp only: t_def)
  moreover have "0 \<le> t" using assms fold_step_bounds(2) by (simp only: t_def)
  ultimately have "t div 65536 + t mod 65536 \<le> 65535"
  proof (cases "t < 65536")
    case True
    with \<open>0 \<le> t\<close> show ?thesis by (simp add: div_pos_pos_trivial mod_pos_pos_trivial)
  next
    case False
    define u where "u = t - 65536"
    have "0 \<le> u" "u < 65535" using False \<open>t \<le> 131070\<close> by (simp_all add: u_def)
    moreover have "t = u + 65536" by (simp add: u_def)
    ultimately show ?thesis by (simp only: div_add_self2 mod_add_self2 div_pos_pos_trivial mod_pos_pos_trivial)
  qed
  then show ?thesis by (simp only: fold16_def t_def Let_def)
qed

lemma fold16_full:
  assumes "0 < s" and "s < 2 ^ 32" and "s mod 65535 = 0"
  shows "fold16 s = 65535"
proof -
  have "fold16 s mod 65535 = 0" using assms(3) by (simp add: fold16_mod)
  then obtain k where "fold16 s = 65535 * k" by blast
  with fold16_pos [OF assms(1)] fold16_le [OF _ assms(2)] assms(1) show ?thesis
    by (auto simp: dvd_def)
qed

lemma not_word16: "NOT (word_of_int x :: u16) = word_of_int (65535 - x)"
proof -
  have "NOT (word_of_int x :: u16) = word_of_int (- x - 1)"
    by (simp add: not_eq_complement)
  also have "\<dots> = word_of_int (- x - 1 + 65536)"
    by (simp add: word_of_int_eq_iff take_bit_eq_mod)
  finally show ?thesis by (simp add: algebra_simps)
qed

lemma in_cksum_fold:
  assumes "0 \<le> sum_le xs" and "sum_le xs < 2 ^ 32"
  shows "in_cksum xs = word_of_int (65535 - fold16 (sum_le xs))"
proof -
  define t where "t = sum_le xs div 65536 + sum_le xs mod 65536"
  have "sum_le xs mod 2 ^ 32 = sum_le xs" using assms by simp
  then have "in_cksum xs = word_of_int (65535 - (t + t div 65536))"
    by (simp only: in_cksum_def Let_def not_word16 t_def)
  also have "\<dots> = word_of_int (65535 - (t div 65536 + t mod 65536))"
    by (simp add: word_of_int_eq_iff take_bit_eq_mod mod_diff_right_eq mod_simps)
  finally show ?thesis by (simp only: fold16_def t_def Let_def)
qed

lemma tcp_sum_calc_fold:
  assumes "0 \<le> sum_be xs + sum_be ph" and "sum_be xs + sum_be ph < 2 ^ 31"
  shows "tcp_sum_calc xs ph = word_of_int (65535 - fold16 (sum_be xs + sum_be ph))"
proof -
  have "i32 (sum_be xs + sum_be ph) = sum_be xs + sum_be ph"
    using assms by (simp add: i32_id)
  then show ?thesis
    by (simp only: tcp_sum_calc_def Let_def not_word16 fold16_def add.commute)
qed

lemma sum_le_nonneg: "0 \<le> sum_le xs"
  by (induction xs rule: sum_le.induct) simp_all

lemma sum_be_nonneg: "0 \<le> sum_be xs"
  by (induction xs rule: sum_be.induct) simp_all

lemma sum_le_bound: "2 * sum_le xs \<le> 65535 * (int (length xs) + 1)"
proof (induction xs rule: sum_le.induct)
  case (2 a)
  then show ?case using uint_u8 [of a] by simp
next
  case (3 a b r)
  then show ?case using uint_u8 [of a] uint_u8 [of b] by simp
qed simp

lemma sum_be_bound: "2 * sum_be xs \<le> 65535 * (int (length xs) + 1)"
proof (induction xs rule: sum_be.induct)
  case (2 a)
  then show ?case using uint_u8 [of a] by simp
next
  case (3 a b r)
  then show ?case using uint_u8 [of a] uint_u8 [of b] by simp
qed simp

text \<open>Adding the checksum of a sum to the sum gives a sum whose checksum is zero.\<close>

lemma fold16_complement:
  assumes "0 < s" and "s < 2 ^ 31"
  shows "fold16 (s + (65535 - fold16 s)) = 65535"
proof (rule fold16_full)
  have f: "0 < fold16 s" "fold16 s \<le> 65535"
    using assms fold16_pos [of s] fold16_le [of s] by simp_all
  then show "0 < s + (65535 - fold16 s)" "s + (65535 - fold16 s) < 2 ^ 32" using assms by simp_all
  have "(s - fold16 s) mod 65535 = 0"
    using fold16_mod [of s] by (simp add: mod_eq_dvd_iff [symmetric])
  then show "(s + (65535 - fold16 s)) mod 65535 = 0"
    by (metis add_diff_eq add.commute add_diff_cancel_left' diff_diff_eq2 mod_add_self1)
qed

lemma uint_bytes16: "256 * uint (byte16 1 w) + uint (byte16 0 w) = uint w"
  by (metis uint_be16 be16_bytes)

lemma uint_cksum_word: "0 \<le> s \<Longrightarrow> s < 2 ^ 32 \<Longrightarrow> uint (word_of_int (65535 - fold16 s) :: u16) = 65535 - fold16 s"
  using fold16_le [of s] fold16_nonneg [of s] by (simp only: uint_word_of_int) simp

section \<open>The headers that are sent carry correct checksums\<close>

lemma length_ip_header [simp]: "length (ip_header_with c i len l r) = 20"
  by (simp add: ip_header_with_def bytes16_def bytes32_def)

lemma sum_le_ip_header: "sum_le (ip_header_with c i len l r) = sum_le (ip_header_with 0 i len l r) + uint c"
proof -
  have "byte16 0 0 = 0" "byte16 1 0 = 0" by (simp_all add: byte16_def)
  then show ?thesis
    using uint_bytes16 [of c] by (simp add: ip_header_with_def bytes16_def bytes32_def)
qed

lemma ip_header_checksum: "in_cksum (fst (fill_ip_header ident len local remote)) = 0"
proof -
  define h where "h = (\<lambda>c. ip_header_with c (ident + 1) len local remote)"
  have b: "sum_le (h c) < 2 ^ 31" for c
    using sum_le_bound [of "h c"] by (simp add: h_def)
  have p: "0 < sum_le (h c)" for c
  proof -
    have "0 \<le> sum_le (drop 2 (h c))" by (rule sum_le_nonneg)
    then show ?thesis by (simp add: h_def ip_header_with_def)
  qed
  define s where "s = sum_le (h 0)"
  have s: "0 < s" "s < 2 ^ 31" using p b by (simp_all add: s_def)
  have c: "in_cksum (h 0) = word_of_int (65535 - fold16 s)"
    using s by (simp add: s_def in_cksum_fold)
  have "uint (in_cksum (h 0)) = 65535 - fold16 s"
    using s unfolding c by (intro uint_cksum_word) simp_all
  moreover have "sum_le (h (in_cksum (h 0))) = s + uint (in_cksum (h 0))"
    unfolding s_def h_def by (rule sum_le_ip_header)
  ultimately have "fold16 (sum_le (h (in_cksum (h 0)))) = 65535"
    using fold16_complement [OF s] by simp
  then have "in_cksum (h (in_cksum (h 0))) = 0"
    using p [of "in_cksum (h 0)"] b [of "in_cksum (h 0)"] by (simp add: in_cksum_fold)
  then show ?thesis by (simp add: fill_ip_header_def h_def Let_def)
qed

definition low_ok :: "t_low \<Rightarrow> bool" where
  "low_ok low \<longleftrightarrow> length (mac_src low) = 6 \<and> length (mac_dest low) = 6 \<and>
     length (low_data low) = unat (datalen low) \<and> unat (datalen low) \<le> 65495"

lemma length_tcp_segment: "low_ok low \<Longrightarrow> length (tcp_segment_with c low) = 20 + unat (datalen low)"
  by (simp add: low_ok_def tcp_segment_with_def bytes16_def bytes32_def)

lemma sum_be_tcp_segment: "sum_be (tcp_segment_with c low) = sum_be (tcp_segment_with 0 low) + uint c"
proof -
  have "byte16 0 0 = 0" "byte16 1 0 = 0" by (simp_all add: byte16_def)
  then show ?thesis
    using uint_bytes16 [of c] by (simp add: tcp_segment_with_def bytes16_def bytes32_def)
qed

lemma sum_be_append: "even (length xs) \<Longrightarrow> sum_be (xs @ ys) = sum_be xs + sum_be ys"
  by (induction xs rule: sum_be.induct) simp_all

lemma sum_be_tcp_pos: "0 < sum_be (tcp_segment_with c low)"
proof -
  define xs where "xs = bytes16 (tcp_src low) @ bytes16 (tcp_dest low) @ bytes32 (seqno low) @
     (if has (flags low) TH_ACK then bytes32 (ackno low) else [0, 0, 0, 0])"
  define ys where "ys = bytes16 (wnd low) @ bytes16 c @ [0, 0] @ take (unat (datalen low)) (low_data low)"
  have "even (length xs)" by (simp add: xs_def bytes16_def bytes32_def)
  moreover have "tcp_segment_with c low = xs @ 0x50 # flags low # ys"
    by (simp add: tcp_segment_with_def xs_def ys_def)
  ultimately have "sum_be (tcp_segment_with c low) = sum_be xs + (20480 + uint (flags low) + sum_be ys)"
    by (simp add: sum_be_append)
  then show ?thesis
    using sum_be_nonneg [of xs] sum_be_nonneg [of ys] uint_ge_0 [of "flags low"] by linarith
qed

lemma tcp_checksum_valid:
  assumes "low_ok low" and "length iph = 20"
  shows "tcp_checksum (fill_tcp iph low) iph = 0"
proof -
  define ph where "ph = take 8 (drop 12 iph) @
    [0, 6, word_of_int ((20 + uint (datalen low)) div 256), word_of_int (20 + uint (datalen low))]"
  define g where "g = (\<lambda>c. tcp_segment_with c low)"
  have len: "int (length (g c)) = 20 + uint (datalen low)" for c
    using assms(1) by (simp add: g_def length_tcp_segment)
  have ck: "tcp_checksum (g c) iph = tcp_sum_calc (g c) ph" for c
    by (simp only: tcp_checksum_def len ph_def)
  have "length ph = 12" using assms(2) by (simp add: ph_def)
  then have ph: "0 \<le> sum_be ph" "2 * sum_be ph \<le> 65535 * 13"
    using sum_be_nonneg [of ph] sum_be_bound [of ph] by simp_all
  have pos: "0 < sum_be (g c) + sum_be ph" for c
    using ph(1) sum_be_tcp_pos [of c low] by (simp add: g_def)
  have "int (unat (datalen low)) \<le> 65495" using assms(1) unfolding low_ok_def of_nat_le_iff
    by (metis of_nat_le_iff of_nat_numeral)
  then have bnd: "sum_be (g c) + sum_be ph < 2 ^ 31" for c
    using ph(2) sum_be_bound [of "g c"] len [of c] by simp
  define s where "s = sum_be (g 0) + sum_be ph"
  have s: "0 < s" "s < 2 ^ 31" using pos bnd by (simp_all add: s_def)
  define c where "c = tcp_checksum (g 0) iph"
  have c: "c = word_of_int (65535 - fold16 s)"
    using s unfolding c_def ck s_def by (intro tcp_sum_calc_fold) simp_all
  have "uint c = 65535 - fold16 s"
    unfolding c by (rule uint_cksum_word) (use s in simp_all)
  moreover have "sum_be (g c) + sum_be ph = s + uint c"
    unfolding s_def g_def by (subst sum_be_tcp_segment) simp
  ultimately have "fold16 (sum_be (g c) + sum_be ph) = 65535"
    using fold16_complement [OF s] by simp
  then have "tcp_sum_calc (g c) ph = 0"
    using pos [of c] bnd [of c] by (simp add: tcp_sum_calc_fold)
  then have "tcp_checksum (g c) iph = 0" by (simp only: ck)
  then show ?thesis by (simp only: fill_tcp_def c_def g_def)
qed

section \<open>What is sent is decoded to what was sent\<close>

lemma uint_len_bytes:
  "256 * uint (word_of_int (n div 256) :: u8) + uint (word_of_int n :: u8) = n" if "0 \<le> n" "n < 65536"
proof -
  have "uint (word_of_int (n div 256) :: u8) = n div 256 mod 256" "uint (word_of_int n :: u8) = n mod 256"
    by (simp_all only: uint_word_of_int) simp_all
  then show ?thesis using int_bytes2 [of n] that by simp
qed

lemma ip_header_fields:
  assumes "0 \<le> len" and "len < 65536"
  shows "256 * uint (ip_header_with c i len l r ! 2) + uint (ip_header_with c i len l r ! 3) = len"
    and "ip_header_with c i len l r ! 0 = 0x45" and "ip_header_with c i len l r ! 6 = 0x40"
    and "ip_header_with c i len l r ! 7 = 0" and "ip_header_with c i len l r ! 9 = 6"
    and "ip_get_src_dest (ip_header_with c i len l r @ xs) = (l, r)"
  using uint_len_bytes [OF assms]
  by (simp_all add: ip_header_with_def bytes16_def bytes32_def ip_get_src_dest_def nth_append
      be32_bytes [unfolded One_nat_def])

text \<open>The segment that the decoder finds in a frame: a zero acknowledgement number where the flag
  is not set, and a length that counts a SYN or a FIN.\<close>

definition low_received :: "t_low \<Rightarrow> t_low" where
  "low_received low = low\<lparr>
     ackno := (if has (flags low) TH_ACK then ackno low else 0),
     tcplen := (if has (flags low) (TH_FIN OR TH_SYN) then datalen low + 1 else datalen low)\<rparr>"

lemma be32_zero: "be32 0 0 0 0 = 0"
  by (simp add: be32_def)

lemma local_tcp_packet2low_frame:
  assumes ok: "low_ok low" and iph: "length iph = 20"
    and addr: "ip_get_src_dest (iph @ fill_tcp iph low) = (ip_src low, ip_dest low)"
  shows "local_tcp_packet2low (20 + uint (datalen low))
      (fill_mac_header (mac_src low) (mac_dest low) @ iph @ fill_tcp iph low) = Some (low_received low)"
proof -
  define c where "c = tcp_checksum (tcp_segment_with 0 low) iph"
  define m where "m = fill_mac_header (mac_src low) (mac_dest low)"
  define d where "d = tcp_segment_with c low"
  have m: "length m = 14" "mac_get_src_dest (m @ xs) = (mac_src low, mac_dest low)" for xs
    using ok by (simp_all add: m_def low_ok_def fill_mac_header_def mac_get_src_dest_def)
  have d: "length d = 20 + unat (datalen low)" using length_tcp_segment [OF ok] by (simp add: d_def)
  have h: "drop_bit 2 (d ! 12 AND 0xF0) = 20"
    by (simp add: d_def tcp_segment_with_def bytes16_def bytes32_def nth_append)
  have f: "d ! 13 = flags low" "be16 (d ! 0) (d ! 1) = tcp_src low" "be16 (d ! 2) (d ! 3) = tcp_dest low"
    "be32 (d ! 4) (d ! 5) (d ! 6) (d ! 7) = seqno low"
    "be32 (d ! 8) (d ! 9) (d ! 10) (d ! 11) = (if has (flags low) TH_ACK then ackno low else 0)"
    "be16 (d ! 14) (d ! 15) = wnd low"
    by (simp_all add: d_def tcp_segment_with_def bytes16_def bytes32_def nth_append
        be16_bytes [unfolded One_nat_def] be32_bytes [unfolded One_nat_def] be32_zero)
  have l: "take (unat (datalen low)) (drop 20 d) = low_data low"
    using ok by (simp add: d_def tcp_segment_with_def bytes16_def bytes32_def low_ok_def)
  have dr: "drop 14 (m @ iph @ d) = iph @ d" "drop (14 + 20) (m @ iph @ d) = d"
    using m iph by simp_all
  have "fill_tcp iph low = d" by (simp add: fill_tcp_def d_def c_def)
  then have addr': "ip_get_src_dest (iph @ d) = (ip_src low, ip_dest low)" using addr by simp
  have b: "\<not> length d < 16" "\<not> length d < unat (20 :: u8) + unat (datalen low)" using d by simp_all
  have w: "word_of_int (20 + uint (datalen low) - uint (20 :: u8)) = datalen low" by simp
  have t: "take (unat (datalen low)) (drop (unat (20 :: u8)) d) = low_data low" using l by simp
  have "local_tcp_packet2low (20 + uint (datalen low)) (m @ iph @ d) = Some (low_received low)"
    unfolding local_tcp_packet2low_def MAC_HLEN_def IP_HLEN_def Let_def dr h w t kout_if_bind
    by (simp only: b if_False f m fst_conv snd_conv addr' low_received_def)
       (auto intro!: t_low.equality)
  then show ?thesis by (simp only: m_def \<open>fill_tcp iph low = d\<close>)
qed

lemma sent_frame:
  assumes ok: "low_ok low"
  obtains m iph where "fst (tcp_low2packet ident low) = m @ iph @ fill_tcp iph low"
    and "m = fill_mac_header (mac_src low) (mac_dest low)" and "length m = 14" and "length iph = 20"
    and "in_cksum iph = 0" and "ip_get_src_dest (iph @ fill_tcp iph low) = (ip_src low, ip_dest low)"
    and "256 * uint (iph ! 2) + uint (iph ! 3) = 40 + uint (datalen low)"
    and "iph ! 0 = 0x45" and "iph ! 6 = 0x40" and "iph ! 7 = 0" and "iph ! 9 = 6"
proof -
  have "int (unat (datalen low)) \<le> 65495"
    using ok unfolding low_ok_def by (metis of_nat_le_iff of_nat_numeral)
  then have n: "0 \<le> 40 + uint (datalen low)" "40 + uint (datalen low) < 65536" by simp_all
  define iph where "iph = fst (fill_ip_header ident (40 + uint (datalen low)) (ip_src low) (ip_dest low))"
  obtain c i where h: "iph = ip_header_with c i (40 + uint (datalen low)) (ip_src low) (ip_dest low)"
    by (auto simp: iph_def fill_ip_header_def Let_def)
  show ?thesis
  proof
    show "fst (tcp_low2packet ident low) =
        fill_mac_header (mac_src low) (mac_dest low) @ iph @ fill_tcp iph low"
      by (simp add: tcp_low2packet_def IP_HLEN_def TCP_HLEN_def iph_def split_beta)
    show "length (fill_mac_header (mac_src low) (mac_dest low)) = 14"
      using ok by (simp add: fill_mac_header_def low_ok_def)
    show "in_cksum iph = 0" unfolding iph_def by (rule ip_header_checksum)
  qed (simp_all add: h ip_header_fields n)
qed

text \<open>C7: whatever segment the stack sends passes the test of IP input and is decoded to the same
  segment, with its checksums found right.\<close>

theorem segment_roundtrip:
  assumes ok: "low_ok low"
  shows "packet_ip_input_tcp (fst (tcp_low2packet ident low)) = Some (Some (low_received low))"
proof -
  obtain m iph where f: "fst (tcp_low2packet ident low) = m @ iph @ fill_tcp iph low"
    "m = fill_mac_header (mac_src low) (mac_dest low)" "length m = 14" "length iph = 20"
    "in_cksum iph = 0" "ip_get_src_dest (iph @ fill_tcp iph low) = (ip_src low, ip_dest low)"
    "256 * uint (iph ! 2) + uint (iph ! 3) = 40 + uint (datalen low)"
    "iph ! 0 = 0x45" "iph ! 6 = 0x40" "iph ! 7 = 0" "iph ! 9 = 6"
    by (rule sent_frame [OF ok])
  define d where "d = fill_tcp iph low"
  have d: "length d = 20 + unat (datalen low)"
    using length_tcp_segment [OF ok] by (simp add: d_def fill_tcp_def)
  have ck: "tcp_checksum d (iph @ d) = 0"
    using tcp_checksum_valid [OF ok f(4)] f(4) by (simp add: d_def tcp_checksum_def)
  have ip: "drop 14 (m @ iph @ d) = iph @ d" "drop (14 + 20) (m @ iph @ d) = d"
    using f(3,4) by simp_all
  have nth: "(iph @ d) ! k = iph ! k" if "k < 20" for k
    using that f(4) by (simp add: nth_append)
  have len: "256 * uint ((iph @ d) ! 2) + uint ((iph @ d) ! 3) - 20 = 20 + uint (datalen low)"
    using f(7) by (simp add: nth)
  have "nat (20 + uint (datalen low)) = length d" by (simp add: d nat_add_distrib)
  moreover have "local_tcp_packet2low (20 + uint (datalen low)) (m @ iph @ d) = Some (low_received low)"
    using local_tcp_packet2low_frame [OF ok f(4) f(6)] f(2) by (simp add: d_def)
  moreover have "\<not> 20 + uint (datalen low) < 0" using uint_ge_0 [of "datalen low"] by linarith
  ultimately have dec: "tcp_packet2low (m @ iph @ d) = Some (Some (low_received low))"
    using f(3,4) ck unfolding tcp_packet2low_def MAC_HLEN_def IP_HLEN_def Let_def ip of_nat_numeral len
    by (simp add: kout_if_bind)
  have "\<exists>n. tst_ip_input (iph @ d) = Some (Some n)"
    using f d len uint_ge_0 [of "datalen low"]
    by (simp add: tst_ip_input_def kout_if_bind nth IP_HLEN_def Let_def add_pos_nonneg)
  then show ?thesis
    using dec f(3,11) unfolding packet_ip_input_tcp_def f(1) MAC_HLEN_def d_def [symmetric]
    by (auto simp: ip nth kout_if_bind)
qed

definition demo_low :: t_low where
  "demo_low = \<lparr>mac_src = [2, 0, 0, 0, 0, 1], mac_dest = [2, 0, 0, 0, 0, 2], ip_src = 0x0A000001,
     ip_dest = 0x0A000002, tcp_src = 22, tcp_dest = 30001, ackno = 7, seqno = 0xFFFFFFFF,
     flags = TH_PUSH OR TH_ACK, wnd = 50000, datalen = 3, tcplen = 0, low_data = [1, 2, 3]\<rparr>"

theorem segment_roundtrip_witness:
  "packet_ip_input_tcp (fst (tcp_low2packet 41 demo_low)) = Some (Some (demo_low\<lparr>tcplen := 3\<rparr>))"
  using segment_roundtrip [of demo_low 41]
  by (simp add: low_ok_def low_received_def demo_low_def has_def TH_PUSH_def TH_ACK_def TH_FIN_def TH_SYN_def)

section \<open>Frames that make the decoder read outside of the frame\<close>

lemma tst_ip_inputD:
  assumes "tst_ip_input data = Some (Some n)"
  shows "20 < length data" "n = 256 * uint (data ! 2) + uint (data ! 3)" "n \<le> int (length data)"
  using assms by (auto simp: tst_ip_input_def bind_eq_Some IP_HLEN_def Let_def split: if_splits)

text \<open>The length of the data wraps around on 16 bits when the header says it is longer than the
  segment.\<close>

lemma local_tcp_packet2low_None_iff:
  assumes "20 \<le> len" and "len \<le> int (length data)" and "length data \<le> 65536"
    and "data = drop (MAC_HLEN + IP_HLEN) mac_data"
  shows "local_tcp_packet2low len mac_data = None \<longleftrightarrow> len < uint (drop_bit 2 (data ! 12 AND 0xF0))"
proof -
  define h where "h = drop_bit 2 (data ! 12 AND 0xF0)"
  define d where "d = (word_of_int (len - uint h) :: u16)"
  have h: "int (unat h) = uint h" "0 \<le> uint h" "uint h < 256" using uint_u8 [of h] by simp_all
  have ud: "int (unat d) = (len - uint h) mod 65536"
    unfolding d_def uint_nat [symmetric] uint_word_of_int by simp
  have "len \<le> 65536" using assms by linarith
  have "length data < unat h + unat d \<longleftrightarrow> len < uint h"
  proof (cases "len < uint h")
    case True
    have "(len - uint h) mod 65536 = len - uint h + 65536"
      using True h assms(1) mod_pos_pos_trivial [of "len - uint h + 65536" 65536] by simp
    then have "int (unat h + unat d) = len + 65536" using ud h by simp
    with True assms h show ?thesis by linarith
  next
    case False
    then have "(len - uint h) mod 65536 \<le> len - uint h"
      by (intro zmod_le_nonneg_dividend) simp
    then have "int (unat h + unat d) \<le> len" using ud h by simp
    with False assms show ?thesis by linarith
  qed
  moreover have "\<not> length data < 16" using assms by linarith
  moreover have "local_tcp_packet2low len mac_data = None \<longleftrightarrow>
      length data < 16 \<or> length data < unat h + unat d"
    unfolding local_tcp_packet2low_def Let_def assms(4) [symmetric] h_def [symmetric] d_def [symmetric]
    by (simp add: kout_if_bind)
  ultimately show ?thesis by (simp add: h_def)
qed

text \<open>C8: of the frames that pass the test of IP input with room for a TCP header, the decoder
  reads outside of the frame exactly for those whose header length field is larger than the
  segment, if their checksum is right or they carry no data.\<close>

theorem decoder_overread_iff:
  assumes "tst_ip_input (drop MAC_HLEN mac_data) = Some (Some ip_len)"
    and "drop MAC_HLEN mac_data ! 9 = 6" and "40 \<le> ip_len" and "length mac_data \<le> 65536"
  shows "packet_ip_input_tcp mac_data = None \<longleftrightarrow>
     (ip_len = 40 \<or> tcp_checksum (take (nat (ip_len - 20)) (drop (MAC_HLEN + IP_HLEN) mac_data))
                       (drop MAC_HLEN mac_data) = 0) \<and>
     ip_len - 20 < uint (drop_bit 2 (drop (MAC_HLEN + IP_HLEN) mac_data ! 12 AND 0xF0))"
proof -
  define data where "data = drop (MAC_HLEN + IP_HLEN) mac_data"
  define ck where "ck = tcp_checksum (take (nat (ip_len - 20)) data) (drop MAC_HLEN mac_data)"
  note t = tst_ip_inputD [OF assms(1)]
  have l: "54 \<le> length mac_data" "ip_len - 20 \<le> int (length data)" "length data \<le> 65536"
    using t(3) assms(3,4) by (simp_all add: data_def MAC_HLEN_def IP_HLEN_def)
  have "packet_ip_input_tcp mac_data = tcp_packet2low mac_data"
    using assms(1,2) l(1) by (simp add: packet_ip_input_tcp_def kout_if_bind MAC_HLEN_def)
  also have "\<dots> = (if ck \<noteq> 0 \<and> ip_len \<noteq> 40 then Some None
      else local_tcp_packet2low (ip_len - 20) mac_data \<bind> (\<lambda>low. Some (Some low)))"
  proof -
    have "\<not> length mac_data < MAC_HLEN + IP_HLEN" "\<not> length data < nat (ip_len - 20)"
      using l(1,2) by (simp_all add: MAC_HLEN_def IP_HLEN_def)
    moreover have "256 * uint (drop MAC_HLEN mac_data ! 2) + uint (drop MAC_HLEN mac_data ! 3) - int IP_HLEN
        = ip_len - 20" using t(2) by (simp add: IP_HLEN_def)
    ultimately show ?thesis
      using assms(3) unfolding tcp_packet2low_def Let_def data_def [symmetric]
      by (simp add: kout_if_bind ck_def)
  qed
  finally have "packet_ip_input_tcp mac_data = None \<longleftrightarrow>
      (ck = 0 \<or> ip_len = 40) \<and> local_tcp_packet2low (ip_len - 20) mac_data = None"
    by (auto simp: bind_eq_None)
  with local_tcp_packet2low_None_iff [of "ip_len - 20" data mac_data] assms(3) l show ?thesis
    by (auto simp: data_def ck_def)
qed

definition demo_bad_frame :: "u8 list" where
  "demo_bad_frame = (fst (tcp_low2packet 0 (demo_low\<lparr>datalen := 0, low_data := []\<rparr>)))[46 := 0xF0]"

theorem decoder_overread_iff_witness: "packet_ip_input_tcp demo_bad_frame = None"
proof -
  have "tst_ip_input (drop MAC_HLEN demo_bad_frame) = Some (Some 40)"
    "drop MAC_HLEN demo_bad_frame ! 9 = 6" "length demo_bad_frame = 54"
    "uint (drop_bit 2 (drop (MAC_HLEN + IP_HLEN) demo_bad_frame ! 12 AND 0xF0)) = 60"
    by code_simp+
  then show ?thesis using decoder_overread_iff [of demo_bad_frame 40] by simp
qed

end
