(* ===== verification/Tcp_Types.thy ===== *)
theory Tcp_Types
  imports Tcp_Packet
begin

text \<open>
  The state of the user-space TCP stack of munat (\<open>munat/clo_tcp/include/clo_tcp.h\<close> and the
  static variables of \<open>clo_utils.c\<close>, \<open>clo_mngt.c\<close>, \<open>clo_low.c\<close>). A \<open>t_clo *\<close> is a number,
  the heap maps the objects that have not been freed; the linked lists are lists.
\<close>

section \<open>Connections\<close>

datatype clo_state =
  state_idle | state_created | state_first_syn_sent | state_established | state_fin_wait1
  | state_fin_wait2 | state_fin_wait_last_ack | state_closed

datatype tx_error = error_none | error_not_established | error_not_authorized

record t_tcp_id =
  local_mac :: "u8 list"
  remote_mac :: "u8 list"
  local_ip :: u32
  remote_ip :: u32
  local_port :: u16
  remote_port :: u16
  llid :: int
  llid_unlocked :: int

text \<open>A block of data to send: \<open>hd_data\<close> are the first \<open>hd_len\<close> bytes of its buffer.\<close>

record t_hdata =
  hd_len :: int
  hd_max_len :: int
  count_250ms :: u32
  count_tries_tx :: int
  hd_seqno :: u32
  hd_data :: "u8 list"

record t_clo =
  tcpid :: t_tcp_id
  closed_state_count :: int
  closed_state_count_initialised :: int
  closed_state_count_line :: int
  id_tcpid :: int
  has_been_closed_from_outside_socket :: int
  state :: clo_state
  syn_sent_non_activ_count :: int
  non_activ_count :: int
  tx_repeat_failure_count :: int
  read_zero_bytes_occurence :: int
  have_to_ack :: int
  send_ack_active :: int
  ackno_sent :: u32
  send_unack :: u32
  send_next :: u32
  recv_next :: u32
  loc_wnd :: u16
  dist_wnd :: u16
  head_hdata :: "t_hdata list"
  head_ldata :: "t_low list"

definition TCP_WND :: u16 where "TCP_WND = 50000"
definition TCP_WND_MIN :: u16 where "TCP_WND_MIN = 2000"
definition TCP_MAX_SIZE :: int where "TCP_MAX_SIZE = 1400"
definition CLOWNIX_MAX_CHANNELS :: int where "CLOWNIX_MAX_CHANNELS = 10000"

definition clo_zero :: "t_tcp_id \<Rightarrow> int \<Rightarrow> t_clo" where
  "clo_zero tid n = \<lparr>tcpid = tid, closed_state_count = 0, closed_state_count_initialised = 0,
     closed_state_count_line = 0, id_tcpid = n, has_been_closed_from_outside_socket = 0,
     state = state_idle, syn_sent_non_activ_count = 0, non_activ_count = 0,
     tx_repeat_failure_count = 0, read_zero_bytes_occurence = 0, have_to_ack = 0,
     send_ack_active = 0, ackno_sent = 0, send_unack = 0, send_next = 0, recv_next = 0,
     loc_wnd = 0, dist_wnd = 0, head_hdata = [], head_ldata = []\<rparr>"

section \<open>Deferred calls\<close>

datatype num_fct = num_fct_high_close_rx | num_fct_high_close_rx_send_rst | num_fct_send_finack

record t_timer_fct =
  num_fct :: num_fct
  fct_id_tcpid :: int
  fct_tcpid :: t_tcp_id

section \<open>The whole stack\<close>

text \<open>
  \<open>low_out\<close> lists the frames given to \<open>fct_low_output\<close>, \<open>ack_timers\<close> the armed calls of
  \<open>send_ack_cb\<close>, \<open>timeouts\<close> the armed calls of \<open>timer_fct_call\<close> with their delay. \<open>env\<close> is the
  state of the code around the stack (its channels and sockets).
\<close>

record 'e clo_sys =
  clos :: "nat \<Rightarrow> t_clo option"
  next_clo :: nat
  head_clo :: "nat list"
  g_head_fast_clo :: "nat \<Rightarrow> nat list"
  llid_to_clo :: "int \<Rightarrow> nat option"
  id_tcpid_count :: int
  identification :: u16
  iss :: u32
  g_250ms_count :: u32
  g_tcp_max_size :: int
  low_out :: "u8 list list"
  ack_timers :: "t_tcp_id list"
  timeouts :: "(int \<times> t_timer_fct) list"
  env :: 'e

text \<open>The channels that the stack delivers to: the message layer and the two functions of
  \<open>clo_init\<close> that use it.\<close>

record 'e clo_chan =
  msg_exist_channel :: "int \<Rightarrow> 'e \<Rightarrow> bool"
  msg_delete_channel :: "int \<Rightarrow> 'e \<Rightarrow> 'e"
  high_data_rx_possible :: "t_tcp_id \<Rightarrow> 'e \<Rightarrow> int"
  high_data_rx :: "t_tcp_id \<Rightarrow> u8 list \<Rightarrow> 'e \<Rightarrow> 'e"

text \<open>The functions of \<open>clo_init\<close> that may call the stack again.\<close>

record 'e clo_high =
  high_syn_rx :: "t_tcp_id \<Rightarrow> 'e clo_sys \<Rightarrow> 'e clo_sys run"
  high_synack_rx :: "t_tcp_id \<Rightarrow> 'e clo_sys \<Rightarrow> 'e clo_sys run"
  high_close_rx :: "t_tcp_id \<Rightarrow> 'e clo_sys \<Rightarrow> 'e clo_sys run"

section \<open>Access to an object\<close>

definition deref :: "nat \<Rightarrow> 'e clo_sys \<Rightarrow> t_clo run" where
  "deref r s = clos s r"

definition set_clo :: "nat \<Rightarrow> t_clo \<Rightarrow> 'e clo_sys \<Rightarrow> 'e clo_sys" where
  "set_clo r c s = s\<lparr>clos := (clos s)(r \<mapsto> c)\<rparr>"

definition with_clo :: "nat \<Rightarrow> (t_clo \<Rightarrow> t_clo) \<Rightarrow> 'e clo_sys \<Rightarrow> 'e clo_sys run" where
  "with_clo r f s = do { c \<leftarrow> deref r s; Some (set_clo r (f c) s) }"

end
