(* ===== verification/Tcp_Utils.thy ===== *)
theory Tcp_Utils
  imports Tcp_Types
begin

text \<open>
  The tables of connections and the emission of segments
  (\<open>munat/clo_tcp/src/clo_utils.c\<close>): comparison of addresses, a hash table from the address of a
  connection to its object, a table from channel numbers to objects, the linked lists, and the
  functions that send one segment.
\<close>

section \<open>Addresses\<close>

definition util_tcpid_comp :: "t_tcp_id \<Rightarrow> t_tcp_id \<Rightarrow> bool" where
  "util_tcpid_comp a b \<longleftrightarrow> remote_mac a = remote_mac b \<and> remote_port a = remote_port b \<and>
     local_port a = local_port b \<and> remote_ip a = remote_ip b \<and> local_ip a = local_ip b"

definition fast_clo_comp :: "t_tcp_id \<Rightarrow> t_tcp_id \<Rightarrow> bool" where
  "fast_clo_comp a b \<longleftrightarrow> remote_mac a = remote_mac b \<and> remote_port a = remote_port b \<and>
     local_port a = local_port b \<and> remote_ip a = remote_ip b \<and> local_ip a = local_ip b"

definition util_low_tcpid_comp :: "t_low \<Rightarrow> t_tcp_id \<Rightarrow> bool" where
  "util_low_tcpid_comp low tid \<longleftrightarrow> remote_mac tid = mac_src low \<and> local_mac tid = mac_dest low \<and>
     remote_port tid = tcp_src low \<and> local_port tid = tcp_dest low \<and>
     remote_ip tid = ip_src low \<and> local_ip tid = ip_dest low"

definition util_low2tcpid :: "t_low \<Rightarrow> t_tcp_id" where
  "util_low2tcpid low = \<lparr>local_mac = mac_dest low, remote_mac = mac_src low, local_ip = ip_dest low,
     remote_ip = ip_src low, local_port = tcp_dest low, remote_port = tcp_src low,
     llid = 0, llid_unlocked = 0\<rparr>"

definition util_tcpid2low :: "t_low \<Rightarrow> t_tcp_id \<Rightarrow> t_low" where
  "util_tcpid2low low tid = low\<lparr>mac_src := local_mac tid, mac_dest := remote_mac tid,
     ip_src := local_ip tid, ip_dest := remote_ip tid, tcp_src := local_port tid,
     tcp_dest := remote_port tid\<rparr>"

section \<open>The hash table\<close>

definition MAX_HASH_IDX :: int where "MAX_HASH_IDX = 0xFFF + 2"

text \<open>The last shift is one of a signed integer of 16 bits.\<close>

definition get_hash :: "u8 list \<Rightarrow> u32 \<Rightarrow> u32 \<Rightarrow> u16 \<Rightarrow> u16 \<Rightarrow> nat run" where
  "get_hash fmac lip fip lport fport = do {
     let hash4 = push_bit 24 (ucast (fmac ! 0)) OR push_bit 16 (ucast (fmac ! 1)) OR
                 push_bit 8 (ucast (fmac ! 2)) OR (ucast (fmac ! 3) :: u32);
     let hash2 = push_bit 8 (ucast (fmac ! 4)) OR (ucast (fmac ! 5) :: u16);
     let hash4 = hash4 XOR lip XOR fip;
     let hash2 = hash2 XOR ucast hash4 XOR ucast (drop_bit 16 hash4) XOR lport XOR fport;
     let r = uint ((word_of_int (sint hash2) XOR word_of_int (sint hash2 div 4096)) AND (0xFFF :: u32)) + 1;
     kout_if (r \<le> 0 \<or> MAX_HASH_IDX \<le> r);
     Some (nat r)
   }"

definition tcpid_hash :: "t_tcp_id \<Rightarrow> nat run" where
  "tcpid_hash tid = get_hash (remote_mac tid) (local_ip tid) (remote_ip tid) (local_port tid) (remote_port tid)"

fun fast_walk :: "(nat \<Rightarrow> t_clo option) \<Rightarrow> t_tcp_id \<Rightarrow> nat list \<Rightarrow> nat option run" where
  "fast_walk heap tid [] = Some None"
| "fast_walk heap tid (r # rs) = do {
     c \<leftarrow> heap r;
     if fast_clo_comp (tcpid c) tid then Some (Some r) else fast_walk heap tid rs
   }"

definition fast_get :: "t_tcp_id \<Rightarrow> 'e clo_sys \<Rightarrow> nat option run" where
  "fast_get tid s = do {
     idx \<leftarrow> tcpid_hash tid;
     fast_walk (clos s) tid (g_head_fast_clo s idx)
   }"

definition create_fast :: "nat \<Rightarrow> 'e clo_sys \<Rightarrow> 'e clo_sys run" where
  "create_fast r s = do {
     c \<leftarrow> deref r s;
     idx \<leftarrow> tcpid_hash (tcpid c);
     Some (s\<lparr>g_head_fast_clo := (g_head_fast_clo s)(idx := r # g_head_fast_clo s idx)\<rparr>)
   }"

definition delete_fast :: "nat \<Rightarrow> 'e clo_sys \<Rightarrow> 'e clo_sys run" where
  "delete_fast r s = do {
     c \<leftarrow> deref r s;
     fc \<leftarrow> fast_get (tcpid c) s;
     kout_if (fc = None);
     idx \<leftarrow> tcpid_hash (tcpid c);
     Some (s\<lparr>g_head_fast_clo := (g_head_fast_clo s)(idx := remove1 (the fc) (g_head_fast_clo s idx))\<rparr>)
   }"

definition util_get_fast_clo :: "t_tcp_id \<Rightarrow> 'e clo_sys \<Rightarrow> nat option run" where
  "util_get_fast_clo tid s = fast_get tid s"

section \<open>Channels and connections\<close>

definition bad_llid :: "int \<Rightarrow> bool" where
  "bad_llid l \<longleftrightarrow> l \<le> 0 \<or> CLOWNIX_MAX_CHANNELS \<le> l"

definition util_get_clo :: "int \<Rightarrow> 'e clo_sys \<Rightarrow> nat option run" where
  "util_get_clo l s = do { kout_if (bad_llid l); Some (llid_to_clo s l) }"

definition set_llid :: "int \<Rightarrow> t_clo \<Rightarrow> t_clo" where
  "set_llid l c = c\<lparr>tcpid := (tcpid c)\<lparr>llid := l\<rparr>\<rparr>"

definition util_attach_llid_clo :: "int \<Rightarrow> nat \<Rightarrow> 'e clo_sys \<Rightarrow> 'e clo_sys run" where
  "util_attach_llid_clo l r s = do {
     c \<leftarrow> deref r s;
     checkclo \<leftarrow> util_get_fast_clo (tcpid c) s;
     kout_if (checkclo \<noteq> Some r);
     kout_if (bad_llid l);
     o' \<leftarrow> util_get_clo l s;
     kout_if (o' \<noteq> None);
     with_clo r (set_llid l) (s\<lparr>llid_to_clo := (llid_to_clo s)(l \<mapsto> r)\<rparr>)
   }"

definition util_detach_llid_clo :: "int \<Rightarrow> nat \<Rightarrow> 'e clo_sys \<Rightarrow> 'e clo_sys run" where
  "util_detach_llid_clo l r s = do {
     kout_if (bad_llid l);
     checkclo \<leftarrow> util_get_clo l s;
     kout_if (checkclo = None);
     kout_if (checkclo \<noteq> Some r);
     c \<leftarrow> deref r s;
     kout_if (llid (tcpid c) \<noteq> l);
     s' \<leftarrow> with_clo r (set_llid 0) s;
     Some (s'\<lparr>llid_to_clo := (llid_to_clo s')(l := None)\<rparr>)
   }"

section \<open>Lists of a connection\<close>

definition util_insert_ldata :: "t_low \<Rightarrow> t_low list \<Rightarrow> t_low list" where
  "util_insert_ldata low head = head @ [low]"

definition util_insert_hdata :: "t_hdata list \<Rightarrow> int \<Rightarrow> int \<Rightarrow> u8 list \<Rightarrow> t_hdata list" where
  "util_insert_hdata head max_len len data = head @ [\<lparr>hd_len = len, hd_max_len = len, count_250ms = 0,
     count_tries_tx = 0, hd_seqno = 0, hd_data = data\<rparr>]"

definition util_silent_purge_hdata_and_ldata :: "t_clo \<Rightarrow> t_clo" where
  "util_silent_purge_hdata_and_ldata c = c\<lparr>head_hdata := [], head_ldata := []\<rparr>"

section \<open>Creation and deletion\<close>

definition util_insert_clo :: "t_tcp_id \<Rightarrow> 'e clo_sys \<Rightarrow> (nat \<times> 'e clo_sys) run" where
  "util_insert_clo tid s = do {
     kout_if (llid tid \<noteq> 0);
     let n = i32 (id_tcpid_count s + 1);
     let r = next_clo s;
     let s = set_clo r (clo_zero tid n) (s\<lparr>next_clo := r + 1, id_tcpid_count := n\<rparr>);
     s \<leftarrow> create_fast r s;
     Some (r, s\<lparr>head_clo := r # head_clo s\<rparr>)
   }"

text \<open>The result says that the object is gone (0 in the source).\<close>

definition util_extract_clo :: "nat \<Rightarrow> 'e clo_sys \<Rightarrow> (bool \<times> 'e clo_sys) run" where
  "util_extract_clo r s = do {
     c \<leftarrow> deref r s;
     if head_hdata c \<noteq> [] \<or> head_ldata c \<noteq> []
     then Some (False, set_clo r (c\<lparr>head_hdata := [], head_ldata := []\<rparr>) s)
     else do {
       s \<leftarrow> (if llid (tcpid c) \<noteq> 0 then util_detach_llid_clo (llid (tcpid c)) r s else Some s);
       s \<leftarrow> delete_fast r s;
       Some (True, s\<lparr>head_clo := remove1 r (head_clo s), clos := (clos s)(r := None)\<rparr>)
     }
   }"

section \<open>Sending a segment\<close>

definition util_make_low :: "t_tcp_id \<Rightarrow> u32 \<Rightarrow> u32 \<Rightarrow> u8 \<Rightarrow> u16 \<Rightarrow> int \<Rightarrow> u8 list \<Rightarrow> t_low" where
  "util_make_low tid ack seq fl w dlen data =
     (util_tcpid2low \<lparr>mac_src = [], mac_dest = [], ip_src = 0, ip_dest = 0, tcp_src = 0, tcp_dest = 0,
        ackno = ack, seqno = seq, flags = fl, wnd = w,
        datalen = (if 0 < dlen then word_of_int dlen else 0), tcplen = 0,
        low_data = (if 0 < dlen then data else [])\<rparr> tid)"

definition send_seg :: "t_tcp_id \<Rightarrow> u32 \<Rightarrow> u32 \<Rightarrow> u16 \<Rightarrow> u8 \<Rightarrow> int \<Rightarrow> u8 list \<Rightarrow> 'e clo_sys \<Rightarrow> 'e clo_sys" where
  "send_seg tid ack seq w fl hlen data s =
     (let (frame, ident) = tcp_low2packet (identification s) (util_make_low tid ack seq fl w hlen data) in
      s\<lparr>identification := ident, low_out := low_out s @ [frame]\<rparr>)"

definition util_send_reset :: "t_tcp_id \<Rightarrow> u32 \<Rightarrow> u32 \<Rightarrow> u16 \<Rightarrow> 'e clo_sys \<Rightarrow> 'e clo_sys" where
  "util_send_reset tid ack seq w = send_seg tid ack seq w TH_RST 0 []"

definition util_send_syn :: "t_tcp_id \<Rightarrow> u32 \<Rightarrow> u32 \<Rightarrow> u16 \<Rightarrow> 'e clo_sys \<Rightarrow> 'e clo_sys" where
  "util_send_syn tid ack seq w = send_seg tid ack seq w TH_SYN 0 []"

definition util_send_ack :: "t_tcp_id \<Rightarrow> u32 \<Rightarrow> u32 \<Rightarrow> u16 \<Rightarrow> 'e clo_sys \<Rightarrow> 'e clo_sys" where
  "util_send_ack tid ack seq w = send_seg tid ack seq w TH_ACK 0 []"

definition util_send_synack :: "t_tcp_id \<Rightarrow> u32 \<Rightarrow> u32 \<Rightarrow> u16 \<Rightarrow> 'e clo_sys \<Rightarrow> 'e clo_sys" where
  "util_send_synack tid ack seq w = send_seg tid ack seq w (TH_SYN OR TH_ACK) 0 []"

definition util_send_finack :: "t_tcp_id \<Rightarrow> u32 \<Rightarrow> u32 \<Rightarrow> u16 \<Rightarrow> 'e clo_sys \<Rightarrow> 'e clo_sys" where
  "util_send_finack tid ack seq w = send_seg tid ack seq w (TH_FIN OR TH_ACK) 0 []"

definition util_send_fin :: "t_tcp_id \<Rightarrow> u32 \<Rightarrow> u32 \<Rightarrow> u16 \<Rightarrow> 'e clo_sys \<Rightarrow> 'e clo_sys" where
  "util_send_fin tid ack seq w = send_seg tid ack seq w TH_FIN 0 []"

definition util_send_data :: "t_tcp_id \<Rightarrow> u32 \<Rightarrow> u32 \<Rightarrow> u16 \<Rightarrow> int \<Rightarrow> u8 list \<Rightarrow> 'e clo_sys \<Rightarrow> 'e clo_sys" where
  "util_send_data tid ack seq w hlen data = send_seg tid ack seq w (TH_PUSH OR TH_ACK) hlen data"

end
