(* ===== verification/Lookup.thy ===== *)
theory Lookup
  imports Prelude
begin

text \<open>
  The interface of a lookup table of live objects: each object has at most one key, no two have
  the same, and the search returns the object of a key. The stack finds a connection by its
  addresses in a hash table and by its channel in an array; both are this interface.
\<close>

locale lookup_table =
  fixes inv :: "'s \<Rightarrow> bool"
    and legal :: "'k \<Rightarrow> bool"
    and find_ref :: "'k \<Rightarrow> 's \<Rightarrow> nat option run"
    and key_of :: "'s \<Rightarrow> nat \<Rightarrow> 'k option"
  assumes find_cases: "inv s \<Longrightarrow> legal k \<Longrightarrow>
      (find_ref k s = Some None \<and> (\<forall>r. key_of s r \<noteq> Some k)) \<or>
      (\<exists>r. find_ref k s = Some (Some r) \<and> key_of s r = Some k)"
    and key_inj: "inv s \<Longrightarrow> legal k \<Longrightarrow> key_of s r = Some k \<Longrightarrow> key_of s r' = Some k \<Longrightarrow> r = r'"
begin

lemma find_iff: "inv s \<Longrightarrow> legal k \<Longrightarrow> find_ref k s = Some (Some r) \<longleftrightarrow> key_of s r = Some k"
  using find_cases [of s k] key_inj [of s k] by auto

lemma find_none_iff: "inv s \<Longrightarrow> legal k \<Longrightarrow> find_ref k s = Some None \<longleftrightarrow> (\<forall>r. key_of s r \<noteq> Some k)"
  using find_cases [of s k] by auto

lemma find_returns: "inv s \<Longrightarrow> legal k \<Longrightarrow> \<exists>f. find_ref k s = Some f"
  using find_cases [of s k] by auto

text \<open>A search only depends on the keys of the live objects.\<close>

lemma find_cong:
  assumes "inv s" and "inv t" and "legal k" and "\<And>r. key_of s r = Some k \<longleftrightarrow> key_of t r = Some k"
  shows "find_ref k s = find_ref k t"
  using find_cases [OF assms(1,3)] find_cases [OF assms(2,3)] assms(4) key_inj [OF assms(1,3)]
  by auto

end

end
