(* ===== verification/Tcp_Tables.thy ===== *)
theory Tcp_Tables
  imports Tcp_Utils Lookup
begin

text \<open>
  The tables of connections are consistent: the list of connections, the hash table and the
  channel table show the same live objects, each address once. The operations of
  \<open>clo_utils.c\<close> that change the tables keep this, and then never end the process.
\<close>

declare split_paired_Ex [simp del] split_paired_All [simp del]

section \<open>The hash of an address\<close>

type_synonym conn_key = "u8 list \<times> u32 \<times> u32 \<times> u16 \<times> u16"

definition conn_key :: "t_tcp_id \<Rightarrow> conn_key" where
  "conn_key tid = (remote_mac tid, local_ip tid, remote_ip tid, local_port tid, remote_port tid)"

lemma fast_clo_comp_key: "fast_clo_comp a b \<longleftrightarrow> conn_key a = conn_key b"
  by (auto simp: fast_clo_comp_def conn_key_def)

lemma tcpid_hash_key: "conn_key a = conn_key b \<Longrightarrow> tcpid_hash a = tcpid_hash b"
  by (simp add: tcpid_hash_def conn_key_def)

lemma conn_key_llid [simp]: "conn_key (tid\<lparr>llid := l\<rparr>) = conn_key tid"
  by (simp add: conn_key_def)

lemma uint_and_mask12': "0 \<le> uint (x AND 0xFFF) \<and> uint (x AND 0xFFF) < 4096" for x :: u32
  by (simp add: uint_and_mask12)

lemma get_hash_range: "\<exists>i. get_hash m l f lp fp = Some i \<and> 1 \<le> i \<and> int i < MAX_HASH_IDX"
proof -
  obtain x :: u32 where "get_hash m l f lp fp = (let r = uint (x AND 0xFFF) + 1 in
      kout_if (r \<le> 0 \<or> MAX_HASH_IDX \<le> r) \<bind> (\<lambda>_. Some (nat r)))"
    by (auto simp: get_hash_def Let_def)
  moreover have "\<not> (uint (x AND 0xFFF) + 1 \<le> 0 \<or> MAX_HASH_IDX \<le> uint (x AND 0xFFF) + 1)"
    using uint_and_mask12' [of x] unfolding MAX_HASH_IDX_def by linarith
  ultimately have "get_hash m l f lp fp = Some (nat (uint (x AND 0xFFF) + 1))"
    by (simp only: Let_def kout_if_bind if_False)
  moreover have "1 \<le> nat (uint (x AND 0xFFF) + 1)" "int (nat (uint (x AND 0xFFF) + 1)) < MAX_HASH_IDX"
    using uint_and_mask12' [of x] unfolding MAX_HASH_IDX_def by linarith+
  ultimately show ?thesis by blast
qed

lemma tcpid_hash_total: "\<exists>i. tcpid_hash tid = Some i"
  using get_hash_range by (force simp: tcpid_hash_def)

section \<open>The invariant of the tables\<close>

definition key_hash :: "conn_key \<Rightarrow> nat run" where
  "key_hash k = (case k of (m, lip, rip, lp, rp) \<Rightarrow> get_hash m lip rip lp rp)"

lemma tcpid_hash_of_key: "tcpid_hash tid = key_hash (conn_key tid)"
  by (simp add: tcpid_hash_def key_hash_def conn_key_def)

definition key_at :: "'e clo_sys \<Rightarrow> nat \<Rightarrow> conn_key option" where
  "key_at s r = map_option (\<lambda>c. conn_key (tcpid c)) (clos s r)"

definition llid_at :: "'e clo_sys \<Rightarrow> nat \<Rightarrow> int option" where
  "llid_at s r = map_option (\<lambda>c. llid (tcpid c)) (clos s r)"

definition list_inv :: "'e clo_sys \<Rightarrow> bool" where
  "list_inv s \<longleftrightarrow> distinct (head_clo s) \<and> (\<forall>r. r \<in> set (head_clo s) \<longleftrightarrow> key_at s r \<noteq> None) \<and>
     (\<forall>r. next_clo s \<le> r \<longrightarrow> key_at s r = None)"

definition hash_inv :: "'e clo_sys \<Rightarrow> bool" where
  "hash_inv s \<longleftrightarrow> (\<forall>i. distinct (g_head_fast_clo s i)) \<and>
     (\<forall>i r. r \<in> set (g_head_fast_clo s i) \<longleftrightarrow> (\<exists>k. key_at s r = Some k \<and> key_hash k = Some i))"

definition unique_inv :: "'e clo_sys \<Rightarrow> bool" where
  "unique_inv s \<longleftrightarrow> (\<forall>r k r'. key_at s r = Some k \<longrightarrow> key_at s r' = Some k \<longrightarrow> r = r')"

definition llid_inv :: "'e clo_sys \<Rightarrow> bool" where
  "llid_inv s \<longleftrightarrow> (\<forall>l r. llid_to_clo s l = Some r \<longleftrightarrow> l \<noteq> 0 \<and> llid_at s r = Some l) \<and>
     (\<forall>r l. llid_at s r = Some l \<longrightarrow> l \<noteq> 0 \<longrightarrow> \<not> bad_llid l)"

definition tables_inv :: "'e clo_sys \<Rightarrow> bool" where
  "tables_inv s \<longleftrightarrow> list_inv s \<and> hash_inv s \<and> unique_inv s \<and> llid_inv s"

lemmas tables_parts = list_inv_def hash_inv_def unique_inv_def llid_inv_def

lemma hash_invD:
  "hash_inv s \<Longrightarrow> r \<in> set (g_head_fast_clo s i) \<longleftrightarrow> (\<exists>k. key_at s r = Some k \<and> key_hash k = Some i)"
  unfolding hash_inv_def by blast

lemma llid_invD: "llid_inv s \<Longrightarrow> llid_to_clo s l = Some r \<longleftrightarrow> l \<noteq> 0 \<and> llid_at s r = Some l"
  unfolding llid_inv_def by blast

lemma llid_inv_good: "llid_inv s \<Longrightarrow> llid_at s r = Some l \<Longrightarrow> l \<noteq> 0 \<Longrightarrow> \<not> bad_llid l"
  unfolding llid_inv_def by blast

lemma tables_inv_cong:
  assumes "head_clo s = head_clo t" and "next_clo s = next_clo t"
    and "g_head_fast_clo s = g_head_fast_clo t" and "llid_to_clo s = llid_to_clo t"
    and "key_at s = key_at t" and "llid_at s = llid_at t"
  shows "tables_inv s \<longleftrightarrow> tables_inv t"
  using assms by (simp only: tables_inv_def tables_parts)

definition find_key :: "conn_key \<Rightarrow> 'e clo_sys \<Rightarrow> nat option run" where
  "find_key k s = (case k of (m, lip, rip, lp, rp) \<Rightarrow>
     fast_get \<lparr>local_mac = [], remote_mac = m, local_ip = lip, remote_ip = rip, local_port = lp,
       remote_port = rp, llid = 0, llid_unlocked = 0\<rparr> s)"

lemma fast_walk_cong: "conn_key a = conn_key b \<Longrightarrow> fast_walk heap a rs = fast_walk heap b rs"
  by (induction rs) (simp_all add: fast_clo_comp_key cong: if_cong option.case_cong)

lemma fast_get_find_key: "fast_get tid s = find_key (conn_key tid) s"
proof -
  let ?t = "\<lparr>local_mac = [], remote_mac = remote_mac tid, local_ip = local_ip tid, remote_ip = remote_ip tid,
    local_port = local_port tid, remote_port = remote_port tid, llid = 0, llid_unlocked = 0\<rparr>"
  have k: "conn_key tid = conn_key ?t" by (simp add: conn_key_def)
  have "fast_get tid s = fast_get ?t s"
    using tcpid_hash_key [OF k] fast_walk_cong [OF k] by (simp add: fast_get_def)
  then show ?thesis by (simp add: find_key_def conn_key_def)
qed

lemma fast_walk_found:
  "\<forall>r \<in> set rs. heap r \<noteq> None \<Longrightarrow>
   (fast_walk heap tid rs = Some None \<and> (\<forall>r \<in> set rs. \<forall>c. heap r = Some c \<longrightarrow> conn_key (tcpid c) \<noteq> conn_key tid)) \<or>
   (\<exists>r \<in> set rs. fast_walk heap tid rs = Some (Some r) \<and> (\<exists>c. heap r = Some c \<and> conn_key (tcpid c) = conn_key tid))"
proof (induction rs)
  case Nil
  show ?case by simp
next
  case (Cons r rs)
  then obtain c where c: "heap r = Some c" by auto
  show ?case
  proof (cases "conn_key (tcpid c) = conn_key tid")
    case True
    then have "fast_walk heap tid (r # rs) = Some (Some r)" by (simp add: c fast_clo_comp_key)
    with c True show ?thesis by (metis list.set_intros(1))
  next
    case False
    then have w: "fast_walk heap tid (r # rs) = fast_walk heap tid rs" by (simp add: c fast_clo_comp_key)
    have "\<forall>r \<in> set rs. heap r \<noteq> None" using Cons.prems by simp
    with Cons.IH c False show ?thesis unfolding w set_simps by (metis insert_iff option.inject)
  qed
qed

lemma fast_get_cases:
  assumes "tables_inv s"
  shows "(fast_get tid s = Some None \<and> (\<forall>r. key_at s r \<noteq> Some (conn_key tid))) \<or>
         (\<exists>r. fast_get tid s = Some (Some r) \<and> key_at s r = Some (conn_key tid))"
proof -
  obtain i where i: "tcpid_hash tid = Some i" using tcpid_hash_total by blast
  have b: "r \<in> set (g_head_fast_clo s i) \<longleftrightarrow> (\<exists>c. clos s r = Some c \<and> tcpid_hash (tcpid c) = Some i)" for r
    using assms hash_invD [of s r i] by (auto simp: tables_inv_def key_at_def tcpid_hash_of_key)
  have g: "fast_get tid s = fast_walk (clos s) tid (g_head_fast_clo s i)"
    by (simp add: fast_get_def i)
  have "\<forall>r \<in> set (g_head_fast_clo s i). clos s r \<noteq> None" using b by auto
  from fast_walk_found [OF this, of tid] show ?thesis
  proof (elim disjE conjE bexE exE)
    assume n: "fast_walk (clos s) tid (g_head_fast_clo s i) = Some None"
      "\<forall>r \<in> set (g_head_fast_clo s i). \<forall>c. clos s r = Some c \<longrightarrow> conn_key (tcpid c) \<noteq> conn_key tid"
    have "key_at s r \<noteq> Some (conn_key tid)" for r
    proof
      assume "key_at s r = Some (conn_key tid)"
      then obtain c where c: "clos s r = Some c" "conn_key (tcpid c) = conn_key tid"
        unfolding key_at_def by blast
      have "tcpid_hash (tcpid c) = Some i" unfolding tcpid_hash_key [OF c(2)] by (rule i)
      with b c(1) have "r \<in> set (g_head_fast_clo s i)" by blast
      with n(2) c show False by blast
    qed
    with n(1) g show ?thesis by simp
  qed (auto simp: g key_at_def)
qed

lemma key_at_inj:
  "tables_inv s \<Longrightarrow> key_at s r = Some k \<Longrightarrow> key_at s r' = Some k \<Longrightarrow> r = r'"
  unfolding tables_inv_def unique_inv_def by blast

interpretation by_key: lookup_table tables_inv "\<lambda>_. True" find_key key_at
proof
  show "find_key k s = Some None \<and> (\<forall>r. key_at s r \<noteq> Some k) \<or>
      (\<exists>r. find_key k s = Some (Some r) \<and> key_at s r = Some k)" if "tables_inv s" for s :: "'e clo_sys" and k
  proof -
    obtain m l r lp rp where "k = (m, l, r, lp, rp)" by (cases k)
    then show ?thesis
      using fast_get_cases [OF that, of "\<lparr>local_mac = [], remote_mac = m, local_ip = l, remote_ip = r,
          local_port = lp, remote_port = rp, llid = 0, llid_unlocked = 0\<rparr>"]
      by (simp add: find_key_def conn_key_def)
  qed
qed (rule key_at_inj)

interpretation by_llid: lookup_table tables_inv "\<lambda>l. \<not> bad_llid l" util_get_clo llid_at
proof
  fix s :: "'e clo_sys" and l :: int
  assume inv: "tables_inv s" and ok: "\<not> bad_llid l"
  then have l: "l \<noteq> 0" by (auto simp: bad_llid_def)
  have t: "llid_to_clo s l = Some r \<longleftrightarrow> llid_at s r = Some l" for r
    using inv l llid_invD [of s l r] by (simp add: tables_inv_def)
  then show "util_get_clo l s = Some None \<and> (\<forall>r. llid_at s r \<noteq> Some l) \<or>
      (\<exists>r. util_get_clo l s = Some (Some r) \<and> llid_at s r = Some l)"
    using ok by (cases "llid_to_clo s l") (auto simp: util_get_clo_def kout_if_bind)
  show "r = r'" if "llid_at s r = Some l" "llid_at s r' = Some l" for r r'
    using t that by (metis option.inject)
qed

section \<open>Looking up through the tables\<close>

lemma fast_get_iff:
  "tables_inv s \<Longrightarrow> fast_get tid s = Some (Some r) \<longleftrightarrow> key_at s r = Some (conn_key tid)"
  unfolding fast_get_find_key by (rule by_key.find_iff [OF _ TrueI])

lemma fast_get_none_iff:
  "tables_inv s \<Longrightarrow> fast_get tid s = Some None \<longleftrightarrow> (\<forall>r. key_at s r \<noteq> Some (conn_key tid))"
  unfolding fast_get_find_key by (rule by_key.find_none_iff [OF _ TrueI])

lemma fast_get_self: "tables_inv s \<Longrightarrow> clos s r = Some c \<Longrightarrow> fast_get (tcpid c) s = Some (Some r)"
  by (simp add: fast_get_iff key_at_def)

section \<open>Objects are updated in place\<close>

lemma clos_set_clo [simp]: "clos (set_clo r c s) q = (if q = r then Some c else clos s q)"
  by (simp add: set_clo_def)

lemma set_clo_frame [simp]:
  "head_clo (set_clo r c s) = head_clo s" "next_clo (set_clo r c s) = next_clo s"
  "g_head_fast_clo (set_clo r c s) = g_head_fast_clo s" "llid_to_clo (set_clo r c s) = llid_to_clo s"
  "g_250ms_count (set_clo r c s) = g_250ms_count s" "g_tcp_max_size (set_clo r c s) = g_tcp_max_size s"
  "identification (set_clo r c s) = identification s" "low_out (set_clo r c s) = low_out s"
  "env (set_clo r c s) = env s" "timeouts (set_clo r c s) = timeouts s"
  "ack_timers (set_clo r c s) = ack_timers s" "iss (set_clo r c s) = iss s"
  "id_tcpid_count (set_clo r c s) = id_tcpid_count s"
  by (simp_all add: set_clo_def)

lemma set_clo_twice [simp]: "set_clo r c (set_clo r d s) = set_clo r c s"
  by (simp add: set_clo_def)

lemma deref_set_clo [simp]: "deref r (set_clo r c s) = Some c"
  by (simp add: deref_def)

lemma set_clo_tables:
  assumes "clos s r = Some c" and "conn_key (tcpid c') = conn_key (tcpid c)" and "llid (tcpid c') = llid (tcpid c)"
  shows "tables_inv (set_clo r c' s) \<longleftrightarrow> tables_inv s"
  by (rule tables_inv_cong) (use assms in \<open>auto simp: key_at_def llid_at_def fun_eq_iff\<close>)

section \<open>Creating a connection\<close>

lemma tables_insert:
  assumes inv: "tables_inv s" and fresh: "\<forall>r. key_at s r \<noteq> Some (conn_key tid)" and l: "llid tid = 0"
  obtains s' where "util_insert_clo tid s = Some (next_clo s, s')" and "tables_inv s'"
    and "clos s' = (clos s)(next_clo s \<mapsto> clo_zero tid (i32 (id_tcpid_count s + 1)))"
    and "clos s (next_clo s) = None"
    and "g_tcp_max_size s' = g_tcp_max_size s" and "low_out s' = low_out s" and "env s' = env s"
    and "g_250ms_count s' = g_250ms_count s" and "identification s' = identification s"
    and "iss s' = iss s" and "timeouts s' = timeouts s" and "ack_timers s' = ack_timers s"
    and "head_clo s' = next_clo s # head_clo s"
proof -
  define r where "r = next_clo s"
  define c where "c = clo_zero tid (i32 (id_tcpid_count s + 1))"
  have tid: "tcpid c = tid" by (simp add: c_def clo_zero_def)
  obtain i where i: "key_hash (conn_key tid) = Some i" using tcpid_hash_total [of tid] by (auto simp: tcpid_hash_of_key)
  have new: "key_at s r = None" using inv by (simp add: tables_inv_def list_inv_def r_def)
  define s' where "s' = s\<lparr>next_clo := r + 1, id_tcpid_count := i32 (id_tcpid_count s + 1),
    clos := (clos s)(r \<mapsto> c), g_head_fast_clo := (g_head_fast_clo s)(i := r # g_head_fast_clo s i),
    head_clo := r # head_clo s\<rparr>"
  have eq: "util_insert_clo tid s = Some (r, s')"
    by (simp add: util_insert_clo_def l kout_if_bind create_fast_def deref_def tid tcpid_hash_of_key i
        set_clo_def s'_def Let_def r_def [symmetric] c_def [symmetric])
  have k: "key_at s' q = (if q = r then Some (conn_key tid) else key_at s q)" for q
    by (simp add: s'_def key_at_def tid)
  have ll: "llid_at s' q = (if q = r then Some 0 else llid_at s q)" for q
    by (simp add: s'_def llid_at_def tid l)
  have "list_inv s'"
    using inv new unfolding tables_inv_def list_inv_def k by (auto simp: s'_def r_def)
  moreover have "hash_inv s'"
  proof -
    have h: "distinct (g_head_fast_clo s j)"
      "q \<in> set (g_head_fast_clo s j) \<longleftrightarrow> (\<exists>k. key_at s q = Some k \<and> key_hash k = Some j)" for j q
      using inv unfolding tables_inv_def hash_inv_def by blast+
    have "g_head_fast_clo s' = (g_head_fast_clo s)(i := r # g_head_fast_clo s i)" by (simp add: s'_def)
    with h new i show ?thesis unfolding hash_inv_def k by auto
  qed
  moreover have "unique_inv s'"
    using inv fresh unfolding tables_inv_def unique_inv_def k by (metis option.inject)
  moreover have "llid_inv s'"
  proof -
    have "llid_at s r = None" using new by (simp add: key_at_def llid_at_def)
    moreover have "llid_to_clo s' = llid_to_clo s" by (simp add: s'_def)
    ultimately show ?thesis using inv unfolding tables_inv_def llid_inv_def ll by auto
  qed
  ultimately have "tables_inv s'" by (simp add: tables_inv_def)
  moreover have "clos s r = None" using new by (simp add: key_at_def)
  ultimately show thesis
    using that [of s'] eq by (simp add: s'_def r_def c_def)
qed

section \<open>Channels\<close>

lemma tables_attach:
  assumes inv: "tables_inv s" and c: "clos s r = Some c" "llid (tcpid c) = 0"
    and l: "\<not> bad_llid l" and free: "llid_to_clo s l = None"
  shows "util_attach_llid_clo l r s = Some (set_clo r (set_llid l c) (s\<lparr>llid_to_clo := (llid_to_clo s)(l \<mapsto> r)\<rparr>))"
    and "tables_inv (set_clo r (set_llid l c) (s\<lparr>llid_to_clo := (llid_to_clo s)(l \<mapsto> r)\<rparr>))"
proof -
  let ?s = "set_clo r (set_llid l c) (s\<lparr>llid_to_clo := (llid_to_clo s)(l \<mapsto> r)\<rparr>)"
  have l0: "l \<noteq> 0" using l by (auto simp: bad_llid_def)
  show "util_attach_llid_clo l r s = Some ?s"
    using fast_get_self [OF inv c(1)] l free c
    by (simp add: util_attach_llid_clo_def util_get_fast_clo_def util_get_clo_def deref_def kout_if_bind
        with_clo_def)
  have k: "key_at ?s = key_at s" using c by (auto simp: key_at_def set_llid_def fun_eq_iff)
  have ll: "llid_at ?s q = (if q = r then Some l else llid_at s q)" for q
    using c by (simp add: llid_at_def set_llid_def)
  have r0: "llid_at s r = Some 0" using c by (simp add: llid_at_def)
  have li: "llid_inv s" using inv by (simp add: tables_inv_def)
  have "llid_at s q \<noteq> Some l" for q using llid_invD [OF li, of l q] free l0 by simp
  then have "llid_inv ?s"
    using li l l0 r0 unfolding llid_inv_def ll by auto
  then show "tables_inv ?s"
    using inv unfolding tables_inv_def list_inv_def hash_inv_def unique_inv_def k by simp
qed

lemma tables_detach:
  assumes inv: "tables_inv s" and c: "clos s r = Some c" "llid (tcpid c) \<noteq> 0"
  shows "util_detach_llid_clo (llid (tcpid c)) r s =
      Some ((set_clo r (set_llid 0 c) s)\<lparr>llid_to_clo := (llid_to_clo s)(llid (tcpid c) := None)\<rparr>)"
    and "tables_inv ((set_clo r (set_llid 0 c) s)\<lparr>llid_to_clo := (llid_to_clo s)(llid (tcpid c) := None)\<rparr>)"
proof -
  let ?l = "llid (tcpid c)"
  let ?s = "(set_clo r (set_llid 0 c) s)\<lparr>llid_to_clo := (llid_to_clo s)(?l := None)\<rparr>"
  have li: "llid_inv s" using inv by (simp add: tables_inv_def)
  have r: "llid_at s r = Some ?l" using c by (simp add: llid_at_def)
  have "\<not> bad_llid ?l" "llid_to_clo s ?l = Some r"
    using llid_inv_good [OF li r] llid_invD [OF li] r c by simp_all
  then show "util_detach_llid_clo ?l r s = Some ?s"
    using c by (simp add: util_detach_llid_clo_def util_get_clo_def deref_def kout_if_bind with_clo_def set_clo_def)
  have k: "key_at ?s = key_at s" using c by (auto simp: key_at_def set_llid_def fun_eq_iff)
  have ll: "llid_at ?s q = (if q = r then Some 0 else llid_at s q)" for q
    using c by (simp add: llid_at_def set_llid_def)
  have u: "llid_at s q = Some ?l \<Longrightarrow> q = r" for q
    using llid_invD [OF li, of ?l q] llid_invD [OF li, of ?l r] c(2) r by simp
  have t: "llid_to_clo ?s m = Some q \<longleftrightarrow> m \<noteq> 0 \<and> llid_at ?s q = Some m" for m q
  proof (cases "m = ?l")
    case True
    then show ?thesis using u [of q] c(2) unfolding ll by auto
  next
    case False
    then show ?thesis using llid_invD [OF li, of m q] r unfolding ll by (cases "q = r") simp_all
  qed
  have "\<not> bad_llid m" if "llid_at ?s q = Some m" "m \<noteq> 0" for m q
    using that llid_inv_good [OF li, of q m] unfolding ll by (cases "q = r") auto
  with t have "llid_inv ?s" unfolding llid_inv_def by blast
  then show "tables_inv ?s"
    using inv unfolding tables_inv_def list_inv_def hash_inv_def unique_inv_def k by simp
qed

section \<open>Deleting a connection\<close>

lemma delete_fast_eq:
  assumes inv: "tables_inv s" and c: "clos s r = Some c" and i: "tcpid_hash (tcpid c) = Some i"
  shows "delete_fast r s = Some (s\<lparr>g_head_fast_clo := (g_head_fast_clo s)(i := remove1 r (g_head_fast_clo s i))\<rparr>)"
  using fast_get_self [OF inv c] c i by (simp add: delete_fast_def deref_def kout_if_bind)

lemma tables_delete:
  assumes inv: "tables_inv s" and c: "clos s r = Some c" and l: "llid (tcpid c) = 0"
    and i: "tcpid_hash (tcpid c) = Some i"
  shows "tables_inv (s\<lparr>g_head_fast_clo := (g_head_fast_clo s)(i := remove1 r (g_head_fast_clo s i)),
     head_clo := remove1 r (head_clo s), clos := (clos s)(r := None)\<rparr>)" (is "tables_inv ?s")
proof -
  have k: "key_at ?s q = (if q = r then None else key_at s q)" for q by (simp add: key_at_def)
  have ll: "llid_at ?s q = (if q = r then None else llid_at s q)" for q by (simp add: llid_at_def)
  have kr: "key_at s r = Some (conn_key (tcpid c))" "key_hash (conn_key (tcpid c)) = Some i"
    using c i by (simp_all add: key_at_def tcpid_hash_of_key)
  have "list_inv ?s"
    using inv unfolding tables_inv_def list_inv_def k by auto
  moreover have "hash_inv ?s"
  proof -
    have h: "distinct (g_head_fast_clo s j)"
      "q \<in> set (g_head_fast_clo s j) \<longleftrightarrow> (\<exists>k. key_at s q = Some k \<and> key_hash k = Some j)" for j q
      using inv unfolding tables_inv_def hash_inv_def by blast+
    have "g_head_fast_clo ?s = (g_head_fast_clo s)(i := remove1 r (g_head_fast_clo s i))" by simp
    with h kr show ?thesis unfolding hash_inv_def k by auto
  qed
  moreover have "unique_inv ?s"
    using inv unfolding tables_inv_def unique_inv_def k by (auto split: if_splits)
  moreover have "llid_inv ?s"
  proof -
    have "llid_at s r = Some 0" using c l by (simp add: llid_at_def)
    then show ?thesis using inv unfolding tables_inv_def llid_inv_def ll by (auto split: if_splits)
  qed
  ultimately show ?thesis by (simp add: tables_inv_def)
qed

text \<open>A connection without buffered data is taken off every table and freed, and nothing else is.\<close>

lemma util_extract_clo_gone:
  assumes inv: "tables_inv s" and c: "clos s r = Some c" and e: "head_hdata c = []" "head_ldata c = []"
  obtains s' where "util_extract_clo r s = Some (True, s')" and "tables_inv s'"
    and "clos s' = (clos s)(r := None)" and "g_tcp_max_size s' = g_tcp_max_size s"
    and "low_out s' = low_out s" and "env s' = env s" and "timeouts s' = timeouts s"
    and "head_clo s' = remove1 r (head_clo s)"
proof -
  define t where "t = (if llid (tcpid c) \<noteq> 0
    then (set_clo r (set_llid 0 c) s)\<lparr>llid_to_clo := (llid_to_clo s)(llid (tcpid c) := None)\<rparr> else s)"
  define d where "d = (if llid (tcpid c) \<noteq> 0 then set_llid 0 c else c)"
  have t: "tables_inv t" "clos t r = Some d" "llid (tcpid d) = 0"
    using tables_detach(2) [OF inv c] inv c by (auto simp: t_def d_def set_llid_def)
  have step: "(if llid (tcpid c) \<noteq> 0 then util_detach_llid_clo (llid (tcpid c)) r s else Some s) = Some t"
    using tables_detach(1) [OF inv c] by (auto simp: t_def)
  obtain i where i: "tcpid_hash (tcpid d) = Some i" using tcpid_hash_total by blast
  define u where "u = t\<lparr>g_head_fast_clo := (g_head_fast_clo t)(i := remove1 r (g_head_fast_clo t i)),
     head_clo := remove1 r (head_clo t), clos := (clos t)(r := None)\<rparr>"
  have "tables_inv u" unfolding u_def by (rule tables_delete [OF t i])
  moreover have "util_extract_clo r s = Some (True, u)"
    unfolding util_extract_clo_def deref_def c bind.bind_lunit step delete_fast_eq [OF t(1,2) i]
    by (simp add: e u_def)
  moreover have "clos u = (clos s)(r := None)" by (auto simp: u_def t_def set_clo_def)
  moreover have "g_tcp_max_size u = g_tcp_max_size s" "low_out u = low_out s" "env u = env s"
    "timeouts u = timeouts s" "head_clo u = remove1 r (head_clo s)"
    by (simp_all add: u_def t_def)
  ultimately show thesis using that [of u] by blast
qed

end
