(* ===== verification/Tcp_Mngt.thy ===== *)
theory Tcp_Mngt
  imports Tcp_Utils
begin

text \<open>
  The sequence numbers and the buffers of a connection (\<open>munat/clo_tcp/src/clo_mngt.c\<close>). A
  function of the source that reads and writes one connection is a function on its record.
\<close>

section \<open>Creation, deletion, state\<close>

definition clo_next_iss :: "'e clo_sys \<Rightarrow> u32 \<times> 'e clo_sys" where
  "clo_next_iss s = (let i = iss s + g_250ms_count s in (i, s\<lparr>iss := i\<rparr>))"

definition clo_mngt_set_state :: "clo_state \<Rightarrow> t_clo \<Rightarrow> t_clo" where
  "clo_mngt_set_state st c = c\<lparr>state := st\<rparr>"

definition clo_mngt_timer :: "'e clo_sys \<Rightarrow> 'e clo_sys" where
  "clo_mngt_timer s = s\<lparr>g_250ms_count := g_250ms_count s + 1\<rparr>"

definition clo_mngt_find :: "t_tcp_id \<Rightarrow> 'e clo_sys \<Rightarrow> nat option run" where
  "clo_mngt_find tid s = util_get_fast_clo tid s"

definition clo_mngt_create_tcp :: "t_tcp_id \<Rightarrow> 'e clo_sys \<Rightarrow> (nat \<times> 'e clo_sys) run" where
  "clo_mngt_create_tcp tid s = do {
     (r, s) \<leftarrow> util_insert_clo tid s;
     s \<leftarrow> with_clo r (clo_mngt_set_state state_created) s;
     let (i, s) = clo_next_iss s;
     s \<leftarrow> with_clo r (\<lambda>c. c\<lparr>send_unack := i, send_next := i, loc_wnd := TCP_WND\<rparr>) s;
     Some (r, s)
   }"

text \<open>The result says that the object is gone.\<close>

definition clo_mngt_delete_tcp :: "nat \<Rightarrow> 'e clo_sys \<Rightarrow> (bool \<times> 'e clo_sys) run" where
  "clo_mngt_delete_tcp r s = do {
     s \<leftarrow> with_clo r (clo_mngt_set_state state_closed) s;
     util_extract_clo r s
   }"

section \<open>Receiving a segment\<close>

text \<open>The walk over the blocks that wait for an acknowledgement; \<open>add\<close> stays set once it is.\<close>

fun release_past :: "u32 \<Rightarrow> u32 \<Rightarrow> t_hdata list \<Rightarrow> t_hdata list" where
  "release_past ack add [] = []"
| "release_past ack add (h # hs) =
     (if count_250ms h \<noteq> 0 then
        let add = (if hd_seqno h + ucast TCP_WND < hd_seqno h then 0x10000000 else add) in
        if hd_seqno h + add + word_of_int (hd_len h) \<le> ack + add
        then release_past ack add hs else h # release_past ack add hs
      else h # release_past ack add hs)"

definition update_unack_release_past_hdata :: "u32 \<Rightarrow> t_clo \<Rightarrow> t_clo" where
  "update_unack_release_past_hdata ack c =
     c\<lparr>head_hdata := release_past ack 0 (head_hdata c), send_unack := ack\<rparr>"

text \<open>The adjusted \<open>send_unack\<close>, \<open>send_next\<close>, \<open>recv_next\<close>, sequence and acknowledgement numbers.\<close>

definition ajust :: "t_clo \<Rightarrow> t_low \<Rightarrow> u32 \<times> u32 \<times> u32 \<times> u32 \<times> u32" where
  "ajust c low =
     (let (rn, sq) = (if recv_next c \<le> recv_next c + 2 * ucast TCP_WND then (recv_next c, seqno low)
                      else (recv_next c + 0x10000000, seqno low + 0x10000000));
          (un, sn, ak) = (if send_unack c \<le> send_next c then (send_unack c, send_next c, ackno low)
                      else (send_unack c + 0x10000000, send_next c + 0x10000000, ackno low + 0x10000000)) in
      (un, sn, rn, sq, ak))"

definition adjusted_tcplen :: "t_low \<Rightarrow> u32" where
  "adjusted_tcplen low = (if has (flags low) TH_FIN then ucast (tcplen low) + 1 else ucast (tcplen low))"

definition in_rx_window :: "t_clo \<Rightarrow> t_low \<Rightarrow> bool" where
  "in_rx_window c low =
     (let (un, sn, rn, sq, ak) = ajust c low; tl = adjusted_tcplen low in
      rn \<le> sq \<and> sq \<le> rn + 2 * ucast TCP_WND \<or>
      rn \<le> sq + tl \<and> sq + tl - 1 \<le> rn + 2 * ucast TCP_WND)"

definition ack_acceptable :: "t_clo \<Rightarrow> t_low \<Rightarrow> bool" where
  "ack_acceptable c low = (let (un, sn, rn, sq, ak) = ajust c low in un \<le> ak \<and> ak \<le> sn)"

text \<open>The results are: accepted (0 in the source), \<open>inserted\<close>, and the connection.\<close>

definition clo_mngt_low_input :: "t_low \<Rightarrow> t_clo \<Rightarrow> bool \<times> bool \<times> t_clo" where
  "clo_mngt_low_input low c =
     (if state c = state_created \<and> flags low = TH_SYN then
        (True, False, c\<lparr>recv_next := seqno low + ucast (tcplen low), dist_wnd := wnd low\<rparr>)
      else if state c = state_first_syn_sent \<and> flags low AND (TH_SYN OR TH_ACK) = TH_SYN OR TH_ACK then
        (True, False, (update_unack_release_past_hdata (ackno low)
           (c\<lparr>recv_next := seqno low + ucast (tcplen low), dist_wnd := wnd low\<rparr>))\<lparr>have_to_ack := 1\<rparr>)
      else if in_rx_window c low then
        (let c1 = (if has (flags low) TH_ACK \<and> ack_acceptable c low
                   then update_unack_release_past_hdata (ackno low) c else c) in
         if datalen low \<noteq> 0 \<and>
            state c \<in> {state_established, state_fin_wait1, state_fin_wait_last_ack, state_fin_wait2} \<and>
            seqno low = recv_next c
         then (True, True, c1\<lparr>head_ldata := util_insert_ldata low (head_ldata c1), have_to_ack := 1,
                              recv_next := seqno low + adjusted_tcplen low, dist_wnd := wnd low\<rparr>)
         else (True, False, c1))
      else (False, False, c))"

section \<open>Sending data\<close>

text \<open>The loop that cuts data into blocks does not end with a block size of 0.\<close>

function high_input_loop :: "int \<Rightarrow> u8 list \<Rightarrow> t_hdata list \<Rightarrow> t_hdata list run" where
  "high_input_loop m data head =
     (if data = [] then Some head
      else if m \<le> 0 then None
      else high_input_loop m (drop (nat m) data)
             (util_insert_hdata head m (int (length (take (nat m) data))) (take (nat m) data)))"
  by pat_completeness auto

termination
  by (relation "measure (\<lambda>(m, data, head). length data)") auto

declare high_input_loop.simps [simp del]

definition clo_mngt_high_input :: "int \<Rightarrow> u8 list \<Rightarrow> t_clo \<Rightarrow> t_clo run" where
  "clo_mngt_high_input max_size data c = do {
     h \<leftarrow> high_input_loop max_size data (head_hdata c);
     Some (c\<lparr>head_hdata := h\<rparr>)
   }"

definition clo_mngt_adjust_send_next :: "u32 \<Rightarrow> int \<Rightarrow> t_clo \<Rightarrow> t_clo run" where
  "clo_mngt_adjust_send_next seq len c = do {
     kout_if (seq \<noteq> send_next c);
     Some (c\<lparr>send_next := seq + word_of_int len\<rparr>)
   }"

text \<open>The result says that the window changed.\<close>

definition clo_mngt_adjust_loc_wnd :: "u16 \<Rightarrow> t_clo \<Rightarrow> bool \<times> t_clo" where
  "clo_mngt_adjust_loc_wnd w c = (w \<noteq> loc_wnd c, c\<lparr>loc_wnd := w\<rparr>)"

definition clo_mngt_authorised_to_send_nexttx :: "int \<Rightarrow> t_clo \<Rightarrow> bool run" where
  "clo_mngt_authorised_to_send_nexttx max_size c = do {
     let diff = sint (send_next c - send_unack c);
     kout_if (diff < 0);
     Some (i32 (diff + (max_size + 1)) < uint (dist_wnd c))
   }"

text \<open>The block at position \<open>k\<close>: its sequence number, length and data.\<close>

definition clo_mngt_get_txdata :: "u32 \<Rightarrow> nat \<Rightarrow> t_clo \<Rightarrow> (u32 \<times> int \<times> u8 list \<times> t_clo) run" where
  "clo_mngt_get_txdata now k c = do {
     let h = head_hdata c ! k;
     kout_if (hd_len h = 0);
     let sq = (if count_250ms h = 0 then send_next c else hd_seqno h);
     let h' = h\<lparr>hd_seqno := sq, count_250ms := now, count_tries_tx := i32 (count_tries_tx h + 1)\<rparr>;
     Some (sq, hd_len h, take (nat (hd_len h)) (hd_data h),
       c\<lparr>head_hdata := (head_hdata c)[k := h'],
         tx_repeat_failure_count := max (tx_repeat_failure_count c) (count_tries_tx h'),
         non_activ_count := 0\<rparr>)
   }"

section \<open>Delivering data\<close>

definition compute_ldata_len :: "t_clo \<Rightarrow> int" where
  "compute_ldata_len c = sum_list (map (\<lambda>l. uint (datalen l)) (head_ldata c))"

text \<open>The data, or \<open>None\<close> for the result -1.\<close>

definition clo_mngt_get_new_rxdata :: "t_clo \<Rightarrow> (u8 list option \<times> t_clo) run" where
  "clo_mngt_get_new_rxdata c = do {
     let r = (if compute_ldata_len c \<noteq> 0
        then (Some (concat (map (\<lambda>l. take (unat (datalen l)) (low_data l)) (head_ldata c))),
              c\<lparr>non_activ_count := 0, head_ldata := []\<rparr>)
        else (None, c));
     kout_if (head_ldata (snd r) \<noteq> []);
     Some r
   }"

definition clo_mngt_init :: "'e clo_sys \<Rightarrow> 'e clo_sys" where
  "clo_mngt_init s = s\<lparr>head_clo := [], g_250ms_count := 0, g_tcp_max_size := TCP_MAX_SIZE\<rparr>"

end
