(* ===== verification/Tcp_High.thy ===== *)
theory Tcp_High
  imports Tcp_Mngt
begin

text \<open>
  The protocol of a connection (\<open>munat/clo_tcp/src/clo_high.c\<close>): the calls of the layer above
  (open, accept, send, close), the input of a frame, the deferred calls and the 250 ms heartbeat.
  \<open>ch\<close> are the channels the data goes to, \<open>hi\<close> the three callbacks that may call back.
\<close>

section \<open>Acknowledgements\<close>

definition ackno_send :: "nat \<Rightarrow> bool \<Rightarrow> 'e clo_sys \<Rightarrow> 'e clo_sys run" where
  "ackno_send r force s = do {
     c \<leftarrow> deref r s;
     if force \<or> recv_next c \<noteq> ackno_sent c
     then with_clo r (\<lambda>c. c\<lparr>ackno_sent := recv_next c\<rparr>)
            (util_send_ack (tcpid c) (recv_next c) (send_next c) (loc_wnd c) s)
     else Some s
   }"

definition send_ack_cb :: "t_tcp_id \<Rightarrow> 'e clo_sys \<Rightarrow> 'e clo_sys run" where
  "send_ack_cb tid s = do {
     f \<leftarrow> util_get_fast_clo tid s;
     case f of
       None \<Rightarrow> Some s
     | Some r \<Rightarrow> do {
         s \<leftarrow> ackno_send r False s;
         with_clo r (\<lambda>c. c\<lparr>send_ack_active := 0\<rparr>) s
       }
   }"

definition timed_send_ack :: "nat \<Rightarrow> 'e clo_sys \<Rightarrow> (bool \<times> 'e clo_sys) run" where
  "timed_send_ack r s = do {
     c \<leftarrow> deref r s;
     if send_ack_active c = 0
     then Some (True, set_clo r (c\<lparr>send_ack_active := 1\<rparr>) (s\<lparr>ack_timers := ack_timers s @ [tcpid c]\<rparr>))
     else Some (False, s)
   }"

definition dec_have_to_ack :: "t_clo \<Rightarrow> t_clo" where
  "dec_have_to_ack c = (if 0 < have_to_ack c then c\<lparr>have_to_ack := have_to_ack c - 1\<rparr> else c)"

section \<open>Closing\<close>

definition init_closed_state_count_if_not_done :: "int \<Rightarrow> int \<Rightarrow> t_clo \<Rightarrow> t_clo" where
  "init_closed_state_count_if_not_done val line c =
     (if closed_state_count_initialised c = 0
      then c\<lparr>closed_state_count_line := line, closed_state_count_initialised := 1, closed_state_count := val\<rparr>
      else c)"

text \<open>A FIN is sent: the sequence number moves by one.\<close>

definition send_finack_and_move :: "nat \<Rightarrow> clo_state \<Rightarrow> 'e clo_sys \<Rightarrow> 'e clo_sys run" where
  "send_finack_and_move r st s = do {
     c \<leftarrow> deref r s;
     let s = util_send_finack (tcpid c) (recv_next c) (send_next c) (loc_wnd c) s;
     c' \<leftarrow> clo_mngt_adjust_send_next (send_next c) 1 c;
     Some (set_clo r (clo_mngt_set_state st c') s)
   }"

definition local_send_finack_state_fin :: "nat \<Rightarrow> 'e clo_sys \<Rightarrow> 'e clo_sys run" where
  "local_send_finack_state_fin r s = do {
     c \<leftarrow> deref r s;
     if has_been_closed_from_outside_socket c = 1
     then send_finack_and_move r state_fin_wait1 s else Some s
   }"

definition send_reset_state_closed :: "nat \<Rightarrow> int \<Rightarrow> 'e clo_sys \<Rightarrow> 'e clo_sys run" where
  "send_reset_state_closed r line s = do {
     c \<leftarrow> deref r s;
     with_clo r (\<lambda>c. init_closed_state_count_if_not_done 20 line (clo_mngt_set_state state_closed c))
       (util_send_reset (tcpid c) (recv_next c) (send_next c) (loc_wnd c) s)
   }"

definition local_send_reset_state_closed :: "nat \<Rightarrow> 'e clo_sys \<Rightarrow> 'e clo_sys run" where
  "local_send_reset_state_closed r s = send_reset_state_closed r 138 s"

section \<open>Sending data\<close>

definition local_send_data_to_low :: "nat \<Rightarrow> nat \<Rightarrow> bool \<Rightarrow> 'e clo_sys \<Rightarrow> 'e clo_sys run" where
  "local_send_data_to_low r k adjust s = do {
     c \<leftarrow> deref r s;
     if state c = state_established then do {
       let ack = recv_next c;
       let w = loc_wnd c;
       (sq, len, data, c) \<leftarrow> clo_mngt_get_txdata (g_250ms_count s) k c;
       let s = util_send_data (tcpid c) ack sq w len data s;
       c \<leftarrow> (if adjust then clo_mngt_adjust_send_next sq len c else Some c);
       Some (set_clo r (dec_have_to_ack (c\<lparr>ackno_sent := ack\<rparr>)) s)
     } else Some s
   }"

text \<open>The two walks over the list of blocks; the list of positions is the rest of the walk.\<close>

fun send_timer_loop :: "nat list \<Rightarrow> nat \<Rightarrow> 'e clo_sys \<Rightarrow> 'e clo_sys run" where
  "send_timer_loop [] r s = Some s"
| "send_timer_loop (k # ks) r s = do {
     c \<leftarrow> deref r s;
     let h = head_hdata c ! k;
     if count_250ms h \<noteq> 0 \<and> 2 \<le> g_250ms_count s - count_250ms h then do {
       s \<leftarrow> local_send_data_to_low r k False s;
       send_timer_loop ks r s
     } else if count_250ms h = 0 then do {
       a \<leftarrow> clo_mngt_authorised_to_send_nexttx (g_tcp_max_size s) c;
       s \<leftarrow> (if a then local_send_data_to_low r k True s else Some s);
       send_timer_loop ks r s
     } else send_timer_loop ks r s
   }"

definition try_send_data2low_timer :: "nat \<Rightarrow> 'e clo_sys \<Rightarrow> 'e clo_sys run" where
  "try_send_data2low_timer r s = do {
     c \<leftarrow> deref r s;
     send_timer_loop [0..<length (head_hdata c)] r s
   }"

fun send_loop :: "nat list \<Rightarrow> nat \<Rightarrow> 'e clo_sys \<Rightarrow> 'e clo_sys run" where
  "send_loop [] r s = Some s"
| "send_loop (k # ks) r s = do {
     c \<leftarrow> deref r s;
     a \<leftarrow> clo_mngt_authorised_to_send_nexttx (g_tcp_max_size s) c;
     if \<not> a then Some s
     else if count_250ms (head_hdata c ! k) = 0 then do {
       s \<leftarrow> local_send_data_to_low r k True s;
       send_loop ks r s
     } else send_loop ks r s
   }"

definition try_send_data2low :: "nat \<Rightarrow> 'e clo_sys \<Rightarrow> 'e clo_sys run" where
  "try_send_data2low r s = do {
     c \<leftarrow> deref r s;
     send_loop [0..<length (head_hdata c)] r s
   }"

definition clo_high_data_tx_possible :: "t_tcp_id \<Rightarrow> 'e clo_sys \<Rightarrow> bool run" where
  "clo_high_data_tx_possible tid s = do {
     f \<leftarrow> clo_mngt_find tid s;
     case f of
       None \<Rightarrow> Some False
     | Some r \<Rightarrow> do {
         c \<leftarrow> deref r s;
         clo_mngt_authorised_to_send_nexttx (g_tcp_max_size s) c
       }
   }"

definition clo_high_data_tx :: "t_tcp_id \<Rightarrow> u8 list \<Rightarrow> 'e clo_sys \<Rightarrow> (tx_error \<times> 'e clo_sys) run" where
  "clo_high_data_tx tid data s = do {
     f \<leftarrow> clo_mngt_find tid s;
     kout_if (f = None);
     let r = the f;
     c \<leftarrow> deref r s;
     if state c \<notin> {state_established, state_fin_wait1, state_fin_wait_last_ack, state_fin_wait2, state_closed}
     then Some (error_not_established, s)
     else do {
       c' \<leftarrow> clo_mngt_high_input (g_tcp_max_size s) data c;
       let s = set_clo r c' s;
       if state c = state_closed then Some (error_none, s)
       else do {
         a \<leftarrow> clo_mngt_authorised_to_send_nexttx (g_tcp_max_size s) c';
         if \<not> a then Some (error_not_authorized, s)
         else do {
           s \<leftarrow> try_send_data2low r s;
           Some (error_none, s)
         }
       }
     }
   }"

section \<open>Deferred calls\<close>

definition async_fct_call :: "num_fct \<Rightarrow> int \<Rightarrow> t_tcp_id \<Rightarrow> 'e clo_sys \<Rightarrow> 'e clo_sys" where
  "async_fct_call num i tid s =
     (let fct = \<lparr>num_fct = num, fct_id_tcpid = i, fct_tcpid = tid\<rparr>;
          delay = (case num of num_fct_send_finack \<Rightarrow> 5 | num_fct_high_close_rx \<Rightarrow> 3
                   | num_fct_high_close_rx_send_rst \<Rightarrow> 100) in
      s\<lparr>timeouts := timeouts s @ [(delay, fct)]\<rparr>)"

definition async_for :: "num_fct \<Rightarrow> nat \<Rightarrow> 'e clo_sys \<Rightarrow> 'e clo_sys run" where
  "async_for num r s = do { c \<leftarrow> deref r s; Some (async_fct_call num (id_tcpid c) (tcpid c) s) }"

definition break_of_com_kill_both_sides :: "nat \<Rightarrow> 'e clo_sys \<Rightarrow> 'e clo_sys run" where
  "break_of_com_kill_both_sides r s = async_for num_fct_high_close_rx_send_rst r s"

definition timer_fct_call :: "'e clo_high \<Rightarrow> t_timer_fct \<Rightarrow> 'e clo_sys \<Rightarrow> 'e clo_sys run" where
  "timer_fct_call hi fct s = do {
     f \<leftarrow> clo_mngt_find (fct_tcpid fct) s;
     case num_fct fct of
       num_fct_high_close_rx \<Rightarrow> high_close_rx hi (fct_tcpid fct) s
     | num_fct_high_close_rx_send_rst \<Rightarrow> do {
         s \<leftarrow> high_close_rx hi (fct_tcpid fct) s;
         case f of
           None \<Rightarrow> Some s
         | Some r \<Rightarrow> do {
             c \<leftarrow> deref r s;
             if id_tcpid c = fct_id_tcpid fct
             then Some (util_send_reset (tcpid c) (recv_next c) (send_next c) (loc_wnd c) s)
             else Some s
           }
       }
     | num_fct_send_finack \<Rightarrow>
         (case f of
           None \<Rightarrow> Some s
         | Some r \<Rightarrow> do {
             c \<leftarrow> deref r s;
             if id_tcpid c = fct_id_tcpid fct then
               (if head_hdata c \<noteq> [] then Some (s\<lparr>timeouts := timeouts s @ [(5, fct)]\<rparr>)
                else local_send_finack_state_fin r s)
             else Some s
           })
   }"

section \<open>Delivering data\<close>

text \<open>The data received in order goes to the channel.\<close>

definition deliver_rxdata :: "'e clo_chan \<Rightarrow> nat \<Rightarrow> 'e clo_sys \<Rightarrow> 'e clo_sys run" where
  "deliver_rxdata ch r s = do {
     c \<leftarrow> deref r s;
     (data, c) \<leftarrow> clo_mngt_get_new_rxdata c;
     let s = set_clo r c s;
     Some (case data of None \<Rightarrow> s | Some d \<Rightarrow> s\<lparr>env := high_data_rx ch (tcpid c) d (env s)\<rparr>)
   }"

definition local_rx_data_purge :: "'e clo_chan \<Rightarrow> nat \<Rightarrow> 'e clo_sys \<Rightarrow> 'e clo_sys run" where
  "local_rx_data_purge ch r s = do {
     c \<leftarrow> deref r s;
     let res = high_data_rx_possible ch (tcpid c) (env s);
     s \<leftarrow> (if res = 1 then deliver_rxdata ch r s else Some s);
     with_clo r (\<lambda>c. c\<lparr>head_ldata := []\<rparr>) s
   }"

definition close_channel :: "'e clo_chan \<Rightarrow> nat \<Rightarrow> 'e clo_sys \<Rightarrow> 'e clo_sys run" where
  "close_channel ch r s = do {
     c \<leftarrow> deref r s;
     let l = llid (tcpid c);
     let s = (if msg_exist_channel ch l (env s) then s\<lparr>env := msg_delete_channel ch l (env s)\<rparr> else s);
     c \<leftarrow> deref r s;
     if llid (tcpid c) \<noteq> 0 then util_detach_llid_clo (llid (tcpid c)) r s else Some s
   }"

section \<open>Opening and closing from above\<close>

definition clo_high_syn_tx :: "t_tcp_id \<Rightarrow> 'e clo_sys \<Rightarrow> (bool \<times> 'e clo_sys) run" where
  "clo_high_syn_tx tid s = do {
     f \<leftarrow> clo_mngt_find tid s;
     if f \<noteq> None then Some (False, s)
     else do {
       (r, s) \<leftarrow> clo_mngt_create_tcp tid s;
       c \<leftarrow> deref r s;
       let s = util_send_syn tid (recv_next c) (send_next c) (loc_wnd c) s;
       c' \<leftarrow> clo_mngt_adjust_send_next (send_next c) 1 c;
       Some (True, set_clo r (clo_mngt_set_state state_first_syn_sent c') s)
     }
   }"

definition clo_high_synack_tx :: "t_tcp_id \<Rightarrow> 'e clo_sys \<Rightarrow> (bool \<times> 'e clo_sys) run" where
  "clo_high_synack_tx tid s = do {
     f \<leftarrow> clo_mngt_find tid s;
     case f of
       None \<Rightarrow> Some (False, s)
     | Some r \<Rightarrow> do {
         c \<leftarrow> deref r s;
         let s = util_send_synack tid (recv_next c) (send_next c) (loc_wnd c) s;
         c' \<leftarrow> clo_mngt_adjust_send_next (send_next c) 1 c;
         Some (True, set_clo r (clo_mngt_set_state state_established c') s)
       }
   }"

definition reset_rx_close_all :: "'e clo_chan \<Rightarrow> nat \<Rightarrow> 'e clo_sys \<Rightarrow> 'e clo_sys run" where
  "reset_rx_close_all ch r s = do {
     s \<leftarrow> close_channel ch r s;
     with_clo r (\<lambda>c. init_closed_state_count_if_not_done 1 410
       (util_silent_purge_hdata_and_ldata (clo_mngt_set_state state_closed c))) s
   }"

definition clo_high_free_tcpid :: "t_tcp_id \<Rightarrow> 'e clo_sys \<Rightarrow> 'e clo_sys run" where
  "clo_high_free_tcpid tid s = do {
     f \<leftarrow> clo_mngt_find tid s;
     case f of
       None \<Rightarrow> Some s
     | Some r \<Rightarrow> with_clo r (\<lambda>c. init_closed_state_count_if_not_done 1 423
         (util_silent_purge_hdata_and_ldata (clo_mngt_set_state state_closed c))) s
   }"

text \<open>The result says that the connection exists (0 in the source).\<close>

definition clo_high_close_tx :: "'e clo_chan \<Rightarrow> t_tcp_id \<Rightarrow> 'e clo_sys \<Rightarrow> (bool \<times> 'e clo_sys) run" where
  "clo_high_close_tx ch tid s = do {
     f \<leftarrow> clo_mngt_find tid s;
     case f of
       None \<Rightarrow> Some (False, s)
     | Some r \<Rightarrow> do {
         s \<leftarrow> close_channel ch r s;
         s \<leftarrow> local_rx_data_purge ch r s;
         c \<leftarrow> deref r s;
         s \<leftarrow> (case state c of
             state_established \<Rightarrow>
               if has_been_closed_from_outside_socket c = 1
               then async_for num_fct_send_finack r s else local_send_finack_state_fin r s
           | state_first_syn_sent \<Rightarrow>
               if has_been_closed_from_outside_socket c = 1
               then async_for num_fct_send_finack r s else local_send_finack_state_fin r s
           | state_created \<Rightarrow> local_send_reset_state_closed r s
           | state_fin_wait1 \<Rightarrow> with_clo r (init_closed_state_count_if_not_done 20 461) s
           | state_fin_wait2 \<Rightarrow> with_clo r (init_closed_state_count_if_not_done 20 461) s
           | state_closed \<Rightarrow> with_clo r (\<lambda>c. init_closed_state_count_if_not_done 4 467
               (util_silent_purge_hdata_and_ldata (clo_mngt_set_state state_closed c))) s
           | state_fin_wait_last_ack \<Rightarrow> with_clo r (\<lambda>c. init_closed_state_count_if_not_done 4 467
               (util_silent_purge_hdata_and_ldata (clo_mngt_set_state state_closed c))) s
           | state_idle \<Rightarrow> None);
         Some (True, s)
       }
   }"

end
