(* ===== verification/Tcp_Input.thy ===== *)
theory Tcp_Input
  imports Tcp_High
begin

text \<open>
  The input of a frame and the heartbeat of the TCP stack (the second half of
  \<open>munat/clo_tcp/src/clo_high.c\<close>).
\<close>

section \<open>A segment for no connection\<close>

text \<open>The condition under the last guard of the source is never true there: the flag FIN is not set.\<close>

definition non_existing_tcp_low_input ::
  "'e clo_high \<Rightarrow> t_tcp_id \<Rightarrow> t_low \<Rightarrow> 'e clo_sys \<Rightarrow> (bool \<times> 'e clo_sys) run" where
  "non_existing_tcp_low_input hi tid low s =
     (if flags low = TH_SYN then do {
        (r, s) \<leftarrow> clo_mngt_create_tcp tid s;
        c \<leftarrow> deref r s;
        let (ok, ins, c) = clo_mngt_low_input low c;
        let s = set_clo r c s;
        if ok then do { s \<leftarrow> high_syn_rx hi (tcpid c) s; Some (ins, s) }
        else do {
          let s = util_send_reset tid (recv_next c) (send_next c) (loc_wnd c) s;
          s \<leftarrow> with_clo r (\<lambda>c. init_closed_state_count_if_not_done 20 515
                 (clo_mngt_set_state state_closed c)) s;
          Some (ins, s)
        }
      } else if \<not> has (flags low) TH_RST \<and> tcplen low \<noteq> 0 \<and> \<not> has (flags low) TH_FIN \<and> tcplen low \<noteq> 1 then
        (let ack = (if has (flags low) TH_FIN then seqno low + ucast (tcplen low) + 1
                    else seqno low + ucast (tcplen low)) in
         Some (False, util_send_reset tid ack (ackno low) TCP_WND s))
      else Some (False, s))"

section \<open>A segment for a connection, by its state\<close>

text \<open>The result is 0 in the source.\<close>

definition existing_tcp_low_input ::
  "'e clo_chan \<Rightarrow> 'e clo_high \<Rightarrow> nat \<Rightarrow> t_low \<Rightarrow> 'e clo_sys \<Rightarrow> (bool \<times> 'e clo_sys) run" where
  "existing_tcp_low_input ch hi r low s = do {
     c \<leftarrow> deref r s;
     case state c of
       state_created \<Rightarrow>
         if flags low = TH_SYN then do { s \<leftarrow> high_syn_rx hi (tcpid c) s; Some (True, s) }
         else do { s \<leftarrow> send_reset_state_closed r 559 s; Some (False, s) }
     | state_first_syn_sent \<Rightarrow>
         if flags low AND (TH_SYN OR TH_ACK) = TH_SYN OR TH_ACK then do {
           s \<leftarrow> with_clo r (clo_mngt_set_state state_established) s;
           s \<leftarrow> high_synack_rx hi (tcpid c) s;
           Some (True, s)
         } else do {
           let s = util_send_reset (tcpid c) (recv_next c) (send_next c) (loc_wnd c) s;
           s \<leftarrow> async_for num_fct_high_close_rx r s;
           s \<leftarrow> with_clo r (\<lambda>c. init_closed_state_count_if_not_done 20 580
                  (clo_mngt_set_state state_closed c)) s;
           Some (False, s)
         }
     | state_established \<Rightarrow>
         if has (flags low) TH_FIN then do {
           s \<leftarrow> local_rx_data_purge ch r s;
           s \<leftarrow> with_clo r (\<lambda>c. if has_been_closed_from_outside_socket c = 1
                  then c\<lparr>has_been_closed_from_outside_socket := 0\<rparr> else c) s;
           s \<leftarrow> send_finack_and_move r state_fin_wait_last_ack s;
           Some (True, s)
         } else Some (True, s)
     | state_fin_wait1 \<Rightarrow>
         if has (flags low) TH_ACK then do {
           s \<leftarrow> with_clo r (clo_mngt_set_state state_fin_wait2) s;
           if has (flags low) TH_FIN then do {
             s \<leftarrow> ackno_send r True s;
             s \<leftarrow> async_for num_fct_high_close_rx r s;
             s \<leftarrow> with_clo r (clo_mngt_set_state state_closed) s;
             Some (False, s)
           } else Some (False, s)
         } else Some (False, s)
     | state_fin_wait2 \<Rightarrow>
         if has (flags low) TH_FIN then do {
           s \<leftarrow> ackno_send r True s;
           s \<leftarrow> async_for num_fct_high_close_rx r s;
           s \<leftarrow> with_clo r (clo_mngt_set_state state_closed) s;
           Some (False, s)
         } else Some (False, s)
     | state_fin_wait_last_ack \<Rightarrow> do {
         s \<leftarrow> (if has (flags low) TH_ACK then async_for num_fct_high_close_rx r s else Some s);
         s \<leftarrow> with_clo r (clo_mngt_set_state state_closed) s;
         Some (False, s)
       }
     | state_closed \<Rightarrow> Some (False, s)
     | state_idle \<Rightarrow> None
   }"

section \<open>The input of a frame\<close>

text \<open>What happens to the data just inserted; the result is \<open>change\<close>.\<close>

definition input_inserted :: "'e clo_chan \<Rightarrow> nat \<Rightarrow> 'e clo_sys \<Rightarrow> (bool \<times> 'e clo_sys) run" where
  "input_inserted ch r s = do {
     c \<leftarrow> deref r s;
     let res = high_data_rx_possible ch (tcpid c) (env s);
     s \<leftarrow> (if res = -1 then break_of_com_kill_both_sides r s else Some s);
     if res = 1 then do {
       c \<leftarrow> deref r s;
       let (change, c) = clo_mngt_adjust_loc_wnd TCP_WND c;
       s \<leftarrow> deliver_rxdata ch r (set_clo r c s);
       Some (change, s)
     } else if res = 0 \<and> llid_unlocked (tcpid c) \<noteq> 0 then do {
       c \<leftarrow> deref r s;
       let (change, c) = clo_mngt_adjust_loc_wnd TCP_WND_MIN c;
       Some (change, set_clo r c s)
     } else Some (False, s)
   }"

definition input_ack :: "bool \<Rightarrow> nat \<Rightarrow> 'e clo_sys \<Rightarrow> 'e clo_sys run" where
  "input_ack change r s = do {
     c \<leftarrow> deref r s;
     if (change \<or> have_to_ack c \<noteq> 0) \<and> state c = state_established then do {
       (armed, s) \<leftarrow> timed_send_ack r s;
       if armed then with_clo r dec_have_to_ack s else Some s
     } else Some s
   }"

definition segment_input :: "'e clo_chan \<Rightarrow> 'e clo_high \<Rightarrow> t_low \<Rightarrow> 'e clo_sys \<Rightarrow> 'e clo_sys run" where
  "segment_input ch hi low s = do {
     let tid = util_low2tcpid low;
     f \<leftarrow> clo_mngt_find tid s;
     case f of
       None \<Rightarrow> do { (ins, s) \<leftarrow> non_existing_tcp_low_input hi tid low s; Some s }
     | Some r \<Rightarrow>
         if has (flags low) TH_RST then reset_rx_close_all ch r s
         else do {
           c \<leftarrow> deref r s;
           let (ok, inserted, c) = clo_mngt_low_input low c;
           let s = set_clo r c s;
           if \<not> ok then Some s
           else do {
             (ok, s) \<leftarrow> existing_tcp_low_input ch hi r low s;
             if \<not> ok then Some s
             else do {
               (change, s) \<leftarrow> (if inserted then input_inserted ch r s else Some (False, s));
               input_ack change r s
             }
           }
         }
   }"

definition clo_low_input :: "'e clo_chan \<Rightarrow> 'e clo_high \<Rightarrow> u8 list \<Rightarrow> 'e clo_sys \<Rightarrow> 'e clo_sys run" where
  "clo_low_input ch hi mac_data s = do {
     p \<leftarrow> tcp_packet2low mac_data;
     case p of None \<Rightarrow> Some s | Some low \<Rightarrow> segment_input ch hi low s
   }"

section \<open>The heartbeat\<close>

text \<open>The walks over the list of connections; the variable \<open>change\<close> of \<open>send_wnd_modif\<close> keeps its
  value from one connection to the next.\<close>

fun send_wnd_loop :: "'e clo_chan \<Rightarrow> bool \<Rightarrow> nat list \<Rightarrow> 'e clo_sys \<Rightarrow> 'e clo_sys run" where
  "send_wnd_loop ch change [] s = Some s"
| "send_wnd_loop ch change (r # rs) s = do {
     c \<leftarrow> deref r s;
     (change, s) \<leftarrow> (if loc_wnd c = 0 then do {
         let res = high_data_rx_possible ch (tcpid c) (env s);
         s \<leftarrow> (if res = -1 then break_of_com_kill_both_sides r s else Some s);
         if res = 1 then (let (change, c) = clo_mngt_adjust_loc_wnd TCP_WND c in Some (change, set_clo r c s))
         else Some (change, s)
       } else Some (change, s));
     c \<leftarrow> deref r s;
     s \<leftarrow> (if (change \<or> have_to_ack c \<noteq> 0) \<and> state c = state_established then do {
         s \<leftarrow> ackno_send r True s;
         with_clo r dec_have_to_ack s
       } else Some s);
     send_wnd_loop ch change rs s
   }"

definition send_wnd_modif :: "'e clo_chan \<Rightarrow> 'e clo_sys \<Rightarrow> 'e clo_sys run" where
  "send_wnd_modif ch s = send_wnd_loop ch False (head_clo s) s"

fun for_clos :: "(nat \<Rightarrow> 'e clo_sys \<Rightarrow> 'e clo_sys run) \<Rightarrow> nat list \<Rightarrow> 'e clo_sys \<Rightarrow> 'e clo_sys run" where
  "for_clos f [] s = Some s"
| "for_clos f (r # rs) s = do { s \<leftarrow> f r s; for_clos f rs s }"

definition receive_local_data :: "'e clo_chan \<Rightarrow> nat \<Rightarrow> 'e clo_sys \<Rightarrow> 'e clo_sys run" where
  "receive_local_data ch r s = do {
     c \<leftarrow> deref r s;
     if head_ldata c = [] then Some s
     else do {
       let res = high_data_rx_possible ch (tcpid c) (env s);
       s \<leftarrow> (if res = -1 then break_of_com_kill_both_sides r s else Some s);
       if res = 1 then deliver_rxdata ch r s else Some s
     }
   }"

definition receive_all_local_data :: "'e clo_chan \<Rightarrow> 'e clo_sys \<Rightarrow> 'e clo_sys run" where
  "receive_all_local_data ch s = for_clos (receive_local_data ch) (head_clo s) s"

definition send_data_to_send :: "nat \<Rightarrow> 'e clo_sys \<Rightarrow> 'e clo_sys run" where
  "send_data_to_send r s = do {
     c \<leftarrow> deref r s;
     if head_hdata c \<noteq> [] then try_send_data2low_timer r s else Some s
   }"

definition send_all_data_to_send :: "'e clo_sys \<Rightarrow> 'e clo_sys run" where
  "send_all_data_to_send s = for_clos send_data_to_send (head_clo s) s"

definition count_activity :: "t_clo \<Rightarrow> t_clo" where
  "count_activity c =
     (let c = c\<lparr>non_activ_count := i32 (non_activ_count c + 1)\<rparr> in
      if state c = state_first_syn_sent
      then c\<lparr>syn_sent_non_activ_count := i32 (syn_sent_non_activ_count c + 1)\<rparr>
      else c\<lparr>syn_sent_non_activ_count := 0\<rparr>)"

text \<open>The three tests of the source, each on the connection as it then is.\<close>

definition close_if :: "'e clo_chan \<Rightarrow> (t_clo \<Rightarrow> bool) \<Rightarrow> nat \<Rightarrow> 'e clo_sys \<Rightarrow> 'e clo_sys run" where
  "close_if ch P r s = do {
     c \<leftarrow> deref r s;
     if P c then do { (x, s) \<leftarrow> clo_high_close_tx ch (tcpid c) s; Some s } else Some s
   }"

definition non_activ_inc :: "'e clo_chan \<Rightarrow> nat \<Rightarrow> 'e clo_sys \<Rightarrow> 'e clo_sys run" where
  "non_activ_inc ch r s = do {
     s \<leftarrow> with_clo r count_activity s;
     s \<leftarrow> close_if ch (\<lambda>c. 500000 < non_activ_count c) r s;
     s \<leftarrow> close_if ch (\<lambda>c. 10 < syn_sent_non_activ_count c) r s;
     close_if ch (\<lambda>c. 10 < tx_repeat_failure_count c) r s
   }"

definition non_activ_count_inc :: "'e clo_chan \<Rightarrow> 'e clo_sys \<Rightarrow> 'e clo_sys run" where
  "non_activ_count_inc ch s = for_clos (non_activ_inc ch) (head_clo s) s"

definition clean_closed :: "nat \<Rightarrow> 'e clo_sys \<Rightarrow> 'e clo_sys run" where
  "clean_closed r s = do {
     c \<leftarrow> deref r s;
     if closed_state_count c = 0 then Some s
     else do {
       let s = set_clo r (c\<lparr>closed_state_count := closed_state_count c - 1\<rparr>) s;
       if closed_state_count c - 1 = 0 then do {
         (gone, s) \<leftarrow> clo_mngt_delete_tcp r s;
         if gone then Some s else async_for num_fct_high_close_rx_send_rst r s
       } else Some s
     }
   }"

definition clo_clean_closed :: "'e clo_sys \<Rightarrow> 'e clo_sys run" where
  "clo_clean_closed s = for_clos clean_closed (head_clo s) s"

definition clo_heartbeat_timer :: "'e clo_chan \<Rightarrow> 'e clo_sys \<Rightarrow> 'e clo_sys run" where
  "clo_heartbeat_timer ch s = do {
     let s = clo_mngt_timer s;
     s \<leftarrow> send_wnd_modif ch s;
     s \<leftarrow> receive_all_local_data ch s;
     s \<leftarrow> send_all_data_to_send s;
     s \<leftarrow> non_activ_count_inc ch s;
     clo_clean_closed s
   }"

definition clo_init :: "'e \<Rightarrow> 'e clo_sys" where
  "clo_init e = clo_mngt_init \<lparr>clos = (\<lambda>_. None), next_clo = 0, head_clo = [],
     g_head_fast_clo = (\<lambda>_. []), llid_to_clo = (\<lambda>_. None), id_tcpid_count = 0, identification = 0,
     iss = 0x100000, g_250ms_count = 0, g_tcp_max_size = 0, low_out = [], ack_timers = [],
     timeouts = [], env = e\<rparr>"

end
