(* ===== verification/Tcp_Safe.thy ===== *)
theory Tcp_Safe
  imports Tcp_Tables Tcp_Input
begin

text \<open>
  Every operation of the TCP stack returns and keeps the stack consistent: no object is used
  after it was freed, none of the internal checks ends the process, the tables agree, and the
  data in flight stays below a bound. \<open>W\<close> bounds the distance between \<open>send_unack\<close> and
  \<open>send_next\<close>; each FIN or SYN moves it by one.
\<close>

section \<open>The invariant\<close>

definition hd_ok :: "t_hdata \<Rightarrow> bool" where
  "hd_ok h \<longleftrightarrow> 0 < hd_len h \<and> hd_len h \<le> 1400 \<and> int (length (hd_data h)) = hd_len h"

definition in_flight :: "t_clo \<Rightarrow> int" where
  "in_flight c = uint (send_next c - send_unack c)"

text \<open>
  \<open>P\<close> are the local addresses that the layer above can deal with. A connection that we open has
  one of the ports that number the channels.
\<close>

definition local_addr :: "t_tcp_id \<Rightarrow> u8 list \<times> u32 \<times> u16" where
  "local_addr tid = (local_mac tid, local_ip tid, local_port tid)"

definition OFFSET_PORT :: int where "OFFSET_PORT = 30000"

definition our_port :: "t_tcp_id \<Rightarrow> bool" where
  "our_port tid \<longleftrightarrow> \<not> bad_llid (uint (local_port tid) - OFFSET_PORT)"

definition conn_ok :: "(u8 list \<times> u32 \<times> u16 \<Rightarrow> bool) \<Rightarrow> int \<Rightarrow> t_clo \<Rightarrow> bool" where
  "conn_ok P W c \<longleftrightarrow> state c \<noteq> state_idle \<and> P (local_addr (tcpid c)) \<and>
     (state c = state_first_syn_sent \<longrightarrow> our_port (tcpid c)) \<and> in_flight c \<le> W \<and> list_all hd_ok (head_hdata c) \<and>
     list_all (\<lambda>l. datalen l \<noteq> 0) (head_ldata c)"

definition stack_inv :: "(u8 list \<times> u32 \<times> u16 \<Rightarrow> bool) \<Rightarrow> int \<Rightarrow> 'e clo_sys \<Rightarrow> bool" where
  "stack_inv P W s \<longleftrightarrow> tables_inv s \<and> g_tcp_max_size s = 1400 \<and> (\<forall>r c. clos s r = Some c \<longrightarrow> conn_ok P W c)"

text \<open>An object whose count was set and has run down is never counted again.\<close>

definition stuck :: "t_clo \<Rightarrow> bool" where
  "stuck c \<longleftrightarrow> closed_state_count_initialised c \<noteq> 0 \<and> closed_state_count c = 0"

definition same_conn :: "t_clo \<Rightarrow> t_clo \<Rightarrow> bool" where
  "same_conn c d \<longleftrightarrow> conn_key (tcpid d) = conn_key (tcpid c) \<and> id_tcpid d = id_tcpid c \<and>
     (stuck c \<longrightarrow> stuck d)"

definition evolves :: "'e clo_sys \<Rightarrow> 'e clo_sys \<Rightarrow> bool" where
  "evolves s t \<longleftrightarrow> (\<forall>r c. clos s r = Some c \<longrightarrow> (\<exists>d. clos t r = Some d \<and> same_conn c d))"

lemma same_conn_refl [simp]: "same_conn c c"
  by (simp add: same_conn_def)

lemma same_conn_trans: "same_conn a b \<Longrightarrow> same_conn b c \<Longrightarrow> same_conn a c"
  by (simp add: same_conn_def)

lemma evolves_refl [simp]: "evolves s s"
  by (simp add: evolves_def)

lemma evolves_clos: "clos t = clos s \<Longrightarrow> evolves s t"
  by (simp add: evolves_def)

lemma evolves_trans: "evolves s t \<Longrightarrow> evolves t u \<Longrightarrow> evolves s u"
  unfolding evolves_def using same_conn_trans by blast

lemma evolves_live: "evolves s t \<Longrightarrow> clos s r = Some c \<Longrightarrow> \<exists>d. clos t r = Some d"
  unfolding evolves_def by blast

lemma conn_ok_mono: "conn_ok P W c \<Longrightarrow> W \<le> V \<Longrightarrow> conn_ok P V c"
  by (simp add: conn_ok_def)

lemma stack_inv_mono: "stack_inv P W s \<Longrightarrow> W \<le> V \<Longrightarrow> stack_inv P V s"
  unfolding stack_inv_def using conn_ok_mono by blast

lemma stack_inv_conn: "stack_inv P W s \<Longrightarrow> clos s r = Some c \<Longrightarrow> conn_ok P W c"
  by (simp add: stack_inv_def)

lemma stack_inv_cong:
  assumes "clos s = clos t" "head_clo s = head_clo t" "next_clo s = next_clo t"
    "g_head_fast_clo s = g_head_fast_clo t" "llid_to_clo s = llid_to_clo t"
    "g_tcp_max_size s = g_tcp_max_size t"
  shows "stack_inv P W s \<longleftrightarrow> stack_inv P W t"
proof -
  have "key_at s = key_at t" "llid_at s = llid_at t" using assms by (simp_all add: key_at_def llid_at_def fun_eq_iff)
  then show ?thesis using assms tables_inv_cong [of s t] by (simp add: stack_inv_def)
qed

lemma stack_inv_outside [simp]:
  "stack_inv P W (s\<lparr>low_out := o'\<rparr>) = stack_inv P W s" "stack_inv P W (s\<lparr>identification := i\<rparr>) = stack_inv P W s"
  "stack_inv P W (s\<lparr>timeouts := ts\<rparr>) = stack_inv P W s" "stack_inv P W (s\<lparr>ack_timers := at\<rparr>) = stack_inv P W s"
  "stack_inv P W (s\<lparr>env := e\<rparr>) = stack_inv P W s" "stack_inv P W (s\<lparr>g_250ms_count := n\<rparr>) = stack_inv P W s"
  "stack_inv P W (s\<lparr>iss := n'\<rparr>) = stack_inv P W s"
  by (rule stack_inv_cong; simp)+

lemma stack_inv_set_clo:
  assumes "stack_inv P W s" and "clos s r = Some c" and "conn_key (tcpid d) = conn_key (tcpid c)"
    and "llid (tcpid d) = llid (tcpid c)" and "conn_ok P W d"
  shows "stack_inv P W (set_clo r d s)"
  using assms set_clo_tables [of s r c d] by (auto simp: stack_inv_def)

lemma evolves_set_clo: "clos s r = Some c \<Longrightarrow> same_conn c d \<Longrightarrow> evolves s (set_clo r d s)"
  by (simp add: evolves_def)

section \<open>Calls that return a consistent stack\<close>

definition ok :: "(u8 list \<times> u32 \<times> u16 \<Rightarrow> bool) \<Rightarrow> int \<Rightarrow> 'e clo_sys \<Rightarrow> 'e clo_sys run \<Rightarrow> bool" where
  "ok P W s m \<longleftrightarrow> (\<exists>t. m = Some t \<and> stack_inv P W t \<and> evolves s t)"

definition okv :: "(u8 list \<times> u32 \<times> u16 \<Rightarrow> bool) \<Rightarrow> int \<Rightarrow> 'e clo_sys \<Rightarrow> ('a \<times> 'e clo_sys) run \<Rightarrow> bool" where
  "okv P W s m \<longleftrightarrow> (\<exists>x t. m = Some (x, t) \<and> stack_inv P W t \<and> evolves s t)"

lemma ok_some [intro]: "stack_inv P W t \<Longrightarrow> evolves s t \<Longrightarrow> ok P W s (Some t)"
  by (simp add: ok_def)

lemma okv_some [intro]: "stack_inv P W t \<Longrightarrow> evolves s t \<Longrightarrow> okv P W s (Some (x, t))"
  by (simp add: okv_def)

lemma ok_bind:
  "ok P V s m \<Longrightarrow> (\<And>t. stack_inv P V t \<Longrightarrow> evolves s t \<Longrightarrow> ok P W t (f t)) \<Longrightarrow> ok P W s (m \<bind> f)"
  unfolding ok_def using evolves_trans by fastforce

lemma ok_bind_okv:
  "okv P V s m \<Longrightarrow> (\<And>x t. stack_inv P V t \<Longrightarrow> evolves s t \<Longrightarrow> ok P W t (f (x, t))) \<Longrightarrow> ok P W s (m \<bind> f)"
  unfolding ok_def okv_def using evolves_trans by fastforce

lemma okv_bind:
  "ok P V s m \<Longrightarrow> (\<And>t. stack_inv P V t \<Longrightarrow> evolves s t \<Longrightarrow> okv P W t (f t)) \<Longrightarrow> okv P W s (m \<bind> f)"
  unfolding ok_def okv_def using evolves_trans by fastforce

lemma okv_bind_okv:
  "okv P V s m \<Longrightarrow> (\<And>x t. stack_inv P V t \<Longrightarrow> evolves s t \<Longrightarrow> okv P W t (f (x, t))) \<Longrightarrow> okv P W s (m \<bind> f)"
  unfolding okv_def using evolves_trans by fastforce

lemma ok_deref: "clos s r = Some c \<Longrightarrow> ok P W s (f c) \<Longrightarrow> ok P W s (deref r s \<bind> f)"
  by (simp add: deref_def)

lemma okv_deref: "clos s r = Some c \<Longrightarrow> okv P W s (f c) \<Longrightarrow> okv P W s (deref r s \<bind> f)"
  by (simp add: deref_def)

lemma ok_from: "ok P W t m \<Longrightarrow> evolves s t \<Longrightarrow> ok P W s m"
  unfolding ok_def using evolves_trans by blast

lemma okv_from: "okv P W t m \<Longrightarrow> evolves s t \<Longrightarrow> okv P W s m"
  unfolding okv_def using evolves_trans by blast

lemma ok_mono: "ok P W s m \<Longrightarrow> W \<le> V \<Longrightarrow> ok P V s m"
  unfolding ok_def using stack_inv_mono by blast

lemma okv_mono: "okv P W s m \<Longrightarrow> W \<le> V \<Longrightarrow> okv P V s m"
  unfolding okv_def using stack_inv_mono by blast

lemma ok_with_clo:
  assumes "stack_inv P V s" and "clos s r = Some c" and "V \<le> W" and "conn_ok P W (f c)"
    and "conn_key (tcpid (f c)) = conn_key (tcpid c)" and "llid (tcpid (f c)) = llid (tcpid c)"
    and "id_tcpid (f c) = id_tcpid c" and "stuck c \<Longrightarrow> stuck (f c)"
  shows "ok P W s (with_clo r f s)"
  using assms stack_inv_set_clo [OF stack_inv_mono [OF assms(1,3)] assms(2), of "f c"]
    evolves_set_clo [OF assms(2), of "f c"]
  by (simp add: ok_def with_clo_def deref_def same_conn_def)

section \<open>Looking up and sending\<close>

lemma find_conn:
  assumes "stack_inv P W s"
  obtains (none) "clo_mngt_find tid s = Some None" and "\<forall>r. key_at s r \<noteq> Some (conn_key tid)"
    | (one) r c where "clo_mngt_find tid s = Some (Some r)" and "clos s r = Some c"
        and "conn_key (tcpid c) = conn_key tid"
proof -
  have "tables_inv s" using assms by (simp add: stack_inv_def)
  from fast_get_cases [OF this, of tid] none one show thesis
    unfolding clo_mngt_find_def util_get_fast_clo_def key_at_def by auto
qed

lemma send_seg_frame [simp]:
  "clos (send_seg tid a q w fl n d s) = clos s" "env (send_seg tid a q w fl n d s) = env s"
  "g_250ms_count (send_seg tid a q w fl n d s) = g_250ms_count s"
  "g_tcp_max_size (send_seg tid a q w fl n d s) = g_tcp_max_size s"
  "timeouts (send_seg tid a q w fl n d s) = timeouts s" "head_clo (send_seg tid a q w fl n d s) = head_clo s"
  "stack_inv P W (send_seg tid a q w fl n d s) = stack_inv P W s"
  by (simp_all add: send_seg_def split_beta)

lemmas util_sends = util_send_reset_def util_send_syn_def util_send_ack_def util_send_synack_def
  util_send_finack_def util_send_fin_def util_send_data_def

lemma evolves_quiet [simp]:
  "evolves s (send_seg tid a q w fl n d s)" "evolves s (s\<lparr>timeouts := ts\<rparr>)" "evolves s (s\<lparr>env := e\<rparr>)"
  "evolves s (s\<lparr>ack_timers := at\<rparr>)"
  by (simp_all add: evolves_clos)

lemma conn_ok_frame [simp]:
  "conn_ok P W (c\<lparr>ackno_sent := a\<rparr>) = conn_ok P W c" "conn_ok P W (c\<lparr>send_ack_active := n\<rparr>) = conn_ok P W c"
  "conn_ok P W (c\<lparr>have_to_ack := n\<rparr>) = conn_ok P W c" "conn_ok P W (c\<lparr>loc_wnd := w\<rparr>) = conn_ok P W c"
  "conn_ok P W (c\<lparr>has_been_closed_from_outside_socket := n\<rparr>) = conn_ok P W c"
  "conn_ok P W (c\<lparr>non_activ_count := n\<rparr>) = conn_ok P W c"
  "conn_ok P W (c\<lparr>syn_sent_non_activ_count := n\<rparr>) = conn_ok P W c"
  "conn_ok P W (c\<lparr>closed_state_count := n\<rparr>) = conn_ok P W c"
  "conn_ok P W (c\<lparr>closed_state_count_initialised := n\<rparr>) = conn_ok P W c"
  "conn_ok P W (c\<lparr>closed_state_count_line := n\<rparr>) = conn_ok P W c"
  "conn_ok P W (c\<lparr>dist_wnd := w\<rparr>) = conn_ok P W c" "conn_ok P W (c\<lparr>recv_next := q\<rparr>) = conn_ok P W c"
  "conn_ok P W (set_llid l c) = conn_ok P W c"
  by (simp_all add: conn_ok_def in_flight_def set_llid_def local_addr_def our_port_def)

lemma stuck_frame [simp]:
  "stuck (c\<lparr>ackno_sent := a\<rparr>) = stuck c" "stuck (c\<lparr>send_ack_active := n\<rparr>) = stuck c"
  "stuck (c\<lparr>have_to_ack := n\<rparr>) = stuck c" "stuck (c\<lparr>loc_wnd := w\<rparr>) = stuck c"
  "stuck (c\<lparr>has_been_closed_from_outside_socket := n\<rparr>) = stuck c"
  "stuck (c\<lparr>head_ldata := ls\<rparr>) = stuck c" "stuck (c\<lparr>head_hdata := hs\<rparr>) = stuck c"
  "stuck (c\<lparr>send_next := q\<rparr>) = stuck c" "stuck (c\<lparr>send_unack := q\<rparr>) = stuck c"
  "stuck (c\<lparr>state := st\<rparr>) = stuck c" "stuck (c\<lparr>tcpid := tid\<rparr>) = stuck c"
  "stuck (c\<lparr>non_activ_count := n\<rparr>) = stuck c" "stuck (c\<lparr>syn_sent_non_activ_count := n\<rparr>) = stuck c"
  "stuck (c\<lparr>tx_repeat_failure_count := n\<rparr>) = stuck c"
  "stuck (c\<lparr>dist_wnd := w\<rparr>) = stuck c" "stuck (c\<lparr>recv_next := q\<rparr>) = stuck c"
  by (simp_all add: stuck_def)

lemma ok_send: "ok P W (send_seg tid a q w fl n d s) m \<Longrightarrow> ok P W s m"
  using evolves_quiet(1) by (rule ok_from [rotated])

lemma okv_send: "okv P W (send_seg tid a q w fl n d s) m \<Longrightarrow> okv P W s m"
  using evolves_quiet(1) by (rule okv_from [rotated])

lemma ok_set_clo:
  assumes "stack_inv P W t" and "clos t r = Some c" and "conn_ok P W d"
    and "conn_key (tcpid d) = conn_key (tcpid c)" and "llid (tcpid d) = llid (tcpid c)"
    and "id_tcpid d = id_tcpid c" and "stuck c \<Longrightarrow> stuck d"
  shows "ok P W t (Some (set_clo r d t))" and "okv P W t (Some (x, set_clo r d t))"
  using stack_inv_set_clo [OF assms(1,2,4,5,3)] evolves_set_clo [OF assms(2), of d] assms
  by (simp_all add: ok_def okv_def same_conn_def)

section \<open>The operations on one connection\<close>

lemma ackno_send_ok:
  assumes "stack_inv P W s" and "clos s r = Some c"
  shows "ok P W s (ackno_send r force s)"
proof -
  have "ok P W s (with_clo r (\<lambda>c. c\<lparr>ackno_sent := recv_next c\<rparr>) (send_seg t a q w fl n d s))" for t a q w fl n d
    by (rule ok_send [OF ok_with_clo [of P W _ r c]]) (use assms stack_inv_conn in auto)
  with assms show ?thesis by (auto simp: ackno_send_def deref_def util_sends)
qed

lemma timed_send_ack_ok:
  assumes "stack_inv P W s" and "clos s r = Some c"
  shows "okv P W s (timed_send_ack r s)"
proof -
  let ?s = "s\<lparr>ack_timers := ack_timers s @ [tcpid c]\<rparr>"
  have "okv P W ?s (Some (True, set_clo r (c\<lparr>send_ack_active := 1\<rparr>) ?s))"
    by (rule ok_set_clo(2) [of _ _ _ _ c]) (use assms stack_inv_conn in auto)
  from okv_from [OF this evolves_quiet(4)] have
    "okv P W s (Some (True, set_clo r (c\<lparr>send_ack_active := 1\<rparr>) ?s))" .
  with assms show ?thesis
    by (auto simp: timed_send_ack_def deref_def)
qed

lemma dec_have_to_ack_ok: "stack_inv P W s \<Longrightarrow> clos s r = Some c \<Longrightarrow> ok P W s (with_clo r dec_have_to_ack s)"
  by (rule ok_with_clo [of P W _ _ c]) (auto simp: dec_have_to_ack_def stack_inv_conn)

lemma send_ack_cb_ok:
  assumes "stack_inv P W s"
  shows "ok P W s (send_ack_cb tid s)"
  using assms
proof (cases rule: find_conn [where tid = tid])
  case none
  with assms show ?thesis by (auto simp: send_ack_cb_def clo_mngt_find_def)
next
  case (one r c)
  have "ok P W s (ackno_send r False s \<bind> with_clo r (\<lambda>c. c\<lparr>send_ack_active := 0\<rparr>))"
  proof (rule ok_bind [OF ackno_send_ok [OF assms one(2)]])
    fix t assume t: "stack_inv P W t" "evolves s t"
    then obtain d where "clos t r = Some d" using evolves_live one(2) by blast
    with t show "ok P W t (with_clo r (\<lambda>c. c\<lparr>send_ack_active := 0\<rparr>) t)"
      by (intro ok_with_clo [of P W _ _ d]) (auto simp: stack_inv_conn)
  qed
  with one show ?thesis by (simp add: send_ack_cb_def clo_mngt_find_def)
qed

lemma in_flight_range: "0 \<le> in_flight c \<and> in_flight c < 2 ^ 32"
  using uint_lt2p [of "send_next c - send_unack c"] by (simp add: in_flight_def)

lemma in_flight_add:
  assumes "0 \<le> n" and "in_flight c + n < 2 ^ 32"
  shows "in_flight (c\<lparr>send_next := send_next c + word_of_int n\<rparr>) = in_flight c + n"
proof -
  have "uint (send_next c - send_unack c + word_of_int n) = (in_flight c + n) mod 2 ^ 32"
    unfolding in_flight_def uint_word_ariths uint_word_of_int by (simp add: mod_simps)
  also have "\<dots> = in_flight c + n" using assms in_flight_range [of c] by simp
  finally show ?thesis by (simp add: in_flight_def algebra_simps)
qed

lemma conn_ok_move:
  assumes "conn_ok P W c" and "0 \<le> n" and "in_flight c + n \<le> V" and "V < 2 ^ 32"
  shows "conn_ok P V (c\<lparr>send_next := send_next c + word_of_int n\<rparr>)"
  using assms in_flight_add [of n c] by (simp add: conn_ok_def)

lemma conn_ok_state: "conn_ok P W c \<Longrightarrow> st \<noteq> state_idle \<Longrightarrow>
    (st = state_first_syn_sent \<longrightarrow> our_port (tcpid c)) \<Longrightarrow> conn_ok P W (c\<lparr>state := st\<rparr>)"
  by (simp add: conn_ok_def in_flight_def)

lemma conn_ok_le: "conn_ok P W c \<Longrightarrow> in_flight c \<le> W"
  by (simp add: conn_ok_def)

text \<open>A SYN or FIN moves \<open>send_next\<close> by one.\<close>

lemma move_one_ok:
  assumes "stack_inv P W s" and "clos s r = Some c" and "W + 1 < 2 ^ 32" and "st \<noteq> state_idle"
    and "st = state_first_syn_sent \<longrightarrow> our_port (tcpid c)"
  shows "ok P (W + 1) s (clo_mngt_adjust_send_next (send_next c) 1 c \<bind>
     (\<lambda>c'. Some (set_clo r (clo_mngt_set_state st c') (send_seg t a q w fl n d s))))"
proof -
  let ?d = "clo_mngt_set_state st (c\<lparr>send_next := send_next c + word_of_int 1\<rparr>)"
  have "conn_ok P W c" using assms(1,2) by (rule stack_inv_conn)
  then have "conn_ok P (W + 1) ?d"
    unfolding clo_mngt_set_state_def
    by (intro conn_ok_state conn_ok_move) (use conn_ok_le assms in auto)
  moreover have "stack_inv P (W + 1) s" using stack_inv_mono [OF assms(1)] by simp
  ultimately have "ok P (W + 1) (send_seg t a q w fl n d s) (Some (set_clo r ?d (send_seg t a q w fl n d s)))"
    by (intro ok_set_clo(1) [of _ _ _ _ c]) (use assms in \<open>auto simp: clo_mngt_set_state_def\<close>)
  then have "ok P (W + 1) s (Some (set_clo r ?d (send_seg t a q w fl n d s)))" by (rule ok_send)
  then show ?thesis by (simp add: clo_mngt_adjust_send_next_def kout_if_bind)
qed

lemma send_finack_and_move_ok:
  assumes "stack_inv P W s" and "clos s r = Some c" and "W + 1 < 2 ^ 32" and "st \<noteq> state_idle"
    and "st = state_first_syn_sent \<longrightarrow> our_port (tcpid c)"
  shows "ok P (W + 1) s (send_finack_and_move r st s)"
  using move_one_ok [OF assms] assms by (simp add: send_finack_and_move_def deref_def util_sends Let_def)

lemma local_send_finack_state_fin_ok:
  assumes "stack_inv P W s" and "clos s r = Some c" and "W + 1 < 2 ^ 32"
  shows "ok P (W + 1) s (local_send_finack_state_fin r s)"
  using send_finack_and_move_ok [OF assms, of state_fin_wait1] assms stack_inv_mono [OF assms(1), of "W + 1"]
  by (auto simp: local_send_finack_state_fin_def deref_def)

lemma init_closed_frame [simp]:
  "conn_ok P W (init_closed_state_count_if_not_done v l c) = conn_ok P W c"
  "tcpid (init_closed_state_count_if_not_done v l c) = tcpid c"
  "id_tcpid (init_closed_state_count_if_not_done v l c) = id_tcpid c"
  by (simp_all add: init_closed_state_count_if_not_done_def)

lemma init_closed_stuck: "stuck c \<Longrightarrow> stuck (init_closed_state_count_if_not_done v l c)"
  by (simp add: init_closed_state_count_if_not_done_def stuck_def)

lemma conn_ok_set_state [simp]: "conn_ok P W c \<Longrightarrow> st \<noteq> state_idle \<Longrightarrow> st \<noteq> state_first_syn_sent \<Longrightarrow> conn_ok P W (clo_mngt_set_state st c)"
  by (simp add: clo_mngt_set_state_def conn_ok_state)

lemma conn_ok_purge [simp]: "conn_ok P W c \<Longrightarrow> conn_ok P W (util_silent_purge_hdata_and_ldata c)"
  by (simp add: util_silent_purge_hdata_and_ldata_def conn_ok_def in_flight_def)

lemma closing_frame [simp]:
  "tcpid (clo_mngt_set_state st c) = tcpid c" "id_tcpid (clo_mngt_set_state st c) = id_tcpid c"
  "stuck (clo_mngt_set_state st c) = stuck c"
  "tcpid (util_silent_purge_hdata_and_ldata c) = tcpid c"
  "id_tcpid (util_silent_purge_hdata_and_ldata c) = id_tcpid c"
  "stuck (util_silent_purge_hdata_and_ldata c) = stuck c"
  by (simp_all add: clo_mngt_set_state_def util_silent_purge_hdata_and_ldata_def)

lemma close_conn_ok:
  assumes "stack_inv P W s" and "clos s r = Some c"
  shows "ok P W s (with_clo r (\<lambda>c. init_closed_state_count_if_not_done v l (clo_mngt_set_state state_closed c)) s)"
    and "ok P W s (with_clo r (\<lambda>c. init_closed_state_count_if_not_done v l
           (util_silent_purge_hdata_and_ldata (clo_mngt_set_state state_closed c))) s)"
    and "ok P W s (with_clo r (init_closed_state_count_if_not_done v l) s)"
    and "st \<noteq> state_idle \<Longrightarrow> st \<noteq> state_first_syn_sent \<Longrightarrow> ok P W s (with_clo r (clo_mngt_set_state st) s)"
  using assms stack_inv_conn [OF assms]
  by - (rule ok_with_clo [of P W _ _ c]; simp add: init_closed_stuck)+

lemma send_reset_state_closed_ok:
  assumes "stack_inv P W s" and "clos s r = Some c"
  shows "ok P W s (send_reset_state_closed r line s)"
proof -
  have "ok P W s (with_clo r (\<lambda>c. init_closed_state_count_if_not_done 20 line
      (clo_mngt_set_state state_closed c)) (send_seg t a q w fl n d s))" for t a q w fl n d
    by (rule ok_send [OF close_conn_ok(1) [of P W _ r c]]) (use assms in auto)
  with assms show ?thesis by (simp add: send_reset_state_closed_def deref_def util_sends)
qed

section \<open>Sending data\<close>

lemma signed_small: "0 \<le> x \<Longrightarrow> x < 2 ^ 30 \<Longrightarrow> signed_take_bit 31 x = x" for x :: int
  by (intro signed_take_bit_int_eq_self) auto

lemma authorised_returns:
  assumes "conn_ok P W c" and "W < 2 ^ 30"
  shows "clo_mngt_authorised_to_send_nexttx 1400 c = Some (in_flight c + 1401 < uint (dist_wnd c))"
proof -
  have b: "0 \<le> in_flight c" "in_flight c < 2 ^ 30" using in_flight_range [of c] conn_ok_le [OF assms(1)] assms(2) by auto
  then have "signed_take_bit 31 (uint (send_next c - send_unack c)) = uint (send_next c - send_unack c)"
    unfolding in_flight_def by (rule signed_small)
  then have "sint (send_next c - send_unack c) = in_flight c" by (simp add: sint_uint in_flight_def)
  with b show ?thesis by (simp add: clo_mngt_authorised_to_send_nexttx_def Let_def kout_if_bind i32_id)
qed

text \<open>What sending the block at position \<open>k\<close> does to the connection.\<close>

definition sent_block :: "u32 \<Rightarrow> nat \<Rightarrow> bool \<Rightarrow> t_clo \<Rightarrow> t_clo" where
  "sent_block now k adjust c =
     (let h = head_hdata c ! k;
          sq = (if count_250ms h = 0 then send_next c else hd_seqno h);
          h' = h\<lparr>hd_seqno := sq, count_250ms := now, count_tries_tx := i32 (count_tries_tx h + 1)\<rparr> in
      dec_have_to_ack (c\<lparr>head_hdata := (head_hdata c)[k := h'],
        tx_repeat_failure_count := max (tx_repeat_failure_count c) (count_tries_tx h'),
        non_activ_count := 0,
        send_next := (if adjust then send_next c + word_of_int (hd_len h) else send_next c),
        ackno_sent := recv_next c\<rparr>))"

lemma local_send_data_to_low_eq:
  assumes "clos s r = Some c" and "state c = state_established" and "k < length (head_hdata c)"
    and "hd_ok (head_hdata c ! k)" and "adjust \<longrightarrow> count_250ms (head_hdata c ! k) = 0"
  shows "local_send_data_to_low r k adjust s = Some (set_clo r (sent_block (g_250ms_count s) k adjust c)
     (util_send_data (tcpid c) (recv_next c)
        (if count_250ms (head_hdata c ! k) = 0 then send_next c else hd_seqno (head_hdata c ! k)) (loc_wnd c)
        (hd_len (head_hdata c ! k)) (hd_data (head_hdata c ! k)) s))"
proof -
  have "hd_len (head_hdata c ! k) \<noteq> 0" "take (nat (hd_len (head_hdata c ! k))) (hd_data (head_hdata c ! k)) =
      hd_data (head_hdata c ! k)"
    using assms(4) by (auto simp: hd_ok_def)
  then show ?thesis
    using assms by (auto simp: local_send_data_to_low_def deref_def clo_mngt_get_txdata_def kout_if_bind
        Let_def sent_block_def clo_mngt_adjust_send_next_def)
qed

lemma sent_block_frame [simp]:
  "tcpid (sent_block n k a c) = tcpid c" "id_tcpid (sent_block n k a c) = id_tcpid c"
  "state (sent_block n k a c) = state c" "send_unack (sent_block n k a c) = send_unack c"
  "head_ldata (sent_block n k a c) = head_ldata c" "stuck (sent_block n k a c) = stuck c"
  "dist_wnd (sent_block n k a c) = dist_wnd c" "recv_next (sent_block n k a c) = recv_next c"
  "length (head_hdata (sent_block n k a c)) = length (head_hdata c)"
  by (simp_all add: sent_block_def Let_def dec_have_to_ack_def stuck_def)

lemma hd_ok_sent [simp]:
  "hd_ok (h\<lparr>hd_seqno := q, count_250ms := n, count_tries_tx := m\<rparr>) = hd_ok h"
  by (simp add: hd_ok_def)

lemma sent_block_hdata:
  "head_hdata (sent_block n k a c) = (head_hdata c)[k := (head_hdata c ! k)\<lparr>
     hd_seqno := (if count_250ms (head_hdata c ! k) = 0 then send_next c else hd_seqno (head_hdata c ! k)),
     count_250ms := n, count_tries_tx := i32 (count_tries_tx (head_hdata c ! k) + 1)\<rparr>]"
  by (simp add: sent_block_def Let_def dec_have_to_ack_def)

lemma sent_block_send_next:
  "send_next (sent_block n k a c) =
     (if a then send_next c + word_of_int (hd_len (head_hdata c ! k)) else send_next c)"
  by (simp add: sent_block_def Let_def dec_have_to_ack_def)

lemma sent_block_ok:
  assumes c: "conn_ok P W c" and k: "k < length (head_hdata c)" and W: "65535 \<le> W" "W < 2 ^ 30"
    and a: "a \<Longrightarrow> in_flight c + 1401 < uint (dist_wnd c)"
  shows "conn_ok P W (sent_block n k a c)"
proof -
  have h: "hd_ok (head_hdata c ! k)" using c k by (simp add: conn_ok_def list_all_length)
  have hs: "list_all hd_ok (head_hdata (sent_block n k a c))"
    using c h k by (auto simp: sent_block_hdata conn_ok_def list_all_length nth_list_update hd_ok_def)
  have "in_flight (sent_block n k a c) \<le> W"
  proof (cases a)
    case False
    then show ?thesis using conn_ok_le [OF c] by (simp add: in_flight_def sent_block_send_next)
  next
    case True
    have "uint (dist_wnd c) < 65536" using uint_lt2p [of "dist_wnd c"] by simp
    then have l: "in_flight c + hd_len (head_hdata c ! k) < 65535" "0 \<le> hd_len (head_hdata c ! k)"
      using a [OF True] h by (auto simp: hd_ok_def)
    then have "in_flight (c\<lparr>send_next := send_next c + word_of_int (hd_len (head_hdata c ! k))\<rparr>) =
        in_flight c + hd_len (head_hdata c ! k)"
      using in_flight_add [of "hd_len (head_hdata c ! k)" c] by simp
    with l W True show ?thesis by (simp add: in_flight_def sent_block_send_next)
  qed
  with c hs show ?thesis by (simp add: conn_ok_def)
qed

lemma local_send_data_to_low_ok:
  assumes s: "stack_inv P W s" and c: "clos s r = Some c" and k: "k < length (head_hdata c)"
    and W: "65535 \<le> W" "W < 2 ^ 30"
    and a: "a \<Longrightarrow> count_250ms (head_hdata c ! k) = 0 \<and> in_flight c + 1401 < uint (dist_wnd c)"
  shows "\<exists>t d. local_send_data_to_low r k a s = Some t \<and> stack_inv P W t \<and> evolves s t \<and>
     clos t r = Some d \<and> length (head_hdata d) = length (head_hdata c)"
proof (cases "state c = state_established")
  case False
  then have "local_send_data_to_low r k a s = Some s" by (simp add: local_send_data_to_low_def deref_def c)
  with s c show ?thesis by (intro exI [of _ s] exI [of _ c]) simp
next
  case True
  have ck: "conn_ok P W c" using s c by (rule stack_inv_conn)
  then have h: "hd_ok (head_hdata c ! k)" using k by (simp add: conn_ok_def list_all_length)
  have d: "conn_ok P W (sent_block (g_250ms_count s) k a c)"
    using sent_block_ok [OF ck k W] a by blast
  define u where "u = util_send_data (tcpid c) (recv_next c)
        (if count_250ms (head_hdata c ! k) = 0 then send_next c else hd_seqno (head_hdata c ! k)) (loc_wnd c)
        (hd_len (head_hdata c ! k)) (hd_data (head_hdata c ! k)) s"
  have u: "stack_inv P W u" "clos u r = Some c" "evolves s u" using s c by (simp_all add: u_def util_sends)
  have "stack_inv P W (set_clo r (sent_block (g_250ms_count s) k a c) u)"
    by (rule stack_inv_set_clo [OF u(1,2)]) (simp_all add: d)
  moreover have "evolves u (set_clo r (sent_block (g_250ms_count s) k a c) u)"
    by (rule evolves_set_clo [OF u(2)]) (simp add: same_conn_def)
  moreover have "local_send_data_to_low r k a s = Some (set_clo r (sent_block (g_250ms_count s) k a c) u)"
    unfolding u_def using local_send_data_to_low_eq [OF c True k h] a by blast
  ultimately show ?thesis using evolves_trans [OF u(3)] by (intro exI) auto
qed

lemma send_timer_loop_ok:
  assumes "stack_inv P W s" and "clos s r = Some c" and "\<forall>k \<in> set ks. k < length (head_hdata c)"
    and W: "65535 \<le> W" "W < 2 ^ 30"
  shows "ok P W s (send_timer_loop ks r s)"
  using assms(1-3)
proof (induction ks arbitrary: s c)
  case Nil
  then show ?case by auto
next
  case (Cons k ks)
  have g: "g_tcp_max_size s = 1400" using Cons.prems(1) by (simp add: stack_inv_def)
  have auth: "clo_mngt_authorised_to_send_nexttx 1400 c = Some (in_flight c + 1401 < uint (dist_wnd c))"
    using authorised_returns [OF stack_inv_conn [OF Cons.prems(1,2)] W(2)] .
  have rest: "ok P W s (send_timer_loop ks r s)" using Cons by simp
  have send: "ok P W s (local_send_data_to_low r k a s \<bind> send_timer_loop ks r)"
    if hyp: "a \<Longrightarrow> count_250ms (head_hdata c ! k) = 0 \<and> in_flight c + 1401 < uint (dist_wnd c)" for a
  proof -
    obtain t d where t: "local_send_data_to_low r k a s = Some t" "stack_inv P W t" "evolves s t"
      "clos t r = Some d" "length (head_hdata d) = length (head_hdata c)"
      using local_send_data_to_low_ok [OF Cons.prems(1,2) _ W, of k a] hyp Cons.prems(3) by auto
    with Cons.IH [OF t(2,4)] Cons.prems(3) have "ok P W t (send_timer_loop ks r t)" by simp
    with t show ?thesis by (simp add: ok_from)
  qed
  show ?case
    using rest send [of False] send [of True] Cons.prems(2)
    by (auto simp: deref_def Let_def g auth)
qed

lemma send_loop_ok:
  assumes "stack_inv P W s" and "clos s r = Some c" and "\<forall>k \<in> set ks. k < length (head_hdata c)"
    and W: "65535 \<le> W" "W < 2 ^ 30"
  shows "ok P W s (send_loop ks r s)"
  using assms(1-3)
proof (induction ks arbitrary: s c)
  case Nil
  then show ?case by auto
next
  case (Cons k ks)
  have g: "g_tcp_max_size s = 1400" using Cons.prems(1) by (simp add: stack_inv_def)
  have auth: "clo_mngt_authorised_to_send_nexttx 1400 c = Some (in_flight c + 1401 < uint (dist_wnd c))"
    using authorised_returns [OF stack_inv_conn [OF Cons.prems(1,2)] W(2)] .
  have rest: "ok P W s (send_loop ks r s)" using Cons by simp
  have send: "ok P W s (local_send_data_to_low r k True s \<bind> send_loop ks r)"
    if hyp: "count_250ms (head_hdata c ! k) = 0 \<and> in_flight c + 1401 < uint (dist_wnd c)"
  proof -
    obtain t d where t: "local_send_data_to_low r k True s = Some t" "stack_inv P W t" "evolves s t"
      "clos t r = Some d" "length (head_hdata d) = length (head_hdata c)"
      using local_send_data_to_low_ok [OF Cons.prems(1,2) _ W, of k True] hyp Cons.prems(3) by auto
    with Cons.IH [OF t(2,4)] Cons.prems(3) have "ok P W t (send_loop ks r t)" by simp
    with t show ?thesis by (simp add: ok_from)
  qed
  show ?case
    using rest send Cons.prems(1,2) by (auto simp: deref_def g auth)
qed

lemma try_send_ok:
  assumes "stack_inv P W s" and "clos s r = Some c" and "65535 \<le> W" "W < 2 ^ 30"
  shows "ok P W s (try_send_data2low_timer r s)" and "ok P W s (try_send_data2low r s)"
  using send_timer_loop_ok [OF assms(1,2) _ assms(3,4), of "[0..<length (head_hdata c)]"]
    send_loop_ok [OF assms(1,2) _ assms(3,4), of "[0..<length (head_hdata c)]"] assms(2)
  by (simp_all add: try_send_data2low_timer_def try_send_data2low_def deref_def)

section \<open>Data from above\<close>

lemma high_input_loop_ok:
  assumes "list_all hd_ok head"
  shows "\<exists>h. high_input_loop 1400 data head = Some h \<and> list_all hd_ok h"
  using assms
proof (induction "length data" arbitrary: data head rule: less_induct)
  case less
  show ?case
  proof (cases "data = []")
    case True
    with less.prems show ?thesis by (simp add: high_input_loop.simps)
  next
    case False
    let ?b = "util_insert_hdata head 1400 (int (length (take (nat 1400) data))) (take (nat 1400) data)"
    have "list_all hd_ok ?b"
      using less.prems False by (simp add: util_insert_hdata_def hd_ok_def)
    moreover have "length (drop (nat 1400) data) < length data" using False by simp
    ultimately have "\<exists>h. high_input_loop 1400 (drop (nat 1400) data) ?b = Some h \<and> list_all hd_ok h"
      by (intro less.hyps)
    then show ?thesis using False by (subst high_input_loop.simps) simp
  qed
qed

lemma clo_high_data_tx_ok:
  assumes s: "stack_inv P W s" and W: "65535 \<le> W" "W < 2 ^ 30"
    and live: "\<exists>r. key_at s r = Some (conn_key tid)"
  shows "okv P W s (clo_high_data_tx tid data s)"
  using s
proof (cases rule: find_conn [where tid = tid])
  case none
  with live show ?thesis by simp
next
  case (one r c)
  have g: "g_tcp_max_size s = 1400" and ck: "conn_ok P W c"
    using s one by (simp_all add: stack_inv_def)
  then obtain h where h: "high_input_loop 1400 data (head_hdata c) = Some h" "list_all hd_ok h"
    using high_input_loop_ok by (auto simp: conn_ok_def)
  define d where "d = c\<lparr>head_hdata := h\<rparr>"
  have dk: "conn_ok P W d" using ck h by (simp add: d_def conn_ok_def in_flight_def)
  have t: "stack_inv P W (set_clo r d s)" "evolves s (set_clo r d s)"
    using stack_inv_set_clo [OF s one(2), of d] evolves_set_clo [OF one(2), of d] dk
    by (simp_all add: d_def same_conn_def)
  have "okv P W (set_clo r d s) (try_send_data2low r (set_clo r d s) \<bind> (\<lambda>s. Some (error_none, s)))"
    by (rule okv_bind [OF try_send_ok(2) [OF t(1) _ W]]) auto
  then have send: "okv P W s (try_send_data2low r (set_clo r d s) \<bind> (\<lambda>s. Some (error_none, s)))"
    by (rule okv_from) (rule t(2))
  show ?thesis
    using one(1) s t send authorised_returns [OF dk W(2)]
    by (auto simp: clo_high_data_tx_def kout_if_bind deref_def one(2) g clo_mngt_high_input_def h(1)
        d_def [symmetric] Let_def)
qed

end
