(* ===== verification/Tcp_Calls.thy ===== *)
theory Tcp_Calls
  imports Tcp_Safe
begin

text \<open>
  The calls of the layer above and the deferred calls return and keep the stack consistent; the
  layer above is an interface: three callbacks that keep the stack consistent too.
\<close>

section \<open>Delivering and closing\<close>

lemma async_for_ok: "stack_inv P W s \<Longrightarrow> clos s r = Some c \<Longrightarrow> ok P W s (async_for num r s)"
  by (auto simp: async_for_def deref_def async_fct_call_def Let_def intro!: ok_some)

lemma break_of_com_ok: "stack_inv P W s \<Longrightarrow> clos s r = Some c \<Longrightarrow> ok P W s (break_of_com_kill_both_sides r s)"
  unfolding break_of_com_kill_both_sides_def by (rule async_for_ok)

lemma compute_ldata_len_0:
  assumes "list_all (\<lambda>l. datalen l \<noteq> 0) (head_ldata c)"
  shows "compute_ldata_len c = 0 \<longleftrightarrow> head_ldata c = []"
proof -
  have "0 < uint x" if "x \<noteq> 0" for x :: u16 using that by (simp add: word_neq_0_conv word_less_def)
  then have "\<forall>x \<in> set (map (\<lambda>l. uint (datalen l)) (head_ldata c)). 0 < x"
    using assms by (auto simp: list_all_iff)
  then have "head_ldata c \<noteq> [] \<longrightarrow> 0 < sum_list (map (\<lambda>l. uint (datalen l)) (head_ldata c))"
    by (cases "head_ldata c") (auto intro!: add_pos_nonneg sum_list_nonneg)
  then show ?thesis by (cases "head_ldata c = []") (auto simp: compute_ldata_len_def)
qed

lemma get_new_rxdata_eq:
  assumes "list_all (\<lambda>l. datalen l \<noteq> 0) (head_ldata c)"
  shows "clo_mngt_get_new_rxdata c = Some
     (if head_ldata c = [] then (None, c)
      else (Some (concat (map (\<lambda>l. take (unat (datalen l)) (low_data l)) (head_ldata c))),
            c\<lparr>non_activ_count := 0, head_ldata := []\<rparr>))"
  using compute_ldata_len_0 [OF assms] by (auto simp: clo_mngt_get_new_rxdata_def Let_def kout_if_bind)

lemma conn_ok_ldata [simp]: "conn_ok P W c \<Longrightarrow> conn_ok P W (c\<lparr>head_ldata := []\<rparr>)"
  by (simp add: conn_ok_def in_flight_def)

lemma deliver_rxdata_ok:
  assumes "stack_inv P W s" and "clos s r = Some c"
  shows "ok P W s (deliver_rxdata ch r s)"
proof -
  have ck: "conn_ok P W c" using assms by (rule stack_inv_conn)
  let ?d = "c\<lparr>non_activ_count := 0, head_ldata := []\<rparr>"
  have "conn_ok P W ?d" using ck by (simp add: conn_ok_def in_flight_def)
  then have "stack_inv P W (set_clo r ?d s)" "evolves s (set_clo r ?d s)"
    using stack_inv_set_clo [OF assms, of ?d] evolves_set_clo [OF assms(2), of ?d] by (simp_all add: same_conn_def)
  moreover have "set_clo r c s = s" using assms(2) by (simp add: set_clo_def fun_upd_idem)
  ultimately show ?thesis
    using ck assms get_new_rxdata_eq [of c]
    by (auto simp: deliver_rxdata_def deref_def Let_def conn_ok_def intro!: ok_some evolves_trans [OF _ evolves_quiet(3)])
qed

lemma local_rx_data_purge_ok:
  assumes "stack_inv P W s" and "clos s r = Some c"
  shows "ok P W s (local_rx_data_purge ch r s)"
proof -
  have "ok P W s (if b then deliver_rxdata ch r s else Some s)" for b
    using deliver_rxdata_ok [OF assms] assms(1) by auto
  then have "ok P W s ((if b then deliver_rxdata ch r s else Some s) \<bind> with_clo r (\<lambda>c. c\<lparr>head_ldata := []\<rparr>))" for b
  proof (rule ok_bind)
    fix t assume t: "stack_inv P W t" "evolves s t"
    then obtain d where "clos t r = Some d" using evolves_live assms(2) by blast
    with t show "ok P W t (with_clo r (\<lambda>c. c\<lparr>head_ldata := []\<rparr>) t)"
      by (intro ok_with_clo [of P W _ _ d]) (auto simp: stack_inv_conn)
  qed
  with assms show ?thesis by (simp add: local_rx_data_purge_def deref_def Let_def)
qed

lemma detach_ok:
  assumes "stack_inv P W s" and "clos s r = Some c" and "llid (tcpid c) \<noteq> 0"
  shows "ok P W s (util_detach_llid_clo (llid (tcpid c)) r s)"
proof -
  let ?t = "(set_clo r (set_llid 0 c) s)\<lparr>llid_to_clo := (llid_to_clo s)(llid (tcpid c) := None)\<rparr>"
  have t: "tables_inv s" using assms by (simp add: stack_inv_def)
  have "conn_ok P W (set_llid 0 c)" using assms by (simp add: stack_inv_conn)
  then have "stack_inv P W ?t"
    using tables_detach(2) [OF t assms(2,3)] assms(1) by (auto simp: stack_inv_def)
  moreover have "evolves s ?t" using assms(2) by (auto simp: evolves_def same_conn_def set_llid_def)
  ultimately show ?thesis using tables_detach(1) [OF t assms(2,3)] by (auto simp: ok_def)
qed

lemma close_channel_ok:
  assumes "stack_inv P W s" and "clos s r = Some c"
  shows "ok P W s (close_channel ch r s)"
proof -
  define u where "u = (if msg_exist_channel ch (llid (tcpid c)) (env s)
    then s\<lparr>env := msg_delete_channel ch (llid (tcpid c)) (env s)\<rparr> else s)"
  have u: "stack_inv P W u" "clos u r = Some c" "evolves s u" using assms by (simp_all add: u_def)
  have "ok P W u (if llid (tcpid c) \<noteq> 0 then util_detach_llid_clo (llid (tcpid c)) r u else Some u)"
    using detach_ok [OF u(1,2)] u by auto
  with u(3) have "ok P W s (if llid (tcpid c) \<noteq> 0 then util_detach_llid_clo (llid (tcpid c)) r u else Some u)"
    by (rule ok_from [rotated])
  moreover have "close_channel ch r s =
      (if llid (tcpid c) \<noteq> 0 then util_detach_llid_clo (llid (tcpid c)) r u else Some u)"
    unfolding close_channel_def Let_def deref_def assms(2) bind.bind_lunit u_def [symmetric] u(2) ..
  ultimately show ?thesis by simp
qed

lemma clo_high_close_tx_ok:
  assumes s: "stack_inv P W s"
  shows "okv P W s (clo_high_close_tx ch tid s)"
  using s
proof (cases rule: find_conn [where tid = tid])
  case none
  with s show ?thesis by (auto simp: clo_high_close_tx_def)
next
  case (one r c)
  define act where "act = (\<lambda>(c :: t_clo) (s :: 'a clo_sys). case state c of
             state_established \<Rightarrow>
               if has_been_closed_from_outside_socket c = 1
               then async_for num_fct_send_finack r s else local_send_finack_state_fin r s
           | state_first_syn_sent \<Rightarrow>
               if has_been_closed_from_outside_socket c = 1
               then async_for num_fct_send_finack r s else local_send_finack_state_fin r s
           | state_created \<Rightarrow> local_send_reset_state_closed r s
           | state_fin_wait1 \<Rightarrow> with_clo r (init_closed_state_count_if_not_done 20 461) s
           | state_fin_wait2 \<Rightarrow> with_clo r (init_closed_state_count_if_not_done 20 461) s
           | state_closed \<Rightarrow> with_clo r (\<lambda>c. init_closed_state_count_if_not_done 4 467
               (util_silent_purge_hdata_and_ldata (clo_mngt_set_state state_closed c))) s
           | state_fin_wait_last_ack \<Rightarrow> with_clo r (\<lambda>c. init_closed_state_count_if_not_done 4 467
               (util_silent_purge_hdata_and_ldata (clo_mngt_set_state state_closed c))) s
           | state_idle \<Rightarrow> None)"
  have act: "ok P W t (act d t)" if t: "stack_inv P W t" "clos t r = Some d" for t d
  proof -
    have "state d \<noteq> state_idle" using stack_inv_conn [OF t] by (simp add: conn_ok_def)
    moreover have "has_been_closed_from_outside_socket d \<noteq> 1 \<Longrightarrow> ok P W t (local_send_finack_state_fin r t)"
      using t by (auto simp: local_send_finack_state_fin_def deref_def)
    ultimately show ?thesis
      using t async_for_ok [OF t] close_conn_ok [OF t] send_reset_state_closed_ok [OF t]
      by (auto simp: act_def local_send_reset_state_closed_def split: clo_state.splits)
  qed
  have purge: "okv P W t (local_rx_data_purge ch r t \<bind> (\<lambda>s. deref r s \<bind> (\<lambda>c. act c s \<bind> (\<lambda>s. Some (True, s)))))"
    if t: "stack_inv P W t" "clos t r = Some d" for t d
  proof (rule okv_bind [OF local_rx_data_purge_ok [OF t]])
    fix u assume u: "stack_inv P W u" "evolves t u"
    then obtain e where e: "clos u r = Some e" using evolves_live t(2) by blast
    show "okv P W u (deref r u \<bind> (\<lambda>c. act c u \<bind> (\<lambda>s. Some (True, s))))"
      by (rule okv_deref [OF e], rule okv_bind [OF act [OF u(1) e]]) auto
  qed
  have "okv P W s (close_channel ch r s \<bind> (\<lambda>s. local_rx_data_purge ch r s \<bind>
      (\<lambda>s. deref r s \<bind> (\<lambda>c. act c s \<bind> (\<lambda>s. Some (True, s))))))"
    by (rule okv_bind [OF close_channel_ok [OF s one(2)]]) (use purge evolves_live one(2) in blast)
  then show ?thesis by (simp add: clo_high_close_tx_def one(1) act_def)
qed

section \<open>Opening\<close>

lemma create_tcp_ok:
  assumes s: "stack_inv P W s" and W: "0 \<le> W" and fresh: "\<forall>r. key_at s r \<noteq> Some (conn_key tid)" and l: "llid tid = 0"
    and addr: "P (local_addr tid)"
  obtains t c where "clo_mngt_create_tcp tid s = Some (next_clo s, t)" and "stack_inv P W t" and "evolves s t"
    and "clos t (next_clo s) = Some c" and "tcpid c = tid" and "state c = state_created" and "in_flight c = 0"
    and "head_hdata c = []" and "head_ldata c = []" and "low_out t = low_out s" and "env t = env s"
proof -
  have tb: "tables_inv s" and g: "g_tcp_max_size s = 1400" using s by (simp_all add: stack_inv_def)
  obtain u where u: "util_insert_clo tid s = Some (next_clo s, u)" "tables_inv u"
    "clos u = (clos s)(next_clo s \<mapsto> clo_zero tid (i32 (id_tcpid_count s + 1)))" "clos s (next_clo s) = None"
    "g_tcp_max_size u = g_tcp_max_size s" "low_out u = low_out s" "env u = env s"
    by (rule tables_insert [OF tb fresh l]) blast
  define i where "i = iss u + g_250ms_count u"
  define c where "c = (clo_mngt_set_state state_created (clo_zero tid (i32 (id_tcpid_count s + 1))))
     \<lparr>send_unack := i, send_next := i, loc_wnd := TCP_WND\<rparr>"
  define t where "t = set_clo (next_clo s) c (u\<lparr>iss := i\<rparr>)"
  have fields: "tcpid c = tid" "state c = state_created" "in_flight c = 0" "head_hdata c = []" "head_ldata c = []"
    by (simp_all add: c_def clo_mngt_set_state_def clo_zero_def in_flight_def)
  have eq: "clo_mngt_create_tcp tid s = Some (next_clo s, t)"
    by (simp add: clo_mngt_create_tcp_def u(1,3) with_clo_def deref_def clo_next_iss_def Let_def i_def c_def t_def set_clo_def)
  have ck: "conn_ok P W c" using fields W addr by (simp add: conn_ok_def)
  have clos_t: "clos t = (clos s)(next_clo s \<mapsto> c)" using u(3) by (auto simp: t_def set_clo_def)
  have "tables_inv t \<longleftrightarrow> tables_inv (u\<lparr>iss := i\<rparr>)"
    unfolding t_def by (rule set_clo_tables [of _ _ "clo_zero tid (i32 (id_tcpid_count s + 1))"])
      (simp_all add: u(3) fields clo_zero_def)
  also have "\<dots> \<longleftrightarrow> tables_inv u" by (rule tables_inv_cong) (simp_all add: key_at_def llid_at_def fun_eq_iff)
  finally have "stack_inv P W t"
    using s u(2,5) ck g unfolding stack_inv_def clos_t by (auto simp: t_def)
  moreover have "evolves s t" using u(4) unfolding evolves_def clos_t by auto
  ultimately show thesis
    using that [OF eq, of c] fields clos_t u(6,7) by (simp add: t_def)
qed

lemma clo_high_syn_tx_ok:
  assumes s: "stack_inv P W s" and W: "0 \<le> W" "W + 1 < 2 ^ 32" and l: "llid tid = 0"
    and addr: "P (local_addr tid)" and port: "our_port tid"
  shows "okv P (W + 1) s (clo_high_syn_tx tid s)"
  using s
proof (cases rule: find_conn [where tid = tid])
  case none
  obtain t c where t: "clo_mngt_create_tcp tid s = Some (next_clo s, t)" "stack_inv P W t" "evolves s t"
    "clos t (next_clo s) = Some c" "tcpid c = tid" using create_tcp_ok [OF s W(1) none(2) l addr] by blast
  have "ok P (W + 1) t (clo_mngt_adjust_send_next (send_next c) 1 c \<bind>
     (\<lambda>c'. Some (set_clo (next_clo s) (clo_mngt_set_state state_first_syn_sent c')
       (send_seg tid (recv_next c) (send_next c) (loc_wnd c) TH_SYN 0 [] t))))"
    by (rule move_one_ok [OF t(2,4) W(2)]) (simp_all add: t(5) port)
  with t none(1) show ?thesis
    by (auto simp: clo_high_syn_tx_def deref_def util_sends Let_def ok_def okv_def bind_eq_Some
        intro: evolves_trans)
next
  case (one r c)
  with s stack_inv_mono [OF s, of "W + 1"] show ?thesis by (auto simp: clo_high_syn_tx_def)
qed

lemma clo_high_synack_tx_ok:
  assumes s: "stack_inv P W s" and W: "W + 1 < 2 ^ 32"
  shows "okv P (W + 1) s (clo_high_synack_tx tid s)"
  using s
proof (cases rule: find_conn [where tid = tid])
  case none
  with s stack_inv_mono [OF s, of "W + 1"] show ?thesis by (auto simp: clo_high_synack_tx_def)
next
  case (one r c)
  have "ok P (W + 1) s (clo_mngt_adjust_send_next (send_next c) 1 c \<bind>
     (\<lambda>c'. Some (set_clo r (clo_mngt_set_state state_established c')
       (send_seg tid (recv_next c) (send_next c) (loc_wnd c) (TH_SYN OR TH_ACK) 0 [] s))))"
    by (rule move_one_ok [OF s one(2) W]) simp_all
  with one show ?thesis
    by (auto simp: clo_high_synack_tx_def deref_def util_sends Let_def ok_def okv_def bind_eq_Some)
qed

section \<open>Aborting\<close>

lemma reset_rx_close_all_ok:
  assumes s: "stack_inv P W s" and c: "clos s r = Some c"
  shows "ok P W s (reset_rx_close_all ch r s)"
  unfolding reset_rx_close_all_def
proof (rule ok_bind [OF close_channel_ok [OF s c]])
  fix t assume t: "stack_inv P W t" "evolves s t"
  then obtain d where "clos t r = Some d" using evolves_live c by blast
  with t show "ok P W t (with_clo r (\<lambda>c. init_closed_state_count_if_not_done 1 410
       (util_silent_purge_hdata_and_ldata (clo_mngt_set_state state_closed c))) t)"
    by (intro close_conn_ok)
qed

lemma clo_high_free_tcpid_ok:
  assumes s: "stack_inv P W s"
  shows "ok P W s (clo_high_free_tcpid tid s)"
  using s
proof (cases rule: find_conn [where tid = tid])
  case none
  with s show ?thesis by (auto simp: clo_high_free_tcpid_def)
next
  case (one r c)
  with close_conn_ok(2) [OF s one(2)] show ?thesis by (simp add: clo_high_free_tcpid_def)
qed

section \<open>The layer above\<close>

text \<open>
  The interface to the layer above: each of the three callbacks returns, keeps the stack
  consistent and every connection alive, and sends at most one SYN and one FIN. \<open>opens\<close> says when
  the layer above can open another connection for a SYN, \<open>up\<close> when it can take the SYN-ACK of one.
\<close>

locale high_layer =
  fixes P :: "u8 list \<times> u32 \<times> u16 \<Rightarrow> bool"
    and opens :: "'e \<Rightarrow> bool"
    and up :: "t_tcp_id \<Rightarrow> 'e \<Rightarrow> bool"
    and hi :: "'e clo_high"
  assumes syn_rx: "stack_inv P W s \<Longrightarrow> 65535 \<le> W \<Longrightarrow> W + 2 < 2 ^ 30 \<Longrightarrow> clos s r = Some c \<Longrightarrow> opens (env s) \<Longrightarrow>
      ok P (W + 2) s (high_syn_rx hi (tcpid c) s)"
    and synack_rx: "stack_inv P W s \<Longrightarrow> 65535 \<le> W \<Longrightarrow> W + 2 < 2 ^ 30 \<Longrightarrow> clos s r = Some c \<Longrightarrow>
      our_port (tcpid c) \<Longrightarrow> up (tcpid c) (env s) \<Longrightarrow> ok P (W + 2) s (high_synack_rx hi (tcpid c) s)"
    and close_rx: "stack_inv P W s \<Longrightarrow> 65535 \<le> W \<Longrightarrow> W + 2 < 2 ^ 30 \<Longrightarrow> P (local_addr tid) \<Longrightarrow>
      ok P (W + 2) s (high_close_rx hi tid s)"
begin

lemma timer_fct_call_ok:
  assumes s: "stack_inv P W s" and W: "65535 \<le> W" "W + 2 < 2 ^ 30"
    and addr: "P (local_addr (fct_tcpid fct))"
  shows "ok P (W + 2) s (timer_fct_call hi fct s)"
proof -
  have W': "W + 1 < 2 ^ 32" "W \<le> W + 2" using W by simp_all
  note s2 = stack_inv_mono [OF s W'(2)]
  note close = close_rx [OF s W addr]
  have later: "ok P (W + 2) s (Some (s\<lparr>timeouts := ts\<rparr>))" for ts using s2 by auto
  show ?thesis
    using s
  proof (cases rule: find_conn [where tid = "fct_tcpid fct"])
    case none
    have "ok P (W + 2) s (high_close_rx hi (fct_tcpid fct) s \<bind> Some)"
      using close by (simp add: ok_def)
    with none close s2 show ?thesis
      by (auto simp: timer_fct_call_def split: num_fct.splits)
  next
    case (one r c)
    have rst: "ok P (W + 2) t (deref r t \<bind> (\<lambda>c. if id_tcpid c = fct_id_tcpid fct
        then Some (util_send_reset (tcpid c) (recv_next c) (send_next c) (loc_wnd c) t) else Some t))"
      if t: "stack_inv P (W + 2) t" "evolves s t" for t
    proof -
      obtain d where d: "clos t r = Some d" using evolves_live t(2) one(2) by blast
      show ?thesis by (rule ok_deref [OF d]) (use t in \<open>auto simp: util_sends intro!: ok_some\<close>)
    qed
    have "ok P (W + 2) s (high_close_rx hi (fct_tcpid fct) s \<bind> (\<lambda>t. deref r t \<bind> (\<lambda>c.
        if id_tcpid c = fct_id_tcpid fct
        then Some (util_send_reset (tcpid c) (recv_next c) (send_next c) (loc_wnd c) t) else Some t)))"
      by (rule ok_bind [OF close]) (rule rst)
    moreover have "ok P (W + 2) s (local_send_finack_state_fin r s)"
      using ok_mono [OF local_send_finack_state_fin_ok [OF s one(2) W'(1)], of "W + 2"] by simp
    ultimately show ?thesis
      using one close s2 later
      by (auto simp: timer_fct_call_def deref_def split: num_fct.splits)
  qed
qed

end

end
