(* ===== verification/Tcp_Total.thy ===== *)
theory Tcp_Total
  imports Tcp_Calls
begin

text \<open>
  The input of a segment and the heartbeat return and keep the stack consistent, above any layer
  that does.
\<close>

section \<open>The sequence numbers of an accepted segment\<close>

lemma word_between: "a \<le> b \<Longrightarrow> b \<le> c \<Longrightarrow> uint (c - b) \<le> uint (c - a)" for a b c :: u32
  by (simp add: word_le_def uint_sub_lem [THEN iffD1] order_trans)

lemma ack_in_flight:
  assumes "ack_acceptable c low"
  shows "uint (send_next c - ackno low) \<le> in_flight c"
proof (cases "send_unack c \<le> send_next c")
  case True
  then show ?thesis
    using assms word_between [of "send_unack c" "ackno low" "send_next c"]
    by (auto simp: ack_acceptable_def ajust_def in_flight_def split: prod.splits if_splits)
next
  case False
  then have "send_unack c + 0x10000000 \<le> ackno low + 0x10000000"
    "ackno low + 0x10000000 \<le> send_next c + 0x10000000"
    using assms by (auto simp: ack_acceptable_def ajust_def split: prod.splits if_splits)
  from word_between [OF this] show ?thesis by (simp add: in_flight_def)
qed

lemma set_release_past: "set (release_past a add hs) \<subseteq> set hs"
  by (induction hs arbitrary: add) (auto simp: Let_def)

lemma release_conn_ok:
  assumes "conn_ok P W c" and "uint (send_next c - a) \<le> W"
  shows "conn_ok P W (update_unack_release_past_hdata a c)"
  using assms set_release_past [of a 0 "head_hdata c"]
  by (auto simp: update_unack_release_past_hdata_def conn_ok_def in_flight_def list_all_iff)

text \<open>The peer acknowledges our SYN with a number that was sent.\<close>

definition synack_ok :: "t_low \<Rightarrow> t_clo \<Rightarrow> bool" where
  "synack_ok low c \<longleftrightarrow> state c = state_first_syn_sent \<longrightarrow>
     flags low AND (TH_SYN OR TH_ACK) = TH_SYN OR TH_ACK \<longrightarrow> uint (send_next c - ackno low) \<le> in_flight c"

lemma release_frame [simp]:
  "tcpid (update_unack_release_past_hdata a c) = tcpid c"
  "id_tcpid (update_unack_release_past_hdata a c) = id_tcpid c"
  "state (update_unack_release_past_hdata a c) = state c"
  "stuck (update_unack_release_past_hdata a c) = stuck c"
  "recv_next (update_unack_release_past_hdata a c) = recv_next c"
  "send_next (update_unack_release_past_hdata a c) = send_next c"
  "head_ldata (update_unack_release_past_hdata a c) = head_ldata c"
  by (simp_all add: update_unack_release_past_hdata_def)

lemma low_input_frame:
  assumes "clo_mngt_low_input low c = (b, i, d)"
  shows "tcpid d = tcpid c" "id_tcpid d = id_tcpid c" "state d = state c" "stuck d = stuck c"
  using assms by (auto simp: clo_mngt_low_input_def Let_def split: if_splits)

lemma low_input_conn_ok:
  assumes c: "conn_ok P W c" and syn: "synack_ok low c" and eq: "clo_mngt_low_input low c = (b, i, d)"
  shows "conn_ok P W d"
proof (cases "state c = state_created \<and> flags low = TH_SYN")
  case True
  with c eq show ?thesis by (auto simp: clo_mngt_low_input_def)
next
  case n1: False
  show ?thesis
  proof (cases "state c = state_first_syn_sent \<and> flags low AND (TH_SYN OR TH_ACK) = TH_SYN OR TH_ACK")
    case True
    let ?c = "c\<lparr>recv_next := seqno low + ucast (tcplen low), dist_wnd := wnd low\<rparr>"
    have "conn_ok P W ?c" using c by simp
    moreover have "uint (send_next ?c - ackno low) \<le> W" using True syn conn_ok_le [OF c] by (simp add: synack_ok_def)
    ultimately have "conn_ok P W (update_unack_release_past_hdata (ackno low) ?c)" by (rule release_conn_ok)
    with n1 True eq show ?thesis by (auto simp: clo_mngt_low_input_def)
  next
    case n2: False
    define e where "e = (if has (flags low) TH_ACK \<and> ack_acceptable c low
      then update_unack_release_past_hdata (ackno low) c else c)"
    have e: "conn_ok P W e"
      using c release_conn_ok [OF c, of "ackno low"] ack_in_flight [of c low] conn_ok_le [OF c]
      by (auto simp: e_def)
    have "conn_ok P W (e\<lparr>head_ldata := util_insert_ldata low (head_ldata e), have_to_ack := 1,
        recv_next := q, dist_wnd := w\<rparr>)" if "datalen low \<noteq> 0" for q w
      using e that by (simp add: conn_ok_def in_flight_def util_insert_ldata_def)
    then show ?thesis
      using eq n1 n2 c e unfolding clo_mngt_low_input_def e_def [symmetric] Let_def
      by (auto split: if_splits)
  qed
qed

section \<open>The protocol\<close>

lemma ok_bind_true: "ok P W s m \<Longrightarrow> okv P W s (m \<bind> (\<lambda>t. Some (x, t)))"
  unfolding ok_def okv_def by auto

lemma okv_if: "(b \<Longrightarrow> okv P W s m) \<Longrightarrow> (\<not> b \<Longrightarrow> okv P W s n) \<Longrightarrow> okv P W s (if b then m else n)"
  by simp

lemma clo_of_bind:
  "clos s r = Some c \<Longrightarrow> evolves s t \<Longrightarrow> (\<And>d. clos t r = Some d \<Longrightarrow> P) \<Longrightarrow> P"
  using evolves_live by blast

lemma fin_close_ok:
  assumes s: "stack_inv P W s" and c: "clos s r = Some c"
  shows "okv P W s (ackno_send r True s \<bind> (\<lambda>s. async_for num_fct_high_close_rx r s \<bind>
     (\<lambda>s. with_clo r (clo_mngt_set_state state_closed) s \<bind> (\<lambda>s. Some (False, s)))))"
proof (rule okv_bind [OF ackno_send_ok [OF s c]])
  fix t assume t: "stack_inv P W t" "evolves s t"
  from c t(2) obtain d where d: "clos t r = Some d" by (rule clo_of_bind)
  show "okv P W t (async_for num_fct_high_close_rx r t \<bind>
     (\<lambda>s. with_clo r (clo_mngt_set_state state_closed) s \<bind> (\<lambda>s. Some (False, s))))"
  proof (rule okv_bind [OF async_for_ok [OF t(1) d]])
    fix u assume u: "stack_inv P W u" "evolves t u"
    from d u(2) obtain e where "clos u r = Some e" by (rule clo_of_bind)
    from close_conn_ok(4) [OF u(1) this] show
      "okv P W u (with_clo r (clo_mngt_set_state state_closed) u \<bind> (\<lambda>s. Some (False, s)))"
      by (intro ok_bind_true) simp
  qed
qed

lemma established_fin_ok:
  assumes s: "stack_inv P W s" and c: "clos s r = Some c" and W: "W + 1 < 2 ^ 32"
  shows "okv P (W + 1) s (local_rx_data_purge ch r s \<bind> (\<lambda>s.
     with_clo r (\<lambda>c. if has_been_closed_from_outside_socket c = 1
                  then c\<lparr>has_been_closed_from_outside_socket := 0\<rparr> else c) s \<bind> (\<lambda>s.
     send_finack_and_move r state_fin_wait_last_ack s \<bind> (\<lambda>s. Some (True, s)))))"
proof (rule okv_bind [OF local_rx_data_purge_ok [OF s c]])
  fix t assume t: "stack_inv P W t" "evolves s t"
  from c t(2) obtain d where d: "clos t r = Some d" by (rule clo_of_bind)
  have w: "ok P W t (with_clo r (\<lambda>c. if has_been_closed_from_outside_socket c = 1
                  then c\<lparr>has_been_closed_from_outside_socket := 0\<rparr> else c) t)"
    by (rule ok_with_clo [of P W _ _ d]) (use t d in \<open>auto simp: stack_inv_conn\<close>)
  show "okv P (W + 1) t (with_clo r (\<lambda>c. if has_been_closed_from_outside_socket c = 1
                  then c\<lparr>has_been_closed_from_outside_socket := 0\<rparr> else c) t \<bind> (\<lambda>s.
     send_finack_and_move r state_fin_wait_last_ack s \<bind> (\<lambda>s. Some (True, s))))"
  proof (rule okv_bind [OF w])
    fix u assume u: "stack_inv P W u" "evolves t u"
    from d u(2) obtain e where e: "clos u r = Some e" by (rule clo_of_bind)
    from send_finack_and_move_ok [OF u(1) e W]
    show "okv P (W + 1) u (send_finack_and_move r state_fin_wait_last_ack u \<bind> (\<lambda>s. Some (True, s)))"
      by (intro ok_bind_true) simp
  qed
qed

context high_layer begin

lemma existing_tcp_low_input_ok:
  assumes s: "stack_inv P W s" and c: "clos s r = Some c" and W: "65535 \<le> W" "W + 2 < 2 ^ 30"
    and u: "state c = state_first_syn_sent \<Longrightarrow> flags low AND (TH_SYN OR TH_ACK) = TH_SYN OR TH_ACK \<Longrightarrow>
      up (tcpid c) (env s)"
    and o: "flags low = TH_SYN \<Longrightarrow> opens (env s)"
  shows "okv P (W + 2) s (existing_tcp_low_input ch hi r low s)"
proof -
  have W1: "W + 1 < 2 ^ 32" and W2: "W \<le> W + 2" using W by simp_all
  have k: "conn_ok P W c" using s c by (rule stack_inv_conn)
  note s2 = stack_inv_mono [OF s W2]
  have syn: "okv P (W + 2) s (high_syn_rx hi (tcpid c) s \<bind> (\<lambda>s. Some (True, s)))" if "flags low = TH_SYN"
    by (rule ok_bind_true [OF syn_rx [OF s W c o [OF that]]])
  have rst: "okv P (W + 2) s (send_reset_state_closed r 559 s \<bind> (\<lambda>s. Some (False, s)))"
    by (rule ok_bind_true [OF ok_mono [OF send_reset_state_closed_ok [OF s c] W2]])
  have est: "okv P (W + 2) s (with_clo r (clo_mngt_set_state state_established) s \<bind> (\<lambda>s.
      high_synack_rx hi (tcpid c) s \<bind> (\<lambda>s. Some (True, s))))" if "state c = state_first_syn_sent"
      "flags low AND (TH_SYN OR TH_ACK) = TH_SYN OR TH_ACK"
  proof -
    have port: "our_port (tcpid c)" using k that by (simp add: conn_ok_def)
    let ?d = "clo_mngt_set_state state_established c"
    have w: "with_clo r (clo_mngt_set_state state_established) s = Some (set_clo r ?d s)"
      by (simp add: with_clo_def deref_def c)
    have t: "stack_inv P W (set_clo r ?d s)" "evolves s (set_clo r ?d s)"
      using close_conn_ok(4) [OF s c, of state_established] by (simp_all add: ok_def w)
    have "ok P (W + 2) (set_clo r ?d s) (high_synack_rx hi (tcpid ?d) (set_clo r ?d s))"
      by (rule synack_rx [OF t(1) W, of r]) (use that u in \<open>simp_all add: port\<close>)
    then have "okv P (W + 2) s (high_synack_rx hi (tcpid c) (set_clo r ?d s) \<bind> (\<lambda>s. Some (True, s)))"
      using t(2) by (intro ok_bind_true) (auto intro: ok_from)
    with w show ?thesis by simp
  qed
  have refuse: "okv P (W + 2) s (async_for num_fct_high_close_rx r u \<bind> (\<lambda>s.
      with_clo r (\<lambda>c. init_closed_state_count_if_not_done 20 580 (clo_mngt_set_state state_closed c)) s \<bind>
      (\<lambda>s. Some (False, s))))" if "u = util_send_reset (tcpid c) a q w s" for u a q w
  proof -
    have u: "stack_inv P W u" "clos u r = Some c" "evolves s u" using s c that by (simp_all add: util_sends)
    have "okv P (W + 2) u (async_for num_fct_high_close_rx r u \<bind> (\<lambda>s.
      with_clo r (\<lambda>c. init_closed_state_count_if_not_done 20 580 (clo_mngt_set_state state_closed c)) s \<bind>
      (\<lambda>s. Some (False, s))))"
    proof (rule okv_bind [OF async_for_ok [OF u(1,2)]])
      fix t assume t: "stack_inv P W t" "evolves u t"
      from u(2) t(2) obtain d where d: "clos t r = Some d" by (rule clo_of_bind)
      show "okv P (W + 2) t (with_clo r (\<lambda>c. init_closed_state_count_if_not_done 20 580
          (clo_mngt_set_state state_closed c)) t \<bind> (\<lambda>s. Some (False, s)))"
        by (rule ok_bind_true [OF ok_mono [OF close_conn_ok(1) [OF t(1) d] W2]])
    qed
    then show ?thesis using u(3) by (rule okv_from)
  qed
  have fin: "okv P (W + 2) s (ackno_send r True s \<bind> (\<lambda>s. async_for num_fct_high_close_rx r s \<bind>
     (\<lambda>s. with_clo r (clo_mngt_set_state state_closed) s \<bind> (\<lambda>s. Some (False, s)))))"
    if "stack_inv P W s" "clos s r = Some d" for s d
    by (rule okv_mono [OF fin_close_ok [OF that] W2])
  have wait2: "okv P (W + 2) s (with_clo r (clo_mngt_set_state state_fin_wait2) s \<bind> (\<lambda>s.
      if b then ackno_send r True s \<bind> (\<lambda>s. async_for num_fct_high_close_rx r s \<bind>
        (\<lambda>s. with_clo r (clo_mngt_set_state state_closed) s \<bind> (\<lambda>s. Some (False, s))))
      else Some (False, s)))" for b
  proof (rule okv_bind [OF close_conn_ok(4) [OF s c]])
    fix t assume t: "stack_inv P W t" "evolves s t"
    from c t(2) obtain d where d: "clos t r = Some d" by (rule clo_of_bind)
    show "okv P (W + 2) t (if b then ackno_send r True t \<bind> (\<lambda>s. async_for num_fct_high_close_rx r s \<bind>
        (\<lambda>s. with_clo r (clo_mngt_set_state state_closed) s \<bind> (\<lambda>s. Some (False, s))))
      else Some (False, t))"
      using fin [OF t(1) d] stack_inv_mono [OF t(1) W2] by auto
  qed simp_all
  have last: "okv P (W + 2) s ((if b then async_for num_fct_high_close_rx r s else Some s) \<bind>
      (\<lambda>s. with_clo r (clo_mngt_set_state state_closed) s \<bind> (\<lambda>s. Some (False, s))))" for b
  proof (rule okv_bind)
    show "ok P W s (if b then async_for num_fct_high_close_rx r s else Some s)"
      using async_for_ok [OF s c] s by auto
    fix t assume t: "stack_inv P W t" "evolves s t"
    from c t(2) obtain d where d: "clos t r = Some d" by (rule clo_of_bind)
    show "okv P (W + 2) t (with_clo r (clo_mngt_set_state state_closed) t \<bind> (\<lambda>s. Some (False, s)))"
      by (rule ok_bind_true [OF ok_mono [OF close_conn_ok(4) [OF t(1) d] W2]]) simp_all
  qed
  have fin_est: "okv P (W + 2) s (local_rx_data_purge ch r s \<bind> (\<lambda>s.
     with_clo r (\<lambda>c. if has_been_closed_from_outside_socket c = 1
                  then c\<lparr>has_been_closed_from_outside_socket := 0\<rparr> else c) s \<bind> (\<lambda>s.
     send_finack_and_move r state_fin_wait_last_ack s \<bind> (\<lambda>s. Some (True, s)))))"
    by (rule okv_mono [OF established_fin_ok [OF s c W1]]) simp
  have "state c \<noteq> state_idle" using k by (simp add: conn_ok_def)
  with s2 syn rst est refuse fin [OF s c] wait2 last fin_est show ?thesis
    unfolding existing_tcp_low_input_def deref_def c bind.bind_lunit Let_def
    by (cases "state c") (auto intro!: okv_some)
qed

lemma non_existing_ok:
  assumes s: "stack_inv P W s" and W: "65535 \<le> W" "W + 2 < 2 ^ 30"
    and fresh: "\<forall>r. key_at s r \<noteq> Some (conn_key tid)" and l: "llid tid = 0"
    and addr: "flags low = TH_SYN \<Longrightarrow> P (local_addr tid) \<and> opens (env s)"
  shows "okv P (W + 2) s (non_existing_tcp_low_input hi tid low s)"
proof (cases "flags low = TH_SYN")
  case True
  obtain t c where t: "clo_mngt_create_tcp tid s = Some (next_clo s, t)" "stack_inv P W t" "evolves s t"
    "clos t (next_clo s) = Some c" "state c = state_created" "env t = env s"
    using create_tcp_ok [OF s _ fresh l addr [OF True, THEN conjunct1]] W by (metis order_trans zero_le_numeral)
  define d where "d = c\<lparr>recv_next := seqno low + ucast (tcplen low), dist_wnd := wnd low\<rparr>"
  have in_eq: "clo_mngt_low_input low c = (True, False, d)"
    using t(5) True by (simp add: clo_mngt_low_input_def d_def)
  have ck: "conn_ok P W d" using stack_inv_conn [OF t(2,4)] by (simp add: d_def)
  have u: "stack_inv P W (set_clo (next_clo s) d t)" "evolves t (set_clo (next_clo s) d t)"
    using stack_inv_set_clo [OF t(2,4), of d] evolves_set_clo [OF t(4), of d] ck
    by (simp_all add: d_def same_conn_def)
  have "okv P (W + 2) (set_clo (next_clo s) d t)
      (high_syn_rx hi (tcpid d) (set_clo (next_clo s) d t) \<bind> (\<lambda>s. Some (False, s)))"
    by (rule ok_bind_true [OF syn_rx [OF u(1) W, of "next_clo s"]]) (use addr [OF True] t(6) in simp_all)
  then have "okv P (W + 2) s (high_syn_rx hi (tcpid d) (set_clo (next_clo s) d t) \<bind> (\<lambda>s. Some (False, s)))"
    by (rule okv_from) (rule evolves_trans [OF t(3) u(2)])
  with True t(1,4) in_eq show ?thesis by (simp add: non_existing_tcp_low_input_def deref_def)
next
  case False
  have "stack_inv P (W + 2) s" using s by (rule stack_inv_mono) simp
  with False show ?thesis by (auto simp: non_existing_tcp_low_input_def Let_def util_sends intro!: okv_some)
qed

end

lemma input_inserted_ok:
  assumes s: "stack_inv P W s" and c: "clos s r = Some c"
  shows "okv P W s (input_inserted ch r s)"
proof -
  define res where "res = high_data_rx_possible ch (tcpid c) (env s)"
  have b: "ok P W s (if res = -1 then break_of_com_kill_both_sides r s else Some s)"
    using break_of_com_ok [OF s c] s by auto
  have "okv P W s ((if res = -1 then break_of_com_kill_both_sides r s else Some s) \<bind> (\<lambda>s.
     if res = 1 then deref r s \<bind> (\<lambda>c. (let (change, c) = clo_mngt_adjust_loc_wnd TCP_WND c in
         deliver_rxdata ch r (set_clo r c s) \<bind> (\<lambda>s. Some (change, s))))
     else if res = 0 \<and> llid_unlocked (tcpid c) \<noteq> 0 then
       deref r s \<bind> (\<lambda>c. (let (change, c) = clo_mngt_adjust_loc_wnd TCP_WND_MIN c in Some (change, set_clo r c s)))
     else Some (False, s)))"
  proof (rule okv_bind [OF b])
    fix t assume t: "stack_inv P W t" "evolves s t"
    from c t(2) obtain d where d: "clos t r = Some d" by (rule clo_of_bind)
    have w: "stack_inv P W (set_clo r (d\<lparr>loc_wnd := w\<rparr>) t)" "evolves t (set_clo r (d\<lparr>loc_wnd := w\<rparr>) t)" for w
      using stack_inv_set_clo [OF t(1) d, of "d\<lparr>loc_wnd := w\<rparr>"] evolves_set_clo [OF d, of "d\<lparr>loc_wnd := w\<rparr>"]
        stack_inv_conn [OF t(1) d] by (simp_all add: same_conn_def)
    have "ok P W (set_clo r (d\<lparr>loc_wnd := w\<rparr>) t) (deliver_rxdata ch r (set_clo r (d\<lparr>loc_wnd := w\<rparr>) t))" for w
      by (rule deliver_rxdata_ok [OF w(1)]) simp
    then have "okv P W t (deliver_rxdata ch r (set_clo r (d\<lparr>loc_wnd := w\<rparr>) t) \<bind> (\<lambda>s. Some (x, s)))" for w x
      using w(2) by (intro ok_bind_true) (rule ok_from)
    with t w d show "okv P W t (if res = 1 then deref r t \<bind> (\<lambda>c. (let (change, c) = clo_mngt_adjust_loc_wnd TCP_WND c in
         deliver_rxdata ch r (set_clo r c t) \<bind> (\<lambda>s. Some (change, s))))
     else if res = 0 \<and> llid_unlocked (tcpid c) \<noteq> 0 then
       deref r t \<bind> (\<lambda>c. (let (change, c) = clo_mngt_adjust_loc_wnd TCP_WND_MIN c in Some (change, set_clo r c t)))
     else Some (False, t))"
      by (auto simp: deref_def clo_mngt_adjust_loc_wnd_def)
  qed
  then show ?thesis
    unfolding input_inserted_def deref_def c bind.bind_lunit Let_def res_def by (simp add: split_beta)
qed

lemma input_ack_ok:
  assumes s: "stack_inv P W s" and c: "clos s r = Some c"
  shows "ok P W s (input_ack change r s)"
proof -
  have "ok P W s (timed_send_ack r s \<bind> (\<lambda>(armed, s). if armed then with_clo r dec_have_to_ack s else Some s))"
  proof (rule ok_bind_okv [OF timed_send_ack_ok [OF s c]])
    fix x t assume t: "stack_inv P W t" "evolves s t"
    from c t(2) obtain d where d: "clos t r = Some d" by (rule clo_of_bind)
    show "ok P W t (case (x, t) of (armed, s) \<Rightarrow> if armed then with_clo r dec_have_to_ack s else Some s)"
      using dec_have_to_ack_ok [OF t(1) d] t by auto
  qed
  with s show ?thesis by (auto simp: input_ack_def deref_def c)
qed

text \<open>A segment is legal if it does not acknowledge more of our SYN than was sent, if it is not a SYN
  to an address that the layer above cannot close or at a time it cannot open a connection, and if as the answer to our SYN it comes when the
  layer above can take it.\<close>

definition legal_low :: "(u8 list \<times> u32 \<times> u16 \<Rightarrow> bool) \<Rightarrow> ('e \<Rightarrow> bool) \<Rightarrow> (t_tcp_id \<Rightarrow> 'e \<Rightarrow> bool) \<Rightarrow> t_low \<Rightarrow> 'e clo_sys \<Rightarrow> bool" where
  "legal_low P opens up low s \<longleftrightarrow>
     (flags low = TH_SYN \<longrightarrow> P (local_addr (util_low2tcpid low)) \<and> opens (env s)) \<and> (\<forall>r c. clos s r = Some c \<longrightarrow> conn_key (tcpid c) = conn_key (util_low2tcpid low) \<longrightarrow>
     \<not> has (flags low) TH_RST \<longrightarrow> synack_ok low c \<and> (state c = state_first_syn_sent \<longrightarrow>
       flags low AND (TH_SYN OR TH_ACK) = TH_SYN OR TH_ACK \<longrightarrow> up (tcpid c) (env s)))"

context high_layer begin

lemma segment_input_ok:
  assumes s: "stack_inv P W s" and W: "65535 \<le> W" "W + 2 < 2 ^ 30" and legal: "legal_low P opens up low s"
  shows "ok P (W + 2) s (segment_input ch hi low s)"
  using s
proof (cases rule: find_conn [where tid = "util_low2tcpid low"])
  case none
  have "ok P (W + 2) s (non_existing_tcp_low_input hi (util_low2tcpid low) low s \<bind> (\<lambda>(ins, s). Some s))"
  proof (rule ok_bind_okv [OF non_existing_ok [OF s W none(2)]])
    show "flags low = TH_SYN \<Longrightarrow> P (local_addr (util_low2tcpid low)) \<and> opens (env s)" using legal by (simp add: legal_low_def)
  qed (auto simp: util_low2tcpid_def)
  with none(1) show ?thesis by (simp add: segment_input_def)
next
  case (one r c)
  have W2: "W \<le> W + 2" by simp
  show ?thesis
  proof (cases "has (flags low) TH_RST")
    case True
    with one(1) ok_mono [OF reset_rx_close_all_ok [OF s one(2)] W2] show ?thesis
      by (simp add: segment_input_def)
  next
    case False
    obtain b i d where in_eq: "clo_mngt_low_input low c = (b, i, d)" by (metis prod_cases3)
    have syn: "synack_ok low c" using legal one(2,3) False by (auto simp: legal_low_def)
    have dk: "conn_ok P W d" by (rule low_input_conn_ok [OF stack_inv_conn [OF s one(2)] syn in_eq])
    note fr = low_input_frame [OF in_eq]
    let ?t = "set_clo r d s"
    have t: "stack_inv P W ?t" "evolves s ?t"
      using stack_inv_set_clo [OF s one(2), of d] evolves_set_clo [OF one(2), of d] dk fr
      by (simp_all add: same_conn_def)
    have "ok P (W + 2) ?t (existing_tcp_low_input ch hi r low ?t \<bind> (\<lambda>(good, s).
        if \<not> good then Some s else
          (if i then input_inserted ch r s else Some (False, s)) \<bind> (\<lambda>(change, s). input_ack change r s)))"
    proof (rule ok_bind_okv [OF existing_tcp_low_input_ok [OF t(1) _ W]])
      show "clos ?t r = Some d" by simp
      show "flags low = TH_SYN \<Longrightarrow> opens (env ?t)" using legal by (simp add: legal_low_def)
      show "up (tcpid d) (env ?t)" if "state d = state_first_syn_sent"
        "flags low AND (TH_SYN OR TH_ACK) = TH_SYN OR TH_ACK"
        using legal one(2,3) False that fr by (auto simp: legal_low_def)
      fix x u assume u: "stack_inv P (W + 2) u" "evolves ?t u"
      have "clos ?t r = Some d" by simp
      from this u(2) obtain e where e: "clos u r = Some e" by (rule clo_of_bind)
      have ins: "okv P (W + 2) u (if i then input_inserted ch r u else Some (False, u))"
        using input_inserted_ok [OF u(1) e] u(1) by auto
      have "ok P (W + 2) u ((if i then input_inserted ch r u else Some (False, u)) \<bind> (\<lambda>(change, s). input_ack change r s))"
      proof (rule ok_bind_okv [OF ins])
        fix y v assume v: "stack_inv P (W + 2) v" "evolves u v"
        from e v(2) obtain f where f: "clos v r = Some f" by (rule clo_of_bind)
        show "ok P (W + 2) v (case (y, v) of (change, s) \<Rightarrow> input_ack change r s)"
          using input_ack_ok [OF v(1) f] by simp
      qed
      with u(1) show "ok P (W + 2) u (case (x, u) of (good, s) \<Rightarrow> if \<not> good then Some s else
          (if i then input_inserted ch r s else Some (False, s)) \<bind> (\<lambda>(change, s). input_ack change r s))"
        by auto
    qed
    from ok_from [OF this t(2)] have go: "ok P (W + 2) s (existing_tcp_low_input ch hi r low ?t \<bind> (\<lambda>(good, s).
        if \<not> good then Some s else
          (if i then input_inserted ch r s else Some (False, s)) \<bind> (\<lambda>(change, s). input_ack change r s)))" .
    have "ok P (W + 2) s (Some ?t)" using t stack_inv_mono [OF t(1) W2] by auto
    with go show ?thesis
      unfolding segment_input_def Let_def one(1) deref_def one(2) bind.bind_lunit in_eq prod.case option.case
      using False by simp
  qed
qed

lemma clo_low_input_ok:
  assumes s: "stack_inv P W s" and W: "65535 \<le> W" "W + 2 < 2 ^ 30"
    and dec: "tcp_packet2low frame = Some p" and legal: "\<And>low. p = Some low \<Longrightarrow> legal_low P opens up low s"
  shows "ok P (W + 2) s (clo_low_input ch hi frame s)"
proof (cases p)
  case None
  with dec stack_inv_mono [OF s, of "W + 2"] show ?thesis by (auto simp: clo_low_input_def)
next
  case (Some low)
  with dec segment_input_ok [OF s W legal [OF Some]] show ?thesis by (simp add: clo_low_input_def)
qed

end

end
