(* ===== verification/Tcp_Beat.thy ===== *)
theory Tcp_Beat
  imports Tcp_Total
begin

text \<open>
  The heartbeat returns and keeps the stack consistent, and is the only place where an object is
  freed; the events of the stack, and its safety over every sequence of them.
\<close>

section \<open>The walks over the connections\<close>

lemma for_clos_ok:
  assumes f: "\<And>s r c. stack_inv P W s \<Longrightarrow> clos s r = Some c \<Longrightarrow> ok P W s (f r s)"
    and s: "stack_inv P W s" and live: "\<forall>r \<in> set rs. clos s r \<noteq> None"
  shows "ok P W s (for_clos f rs s)"
  using s live
proof (induction rs arbitrary: s)
  case Nil
  then show ?case by auto
next
  case (Cons r rs)
  then obtain c where c: "clos s r = Some c" by auto
  show ?case
    unfolding for_clos.simps
  proof (rule ok_bind [OF f [OF Cons.prems(1) c]])
    fix t assume t: "stack_inv P W t" "evolves s t"
    then have "\<forall>r \<in> set rs. clos t r \<noteq> None" using Cons.prems(2) unfolding evolves_def by fastforce
    with t show "ok P W t (for_clos f rs t)" by (intro Cons.IH)
  qed
qed

lemma heads_live: "stack_inv P W s \<Longrightarrow> \<forall>r \<in> set (head_clo s). clos s r \<noteq> None"
  by (simp add: stack_inv_def tables_inv_def list_inv_def key_at_def)

lemma send_wnd_step_ok:
  assumes s: "stack_inv P W s" and c: "clos s r = Some c"
  shows "ok P W s (if (change \<or> have_to_ack c \<noteq> 0) \<and> state c = state_established
     then ackno_send r True s \<bind> with_clo r dec_have_to_ack else Some s)"
proof -
  have "ok P W s (ackno_send r True s \<bind> with_clo r dec_have_to_ack)"
  proof (rule ok_bind [OF ackno_send_ok [OF s c]])
    fix t assume t: "stack_inv P W t" "evolves s t"
    from c t(2) obtain d where "clos t r = Some d" by (rule clo_of_bind)
    with t(1) show "ok P W t (with_clo r dec_have_to_ack t)" by (rule dec_have_to_ack_ok)
  qed
  with s show ?thesis by auto
qed

lemma send_wnd_change_ok:
  assumes s: "stack_inv P W s" and c: "clos s r = Some c"
  shows "okv P W s (if loc_wnd c = 0 then do {
         let res = high_data_rx_possible ch (tcpid c) (env s);
         s \<leftarrow> (if res = -1 then break_of_com_kill_both_sides r s else Some s);
         if res = 1 then (let (change, c) = clo_mngt_adjust_loc_wnd TCP_WND c in Some (change, set_clo r c s))
         else Some (change, s)
       } else Some (change, s))"
proof -
  have w: "stack_inv P W (set_clo r (c\<lparr>loc_wnd := TCP_WND\<rparr>) s)" "evolves s (set_clo r (c\<lparr>loc_wnd := TCP_WND\<rparr>) s)"
    using stack_inv_set_clo [OF s c, of "c\<lparr>loc_wnd := TCP_WND\<rparr>"] evolves_set_clo [OF c, of "c\<lparr>loc_wnd := TCP_WND\<rparr>"]
      stack_inv_conn [OF s c] by (simp_all add: same_conn_def)
  show ?thesis
    using s c w break_of_com_ok [OF s c]
    by (auto simp: clo_mngt_adjust_loc_wnd_def Let_def ok_def okv_def)
qed

lemma send_wnd_loop_ok:
  assumes s: "stack_inv P W s" and live: "\<forall>r \<in> set rs. clos s r \<noteq> None"
  shows "ok P W s (send_wnd_loop ch change rs s)"
  using s live
proof (induction rs arbitrary: s change)
  case Nil
  then show ?case by auto
next
  case (Cons r rs)
  then obtain c where c: "clos s r = Some c" by auto
  show ?case
    unfolding send_wnd_loop.simps
  proof (rule ok_deref [OF c], rule ok_bind_okv [OF send_wnd_change_ok [OF Cons.prems(1) c]], unfold prod.case)
    fix x t assume t: "stack_inv P W t" "evolves s t"
    from c t(2) obtain d where d: "clos t r = Some d" by (rule clo_of_bind)
    show "ok P W t (deref r t \<bind> (\<lambda>c. (if (x \<or> have_to_ack c \<noteq> 0) \<and> state c = state_established
       then ackno_send r True t \<bind> with_clo r dec_have_to_ack else Some t) \<bind> send_wnd_loop ch x rs))"
    proof (rule ok_deref [OF d], rule ok_bind [OF send_wnd_step_ok [OF t(1) d]])
      fix u assume u: "stack_inv P W u" "evolves t u"
      have "\<forall>r \<in> set rs. clos u r \<noteq> None"
        using Cons.prems(2) evolves_trans [OF t(2) u(2)] unfolding evolves_def by fastforce
      with u(1) show "ok P W u (send_wnd_loop ch x rs u)" by (rule Cons.IH)
    qed
  qed
qed

lemma receive_local_data_ok:
  assumes s: "stack_inv P W s" and c: "clos s r = Some c"
  shows "ok P W s (receive_local_data ch r s)"
proof -
  have "ok P W s ((if b then break_of_com_kill_both_sides r s else Some s) \<bind>
      (\<lambda>s. if b' then deliver_rxdata ch r s else Some s))" for b b'
  proof (rule ok_bind)
    show "ok P W s (if b then break_of_com_kill_both_sides r s else Some s)"
      using break_of_com_ok [OF s c] s by auto
    fix t assume t: "stack_inv P W t" "evolves s t"
    from c t(2) obtain d where "clos t r = Some d" by (rule clo_of_bind)
    with t show "ok P W t (if b' then deliver_rxdata ch r t else Some t)" using deliver_rxdata_ok by auto
  qed
  with s show ?thesis
    unfolding receive_local_data_def deref_def c bind.bind_lunit Let_def by auto
qed

lemma send_data_to_send_ok:
  assumes "65535 \<le> W" "W < 2 ^ 30" and s: "stack_inv P W s" and c: "clos s r = Some c"
  shows "ok P W s (send_data_to_send r s)"
  using try_send_ok(1) [OF s c assms(1,2)] s by (auto simp: send_data_to_send_def deref_def c)

lemma close_if_ok:
  assumes s: "stack_inv P W s" and c: "clos s r = Some c"
  shows "ok P W s (close_if ch B r s)"
proof -
  have "ok P W s (clo_high_close_tx ch (tcpid c) s \<bind> (\<lambda>(x, s). Some s))"
    by (rule ok_bind_okv [OF clo_high_close_tx_ok [OF s]]) auto
  with s show ?thesis by (auto simp: close_if_def deref_def c)
qed

lemma non_activ_inc_ok:
  assumes s: "stack_inv P W s" and c: "clos s r = Some c"
  shows "ok P W s (non_activ_inc ch r s)"
proof -
  have closes: "ok P W t (close_if ch B r t \<bind> (\<lambda>s. close_if ch Q r s \<bind> close_if ch R r))"
    if t: "stack_inv P W t" "clos t r = Some d" for t d B Q R
  proof (rule ok_bind [OF close_if_ok [OF t]])
    fix u assume u: "stack_inv P W u" "evolves t u"
    from t(2) u(2) obtain e where e: "clos u r = Some e" by (rule clo_of_bind)
    show "ok P W u (close_if ch Q r u \<bind> close_if ch R r)"
    proof (rule ok_bind [OF close_if_ok [OF u(1) e]])
      fix v assume v: "stack_inv P W v" "evolves u v"
      from e v(2) obtain f where "clos v r = Some f" by (rule clo_of_bind)
      with v(1) show "ok P W v (close_if ch R r v)" by (rule close_if_ok)
    qed
  qed
  have cnt: "ok P W s (with_clo r count_activity s)"
    by (rule ok_with_clo [of P W _ _ c]) (use assms stack_inv_conn [OF s c] in \<open>auto simp: count_activity_def Let_def\<close>)
  show ?thesis
    unfolding non_activ_inc_def
  proof (rule ok_bind [OF cnt])
    fix t assume t: "stack_inv P W t" "evolves s t"
    from c t(2) obtain d where "clos t r = Some d" by (rule clo_of_bind)
    from closes [OF t(1) this] show "ok P W t (close_if ch (\<lambda>c. 500000 < non_activ_count c) r t \<bind>
       (\<lambda>s. close_if ch (\<lambda>c. 10 < syn_sent_non_activ_count c) r s \<bind> close_if ch (\<lambda>c. 10 < tx_repeat_failure_count c) r))" .
  qed
qed

section \<open>Freeing\<close>

text \<open>A connection is freed only here, and only the one whose count has run down.\<close>

lemma clean_closed_frees:
  assumes s: "stack_inv P W s" and c: "clos s r = Some c"
  shows "\<exists>t. clean_closed r s = Some t \<and> stack_inv P W t \<and> (\<forall>q. q \<noteq> r \<longrightarrow> clos t q = clos s q) \<and>
     (clos t r = None \<longleftrightarrow> closed_state_count c = 1 \<and> head_hdata c = [] \<and> head_ldata c = []) \<and>
     head_clo t = (if clos t r = None then remove1 r (head_clo s) else head_clo s)"
proof -
  define d where "d = clo_mngt_set_state state_closed (c\<lparr>closed_state_count := closed_state_count c - 1\<rparr>)"
  have ck: "conn_ok P W c" using s c by (rule stack_inv_conn)
  have dk: "conn_ok P W d" using ck by (simp add: d_def)
  have f: "tcpid d = tcpid c" "head_hdata d = head_hdata c" "head_ldata d = head_ldata c"
    by (simp_all add: d_def clo_mngt_set_state_def)
  have t: "stack_inv P W (set_clo r d s)" "stack_inv P W (set_clo r (c\<lparr>closed_state_count := n\<rparr>) s)" for n
    using stack_inv_set_clo [OF s c, of d] stack_inv_set_clo [OF s c, of "c\<lparr>closed_state_count := n\<rparr>"] dk ck f
    by simp_all
  have del: "clo_mngt_delete_tcp r (set_clo r (c\<lparr>closed_state_count := closed_state_count c - 1\<rparr>) s) =
      util_extract_clo r (set_clo r d s)"
    by (simp add: clo_mngt_delete_tcp_def with_clo_def d_def)
  consider "closed_state_count c = 0" | "closed_state_count c \<noteq> 0" "closed_state_count c \<noteq> 1"
    | "closed_state_count c = 1" "head_hdata c = []" "head_ldata c = []"
    | "closed_state_count c = 1" "head_hdata c \<noteq> [] \<or> head_ldata c \<noteq> []" by blast
  then show ?thesis
  proof cases
    case 1
    with s c show ?thesis by (simp add: clean_closed_def deref_def)
  next
    case 2
    with s c t show ?thesis by (simp add: clean_closed_def deref_def Let_def)
  next
    case 3
    obtain u where u: "util_extract_clo r (set_clo r d s) = Some (True, u)" "tables_inv u"
      "clos u = (clos (set_clo r d s))(r := None)" "g_tcp_max_size u = g_tcp_max_size (set_clo r d s)"
      "head_clo u = remove1 r (head_clo (set_clo r d s))"
      by (rule util_extract_clo_gone [of "set_clo r d s" r d]) (use t(1) 3 f in \<open>auto simp: stack_inv_def\<close>)
    have eq: "clean_closed r s = Some u" using 3 c u(1) del by (simp add: clean_closed_def deref_def Let_def)
    have "stack_inv P W u" using u s unfolding stack_inv_def by (auto split: if_splits)
    with eq u 3 show ?thesis by auto
  next
    case 4
    let ?e = "d\<lparr>head_hdata := [], head_ldata := []\<rparr>"
    have "conn_ok P W ?e" using dk by (simp add: conn_ok_def in_flight_def)
    then have "stack_inv P W (set_clo r ?e s)" using stack_inv_set_clo [OF s c, of ?e] f by simp
    moreover have "util_extract_clo r (set_clo r d s) = Some (False, set_clo r ?e s)"
      using 4 f by (simp add: util_extract_clo_def)
    ultimately show ?thesis
      using 4 c del by (auto simp: clean_closed_def deref_def Let_def async_for_def async_fct_call_def)
  qed
qed

lemma clean_loop:
  assumes "stack_inv P W s" and "distinct rs" and "\<forall>r \<in> set rs. clos s r \<noteq> None"
  shows "\<exists>t. for_clos clean_closed rs s = Some t \<and> stack_inv P W t"
  using assms
proof (induction rs arbitrary: s)
  case Nil
  then show ?case by simp
next
  case (Cons r rs)
  then obtain c where c: "clos s r = Some c" by auto
  from clean_closed_frees [OF Cons.prems(1) c] obtain t where
    t: "clean_closed r s = Some t" "stack_inv P W t" "\<forall>q. q \<noteq> r \<longrightarrow> clos t q = clos s q" by blast
  have "\<forall>q \<in> set rs. clos t q \<noteq> None" using t(3) Cons.prems by auto
  with Cons.IH [OF t(2)] Cons.prems(2) t(1) show ?case by simp
qed

lemma clo_heartbeat_timer_ok:
  assumes s: "stack_inv P W s" and W: "65535 \<le> W" "W < 2 ^ 30"
  shows "\<exists>t. clo_heartbeat_timer ch s = Some t \<and> stack_inv P W t"
proof -
  have s': "stack_inv P W (clo_mngt_timer s)" using s by (simp add: clo_mngt_timer_def)
  obtain a where a: "send_wnd_modif ch (clo_mngt_timer s) = Some a" "stack_inv P W a"
    using send_wnd_loop_ok [OF s' heads_live [OF s']] by (auto simp: ok_def send_wnd_modif_def)
  have "ok P W a (for_clos (receive_local_data ch) (head_clo a) a)"
    by (rule for_clos_ok [OF _ a(2) heads_live [OF a(2)]]) (rule receive_local_data_ok)
  then obtain b where b: "receive_all_local_data ch a = Some b" "stack_inv P W b"
    by (auto simp: ok_def receive_all_local_data_def)
  have "ok P W b (for_clos send_data_to_send (head_clo b) b)"
    by (rule for_clos_ok [OF _ b(2) heads_live [OF b(2)]]) (rule send_data_to_send_ok [OF W])
  then obtain c where c: "send_all_data_to_send b = Some c" "stack_inv P W c"
    by (auto simp: ok_def send_all_data_to_send_def)
  have "ok P W c (for_clos (non_activ_inc ch) (head_clo c) c)"
    by (rule for_clos_ok [OF _ c(2) heads_live [OF c(2)]]) (rule non_activ_inc_ok)
  then obtain d where d: "non_activ_count_inc ch c = Some d" "stack_inv P W d"
    by (auto simp: ok_def non_activ_count_inc_def)
  have "distinct (head_clo d)" using d(2) by (simp add: stack_inv_def tables_inv_def list_inv_def)
  from clean_loop [OF d(2) this heads_live [OF d(2)]] a(1) b(1) c(1) d(1) show ?thesis
    by (simp add: clo_heartbeat_timer_def Let_def clo_clean_closed_def)
qed

end
