(* ===== verification/Tcp_Receive.thy ===== *)
theory Tcp_Receive
  imports Tcp_Total
begin

text \<open>
  What the receiver of a connection accepts: of the segments of a stream of bytes, however they
  are lost, repeated or reordered, the receiver keeps a prefix of the stream, and a segment is
  accepted exactly when it is the next one. Also: the tests on wrapped sequence numbers are
  comparisons modulo \<open>2^32\<close>.
\<close>

section \<open>Sequence numbers that wrap around\<close>

lemma between_iff: "a \<le> c \<Longrightarrow> a \<le> b \<and> b \<le> c \<longleftrightarrow> uint (b - a) \<le> uint (c - a)" for a b c :: u32
proof -
  define A B C where "A = uint a" and "B = uint b" and "C = uint c"
  have r: "0 \<le> A" "A < 4294967296" "0 \<le> B" "B < 4294967296" "0 \<le> C" "C < 4294967296"
    using uint_lt2p [of a] uint_lt2p [of b] uint_lt2p [of c] by (simp_all add: A_def B_def C_def)
  assume "a \<le> c"
  then have ac: "A \<le> C" by (simp add: word_le_def A_def C_def)
  have "uint (b - a) = (if A \<le> B then B - A else B - A + 4294967296)" "uint (c - a) = C - A"
    using ac by (simp_all add: uint_sub_if' A_def B_def C_def)
  moreover have "a \<le> b \<longleftrightarrow> A \<le> B" "b \<le> c \<longleftrightarrow> B \<le> C" by (simp_all add: word_le_def A_def B_def C_def)
  ultimately show ?thesis using r ac by auto
qed

lemma wrap_shift:
  fixes x k :: u32
  assumes "\<not> x \<le> x + k" and "uint k \<le> 0x0FFFFFFF"
  shows "x + 0x10000000 \<le> x + k + 0x10000000"
proof -
  have u: "uint x < 2 ^ 32" "uint k < 2 ^ 32" using uint_lt2p [of x] uint_lt2p [of k] by simp_all
  have "\<not> uint x + uint k < 2 ^ 32" using assms(1) by (simp add: no_olen_add)
  then have x: "2 ^ 32 \<le> uint x + uint k" by simp
  with assms(2) u have "uint (x + 0x10000000) = uint x + 0x10000000 - 2 ^ 32"
    by (simp add: uint_plus_if')
  moreover have "uint (x + k) = uint x + uint k - 2 ^ 32" using x u by (simp add: uint_plus_if')
  then have "uint (x + k + 0x10000000) = uint x + uint k - 2 ^ 32 + 0x10000000"
    using u assms(2) by (simp add: uint_plus_if')
  ultimately show ?thesis using uint_ge_0 [of k] by (simp add: word_le_def)
qed

section \<open>Segments of a stream\<close>

definition is_segment_of :: "u8 list \<Rightarrow> u32 \<Rightarrow> nat \<Rightarrow> t_low \<Rightarrow> bool" where
  "is_segment_of S base k low \<longleftrightarrow> seqno low = base + of_nat k \<and> k + unat (datalen low) \<le> length S \<and>
     low_data low = take (unat (datalen low)) (drop k S) \<and> tcplen low = datalen low \<and>
     \<not> has (flags low) TH_FIN"

definition rx_bytes :: "t_clo \<Rightarrow> u8 list" where
  "rx_bytes c = concat (map (\<lambda>l. take (unat (datalen l)) (low_data l)) (head_ldata c))"

definition data_states :: "clo_state set" where
  "data_states = {state_established, state_fin_wait1, state_fin_wait_last_ack, state_fin_wait2}"

lemma word_of_nat_inj32: "m < 2 ^ 32 \<Longrightarrow> n < 2 ^ 32 \<Longrightarrow> (of_nat m :: u32) = of_nat n \<longleftrightarrow> m = n"
proof
  assume m: "m < 2 ^ 32" "n < 2 ^ 32" and "(of_nat m :: u32) = of_nat n"
  then have "unat (of_nat m :: u32) = unat (of_nat n :: u32)" by simp
  with m show "m = n" by (simp add: unat_of_nat)
qed simp

lemma seg_add: "base + of_nat k + ucast (w :: u16) = (base + of_nat (k + unat w) :: u32)"
  by (simp add: algebra_simps)

lemma next_in_window: "seqno low = recv_next c \<Longrightarrow> in_rx_window c low"
proof (cases "recv_next c \<le> recv_next c + 2 * ucast TCP_WND")
  case True
  moreover assume "seqno low = recv_next c"
  ultimately show ?thesis by (simp add: in_rx_window_def ajust_def Let_def split_beta)
next
  case False
  assume same: "seqno low = recv_next c"
  have "uint (2 * ucast TCP_WND :: u32) \<le> 0x0FFFFFFF" by (simp add: TCP_WND_def)
  from wrap_shift [OF False this]
  have "recv_next c + 0x10000000 \<le> recv_next c + 0x10000000 + 2 * ucast TCP_WND"
    by (simp only: add.assoc add.commute [of "2 * ucast TCP_WND"])
  then show ?thesis using same False by (simp add: in_rx_window_def ajust_def Let_def split_beta)
qed

text \<open>The receiver is at byte \<open>n\<close> of the stream.\<close>

definition rx_at :: "u32 \<Rightarrow> nat \<Rightarrow> t_clo \<Rightarrow> bool" where
  "rx_at base n c \<longleftrightarrow> state c \<in> data_states \<and> recv_next c = base + of_nat n"

lemma low_input_data:
  assumes "rx_at base n c" and seg: "is_segment_of S base k low"
    and len: "length S < 2 ^ 32" "n \<le> length S"
    and eq: "clo_mngt_low_input low c = (b, i, d)"
  shows "i \<longleftrightarrow> datalen low \<noteq> 0 \<and> k = n"
    and "rx_bytes d = (if i then rx_bytes c @ take (unat (datalen low)) (drop n S) else rx_bytes c)"
    and "rx_at base (if i then n + unat (datalen low) else n) d"
proof -
  have st: "state c \<in> data_states" and rn: "recv_next c = base + of_nat n"
    using assms(1) by (simp_all add: rx_at_def)
  have nf: "\<not> has (flags low) TH_FIN" and sq: "seqno low = base + of_nat k" and k: "k \<le> length S"
    and dat: "low_data low = take (unat (datalen low)) (drop k S)" and tl: "tcplen low = datalen low"
    using seg by (simp_all add: is_segment_of_def)
  have same: "seqno low = recv_next c \<longleftrightarrow> k = n"
    using word_of_nat_inj32 [of k n] k len by (simp add: sq rn)
  have in_win: "in_rx_window c low" if "k = n" using next_in_window same that by blast
  define e where "e = (if has (flags low) TH_ACK \<and> ack_acceptable c low
      then update_unack_release_past_hdata (ackno low) c else c)"
  have e: "head_ldata e = head_ldata c" "state e = state c" "recv_next e = recv_next c"
    by (simp_all add: e_def)
  have st': "state c \<noteq> state_created" "state c \<noteq> state_first_syn_sent"
    "state c \<in> {state_established, state_fin_wait1, state_fin_wait_last_ack, state_fin_wait2}"
    using st by (auto simp: data_states_def)
  have low: "clo_mngt_low_input low c = (if in_rx_window c low
      then if datalen low \<noteq> 0 \<and> seqno low = recv_next c
        then (True, True, e\<lparr>head_ldata := head_ldata c @ [low], have_to_ack := 1,
                            recv_next := seqno low + ucast (datalen low), dist_wnd := wnd low\<rparr>)
        else (True, False, e)
      else (False, False, c))"
    unfolding clo_mngt_low_input_def Let_def adjusted_tcplen_def e_def [symmetric] util_insert_ldata_def
    by (simp only: st' nf e tl simp_thms if_False if_True)
  show "i \<longleftrightarrow> datalen low \<noteq> 0 \<and> k = n"
    using eq in_win unfolding low by (auto simp: same split: if_splits)
  show "rx_bytes d = (if i then rx_bytes c @ take (unat (datalen low)) (drop n S) else rx_bytes c)"
    using eq e(1) unfolding low by (auto simp: rx_bytes_def same dat split: if_splits)
  have "recv_next d = (if i then seqno low + ucast (datalen low) else recv_next c)" "state d = state c"
    using eq e(2,3) unfolding low by (auto split: if_splits)
  then show "rx_at base (if i then n + unat (datalen low) else n) d"
    using st eq unfolding low rx_at_def by (auto simp: rn same seg_add split: if_splits)
qed

section \<open>A run of the receiver\<close>

text \<open>Segments arrive, and the received data is taken.\<close>

datatype rx_event = Rx_segment t_low | Rx_take

fun rx_step :: "t_clo \<times> u8 list \<Rightarrow> rx_event \<Rightarrow> (t_clo \<times> u8 list) run" where
  "rx_step (c, out) (Rx_segment low) = (case clo_mngt_low_input low c of (b, i, d) \<Rightarrow> Some (d, out))"
| "rx_step (c, out) Rx_take = do {
     (data, c) \<leftarrow> clo_mngt_get_new_rxdata c;
     Some (c, out @ (case data of None \<Rightarrow> [] | Some d \<Rightarrow> d))
   }"

definition rx_inv :: "u8 list \<Rightarrow> u32 \<Rightarrow> t_clo \<times> u8 list \<Rightarrow> bool" where
  "rx_inv S base = (\<lambda>(c, out). \<exists>n. n \<le> length S \<and> rx_at base n c \<and> out @ rx_bytes c = take n S \<and>
     list_all (\<lambda>l. datalen l \<noteq> 0) (head_ldata c))"

fun rx_legal :: "u8 list \<Rightarrow> u32 \<Rightarrow> rx_event \<Rightarrow> bool" where
  "rx_legal S base (Rx_segment low) = (\<exists>k. is_segment_of S base k low)"
| "rx_legal S base Rx_take = True"

lemma low_input_ldata:
  "clo_mngt_low_input low c = (b, i, d) \<Longrightarrow> list_all (\<lambda>l. datalen l \<noteq> 0) (head_ldata c) \<Longrightarrow>
   list_all (\<lambda>l. datalen l \<noteq> 0) (head_ldata d)"
  by (auto simp: clo_mngt_low_input_def Let_def util_insert_ldata_def split: if_splits)

lemma rx_step_inv:
  assumes inv: "rx_inv S base x" and legal: "rx_legal S base e" and S: "length S < 2 ^ 32"
  shows "\<exists>y. rx_step x e = Some y \<and> rx_inv S base y"
proof -
  obtain c out where x: "x = (c, out)" by (cases x)
  obtain n where n: "n \<le> length S" "rx_at base n c" "out @ rx_bytes c = take n S"
    "list_all (\<lambda>l. datalen l \<noteq> 0) (head_ldata c)" using inv by (auto simp: rx_inv_def x)
  show ?thesis
  proof (cases e)
    case (Rx_segment low)
    then obtain k where seg: "is_segment_of S base k low" using legal by auto
    obtain b i d where eq: "clo_mngt_low_input low c = (b, i, d)" by (metis prod_cases3)
    note l = low_input_data [OF n(2) seg S n(1) eq]
    have "rx_inv S base (d, out)"
    proof (cases i)
      case True
      then have "n + unat (datalen low) \<le> length S" using l(1) seg by (simp add: is_segment_of_def)
      moreover have "out @ rx_bytes d = take (n + unat (datalen low)) S"
        using True l(2) n(3) by (simp add: take_add flip: append_assoc)
      ultimately show ?thesis
        using True l(3) low_input_ldata [OF eq n(4)] by (auto simp: rx_inv_def)
    next
      case False
      then show ?thesis using l n low_input_ldata [OF eq n(4)] by (auto simp: rx_inv_def)
    qed
    with Rx_segment eq x show ?thesis by simp
  next
    case Rx_take
    define d where "d = (if head_ldata c = [] then c else c\<lparr>non_activ_count := 0, head_ldata := []\<rparr>)"
    have "rx_inv S base (d, out @ rx_bytes c)"
      using n by (auto simp: rx_inv_def d_def rx_bytes_def rx_at_def)
    moreover have "rx_step x e = Some (d, out @ rx_bytes c)"
      using get_new_rxdata_eq [OF n(4)] by (simp add: Rx_take x d_def rx_bytes_def)
    ultimately show ?thesis by blast
  qed
qed

lemma rx_run_inv:
  "rx_inv S base x \<Longrightarrow> list_all (rx_legal S base) es \<Longrightarrow> length S < 2 ^ 32 \<Longrightarrow>
   \<exists>y. run_events rx_step x es = Some y \<and> rx_inv S base y"
proof (induction es arbitrary: x)
  case (Cons e es)
  then obtain y where "rx_step x e = Some y" "rx_inv S base y" using rx_step_inv [of S base x e] by auto
  with Cons show ?case by simp
qed simp

section \<open>The properties of the receiver\<close>


text \<open>a segment of the stream with data is accepted exactly when it starts at the next byte, and
  then all of its bytes are kept.\<close>

theorem receiver_accepts_the_next:
  assumes "length S < 2 ^ 32" and "n \<le> length S" and "state c \<in> data_states"
    and "recv_next c = base + of_nat n" and "is_segment_of S base k low" and "datalen low \<noteq> 0"
  shows "\<exists>b d. clo_mngt_low_input low c = (b, k = n, d) \<and>
     rx_bytes d = rx_bytes c @ (if k = n then take (unat (datalen low)) (drop n S) else []) \<and>
     recv_next d = (if k = n then base + of_nat (n + unat (datalen low)) else recv_next c)"
proof -
  obtain b i d where eq: "clo_mngt_low_input low c = (b, i, d)" by (metis prod_cases3)
  have at: "rx_at base n c" using assms by (simp add: rx_at_def)
  note l = low_input_data [OF at assms(5,1,2) eq]
  have "i \<longleftrightarrow> k = n" using l(1) assms(6) by simp
  with l(2,3) eq assms(4) show ?thesis by (auto simp: rx_at_def)
qed

text \<open>C11: the acknowledgement test with its correction by \<open>0x10000000\<close> is the comparison modulo
  \<open>2^32\<close>: an acknowledgement is taken exactly when it lies between the first number that is not
  acknowledged and the next one to send.\<close>

theorem ack_test_is_modular:
  assumes "in_flight c < 0x10000000"
  shows "ack_acceptable c low \<longleftrightarrow> uint (ackno low - send_unack c) \<le> in_flight c"
proof (cases "send_unack c \<le> send_next c")
  case True
  then show ?thesis
    using between_iff [OF True, of "ackno low"]
    by (simp add: ack_acceptable_def ajust_def Let_def split_beta in_flight_def)
next
  case False
  define u n where "u = send_unack c" and "n = send_next c"
  have r: "uint u < 4294967296" "uint n < 4294967296" "0 \<le> uint n" using uint_lt2p [of u] uint_lt2p [of n] by simp_all
  have lt: "\<not> uint u \<le> uint n" using False by (simp add: u_def n_def word_le_def)
  then have fl: "uint n - uint u + 4294967296 < 0x10000000"
    using assms by (simp add: in_flight_def u_def n_def uint_sub_if')
  have big: "4026531840 \<le> uint u" "uint n < 268435456"
    using fl uint_ge_0 [of n] r by linarith+
  then have "uint (u + 0x10000000) = uint u + 0x10000000 - 2 ^ 32"
    "uint (n + 0x10000000) = uint n + 0x10000000"
    using r by (simp_all add: uint_plus_if')
  moreover have "uint u \<le> 4294967296 + uint n" using r by linarith
  ultimately have "u + 0x10000000 \<le> n + 0x10000000" by (simp add: word_le_def)
  from between_iff [OF this, of "ackno low + 0x10000000"] show ?thesis
    using False by (simp add: ack_acceptable_def ajust_def Let_def split_beta in_flight_def u_def n_def)
qed

section \<open>The properties at work\<close>

definition demo_tid :: t_tcp_id where
  "demo_tid = \<lparr>local_mac = [0x42, 0xCA, 0xFE, 0x13, 7, 2], remote_mac = [2, 0, 0, 0, 0, 1],
     local_ip = 0x0A000001, remote_ip = 0x0A000002, local_port = 80, remote_port = 4000,
     llid = 0, llid_unlocked = 0\<rparr>"

definition demo_clo :: t_clo where
  "demo_clo = (clo_zero demo_tid 1)\<lparr>state := state_established, recv_next := 0xFFFFFFFE,
     send_unack := 0xFFFFFFF0, send_next := 16, dist_wnd := 50000, loc_wnd := TCP_WND\<rparr>"

definition demo_stack :: "t_clo \<Rightarrow> unit clo_sys" where
  "demo_stack c = (clo_init ())\<lparr>clos := [0 \<mapsto> c], next_clo := 1, head_clo := [0], g_250ms_count := 7,
     g_head_fast_clo := (\<lambda>i. if key_hash (conn_key (tcpid c)) = Some i then [0] else [])\<rparr>"

lemma demo_stack_inv:
  assumes "conn_ok P W c" and "llid (tcpid c) = 0"
  shows "stack_inv P W (demo_stack c)"
proof -
  have k: "key_at (demo_stack c) r = (if r = 0 then Some (conn_key (tcpid c)) else None)"
    "llid_at (demo_stack c) r = (if r = 0 then Some 0 else None)" for r
    using assms(2) by (simp_all add: key_at_def llid_at_def demo_stack_def)
  have "tables_inv (demo_stack c)"
    unfolding tables_inv_def tables_parts k
    by (auto simp: demo_stack_def clo_init_def clo_mngt_init_def simp del: split_paired_Ex)
  then show ?thesis
    using assms by (auto simp: stack_inv_def demo_stack_def clo_init_def clo_mngt_init_def TCP_MAX_SIZE_def split: if_splits)
qed

definition demo_seg :: "nat \<Rightarrow> t_low" where
  "demo_seg k = \<lparr>mac_src = [2, 0, 0, 0, 0, 1], mac_dest = [0x42, 0xCA, 0xFE, 0x13, 7, 2],
     ip_src = 0x0A000002, ip_dest = 0x0A000001, tcp_src = 4000, tcp_dest = 80, ackno = 8,
     seqno = 0xFFFFFFFE + of_nat k, flags = TH_PUSH OR TH_ACK, wnd = 50000, datalen = 2, tcplen = 2,
     low_data = take 2 (drop k [1, 2, 3, 4, 5, 6])\<rparr>"

lemma demo_seg_of: "k \<le> 4 \<Longrightarrow> is_segment_of [1, 2, 3, 4, 5, 6] 0xFFFFFFFE k (demo_seg k)"
  by (simp add: is_segment_of_def demo_seg_def has_def TH_PUSH_def TH_ACK_def TH_FIN_def)


theorem receiver_accepts_the_next_witness:
  "\<exists>b d. clo_mngt_low_input (demo_seg 0) demo_clo = (b, True, d) \<and> rx_bytes d = [1, 2] \<and> recv_next d = 0"
proof -
  have f: "state demo_clo \<in> data_states" "recv_next demo_clo = 0xFFFFFFFE + of_nat 0"
    "datalen (demo_seg 0) \<noteq> 0" "unat (datalen (demo_seg 0)) = 2" "rx_bytes demo_clo = []"
    by (simp_all add: demo_clo_def clo_zero_def data_states_def demo_seg_def rx_bytes_def)
  from receiver_accepts_the_next [OF _ _ f(1,2) demo_seg_of [of 0] f(3)] f(4,5) show ?thesis by auto
qed

theorem ack_test_is_modular_witness:
  "ack_acceptable demo_clo (demo_seg 0) \<longleftrightarrow> uint (ackno (demo_seg 0) - 0xFFFFFFF0) \<le> 32"
  using ack_test_is_modular [of demo_clo "demo_seg 0"] by (simp add: in_flight_def demo_clo_def)

end
