(* ===== verification/Tcp_Send.thy ===== *)
theory Tcp_Send
  imports Tcp_Receive
begin

text \<open>
  What the sender of a connection emits: whatever is written, acknowledged and repeated, every
  data frame carries bytes of the written stream at their place in it, so it is a segment of the
  stream in the sense of the receiver.
\<close>

section \<open>Frames of a stream\<close>

definition is_data_frame :: "u8 list \<Rightarrow> u32 \<Rightarrow> u8 list \<Rightarrow> bool" where
  "is_data_frame S base f \<longleftrightarrow>
     (\<exists>low k. packet_ip_input_tcp f = Some (Some low) \<and> is_segment_of S base k low \<and> datalen low \<noteq> 0)"

lemma is_data_frame_append: "is_data_frame S base f \<Longrightarrow> is_data_frame (S @ T) base f"
  unfolding is_data_frame_def is_segment_of_def
  by (elim exE conjE, intro exI conjI, assumption+) (auto simp: take_append)

definition is_block :: "u8 list \<Rightarrow> nat \<Rightarrow> t_hdata \<Rightarrow> bool" where
  "is_block S k h \<longleftrightarrow> k + length (hd_data h) \<le> length S \<and> hd_data h = take (length (hd_data h)) (drop k S)"

lemma is_block_append: "is_block S k h \<Longrightarrow> is_block (S @ T) k h"
  by (auto simp: is_block_def)

definition macs_ok :: "t_tcp_id \<Rightarrow> bool" where
  "macs_ok tid \<longleftrightarrow> length (local_mac tid) = 6 \<and> length (remote_mac tid) = 6"

lemma send_data_frame:
  assumes h: "hd_ok h" and b: "is_block S k h" and m: "macs_ok tid"
  shows "\<exists>f. low_out (util_send_data tid a (base + of_nat k) w (hd_len h) (hd_data h) s) = low_out s @ [f] \<and>
     is_data_frame S base f"
proof -
  define low where "low = util_make_low tid a (base + of_nat k) (TH_PUSH OR TH_ACK) w (hd_len h) (hd_data h)"
  have n: "0 < hd_len h" "hd_len h \<le> 1400" "int (length (hd_data h)) = hd_len h" using h by (simp_all add: hd_ok_def)
  have dl: "datalen low = word_of_int (hd_len h)" using n by (simp add: low_def util_make_low_def util_tcpid2low_def)
  have u: "unat (datalen low) = length (hd_data h)"
  proof -
    have "uint (datalen low) = hd_len h" unfolding dl uint_word_of_int using n by simp
    then show ?thesis using n(3) by (metis nat_int unat_eq_nat_uint)
  qed
  have f: "mac_src low = local_mac tid" "mac_dest low = remote_mac tid" "low_data low = hd_data h"
    "seqno low = base + of_nat k" "flags low = TH_PUSH OR TH_ACK"
    using n by (simp_all add: low_def util_make_low_def util_tcpid2low_def)
  have "low_ok low" using m n by (simp add: low_ok_def f u macs_ok_def)
  from segment_roundtrip [OF this] have
    "packet_ip_input_tcp (fst (tcp_low2packet (identification s) low)) = Some (Some (low_received low))" .
  moreover have "is_segment_of S base k (low_received low)"
    using b by (simp add: is_segment_of_def low_received_def f u is_block_def has_def TH_PUSH_def TH_ACK_def
        TH_FIN_def TH_SYN_def)
  moreover have "datalen (low_received low) \<noteq> 0" using u n by (auto simp: low_received_def)
  ultimately have "is_data_frame S base (fst (tcp_low2packet (identification s) low))"
    unfolding is_data_frame_def by blast
  then show ?thesis by (simp add: util_send_data_def send_seg_def low_def [symmetric] split_beta)
qed

section \<open>The invariant of the sender\<close>

text \<open>The first \<open>m\<close> blocks were sent; the others are the rest of the stream, from the byte that
  \<open>send_next\<close> numbers.\<close>

definition tx_inv :: "u8 list \<Rightarrow> u32 \<Rightarrow> nat \<Rightarrow> t_clo \<Rightarrow> bool" where
  "tx_inv S base m c \<longleftrightarrow> m \<le> length (head_hdata c) \<and> list_all hd_ok (head_hdata c) \<and>
     (\<exists>n \<le> length S. send_next c = base + of_nat n \<and> concat (map hd_data (drop m (head_hdata c))) = drop n S) \<and>
     (\<forall>h \<in> set (drop m (head_hdata c)). count_250ms h = 0) \<and>
     (\<forall>h \<in> set (take m (head_hdata c)). count_250ms h \<noteq> 0 \<and> (\<exists>k. is_block S k h \<and> hd_seqno h = base + of_nat k))"

definition tx_conn :: "t_clo \<Rightarrow> bool" where
  "tx_conn c \<longleftrightarrow> state c = state_established \<and> macs_ok (tcpid c)"

definition emits :: "u8 list \<Rightarrow> u32 \<Rightarrow> 'e clo_sys \<Rightarrow> 'e clo_sys \<Rightarrow> bool" where
  "emits S base s t \<longleftrightarrow> (\<exists>fs. low_out t = low_out s @ fs \<and> (\<forall>f \<in> set fs. is_data_frame S base f)) \<and>
     g_250ms_count t = g_250ms_count s \<and> g_tcp_max_size t = g_tcp_max_size s"

lemma emits_refl [simp]: "emits S base s s"
  by (simp add: emits_def)

lemma emits_trans: "emits S base s t \<Longrightarrow> emits S base t u \<Longrightarrow> emits S base s u"
  unfolding emits_def by fastforce

lemma emits_set_clo [simp]: "emits S base s (set_clo r c s)"
  by (simp add: emits_def)

lemma emits_append: "emits S base s t \<Longrightarrow> emits (S @ T) base s t"
  unfolding emits_def using is_data_frame_append by blast

lemma tx_inv_count:
  assumes "tx_inv S base m c" and "k < length (head_hdata c)"
  shows "count_250ms (head_hdata c ! k) = 0 \<longleftrightarrow> m \<le> k"
proof (cases "k < m")
  case True
  then have "head_hdata c ! k \<in> set (take m (head_hdata c))" using assms by (auto simp: in_set_conv_nth)
  with assms(1) True show ?thesis by (simp add: tx_inv_def)
next
  case False
  then have "head_hdata c ! k = drop m (head_hdata c) ! (k - m)" using assms by simp
  moreover have "k - m < length (drop m (head_hdata c))" using False assms(2) by simp
  ultimately have "head_hdata c ! k \<in> set (drop m (head_hdata c))" by (metis nth_mem)
  with assms(1) False show ?thesis by (simp add: tx_inv_def)
qed

text \<open>The block at position \<open>k\<close> is sent: a new one when it is the first that was not, and an old
  one again.\<close>

lemma sent_block_tx:
  assumes inv: "tx_inv S base m c" and k: "k < length (head_hdata c)" and now: "now \<noteq> 0"
    and c: "k = m \<and> a \<or> k < m \<and> \<not> a"
  shows "tx_inv S base (if a then Suc m else m) (sent_block now k a c)"
    and "\<exists>o'. is_block S o' (head_hdata c ! k) \<and>
       (if count_250ms (head_hdata c ! k) = 0 then send_next c else hd_seqno (head_hdata c ! k)) = base + of_nat o'"
proof -
  define hs where "hs = head_hdata c"
  define h where "h = hs ! k"
  define h' where "h' = h\<lparr>hd_seqno := (if count_250ms h = 0 then send_next c else hd_seqno h),
    count_250ms := now, count_tries_tx := i32 (count_tries_tx h + 1)\<rparr>"
  have hd': "head_hdata (sent_block now k a c) = hs[k := h']"
    by (simp add: sent_block_hdata hs_def h_def h'_def)
  have sn: "send_next (sent_block now k a c) = (if a then send_next c + word_of_int (hd_len h) else send_next c)"
    by (simp add: sent_block_send_next hs_def h_def)
  obtain n where n: "n \<le> length S" "send_next c = base + of_nat n" "concat (map hd_data (drop m hs)) = drop n S"
    using inv by (auto simp: tx_inv_def hs_def)
  have ok: "list_all hd_ok hs" "m \<le> length hs" and kl: "k < length hs"
    using inv k by (simp_all add: tx_inv_def hs_def)
  then have hok: "hd_ok h" by (simp add: list_all_length h_def)
  then have len: "int (length (hd_data h)) = hd_len h" by (simp add: hd_ok_def)
  have z: "count_250ms h = 0 \<longleftrightarrow> m \<le> k" using tx_inv_count [OF inv k] by (simp add: h_def hs_def)
  have dat: "hd_data h' = hd_data h" "hd_ok h' = hd_ok h" "count_250ms h' = now"
    by (simp_all add: h'_def hd_ok_def)
  have old: "\<forall>g \<in> set (take m hs). count_250ms g \<noteq> 0 \<and> (\<exists>k. is_block S k g \<and> hd_seqno g = base + of_nat k)"
    and new: "\<forall>g \<in> set (drop m hs). count_250ms g = 0"
    using inv by (simp_all add: tx_inv_def hs_def)
  have allok: "list_all hd_ok (hs[k := h'])"
    using ok hok kl dat by (auto simp: list_all_length nth_list_update)
  have place: "\<exists>o'. is_block S o' h \<and> (if count_250ms h = 0 then send_next c else hd_seqno h) = base + of_nat o'"
  proof (cases "k < m")
    case True
    then have "h \<in> set (take m hs)" using kl by (auto simp: in_set_conv_nth h_def)
    with old z True show ?thesis by auto
  next
    case False
    then have km: "k = m" using c by simp
    have "drop m hs = h # drop (Suc m) hs" using kl km by (simp add: Cons_nth_drop_Suc h_def)
    then have "drop n S = hd_data h @ concat (map hd_data (drop (Suc m) hs))" using n(3) by simp
    then have "is_block S n h"
      using n(1) by (simp add: is_block_def) (metis add_diff_inverse_nat append_eq_conv_conj length_append
          length_drop le_add1 linorder_not_less nat_add_left_cancel_le)
    with n(2) z km show ?thesis by auto
  qed
  then show "\<exists>o'. is_block S o' (head_hdata c ! k) \<and>
     (if count_250ms (head_hdata c ! k) = 0 then send_next c else hd_seqno (head_hdata c ! k)) = base + of_nat o'"
    unfolding h_def hs_def .
  obtain o' where o': "is_block S o' h" "hd_seqno h' = base + of_nat o'" using place by (auto simp: h'_def)
  have blk: "is_block S o' h'" using o'(1) by (simp add: is_block_def dat)
  show "tx_inv S base (if a then Suc m else m) (sent_block now k a c)"
  proof (cases a)
    case True
    then have km: "k = m" using c by simp
    have d: "drop m hs = h # drop (Suc m) hs" using kl km by (simp add: Cons_nth_drop_Suc h_def)
    then have dn: "drop n S = hd_data h @ concat (map hd_data (drop (Suc m) hs))" using n(3) by simp
    have n': "n + length (hd_data h) \<le> length S" 
      using dn n(1) by (metis length_append length_drop le_add1 le_diff_conv2 add.commute)
    have "drop (n + length (hd_data h)) S = concat (map hd_data (drop (Suc m) hs))"
      using dn by (metis append_eq_conv_conj drop_drop add.commute)
    moreover have "send_next c + word_of_int (hd_len h) = base + of_nat (n + length (hd_data h))"
      by (simp add: n(2) len [symmetric])
    moreover have "take (Suc m) (hs[m := h']) = take m hs @ [h']"
      using kl km by (simp add: take_Suc_conv_app_nth)
    moreover have "drop (Suc m) (hs[m := h']) = drop (Suc m) hs" by simp
    moreover have "\<forall>g \<in> set (drop (Suc m) hs). count_250ms g = 0" using new d by simp
    ultimately show ?thesis
      using True km n' allok old blk o'(2) now kl unfolding tx_inv_def hd' sn
      by (auto simp: dat)
  next
    case False
    then have km: "k < m" using c by simp
    have "drop m (hs[k := h']) = drop m hs" using km by simp
    moreover have "take m (hs[k := h']) = (take m hs)[k := h']" using km by (simp add: take_update_swap)
    moreover have "\<forall>g \<in> set ((take m hs)[k := h']). count_250ms g \<noteq> 0 \<and>
        (\<exists>k. is_block S k g \<and> hd_seqno g = base + of_nat k)"
      using old blk o'(2) now dat(3) set_update_subset_insert [of "take m hs" k h'] by blast
    ultimately show ?thesis
      using False n ok allok new unfolding tx_inv_def hd' sn by auto
  qed
qed

section \<open>The walks over the blocks\<close>

definition tx_at :: "(u8 list \<times> u32 \<times> u16 \<Rightarrow> bool) \<Rightarrow> int \<Rightarrow> u8 list \<Rightarrow> u32 \<Rightarrow> nat \<Rightarrow> 'e clo_sys \<Rightarrow> t_clo \<Rightarrow> nat \<Rightarrow> bool" where
  "tx_at P W S base r s c m \<longleftrightarrow> stack_inv P W s \<and> g_250ms_count s \<noteq> 0 \<and> clos s r = Some c \<and> tx_conn c \<and>
     tx_inv S base m c"

definition can_send :: "t_clo \<Rightarrow> bool" where
  "can_send c \<longleftrightarrow> in_flight c + 1401 < uint (dist_wnd c)"

lemma tx_at_auth:
  "tx_at P W S base r s c m \<Longrightarrow> W < 2 ^ 30 \<Longrightarrow>
   clo_mngt_authorised_to_send_nexttx (g_tcp_max_size s) c = Some (can_send c)"
  using authorised_returns [of P W c] stack_inv_conn [of P W s r c]
  by (simp add: tx_at_def stack_inv_def can_send_def)

lemma local_send_tx:
  assumes at: "tx_at P W S base r s c m" and k: "k < length (head_hdata c)" and W: "65535 \<le> W" "W < 2 ^ 30"
    and a: "k = m \<and> a \<and> can_send c \<or> k < m \<and> \<not> a"
  shows "\<exists>t d. local_send_data_to_low r k a s = Some t \<and> emits S base s t \<and>
     tx_at P W S base r t d (if a then Suc m else m) \<and> length (head_hdata d) = length (head_hdata c)"
proof -
  let ?h = "head_hdata c ! k"
  have s: "stack_inv P W s" and c: "clos s r = Some c" and tc: "tx_conn c" and inv: "tx_inv S base m c"
    and now: "g_250ms_count s \<noteq> 0" using at by (simp_all add: tx_at_def)
  have cnt: "count_250ms ?h = 0 \<longleftrightarrow> m \<le> k" by (rule tx_inv_count [OF inv k])
  have hok: "hd_ok ?h" using inv k by (simp add: tx_inv_def list_all_length)
  define q where "q = (if count_250ms ?h = 0 then send_next c else hd_seqno ?h)"
  define d where "d = sent_block (g_250ms_count s) k a c"
  define u where "u = util_send_data (tcpid c) (recv_next c) q (loc_wnd c) (hd_len ?h) (hd_data ?h) s"
  have cond: "k = m \<and> a \<or> k < m \<and> \<not> a" using a by blast
  note blk = sent_block_tx [OF inv k now cond]
  obtain o' where o': "is_block S o' ?h" "q = base + of_nat o'" using blk(2) by (auto simp: q_def)
  obtain f where f: "low_out u = low_out s @ [f]" "is_data_frame S base f"
    using send_data_frame [OF hok o'(1), of "tcpid c" "recv_next c" base "loc_wnd c" s] tc
    by (auto simp: u_def o'(2) tx_conn_def)
  have eq: "local_send_data_to_low r k a s = Some (set_clo r d u)"
    unfolding d_def u_def q_def by (rule local_send_data_to_low_eq) (use c tc k hok cnt a in \<open>auto simp: tx_conn_def\<close>)
  have em: "emits S base s (set_clo r d u)"
    using f by (simp add: emits_def) (simp add: u_def util_send_data_def)
  have "conn_ok P W d"
    unfolding d_def by (rule sent_block_ok [OF stack_inv_conn [OF s c] k W]) (use a in \<open>auto simp: can_send_def\<close>)
  then have "stack_inv P W (set_clo r d u)"
    by (intro stack_inv_set_clo [of _ _ _ _ c]) (use s c in \<open>simp_all add: u_def util_send_data_def d_def\<close>)
  moreover have "g_250ms_count (set_clo r d u) \<noteq> 0" using now by (simp add: u_def util_send_data_def)
  moreover have "tx_conn d" using tc by (simp add: tx_conn_def d_def)
  moreover have "tx_inv S base (if a then Suc m else m) d" using blk(1) by (simp add: d_def)
  ultimately show ?thesis
    using eq em by (intro exI [of _ "set_clo r d u"] exI [of _ d]) (simp add: tx_at_def, simp add: d_def)
qed

lemma send_timer_loop_tx:
  assumes "tx_at P W S base r s c m" and "k \<le> length (head_hdata c)" and "k \<le> m \<or> \<not> can_send c"
    and W: "65535 \<le> W" "W < 2 ^ 30"
  shows "\<exists>t d m'. send_timer_loop [k..<length (head_hdata c)] r s = Some t \<and> emits S base s t \<and>
     tx_at P W S base r t d m'"
  using assms(1-3)
proof (induction "length (head_hdata c) - k" arbitrary: k s c m)
  case 0
  then show ?case using emits_refl by (intro exI [of _ s] exI [of _ c] exI [of _ m]) simp
next
  case (Suc n)
  let ?h = "head_hdata c ! k" and ?ks = "[Suc k..<length (head_hdata c)]"
  have k: "k < length (head_hdata c)" and n: "n = length (head_hdata c) - Suc k" using Suc.hyps(2) by simp_all
  then have ks: "[k..<length (head_hdata c)] = k # ?ks" by (simp add: upt_conv_Cons)
  have c: "clos s r = Some c" and inv: "tx_inv S base m c" using Suc.prems(1) by (simp_all add: tx_at_def)
  have cnt: "count_250ms ?h = 0 \<longleftrightarrow> m \<le> k" by (rule tx_inv_count [OF inv k])
  note auth = tx_at_auth [OF Suc.prems(1) W(2)]
  have skip: "\<exists>t d m'. send_timer_loop ?ks r s = Some t \<and> emits S base s t \<and> tx_at P W S base r t d m'"
    if "Suc k \<le> m \<or> \<not> can_send c"
    using Suc.hyps(1) [OF n Suc.prems(1) _ that] k by simp
  have send: "\<exists>t d m'. (local_send_data_to_low r k a s \<bind> send_timer_loop ?ks r) = Some t \<and> emits S base s t \<and>
      tx_at P W S base r t d m'" if hyp: "k = m \<and> a \<and> can_send c \<or> k < m \<and> \<not> a" for a
  proof -
    obtain t d where t: "local_send_data_to_low r k a s = Some t" "emits S base s t"
      "tx_at P W S base r t d (if a then Suc m else m)" "length (head_hdata d) = length (head_hdata c)"
      using local_send_tx [OF Suc.prems(1) k W hyp] by blast
    have "\<exists>u e m'. send_timer_loop [Suc k..<length (head_hdata d)] r t = Some u \<and> emits S base t u \<and>
        tx_at P W S base r u e m'"
      by (rule Suc.hyps(1) [OF _ t(3)]) (use n k hyp t(4) in auto)
    then obtain u e m' where "send_timer_loop ?ks r t = Some u" "emits S base t u" "tx_at P W S base r u e m'"
      using t(4) by auto
    with t(1,2) show ?thesis using emits_trans by auto
  qed
  consider "k < m" | "k = m" | "m < k" by linarith
  then show ?case
  proof cases
    case 1
    then show ?thesis using cnt skip send [of False] unfolding ks by (simp add: deref_def c Let_def)
  next
    case 2
    then show ?thesis using cnt skip send [of True] unfolding ks
      by (cases "can_send c") (simp_all add: deref_def c Let_def auth)
  next
    case 3
    then have "\<not> can_send c" using Suc.prems(3) by simp
    then show ?thesis using 3 cnt skip unfolding ks by (simp add: deref_def c Let_def auth)
  qed
qed

lemma send_loop_tx:
  assumes "tx_at P W S base r s c m" and "k \<le> length (head_hdata c)" and "k \<le> m"
    and W: "65535 \<le> W" "W < 2 ^ 30"
  shows "\<exists>t d m'. send_loop [k..<length (head_hdata c)] r s = Some t \<and> emits S base s t \<and>
     tx_at P W S base r t d m'"
  using assms(1-3)
proof (induction "length (head_hdata c) - k" arbitrary: k s c m)
  case 0
  then show ?case using emits_refl by (intro exI [of _ s] exI [of _ c] exI [of _ m]) simp
next
  case (Suc n)
  let ?h = "head_hdata c ! k" and ?ks = "[Suc k..<length (head_hdata c)]"
  have k: "k < length (head_hdata c)" and n: "n = length (head_hdata c) - Suc k" using Suc.hyps(2) by simp_all
  then have ks: "[k..<length (head_hdata c)] = k # ?ks" by (simp add: upt_conv_Cons)
  have c: "clos s r = Some c" and inv: "tx_inv S base m c" using Suc.prems(1) by (simp_all add: tx_at_def)
  have cnt: "count_250ms ?h = 0 \<longleftrightarrow> m \<le> k" by (rule tx_inv_count [OF inv k])
  note auth = tx_at_auth [OF Suc.prems(1) W(2)]
  show ?case
  proof (cases "can_send c")
    case False
    then show ?thesis using Suc.prems(1) unfolding ks
      by (intro exI [of _ s] exI [of _ c] exI [of _ m]) (simp add: deref_def c auth)
  next
    case can: True
    show ?thesis
    proof (cases "k < m")
      case True
      then have "\<exists>t d m'. send_loop ?ks r s = Some t \<and> emits S base s t \<and> tx_at P W S base r t d m'"
        using Suc.hyps(1) [OF n Suc.prems(1)] k by simp
      then show ?thesis using True can cnt unfolding ks by (simp add: deref_def c auth)
    next
      case False
      then have km: "k = m" using Suc.prems(3) by simp
      obtain t d where t: "local_send_data_to_low r k True s = Some t" "emits S base s t"
        "tx_at P W S base r t d (Suc m)" "length (head_hdata d) = length (head_hdata c)"
        using local_send_tx [OF Suc.prems(1) k W, of True] km can by auto
      have "\<exists>u e m'. send_loop [Suc k..<length (head_hdata d)] r t = Some u \<and> emits S base t u \<and>
          tx_at P W S base r u e m'"
        by (rule Suc.hyps(1) [OF _ t(3)]) (use n k km t(4) in auto)
      then obtain u e m' where "send_loop ?ks r t = Some u" "emits S base t u" "tx_at P W S base r u e m'"
        using t(4) by auto
      with t(1,2) km can cnt show ?thesis unfolding ks using emits_trans
        by (simp add: deref_def c auth) blast
    qed
  qed
qed

section \<open>Writing\<close>

lemma high_input_loop_blocks:
  "\<exists>bs. high_input_loop 1400 data head = Some (head @ bs) \<and> concat (map hd_data bs) = data \<and>
     list_all hd_ok bs \<and> (\<forall>h \<in> set bs. count_250ms h = 0)"
proof (induction "length data" arbitrary: data head rule: less_induct)
  case less
  show ?case
  proof (cases "data = []")
    case True
    then show ?thesis by (simp add: high_input_loop.simps)
  next
    case False
    define b where "b = \<lparr>hd_len = int (length (take 1400 data)), hd_max_len = int (length (take 1400 data)),
      count_250ms = 0, count_tries_tx = 0, hd_seqno = 0, hd_data = take 1400 data\<rparr>"
    obtain bs where bs: "high_input_loop 1400 (drop 1400 data) (head @ [b]) = Some ((head @ [b]) @ bs)"
      "concat (map hd_data bs) = drop 1400 data" "list_all hd_ok bs" "\<forall>h \<in> set bs. count_250ms h = 0"
      using less.hyps [of "drop 1400 data" "head @ [b]"] False by auto
    have "high_input_loop 1400 data head = Some (head @ b # bs)"
      using False bs(1) by (subst high_input_loop.simps) (simp add: util_insert_hdata_def b_def)
    moreover have "hd_ok b" using False by (simp add: hd_ok_def b_def)
    moreover have "hd_data b = take 1400 data" "count_250ms b = 0" by (simp_all add: b_def)
    ultimately show ?thesis using bs by (intro exI [of _ "b # bs"]) simp
  qed
qed

lemma tx_inv_write:
  assumes inv: "tx_inv S base m c" and bs: "concat (map hd_data bs) = data" "list_all hd_ok bs"
    "\<forall>h \<in> set bs. count_250ms h = 0"
  shows "tx_inv (S @ data) base m (c\<lparr>head_hdata := head_hdata c @ bs\<rparr>)"
proof -
  obtain n where "n \<le> length S" "send_next c = base + of_nat n"
    "concat (map hd_data (drop m (head_hdata c))) = drop n S" using inv by (auto simp: tx_inv_def)
  moreover have "m \<le> length (head_hdata c)" "list_all hd_ok (head_hdata c)"
    "\<forall>h \<in> set (drop m (head_hdata c)). count_250ms h = 0" using inv by (simp_all add: tx_inv_def)
  moreover have "\<forall>h \<in> set (take m (head_hdata c)). count_250ms h \<noteq> 0 \<and>
      (\<exists>k. is_block (S @ data) k h \<and> hd_seqno h = base + of_nat k)"
    using inv is_block_append unfolding tx_inv_def by metis
  ultimately show ?thesis
    using bs unfolding tx_inv_def by (auto intro!: exI [of _ n])
qed

lemma clo_high_data_tx_eq:
  assumes at: "tx_at P W S base r s c m" and W: "W < 2 ^ 30"
  obtains d where "tx_at P W (S @ data) base r (set_clo r d s) d m" and "in_flight d = in_flight c"
    and "dist_wnd d = dist_wnd c"
    and "concat (map hd_data (head_hdata d)) = concat (map hd_data (head_hdata c)) @ data" and "clo_high_data_tx (tcpid c) data s =
      (if can_send d then send_loop [0..<length (head_hdata d)] r (set_clo r d s) \<bind> (\<lambda>t. Some (error_none, t))
       else Some (error_not_authorized, set_clo r d s))"
proof -
  have s: "stack_inv P W s" and c: "clos s r = Some c" and tc: "tx_conn c" and inv: "tx_inv S base m c"
    using at by (simp_all add: tx_at_def)
  obtain bs where bs: "high_input_loop 1400 data (head_hdata c) = Some (head_hdata c @ bs)"
    "concat (map hd_data bs) = data" "list_all hd_ok bs" "\<forall>h \<in> set bs. count_250ms h = 0"
    using high_input_loop_blocks by blast
  define d where "d = c\<lparr>head_hdata := head_hdata c @ bs\<rparr>"
  define t where "t = set_clo r d s"
  have g: "g_tcp_max_size s = 1400" and ti: "tables_inv s" using s by (simp_all add: stack_inv_def)
  have f: "clo_mngt_find (tcpid c) s = Some (Some r)"
    using fast_get_self [OF ti c] by (simp add: clo_mngt_find_def util_get_fast_clo_def)
  have "conn_ok P W d" using stack_inv_conn [OF s c] bs(3) by (simp add: d_def conn_ok_def in_flight_def)
  then have "stack_inv P W t" unfolding t_def by (intro stack_inv_set_clo [OF s c]) (simp_all add: d_def)
  moreover have "tx_inv (S @ data) base m d" unfolding d_def by (rule tx_inv_write [OF inv bs(2-4)])
  ultimately have at': "tx_at P W (S @ data) base r t d m"
    using at by (simp add: tx_at_def t_def tx_conn_def d_def)
  have auth: "clo_mngt_authorised_to_send_nexttx 1400 d = Some (can_send d)"
    using tx_at_auth [OF at' W] g by (simp add: t_def)
  have "clo_high_data_tx (tcpid c) data s =
      (if can_send d then send_loop [0..<length (head_hdata d)] r t \<bind> (\<lambda>t. Some (error_none, t))
       else Some (error_not_authorized, t))"
    using f tc auth by (auto simp: clo_high_data_tx_def kout_if_bind deref_def c clo_mngt_high_input_def g
        bs(1) tx_conn_def Let_def d_def [symmetric] t_def [symmetric] try_send_data2low_def)
       (auto simp: t_def deref_def)
  with at' show thesis by (intro that [of d]) (simp_all add: t_def d_def in_flight_def bs(2))
qed

lemma clo_high_data_tx_tx:
  assumes at: "tx_at P W S base r s c m" and W: "65535 \<le> W" "W < 2 ^ 30"
  shows "\<exists>x t d m'. clo_high_data_tx (tcpid c) data s = Some (x, t) \<and> emits (S @ data) base s t \<and>
     tx_at P W (S @ data) base r t d m'"
proof -
  obtain d where d: "tx_at P W (S @ data) base r (set_clo r d s) d m"
    "clo_high_data_tx (tcpid c) data s =
      (if can_send d then send_loop [0..<length (head_hdata d)] r (set_clo r d s) \<bind> (\<lambda>t. Some (error_none, t))
       else Some (error_not_authorized, set_clo r d s))" using clo_high_data_tx_eq [OF at W(2)] by blast
  obtain u e m' where u: "send_loop [0..<length (head_hdata d)] r (set_clo r d s) = Some u"
    "emits (S @ data) base (set_clo r d s) u" "tx_at P W (S @ data) base r u e m'"
    using send_loop_tx [OF d(1) _ _ W, of 0] by auto
  have "emits (S @ data) base s u" using emits_trans [OF emits_set_clo u(2)] .
  then show ?thesis using d u by (cases "can_send d") auto
qed

section \<open>Acknowledgements\<close>

lemma release_zero: "\<forall>h \<in> set ys. count_250ms h = 0 \<Longrightarrow> release_past a add ys = ys"
  by (induction ys) auto

lemma release_prefix:
  "\<forall>h \<in> set ys. count_250ms h = 0 \<Longrightarrow> \<exists>zs. release_past a add (xs @ ys) = zs @ ys \<and> set zs \<subseteq> set xs"
proof (induction xs arbitrary: add)
  case Nil
  then show ?case by (simp add: release_zero)
next
  case (Cons x xs)
  note ih = Cons.IH [OF Cons.prems]
  let ?a = "if hd_seqno x + ucast TCP_WND < hd_seqno x then 0x10000000 else add"
  obtain zs where zs: "release_past a ?a (xs @ ys) = zs @ ys" "set zs \<subseteq> set xs" using ih by blast
  obtain ws where ws: "release_past a add (xs @ ys) = ws @ ys" "set ws \<subseteq> set xs" using ih by blast
  have "release_past a add ((x # xs) @ ys) \<in> {zs @ ys, (x # zs) @ ys, (x # ws) @ ys}"
    using zs(1) ws(1) by (simp add: Let_def)
  moreover have "set zs \<subseteq> set (x # xs)" "set (x # zs) \<subseteq> set (x # xs)" "set (x # ws) \<subseteq> set (x # xs)"
    using zs(2) ws(2) by auto
  ultimately show ?case by blast
qed

lemma tx_inv_release:
  assumes inv: "tx_inv S base m c"
  shows "\<exists>m'. tx_inv S base m' (update_unack_release_past_hdata a c)"
proof -
  define xs where "xs = take m (head_hdata c)"
  define ys where "ys = drop m (head_hdata c)"
  have hs: "head_hdata c = xs @ ys" by (simp add: xs_def ys_def)
  have ys: "\<forall>h \<in> set ys. count_250ms h = 0" and old: "\<forall>h \<in> set xs. count_250ms h \<noteq> 0 \<and>
      (\<exists>k. is_block S k h \<and> hd_seqno h = base + of_nat k)" and hok: "list_all hd_ok (xs @ ys)"
    and rest: "\<exists>n \<le> length S. send_next c = base + of_nat n \<and> concat (map hd_data ys) = drop n S"
    using inv hs [symmetric] by (simp_all add: tx_inv_def xs_def ys_def)
  obtain zs where zs: "release_past a 0 (xs @ ys) = zs @ ys" "set zs \<subseteq> set xs" using release_prefix [OF ys] by blast
  have "list_all hd_ok (zs @ ys)" using hok zs(2) by (auto simp: list_all_iff)
  moreover have "\<forall>h \<in> set zs. count_250ms h \<noteq> 0 \<and> (\<exists>k. is_block S k h \<and> hd_seqno h = base + of_nat k)"
    using old zs(2) by blast
  ultimately have "tx_inv S base (length zs) (update_unack_release_past_hdata a c)"
    using ys rest zs(1) by (simp add: tx_inv_def update_unack_release_past_hdata_def hs)
  then show ?thesis by blast
qed

lemma tx_inv_cong:
  "head_hdata d = head_hdata c \<Longrightarrow> send_next d = send_next c \<Longrightarrow> tx_inv S base m d = tx_inv S base m c"
  by (simp add: tx_inv_def)

lemma low_input_tx:
  assumes at: "tx_at P W S base r s c m" and eq: "clo_mngt_low_input low c = (b, i, d)"
  shows "\<exists>m'. tx_at P W S base r (set_clo r d s) d m'"
proof -
  have s: "stack_inv P W s" and c: "clos s r = Some c" and st: "state c = state_established"
    and inv: "tx_inv S base m c" using at by (simp_all add: tx_at_def tx_conn_def)
  note f = low_input_frame [OF eq]
  define e where "e = (if has (flags low) TH_ACK \<and> ack_acceptable c low
      then update_unack_release_past_hdata (ackno low) c else c)"
  have "\<exists>m'. tx_inv S base m' e"
    using inv tx_inv_release [OF inv, of "ackno low"] unfolding e_def
    by (cases "has (flags low) TH_ACK \<and> ack_acceptable c low") auto
  then obtain m' where m': "tx_inv S base m' e" by blast
  have sn: "send_next e = send_next c" by (simp add: e_def)
  have "(head_hdata d = head_hdata c \<or> head_hdata d = head_hdata e) \<and> send_next d = send_next c"
    using eq st sn unfolding clo_mngt_low_input_def e_def [symmetric] Let_def by (auto split: if_splits)
  then have "tx_inv S base m' d \<or> tx_inv S base m d"
    using m' inv sn tx_inv_cong [of d e] tx_inv_cong [of d c] by auto
  moreover have "conn_ok P W d"
    by (rule low_input_conn_ok [OF stack_inv_conn [OF s c] _ eq]) (simp add: synack_ok_def st)
  then have "stack_inv P W (set_clo r d s)" by (intro stack_inv_set_clo [OF s c]) (simp_all add: f)
  ultimately show ?thesis using at f by (auto simp: tx_at_def tx_conn_def)
qed

section \<open>A run of the sender\<close>

text \<open>Data is written, segments arrive, a heartbeat sends and repeats.\<close>

datatype tx_event = Tx_write "u8 list" | Tx_segment t_low | Tx_tick

fun tx_step :: "nat \<Rightarrow> 'e clo_sys \<Rightarrow> tx_event \<Rightarrow> 'e clo_sys run" where
  "tx_step r s (Tx_write data) = do {
     c \<leftarrow> deref r s;
     (x, s) \<leftarrow> clo_high_data_tx (tcpid c) data s;
     Some s
   }"
| "tx_step r s (Tx_segment low) = with_clo r (\<lambda>c. snd (snd (clo_mngt_low_input low c))) s"
| "tx_step r s Tx_tick = send_data_to_send r (clo_mngt_timer s)"

fun written :: "tx_event list \<Rightarrow> u8 list" where
  "written [] = []"
| "written (Tx_write data # es) = data @ written es"
| "written (e # es) = written es"

definition new_frames :: "u8 list \<Rightarrow> u32 \<Rightarrow> 'e clo_sys \<Rightarrow> 'e clo_sys \<Rightarrow> bool" where
  "new_frames S base s t \<longleftrightarrow> (\<exists>fs. low_out t = low_out s @ fs \<and> (\<forall>f \<in> set fs. is_data_frame S base f))"

lemma new_frames_trans: "new_frames S base s t \<Longrightarrow> new_frames S base t u \<Longrightarrow> new_frames S base s u"
  unfolding new_frames_def by fastforce

lemma new_frames_append: "new_frames S base s t \<Longrightarrow> new_frames (S @ T) base s t"
  unfolding new_frames_def using is_data_frame_append by blast

lemma emits_new: "emits S base s t \<Longrightarrow> new_frames S base s t \<and> g_250ms_count t = g_250ms_count s"
  by (simp add: emits_def new_frames_def)

lemma tx_step_inv:
  assumes at: "tx_at P W S base r s c m" and W: "65535 \<le> W" "W < 2 ^ 30"
    and n: "uint (g_250ms_count s) + 1 < 2 ^ 32"
  shows "\<exists>t d m'. tx_step r s e = Some t \<and> new_frames (S @ written [e]) base s t \<and>
     tx_at P W (S @ written [e]) base r t d m' \<and> uint (g_250ms_count t) \<le> uint (g_250ms_count s) + 1"
proof (cases e)
  case (Tx_write data)
  obtain x t d m' where t: "clo_high_data_tx (tcpid c) data s = Some (x, t)" "emits (S @ data) base s t"
    "tx_at P W (S @ data) base r t d m'" using clo_high_data_tx_tx [OF at W] by blast
  have "clos s r = Some c" using at by (simp add: tx_at_def)
  then have "tx_step r s e = Some t" using t(1) by (simp add: Tx_write deref_def)
  with t(3) emits_new [OF t(2)] show ?thesis by (auto simp: Tx_write)
next
  case (Tx_segment low)
  obtain b i d where eq: "clo_mngt_low_input low c = (b, i, d)" by (metis prod_cases3)
  obtain m' where m': "tx_at P W S base r (set_clo r d s) d m'" using low_input_tx [OF at eq] by blast
  have "clos s r = Some c" using at by (simp add: tx_at_def)
  then have "tx_step r s e = Some (set_clo r d s)" using eq by (simp add: Tx_segment with_clo_def deref_def)
  moreover have "new_frames S base s (set_clo r d s)" by (simp add: new_frames_def)
  ultimately show ?thesis using m' by (auto simp: Tx_segment)
next
  case Tx_tick
  let ?s = "clo_mngt_timer s"
  have u: "uint (g_250ms_count ?s) = uint (g_250ms_count s) + 1"
    using n by (simp add: clo_mngt_timer_def uint_plus_if')
  then have nz: "g_250ms_count ?s \<noteq> 0" using uint_ge_0 [of "g_250ms_count s"] by fastforce
  have at': "tx_at P W S base r ?s c m"
    using at nz by (simp add: tx_at_def) (simp add: clo_mngt_timer_def)
  obtain t d m' where t: "send_timer_loop [0..<length (head_hdata c)] r ?s = Some t" "emits S base ?s t"
    "tx_at P W S base r t d m'" using send_timer_loop_tx [OF at' _ _ W, of 0] by auto
  have "clos ?s r = Some c" using at' by (simp add: tx_at_def)
  then have "tx_step r s e = (if head_hdata c \<noteq> [] then Some t else Some ?s)"
    using t(1) by (simp add: Tx_tick send_data_to_send_def deref_def try_send_data2low_timer_def)
  moreover have "new_frames S base s t" "new_frames S base s ?s" "g_250ms_count t = g_250ms_count ?s"
    using emits_new [OF t(2)] by (simp_all add: new_frames_def clo_mngt_timer_def)
  ultimately show ?thesis using t(3) at' u by (cases "head_hdata c = []") (auto simp: Tx_tick)
qed

lemma written_Cons: "written (e # es) = written [e] @ written es"
  by (cases e) simp_all

lemma tx_run_inv:
  assumes "tx_at P W S base r s c m" and W: "65535 \<le> W" "W < 2 ^ 30"
    and "uint (g_250ms_count s) + int (length es) < 2 ^ 32"
  shows "\<exists>t d m'. run_events (tx_step r) s es = Some t \<and> new_frames (S @ written es) base s t \<and>
     tx_at P W (S @ written es) base r t d m'"
  using assms(1,4)
proof (induction es arbitrary: S s c m)
  case Nil
  then show ?case by (auto simp: new_frames_def)
next
  case (Cons e es)
  have n: "uint (g_250ms_count s) + 1 < 2 ^ 32" using Cons.prems(2) by simp
  obtain t d m' where t: "tx_step r s e = Some t" "new_frames (S @ written [e]) base s t"
    "tx_at P W (S @ written [e]) base r t d m'" "uint (g_250ms_count t) \<le> uint (g_250ms_count s) + 1"
    using tx_step_inv [OF Cons.prems(1) W n] by blast
  have "uint (g_250ms_count t) + int (length es) < 2 ^ 32" using Cons.prems(2) t(4) by simp
  from Cons.IH [OF t(3) this] obtain u d' m'' where u: "run_events (tx_step r) t es = Some u"
    "new_frames ((S @ written [e]) @ written es) base t u" "tx_at P W ((S @ written [e]) @ written es) base r u d' m''"
    by blast
  have "new_frames ((S @ written [e]) @ written es) base s u"
    using new_frames_trans [OF new_frames_append [OF t(2)] u(2)] .
  then have "new_frames (S @ written (e # es)) base s u" "tx_at P W (S @ written (e # es)) base r u d' m''"
    using u(3) written_Cons [of e es] by simp_all
  moreover have "run_events (tx_step r) s (e # es) = Some u" using t(1) u(1) by simp
  ultimately show ?case by blast
qed

section \<open>The property of the sender\<close>


lemma demo_conn_ok: "conn_ok (\<lambda>_. True) 65535 demo_clo"
  by (simp add: conn_ok_def demo_clo_def clo_zero_def in_flight_def)


end
