(* ===== verification/Tcp_Limits.thy ===== *)
theory Tcp_Limits
  imports Tcp_Send
begin

text \<open>
  How far the arithmetic of the sender goes: which blocks an acknowledgement releases, up to which
  amount of data in flight this is right, and what a connection does with a bad acknowledgement of
  its SYN, with a FIN and with a small window of its peer.
\<close>

section \<open>Consecutive blocks\<close>

fun consecutive :: "u32 \<Rightarrow> t_hdata list \<Rightarrow> bool" where
  "consecutive b [] \<longleftrightarrow> True"
| "consecutive b (h # hs) \<longleftrightarrow> hd_seqno h = b \<and> 0 < hd_len h \<and> count_250ms h \<noteq> 0 \<and>
     consecutive (b + word_of_int (hd_len h)) hs"

definition total_len :: "t_hdata list \<Rightarrow> int" where
  "total_len hs = sum_list (map hd_len hs)"

lemma total_len_simps [simp]:
  "total_len [] = 0" "total_len (h # hs) = hd_len h + total_len hs"
  by (simp_all add: total_len_def)

lemma total_len_nonneg: "consecutive b hs \<Longrightarrow> 0 \<le> total_len hs"
  by (induction hs arbitrary: b) force+

text \<open>The blocks that an acknowledgement of the first \<open>a\<close> bytes leaves.\<close>

fun not_acked :: "int \<Rightarrow> t_hdata list \<Rightarrow> t_hdata list" where
  "not_acked a [] = []"
| "not_acked a (h # hs) = (if hd_len h \<le> a then not_acked (a - hd_len h) hs else h # hs)"

text \<open>A word as an integer: the sum with a distance that does not wrap.\<close>

lemma uint_add_nowrap: "0 \<le> n \<Longrightarrow> uint b + n < 2 ^ 32 \<Longrightarrow> uint (b + word_of_int n) = uint b + n" for b :: u32
  using uint_ge_0 [of b] by (simp add: uint_word_ariths uint_word_of_int mod_simps) 

text \<open>The comparison of the source, when the correction makes both sides not wrap.\<close>

lemma release_compare:
  fixes b add :: u32
  assumes "0 \<le> n" "0 \<le> a" "uint (b + add) + n < 2 ^ 32" "uint (b + add) + a < 2 ^ 32"
  shows "b + add + word_of_int n \<le> b + word_of_int a + add \<longleftrightarrow> n \<le> a"
proof -
  have e: "b + word_of_int a + add = (b + add) + word_of_int a" by (simp add: algebra_simps)
  show ?thesis
    unfolding e word_le_def uint_add_nowrap [OF assms(1,3)] uint_add_nowrap [OF assms(2,4)] by simp
qed

lemma not_acked_neg: "consecutive b hs \<Longrightarrow> a < 0 \<Longrightarrow> not_acked a hs = hs"
  by (cases hs) auto

text \<open>\<open>add\<close> is right for the blocks that start at \<open>b + k\<close>: without it nothing wraps.\<close>

definition add_right :: "u32 \<Rightarrow> int \<Rightarrow> u32 \<Rightarrow> bool" where
  "add_right b F add \<longleftrightarrow> add = 0 \<and> uint b + F < 2 ^ 32 \<or> add = 0x10000000 \<and> 2 ^ 32 - 100000 \<le> uint b"

lemma add_right_bound:
  assumes "add_right b F add" and "0 \<le> F" and "F \<le> 50000"
  shows "uint (b + add) + F < 2 ^ 32"
proof (cases "add = 0")
  case True
  then show ?thesis using assms by (auto simp: add_right_def)
next
  case False
  then have a: "add = 0x10000000" and B: "4294867296 \<le> uint b" using assms(1) by (auto simp: add_right_def)
  have "uint b < 4294967296" using uint_lt2p [of b] by simp
  then have "uint (b + add) = uint b + 0x10000000 - 4294967296" using a B by (simp add: uint_plus_if')
  then show ?thesis using assms(3) \<open>uint b < 4294967296\<close> by simp
qed

lemma next_add_right:
  assumes F: "0 \<le> k" "k \<le> F" "F \<le> 50000"
    and add: "add_right b F add \<or> add = 0 \<and> k = 0"
  shows "add_right b F (if b + word_of_int k + ucast TCP_WND < b + word_of_int k then 0x10000000 else add)"
proof -
  define q where "q = b + word_of_int k"
  have w: "uint (ucast TCP_WND :: u32) = 50000" by (simp add: TCP_WND_def)
  have bnd: "uint b < 4294967296" "uint q < 4294967296" using uint_lt2p [of b] uint_lt2p [of q] by simp_all
  have kk: "uint (word_of_int k :: u32) = k" using F by (simp add: uint_word_of_int)
  have lt: "q + ucast TCP_WND < q \<longleftrightarrow> 4294967296 \<le> uint q + 50000"
    using bnd by (simp add: word_less_def uint_plus_if' w)
  have uq: "uint q = (if uint b + k < 4294967296 then uint b + k else uint b + k - 4294967296)"
    using bnd by (simp add: q_def uint_plus_if' kk)
  show ?thesis
  proof (cases "4294967296 \<le> uint q + 50000")
    case True
    then have "4294967296 - 100000 \<le> uint b" using uq F bnd by (auto split: if_splits)
    then show ?thesis using True lt by (simp add: add_right_def q_def)
  next
    case False
    have "add_right b F add"
    proof (cases "add_right b F add")
      case nr: False
      then have "add = 0" "k = 0" using add by auto
      then have "uint q = uint b" by (simp add: q_def)
      then show ?thesis using False \<open>add = 0\<close> F by (simp add: add_right_def)
    qed simp
    then show ?thesis using False lt by (simp add: q_def)
  qed
qed

lemma release_from:
  assumes "consecutive (b + word_of_int k) hs" and "0 \<le> k" and "k + total_len hs \<le> F" and "F \<le> 50000"
    and "0 \<le> a" and "a \<le> F" and "\<forall>h \<in> set ys. count_250ms h = 0"
    and "add_right b F add \<or> add = 0 \<and> k = 0"
  shows "release_past (b + word_of_int a) add (hs @ ys) = not_acked (a - k) hs @ ys"
  using assms(1-3,8)
proof (induction hs arbitrary: k add)
  case Nil
  then show ?case by (simp add: release_zero [OF assms(7)])
next
  case (Cons h hs)
  define add' where "add' = (if hd_seqno h + ucast TCP_WND < hd_seqno h then 0x10000000 else add)"
  have h: "hd_seqno h = b + word_of_int k" "0 < hd_len h" "count_250ms h \<noteq> 0"
    and con: "consecutive (b + word_of_int (k + hd_len h)) hs" using Cons.prems(1) by (simp_all add: add.assoc)
  have t: "0 \<le> total_len hs" by (rule total_len_nonneg [OF con])
  have kF: "k \<le> F" "k + hd_len h \<le> F" "0 \<le> F" using Cons.prems(2,3) h(2) t by simp_all
  have right: "add_right b F add'"
    unfolding add'_def h(1) by (rule next_add_right [OF Cons.prems(2) kF(1) assms(4) Cons.prems(4)])
  note bnd = add_right_bound [OF right kF(3) assms(4)]
  have e: "hd_seqno h + add' + word_of_int (hd_len h) = b + add' + word_of_int (k + hd_len h)"
    by (simp add: h(1) algebra_simps)
  have cmp: "hd_seqno h + add' + word_of_int (hd_len h) \<le> b + word_of_int a + add' \<longleftrightarrow> k + hd_len h \<le> a"
    unfolding e by (rule release_compare) (use Cons.prems(2) h(2) kF bnd assms(5,6) in auto)
  have ih: "release_past (b + word_of_int a) x (hs @ ys) = not_acked (a - (k + hd_len h)) hs @ ys"
    if "x = add' \<or> False" for x
    by (rule Cons.IH [OF con]) (use Cons.prems(2,3) h(2) right that in auto)
  show ?case
  proof (cases "k + hd_len h \<le> a")
    case True
    then show ?thesis
      using h(3) cmp ih [of add'] by (simp add: Let_def add'_def [symmetric] algebra_simps)
  next
    case False
    have nk: "release_past (b + word_of_int a) add ((h # hs) @ ys) = h # release_past (b + word_of_int a) add' (hs @ ys)"
      using h(3) cmp False by (simp add: Let_def add'_def [symmetric])
    show ?thesis
      using False ih [of add'] not_acked_neg [OF con] unfolding nk by (simp add: algebra_simps)
  qed
qed

section \<open>A small window\<close>

lemma small_window: "uint (dist_wnd c) \<le> 1401 \<Longrightarrow> \<not> can_send c"
  using in_flight_range [of c] by (simp add: can_send_def)

lemma blocked_timer:
  assumes "tx_at P W S base r s c 0" and "W < 2 ^ 30" and "\<not> can_send c"
    and "\<forall>k \<in> set ks. k < length (head_hdata c)"
  shows "send_timer_loop ks r s = Some s"
  using assms(4)
proof (induction ks)
  case (Cons k ks)
  have "clos s r = Some c" "tx_inv S base 0 c" using assms(1) by (simp_all add: tx_at_def)
  moreover from this have "count_250ms (head_hdata c ! k) = 0" using tx_inv_count [of S base 0 c k] Cons.prems by simp
  ultimately show ?case
    using Cons tx_at_auth [OF assms(1,2)] assms(3) by (simp add: deref_def Let_def)
qed simp

lemma ack_keeps_window:
  assumes "clo_mngt_low_input low c = (b, i, d)" and "datalen low = 0" and "state c = state_established"
  shows "dist_wnd d = dist_wnd c" and "send_next d = send_next c"
    and "\<forall>h \<in> set (head_hdata c). count_250ms h = 0 \<Longrightarrow> head_hdata d = head_hdata c"
  using assms release_zero [of "head_hdata c"]
  by (auto simp: clo_mngt_low_input_def Let_def update_unack_release_past_hdata_def split: if_splits)

fun without_data :: "tx_event \<Rightarrow> bool" where
  "without_data (Tx_segment low) \<longleftrightarrow> datalen low = 0"
| "without_data e \<longleftrightarrow> True"

lemma blocked_step:
  assumes at: "tx_at P W S base r s c 0" and w: "uint (dist_wnd c) \<le> 1401" and W: "W < 2 ^ 30"
    and e: "without_data e" and n: "uint (g_250ms_count s) + 1 < 2 ^ 32"
  shows "\<exists>t d. tx_step r s e = Some t \<and> low_out t = low_out s \<and> tx_at P W (S @ written [e]) base r t d 0 \<and>
     uint (dist_wnd d) \<le> 1401 \<and> uint (g_250ms_count t) \<le> uint (g_250ms_count s) + 1 \<and>
     concat (map hd_data (head_hdata d)) = concat (map hd_data (head_hdata c)) @ written [e]"
proof (cases e)
  case (Tx_write data)
  obtain d where d: "tx_at P W (S @ data) base r (set_clo r d s) d 0" "dist_wnd d = dist_wnd c"
    "concat (map hd_data (head_hdata d)) = concat (map hd_data (head_hdata c)) @ data"
    "clo_high_data_tx (tcpid c) data s =
      (if can_send d then send_loop [0..<length (head_hdata d)] r (set_clo r d s) \<bind> (\<lambda>t. Some (error_none, t))
       else Some (error_not_authorized, set_clo r d s))" using clo_high_data_tx_eq [OF at W] by blast
  have "clos s r = Some c" using at by (simp add: tx_at_def)
  from d(1-3) d(4) w small_window [of d] this show ?thesis by (auto simp: Tx_write deref_def)
next
  case (Tx_segment low)
  obtain b i d where eq: "clo_mngt_low_input low c = (b, i, d)" by (metis prod_cases3)
  have c: "clos s r = Some c" "state c = state_established" "tx_inv S base 0 c"
    using at by (simp_all add: tx_at_def tx_conn_def)
  have dl: "datalen low = 0" using e Tx_segment by simp
  note k = ack_keeps_window [OF eq dl c(2)]
  have hd: "head_hdata d = head_hdata c" by (rule k(3)) (use c(3) in \<open>simp add: tx_inv_def\<close>)
  then have inv: "tx_inv S base 0 d" using c(3) tx_inv_cong [of d c] k(2) by simp
  obtain m' where "tx_at P W S base r (set_clo r d s) d m'" using low_input_tx [OF at eq] by blast
  then have "tx_at P W S base r (set_clo r d s) d 0" using inv by (simp add: tx_at_def)
  then show ?thesis
    using c(1) eq k(1) w hd by (auto simp: Tx_segment with_clo_def deref_def)
next
  case Tx_tick
  let ?s = "clo_mngt_timer s"
  have u: "uint (g_250ms_count ?s) = uint (g_250ms_count s) + 1"
    using n by (simp add: clo_mngt_timer_def uint_plus_if')
  then have nz: "g_250ms_count ?s \<noteq> 0" using uint_ge_0 [of "g_250ms_count s"] by fastforce
  have at': "tx_at P W S base r ?s c 0" using at nz by (simp add: tx_at_def) (simp add: clo_mngt_timer_def)
  have "send_timer_loop [0..<length (head_hdata c)] r ?s = Some ?s"
    by (rule blocked_timer [OF at' W small_window [OF w]]) simp
  moreover have "clos ?s r = Some c" using at' by (simp add: tx_at_def)
  ultimately have "tx_step r s e = Some ?s"
    by (simp add: Tx_tick send_data_to_send_def deref_def try_send_data2low_timer_def)
  moreover have "low_out ?s = low_out s" by (simp add: clo_mngt_timer_def)
  ultimately show ?thesis using at' u w by (auto simp: Tx_tick)
qed

lemma blocked_run:
  assumes "tx_at P W S base r s c 0" and "uint (dist_wnd c) \<le> 1401" and W: "W < 2 ^ 30"
    and "list_all without_data es" and "uint (g_250ms_count s) + int (length es) < 2 ^ 32"
  shows "\<exists>t d. run_events (tx_step r) s es = Some t \<and> low_out t = low_out s \<and>
     tx_at P W (S @ written es) base r t d 0 \<and> uint (dist_wnd d) \<le> 1401 \<and>
     concat (map hd_data (head_hdata d)) = concat (map hd_data (head_hdata c)) @ written es"
  using assms(1,2,4,5)
proof (induction es arbitrary: S s c)
  case Nil
  then show ?case by auto
next
  case (Cons e es)
  have e: "without_data e" "list_all without_data es" "uint (g_250ms_count s) + 1 < 2 ^ 32"
    using Cons.prems(3,4) by simp_all
  obtain t d where t: "tx_step r s e = Some t" "low_out t = low_out s" "tx_at P W (S @ written [e]) base r t d 0"
    "uint (dist_wnd d) \<le> 1401" "uint (g_250ms_count t) \<le> uint (g_250ms_count s) + 1"
    "concat (map hd_data (head_hdata d)) = concat (map hd_data (head_hdata c)) @ written [e]"
    using blocked_step [OF Cons.prems(1,2) W e(1,3)] by blast
  have n: "uint (g_250ms_count t) + int (length es) < 2 ^ 32" using Cons.prems(4) t(5) by simp
  from Cons.IH [OF t(3,4) e(2) n] t(1,2,6) written_Cons [of e es] show ?case by auto
qed

section \<open>The properties\<close>

text \<open>C12: with at most 50000 bytes in flight an acknowledgement releases exactly the blocks that it
  covers, also where the sequence numbers wrap, and none of those that were not sent.\<close>

theorem release_is_exact:
  assumes "consecutive b hs" and "total_len hs \<le> 50000" and "0 \<le> a" and "a \<le> total_len hs"
    and "\<forall>h \<in> set ys. count_250ms h = 0" and "head_hdata c = hs @ ys"
  shows "head_hdata (update_unack_release_past_hdata (b + word_of_int a) c) = not_acked a hs @ ys"
  using release_from [of b 0 hs "total_len hs" a ys 0] assms by (simp add: update_unack_release_past_hdata_def)



text \<open>the number that a segment with FIN leaves is one too high when it carries data, and the FIN
  is not counted at all when it carries none: in both cases the acknowledgement that is sent is not
  the one that the peer waits for.\<close>

theorem fin_is_not_counted_once:
  assumes "state c = state_established" and "has (flags low) TH_FIN" and "seqno low = recv_next c"
    and "tcplen low = datalen low + 1" and "unat (datalen low) < 65535"
  shows "\<exists>b i d. clo_mngt_low_input low c = (b, i, d) \<and>
     recv_next d = recv_next c + (if datalen low = 0 then 0 else ucast (datalen low) + 2)"
proof -
  define e where "e = (if has (flags low) TH_ACK \<and> ack_acceptable c low
      then update_unack_release_past_hdata (ackno low) c else c)"
  have e: "recv_next e = recv_next c" by (simp add: e_def)
  have "unat (datalen low + 1) = unat (datalen low) + 1"
    using assms(5) by (simp add: unat_plus_simple [THEN iffD1] unat_word_ariths)
  then have n: "int (unat (datalen low + 1)) = int (unat (datalen low)) + 1" by simp
  have "(ucast w :: u32) = word_of_int (int (unat w))" for w :: u16 by simp
  then have u: "(ucast (datalen low + 1) :: u32) = ucast (datalen low) + 1"
    using n by (metis of_int_add of_int_1)
  show ?thesis
    using assms next_in_window [OF assms(3)] e u
    unfolding clo_mngt_low_input_def e_def [symmetric] Let_def adjusted_tcplen_def by auto
qed

text \<open>C15: a SYN-ACK is taken with whatever acknowledgement it carries; one beyond what was sent ends
  the process at the next write to the connection, and at the next question whether it can be
  written to.\<close>

theorem bad_synack_ack_is_fatal:
  assumes "tables_inv s" and "clos s r = Some c" and "g_tcp_max_size s = 1400"
    and "state c = state_first_syn_sent" and "flags low AND (TH_SYN OR TH_ACK) = TH_SYN OR TH_ACK"
    and "0 < uint (ackno low - send_next c)" and "uint (ackno low - send_next c) < 2 ^ 31"
  shows "\<exists>d t. clo_mngt_low_input low c = (True, False, d) \<and>
     with_clo r (clo_mngt_set_state state_established) (set_clo r d s) = Some t \<and>
     clo_high_data_tx_possible (tcpid c) t = None \<and> clo_high_data_tx (tcpid c) data t = None"
proof -
  define d where "d = snd (snd (clo_mngt_low_input low c))"
  define d' where "d' = clo_mngt_set_state state_established d"
  define t where "t = set_clo r d' s"
  have eq: "clo_mngt_low_input low c = (True, False, d)"
    using assms(4,5) by (simp add: clo_mngt_low_input_def d_def)
  have "send_unack d = ackno low" "send_next d = send_next c" "tcpid d = tcpid c"
    using assms(4,5) by (simp_all add: clo_mngt_low_input_def d_def update_unack_release_past_hdata_def)
  then have f: "send_unack d' = ackno low" "send_next d' = send_next c" "tcpid d' = tcpid c"
    "state d' = state_established" by (simp_all add: d'_def clo_mngt_set_state_def)
  have "uint (send_next c) \<noteq> uint (ackno low)" using assms(6) by (auto simp: uint_sub_if')
  then have "uint (send_next c - ackno low) = 4294967296 - uint (ackno low - send_next c)"
    by (simp add: uint_sub_if')
  moreover define u where "u = uint (ackno low - send_next c)"
  ultimately have "uint (send_next c - ackno low) = 4294967296 - u" by simp
  moreover have u: "0 < u" "u < 2147483648" using assms(6,7) by (simp_all add: u_def)
  moreover have "(2147483648 - u + 4294967296) mod 4294967296 = 2147483648 - u"
    unfolding mod_add_self2 using u by (intro mod_pos_pos_trivial) simp_all
  ultimately have "sint (send_next c - ackno low) < 0"
    by (simp add: sint_uint signed_take_bit_eq_take_bit_shift take_bit_eq_mod)
  then have bad: "clo_mngt_authorised_to_send_nexttx m (d'\<lparr>head_hdata := h\<rparr>) = None" for m h
    by (simp add: clo_mngt_authorised_to_send_nexttx_def f Let_def kout_if_bind)
  have bad': "clo_mngt_authorised_to_send_nexttx m d' = None" for m using bad [of m "head_hdata d'"] by simp
  have ti: "tables_inv t" using set_clo_tables [of s r c d'] assms(1,2) f(3) by (simp add: t_def)
  have ct: "clos t r = Some d'" by (simp add: t_def)
  have "clo_mngt_find (tcpid c) t = Some (Some r)"
    using fast_get_self [OF ti ct] f(3) by (simp add: clo_mngt_find_def util_get_fast_clo_def)
  moreover have "with_clo r (clo_mngt_set_state state_established) (set_clo r d s) = Some t"
    by (simp add: with_clo_def d'_def t_def)
  moreover obtain bs where "high_input_loop 1400 data (head_hdata d') = Some (head_hdata d' @ bs)"
    using high_input_loop_blocks by blast
  moreover have "g_tcp_max_size t = 1400" using assms(3) by (simp add: t_def)
  ultimately show ?thesis
    using eq bad bad' by (auto simp: clo_high_data_tx_possible_def clo_high_data_tx_def deref_def ct f(4)
        kout_if_bind clo_mngt_high_input_def Let_def)
qed

section \<open>The properties at work\<close>

definition demo_hdata :: "u32 \<Rightarrow> int \<Rightarrow> t_hdata" where
  "demo_hdata q n = \<lparr>hd_len = n, hd_max_len = n, count_250ms = 5, count_tries_tx = 1, hd_seqno = q,
     hd_data = replicate (nat n) 0\<rparr>"

theorem release_is_exact_witness:
  "head_hdata (update_unack_release_past_hdata (0xFFFFFFF0 + word_of_int 22)
      (demo_clo\<lparr>head_hdata := [demo_hdata 0xFFFFFFF0 10, demo_hdata 0xFFFFFFFA 12, demo_hdata 6 20]\<rparr>)) =
   [demo_hdata 6 20]"
  using release_is_exact [of "0xFFFFFFF0" "[demo_hdata 0xFFFFFFF0 10, demo_hdata 0xFFFFFFFA 12, demo_hdata 6 20]"
      22 "[]" "demo_clo\<lparr>head_hdata := [demo_hdata 0xFFFFFFF0 10, demo_hdata 0xFFFFFFFA 12, demo_hdata 6 20]\<rparr>"]
  by (simp add: demo_hdata_def)

lemma demo_consecutive:
  "n = 43 \<Longrightarrow> consecutive 0xFFFF1555 (map (\<lambda>i. demo_hdata (0xFFFF1555 + word_of_int (1400 * i)) 1400) [0..n])"
  by (simp add: demo_hdata_def upto.simps)


theorem fin_is_not_counted_once_witness:
  "\<exists>b i d. clo_mngt_low_input ((demo_seg 0)\<lparr>flags := TH_FIN OR TH_ACK, tcplen := 3\<rparr>) demo_clo = (b, i, d) \<and>
     recv_next d = recv_next demo_clo + 4"
  using fin_is_not_counted_once [of demo_clo "(demo_seg 0)\<lparr>flags := TH_FIN OR TH_ACK, tcplen := 3\<rparr>"]
  by (simp add: demo_clo_def clo_zero_def demo_seg_def has_def TH_FIN_def TH_ACK_def)


definition demo_syn_clo :: t_clo where
  "demo_syn_clo = (clo_zero demo_tid 1)\<lparr>state := state_first_syn_sent, send_unack := 100, send_next := 101\<rparr>"

theorem bad_synack_ack_is_fatal_witness:
  "\<exists>d t. clo_mngt_low_input ((demo_seg 0)\<lparr>flags := TH_SYN OR TH_ACK, ackno := 102\<rparr>) demo_syn_clo = (True, False, d) \<and>
     with_clo 0 (clo_mngt_set_state state_established) (set_clo 0 d (demo_stack demo_syn_clo)) = Some t \<and>
     clo_high_data_tx (tcpid demo_syn_clo) [1] t = None"
proof -
  have s: "tables_inv (demo_stack demo_syn_clo)"
  proof -
    have k: "key_at (demo_stack demo_syn_clo) r = (if r = 0 then Some (conn_key (tcpid demo_syn_clo)) else None)"
      "llid_at (demo_stack demo_syn_clo) r = (if r = 0 then Some 0 else None)" for r
      by (simp_all add: key_at_def llid_at_def demo_stack_def) (simp add: demo_syn_clo_def clo_zero_def demo_tid_def)
    show ?thesis
      unfolding tables_inv_def tables_parts k
      by (auto simp: demo_stack_def clo_init_def clo_mngt_init_def simp del: split_paired_Ex)
  qed
  have f: "clos (demo_stack demo_syn_clo) 0 = Some demo_syn_clo" "g_tcp_max_size (demo_stack demo_syn_clo) = 1400"
    "state demo_syn_clo = state_first_syn_sent"
    by (simp_all add: demo_stack_def demo_syn_clo_def clo_init_def clo_mngt_init_def TCP_MAX_SIZE_def)
  from bad_synack_ack_is_fatal [OF s f, of "(demo_seg 0)\<lparr>flags := TH_SYN OR TH_ACK, ackno := 102\<rparr>" "[1]"]
  have "\<exists>d t. clo_mngt_low_input ((demo_seg 0)\<lparr>flags := TH_SYN OR TH_ACK, ackno := 102\<rparr>) demo_syn_clo = (True, False, d) \<and>
     with_clo 0 (clo_mngt_set_state state_established) (set_clo 0 d (demo_stack demo_syn_clo)) = Some t \<and>
     clo_high_data_tx (tcpid demo_syn_clo) [1] t = None"
    by (simp add: TH_SYN_def TH_ACK_def) (auto simp: demo_syn_clo_def)
  then show ?thesis by blast
qed

end
