(* ===== verification/Beat_Wheel.thy ===== *)
theory Beat_Wheel
  imports Prelude
begin

text \<open>
  The timeouts of the servers (\<open>lib_ioc/src/clownix_timer.c\<close>): a ring of \<open>MAX_TIMEOUT_BEATS\<close> lists,
  one for each beat of the next 44 minutes. A timeout is known by its date and a reference; a
  deleted one stays on its list, inhibited, until its beat. \<open>'d\<close> is a call with its data.
\<close>

section \<open>The ring\<close>

definition MAX_TIMEOUT_BEATS :: int where "MAX_TIMEOUT_BEATS = 0x3FFFF"
definition MIN_TIMEOUT_BEATS :: int where "MIN_TIMEOUT_BEATS = 1"

record 'd t_timeout_elem =
  inhibited :: bool
  cb_data :: 'd
  el_ref :: int

record 'd wheel =
  g_grape :: "int \<Rightarrow> 'd t_timeout_elem list"
  g_current_ref :: int
  g_current_beat :: int
  g_plugged_elem :: int

text \<open>The comparison of the source is unsigned: the reference -1 is skipped, and with it 0.\<close>

definition next_ref :: "int \<Rightarrow> int" where
  "next_ref r = (if i32 (r + 1) = -1 then 1 else i32 (r + 1))"

definition plug_elem :: "int \<Rightarrow> 'd \<Rightarrow> 'd wheel \<Rightarrow> int \<times> 'd wheel" where
  "plug_elem idx d w =
     (let r = next_ref (g_current_ref w) in
      (r, w\<lparr>g_current_ref := r, g_plugged_elem := g_plugged_elem w + 1,
            g_grape := (g_grape w)(idx := g_grape w idx @ [\<lparr>inhibited = False, cb_data = d, el_ref = r\<rparr>])\<rparr>))"

definition unplug_elem :: "int \<Rightarrow> int \<Rightarrow> 'd wheel \<Rightarrow> 'd wheel run" where
  "unplug_elem idx r w = do {
     let n = g_plugged_elem w - 1;
     kout_if (n < 0);
     Some (w\<lparr>g_grape := (g_grape w)(idx := remove_first (\<lambda>e. el_ref e = r) (g_grape w idx)), g_plugged_elem := n\<rparr>)
   }"

text \<open>The date and the reference are stored by the caller.\<close>

definition clownix_timeout_add :: "int \<Rightarrow> 'd \<Rightarrow> 'd wheel \<Rightarrow> ((int \<times> int) \<times> 'd wheel) run" where
  "clownix_timeout_add nb_beats d w = do {
     kout_if (nb_beats < MIN_TIMEOUT_BEATS \<or> MAX_TIMEOUT_BEATS \<le> nb_beats);
     let abs = g_current_beat w + nb_beats;
     let (r, w) = plug_elem (abs mod MAX_TIMEOUT_BEATS) d w;
     Some ((abs, r), w)
   }"

definition clownix_timeout_exists :: "int \<Rightarrow> int \<Rightarrow> 'd wheel \<Rightarrow> bool" where
  "clownix_timeout_exists abs_beat r w \<longleftrightarrow>
     find (\<lambda>e. el_ref e = r) (g_grape w (abs_beat mod MAX_TIMEOUT_BEATS)) \<noteq> None"

definition inhibit :: "'d t_timeout_elem \<Rightarrow> 'd t_timeout_elem" where
  "inhibit e = e\<lparr>inhibited := True\<rparr>"

definition clownix_timeout_del :: "int \<Rightarrow> int \<Rightarrow> 'd wheel \<Rightarrow> ('d option \<times> 'd wheel) run" where
  "clownix_timeout_del abs_beat r w = do {
     let idx = abs_beat mod MAX_TIMEOUT_BEATS;
     let cur = find (\<lambda>e. el_ref e = r) (g_grape w idx);
     kout_if (abs_beat \<noteq> 0 \<and> cur = None);
     Some (map_option cb_data cur,
       w\<lparr>g_grape := (g_grape w)(idx := replace_first (\<lambda>e. el_ref e = r) inhibit (g_grape w idx))\<rparr>)
   }"

definition clownix_timeout_del_all :: "'d wheel \<Rightarrow> 'd wheel" where
  "clownix_timeout_del_all w = w\<lparr>g_grape := (\<lambda>i. if 0 \<le> i \<and> i < MAX_TIMEOUT_BEATS
     then map inhibit (g_grape w i) else g_grape w i)\<rparr>"

text \<open>
  The walk over the list of a beat, in a state \<open>'s\<close> that contains the ring: the number of elements
  is the one at its start, the element at the head is called unless it is inhibited, and then taken
  off.
\<close>

fun grape_walk :: "('s \<Rightarrow> 'd wheel) \<Rightarrow> ('d wheel \<Rightarrow> 's \<Rightarrow> 's) \<Rightarrow> ('d \<Rightarrow> 's \<Rightarrow> 's run) \<Rightarrow> int \<Rightarrow> nat \<Rightarrow> 's \<Rightarrow> 's run" where
  "grape_walk get put cb idx 0 s = Some s"
| "grape_walk get put cb idx (Suc n) s = (case g_grape (get s) idx of
     [] \<Rightarrow> None
   | e # _ \<Rightarrow> do {
       s \<leftarrow> (if inhibited e then Some s else cb (cb_data e) s);
       w \<leftarrow> unplug_elem idx (el_ref e) (get s);
       grape_walk get put cb idx n (put w s)
     })"

definition process_all_current_grape_idx ::
  "('s \<Rightarrow> 'd wheel) \<Rightarrow> ('d wheel \<Rightarrow> 's \<Rightarrow> 's) \<Rightarrow> ('d \<Rightarrow> 's \<Rightarrow> 's run) \<Rightarrow> int \<Rightarrow> 's \<Rightarrow> 's run" where
  "process_all_current_grape_idx get put cb idx s = grape_walk get put cb idx (length (g_grape (get s) idx)) s"

definition clownix_timer_beat ::
  "('s \<Rightarrow> 'd wheel) \<Rightarrow> ('d wheel \<Rightarrow> 's \<Rightarrow> 's) \<Rightarrow> ('d \<Rightarrow> 's \<Rightarrow> 's run) \<Rightarrow> 's \<Rightarrow> 's run" where
  "clownix_timer_beat get put cb s =
     (let w = (get s)\<lparr>g_current_beat := g_current_beat (get s) + 1\<rparr> in
      process_all_current_grape_idx get put cb (g_current_beat w mod MAX_TIMEOUT_BEATS) (put w s))"

definition clownix_timer_init :: "'d wheel" where
  "clownix_timer_init = \<lparr>g_grape = (\<lambda>_. []), g_current_ref = 0, g_current_beat = 0, g_plugged_elem = 0\<rparr>"

section \<open>A program of timeouts\<close>

text \<open>What a call does with the timeouts: it arms new ones and deletes others.\<close>

datatype 'd cmd = Arm int 'd | Disarm int int

fun run_cmd :: "'d cmd \<Rightarrow> 'd wheel \<Rightarrow> 'd wheel run" where
  "run_cmd (Arm nb d) w = map_option snd (clownix_timeout_add nb d w)"
| "run_cmd (Disarm a r) w = map_option snd (clownix_timeout_del a r w)"

fun run_cmds :: "'d cmd list \<Rightarrow> 'd wheel \<Rightarrow> 'd wheel run" where
  "run_cmds [] w = Some w"
| "run_cmds (c # cs) w = run_cmd c w \<bind> run_cmds cs"

text \<open>The ring with the list of the calls made.\<close>

definition logged_call :: "('d \<Rightarrow> 'd cmd list) \<Rightarrow> 'd \<Rightarrow> 'd wheel \<times> 'd list \<Rightarrow> ('d wheel \<times> 'd list) run" where
  "logged_call prog d = (\<lambda>(w, log). do { w \<leftarrow> run_cmds (prog d) w; Some (w, log @ [d]) })"

datatype 'd wheel_event = Cmd "'d cmd" | Beat

fun wheel_step :: "('d \<Rightarrow> 'd cmd list) \<Rightarrow> 'd wheel \<times> 'd list \<Rightarrow> 'd wheel_event \<Rightarrow> ('d wheel \<times> 'd list) run" where
  "wheel_step prog (w, log) (Cmd c) = map_option (\<lambda>w. (w, log)) (run_cmd c w)"
| "wheel_step prog s Beat = clownix_timer_beat fst (\<lambda>w s. (w, snd s)) (logged_call prog) s"

section \<open>The agenda\<close>

text \<open>
  The specification: the pending timeouts with their dates, in the order they were armed. A beat
  calls those of its date, in this order.
\<close>

record 'd agenda =
  pending :: "(int \<times> 'd t_timeout_elem) list"
  now_beat :: int
  last_ref :: int

definition agenda_arm :: "int \<Rightarrow> 'd \<Rightarrow> 'd agenda \<Rightarrow> 'd agenda run" where
  "agenda_arm nb d a =
     (if MIN_TIMEOUT_BEATS \<le> nb \<and> nb < MAX_TIMEOUT_BEATS
      then Some (a\<lparr>last_ref := next_ref (last_ref a), pending := pending a @
        [(now_beat a + nb, \<lparr>inhibited = False, cb_data = d, el_ref = next_ref (last_ref a)\<rparr>)]\<rparr>)
      else None)"

definition is_timeout :: "int \<Rightarrow> int \<Rightarrow> int \<times> 'd t_timeout_elem \<Rightarrow> bool" where
  "is_timeout date r p \<longleftrightarrow> fst p mod MAX_TIMEOUT_BEATS = date mod MAX_TIMEOUT_BEATS \<and> el_ref (snd p) = r"

definition agenda_disarm :: "int \<Rightarrow> int \<Rightarrow> 'd agenda \<Rightarrow> 'd agenda run" where
  "agenda_disarm date r a =
     (if date \<noteq> 0 \<and> find (is_timeout date r) (pending a) = None then None
      else Some (a\<lparr>pending := replace_first (is_timeout date r) (apsnd inhibit) (pending a)\<rparr>))"

fun agenda_cmd :: "'d cmd \<Rightarrow> 'd agenda \<Rightarrow> 'd agenda run" where
  "agenda_cmd (Arm nb d) a = agenda_arm nb d a"
| "agenda_cmd (Disarm date r) a = agenda_disarm date r a"

fun agenda_cmds :: "'d cmd list \<Rightarrow> 'd agenda \<Rightarrow> 'd agenda run" where
  "agenda_cmds [] a = Some a"
| "agenda_cmds (c # cs) a = agenda_cmd c a \<bind> agenda_cmds cs"

fun agenda_walk :: "('d \<Rightarrow> 'd cmd list) \<Rightarrow> nat \<Rightarrow> 'd agenda \<times> 'd list \<Rightarrow> ('d agenda \<times> 'd list) run" where
  "agenda_walk prog 0 s = Some s"
| "agenda_walk prog (Suc n) (a, log) = (case find (\<lambda>p. fst p = now_beat a) (pending a) of
     None \<Rightarrow> None
   | Some (_, e) \<Rightarrow> do {
       (b, log) \<leftarrow> (if inhibited e then Some (a, log)
         else do { b \<leftarrow> agenda_cmds (prog (cb_data e)) a; Some (b, log @ [cb_data e]) });
       agenda_walk prog n
         (b\<lparr>pending := remove_first (\<lambda>p. fst p = now_beat b \<and> el_ref (snd p) = el_ref e) (pending b)\<rparr>, log)
     })"

definition agenda_beat :: "('d \<Rightarrow> 'd cmd list) \<Rightarrow> 'd agenda \<times> 'd list \<Rightarrow> ('d agenda \<times> 'd list) run" where
  "agenda_beat prog = (\<lambda>(a, log). let a = a\<lparr>now_beat := now_beat a + 1\<rparr> in
     agenda_walk prog (length (filter (\<lambda>p. fst p = now_beat a) (pending a))) (a, log))"

fun agenda_step :: "('d \<Rightarrow> 'd cmd list) \<Rightarrow> 'd agenda \<times> 'd list \<Rightarrow> 'd wheel_event \<Rightarrow> ('d agenda \<times> 'd list) run" where
  "agenda_step prog (a, log) (Cmd c) = map_option (\<lambda>a. (a, log)) (agenda_cmd c a)"
| "agenda_step prog s Beat = agenda_beat prog s"

section \<open>The ring implements the agenda\<close>

definition slot_of :: "int \<Rightarrow> (int \<times> 'd t_timeout_elem) list \<Rightarrow> 'd t_timeout_elem list" where
  "slot_of i ps = map snd (filter (\<lambda>p. fst p mod MAX_TIMEOUT_BEATS = i) ps)"

definition in_window :: "int \<Rightarrow> 'd agenda \<Rightarrow> bool" where
  "in_window l a \<longleftrightarrow> (\<forall>p \<in> set (pending a). now_beat a + l \<le> fst p \<and> fst p < now_beat a + MAX_TIMEOUT_BEATS)"

definition wheel_rel :: "'d wheel \<Rightarrow> 'd agenda \<Rightarrow> bool" where
  "wheel_rel w a \<longleftrightarrow> (\<forall>i. g_grape w i = slot_of i (pending a)) \<and> g_current_beat w = now_beat a \<and>
     g_current_ref w = last_ref a \<and> g_plugged_elem w = int (length (pending a))"

lemma slot_of_simps [simp]:
  "slot_of i [] = []"
  "slot_of i (ps @ qs) = slot_of i ps @ slot_of i qs"
  "slot_of i (p # ps) = (if fst p mod MAX_TIMEOUT_BEATS = i then snd p # slot_of i ps else slot_of i ps)"
  by (simp_all add: slot_of_def)

lemma find_slot:
  "find (\<lambda>e. el_ref e = r) (slot_of (date mod MAX_TIMEOUT_BEATS) ps) = map_option snd (find (is_timeout date r) ps)"
  by (induction ps) (auto simp: is_timeout_def)

lemma replace_slot:
  "slot_of i (replace_first (is_timeout date r) (apsnd inhibit) ps) =
   (if i = date mod MAX_TIMEOUT_BEATS then replace_first (\<lambda>e. el_ref e = r) inhibit (slot_of i ps) else slot_of i ps)"
  by (induction ps) (auto simp: is_timeout_def)

lemma same_beat:
  assumes "now \<le> d" and "d < now + MAX_TIMEOUT_BEATS"
  shows "d mod MAX_TIMEOUT_BEATS = now mod MAX_TIMEOUT_BEATS \<longleftrightarrow> d = now"
proof
  assume "d mod MAX_TIMEOUT_BEATS = now mod MAX_TIMEOUT_BEATS"
  then have "(d - now) mod MAX_TIMEOUT_BEATS = 0" by (metis mod_diff_cong diff_self mod_0)
  moreover have "(d - now) mod MAX_TIMEOUT_BEATS = d - now" using assms by (intro mod_pos_pos_trivial) auto
  ultimately show "d = now" by simp
qed simp

lemma remove_slot:
  assumes "\<forall>p \<in> set ps. now \<le> fst p \<and> fst p < now + MAX_TIMEOUT_BEATS"
  shows "slot_of i (remove_first (\<lambda>p. fst p = now \<and> el_ref (snd p) = r) ps) =
   (if i = now mod MAX_TIMEOUT_BEATS then remove_first (\<lambda>e. el_ref e = r) (slot_of i ps) else slot_of i ps)"
  using assms by (induction ps) (auto simp: same_beat)

text \<open>The elements on the list of a beat are the timeouts of its date.\<close>

lemma due_slot:
  assumes "\<forall>p \<in> set ps. now \<le> fst p \<and> fst p < now + MAX_TIMEOUT_BEATS"
  shows "slot_of (now mod MAX_TIMEOUT_BEATS) ps = map snd (filter (\<lambda>p. fst p = now) ps)"
  using assms by (induction ps) (auto simp: same_beat)

lemma find_filter: "find P xs = (case filter P xs of [] \<Rightarrow> None | x # _ \<Rightarrow> Some x)"
  by (induction xs) auto

definition cmd_rel :: "int \<Rightarrow> int \<Rightarrow> 'd wheel \<Rightarrow> 'd agenda \<Rightarrow> bool" where
  "cmd_rel l now w a \<longleftrightarrow> wheel_rel w a \<and> in_window l a \<and> now_beat a = now"

lemma run_cmd_rel:
  assumes rel: "cmd_rel l now w a" and l: "l \<le> 1"
  shows "rel_option (cmd_rel l now) (run_cmd c w) (agenda_cmd c a)"
proof (cases c)
  case (Arm nb d)
  then show ?thesis
    using rel l by (auto simp: clownix_timeout_add_def plug_elem_def Let_def kout_if_bind agenda_arm_def
        cmd_rel_def wheel_rel_def in_window_def MIN_TIMEOUT_BEATS_def)
next
  case (Disarm date r)
  have f: "find (\<lambda>e. el_ref e = r) (g_grape w (date mod MAX_TIMEOUT_BEATS)) = map_option snd (find (is_timeout date r) (pending a))"
    using rel find_slot by (simp add: cmd_rel_def wheel_rel_def)
  have "fst ` set (replace_first (is_timeout date r) (apsnd inhibit) (pending a)) \<subseteq> fst ` set (pending a)"
    using set_replace_first_subset [of "is_timeout date r" "apsnd inhibit" "pending a"] by force
  then have "in_window l (a\<lparr>pending := replace_first (is_timeout date r) (apsnd inhibit) (pending a)\<rparr>)"
    using rel by (force simp: cmd_rel_def in_window_def)
  then have "cmd_rel l now (w\<lparr>g_grape := (g_grape w)(date mod MAX_TIMEOUT_BEATS := replace_first (\<lambda>e. el_ref e = r) inhibit
        (g_grape w (date mod MAX_TIMEOUT_BEATS)))\<rparr>)
      (a\<lparr>pending := replace_first (is_timeout date r) (apsnd inhibit) (pending a)\<rparr>)"
    using rel by (simp add: cmd_rel_def wheel_rel_def replace_slot)
  then show ?thesis
    by (cases "find (is_timeout date r) (pending a)"; cases "date = 0")
      (simp_all add: Disarm clownix_timeout_del_def Let_def kout_if_bind f agenda_disarm_def)
qed

lemma rel_option_bind:
  "rel_option R x y \<Longrightarrow> (\<And>a b. R a b \<Longrightarrow> rel_option S (f a) (g b)) \<Longrightarrow> rel_option S (x \<bind> f) (y \<bind> g)"
  by (cases x; cases y) auto

lemma run_cmds_rel:
  assumes "cmd_rel l now w a" and "l \<le> 1"
  shows "rel_option (cmd_rel l now) (run_cmds cs w) (agenda_cmds cs a)"
  using assms
proof (induction cs arbitrary: w a)
  case (Cons c cs)
  show ?case
    unfolding run_cmds.simps agenda_cmds.simps
    by (rule rel_option_bind [OF run_cmd_rel [OF Cons.prems]]) (rule Cons.IH [OF _ Cons.prems(2)])
qed simp

definition logged_rel :: "int \<Rightarrow> int \<Rightarrow> 'd wheel \<times> 'd list \<Rightarrow> 'd agenda \<times> 'd list \<Rightarrow> bool" where
  "logged_rel l now = (\<lambda>(w, log) (a, log'). cmd_rel l now w a \<and> log = log')"

text \<open>One element of the walk.\<close>

lemma unplug_rel:
  assumes "cmd_rel 0 now w a" and "\<exists>p \<in> set (pending a). fst p = now \<and> el_ref (snd p) = r"
  shows "\<exists>w'. unplug_elem (now mod MAX_TIMEOUT_BEATS) r w = Some w' \<and>
     cmd_rel 0 now w' (a\<lparr>pending := remove_first (\<lambda>p. fst p = now \<and> el_ref (snd p) = r) (pending a)\<rparr>)"
proof -
  let ?ps = "remove_first (\<lambda>p. fst p = now \<and> el_ref (snd p) = r) (pending a)"
  have win: "\<forall>p \<in> set (pending a). now \<le> fst p \<and> fst p < now + MAX_TIMEOUT_BEATS"
    using assms(1) by (auto simp: cmd_rel_def in_window_def)
  obtain q where q: "q \<in> set (pending a)" "fst q = now \<and> el_ref (snd q) = r" using assms(2) by blast
  from find_Some_ex [where P = "\<lambda>p. fst p = now \<and> el_ref (snd p) = r", OF q]
  obtain p where "find (\<lambda>p. fst p = now \<and> el_ref (snd p) = r) (pending a) = Some p" ..
  from length_remove_first [OF this] have len: "int (length (pending a)) - 1 = int (length ?ps)" by simp
  have win': "\<forall>p \<in> set ?ps. now \<le> fst p \<and> fst p < now + MAX_TIMEOUT_BEATS"
    using win set_remove_first_subset [of _ "pending a"] by blast
  have w: "\<forall>i. g_grape w i = slot_of i (pending a)" "g_current_beat w = now" "g_current_ref w = last_ref a"
    "g_plugged_elem w = int (length (pending a))" and nb: "now_beat a = now"
    using assms(1) by (simp_all add: cmd_rel_def wheel_rel_def)
  define w' where "w' = w\<lparr>g_grape := (g_grape w)(now mod MAX_TIMEOUT_BEATS :=
      remove_first (\<lambda>e. el_ref e = r) (g_grape w (now mod MAX_TIMEOUT_BEATS))), g_plugged_elem := int (length ?ps)\<rparr>"
  have "unplug_elem (now mod MAX_TIMEOUT_BEATS) r w = Some w'"
    unfolding unplug_elem_def Let_def w(4) len kout_if_bind w'_def by simp
  moreover have "\<forall>i. g_grape w' i = slot_of i ?ps"
    unfolding remove_slot [OF win] using w(1) by (simp add: w'_def)
  then have "cmd_rel 0 now w' (a\<lparr>pending := ?ps\<rparr>)"
    unfolding cmd_rel_def wheel_rel_def in_window_def using w(2,3) win' nb by (simp add: w'_def)
  ultimately show ?thesis by blast
qed

definition timeout_keys :: "'d agenda \<Rightarrow> (int \<times> int) set" where
  "timeout_keys a = (\<lambda>p. (fst p, el_ref (snd p))) ` set (pending a)"

lemma agenda_cmd_keys: "agenda_cmd c a = Some b \<Longrightarrow> timeout_keys a \<subseteq> timeout_keys b"
proof (cases c)
  case (Disarm date r)
  have "map (\<lambda>p. (fst p, el_ref (snd p))) (replace_first (is_timeout date r) (apsnd inhibit) (pending a)) =
      map (\<lambda>p. (fst p, el_ref (snd p))) (pending a)"
    by (rule map_replace_first) (auto simp: inhibit_def)
  then have "(\<lambda>p. (fst p, el_ref (snd p))) ` set (replace_first (is_timeout date r) (apsnd inhibit) (pending a)) =
      timeout_keys a" unfolding timeout_keys_def by (metis list.set_map)
  moreover assume "agenda_cmd c a = Some b"
  then have "b = a\<lparr>pending := replace_first (is_timeout date r) (apsnd inhibit) (pending a)\<rparr>"
    by (simp add: Disarm agenda_disarm_def split: if_splits)
  ultimately show ?thesis by (simp add: timeout_keys_def)
qed (auto simp: agenda_arm_def timeout_keys_def split: if_splits)

lemma agenda_cmds_keys: "agenda_cmds cs a = Some b \<Longrightarrow> timeout_keys a \<subseteq> timeout_keys b"
proof (induction cs arbitrary: a)
  case (Cons c cs)
  then obtain x where "agenda_cmd c a = Some x" "agenda_cmds cs x = Some b" by (auto simp: bind_eq_Some)
  with Cons.IH agenda_cmd_keys show ?case by blast
qed simp

lemma call_rel:
  assumes rel: "cmd_rel 0 now w a"
  shows "rel_option (\<lambda>s t. logged_rel 0 now s t \<and> timeout_keys a \<subseteq> timeout_keys (fst t))
     (if inhibited e then Some (w, log) else logged_call prog (cb_data e) (w, log))
     (if inhibited e then Some (a, log)
         else do { b \<leftarrow> agenda_cmds (prog (cb_data e)) a; Some (b, log @ [cb_data e]) })"
proof -
  have "rel_option (cmd_rel 0 now) (run_cmds (prog (cb_data e)) w) (agenda_cmds (prog (cb_data e)) a)"
    by (rule run_cmds_rel [OF rel]) simp
  then show ?thesis
    using rel agenda_cmds_keys [of "prog (cb_data e)" a]
    by (cases "run_cmds (prog (cb_data e)) w"; cases "agenda_cmds (prog (cb_data e)) a")
      (auto simp: logged_call_def logged_rel_def)
qed

abbreviation "walk prog idx n s \<equiv> grape_walk fst (\<lambda>w s. (w, snd s)) (logged_call prog) idx n s"

lemma walk_rel:
  fixes prog :: "'d \<Rightarrow> 'd cmd list"
  assumes "cmd_rel 0 now w a"
  shows "rel_option (logged_rel 0 now) (walk prog (now mod MAX_TIMEOUT_BEATS) n (w, log)) (agenda_walk prog n (a, log))"
  using assms
proof (induction n arbitrary: w a log)
  case 0
  then show ?case by (simp add: logged_rel_def)
next
  case (Suc n)
  have win: "\<forall>p \<in> set (pending a). now \<le> fst p \<and> fst p < now + MAX_TIMEOUT_BEATS" and nb: "now_beat a = now"
    and g: "g_grape w (now mod MAX_TIMEOUT_BEATS) = slot_of (now mod MAX_TIMEOUT_BEATS) (pending a)"
    using Suc.prems by (auto simp: cmd_rel_def in_window_def wheel_rel_def)
  show ?case
  proof (cases "filter (\<lambda>p. fst p = now) (pending a)")
    case Nil
    then show ?thesis using g due_slot [OF win] nb by (simp add: find_filter)
  next
    case (Cons p ps)
    obtain d e where p: "p = (d, e)" by (cases p)
    have "p \<in> set (pending a)" "d = now" using Cons p filter_eq_Cons_iff [of "\<lambda>p. fst p = now" "pending a" p ps] by auto
    then have key: "(now, el_ref e) \<in> timeout_keys a" using p by (force simp: timeout_keys_def)
    have slot: "g_grape w (now mod MAX_TIMEOUT_BEATS) = e # map snd ps" using g due_slot [OF win] Cons p by simp
    have next_rel: "rel_option (logged_rel 0 now)
        (unplug_elem (now mod MAX_TIMEOUT_BEATS) (el_ref e) (fst s) \<bind> (\<lambda>w. walk prog (now mod MAX_TIMEOUT_BEATS) n (w, snd s)))
        (agenda_walk prog n ((fst t)\<lparr>pending := remove_first (\<lambda>p. fst p = now_beat (fst t) \<and> el_ref (snd p) = el_ref e)
          (pending (fst t))\<rparr>, snd t))"
      if st: "logged_rel 0 now s t \<and> timeout_keys a \<subseteq> timeout_keys (fst t)" for s t
    proof -
      have r: "cmd_rel 0 now (fst s) (fst t)" "snd s = snd t" "now_beat (fst t) = now"
        using st by (auto simp: logged_rel_def cmd_rel_def split: prod.splits)
      have "\<exists>p \<in> set (pending (fst t)). fst p = now \<and> el_ref (snd p) = el_ref e"
        using st key by (force simp: timeout_keys_def)
      from unplug_rel [OF r(1) this] obtain w' where w': "unplug_elem (now mod MAX_TIMEOUT_BEATS) (el_ref e) (fst s) = Some w'"
        "cmd_rel 0 now w' ((fst t)\<lparr>pending := remove_first (\<lambda>p. fst p = now \<and> el_ref (snd p) = el_ref e) (pending (fst t))\<rparr>)"
        by blast
      from Suc.IH [OF w'(2), of "snd t"] w'(1) r show ?thesis by simp
    qed
    have find: "find (\<lambda>p. fst p = now_beat a) (pending a) = Some (now, e)"
      using Cons p \<open>d = now\<close> nb by (simp add: find_filter)
    show ?thesis
      unfolding grape_walk.simps agenda_walk.simps find fst_conv slot option.case list.case prod.case
    proof (rule rel_option_bind [OF call_rel [OF Suc.prems]])
      fix s :: "'d wheel \<times> 'd list" and t :: "'d agenda \<times> 'd list"
      assume "logged_rel 0 now s t \<and> timeout_keys a \<subseteq> timeout_keys (fst t)"
      from next_rel [OF this] show "rel_option (logged_rel 0 now)
         (unplug_elem (now mod MAX_TIMEOUT_BEATS) (el_ref e) (fst s) \<bind>
          (\<lambda>w. walk prog (now mod MAX_TIMEOUT_BEATS) n (w, snd s)))
         (case t of (b, log) \<Rightarrow> agenda_walk prog n (b\<lparr>pending := remove_first (\<lambda>p. fst p = now_beat b \<and>
           el_ref (snd p) = el_ref e) (pending b)\<rparr>, log))"
        by (cases t) simp
    qed
  qed
qed

text \<open>The walk takes off every timeout of the beat: none is left behind on its list.\<close>

definition due :: "'d agenda \<Rightarrow> int list" where
  "due a = map (\<lambda>p. el_ref (snd p)) (filter (\<lambda>p. fst p = now_beat a) (pending a))"

lemma due_replace:
  "map (\<lambda>p. el_ref (snd p)) (filter (\<lambda>p. fst p = n) (replace_first P (apsnd inhibit) ps)) =
   map (\<lambda>p. el_ref (snd p)) (filter (\<lambda>p. fst p = n) ps)"
  by (induction ps) (auto simp: inhibit_def)

lemma agenda_cmd_due: "agenda_cmd c a = Some b \<Longrightarrow> now_beat b = now_beat a \<and> due b = due a"
  by (cases c) (auto simp: agenda_arm_def agenda_disarm_def due_def due_replace MIN_TIMEOUT_BEATS_def split: if_splits)

lemma agenda_cmds_due: "agenda_cmds cs a = Some b \<Longrightarrow> now_beat b = now_beat a \<and> due b = due a"
proof (induction cs arbitrary: a)
  case (Cons c cs)
  then obtain x where "agenda_cmd c a = Some x" "agenda_cmds cs x = Some b" by (auto simp: bind_eq_Some)
  with Cons.IH agenda_cmd_due show ?case by metis
qed simp

lemma due_remove:
  assumes "p \<in> set ps" and "fst p = n" and "el_ref (snd p) = r"
  shows "length (filter (\<lambda>p. fst p = n) ps) =
    Suc (length (filter (\<lambda>p. fst p = n) (remove_first (\<lambda>p. fst p = n \<and> el_ref (snd p) = r) ps)))"
  using assms by (induction ps) auto

lemma agenda_walk_due:
  assumes "agenda_walk prog n (a, log) = Some (b, log')" and "length (due a) = n"
  shows "now_beat b = now_beat a \<and> due b = []"
  using assms
proof (induction n arbitrary: a log)
  case (Suc n)
  from Suc.prems(1) obtain q e where find: "find (\<lambda>p. fst p = now_beat a) (pending a) = Some (q, e)"
    by (auto split: option.splits)
  with Suc.prems(1) obtain c log2 where
    c: "(if inhibited e then Some (a, log) else do { b \<leftarrow> agenda_cmds (prog (cb_data e)) a; Some (b, log @ [cb_data e]) }) =
      Some (c, log2)" and
    walk: "agenda_walk prog n (c\<lparr>pending := remove_first (\<lambda>p. fst p = now_beat c \<and> el_ref (snd p) = el_ref e)
      (pending c)\<rparr>, log2) = Some (b, log')"
    by (auto simp: bind_eq_Some split: prod.splits if_splits)
  have same: "now_beat c = now_beat a \<and> due c = due a"
    using c agenda_cmds_due by (auto simp: bind_eq_Some split: if_splits)
  have "el_ref e \<in> set (due c)"
    using find_SomeD [OF find] same by (force simp: due_def)
  then obtain p where p: "p \<in> set (pending c)" "fst p = now_beat c" "el_ref (snd p) = el_ref e"
    by (auto simp: due_def)
  have "length (due c) = Suc n" using Suc.prems(2) same by simp
  then have "length (due (c\<lparr>pending := remove_first (\<lambda>p. fst p = now_beat c \<and> el_ref (snd p) = el_ref e) (pending c)\<rparr>)) = n"
    using due_remove [OF p] by (simp add: due_def)
  from Suc.IH [OF walk this] same show ?case by simp
qed simp

lemma beat_rel:
  assumes rel: "cmd_rel 1 now w a"
  shows "rel_option (logged_rel 1 (now + 1)) (clownix_timer_beat fst (\<lambda>w s. (w, snd s)) (logged_call prog) (w, log))
    (agenda_beat prog (a, log))"
proof -
  let ?w = "w\<lparr>g_current_beat := now + 1\<rparr>" and ?a = "a\<lparr>now_beat := now + 1\<rparr>"
  have rel0: "cmd_rel 0 (now + 1) ?w ?a"
    using rel by (force simp: cmd_rel_def wheel_rel_def in_window_def)
  then have win: "\<forall>p \<in> set (pending ?a). now + 1 \<le> fst p \<and> fst p < now + 1 + MAX_TIMEOUT_BEATS"
    and slot: "g_grape ?w ((now + 1) mod MAX_TIMEOUT_BEATS) = slot_of ((now + 1) mod MAX_TIMEOUT_BEATS) (pending ?a)"
    by (auto simp: cmd_rel_def in_window_def wheel_rel_def)
  define n where "n = length (filter (\<lambda>p. fst p = now + 1) (pending a))"
  have n: "length (g_grape w ((now + 1) mod MAX_TIMEOUT_BEATS)) = n" using slot due_slot [OF win] by (simp add: n_def)
  have nows: "g_current_beat w = now" "now_beat a = now" using rel by (auto simp: cmd_rel_def wheel_rel_def)
  have "rel_option (logged_rel 0 (now + 1)) (walk prog ((now + 1) mod MAX_TIMEOUT_BEATS) n (?w, log)) (agenda_walk prog n (?a, log))"
    by (rule walk_rel [OF rel0])
  moreover have "in_window 1 b" if walk: "agenda_walk prog n (?a, log) = Some (b, log')" and r: "cmd_rel 0 (now + 1) v b" for b v log'
  proof -
    have "length (due ?a) = n" by (simp add: due_def n_def)
    from agenda_walk_due [OF walk this] have "due b = []" ..
    then show ?thesis using r by (force simp: due_def cmd_rel_def in_window_def filter_empty_conv)
  qed
  ultimately show ?thesis
    unfolding clownix_timer_beat_def process_all_current_grape_idx_def agenda_beat_def Let_def
    by (auto simp: nows n n_def [symmetric] option_rel_Some1 option_rel_Some2 logged_rel_def cmd_rel_def
        elim!: option.rel_cases)
qed

lemma wheel_step_rel:
  assumes "logged_rel 1 (now_beat (fst t)) s t"
  shows "rel_option (\<lambda>s t. logged_rel 1 (now_beat (fst t)) s t) (wheel_step prog s e) (agenda_step prog t e)"
proof -
  obtain w log a where st: "s = (w, log)" "t = (a, log)" "cmd_rel 1 (now_beat a) w a"
    using assms by (auto simp: logged_rel_def split: prod.splits)
  have strong: "rel_option (\<lambda>s t. logged_rel 1 (now_beat (fst t)) s t) x y"
    if "rel_option (logged_rel 1 m) x y" for m x y
    by (rule option.rel_mono_strong [OF that]) (auto simp: logged_rel_def cmd_rel_def split: prod.splits)
  show ?thesis
  proof (cases e)
    case (Cmd c)
    have "rel_option (logged_rel 1 (now_beat a)) (wheel_step prog s e) (agenda_step prog t e)"
      using run_cmd_rel [OF st(3), of c] by (cases "run_cmd c w"; cases "agenda_cmd c a") (simp_all add: Cmd st logged_rel_def)
    then show ?thesis by (rule strong)
  next
    case Beat
    show ?thesis unfolding Beat st wheel_step.simps agenda_step.simps by (rule strong [OF beat_rel [OF st(3)]])
  qed
qed

lemma wheel_init_rel: "logged_rel 1 0 (clownix_timer_init, []) (\<lparr>pending = [], now_beat = 0, last_ref = 0\<rparr>, [])"
  by (simp add: logged_rel_def cmd_rel_def wheel_rel_def in_window_def clownix_timer_init_def slot_of_def)

section \<open>Properties\<close>

definition agenda_init :: "'d agenda" where
  "agenda_init = \<lparr>pending = [], now_beat = 0, last_ref = 0\<rparr>"

text \<open>C16: the ring of 262,143 lists implements the agenda. Over every sequence of beats, of timeouts
  armed and of timeouts deleted, by the servers or by the calls of the timeouts themselves, the
  ring ends the process exactly when the agenda does, makes the same calls in the same order, and
  keeps on each of its lists the pending timeouts whose date falls on it, in the order they were
  armed: a timeout is never called on an earlier turn of the ring nor left for a later one.
\<close>
theorem wheel_is_an_agenda:
  "rel_option (\<lambda>(w, log) (a, log'). log = log' \<and> g_current_beat w = now_beat a \<and>
       (\<forall>i. g_grape w i = slot_of i (pending a)) \<and>
       list_all (\<lambda>p. now_beat a < fst p \<and> fst p < now_beat a + MAX_TIMEOUT_BEATS) (pending a))
     (run_events (wheel_step prog) (clownix_timer_init, []) es) (run_events (agenda_step prog) (agenda_init, []) es)"
proof -
  let ?R = "\<lambda>s t. logged_rel 1 (now_beat (fst t)) s t"
  have "rel_option ?R (run_events (wheel_step prog) (clownix_timer_init, []) es)
      (run_events (agenda_step prog) (agenda_init, []) es)"
    by (rule run_events_rel [where R = ?R, OF wheel_step_rel]) (simp_all add: wheel_init_rel agenda_init_def)
  then show ?thesis
    by (rule option.rel_mono_strong) (fastforce simp: logged_rel_def cmd_rel_def wheel_rel_def in_window_def list_all_iff)
qed

definition only_arms :: "('d \<Rightarrow> 'd cmd list) \<Rightarrow> bool" where
  "only_arms prog \<longleftrightarrow> (\<forall>d. \<forall>c \<in> set (prog d). case c of
     Arm nb _ \<Rightarrow> MIN_TIMEOUT_BEATS \<le> nb \<and> nb < MAX_TIMEOUT_BEATS | Disarm _ _ \<Rightarrow> False)"

abbreviation "due_elems a \<equiv> filter (\<lambda>p. fst p = now_beat a) (pending a)"

lemma arms_keep_due:
  assumes "\<forall>c \<in> set cs. case c of Arm nb _ \<Rightarrow> MIN_TIMEOUT_BEATS \<le> nb \<and> nb < MAX_TIMEOUT_BEATS | Disarm _ _ \<Rightarrow> False"
  shows "\<exists>b. agenda_cmds cs a = Some b \<and> now_beat b = now_beat a \<and> due_elems b = due_elems a"
  using assms
proof (induction cs arbitrary: a)
  case (Cons c cs)
  then obtain nb d where c: "c = Arm nb d" "MIN_TIMEOUT_BEATS \<le> nb" "nb < MAX_TIMEOUT_BEATS" by (auto split: cmd.splits)
  have "\<exists>x. agenda_cmd c a = Some x \<and> now_beat x = now_beat a \<and> due_elems x = due_elems a"
    using c by (auto simp: agenda_arm_def MIN_TIMEOUT_BEATS_def)
  then obtain x where x: "agenda_cmd c a = Some x" "now_beat x = now_beat a" "due_elems x = due_elems a" by blast
  with Cons.IH [of x] Cons.prems show ?case by simp
qed simp

lemma filter_remove_head:
  "filter (\<lambda>p. fst p = n) ps = q # qs \<Longrightarrow> el_ref (snd q) = r \<Longrightarrow>
   filter (\<lambda>p. fst p = n) (remove_first (\<lambda>p. fst p = n \<and> el_ref (snd p) = r) ps) = qs"
  by (induction ps) (auto split: if_splits)

abbreviation "calls es \<equiv> map cb_data (filter (\<lambda>e. \<not> inhibited e) es)"

lemma agenda_walk_calls:
  assumes "only_arms prog" and "due_elems a = qs"
  shows "\<exists>b. agenda_walk prog (length qs) (a, log) = Some (b, log @ calls (map snd qs))"
  using assms(2)
proof (induction qs arbitrary: a log)
  case (Cons q qs)
  obtain d e where q: "q = (d, e)" by (cases q)
  have find: "find (\<lambda>p. fst p = now_beat a) (pending a) = Some (d, e)" using Cons.prems q by (simp add: find_filter)
  have "\<forall>c \<in> set (prog (cb_data e)). case c of Arm nb _ \<Rightarrow> MIN_TIMEOUT_BEATS \<le> nb \<and> nb < MAX_TIMEOUT_BEATS | Disarm _ _ \<Rightarrow> False"
    using assms(1) by (simp add: only_arms_def)
  from arms_keep_due [OF this, of a] obtain b0 where b0: "agenda_cmds (prog (cb_data e)) a = Some b0"
    "now_beat b0 = now_beat a" "due_elems b0 = due_elems a" by blast
  obtain b where b: "(if inhibited e then Some (a, log) else do { b \<leftarrow> agenda_cmds (prog (cb_data e)) a; Some (b, log @ [cb_data e]) }) =
      Some (b, log @ calls [e])" "now_beat b = now_beat a" "due_elems b = due_elems a"
    using b0 by (cases "inhibited e") (auto intro: that)
  let ?b = "b\<lparr>pending := remove_first (\<lambda>p. fst p = now_beat b \<and> el_ref (snd p) = el_ref e) (pending b)\<rparr>"
  have "due_elems ?b = qs" using filter_remove_head [of "now_beat b" "pending b" q qs "el_ref e"] b(2,3) Cons.prems q by simp
  from Cons.IH [OF this, of "log @ calls [e]"] b(1) find show ?case by (cases "inhibited e") (simp_all add: q)
qed simp

text \<open>when the calls of the timeouts only arm new ones, at delays that the ring accepts, a beat
  never ends the process and calls exactly the timeouts that are on the list of the new beat and
  were not deleted, each once and in the order they were armed; the timeouts they arm wait for a
  later beat.
\<close>
theorem beat_calls_the_due:
  assumes "run_events (wheel_step prog) (clownix_timer_init, []) es = Some (w, log)" and "only_arms prog"
  shows "\<exists>v. wheel_step prog (w, log) Beat =
    Some (v, log @ map cb_data (filter (\<lambda>e. \<not> inhibited e) (g_grape w ((g_current_beat w + 1) mod MAX_TIMEOUT_BEATS))))"
proof -
  let ?R = "\<lambda>s t. logged_rel 1 (now_beat (fst t)) s t"
  have "rel_option ?R (run_events (wheel_step prog) (clownix_timer_init, []) es)
      (run_events (agenda_step prog) (agenda_init, []) es)"
    by (rule run_events_rel [where R = ?R, OF wheel_step_rel]) (simp_all add: wheel_init_rel agenda_init_def)
  then obtain a where rel: "cmd_rel 1 (now_beat a) w a"
    unfolding assms(1) by (auto simp: logged_rel_def elim: option.rel_cases)
  let ?a = "a\<lparr>now_beat := now_beat a + 1\<rparr>"
  have win: "\<forall>p \<in> set (pending a). now_beat a + 1 \<le> fst p \<and> fst p < now_beat a + 1 + MAX_TIMEOUT_BEATS"
    and slot: "g_grape w i = slot_of i (pending a)" and now: "g_current_beat w = now_beat a" for i
    using rel by (force simp: cmd_rel_def in_window_def wheel_rel_def)+
  have due: "g_grape w ((now_beat a + 1) mod MAX_TIMEOUT_BEATS) = map snd (due_elems ?a)"
    using slot due_slot [OF win] by simp
  obtain b where "agenda_walk prog (length (due_elems ?a)) (?a, log) = Some (b, log @ calls (map snd (due_elems ?a)))"
    using agenda_walk_calls [OF assms(2) refl] by blast
  then have "agenda_beat prog (a, log) = Some (b, log @ calls (map snd (due_elems ?a)))"
    by (simp add: agenda_beat_def)
  with beat_rel [OF rel, of prog log] show ?thesis
    by (auto simp: due now logged_rel_def elim!: option.rel_cases)
qed

definition demo_prog :: "nat \<Rightarrow> nat cmd list" where
  "demo_prog d = (if d = 1 then [Arm 1 2] else [])"

lemma demo_prog_arms: "only_arms demo_prog"
  by (simp add: only_arms_def demo_prog_def MIN_TIMEOUT_BEATS_def MAX_TIMEOUT_BEATS_def)

lemma demo_prog_run:
  "run_events (wheel_step demo_prog) (clownix_timer_init, []) [Cmd (Arm 2 1), Cmd (Arm 2 7), Cmd (Arm 2 8), Cmd (Disarm 2 2), Beat] =
   Some (\<lparr>g_grape = (\<lambda>_. [])(2 := [\<lparr>inhibited = False, cb_data = 1, el_ref = 1\<rparr>, \<lparr>inhibited = True, cb_data = 7, el_ref = 2\<rparr>,
     \<lparr>inhibited = False, cb_data = 8, el_ref = 3\<rparr>]), g_current_ref = 3, g_current_beat = 1, g_plugged_elem = 3\<rparr>, [])"
  by (simp add: clownix_timeout_add_def clownix_timeout_del_def plug_elem_def next_ref_def i32_def clownix_timer_init_def
      inhibit_def clownix_timer_beat_def process_all_current_grape_idx_def Let_def kout_if_bind MAX_TIMEOUT_BEATS_def MIN_TIMEOUT_BEATS_def
      signed_take_bit_def take_bit_eq_mod)

theorem beat_calls_the_due_witness: "\<exists>v. wheel_step demo_prog (\<lparr>g_grape = (\<lambda>_. [])(2 := [\<lparr>inhibited = False, cb_data = 1, el_ref = 1\<rparr>,
     \<lparr>inhibited = True, cb_data = 7, el_ref = 2\<rparr>, \<lparr>inhibited = False, cb_data = 8, el_ref = 3\<rparr>]),
     g_current_ref = 3, g_current_beat = 1, g_plugged_elem = 3\<rparr>, []) Beat = Some (v, [1, 8])"
  using beat_calls_the_due [OF demo_prog_run demo_prog_arms] by (simp add: MAX_TIMEOUT_BEATS_def del: wheel_step.simps)

end
