(* ===== verification/Nat_Format.thy ===== *)
theory Nat_Format
  imports C_Text Tcp_Packet
begin

text \<open>
  The packets of munat that are not TCP (\<open>munat/src/utils.c\<close>): addresses as text, ARP requests and
  answers, the headers of IP and UDP. A MAC address as text is always the \<open>sprintf\<close> of six bytes in
  the sources and is kept as those bytes; the empty string is the empty list.
\<close>

section \<open>Addresses\<close>

definition OUR_MAC_GW :: "u8 list" where "OUR_MAC_GW = [0x42, 0xCA, 0xFE, 0x13, 0x07, 0x02]"
definition OUR_MAC_DNS :: "u8 list" where "OUR_MAC_DNS = [0x42, 0xCA, 0xFE, 0x13, 0x07, 0x03]"
definition OUR_MAC_CISCO :: "u8 list" where "OUR_MAC_CISCO = [0x42, 0xCA, 0xFE, 0x13, 0x07, 0x13]"

text \<open>The addresses that \<open>main\<close> gives to \<open>init_utils\<close>.\<close>

definition get_dns_ip :: string where "get_dns_ip = ''172.17.0.3''"
definition get_gw_ip :: string where "get_gw_ip = ''172.17.0.2''"
definition get_unix2inet_ip :: string where "get_unix2inet_ip = ''172.17.0.1''"

definition ip_string_to_int :: "string \<Rightarrow> u32 option" where
  "ip_string_to_int s = do {
     (a, s) \<leftarrow> scan_uint s;
     s \<leftarrow> scan_char CHR ''.'' s;
     (b, s) \<leftarrow> scan_uint s;
     s \<leftarrow> scan_char CHR ''.'' s;
     (c, s) \<leftarrow> scan_uint s;
     s \<leftarrow> scan_char CHR ''.'' s;
     (d, s) \<leftarrow> scan_uint s;
     if a \<le> 0xFF \<and> b \<le> 0xFF \<and> c \<le> 0xFF \<and> d \<le> 0xFF
     then Some (push_bit 24 (word_of_int a) + push_bit 16 (word_of_int b) + push_bit 8 (word_of_int c) + word_of_int d)
     else None
   }"

text \<open>\<open>sprintf\<close> of \<open>%d.%d.%d.%d\<close> on four bytes.\<close>

definition ip_text :: "u8 \<Rightarrow> u8 \<Rightarrow> u8 \<Rightarrow> u8 \<Rightarrow> string" where
  "ip_text a b c d = dec_nat (unat a) @ CHR ''.'' # dec_nat (unat b) @ CHR ''.'' # dec_nat (unat c) @ CHR ''.'' # dec_nat (unat d)"

definition int_to_ip_string :: "u32 \<Rightarrow> string" where
  "int_to_ip_string addr = ip_text (byte32 3 addr) (byte32 2 addr) (byte32 1 addr) (byte32 0 addr)"

definition put_ip :: "string \<Rightarrow> u8 list run" where
  "put_ip ip = do { a \<leftarrow> ip_string_to_int ip; Some (bytes32 a) }"

section \<open>Reading a frame\<close>

definition MAC_HEADER :: nat where "MAC_HEADER = 14"
definition ARP_HEADER :: nat where "ARP_HEADER = 28"
definition IP_HEADER :: nat where "IP_HEADER = 20"
definition UDP_HEADER :: nat where "UDP_HEADER = 8"

datatype proto = proto_none | proto_arp_req | proto_arp_resp | proto_ip

text \<open>
  A frame is given by its length and the memory from its first byte on: the buffer of the receiver
  holds more than one frame. \<open>peek\<close> reads one byte of it.
\<close>

definition peek :: "u8 list \<Rightarrow> nat \<Rightarrow> u8 run" where
  "peek data i = (if i < length data then Some (data ! i) else None)"

definition get_proto :: "nat \<Rightarrow> u8 list \<Rightarrow> proto run" where
  "get_proto len data =
     (if MAC_HEADER < len then do {
        a \<leftarrow> peek data 12;
        b \<leftarrow> peek data 13;
        if a = 0x08 \<and> b = 0x06 then do {
          op \<leftarrow> peek data 21;
          Some (if op = 0x02 then proto_arp_resp else if op = 0x01 then proto_arp_req else proto_none)
        } else Some (if a = 0x08 \<and> b = 0x00 then proto_ip else proto_none)
      } else Some proto_none)"

definition get_src_mac :: "u8 list \<Rightarrow> u8 list run" where
  "get_src_mac data = do { ub_if (length data < 12); Some (take 6 (drop 6 data)) }"

definition get_dst_mac :: "u8 list \<Rightarrow> u8 list run" where
  "get_dst_mac data = do { ub_if (length data < 6); Some (take 6 data) }"

definition get_arp_sip :: "u8 list \<Rightarrow> string run" where
  "get_arp_sip data = do { ub_if (length data < 32); Some (ip_text (data ! 28) (data ! 29) (data ! 30) (data ! 31)) }"

definition get_arp_tip :: "u8 list \<Rightarrow> string run" where
  "get_arp_tip data = do { ub_if (length data < 42); Some (ip_text (data ! 38) (data ! 39) (data ! 40) (data ! 41)) }"

section \<open>Checksum\<close>

text \<open>The sum is an \<open>unsigned long\<close> here; a length that is not positive reads nothing.\<close>

definition utils_in_cksum :: "u8 list \<Rightarrow> u16" where
  "utils_in_cksum addr =
     (let s0 = sum_le addr mod 2 ^ 64;
          s1 = s0 div 65536 + s0 mod 65536;
          s2 = s1 + s1 div 65536 in
      NOT (word_of_int s2))"

section \<open>ARP\<close>

definition arp_head :: "u8 \<Rightarrow> u8 list" where
  "arp_head op = [0x08, 0x06, 0x00, 0x01, 0x08, 0x00, 0x06, 0x04, 0x00, op]"

definition format_arp_req :: "string \<Rightarrow> string \<Rightarrow> u8 list run" where
  "format_arp_req sip tip = do {
     let our_mac = (if tip = get_gw_ip then OUR_MAC_GW else if tip = get_dns_ip then OUR_MAC_DNS else OUR_MAC_CISCO);
     s \<leftarrow> put_ip sip;
     t \<leftarrow> put_ip tip;
     Some (replicate 6 0xFF @ our_mac @ arp_head 0x01 @ our_mac @ s @ replicate 6 0x00 @ t)
   }"

text \<open>The MAC address that stands for one of our addresses.\<close>

definition our_mac_of :: "string \<Rightarrow> u8 list run" where
  "our_mac_of ip = (if ip = get_gw_ip then Some OUR_MAC_GW else if ip = get_dns_ip then Some OUR_MAC_DNS
     else if ip = get_unix2inet_ip then Some OUR_MAC_CISCO else None)"

definition format_arp_resp :: "u8 list \<Rightarrow> string \<Rightarrow> string \<Rightarrow> u8 list run" where
  "format_arp_resp mac sip tip = do {
     our_mac \<leftarrow> our_mac_of tip;
     t \<leftarrow> put_ip tip;
     s \<leftarrow> put_ip sip;
     Some (mac @ our_mac @ arp_head 0x02 @ our_mac @ t @ mac @ s)
   }"

section \<open>The headers of an answer\<close>

definition fill_mac_ip_header :: "string \<Rightarrow> u8 list \<Rightarrow> u8 list run" where
  "fill_mac_ip_header sip dmac = do { our_mac \<leftarrow> our_mac_of sip; Some (dmac @ our_mac @ [0x08, 0x00]) }"

definition ip_ip_header_with :: "u16 \<Rightarrow> u16 \<Rightarrow> int \<Rightarrow> u32 \<Rightarrow> u32 \<Rightarrow> u8 \<Rightarrow> u8 list" where
  "ip_ip_header_with checksum ident len src_ip dst_ip proto =
     [0x45, 0, word_of_int (len div 256), word_of_int len] @ bytes16 ident @
     [0x40, 0x00, 0x40, proto, byte16 0 checksum, byte16 1 checksum] @ bytes32 src_ip @ bytes32 dst_ip"

text \<open>The static counter \<open>identification\<close> is passed in and returned.\<close>

definition fill_ip_ip_header :: "int \<Rightarrow> string \<Rightarrow> string \<Rightarrow> u8 \<Rightarrow> u16 \<Rightarrow> (u8 list \<times> u16) run" where
  "fill_ip_ip_header len sip dip proto identification = do {
     src_ip \<leftarrow> ip_string_to_int sip;
     dst_ip \<leftarrow> ip_string_to_int dip;
     let ident = identification + 1;
     let checksum = utils_in_cksum (ip_ip_header_with 0 ident len src_ip dst_ip proto);
     Some (ip_ip_header_with checksum ident len src_ip dst_ip proto, ident)
   }"

definition fill_udp_ip_header :: "int \<Rightarrow> u16 \<Rightarrow> u16 \<Rightarrow> u8 list" where
  "fill_udp_ip_header len sport dport = bytes16 sport @ bytes16 dport @ [word_of_int (len div 256), word_of_int len, 0x00, 0x00]"

section \<open>An echo request\<close>

definition ICMP_LEN :: nat where "ICMP_LEN = 84"

definition icmp_echo_with :: "u16 \<Rightarrow> int \<Rightarrow> u8 list" where
  "icmp_echo_with checksum seq_num =
     [0x08, 0x00, byte16 0 checksum, byte16 1 checksum, 0xCA, 0xFE, word_of_int (seq_num div 256), word_of_int seq_num] @
     map of_nat [42..<ICMP_LEN + MAC_HEADER]"

text \<open>The identification is zero here and no counter is used.\<close>

definition format_icmp_tx_buf :: "u8 list \<Rightarrow> string \<Rightarrow> int \<Rightarrow> u8 list run" where
  "format_icmp_tx_buf mac_dst ip_dst seq_num = do {
     s \<leftarrow> put_ip get_gw_ip;
     d \<leftarrow> put_ip ip_dst;
     let header = (\<lambda>checksum :: u16. [0x45, 0x00, word_of_int (int ICMP_LEN div 256), word_of_int (int ICMP_LEN),
       0x00, 0x00, 0x40, 0x00, 0x40, 0x01, byte16 0 checksum, byte16 1 checksum] @ s @ d);
     let icmp = icmp_echo_with 0 seq_num;
     Some (mac_dst @ OUR_MAC_GW @ [0x08, 0x00] @ header (utils_in_cksum (header 0)) @
       icmp_echo_with (utils_in_cksum icmp) seq_num)
   }"

section \<open>Facts\<close>

lemma ip_text_read:
  "ip_string_to_int (ip_text a b c d) = Some (push_bit 24 (ucast a) + push_bit 16 (ucast b) + push_bit 8 (ucast c) + ucast d)"
proof -
  have i: "int (unat x) = uint x" for x :: u8 by simp
  have b: "int (unat x) \<le> 0xFF" for x :: u8 using uint_u8 [of x] i [of x] by linarith
  then have "unat x \<le> 255" for x :: u8 by (metis of_nat_le_iff of_nat_numeral)
  then have n: "unat x < 2 ^ 32" for x :: u8 by (rule le_less_trans) simp
  have w: "word_of_int (int (unat x)) = (ucast x :: u32)" for x :: u8
    by (simp add: unsigned_ucast_eq)
  have dot: "\<not> is_digit CHR ''.''" by (simp add: is_digit_def)
  show ?thesis
    unfolding ip_string_to_int_def ip_text_def
    using n b dot scan_uint_dec_nat [of "unat d" "[]"]
    by (simp add: scan_uint_dec_nat scan_char_def w)
qed

lemma ip_text_be32: "ip_string_to_int (ip_text a b c d) = Some (be32 a b c d)"
  by (simp add: ip_text_read be32_def)

lemma ip_string_roundtrip: "ip_string_to_int (int_to_ip_string addr) = Some addr"
  unfolding int_to_ip_string_def ip_text_be32 by (simp only: be32_bytes)

lemma div_mod_byte: "(x * 256 + uint b) div 256 = x \<and> (x * 256 + uint b) mod 256 = uint b" for b :: u8
  using uint_u8 [of b] by simp

lemma bytes32_be32: "bytes32 (be32 w x y z) = [w, x, y, z]"
proof -
  define n where "n = ((uint w * 256 + uint x) * 256 + uint y) * 256 + uint z"
  have u: "uint (be32 w x y z) = n" by (simp add: uint_be32 n_def)
  have z: "n div 256 ^ 2 = n div 256 div 256" "n div 256 ^ 3 = n div 256 div 256 div 256"
    by (simp_all add: zdiv_zmult2_eq [symmetric])
  have d1: "n div 256 ^ 1 = (uint w * 256 + uint x) * 256 + uint y" by (simp only: n_def div_mod_byte power_one_right)
  then have d2: "n div 256 ^ 2 = uint w * 256 + uint x" by (simp only: z div_mod_byte power_one_right)
  then have d3: "n div 256 ^ 3 = uint w" by (simp only: z div_mod_byte power_one_right)
  note d = d1 d2 d3
  have "uint (byte32 3 (be32 w x y z)) = uint w" "uint (byte32 2 (be32 w x y z)) = uint x"
    "uint (byte32 1 (be32 w x y z)) = uint y" "uint (byte32 0 (be32 w x y z)) = uint z"
    unfolding uint_byte32 u d using uint_u8 [of w] by (simp_all only: n_def div_mod_byte power_0 div_by_1 mod_pos_pos_trivial)
  then show ?thesis unfolding bytes32_def by (simp only: word_uint_eq_iff simp_thms list.inject)
qed

lemma our_ips:
  "get_gw_ip = ip_text 172 17 0 2" "get_dns_ip = ip_text 172 17 0 3" "get_unix2inet_ip = ip_text 172 17 0 1"
  by code_simp+

lemma our_ips_int:
  "ip_string_to_int get_gw_ip = Some 0xAC110002" "ip_string_to_int get_dns_ip = Some 0xAC110003"
  "ip_string_to_int get_unix2inet_ip = Some 0xAC110001"
  by (simp_all add: our_ips ip_text_be32 be32_def)

section \<open>Checksums that are filled in\<close>

lemma utils_in_cksum_eq: "length xs \<le> 65535 \<Longrightarrow> utils_in_cksum xs = in_cksum xs"
proof -
  assume "length xs \<le> 65535"
  then have "int (length xs) + 1 \<le> 65536" by simp
  then have "65535 * (int (length xs) + 1) \<le> 65535 * 65536" by (rule mult_left_mono) simp
  then have "2 * sum_le xs \<le> 65535 * 65536" using sum_le_bound [of xs] by (rule order_trans [rotated])
  then have "sum_le xs < 2 ^ 32" "sum_le xs < 2 ^ 64" by simp_all
  then show ?thesis using sum_le_nonneg [of xs] by (simp add: utils_in_cksum_def in_cksum_def Let_def)
qed

lemma cksum_filled:
  assumes "0 < sum_le h" and "sum_le h < 2 ^ 31" and "sum_le h' = sum_le h + uint (in_cksum h)" and "sum_le h' < 2 ^ 32"
  shows "in_cksum h' = 0"
proof -
  have "in_cksum h = word_of_int (65535 - fold16 (sum_le h))"
    using assms by (simp add: in_cksum_fold)
  moreover have "uint (word_of_int (65535 - fold16 (sum_le h)) :: u16) = 65535 - fold16 (sum_le h)"
    using assms by (intro uint_cksum_word) simp_all
  ultimately have "fold16 (sum_le h') = 65535"
    using assms fold16_complement [of "sum_le h"] by simp
  with assms show ?thesis using sum_le_nonneg [of h'] by (simp add: in_cksum_fold)
qed

lemma length_ip_ip_header [simp]: "length (ip_ip_header_with c i len s d p) = 20"
  by (simp add: ip_ip_header_with_def bytes16_def bytes32_def)

lemma sum_le_ip_ip_header:
  "sum_le (ip_ip_header_with c i len s d p) = sum_le (ip_ip_header_with 0 i len s d p) + uint c"
proof -
  have "byte16 0 0 = 0" "byte16 1 0 = 0" by (simp_all add: byte16_def)
  then show ?thesis
    using uint_bytes16 [of c] by (simp add: ip_ip_header_with_def bytes16_def bytes32_def)
qed

lemma ip_ip_header_checksum:
  "in_cksum (ip_ip_header_with (utils_in_cksum (ip_ip_header_with 0 i len s d p)) i len s d p) = 0"
proof (rule cksum_filled)
  let ?h = "ip_ip_header_with 0 i len s d p"
  have "0 \<le> sum_le (drop 2 ?h)" by (rule sum_le_nonneg)
  then show "0 < sum_le ?h" by (simp add: ip_ip_header_with_def)
  show "sum_le ?h < 2 ^ 31" using sum_le_bound [of ?h] by simp
  show "sum_le (ip_ip_header_with (utils_in_cksum ?h) i len s d p) = sum_le ?h + uint (in_cksum ?h)"
    by (subst sum_le_ip_ip_header) (simp add: utils_in_cksum_eq)
  show "sum_le (ip_ip_header_with (utils_in_cksum ?h) i len s d p) < 2 ^ 32"
    using sum_le_bound [of "ip_ip_header_with (utils_in_cksum ?h) i len s d p"] by simp
qed

text \<open>A header that we fill in passes the test of IP input, with the length it states.\<close>

lemma fill_ip_ip_header_accepted:
  assumes "fill_ip_ip_header len sip dip proto ident = Some (h, ident')" and "len = 20 + int (length payload)"
    and "payload \<noteq> []" and "len \<le> 65535"
  shows "tst_ip_input (h @ payload) = Some (Some len) \<and> length h = 20 \<and> h ! 9 = proto"
proof -
  obtain s d where h: "h = ip_ip_header_with (utils_in_cksum (ip_ip_header_with 0 (ident + 1) len s d proto)) (ident + 1) len s d proto"
    using assms(1) by (auto simp: fill_ip_ip_header_def bind_eq_Some Let_def)
  have ck: "in_cksum (take 20 (h @ payload)) = 0" using ip_ip_header_checksum h by simp
  have nth: "(h @ payload) ! 0 = 0x45" "(h @ payload) ! 2 = word_of_int (len div 256)" "(h @ payload) ! 3 = word_of_int len"
    "(h @ payload) ! 6 = 0x40" "(h @ payload) ! 7 = 0x00" "h ! 9 = proto"
    by (simp_all add: h ip_ip_header_with_def bytes16_def nth_append)
  have len0: "0 \<le> len" using assms(2) by simp
  have "len div 256 mod 256 = len div 256" using assms(4) len0 by (intro mod_pos_pos_trivial) auto
  then have "256 * uint (word_of_int (len div 256) :: u8) + uint (word_of_int len :: u8) = len"
    using mult_div_mod_eq [of 256 len] by (simp add: uint_word_of_int)
  moreover have "length h = 20" "0 < length payload" using assms(3) by (simp_all add: h)
  ultimately show ?thesis
    using nth ck assms(2) by (simp add: tst_ip_input_def IP_HLEN_def Let_def kout_if_bind)
qed

section \<open>ARP answers\<close>

lemma arp_resp_shape:
  assumes "length mac = 6" and "our_mac_of tip = Some m" and "tip = ip_text a b c d" and "sip = ip_text e f g h"
  shows "format_arp_resp mac sip tip = Some (mac @ m @ arp_head 0x02 @ m @ [a, b, c, d] @ mac @ [e, f, g, h])"
proof -
  have "bytes32 (be32 w x y z) = [w, x, y, z]" for w x y z by (rule bytes32_be32)
  then show ?thesis using assms by (simp add: format_arp_resp_def put_ip_def ip_text_be32)
qed

end
