(* ===== verification/Nat_Boot.thy ===== *)
theory Nat_Boot
  imports Nat_Format
begin

text \<open>
  The virtual machines that munat knows (\<open>munat/src/bootp_input.c\<close>, the table of \<open>machine.c\<close>): the
  MAC addresses that the server gave for each, the one each uses, the addresses that DHCP gives.
\<close>

section \<open>The tables\<close>

definition MAX_ETH_VM :: nat where "MAX_ETH_VM = 15"
definition MAX_NAME_LEN :: nat where "MAX_NAME_LEN = 64"

text \<open>The empty list stands for a network interface without address.\<close>

record t_stored_mac =
  st_name :: string
  st_vm_id :: int
  st_eth :: "u8 list list"

record t_active_mac =
  ac_name :: string
  ac_mac :: "u8 list"

text \<open>The sockets of a machine are numbers, as the connections of the TCP stack.\<close>

record t_machine =
  ma_name :: string
  ma_vm_id :: int
  ma_ip :: string
  tot_rx_pkt :: int
  head_udp :: "nat list"
  hash_head :: "int \<Rightarrow> nat list"

record boot_tables =
  g_stored_mac_head :: "t_stored_mac list"
  g_active_mac_head :: "t_active_mac list"
  head_machine :: "t_machine list"

definition init_bootp :: boot_tables where
  "init_bootp = \<lparr>g_stored_mac_head = [], g_active_mac_head = [], head_machine = []\<rparr>"

section \<open>Addresses in use\<close>

definition find_active_with_mac :: "u8 list \<Rightarrow> boot_tables \<Rightarrow> t_active_mac option" where
  "find_active_with_mac mac b = find (\<lambda>a. ac_mac a = mac) (g_active_mac_head b)"

definition find_active_with_name :: "string \<Rightarrow> boot_tables \<Rightarrow> t_active_mac option" where
  "find_active_with_name name b = find (\<lambda>a. ac_name a = name) (g_active_mac_head b)"

definition alloc_active_mac :: "string \<Rightarrow> u8 list \<Rightarrow> boot_tables \<Rightarrow> boot_tables" where
  "alloc_active_mac name mac b =
     b\<lparr>g_active_mac_head := \<lparr>ac_name = take (MAX_NAME_LEN - 1) name, ac_mac = mac\<rparr> # g_active_mac_head b\<rparr>"

text \<open>The element that a search gave is taken off.\<close>

definition free_active_mac :: "(t_active_mac \<Rightarrow> bool) \<Rightarrow> boot_tables \<Rightarrow> boot_tables" where
  "free_active_mac P b = b\<lparr>g_active_mac_head := remove_first P (g_active_mac_head b)\<rparr>"

definition find_mac_in_stored_mac :: "u8 list \<Rightarrow> boot_tables \<Rightarrow> t_stored_mac option" where
  "find_mac_in_stored_mac mac b = find (\<lambda>c. mac \<in> set (st_eth c)) (g_stored_mac_head b)"

text \<open>The walk stops at the first element with the name or with the number.\<close>

definition is_stored_mac :: "string \<Rightarrow> int \<Rightarrow> t_stored_mac \<Rightarrow> bool" where
  "is_stored_mac name vm_id c \<longleftrightarrow> \<not> (st_name c \<noteq> name \<and> vm_id \<noteq> st_vm_id c)"

definition find_stored_mac :: "string \<Rightarrow> int \<Rightarrow> boot_tables \<Rightarrow> t_stored_mac option" where
  "find_stored_mac name vm_id b = find (is_stored_mac name vm_id) (g_stored_mac_head b)"

definition get_mac_with_name :: "string \<Rightarrow> boot_tables \<Rightarrow> u8 list option" where
  "get_mac_with_name name b = map_option ac_mac (find_active_with_name name b)"

definition get_name_with_mac :: "u8 list \<Rightarrow> boot_tables \<Rightarrow> string option" where
  "get_name_with_mac mac b = (case find_active_with_mac mac b of
     Some a \<Rightarrow> Some (ac_name a)
   | None \<Rightarrow> map_option st_name (find_mac_in_stored_mac mac b))"

section \<open>Machines\<close>

definition look_for_machine_with_name :: "string \<Rightarrow> boot_tables \<Rightarrow> t_machine option" where
  "look_for_machine_with_name name b = find (\<lambda>m. ma_name m = name) (head_machine b)"

definition look_for_machine_with_ip :: "string \<Rightarrow> boot_tables \<Rightarrow> t_machine option" where
  "look_for_machine_with_ip ip b = find (\<lambda>m. ma_ip m = ip) (head_machine b)"

text \<open>An update of a machine through its pointer; the names of the table are distinct.\<close>

definition upd_machine :: "string \<Rightarrow> (t_machine \<Rightarrow> t_machine) \<Rightarrow> boot_tables \<Rightarrow> boot_tables" where
  "upd_machine name f b = b\<lparr>head_machine := replace_first (\<lambda>m. ma_name m = name) f (head_machine b)\<rparr>"

definition add_machine :: "string \<Rightarrow> int \<Rightarrow> boot_tables \<Rightarrow> boot_tables" where
  "add_machine name vm_id b = (case look_for_machine_with_name name b of
     Some _ \<Rightarrow> b
   | None \<Rightarrow> b\<lparr>head_machine := \<lparr>ma_name = take (MAX_NAME_LEN - 1) name, ma_vm_id = vm_id, ma_ip = [],
       tot_rx_pkt = 0, head_udp = [], hash_head = (\<lambda>_. [])\<rparr> # head_machine b\<rparr>)"

text \<open>An address that another machine has ends the process.\<close>

definition machine_boop_alloc :: "string \<Rightarrow> string \<Rightarrow> boot_tables \<Rightarrow> boot_tables run" where
  "machine_boop_alloc name alloc_ip b = do {
     kout_if (\<exists>m \<in> set (head_machine b). ma_name m \<noteq> name \<and> ma_ip m = alloc_ip);
     Some (upd_machine name (\<lambda>m. if ma_ip m = alloc_ip then m
       else m\<lparr>ma_ip := take (MAX_NAME_LEN - 1) alloc_ip\<rparr>) b)
   }"

section \<open>Storing addresses\<close>

definition alloc_stored_mac :: "string \<Rightarrow> int \<Rightarrow> boot_tables \<Rightarrow> boot_tables" where
  "alloc_stored_mac name vm_id b = add_machine name vm_id
     (b\<lparr>g_stored_mac_head := \<lparr>st_name = take (MAX_NAME_LEN - 1) name, st_vm_id = vm_id, st_eth = replicate MAX_ETH_VM []\<rparr>
       # g_stored_mac_head b\<rparr>)"

text \<open>After the allocation the new element is the head of the list.\<close>

definition set_dhcp_addr :: "string \<Rightarrow> int \<Rightarrow> int \<Rightarrow> u8 list \<Rightarrow> boot_tables \<Rightarrow> boot_tables" where
  "set_dhcp_addr name vm_id num mac b =
     (let (P, b) = (case find_stored_mac name vm_id b of
            Some _ \<Rightarrow> (is_stored_mac name vm_id, b)
          | None \<Rightarrow> (\<lambda>_. True, alloc_stored_mac name vm_id b)) in
      if 0 \<le> num \<and> num < int MAX_ETH_VM
      then b\<lparr>g_stored_mac_head := replace_first P (\<lambda>c. c\<lparr>st_eth := (st_eth c)[nat num := mac]\<rparr>) (g_stored_mac_head b)\<rparr>
      else b)"

section \<open>DHCP\<close>

definition DHCPDISCOVER :: int where "DHCPDISCOVER = 1"
definition DHCPOFFER :: u8 where "DHCPOFFER = 2"
definition DHCPREQUEST :: int where "DHCPREQUEST = 3"
definition DHCPACK :: u8 where "DHCPACK = 5"
definition rfc1533_cookie :: "u8 list" where "rfc1533_cookie = [99, 130, 83, 99]"

definition get_dhcp_addr :: "u8 list \<Rightarrow> boot_tables \<Rightarrow> (u32 option \<times> boot_tables) run" where
  "get_dhcp_addr mac b = (case find_mac_in_stored_mac mac b of
     None \<Rightarrow> Some (None, b)
   | Some cur \<Rightarrow> do {
       let b = (case find_active_with_name (st_name cur) b of
          None \<Rightarrow> b | Some _ \<Rightarrow> free_active_mac (\<lambda>a. ac_name a = st_name cur) b);
       let b = alloc_active_mac (st_name cur) mac b;
       our_ip_gw \<leftarrow> ip_string_to_int get_gw_ip;
       Some (Some (our_ip_gw + word_of_int (st_vm_id cur + 8)), b)
     })"

text \<open>
  The options of a request. \<open>p\<close> is the position in the memory from the options on, \<open>len\<close> the length that the
  caller gives. A tag is a signed character and never equal to \<open>RFC1533_END\<close>, which is 255; of
  the shifted bytes of an address only the last survives its mask.
\<close>

function dhcp_options :: "nat \<Rightarrow> u8 list \<Rightarrow> nat \<Rightarrow> int \<times> u32 \<Rightarrow> (int \<times> u32) run" where
  "dhcp_options len mem p (type, addr) =
     (if len \<le> p then Some (type, addr)
      else do {
        t \<leftarrow> peek mem p;
        let tag = sint t;
        if tag = 0 then dhcp_options len mem (p + 1) (type, addr)
        else if tag = 255 then Some (type, addr)
        else if len \<le> p + 1 then Some (type, addr)
        else do {
          l \<leftarrow> peek mem (p + 1);
          type \<leftarrow> (if tag = 53 \<and> 1 \<le> unat l then map_option uint (peek mem (p + 2)) else Some type);
          addr \<leftarrow> (if tag = 50 \<and> unat l = 4 then do {
             _ \<leftarrow> peek mem (p + 2);
             _ \<leftarrow> peek mem (p + 3);
             _ \<leftarrow> peek mem (p + 4);
             d \<leftarrow> peek mem (p + 5);
             Some (addr + ucast d)
           } else Some addr);
          dhcp_options len mem (p + 2 + unat l) (type, addr)
        }
      })"
  by pat_completeness auto
termination
  by (relation "measure (\<lambda>(len, mem, p, r). len - p)") auto

declare dhcp_options.simps [simp del]

definition dhcp_decode :: "int \<Rightarrow> u8 list \<Rightarrow> (int \<times> u32) run" where
  "dhcp_decode len mem =
     (if 5 \<le> len then do {
        ub_if (length mem < 4);
        if take 4 mem = rfc1533_cookie then dhcp_options (nat len) mem 4 (0, 0) else Some (0, 0)
      } else Some (0, 0))"

text \<open>The fields of \<open>struct bootp_t\<close> that are read, by their place.\<close>

definition BP_VEND :: nat where "BP_VEND = 236"

definition bp_op :: "u8 list \<Rightarrow> u8 run" where "bp_op bp = peek bp 0"
definition bp_hwaddr :: "u8 list \<Rightarrow> u8 list run" where
  "bp_hwaddr bp = do { ub_if (length bp < 34); Some (take 6 (drop 28 bp)) }"

text \<open>The answer is written over the previous one in a static buffer: what it does not set is zero.\<close>

definition bp_text :: "nat \<Rightarrow> string \<Rightarrow> u8 list" where
  "bp_text n s = map of_char s @ replicate (n - length s) 0"

definition LEASE_TIME :: u32 where "LEASE_TIME = 0xFFF"

definition format_rbp :: "u8 list \<Rightarrow> u32 \<Rightarrow> int \<Rightarrow> u8 list run" where
  "format_rbp bp addr type = do {
     our_ip_gw \<leftarrow> ip_string_to_int get_gw_ip;
     our_ip_dns \<leftarrow> ip_string_to_int get_dns_ip;
     hw \<leftarrow> bp_hwaddr bp;
     Some ([2, 1, 6, 0] @ take 4 (drop 4 bp) @ replicate 8 0 @ bytes32 addr @ bytes32 our_ip_gw @ replicate 4 0 @
       hw @ replicate 10 0 @ bp_text 64 ''slirpserverhost'' @ bp_text 128 ''boot_file_name'' @
       rfc1533_cookie @ [53, 1, if type = DHCPDISCOVER then DHCPOFFER else DHCPACK] @ [54, 4] @ bytes32 our_ip_gw @
       [1, 4, 0xff, 0xff, 0xff, 0x00] @ [3, 4] @ bytes32 our_ip_gw @ [6, 4] @ bytes32 our_ip_dns @
       [51, 4] @ bytes32 LEASE_TIME @ [255])
   }"

text \<open>The address of the answer with the answer; no answer is \<open>None\<close>.\<close>

definition bootp_format_reply :: "int \<Rightarrow> u8 list \<Rightarrow> boot_tables \<Rightarrow> ((u32 \<times> u8 list) option \<times> boot_tables) run" where
  "bootp_format_reply len bp b = do {
     (type, addr) \<leftarrow> dhcp_decode len (drop BP_VEND bp);
     if type = DHCPDISCOVER \<or> type = DHCPREQUEST then do {
       mac \<leftarrow> bp_hwaddr bp;
       (a, b) \<leftarrow> get_dhcp_addr mac b;
       case a of
         None \<Rightarrow> Some (None, b)
       | Some addr \<Rightarrow> do { rbp \<leftarrow> format_rbp bp addr type; Some (Some (addr, rbp), b) }
     } else Some (None, b)
   }"

end
