(* ===== verification/Nat_Env.thy ===== *)
theory Nat_Env
  imports Nat_Boot Tcp_Beat Beat_Wheel
begin

text \<open>
  What munat keeps around its TCP stack: its channels, its timeouts, the local clients
  (\<open>munat/src/unix2inet.c\<close>), the sockets that are being connected (\<open>tcp_connect_wait_mngt.c\<close>), the
  machines and their UDP sockets (\<open>machine.c\<close>). All of it is the environment of the stack.
\<close>

section \<open>The state\<close>

datatype ctx_state = state_none | state_wait_info | state_wait_arp_resp | state_wait_syn_ack
  | state_running_half | state_running_full

record t_ctx_unix2inet =
  ctx_state :: ctx_state
  ctx_llid :: int
  remote_user :: string
  remote_ip_txt :: string
  ctx_remote_port :: u16
  timeout_abs_beat :: int
  timeout_ref :: int
  ctx_tcpid :: t_tcp_id

record t_waiting_for_vmtx =
  w_ip :: string
  w_llid :: int
  w_port :: u16

record t_timeout_info =
  ti_llid :: int
  ti_ip :: string
  ti_is_synack :: bool

text \<open>A \<open>t_connect_ctx *\<close> and a \<open>t_machine_sock *\<close> are numbers.\<close>

record t_connect_ctx =
  cc_id :: nat
  cc_tcpid :: t_tcp_id
  cc_fd :: int
  cc_llid :: int
  cc_count :: int
  end_ctx_call :: bool
  timer_abs_beat :: int
  timer_ref :: int
  cc_addr :: "u32 \<times> u16"

record t_machine_sock =
  ms_lip :: string
  ms_lip_int :: u32
  ms_lport :: u16
  ms_fip :: string
  ms_fip_int :: u32
  ms_fport :: u16
  ms_llid :: int
  ms_fd :: int
  timer_killer_abs_beat :: int
  timer_killer_ref :: int
  ms_machine :: string

datatype nat_call =
  Timeout_waiting_for_vmtx t_timeout_info
| Timeout_free_ctx t_timeout_info
| Timer_connect_wait nat
| Timer_killer_machine_sock nat
| Beat_250ms_timeout

text \<open>
  \<open>chan_tx\<close> are the bytes queued on a channel, \<open>sock_count\<close> counts the calls of \<open>socket\<close>,
  \<open>rx_timers\<close> are the armed calls of \<open>timed_rx_from_out\<close>, \<open>app_msgs\<close> the messages to the server and
  \<open>udp_out\<close> the datagrams given to \<open>sendto\<close>.
\<close>

record nat_env =
  chan_open :: "int \<Rightarrow> bool"
  chan_tx :: "int \<Rightarrow> u8 list"
  chan_stopped :: "int \<Rightarrow> bool"
  nat_wheel :: "nat_call wheel"
  llid_to_ctx :: "int \<Rightarrow> t_ctx_unix2inet option"
  waiting_for_arp_reply :: "t_waiting_for_vmtx list"
  waiting_for_syn_ack :: "t_waiting_for_vmtx list"
  head_ctx :: "t_connect_ctx list"
  next_ctx :: nat
  sock_count :: nat
  closed_fds :: "int list"
  rx_timers :: "(int \<times> int) list"
  boot :: boot_tables
  socks :: "nat \<Rightarrow> t_machine_sock option"
  next_sock :: nat
  llid_to_socket :: "int \<Rightarrow> nat option"
  udp_ident :: u16
  udp_out :: "(int \<times> u32 \<times> u16 \<times> u8 list) list"
  g_resolv_dns_ip :: string
  app_msgs :: "string list"

type_synonym munat = "nat_env clo_sys"

text \<open>The kernel: the descriptor of the n-th socket, how far the connection of a socket is when it is
  asked for the n-th time, whether a socket can be bound, and the channel that a descriptor gets.\<close>

datatype connect_answer = Not_writable | So_error | Connected int

record net =
  socket_fd :: "nat \<Rightarrow> int"
  connect_state :: "int \<Rightarrow> int \<Rightarrow> connect_answer"
  bind_ok :: "int \<Rightarrow> bool"
  watch_llid :: "int \<Rightarrow> int"

definition MAX_SELECT_CHANNELS :: int where "MAX_SELECT_CHANNELS = 500"
definition MAX_TOT_LEN_QDAT :: int where "MAX_TOT_LEN_QDAT = 20000000"

definition with_env :: "(nat_env \<Rightarrow> nat_env) \<Rightarrow> munat \<Rightarrow> munat" where
  "with_env f s = s\<lparr>env := f (env s)\<rparr>"

definition timeout_add :: "int \<Rightarrow> nat_call \<Rightarrow> munat \<Rightarrow> ((int \<times> int) \<times> munat) run" where
  "timeout_add nb call s = do {
     (date_ref, w) \<leftarrow> clownix_timeout_add nb call (nat_wheel (env s));
     Some (date_ref, with_env (\<lambda>e. e\<lparr>nat_wheel := w\<rparr>) s)
   }"

definition timeout_del :: "int \<Rightarrow> int \<Rightarrow> munat \<Rightarrow> munat run" where
  "timeout_del date r s = do {
     (_, w) \<leftarrow> clownix_timeout_del date r (nat_wheel (env s));
     Some (with_env (\<lambda>e. e\<lparr>nat_wheel := w\<rparr>) s)
   }"

section \<open>Channels\<close>

text \<open>\<open>msg_exist_channel\<close> takes the number 0 for no channel.\<close>

definition exist_channel :: "int \<Rightarrow> nat_env \<Rightarrow> bool" where
  "exist_channel l e \<longleftrightarrow> l \<noteq> 0 \<and> chan_open e l"

definition delete_channel :: "int \<Rightarrow> nat_env \<Rightarrow> nat_env" where
  "delete_channel l e = e\<lparr>chan_open := (chan_open e)(l := False), chan_tx := (chan_tx e)(l := [])\<rparr>"

definition delete_if_exists :: "int \<Rightarrow> munat \<Rightarrow> munat run" where
  "delete_if_exists l s = do {
     kout_if (l \<noteq> 0 \<and> bad_llid l);
     Some (if exist_channel l (env s) then with_env (delete_channel l) s else s)
   }"

text \<open>A queue that is full loses the data.\<close>

definition chan_append :: "int \<Rightarrow> u8 list \<Rightarrow> nat_env \<Rightarrow> nat_env" where
  "chan_append l data e = (if int (length (chan_tx e l)) < MAX_TOT_LEN_QDAT
     then e\<lparr>chan_tx := (chan_tx e)(l := chan_tx e l @ data)\<rparr> else e)"

definition data_tx :: "int \<Rightarrow> u8 list \<Rightarrow> munat \<Rightarrow> munat run" where
  "data_tx l data s =
     (if data = [] then Some s
      else do {
        kout_if (MAX_TOT_LEN_QDAT < int (length data));
        kout_if (bad_llid l \<or> \<not> chan_open (env s) l);
        Some (with_env (chan_append l data) s)
      })"

text \<open>What the stack uses (\<open>llid_slirptux.c\<close>): its data never has more bytes than a queue takes.\<close>

definition llid_clo_data_rx_possible :: "t_tcp_id \<Rightarrow> nat_env \<Rightarrow> int" where
  "llid_clo_data_rx_possible tid e =
     (if exist_channel (llid tid) e
      then if llid_unlocked tid \<noteq> 0 \<and> length (chan_tx e (llid tid)) < 5000 then 1 else 0
      else -1)"

definition llid_clo_data_rx :: "t_tcp_id \<Rightarrow> u8 list \<Rightarrow> nat_env \<Rightarrow> nat_env" where
  "llid_clo_data_rx tid data e = (if exist_channel (llid tid) e then chan_append (llid tid) data e else e)"

definition nat_chan :: "nat_env clo_chan" where
  "nat_chan = \<lparr>msg_exist_channel = exist_channel, msg_delete_channel = delete_channel,
     high_data_rx_possible = llid_clo_data_rx_possible, high_data_rx = llid_clo_data_rx\<rparr>"

text \<open>A frame to the traffic socket.\<close>

definition packet_output_to_slirptux :: "u8 list \<Rightarrow> munat \<Rightarrow> munat" where
  "packet_output_to_slirptux data s = s\<lparr>low_out := low_out s @ [data]\<rparr>"

section \<open>Closing from a channel\<close>

definition llid_slirptux_tcp_close_llid :: "int \<Rightarrow> munat \<Rightarrow> munat run" where
  "llid_slirptux_tcp_close_llid l s = do {
     f \<leftarrow> util_get_clo l s;
     case f of
       None \<Rightarrow> Some s
     | Some r \<Rightarrow> do {
         s \<leftarrow> with_clo r (\<lambda>c. c\<lparr>has_been_closed_from_outside_socket := 1\<rparr>) s;
         c \<leftarrow> deref r s;
         (found, s) \<leftarrow> clo_high_close_tx nat_chan (tcpid c) s;
         kout_if (\<not> found);
         Some s
       }
   }"

definition fatal_err_llid_slirptux :: "int \<Rightarrow> munat \<Rightarrow> munat run" where
  "fatal_err_llid_slirptux l s = do {
     s \<leftarrow> llid_slirptux_tcp_close_llid l s;
     delete_if_exists l s
   }"

section \<open>The contexts of the clients\<close>

definition find_ctx :: "int \<Rightarrow> munat \<Rightarrow> t_ctx_unix2inet option run" where
  "find_ctx l s = do { kout_if (bad_llid l); Some (llid_to_ctx (env s) l) }"

definition set_ctx :: "int \<Rightarrow> t_ctx_unix2inet option \<Rightarrow> munat \<Rightarrow> munat" where
  "set_ctx l c = with_env (\<lambda>e. e\<lparr>llid_to_ctx := (llid_to_ctx e)(l := c)\<rparr>)"

definition zero_tcpid :: t_tcp_id where
  "zero_tcpid = \<lparr>local_mac = replicate 6 0, remote_mac = replicate 6 0, local_ip = 0, remote_ip = 0,
     local_port = 0, remote_port = 0, llid = 0, llid_unlocked = 0\<rparr>"

definition alloc_ctx :: "int \<Rightarrow> munat \<Rightarrow> munat run" where
  "alloc_ctx l s = do {
     kout_if (bad_llid l);
     Some (set_ctx l (Some \<lparr>ctx_state = state_none, ctx_llid = l, remote_user = [], remote_ip_txt = [],
       ctx_remote_port = 0, timeout_abs_beat = 0, timeout_ref = 0, ctx_tcpid = zero_tcpid\<rparr>) s)
   }"

definition free_ctx :: "int \<Rightarrow> munat \<Rightarrow> munat run" where
  "free_ctx l s = do {
     ctx \<leftarrow> find_ctx l s;
     s \<leftarrow> (case ctx of
        None \<Rightarrow> Some s
      | Some _ \<Rightarrow> do { s \<leftarrow> llid_slirptux_tcp_close_llid l s; Some (set_ctx l None s) });
     delete_if_exists l s
   }"

definition change_state :: "ctx_state \<Rightarrow> t_ctx_unix2inet \<Rightarrow> t_ctx_unix2inet" where
  "change_state st ctx = ctx\<lparr>ctx_state := st\<rparr>"

definition tcpid_are_the_same :: "t_tcp_id \<Rightarrow> t_tcp_id \<Rightarrow> bool" where
  "tcpid_are_the_same a b \<longleftrightarrow> local_mac a = local_mac b \<and> remote_mac a = remote_mac b \<and> local_ip a = local_ip b \<and>
     remote_ip a = remote_ip b \<and> local_port a = local_port b \<and> remote_port a = remote_port b"

section \<open>Answers and waiting\<close>

definition c_bytes :: "string \<Rightarrow> u8 list" where
  "c_bytes t = map of_char t @ [0]"

definition doorways_tx_resp :: "int \<Rightarrow> int \<Rightarrow> munat \<Rightarrow> munat run" where
  "doorways_tx_resp l val = data_tx l (c_bytes (if val = 0 then ''UNIX2INET_ACK_OPEN''
     else if val = 1 then ''UNIX2INET_NACK_TIMEOUT'' else ''UNIX2INET_NACK_NOREASON''))"

text \<open>The first entry with the address is taken off; the result is its client and port.\<close>

definition free_ctx_waiting_for_vmtx :: "bool \<Rightarrow> string \<Rightarrow> munat \<Rightarrow> (int \<times> u16) option \<times> munat" where
  "free_ctx_waiting_for_vmtx is_syn_ack ip s =
     (let ws = (if is_syn_ack then waiting_for_syn_ack (env s) else waiting_for_arp_reply (env s));
          rest = remove_first (\<lambda>w. w_ip w = ip) ws in
      (map_option (\<lambda>w. (w_llid w, w_port w)) (find (\<lambda>w. w_ip w = ip) ws),
       with_env (\<lambda>e. if is_syn_ack then e\<lparr>waiting_for_syn_ack := rest\<rparr> else e\<lparr>waiting_for_arp_reply := rest\<rparr>) s))"

definition timeout_free_ctx :: "t_timeout_info \<Rightarrow> munat \<Rightarrow> munat run" where
  "timeout_free_ctx ti s = do {
     ctx \<leftarrow> find_ctx (ti_llid ti) s;
     s \<leftarrow> (case ctx of
        Some c \<Rightarrow> if ti_is_synack ti then clo_high_free_tcpid (ctx_tcpid c) s else Some s
      | None \<Rightarrow> Some s);
     free_ctx (ti_llid ti) s
   }"

definition timeout_waiting_for_vmtx :: "t_timeout_info \<Rightarrow> munat \<Rightarrow> munat run" where
  "timeout_waiting_for_vmtx ti s =
     (let (w, s) = free_ctx_waiting_for_vmtx (ti_is_synack ti) (ti_ip ti) s in
      case w of
        None \<Rightarrow> Some s
      | Some (l, port) \<Rightarrow> do {
          ctx \<leftarrow> find_ctx (ti_llid ti) s;
          case ctx of
            None \<Rightarrow> Some s
          | Some _ \<Rightarrow> do {
              s \<leftarrow> doorways_tx_resp l 1 s;
              (_, s) \<leftarrow> timeout_add 10 (Timeout_free_ctx ti) s;
              Some s
            }
        })"

text \<open>The context \<open>ctx\<close> of the channel \<open>l\<close> is passed by pointer and read again from its table.\<close>

definition arm_timeout_waiting_for_vmtx :: "bool \<Rightarrow> t_ctx_unix2inet \<Rightarrow> int \<Rightarrow> munat \<Rightarrow> (bool \<times> munat) run" where
  "arm_timeout_waiting_for_vmtx is_synack ctx l s =
     (if timeout_abs_beat ctx = 0 \<and> timeout_ref ctx = 0 then do {
        ((date, r), s) \<leftarrow> timeout_add 50 (Timeout_waiting_for_vmtx
           \<lparr>ti_llid = l, ti_ip = remote_ip_txt ctx, ti_is_synack = is_synack\<rparr>) s;
        Some (True, set_ctx l (Some (ctx\<lparr>timeout_abs_beat := date, timeout_ref := r\<rparr>)) s)
      } else Some (False, s))"

definition alloc_ctx_waiting_for_vmtx :: "bool \<Rightarrow> t_ctx_unix2inet \<Rightarrow> int \<Rightarrow> munat \<Rightarrow> (bool \<times> munat) run" where
  "alloc_ctx_waiting_for_vmtx is_syn_ack ctx l s = do {
     (armed, s) \<leftarrow> arm_timeout_waiting_for_vmtx is_syn_ack ctx l s;
     let w = \<lparr>w_ip = take (MAX_NAME_LEN - 1) (remote_ip_txt ctx), w_llid = l, w_port = ctx_remote_port ctx\<rparr>;
     Some (armed, if armed then with_env (\<lambda>e. if is_syn_ack
         then e\<lparr>waiting_for_syn_ack := w # waiting_for_syn_ack e\<rparr>
         else e\<lparr>waiting_for_arp_reply := w # waiting_for_arp_reply e\<rparr>) s else s)
   }"

end
