(* ===== verification/Nat_Clients.thy ===== *)
theory Nat_Clients
  imports Nat_Env
begin

text \<open>
  The layer above the TCP stack of munat: the local clients that reach a machine
  (\<open>munat/src/unix2inet.c\<close>), the connections of the machines to the outside
  (\<open>tcp_tux.c\<close>, \<open>tcp_connect_wait_mngt.c\<close>) and the callbacks of the stack
  (\<open>llid_slirptux.c\<close>).
\<close>

section \<open>The end of a connection\<close>

definition our_concern :: "t_tcp_id \<Rightarrow> bool" where
  "our_concern tid \<longleftrightarrow> Some (local_ip tid) = ip_string_to_int get_unix2inet_ip \<and> local_mac tid = OUR_MAC_CISCO"

definition unix2inet_close_tcpid :: "t_tcp_id \<Rightarrow> munat \<Rightarrow> munat run" where
  "unix2inet_close_tcpid tid s =
     (if our_concern tid then do {
        let l = uint (local_port tid) - OFFSET_PORT;
        kout_if (bad_llid l);
        ctx \<leftarrow> find_ctx l s;
        case ctx of
          None \<Rightarrow> Some s
        | Some c \<Rightarrow> if tcpid_are_the_same tid (ctx_tcpid c) then free_ctx l s else Some s
      } else Some s)"

definition llid_clo_high_close_rx :: "t_tcp_id \<Rightarrow> munat \<Rightarrow> munat run" where
  "llid_clo_high_close_rx tid s = do {
     s \<leftarrow> unix2inet_close_tcpid tid s;
     f \<leftarrow> util_get_fast_clo tid s;
     case f of
       None \<Rightarrow> Some s
     | Some r \<Rightarrow> do {
         c \<leftarrow> deref r s;
         (_, s) \<leftarrow> clo_high_close_tx nat_chan (tcpid c) s;
         Some s
       }
   }"

section \<open>The SYN-ACK of a machine\<close>

text \<open>The result says that a client has its answer (0 in the source).\<close>

definition unix2inet_ssh_syn_ack_arrival :: "t_tcp_id \<Rightarrow> munat \<Rightarrow> (bool \<times> munat) run" where
  "unix2inet_ssh_syn_ack_arrival tid s = do {
     f \<leftarrow> util_get_fast_clo tid s;
     let l = uint (local_port tid) - OFFSET_PORT;
     kout_if (bad_llid l);
     ctx \<leftarrow> find_ctx l s;
     case (ctx, f) of
       (Some ctx, Some r) \<Rightarrow> do {
         c \<leftarrow> deref r s;
         if tcpid_are_the_same tid (ctx_tcpid ctx) \<and> llid (tcpid c) = 0 \<and> ctx_state ctx = state_wait_syn_ack
         then do {
           s \<leftarrow> timeout_del (timeout_abs_beat ctx) (timeout_ref ctx) s;
           s \<leftarrow> doorways_tx_resp (ctx_llid ctx) 0 (set_ctx l (Some (ctx\<lparr>timeout_abs_beat := 0, timeout_ref := 0\<rparr>)) s);
           Some (True, set_ctx l (Some (change_state state_running_half (ctx\<lparr>timeout_abs_beat := 0, timeout_ref := 0\<rparr>))) s)
         } else Some (False, s)
       }
     | _ \<Rightarrow> Some (False, s)
   }"

definition llid_clo_high_synack_rx :: "t_tcp_id \<Rightarrow> munat \<Rightarrow> munat run" where
  "llid_clo_high_synack_rx tid s = do {
     f \<leftarrow> util_get_fast_clo tid s;
     if f = None then Some s
     else do {
       (done, s) \<leftarrow> unix2inet_ssh_syn_ack_arrival tid s;
       if done then Some s else llid_clo_high_close_rx tid s
     }
   }"

section \<open>Connecting a socket for a machine\<close>

definition get_out_ip_addr :: "u32 \<Rightarrow> munat \<Rightarrow> u32 run" where
  "get_out_ip_addr lip s = do {
     our_ip_dns \<leftarrow> ip_string_to_int get_dns_ip;
     our_ip_gw \<leftarrow> ip_string_to_int get_gw_ip;
     if lip = our_ip_dns then ip_string_to_int (g_resolv_dns_ip (env s))
     else if lip = our_ip_gw then
       (if g_resolv_dns_ip (env s) = get_dns_ip then ip_string_to_int get_gw_ip else ip_string_to_int ''127.0.0.1'')
     else Some lip
   }"

definition find_connect :: "t_tcp_id \<Rightarrow> munat \<Rightarrow> t_connect_ctx option" where
  "find_connect tid s = find (\<lambda>c. util_tcpid_comp (cc_tcpid c) tid) (head_ctx (env s))"

definition get_connect :: "nat \<Rightarrow> munat \<Rightarrow> t_connect_ctx run" where
  "get_connect i s = find (\<lambda>c. cc_id c = i) (head_ctx (env s))"

definition set_connect :: "t_connect_ctx \<Rightarrow> munat \<Rightarrow> munat" where
  "set_connect c = with_env (\<lambda>e. e\<lparr>head_ctx := replace_first (\<lambda>d. cc_id d = cc_id c) (\<lambda>_. c) (head_ctx e)\<rparr>)"

text \<open>\<open>connect\<close> itself changes nothing here: how far it is, is asked later.\<close>

definition tcp_connect_wait_management :: "t_tcp_id \<Rightarrow> int \<Rightarrow> u32 \<times> u16 \<Rightarrow> munat \<Rightarrow> munat run" where
  "tcp_connect_wait_management tid fd addr s = (case find_connect tid s of
     Some _ \<Rightarrow> Some s
   | None \<Rightarrow> do {
       let i = next_ctx (env s);
       ((date, r), s) \<leftarrow> timeout_add 1 (Timer_connect_wait i) s;
       let c = \<lparr>cc_id = i, cc_tcpid = tid, cc_fd = fd, cc_llid = 0, cc_count = 0, end_ctx_call = False,
         timer_abs_beat = date, timer_ref = r, cc_addr = addr\<rparr>;
       Some (with_env (\<lambda>e. e\<lparr>head_ctx := c # head_ctx e, next_ctx := Suc i\<rparr>) s)
     })"

definition tcp_tux_socket_create_and_connect_to_tcp :: "net \<Rightarrow> t_tcp_id \<Rightarrow> munat \<Rightarrow> munat run" where
  "tcp_tux_socket_create_and_connect_to_tcp n tid s = do {
     let fd = socket_fd n (sock_count (env s));
     let s = with_env (\<lambda>e. e\<lparr>sock_count := Suc (sock_count e)\<rparr>) s;
     kout_if (fd \<le> 0);
     out_ip_addr \<leftarrow> get_out_ip_addr (local_ip tid) s;
     tcp_connect_wait_management tid fd (out_ip_addr, local_port tid) s
   }"

definition llid_clo_high_syn_rx :: "net \<Rightarrow> t_tcp_id \<Rightarrow> munat \<Rightarrow> munat run" where
  "llid_clo_high_syn_rx n tid s = tcp_tux_socket_create_and_connect_to_tcp n tid s"

definition nat_high :: "net \<Rightarrow> nat_env clo_high" where
  "nat_high n = \<lparr>high_syn_rx = llid_clo_high_syn_rx n, high_synack_rx = llid_clo_high_synack_rx,
     high_close_rx = llid_clo_high_close_rx\<rparr>"

definition callback_connect :: "t_tcp_id \<Rightarrow> int \<Rightarrow> int \<Rightarrow> munat \<Rightarrow> munat run" where
  "callback_connect tid l status s =
     (if status \<noteq> 0 then llid_clo_high_close_rx tid s
      else do {
        (sent, s) \<leftarrow> clo_high_synack_tx tid s;
        if \<not> sent then llid_clo_high_close_rx tid s
        else do {
          f \<leftarrow> util_get_fast_clo tid s;
          case f of
            None \<Rightarrow> Some s
          | Some r \<Rightarrow> do {
              s \<leftarrow> util_attach_llid_clo l r s;
              with_clo r (\<lambda>c. c\<lparr>tcpid := (tcpid c)\<lparr>llid_unlocked := 1\<rparr>\<rparr>) s
            }
        }
      })"

definition end_ctx :: "nat \<Rightarrow> int \<Rightarrow> munat \<Rightarrow> munat run" where
  "end_ctx i l s = do {
     c \<leftarrow> get_connect i s;
     if end_ctx_call c then Some s
     else do {
       let s = set_connect (c\<lparr>end_ctx_call := True\<rparr>) s;
       s \<leftarrow> (if timer_abs_beat c \<noteq> 0 then timeout_del (timer_abs_beat c) (timer_ref c) s else Some s);
       s \<leftarrow> (if 0 < l then callback_connect (cc_tcpid c) l 0 s else callback_connect (cc_tcpid c) 0 (-1) s);
       let s = (if cc_llid c = 0 then with_env (\<lambda>e. e\<lparr>closed_fds := closed_fds e @ [cc_fd c]\<rparr>) s else s);
       Some (with_env (\<lambda>e. e\<lparr>head_ctx := remove_first (\<lambda>d. cc_id d = i) (head_ctx e)\<rparr>) s)
     }
   }"

definition timer_connect_wait :: "net \<Rightarrow> nat \<Rightarrow> munat \<Rightarrow> munat run" where
  "timer_connect_wait n i s = do {
     c \<leftarrow> get_connect i s;
     let stctx = find_connect (cc_tcpid c) s;
     kout_if (map_option cc_id stctx \<noteq> Some i);
     let c = c\<lparr>timer_abs_beat := 0, timer_ref := 0, cc_count := cc_count c + 1\<rparr>;
     let s = set_connect c s;
     if 30 < cc_count c then end_ctx i (-1) s
     else if connect_state n (cc_fd c) (cc_count c) = Not_writable then do {
       ((date, r), s) \<leftarrow> timeout_add 5 (Timer_connect_wait i) s;
       Some (set_connect (c\<lparr>timer_abs_beat := date, timer_ref := r\<rparr>) s)
     } else do {
       kout_if (cc_fd c < 0 \<or> MAX_SELECT_CHANNELS - 1 \<le> cc_fd c);
       case connect_state n (cc_fd c) (cc_count c) of
         Connected l \<Rightarrow> do {
           kout_if (l \<le> 0);
           end_ctx i l (set_connect (c\<lparr>cc_llid := l\<rparr>)
             (with_env (\<lambda>e. e\<lparr>chan_open := (chan_open e)(l := True), chan_tx := (chan_tx e)(l := [])\<rparr>) s))
         }
       | _ \<Rightarrow> end_ctx i (-1) s
     }
   }"

section \<open>Data from a socket\<close>

definition llid_slirptux_tcp_tx_to_slirptux_possible :: "int \<Rightarrow> munat \<Rightarrow> bool run" where
  "llid_slirptux_tcp_tx_to_slirptux_possible l s = do {
     f \<leftarrow> util_get_clo l s;
     case f of
       None \<Rightarrow> Some False
     | Some r \<Rightarrow> do { c \<leftarrow> deref r s; clo_high_data_tx_possible (tcpid c) s }
   }"

definition llid_slirptux_tcp_rx_from_llid :: "int \<Rightarrow> u8 list \<Rightarrow> munat \<Rightarrow> munat run" where
  "llid_slirptux_tcp_rx_from_llid l data s = do {
     f \<leftarrow> util_get_clo l s;
     case f of
       None \<Rightarrow> Some s
     | Some r \<Rightarrow> do {
         c \<leftarrow> deref r s;
         (res, s) \<leftarrow> clo_high_data_tx (tcpid c) data s;
         kout_if (res = error_not_authorized);
         Some s
       }
   }"

text \<open>What the kernel answers to \<open>ioctl\<close> and \<open>read\<close>; data has at most \<open>MAX_SLIRP_RX_PROCESS\<close> bytes.\<close>

datatype read_answer = Ioctl_error | Read_again | Read_error | Read_data "u8 list"

definition MAX_SLIRP_RX_PROCESS :: nat where "MAX_SLIRP_RX_PROCESS = 10000"

definition do_rx_from_out :: "t_clo \<Rightarrow> read_answer \<Rightarrow> munat \<Rightarrow> munat run" where
  "do_rx_from_out clo answer s = (case answer of
     Ioctl_error \<Rightarrow> fatal_err_llid_slirptux (llid (tcpid clo)) s
   | Read_again \<Rightarrow> Some s
   | Read_error \<Rightarrow> fatal_err_llid_slirptux (llid (tcpid clo)) s
   | Read_data data \<Rightarrow> if data = [] then fatal_err_llid_slirptux (llid (tcpid clo)) s
       else llid_slirptux_tcp_rx_from_llid (llid (tcpid clo)) (take MAX_SLIRP_RX_PROCESS data) s)"

text \<open>The socket waits: it is not read for 50 milliseconds.\<close>

definition stop_reading :: "int \<Rightarrow> int \<Rightarrow> munat \<Rightarrow> munat" where
  "stop_reading l fd = with_env (\<lambda>e. e\<lparr>chan_stopped := (chan_stopped e)(l := True), rx_timers := rx_timers e @ [(l, fd)]\<rparr>)"

definition timed_rx_from_out :: "int \<Rightarrow> int \<Rightarrow> read_answer \<Rightarrow> munat \<Rightarrow> munat run" where
  "timed_rx_from_out l fd answer s = do {
     kout_if (bad_llid l);
     if \<not> exist_channel l (env s) then fatal_err_llid_slirptux l s
     else do {
       possible \<leftarrow> llid_slirptux_tcp_tx_to_slirptux_possible l s;
       if \<not> possible then Some (stop_reading l fd s)
       else do {
         f \<leftarrow> util_get_clo l s;
         case f of
           None \<Rightarrow> Some s
         | Some r \<Rightarrow> do {
             c \<leftarrow> deref r s;
             kout_if (llid (tcpid c) \<noteq> l);
             if llid_unlocked (tcpid c) \<noteq> 0
             then do_rx_from_out c answer (with_env (\<lambda>e. e\<lparr>chan_stopped := (chan_stopped e)(l := False)\<rparr>) s)
             else Some (stop_reading l fd s)
           }
       }
     }
   }"

definition tcp_rx_from_out :: "int \<Rightarrow> int \<Rightarrow> read_answer \<Rightarrow> munat \<Rightarrow> munat run" where
  "tcp_rx_from_out l fd answer s = do {
     f \<leftarrow> util_get_clo l s;
     if f \<noteq> None then timed_rx_from_out l fd answer s else delete_if_exists l s
   }"

definition tcp_err_from_out :: "int \<Rightarrow> munat \<Rightarrow> munat run" where
  "tcp_err_from_out l s = fatal_err_llid_slirptux l s"

section \<open>The first line of a client\<close>

definition unix2inet_init_tcp_id :: "u8 list \<Rightarrow> string \<Rightarrow> int \<Rightarrow> u16 \<Rightarrow> t_tcp_id run" where
  "unix2inet_init_tcp_id mac ip l port = do {
     lip \<leftarrow> ip_string_to_int get_unix2inet_ip;
     rip \<leftarrow> ip_string_to_int ip;
     Some \<lparr>local_mac = OUR_MAC_CISCO, remote_mac = mac, local_ip = lip, remote_ip = rip,
       local_port = word_of_int (OFFSET_PORT + l), remote_port = port, llid = 0, llid_unlocked = 0\<rparr>
   }"

text \<open>\<open>sscanf\<close> of \<open>user %s ip %s port %d\<close>, and whether the words fit in their buffers.\<close>

definition scan_info :: "string \<Rightarrow> (string \<times> string \<times> int) option" where
  "scan_info t = do {
     r \<leftarrow> scan_lit ''user'' t;
     (user, r) \<leftarrow> scan_word r;
     r \<leftarrow> scan_lit ''ip'' (dropWhile is_space r);
     (ip, r) \<leftarrow> scan_word r;
     r \<leftarrow> scan_lit ''port'' (dropWhile is_space r);
     (port, _) \<leftarrow> scan_int r;
     Some (user, ip, port)
   }"

definition info_fits :: "string \<Rightarrow> bool" where
  "info_fits t = (case scan_lit ''user'' t \<bind> scan_word of
     None \<Rightarrow> True
   | Some (user, r) \<Rightarrow> length user < MAX_NAME_LEN \<and>
       (case scan_lit ''ip'' (dropWhile is_space r) \<bind> scan_word of
          None \<Rightarrow> True
        | Some (ip, _) \<Rightarrow> length ip < MAX_NAME_LEN))"

text \<open>The copy of the line has no byte after its length: a line without a NUL is read beyond its end.\<close>

definition get_info_from_buf :: "u8 list \<Rightarrow> t_ctx_unix2inet \<Rightarrow> t_ctx_unix2inet option run" where
  "get_info_from_buf ibuf ctx =
     (if TCP_MAX_SIZE \<le> int (length ibuf) then Some None
      else do {
        ub_if (0 \<notin> set ibuf);
        let buf = map (\<lambda>b. if b = 0x3D then CHR '' '' else char_of (unat b)) (takeWhile (\<lambda>b. b \<noteq> 0) ibuf);
        case strstr_at buf ''cloonix_info_end'' of
          None \<Rightarrow> Some None
        | Some k \<Rightarrow> do {
            ub_if (\<not> info_fits (take k buf));
            case scan_info (take k buf) of
              None \<Rightarrow> Some None
            | Some (user, ip, port) \<Rightarrow> do {
                kout_if (length buf \<noteq> k + length ''cloonix_info_end'');
                Some (Some (ctx\<lparr>remote_user := user, remote_ip_txt := ip, ctx_remote_port := word_of_int port\<rparr>))
              }
          }
      })"

section \<open>Opening for a client\<close>

text \<open>The message to the server that asks it to watch the path.\<close>

definition req_unix2inet_conpath_evt :: "int \<Rightarrow> string \<Rightarrow> munat \<Rightarrow> munat" where
  "req_unix2inet_conpath_evt l name = with_env (\<lambda>e. e\<lparr>app_msgs := app_msgs e @
     [''unix2inet_conpath_evt_monitor llid='' @ dec_int l @ '' name='' @ name]\<rparr>)"

definition send_first_tcp_syn :: "t_ctx_unix2inet \<Rightarrow> u8 list \<Rightarrow> string \<Rightarrow> u16 \<Rightarrow> munat \<Rightarrow> (bool \<times> munat) run" where
  "send_first_tcp_syn ctx mac ip port s = do {
     let l = ctx_llid ctx;
     tid \<leftarrow> unix2inet_init_tcp_id mac ip l port;
     let s = set_ctx l (Some (ctx\<lparr>ctx_tcpid := tid\<rparr>)) s;
     (sent, s) \<leftarrow> clo_high_syn_tx tid s;
     if \<not> sent then do { s \<leftarrow> free_ctx l s; Some (False, s) }
     else do {
       f \<leftarrow> util_get_fast_clo tid s;
       case (f, look_for_machine_with_ip ip (boot (env s))) of
         (Some _, Some m) \<Rightarrow> Some (True, req_unix2inet_conpath_evt l (ma_name m) s)
       | _ \<Rightarrow> do { s \<leftarrow> free_ctx l s; Some (False, s) }
     }
   }"

definition request_mac_with_ip :: "string \<Rightarrow> munat \<Rightarrow> munat run" where
  "request_mac_with_ip ip s = do {
     f \<leftarrow> format_arp_req get_unix2inet_ip ip;
     Some (packet_output_to_slirptux f s)
   }"

definition unix2inet_ssh_connect :: "int \<Rightarrow> munat \<Rightarrow> munat run" where
  "unix2inet_ssh_connect llid_new s = do {
     ctx \<leftarrow> find_ctx llid_new s;
     kout_if (ctx \<noteq> None);
     s \<leftarrow> alloc_ctx llid_new s;
     Some (set_ctx llid_new (map_option (change_state state_wait_info) (llid_to_ctx (env s) llid_new)) s)
   }"

definition unix2inet_ssh_err_cb :: "int \<Rightarrow> munat \<Rightarrow> munat run" where
  "unix2inet_ssh_err_cb l s = free_ctx l s"

text \<open>Data of a client for its connection; the result is only logged.\<close>

definition client_data :: "t_ctx_unix2inet \<Rightarrow> u8 list \<Rightarrow> munat \<Rightarrow> munat run" where
  "client_data ctx buf s = do { (_, s) \<leftarrow> clo_high_data_tx (ctx_tcpid ctx) buf s; Some s }"

definition unix2inet_ssh_rx_cb :: "int \<Rightarrow> u8 list \<Rightarrow> munat \<Rightarrow> munat run" where
  "unix2inet_ssh_rx_cb l buf s = do {
     ctx \<leftarrow> find_ctx l s;
     case ctx of
       None \<Rightarrow> delete_if_exists l s
     | Some ctx \<Rightarrow> (case ctx_state ctx of
         state_wait_info \<Rightarrow> do {
           info \<leftarrow> get_info_from_buf buf ctx;
           case info of
             None \<Rightarrow> free_ctx l s
           | Some ctx \<Rightarrow> do {
               (armed, s) \<leftarrow> alloc_ctx_waiting_for_vmtx False ctx l (set_ctx l (Some ctx) s);
               if \<not> armed then free_ctx l s
               else do {
                 s \<leftarrow> request_mac_with_ip (remote_ip_txt ctx) s;
                 Some (set_ctx l (map_option (change_state state_wait_arp_resp) (llid_to_ctx (env s) l)) s)
               }
             }
         }
       | state_running_half \<Rightarrow> do {
           f \<leftarrow> util_get_fast_clo (ctx_tcpid ctx) s;
           case f of
             None \<Rightarrow> free_ctx l s
           | Some r \<Rightarrow> do {
               s \<leftarrow> util_attach_llid_clo (ctx_llid ctx) r s;
               s \<leftarrow> with_clo r (\<lambda>c. c\<lparr>tcpid := (tcpid c)\<lparr>llid_unlocked := 1\<rparr>\<rparr>) s;
               client_data ctx buf (set_ctx l (Some (change_state state_running_full ctx)) s)
             }
         }
       | state_running_full \<Rightarrow> client_data ctx buf s
       | _ \<Rightarrow> free_ctx l s)
   }"

definition unix2inet_arp_resp :: "u8 list \<Rightarrow> string \<Rightarrow> munat \<Rightarrow> munat run" where
  "unix2inet_arp_resp mac ip s =
     (let (w, s) = free_ctx_waiting_for_vmtx False ip s in
      case w of
        None \<Rightarrow> Some s
      | Some (l, port) \<Rightarrow> do {
          ctx \<leftarrow> find_ctx l s;
          case ctx of
            None \<Rightarrow> Some s
          | Some ctx \<Rightarrow>
              if ctx_llid ctx \<noteq> l then Some s
              else do {
                s \<leftarrow> timeout_del (timeout_abs_beat ctx) (timeout_ref ctx) s;
                let ctx = ctx\<lparr>timeout_abs_beat := 0, timeout_ref := 0\<rparr>;
                (sent, s) \<leftarrow> send_first_tcp_syn ctx mac ip port (set_ctx l (Some ctx) s);
                if \<not> sent then Some s
                else (case llid_to_ctx (env s) l of
                   None \<Rightarrow> None
                 | Some ctx \<Rightarrow> do {
                     (armed, s) \<leftarrow> alloc_ctx_waiting_for_vmtx True ctx l s;
                     if \<not> armed then free_ctx l s
                     else Some (set_ctx l (map_option (change_state state_wait_syn_ack) (llid_to_ctx (env s) l)) s)
                   })
              }
        })"

definition free_unix2inet_conpath :: "int \<Rightarrow> munat \<Rightarrow> munat run" where
  "free_unix2inet_conpath l s = free_ctx l s"

end
