(* ===== verification/Nat_Udp.thy ===== *)
theory Nat_Udp
  imports Nat_Clients
begin

text \<open>
  The UDP sockets of the machines (\<open>munat/src/machine.c\<close>): one for each pair of addresses and
  ports, found by a hash, closed after 100 milliseconds without use; and the removal of a machine.
\<close>

section \<open>The hash of the sockets\<close>

definition is_udp_sock :: u32 where "is_udp_sock = 1"
definition MAX_SOCK_HASH_IDX :: int where "MAX_SOCK_HASH_IDX = 0xFF + 2"

definition sock_hash :: "u32 \<Rightarrow> u32 \<Rightarrow> u16 \<Rightarrow> u16 \<Rightarrow> int run" where
  "sock_hash lip fip lport fport = do {
     let hash4 = (lip + is_udp_sock) XOR fip;
     let hash2 = (ucast hash4 XOR ucast (drop_bit 16 hash4) XOR lport XOR fport :: u16);
     let hash1 = (ucast hash2 XOR ucast (drop_bit 8 hash2) :: u8);
     let result = uint hash1 + 1;
     kout_if (result \<le> 0 \<or> MAX_SOCK_HASH_IDX \<le> result);
     Some result
   }"

definition get_sock :: "nat \<Rightarrow> munat \<Rightarrow> t_machine_sock run" where
  "get_sock i s = socks (env s) i"

definition set_sock :: "nat \<Rightarrow> t_machine_sock option \<Rightarrow> munat \<Rightarrow> munat" where
  "set_sock i ms = with_env (\<lambda>e. e\<lparr>socks := (socks e)(i := ms)\<rparr>)"

definition with_machine :: "string \<Rightarrow> (t_machine \<Rightarrow> t_machine) \<Rightarrow> munat \<Rightarrow> munat" where
  "with_machine name f = with_env (\<lambda>e. e\<lparr>boot := upd_machine name f (boot e)\<rparr>)"

definition get_machine :: "string \<Rightarrow> munat \<Rightarrow> t_machine run" where
  "get_machine name s = look_for_machine_with_name name (boot (env s))"

definition same_sock :: "u32 \<Rightarrow> u32 \<Rightarrow> u16 \<Rightarrow> u16 \<Rightarrow> t_machine_sock \<Rightarrow> bool" where
  "same_sock lip fip lport fport ms \<longleftrightarrow> ms_lip_int ms = lip \<and> ms_fip_int ms = fip \<and> ms_lport ms = lport \<and> ms_fport ms = fport"

fun sock_walk :: "(nat \<Rightarrow> t_machine_sock option) \<Rightarrow> (t_machine_sock \<Rightarrow> bool) \<Rightarrow> nat list \<Rightarrow> nat option run" where
  "sock_walk heap P [] = Some None"
| "sock_walk heap P (i # is) = do { ms \<leftarrow> heap i; if P ms then Some (Some i) else sock_walk heap P is }"

definition get_fast_sock :: "t_machine \<Rightarrow> u32 \<Rightarrow> u32 \<Rightarrow> u16 \<Rightarrow> u16 \<Rightarrow> munat \<Rightarrow> nat option run" where
  "get_fast_sock m lip fip lport fport s = do {
     idx \<leftarrow> sock_hash lip fip lport fport;
     sock_walk (socks (env s)) (same_sock lip fip lport fport) (hash_head m idx)
   }"

definition create_fast_sock :: "string \<Rightarrow> nat \<Rightarrow> munat \<Rightarrow> munat run" where
  "create_fast_sock name i s = do {
     ms \<leftarrow> get_sock i s;
     idx \<leftarrow> sock_hash (ms_lip_int ms) (ms_fip_int ms) (ms_lport ms) (ms_fport ms);
     Some (with_machine name (\<lambda>m. m\<lparr>hash_head := (hash_head m)(idx := i # hash_head m idx)\<rparr>) s)
   }"

definition delete_fast_sock :: "string \<Rightarrow> nat \<Rightarrow> munat \<Rightarrow> munat run" where
  "delete_fast_sock name i s = do {
     ms \<leftarrow> get_sock i s;
     m \<leftarrow> get_machine name s;
     idx \<leftarrow> sock_hash (ms_lip_int ms) (ms_fip_int ms) (ms_lport ms) (ms_fport ms);
     cur \<leftarrow> sock_walk (socks (env s)) (same_sock (ms_lip_int ms) (ms_fip_int ms) (ms_lport ms) (ms_fport ms)) (hash_head m idx);
     kout_if (cur = None);
     Some (with_machine name (\<lambda>m. m\<lparr>hash_head := (hash_head m)(idx := remove1 (the cur) (hash_head m idx))\<rparr>) s)
   }"

section \<open>Sockets\<close>

definition set_llid_to_socket :: "int \<Rightarrow> nat \<Rightarrow> munat \<Rightarrow> munat run" where
  "set_llid_to_socket l i s = do {
     kout_if (llid_to_socket (env s) l \<noteq> None);
     Some (with_env (\<lambda>e. e\<lparr>llid_to_socket := (llid_to_socket e)(l \<mapsto> i)\<rparr>) s)
   }"

definition reset_llid_to_socket :: "int \<Rightarrow> nat \<Rightarrow> munat \<Rightarrow> munat run" where
  "reset_llid_to_socket l i s = do {
     kout_if (llid_to_socket (env s) l \<noteq> Some i);
     Some (with_env (\<lambda>e. e\<lparr>llid_to_socket := (llid_to_socket e)(l := None)\<rparr>) s)
   }"

definition delete_machine_sock_llid :: "nat \<Rightarrow> munat \<Rightarrow> munat run" where
  "delete_machine_sock_llid i s = do {
     ms \<leftarrow> get_sock i s;
     s \<leftarrow> (if 0 < ms_llid ms then do {
        s \<leftarrow> reset_llid_to_socket (ms_llid ms) i s;
        delete_if_exists (ms_llid ms) s
      } else Some s);
     Some (set_sock i (Some (ms\<lparr>ms_llid := 0\<rparr>)) s)
   }"

definition find_machine_sock :: "t_machine \<Rightarrow> string \<Rightarrow> u16 \<Rightarrow> string \<Rightarrow> u16 \<Rightarrow> munat \<Rightarrow> nat option run" where
  "find_machine_sock m lip lport fip fport s = do {
     lip_int \<leftarrow> ip_string_to_int lip;
     fip_int \<leftarrow> ip_string_to_int fip;
     get_fast_sock m lip_int fip_int lport fport s
   }"

definition alloc_machine_sock ::
  "string \<Rightarrow> string \<Rightarrow> u16 \<Rightarrow> string \<Rightarrow> u16 \<Rightarrow> int \<Rightarrow> int \<Rightarrow> munat \<Rightarrow> (nat \<times> munat) run" where
  "alloc_machine_sock name lip lport fip fport l fd s = do {
     lip_int \<leftarrow> ip_string_to_int lip;
     fip_int \<leftarrow> ip_string_to_int fip;
     let i = next_sock (env s);
     let ms = \<lparr>ms_lip = take (MAX_NAME_LEN - 1) lip, ms_lip_int = lip_int, ms_lport = lport,
       ms_fip = take (MAX_NAME_LEN - 1) fip, ms_fip_int = fip_int, ms_fport = fport, ms_llid = l, ms_fd = fd,
       timer_killer_abs_beat = 0, timer_killer_ref = 0, ms_machine = name\<rparr>;
     let s = with_env (\<lambda>e. e\<lparr>next_sock := Suc i\<rparr>) (set_sock i (Some ms) s);
     s \<leftarrow> create_fast_sock name i s;
     Some (i, with_machine name (\<lambda>m. m\<lparr>head_udp := i # head_udp m\<rparr>) s)
   }"

text \<open>Of the four timeouts only the last is ever armed; the others have date and reference zero.\<close>

definition free_machine_sock :: "nat \<Rightarrow> munat \<Rightarrow> munat run" where
  "free_machine_sock i s = do {
     ms \<leftarrow> get_sock i s;
     s \<leftarrow> timeout_del 0 0 s;
     s \<leftarrow> timeout_del 0 0 s;
     s \<leftarrow> timeout_del (timer_killer_abs_beat ms) (timer_killer_ref ms) s;
     s \<leftarrow> delete_machine_sock_llid i s;
     s \<leftarrow> delete_fast_sock (ms_machine ms) i s;
     Some (set_sock i None (with_machine (ms_machine ms) (\<lambda>m. m\<lparr>head_udp := remove1 i (head_udp m)\<rparr>) s))
   }"

fun free_machine_whole_sock_chain :: "nat list \<Rightarrow> munat \<Rightarrow> munat run" where
  "free_machine_whole_sock_chain [] s = Some s"
| "free_machine_whole_sock_chain (i # is) s = free_machine_sock i s \<bind> free_machine_whole_sock_chain is"

definition udp_attach :: "net \<Rightarrow> munat \<Rightarrow> ((int \<times> int) option \<times> munat) run" where
  "udp_attach n s = do {
     let fd = socket_fd n (sock_count (env s));
     let s = with_env (\<lambda>e. e\<lparr>sock_count := Suc (sock_count e)\<rparr>) s;
     if fd \<le> 0 then Some (None, s)
     else if \<not> bind_ok n fd then Some (None, with_env (\<lambda>e. e\<lparr>closed_fds := closed_fds e @ [fd]\<rparr>) s)
     else do {
       kout_if (MAX_SELECT_CHANNELS - 1 \<le> fd);
       let l = watch_llid n fd;
       kout_if (l \<le> 0);
       Some (Some (l, fd), with_env (\<lambda>e. e\<lparr>chan_open := (chan_open e)(l := True), chan_tx := (chan_tx e)(l := [])\<rparr>) s)
     }
   }"

definition timer_killer_machine_sock :: "nat \<Rightarrow> munat \<Rightarrow> munat run" where
  "timer_killer_machine_sock i s = do {
     ms \<leftarrow> get_sock i s;
     free_machine_sock i (set_sock i (Some (ms\<lparr>timer_killer_abs_beat := 0, timer_killer_ref := 0\<rparr>)) s)
   }"

text \<open>The timeout starts anew with every use.\<close>

definition machine_get_udp_sock :: "net \<Rightarrow> string \<Rightarrow> string \<Rightarrow> u16 \<Rightarrow> string \<Rightarrow> u16 \<Rightarrow> munat \<Rightarrow> (nat option \<times> munat) run" where
  "machine_get_udp_sock n name lip lport fip fport s = do {
     m \<leftarrow> get_machine name s;
     f \<leftarrow> find_machine_sock m lip lport fip fport s;
     (f, s) \<leftarrow> (case f of
        Some i \<Rightarrow> Some (Some i, s)
      | None \<Rightarrow> do {
          (a, s) \<leftarrow> udp_attach n s;
          case a of
            None \<Rightarrow> Some (None, s)
          | Some (l, fd) \<Rightarrow> do {
              (i, s) \<leftarrow> alloc_machine_sock name lip lport fip fport l fd s;
              s \<leftarrow> set_llid_to_socket l i s;
              Some (Some i, s)
            }
        });
     case f of
       None \<Rightarrow> Some (None, s)
     | Some i \<Rightarrow> do {
         ms \<leftarrow> get_sock i s;
         s \<leftarrow> timeout_del (timer_killer_abs_beat ms) (timer_killer_ref ms) s;
         ((date, r), s) \<leftarrow> timeout_add 10 (Timer_killer_machine_sock i) s;
         Some (Some i, set_sock i (Some (ms\<lparr>timer_killer_abs_beat := date, timer_killer_ref := r\<rparr>)) s)
       }
   }"

section \<open>Datagrams of a machine\<close>

definition transfert_onto_udp :: "net \<Rightarrow> string \<Rightarrow> string \<Rightarrow> string \<Rightarrow> u16 \<Rightarrow> u16 \<Rightarrow> string \<Rightarrow> u8 list \<Rightarrow> munat \<Rightarrow> munat run" where
  "transfert_onto_udp n name sip dip sport dport real_dip data s = do {
     dst_addr \<leftarrow> ip_string_to_int dip;
     (f, s) \<leftarrow> machine_get_udp_sock n name real_dip dport sip sport s;
     case f of
       None \<Rightarrow> Some s
     | Some i \<Rightarrow> do {
         ms \<leftarrow> get_sock i s;
         Some (with_env (\<lambda>e. e\<lparr>udp_out := udp_out e @ [(ms_fd ms, dst_addr, dport, data)]\<rparr>) s)
       }
   }"

section \<open>Datagrams for a machine\<close>

text \<open>An error of \<open>recvfrom\<close> is a length of -1, which \<open>memcpy\<close> takes for the size of the memory.\<close>

definition socket_udp_rx :: "nat \<Rightarrow> u8 list option \<Rightarrow> munat \<Rightarrow> munat run" where
  "socket_udp_rx i buf s = do {
     ms \<leftarrow> get_sock i s;
     m \<leftarrow> get_machine (ms_machine ms) s;
     case get_mac_with_name (ma_name m) (boot (env s)) of
       None \<Rightarrow> Some s
     | Some mac \<Rightarrow> do {
         data \<leftarrow> buf;
         let len = int (length data);
         h \<leftarrow> fill_mac_ip_header (if ms_lip ms = get_dns_ip then get_dns_ip else get_gw_ip) mac;
         (iph, ident) \<leftarrow> fill_ip_ip_header (int IP_HEADER + int UDP_HEADER + len) (ms_lip ms) (ms_fip ms) 17 (udp_ident (env s));
         let udp = fill_udp_ip_header (int UDP_HEADER + len) (ms_lport ms) (ms_fport ms);
         Some (packet_output_to_slirptux (h @ iph @ udp @ data) (with_env (\<lambda>e. e\<lparr>udp_ident := ident\<rparr>) s))
       }
   }"

definition rx_udp_so :: "int \<Rightarrow> int \<Rightarrow> u8 list option \<Rightarrow> munat \<Rightarrow> munat run" where
  "rx_udp_so l fd buf s = do {
     i \<leftarrow> llid_to_socket (env s) l;
     ms \<leftarrow> get_sock i s;
     kout_if (ms_fd ms \<noteq> fd);
     socket_udp_rx i (map_option (take MAX_SLIRP_RX_PROCESS) buf) s
   }"

definition err_udp_so :: "int \<Rightarrow> munat \<Rightarrow> munat run" where
  "err_udp_so l s = (case llid_to_socket (env s) l of
     Some i \<Rightarrow> free_machine_sock i s
   | None \<Rightarrow> delete_if_exists l s)"

section \<open>Removing a machine\<close>

text \<open>Its two timeouts are never armed.\<close>

definition del_machine :: "string \<Rightarrow> munat \<Rightarrow> munat run" where
  "del_machine name s = (case look_for_machine_with_name name (boot (env s)) of
     None \<Rightarrow> Some s
   | Some m \<Rightarrow> do {
       s \<leftarrow> timeout_del 0 0 s;
       s \<leftarrow> timeout_del 0 0 s;
       s \<leftarrow> free_machine_whole_sock_chain (head_udp m) s;
       Some (with_env (\<lambda>e. e\<lparr>boot := (boot e)\<lparr>head_machine :=
         remove_first (\<lambda>m. ma_name m = name) (head_machine (boot e))\<rparr>\<rparr>) s)
     })"

definition free_stored_mac :: "(t_stored_mac \<Rightarrow> bool) \<Rightarrow> t_stored_mac \<Rightarrow> munat \<Rightarrow> munat run" where
  "free_stored_mac P cur s = del_machine (st_name cur) (with_env (\<lambda>e. e\<lparr>boot := (boot e)\<lparr>g_stored_mac_head :=
     remove_first P (g_stored_mac_head (boot e))\<rparr>\<rparr>) s)"

definition unset_dhcp_addr :: "string \<Rightarrow> int \<Rightarrow> int \<Rightarrow> u8 list \<Rightarrow> munat \<Rightarrow> munat run" where
  "unset_dhcp_addr name vm_id num mac s =
     (let s = (case find_active_with_mac mac (boot (env s)) of
            None \<Rightarrow> s
          | Some _ \<Rightarrow> with_env (\<lambda>e. e\<lparr>boot := free_active_mac (\<lambda>a. ac_mac a = mac) (boot e)\<rparr>) s) in
      case find_stored_mac name vm_id (boot (env s)) of
        None \<Rightarrow> Some s
      | Some cur \<Rightarrow>
          (let cur = (if 0 \<le> num \<and> num < int MAX_ETH_VM then cur\<lparr>st_eth := (st_eth cur)[nat num := []]\<rparr> else cur);
               s = with_env (\<lambda>e. e\<lparr>boot := (boot e)\<lparr>g_stored_mac_head :=
                 replace_first (is_stored_mac name vm_id) (\<lambda>_. cur) (g_stored_mac_head (boot e))\<rparr>\<rparr>) s in
           if \<forall>mac \<in> set (st_eth cur). mac = [] then free_stored_mac (is_stored_mac name vm_id) cur s else Some s))"

end
