(* ===== verification/Nat_Packets.thy ===== *)
theory Nat_Packets
  imports Nat_Udp
begin

text \<open>
  The frames of the machines (\<open>munat/src/packets_io.c\<close>, \<open>packet_ip_input.c\<close>, \<open>packet_icmp_input.c\<close>,
  \<open>packet_udp_input.c\<close>, the last part of \<open>bootp_input.c\<close>) and the messages of the server
  (\<open>main.c\<close>). \<open>data\<close> is the memory from the first byte of what a function gets, \<open>len\<close> the length it is
  told.
\<close>

section \<open>ICMP\<close>

definition ICMP_ECHO :: u8 where "ICMP_ECHO = 0x08"
definition IPPROTO_ICMP :: u8 where "IPPROTO_ICMP = 1"
definition IPPROTO_UDP :: u8 where "IPPROTO_UDP = 17"
definition IPPROTO_TCP :: u8 where "IPPROTO_TCP = 6"

definition is_our_ip :: "string \<Rightarrow> bool" where
  "is_our_ip ip \<longleftrightarrow> ip = get_gw_ip \<or> ip = get_dns_ip \<or> ip = get_unix2inet_ip"

text \<open>The message with another first byte and a new checksum.\<close>

definition icmp_reply_with :: "u16 \<Rightarrow> u8 list \<Rightarrow> u8 list" where
  "icmp_reply_with checksum data = [0x00, 0x00, byte16 0 checksum, byte16 1 checksum] @ drop 4 data"

text \<open>With fewer than four bytes the header is written beyond the end of the answer.\<close>

definition packet_icmp_echoreply :: "u8 list \<Rightarrow> string \<Rightarrow> string \<Rightarrow> u8 list \<Rightarrow> munat \<Rightarrow> munat run" where
  "packet_icmp_echoreply src_mac sip dip data s = do {
     ub_if (length data < 4);
     let icmp = icmp_reply_with (utils_in_cksum (icmp_reply_with 0 data)) data;
     h \<leftarrow> fill_mac_ip_header dip src_mac;
     (iph, ident) \<leftarrow> fill_ip_ip_header (int IP_HEADER + int (length data)) dip sip IPPROTO_ICMP (udp_ident (env s));
     Some (packet_output_to_slirptux (h @ iph @ icmp) (with_env (\<lambda>e. e\<lparr>udp_ident := ident\<rparr>) s))
   }"

text \<open>A length that is not positive has the checksum 0xFFFF: the message is dropped.\<close>

definition packet_icmp_input :: "u8 list \<Rightarrow> string \<Rightarrow> string \<Rightarrow> int \<Rightarrow> u8 list \<Rightarrow> munat \<Rightarrow> munat run" where
  "packet_icmp_input src_mac sip dip len data s = do {
     ub_if (int (length data) < len);
     let msg = take (nat len) data;
     if utils_in_cksum msg = 0 then do {
       t \<leftarrow> peek data 0;
       if t = ICMP_ECHO \<and> is_our_ip dip then packet_icmp_echoreply src_mac sip dip msg s else Some s
     } else Some s
   }"

section \<open>DHCP\<close>

definition BOOTP_SERVER :: u16 where "BOOTP_SERVER = 67"
definition BOOTP_CLIENT :: u16 where "BOOTP_CLIENT = 68"

definition packet_bootp_input :: "string \<Rightarrow> u8 list \<Rightarrow> int \<Rightarrow> u8 list \<Rightarrow> munat \<Rightarrow> munat run" where
  "packet_bootp_input name src_mac len data s = do {
     op \<leftarrow> bp_op data;
     if op = 1 then do {
       (reply, b) \<leftarrow> bootp_format_reply len data (boot (env s));
       let s = with_env (\<lambda>e. e\<lparr>boot := b\<rparr>) s;
       case reply of
         None \<Rightarrow> Some s
       | Some (addr, rbp) \<Rightarrow>
           if addr = 0 then Some s
           else do {
             b \<leftarrow> machine_boop_alloc name (int_to_ip_string addr) (boot (env s));
             h \<leftarrow> fill_mac_ip_header get_gw_ip src_mac;
             (iph, ident) \<leftarrow> fill_ip_ip_header (int (IP_HEADER + UDP_HEADER + length rbp)) get_gw_ip ''255.255.255.255''
               IPPROTO_UDP (udp_ident (env s));
             let udp = fill_udp_ip_header (int (UDP_HEADER + length rbp)) BOOTP_SERVER BOOTP_CLIENT;
             Some (packet_output_to_slirptux (h @ iph @ udp @ rbp) (with_env (\<lambda>e. e\<lparr>boot := b, udp_ident := ident\<rparr>) s))
           }
     } else Some s
   }"

section \<open>UDP\<close>

text \<open>The data of a datagram; \<open>sendto\<close> refuses a negative length.\<close>

definition udp_data :: "int \<Rightarrow> u8 list \<Rightarrow> u8 list" where
  "udp_data len data = take (nat (len - int UDP_HEADER)) (drop UDP_HEADER data)"

definition packet_udp_input :: "net \<Rightarrow> string \<Rightarrow> u8 list \<Rightarrow> string \<Rightarrow> string \<Rightarrow> int \<Rightarrow> u8 list \<Rightarrow> munat \<Rightarrow> munat run" where
  "packet_udp_input n name src_mac sip dip len data s = do {
     ub_if (length data < 6);
     let sport = be16 (data ! 0) (data ! 1);
     let dport = be16 (data ! 2) (data ! 3);
     let udp_len = uint (be16 (data ! 4) (data ! 5));
     if udp_len = len then
       (if dport = BOOTP_SERVER \<and> sport = BOOTP_CLIENT then
          packet_bootp_input name src_mac (len - int UDP_HEADER) (drop UDP_HEADER data) s
        else do {
          dst_addr \<leftarrow> ip_string_to_int dip;
          our_addr \<leftarrow> ip_string_to_int get_gw_ip;
          let dns = g_resolv_dns_ip (env s);
          let pdata = udp_data len data;
          if dst_addr AND 0xFFFFFF00 = our_addr AND 0xFFFFFF00 then
            (if dip = get_dns_ip then transfert_onto_udp n name sip dns sport dport dip pdata s
             else if dip = get_gw_ip then
               (if dns = get_dns_ip then transfert_onto_udp n name sip get_gw_ip sport dport dip pdata s
                else transfert_onto_udp n name sip ''127.0.0.1'' sport dport dip pdata s)
             else Some s)
          else transfert_onto_udp n name sip dip sport dport dip pdata s
        })
     else Some s
   }"

section \<open>IP\<close>

text \<open>A frame without more than an IP header is dropped before it is looked at.\<close>

definition packet_ip_input :: "net \<Rightarrow> string \<Rightarrow> u8 list \<Rightarrow> nat \<Rightarrow> u8 list \<Rightarrow> munat \<Rightarrow> munat run" where
  "packet_ip_input n name src_mac mac_len mac_data s = do {
     ub_if (length mac_data < mac_len);
     let data = drop MAC_HEADER mac_data;
     if mac_len \<le> MAC_HEADER + IP_HEADER then Some s
     else do {
       r \<leftarrow> tst_ip_input (take (mac_len - MAC_HEADER) data);
       case r of
         None \<Rightarrow> Some s
       | Some len \<Rightarrow>
           (let proto = data ! 9;
                sip = ip_text (data ! 12) (data ! 13) (data ! 14) (data ! 15);
                dip = ip_text (data ! 16) (data ! 17) (data ! 18) (data ! 19);
                ip_data = drop IP_HEADER data in
            if proto = IPPROTO_ICMP then
              packet_icmp_input src_mac sip dip (len - int IP_HEADER) ip_data
                (with_machine name (\<lambda>m. m\<lparr>tot_rx_pkt := tot_rx_pkt m + 1\<rparr>) s)
            else if proto = IPPROTO_UDP then packet_udp_input n name src_mac sip dip (len - int IP_HEADER) ip_data s
            else if proto = IPPROTO_TCP then clo_low_input nat_chan (nat_high n) (take mac_len mac_data) s
            else Some s)
     }
   }"

section \<open>Frames\<close>

definition unix2inet_or_gw_or_dns_arp_arrival :: "u8 list \<Rightarrow> u8 list \<Rightarrow> munat \<Rightarrow> munat run" where
  "unix2inet_or_gw_or_dns_arp_arrival data src_mac s = do {
     arp_tip \<leftarrow> get_arp_tip data;
     arp_sip \<leftarrow> get_arp_sip data;
     if is_our_ip arp_tip then do {
       f \<leftarrow> format_arp_resp src_mac arp_sip arp_tip;
       Some (packet_output_to_slirptux f s)
     } else Some s
   }"

definition unix2inet_arp_resp_arrival :: "u8 list \<Rightarrow> u8 list \<Rightarrow> munat \<Rightarrow> munat run" where
  "unix2inet_arp_resp_arrival data src_mac s = do {
     arp_tip \<leftarrow> get_arp_tip data;
     arp_sip \<leftarrow> get_arp_sip data;
     if arp_tip = get_unix2inet_ip then unix2inet_arp_resp src_mac arp_sip s else Some s
   }"

definition packet_input_from_slirptux :: "net \<Rightarrow> nat \<Rightarrow> u8 list \<Rightarrow> munat \<Rightarrow> munat run" where
  "packet_input_from_slirptux n len data s = do {
     proto \<leftarrow> get_proto len data;
     case proto of
       proto_none \<Rightarrow> Some s
     | proto_arp_resp \<Rightarrow> do {
         dst_mac \<leftarrow> get_dst_mac data;
         src_mac \<leftarrow> get_src_mac data;
         if dst_mac = OUR_MAC_CISCO then unix2inet_arp_resp_arrival data src_mac s else Some s
       }
     | _ \<Rightarrow> do {
         dst_mac \<leftarrow> get_dst_mac data;
         src_mac \<leftarrow> get_src_mac data;
         if data ! 0 AND 0x01 \<noteq> 0 \<or> dst_mac = OUR_MAC_GW \<or> dst_mac = OUR_MAC_DNS \<or> dst_mac = OUR_MAC_CISCO then
           (if proto = proto_arp_req then unix2inet_or_gw_or_dns_arp_arrival data src_mac s
            else (case get_name_with_mac src_mac (boot (env s)) of
              None \<Rightarrow> Some s
            | Some name \<Rightarrow> (case look_for_machine_with_name name (boot (env s)) of
                None \<Rightarrow> Some s
              | Some m \<Rightarrow> packet_ip_input n (ma_name m) src_mac len data s)))
         else Some s
       }
   }"

section \<open>Timeouts\<close>

text \<open>The calls of the ring of munat; the heartbeats of the RPC and of the packet library are not
  part of the model.\<close>

fun nat_call_run :: "net \<Rightarrow> nat_call \<Rightarrow> munat \<Rightarrow> munat run" where
  "nat_call_run n (Timeout_waiting_for_vmtx ti) s = timeout_waiting_for_vmtx ti s"
| "nat_call_run n (Timeout_free_ctx ti) s = timeout_free_ctx ti s"
| "nat_call_run n (Timer_connect_wait i) s = timer_connect_wait n i s"
| "nat_call_run n (Timer_killer_machine_sock i) s = timer_killer_machine_sock i s"
| "nat_call_run n Beat_250ms_timeout s = do {
     s \<leftarrow> clo_heartbeat_timer nat_chan s;
     (_, s) \<leftarrow> timeout_add 25 Beat_250ms_timeout s;
     Some s
   }"

definition munat_beat :: "net \<Rightarrow> munat \<Rightarrow> munat run" where
  "munat_beat n = clownix_timer_beat (\<lambda>s. nat_wheel (env s)) (\<lambda>w. with_env (\<lambda>e. e\<lparr>nat_wheel := w\<rparr>)) (nat_call_run n)"

definition llid_slirptux_tcp_init :: "munat \<Rightarrow> munat run" where
  "llid_slirptux_tcp_init s = do { (_, s) \<leftarrow> timeout_add 25 Beat_250ms_timeout s; Some s }"

section \<open>Messages of the server\<close>

text \<open>The conversion \<open>%02X\<close>: at most two hexadecimal digits.\<close>

definition hex_digit :: "char \<Rightarrow> int option" where
  "hex_digit c = (let n = of_char c :: int in
     if 48 \<le> n \<and> n \<le> 57 then Some (n - 48) else if 65 \<le> n \<and> n \<le> 70 then Some (n - 55)
     else if 97 \<le> n \<and> n \<le> 102 then Some (n - 87) else None)"

definition scan_hex2 :: "string \<Rightarrow> (u8 \<times> string) option" where
  "scan_hex2 t = (case dropWhile is_space t of
     a # r \<Rightarrow> (case hex_digit a of
        None \<Rightarrow> None
      | Some x \<Rightarrow> (case r of
          b # r' \<Rightarrow> (case hex_digit b of Some y \<Rightarrow> Some (word_of_int (16 * x + y), r') | None \<Rightarrow> Some (word_of_int x, r))
        | [] \<Rightarrow> Some (word_of_int x, [])))
   | [] \<Rightarrow> None)"

definition scan_mac :: "string \<Rightarrow> (u8 list \<times> string) option" where
  "scan_mac t = do {
     (a, t) \<leftarrow> scan_hex2 t; t \<leftarrow> scan_char CHR '':'' t;
     (b, t) \<leftarrow> scan_hex2 t; t \<leftarrow> scan_char CHR '':'' t;
     (c, t) \<leftarrow> scan_hex2 t; t \<leftarrow> scan_char CHR '':'' t;
     (d, t) \<leftarrow> scan_hex2 t; t \<leftarrow> scan_char CHR '':'' t;
     (e, t) \<leftarrow> scan_hex2 t; t \<leftarrow> scan_char CHR '':'' t;
     (f, t) \<leftarrow> scan_hex2 t;
     Some ([a, b, c, d, e, f], t)
   }"

text \<open>\<open>sscanf\<close> of the two messages about an address; the name has to fit in its buffer.\<close>

definition scan_machine_mac :: "string \<Rightarrow> string \<Rightarrow> (string \<times> int \<times> int \<times> u8 list) option" where
  "scan_machine_mac verb t = do {
     t \<leftarrow> scan_lit verb t;
     t \<leftarrow> scan_lit ''name='' (dropWhile is_space t);
     (name, t) \<leftarrow> scan_word t;
     t \<leftarrow> scan_lit ''vm_id='' (dropWhile is_space t);
     (vm_id, t) \<leftarrow> scan_int t;
     t \<leftarrow> scan_lit ''vm_eth='' (dropWhile is_space t);
     (vm_eth, t) \<leftarrow> scan_int t;
     t \<leftarrow> scan_lit ''mac='' (dropWhile is_space t);
     (mac, _) \<leftarrow> scan_mac t;
     Some (name, vm_id, vm_eth, mac)
   }"

definition scan_break :: "string \<Rightarrow> int option" where
  "scan_break t = do {
     t \<leftarrow> scan_lit ''unix2inet_conpath_evt_break'' t;
     t \<leftarrow> scan_lit ''llid='' (dropWhile is_space t);
     (l, t) \<leftarrow> scan_int t;
     t \<leftarrow> scan_lit ''name='' (dropWhile is_space t);
     _ \<leftarrow> scan_word t;
     Some l
   }"

text \<open>The words of the messages come from the server, which keeps names below \<open>MAX_NAME_LEN\<close>.\<close>

definition rpct_recv_app_msg :: "string \<Rightarrow> munat \<Rightarrow> munat run" where
  "rpct_recv_app_msg line s = (case scan_machine_mac ''add_machine_mac'' line of
     Some (name, vm_id, vm_eth, mac) \<Rightarrow> do {
       ub_if (MAX_NAME_LEN \<le> length name);
       Some (with_env (\<lambda>e. e\<lparr>boot := set_dhcp_addr name vm_id vm_eth mac (boot e)\<rparr>) s)
     }
   | None \<Rightarrow> (case scan_machine_mac ''del_machine_mac'' line of
       Some (name, vm_id, vm_eth, mac) \<Rightarrow> do {
         ub_if (MAX_NAME_LEN \<le> length name);
         unset_dhcp_addr name vm_id vm_eth mac s
       }
     | None \<Rightarrow> (case scan_break line of
         Some l \<Rightarrow> free_unix2inet_conpath l s
       | None \<Rightarrow> Some s)))"

text \<open>The answer to \<open>whatip\<close>, cut to the size of its buffer.\<close>

definition rpct_recv_cli_req_nat :: "string \<Rightarrow> munat \<Rightarrow> string run" where
  "rpct_recv_cli_req_nat line s = (case scan_lit ''whatip'' line \<bind> scan_word of
     Some (name, _) \<Rightarrow> do {
       ub_if (MAX_NAME_LEN \<le> length name);
       Some (take 298 (case look_for_machine_with_name name (boot (env s)) of
          Some m \<Rightarrow> if ma_ip m \<noteq> [] then ''RESPOK '' @ name @ '' '' @ ma_ip m
            else ''RESPKO UNKNOWN IP FOR VM: '' @ name
        | None \<Rightarrow> ''RESPKO UNKNOWN VM: '' @ name))
     }
   | None \<Rightarrow> Some (take 298 (''RESPKO NO CMD: '' @ line)))"

section \<open>The name server\<close>

text \<open>\<open>sscanf\<close> of \<open>nameserver\<close>, blanks and a word; a word of 64 characters leaves its buffer.\<close>

definition scan_nameserver :: "string \<Rightarrow> string option" where
  "scan_nameserver line = do {
     t \<leftarrow> scan_lit ''nameserver'' line;
     let blank = (\<lambda>c. c = CHR '' '' \<or> c = CHR 0x09);
     _ \<leftarrow> (if t = [] \<or> \<not> blank (hd t) then None else Some ());
     (w, _) \<leftarrow> scan_word (dropWhile blank t);
     Some w
   }"

text \<open>The lines of \<open>/etc/resolv.conf\<close>: the first address that is one and not zero ends the walk.\<close>

fun dns_walk :: "string list \<Rightarrow> string run" where
  "dns_walk [] = Some ''127.0.0.1''"
| "dns_walk (line # ls) = (case scan_nameserver line of
     None \<Rightarrow> dns_walk ls
   | Some w \<Rightarrow> do {
       ub_if (MAX_NAME_LEN \<le> length w);
       case ip_string_to_int w of
         None \<Rightarrow> dns_walk ls
       | Some a \<Rightarrow> Some (if a = 0 then ''127.0.0.1'' else w)
     })"

definition get_dns_addr :: "string list \<Rightarrow> string run" where
  "get_dns_addr ls = dns_walk ls"

end
