(* ===== verification/Nat_Layer.thy ===== *)
theory Nat_Layer
  imports Nat_Clients
begin

text \<open>
  The clients and sockets of munat are a layer above its TCP stack: the three callbacks return and
  keep the stack consistent, so every segment is handled.
\<close>

section \<open>Calls that change the environment only\<close>

lemma with_env_frame [simp]:
  "clos (with_env f s) = clos s" "env (with_env f s) = f (env s)" "stack_inv P W (with_env f s) = stack_inv P W s"
  "evolves s (with_env f s)" "llid_to_clo (with_env f s) = llid_to_clo s" "low_out (with_env f s) = low_out s"
  by (simp_all add: with_env_def)

lemma set_ctx_frame [simp]:
  "clos (set_ctx l c s) = clos s" "stack_inv P W (set_ctx l c s) = stack_inv P W s" "evolves s (set_ctx l c s)"
  "llid_to_clo (set_ctx l c s) = llid_to_clo s"
  by (simp_all add: set_ctx_def)

lemma delete_if_exists_ok: "stack_inv P W s \<Longrightarrow> \<not> bad_llid l \<Longrightarrow> ok P W s (delete_if_exists l s)"
  by (auto simp: delete_if_exists_def kout_if_bind)

lemma delete_if_exists_chan:
  "delete_if_exists l s = Some t \<Longrightarrow> clos t = clos s \<and> evolves s t"
  by (auto simp: delete_if_exists_def bind_eq_Some)

text \<open>A call that only changes the environment.\<close>

lemma timeout_del_ok:
  assumes "stack_inv P W s" and "clownix_timeout_exists date r (nat_wheel (env s))"
  shows "ok P W s (timeout_del date r s)"
  using assms by (auto simp: timeout_del_def clownix_timeout_del_def clownix_timeout_exists_def kout_if_bind Let_def)

lemma timeout_add_ok:
  assumes "stack_inv P W s" and "1 \<le> nb" and "nb < MAX_TIMEOUT_BEATS"
  shows "okv P W s (timeout_add nb call s)"
  using assms by (auto simp: timeout_add_def clownix_timeout_add_def plug_elem_def kout_if_bind Let_def MIN_TIMEOUT_BEATS_def)

lemma data_tx_ok:
  assumes "stack_inv P W s" and "chan_open (env s) l" and "\<not> bad_llid l" and "int (length data) \<le> MAX_TOT_LEN_QDAT"
  shows "ok P W s (data_tx l data s)"
  using assms by (auto simp: data_tx_def kout_if_bind)

lemma doorways_tx_resp_ok:
  assumes "stack_inv P W s" and "chan_open (env s) l" and "\<not> bad_llid l"
  shows "ok P W s (doorways_tx_resp l val s)"
  unfolding doorways_tx_resp_def by (rule data_tx_ok [OF assms]) (simp add: c_bytes_def MAX_TOT_LEN_QDAT_def)

section \<open>Closing\<close>

text \<open>The connection of a live object is found.\<close>

lemma clo_mngt_find_self:
  assumes "stack_inv P W s" and "clos s r = Some c"
  shows "clo_mngt_find (tcpid c) s = Some (Some r)"
  using assms fast_get_self by (auto simp: clo_mngt_find_def util_get_fast_clo_def stack_inv_def)

lemma clo_high_close_tx_found:
  "clo_high_close_tx ch tid s = Some (b, t) \<Longrightarrow> clo_mngt_find tid s = Some (Some r) \<Longrightarrow> b"
  by (auto simp: clo_high_close_tx_def bind_eq_Some)

lemma close_llid_ok:
  assumes s: "stack_inv P W s" and l: "\<not> bad_llid l"
  shows "ok P W s (llid_slirptux_tcp_close_llid l s)"
proof (cases "llid_to_clo s l")
  case None
  with s l show ?thesis by (auto simp: llid_slirptux_tcp_close_llid_def util_get_clo_def kout_if_bind)
next
  case (Some r)
  have "llid_inv s" using s by (simp add: stack_inv_def tables_inv_def)
  from llid_invD [OF this] Some obtain c where c: "clos s r = Some c" by (auto simp: llid_at_def)
  define d where "d = c\<lparr>has_been_closed_from_outside_socket := 1\<rparr>"
  have t: "stack_inv P W (set_clo r d s)" "evolves s (set_clo r d s)"
    using stack_inv_set_clo [OF s c, of d] evolves_set_clo [OF c, of d] stack_inv_conn [OF s c]
    by (simp_all add: d_def same_conn_def)
  have w: "with_clo r (\<lambda>c. c\<lparr>has_been_closed_from_outside_socket := 1\<rparr>) s = Some (set_clo r d s)"
    by (simp add: with_clo_def deref_def c d_def)
  have "okv P W (set_clo r d s) (clo_high_close_tx nat_chan (tcpid d) (set_clo r d s))"
    by (rule clo_high_close_tx_ok [OF t(1)])
  then obtain b u where u: "clo_high_close_tx nat_chan (tcpid d) (set_clo r d s) = Some (b, u)" "stack_inv P W u"
    "evolves (set_clo r d s) u" by (auto simp: okv_def)
  have "clo_mngt_find (tcpid d) (set_clo r d s) = Some (Some r)" by (rule clo_mngt_find_self [OF t(1)]) simp
  with u(1) have b by (rule clo_high_close_tx_found)
  with u t w Some l show ?thesis
    by (auto simp: llid_slirptux_tcp_close_llid_def util_get_clo_def kout_if_bind deref_def intro!: ok_some intro: evolves_trans)
qed

lemma fatal_err_ok: "stack_inv P W s \<Longrightarrow> \<not> bad_llid l \<Longrightarrow> ok P W s (fatal_err_llid_slirptux l s)"
  unfolding fatal_err_llid_slirptux_def by (rule ok_bind [OF close_llid_ok]) (auto intro: delete_if_exists_ok)

lemma free_ctx_ok:
  assumes s: "stack_inv P W s" and l: "\<not> bad_llid l"
  shows "ok P W s (free_ctx l s)"
proof -
  have close: "ok P W s (llid_slirptux_tcp_close_llid l s \<bind> (\<lambda>s. Some (set_ctx l None s)))"
    by (rule ok_bind [OF close_llid_ok [OF s l]]) auto
  have "ok P W s ((case llid_to_ctx (env s) l of None \<Rightarrow> Some s
      | Some _ \<Rightarrow> llid_slirptux_tcp_close_llid l s \<bind> (\<lambda>s. Some (set_ctx l None s))) \<bind> delete_if_exists l)"
  proof (rule ok_bind)
    show "ok P W s (case llid_to_ctx (env s) l of None \<Rightarrow> Some s
        | Some _ \<Rightarrow> llid_slirptux_tcp_close_llid l s \<bind> (\<lambda>s. Some (set_ctx l None s)))"
      using close s by (auto split: option.split)
  qed (rule delete_if_exists_ok [OF _ l])
  with l show ?thesis by (simp add: free_ctx_def find_ctx_def kout_if_bind)
qed

text \<open>The local addresses that can be closed: a connection to the address of the clients has the port of a
  channel.\<close>

definition nat_addr :: "u8 list \<times> u32 \<times> u16 \<Rightarrow> bool" where
  "nat_addr = (\<lambda>(mac, ip, port). mac = OUR_MAC_CISCO \<and> ip = 0xAC110001 \<longrightarrow> \<not> bad_llid (uint port - OFFSET_PORT))"

lemma our_concern_iff: "our_concern tid \<longleftrightarrow> local_ip tid = 0xAC110001 \<and> local_mac tid = OUR_MAC_CISCO"
  by (simp add: our_concern_def our_ips_int)

lemma close_tcpid_ok:
  assumes s: "stack_inv P W s" and addr: "nat_addr (local_addr tid)"
  shows "ok P W s (unix2inet_close_tcpid tid s)"
proof (cases "our_concern tid")
  case True
  then have l: "\<not> bad_llid (uint (local_port tid) - OFFSET_PORT)"
    using addr by (auto simp: our_concern_iff nat_addr_def local_addr_def)
  have "ok P W s (case llid_to_ctx (env s) (uint (local_port tid) - OFFSET_PORT) of None \<Rightarrow> Some s
     | Some c \<Rightarrow> if tcpid_are_the_same tid (ctx_tcpid c) then free_ctx (uint (local_port tid) - OFFSET_PORT) s else Some s)"
    using s free_ctx_ok [OF s l] by (auto split: option.split)
  with l True show ?thesis by (simp add: unix2inet_close_tcpid_def find_ctx_def kout_if_bind Let_def)
qed (use s in \<open>auto simp: unix2inet_close_tcpid_def\<close>)

lemma high_close_rx_ok:
  assumes s: "stack_inv P W s" and addr: "nat_addr (local_addr tid)"
  shows "ok P W s (llid_clo_high_close_rx tid s)"
  unfolding llid_clo_high_close_rx_def
proof (rule ok_bind [OF close_tcpid_ok [OF s addr]])
  fix t assume t: "stack_inv P W t" "evolves s t"
  show "ok P W t (util_get_fast_clo tid t \<bind> (\<lambda>f. case f of None \<Rightarrow> Some t
     | Some r \<Rightarrow> deref r t \<bind> (\<lambda>c. clo_high_close_tx nat_chan (tcpid c) t \<bind> (\<lambda>(_, s). Some s))))"
    using t(1)
  proof (cases rule: find_conn [where tid = tid])
    case none
    with t show ?thesis by (auto simp: clo_mngt_find_def)
  next
    case (one r c)
    have "ok P W t (clo_high_close_tx nat_chan (tcpid c) t \<bind> (\<lambda>(_, s). Some s))"
      by (rule ok_bind_okv [OF clo_high_close_tx_ok [OF t(1)]]) auto
    with one show ?thesis by (simp add: clo_mngt_find_def deref_def)
  qed
qed

section \<open>Opening\<close>

text \<open>The kernel gives a socket, and the address of the name server was read.\<close>

definition can_open :: "net \<Rightarrow> nat_env \<Rightarrow> bool" where
  "can_open n e \<longleftrightarrow> 0 < socket_fd n (sock_count e) \<and> ip_string_to_int (g_resolv_dns_ip e) \<noteq> None"

lemma ip_localhost: "ip_string_to_int ''127.0.0.1'' = Some 0x7F000001"
proof -
  have "''127.0.0.1'' = ip_text 127 0 0 1" by code_simp
  then show ?thesis by (simp add: ip_text_be32 be32_def)
qed

lemma high_syn_rx_ok:
  assumes s: "stack_inv P W s" and o: "can_open n (env s)"
  shows "ok P W s (llid_clo_high_syn_rx n tid s)"
proof -
  define u where "u = with_env (\<lambda>e. e\<lparr>sock_count := Suc (sock_count e)\<rparr>) s"
  have u: "stack_inv P W u" "evolves s u" using s by (simp_all add: u_def)
  have "\<exists>a. get_out_ip_addr (local_ip tid) u = Some a"
    using o by (auto simp: get_out_ip_addr_def our_ips_int ip_localhost can_open_def u_def)
  then obtain a where a: "get_out_ip_addr (local_ip tid) u = Some a" ..
  have "ok P W u (timeout_add 1 call u \<bind> (\<lambda>((date, r), s). Some (with_env (g date r) s)))" for call g
    by (rule ok_bind_okv [OF timeout_add_ok [OF u(1)]]) (auto simp: MAX_TIMEOUT_BEATS_def split: prod.split)
  then have "ok P W u (tcp_connect_wait_management tid (socket_fd n (sock_count (env s))) (a, local_port tid) u)"
    using u by (auto simp: tcp_connect_wait_management_def Let_def split: option.split)
  from ok_from [OF this u(2)] show ?thesis
    using o a by (simp add: llid_clo_high_syn_rx_def tcp_tux_socket_create_and_connect_to_tcp_def Let_def can_open_def
        kout_if_bind u_def [symmetric])
qed

section \<open>The SYN-ACK\<close>

text \<open>A client that waits for it has its channel and its timeout.\<close>

definition can_answer :: "t_tcp_id \<Rightarrow> nat_env \<Rightarrow> bool" where
  "can_answer tid e \<longleftrightarrow> (\<forall>ctx. llid_to_ctx e (uint (local_port tid) - OFFSET_PORT) = Some ctx \<longrightarrow>
     tcpid_are_the_same tid (ctx_tcpid ctx) \<longrightarrow> ctx_state ctx = state_wait_syn_ack \<longrightarrow>
     clownix_timeout_exists (timeout_abs_beat ctx) (timeout_ref ctx) (nat_wheel e) \<and>
     chan_open e (ctx_llid ctx) \<and> \<not> bad_llid (ctx_llid ctx))"

lemma timeout_del_env:
  "timeout_del date r s = Some t \<Longrightarrow> \<exists>w. t = with_env (\<lambda>e. e\<lparr>nat_wheel := w\<rparr>) s"
  by (auto simp: timeout_del_def bind_eq_Some)

lemma syn_ack_arrival_ok:
  assumes s: "stack_inv P W s" and port: "our_port tid" and up: "can_answer tid (env s)"
  shows "okv P W s (unix2inet_ssh_syn_ack_arrival tid s)"
proof -
  let ?l = "uint (local_port tid) - OFFSET_PORT"
  have l: "\<not> bad_llid ?l" using port by (simp add: our_port_def)
  show ?thesis
    using s
  proof (cases rule: find_conn [where tid = tid])
    case none
    with s l show ?thesis
      by (auto simp: unix2inet_ssh_syn_ack_arrival_def clo_mngt_find_def kout_if_bind find_ctx_def Let_def split: option.split)
  next
    case (one r c)
    show ?thesis
    proof (cases "llid_to_ctx (env s) ?l")
      case None
      with s l one show ?thesis
        by (auto simp: unix2inet_ssh_syn_ack_arrival_def clo_mngt_find_def kout_if_bind find_ctx_def Let_def)
    next
      case (Some ctx)
      let ?go = "tcpid_are_the_same tid (ctx_tcpid ctx) \<and> llid (tcpid c) = 0 \<and> ctx_state ctx = state_wait_syn_ack"
      define fin where "fin = (\<lambda>s. Some (True, set_ctx ?l (Some (change_state state_running_half
        (ctx\<lparr>timeout_abs_beat := 0, timeout_ref := 0\<rparr>))) s))"
      define tell where "tell = (\<lambda>s. doorways_tx_resp (ctx_llid ctx) 0
        (set_ctx ?l (Some (ctx\<lparr>timeout_abs_beat := 0, timeout_ref := 0\<rparr>)) s))"
      have main: "okv P W s (timeout_del (timeout_abs_beat ctx) (timeout_ref ctx) s \<bind> (\<lambda>s. tell s \<bind> fin))" if go: ?go
      proof -
        have a: "clownix_timeout_exists (timeout_abs_beat ctx) (timeout_ref ctx) (nat_wheel (env s))"
          "chan_open (env s) (ctx_llid ctx)" "\<not> bad_llid (ctx_llid ctx)"
          using up Some go by (auto simp: can_answer_def)
        obtain t where t: "timeout_del (timeout_abs_beat ctx) (timeout_ref ctx) s = Some t" "stack_inv P W t" "evolves s t"
          using timeout_del_ok [OF s a(1)] by (auto simp: ok_def)
        from timeout_del_env [OF t(1)] have open_t: "chan_open (env t) (ctx_llid ctx)" using a(2) by auto
        let ?u = "set_ctx ?l (Some (ctx\<lparr>timeout_abs_beat := 0, timeout_ref := 0\<rparr>)) t"
        have "ok P W ?u (tell t)" unfolding tell_def
          by (rule doorways_tx_resp_ok) (use t open_t a(3) in \<open>simp_all add: set_ctx_def\<close>)
        then have "ok P W t (tell t)" by (rule ok_from) simp
        then have "okv P W t (tell t \<bind> fin)" by (rule okv_bind) (auto simp: fin_def)
        with t show ?thesis by (auto intro: okv_from)
      qed
      have "unix2inet_ssh_syn_ack_arrival tid s = (if ?go
        then timeout_del (timeout_abs_beat ctx) (timeout_ref ctx) s \<bind> (\<lambda>s. tell s \<bind> fin) else Some (False, s))"
        using s l one Some by (simp add: unix2inet_ssh_syn_ack_arrival_def clo_mngt_find_def kout_if_bind find_ctx_def
            Let_def deref_def tell_def fin_def)
      with main s show ?thesis by (simp add: okv_some)
    qed
  qed
qed

lemma high_synack_rx_ok:
  assumes s: "stack_inv nat_addr W s" and port: "our_port tid" and up: "can_answer tid (env s)"
    and addr: "nat_addr (local_addr tid)"
  shows "ok nat_addr W s (llid_clo_high_synack_rx tid s)"
proof -
  have "ok nat_addr W s (unix2inet_ssh_syn_ack_arrival tid s \<bind>
      (\<lambda>(done, s). if done then Some s else llid_clo_high_close_rx tid s))"
  proof (rule ok_bind_okv [OF syn_ack_arrival_ok [OF s port up]])
    fix x t assume t: "stack_inv nat_addr W t" "evolves s t"
    show "ok nat_addr W t (case (x, t) of (done, s) \<Rightarrow> if done then Some s else llid_clo_high_close_rx tid s)"
      using high_close_rx_ok [OF t(1) addr] t(1) by auto
  qed
  moreover have "\<exists>f. util_get_fast_clo tid s = Some f"
    using s by (cases rule: find_conn [where tid = tid]) (auto simp: clo_mngt_find_def)
  ultimately obtain f where "util_get_fast_clo tid s = Some f" "ok nat_addr W s (unix2inet_ssh_syn_ack_arrival tid s \<bind>
      (\<lambda>(done, s). if done then Some s else llid_clo_high_close_rx tid s))" by blast
  moreover have "ok nat_addr W s (Some s)" using s by auto
  ultimately show ?thesis by (simp add: llid_clo_high_synack_rx_def)
qed

section \<open>The layer\<close>

interpretation nat_layer: high_layer nat_addr "can_open n" can_answer "nat_high n" for n
proof (unfold_locales, goal_cases)
  case (1 W s r c)
  then show ?case using ok_mono [OF high_syn_rx_ok [of nat_addr W s n "tcpid c"], of "W + 2"]
    by (simp add: nat_high_def)
next
  case (2 W s r c)
  have "nat_addr (local_addr (tcpid c))" using stack_inv_conn [OF 2(1,4)] by (simp add: conn_ok_def)
  with 2 show ?case using ok_mono [OF high_synack_rx_ok [of W s "tcpid c"], of "W + 2"] by (simp add: nat_high_def)
next
  case (3 W s tid)
  then show ?case using ok_mono [OF high_close_rx_ok [of nat_addr W s tid], of "W + 2"] by (simp add: nat_high_def)
qed

end
