(* ===== verification/Nat_Events.thy ===== *)
theory Nat_Events
  imports Nat_Layer
begin

text \<open>
  The events that reach munat from the guests, the sockets, the clients and the timers of the stack,
  and its safety over every sequence of legal ones; what the illegal ones do.
\<close>

section \<open>Data from a socket\<close>

lemma possible_returns:
  assumes s: "stack_inv P W s" and W: "W < 2 ^ 30" and c: "clos s r = Some c"
  shows "clo_high_data_tx_possible (tcpid c) s = Some (in_flight c + 1401 < uint (dist_wnd c))"
  using clo_mngt_find_self [OF s c] authorised_returns [OF stack_inv_conn [OF s c] W] s c
  by (simp add: clo_high_data_tx_possible_def deref_def stack_inv_def)

text \<open>The window that let the data in still lets it out: what is written does not count as in flight.\<close>

lemma data_tx_authorised:
  assumes s: "stack_inv P W s" and W: "W < 2 ^ 30" and c: "clos s r = Some c"
    and open_wnd: "in_flight c + 1401 < uint (dist_wnd c)" and eq: "clo_high_data_tx (tcpid c) data s = Some (res, t)"
  shows "res \<noteq> error_not_authorized"
proof -
  have g: "g_tcp_max_size s = 1400" and ck: "conn_ok P W c" using s c by (simp_all add: stack_inv_def)
  have same: "clo_mngt_authorised_to_send_nexttx 1400 (c\<lparr>head_hdata := h\<rparr>) = clo_mngt_authorised_to_send_nexttx 1400 c" for h
    by (simp add: clo_mngt_authorised_to_send_nexttx_def)
  show ?thesis
    using eq clo_mngt_find_self [OF s c] open_wnd
    by (auto simp: clo_high_data_tx_def kout_if_bind deref_def c g clo_mngt_high_input_def same
        authorised_returns [OF ck W] bind_eq_Some Let_def split: if_splits)
qed

lemma rx_from_llid_ok:
  assumes s: "stack_inv P W s" and W: "65535 \<le> W" "W < 2 ^ 30" and c: "clos s r = Some c" and l: "llid_to_clo s l = Some r"
    and lid: "\<not> bad_llid l" and open_wnd: "in_flight c + 1401 < uint (dist_wnd c)"
  shows "ok P W s (llid_slirptux_tcp_rx_from_llid l data s)"
proof -
  have "\<exists>r. key_at s r = Some (conn_key (tcpid c))" using c by (auto simp: key_at_def)
  from clo_high_data_tx_ok [OF s W this, of data] obtain res t where t: "clo_high_data_tx (tcpid c) data s = Some (res, t)"
    "stack_inv P W t" "evolves s t" by (auto simp: okv_def)
  have "res \<noteq> error_not_authorized" by (rule data_tx_authorised [OF s W(2) c open_wnd t(1)])
  with t l lid c show ?thesis
    by (auto simp: llid_slirptux_tcp_rx_from_llid_def util_get_clo_def kout_if_bind deref_def)
qed

lemma stop_reading_frame [simp]: "stack_inv P W (stop_reading l fd s) = stack_inv P W s" "evolves s (stop_reading l fd s)"
  by (simp_all add: stop_reading_def)

lemma attached_conn:
  assumes "stack_inv P W s" and "llid_to_clo s l = Some r"
  obtains c where "clos s r = Some c" and "llid (tcpid c) = l" and "\<not> bad_llid l"
proof -
  have i: "llid_inv s" using assms(1) by (simp add: stack_inv_def tables_inv_def)
  from llid_invD [OF i, of l r] assms(2) have a: "l \<noteq> 0" "llid_at s r = Some l" by auto
  with llid_inv_good [OF i a(2)] that show thesis by (auto simp: llid_at_def)
qed

lemma timed_rx_ok:
  assumes s: "stack_inv P W s" and W: "65535 \<le> W" "W < 2 ^ 30" and l: "\<not> bad_llid l"
  shows "ok P W s (timed_rx_from_out l fd answer s)"
proof (cases "exist_channel l (env s)")
  case False
  with l fatal_err_ok [OF s l] show ?thesis by (simp add: timed_rx_from_out_def kout_if_bind)
next
  case True
  show ?thesis
  proof (cases "llid_to_clo s l")
    case None
    with True l s show ?thesis
      by (auto simp: timed_rx_from_out_def llid_slirptux_tcp_tx_to_slirptux_possible_def util_get_clo_def kout_if_bind)
  next
    case (Some r)
    obtain c where c: "clos s r = Some c" "llid (tcpid c) = l" by (rule attached_conn [OF s Some])
    let ?u = "with_env (\<lambda>e. e\<lparr>chan_stopped := (chan_stopped e)(l := False)\<rparr>) s"
    have u: "stack_inv P W ?u" "clos ?u r = Some c" "llid_to_clo ?u l = Some r" using s c Some by simp_all
    have "ok P W ?u (do_rx_from_out c answer ?u)" if open_wnd: "in_flight c + 1401 < uint (dist_wnd c)"
      using fatal_err_ok [OF u(1) l] rx_from_llid_ok [OF u(1) W u(2,3) l open_wnd] u(1)
      by (auto simp: do_rx_from_out_def c split: read_answer.split)
    then have "ok P W s (do_rx_from_out c answer ?u)" if "in_flight c + 1401 < uint (dist_wnd c)"
      using that by (auto intro: ok_from)
    moreover have "ok P W s (Some (stop_reading l fd s))" using s by auto
    ultimately show ?thesis
      using True l Some c possible_returns [OF s W(2) c(1)]
      by (simp add: timed_rx_from_out_def llid_slirptux_tcp_tx_to_slirptux_possible_def util_get_clo_def kout_if_bind deref_def)
  qed
qed

lemma tcp_rx_from_out_ok:
  assumes s: "stack_inv P W s" and W: "65535 \<le> W" "W < 2 ^ 30" and l: "\<not> bad_llid l"
  shows "ok P W s (tcp_rx_from_out l fd answer s)"
  using timed_rx_ok [OF assms] delete_if_exists_ok [OF s l] l
  by (simp add: tcp_rx_from_out_def util_get_clo_def kout_if_bind)

section \<open>Data of a client\<close>

lemma client_data_ok:
  assumes s: "stack_inv P W s" and W: "65535 \<le> W" "W < 2 ^ 30" and live: "\<exists>r. key_at s r = Some (conn_key (ctx_tcpid ctx))"
  shows "ok P W s (client_data ctx buf s)"
  unfolding client_data_def by (rule ok_bind_okv [OF clo_high_data_tx_ok [OF s W live]]) auto

lemma attach_ok:
  assumes s: "stack_inv P W s" and c: "clos s r = Some c" "llid (tcpid c) = 0" and l: "\<not> bad_llid l" and free: "llid_to_clo s l = None"
  shows "ok P W s (util_attach_llid_clo l r s)"
proof -
  have t: "tables_inv s" using s by (simp add: stack_inv_def)
  let ?t = "set_clo r (set_llid l c) (s\<lparr>llid_to_clo := (llid_to_clo s)(l \<mapsto> r)\<rparr>)"
  have "conn_ok P W (set_llid l c)" using stack_inv_conn [OF s c(1)] by simp
  then have "stack_inv P W ?t" using tables_attach(2) [OF t c l free] s by (auto simp: stack_inv_def)
  moreover have "evolves s ?t" using c(1) by (auto simp: evolves_def same_conn_def set_llid_def)
  ultimately show ?thesis using tables_attach(1) [OF t c l free] by (auto simp: ok_def)
qed

lemma unlock_ok:
  assumes "stack_inv P W s" and "clos s r = Some c"
  shows "ok P W s (with_clo r (\<lambda>c. c\<lparr>tcpid := (tcpid c)\<lparr>llid_unlocked := 1\<rparr>\<rparr>) s)"
proof (rule ok_with_clo [OF assms order_refl])
  show "conn_ok P W (c\<lparr>tcpid := (tcpid c)\<lparr>llid_unlocked := 1\<rparr>\<rparr>)"
    using stack_inv_conn [OF assms] by (simp add: conn_ok_def in_flight_def local_addr_def our_port_def)
qed (simp_all add: conn_key_def)

text \<open>A line that the client may send in its state.\<close>

definition legal_line :: "int \<Rightarrow> u8 list \<Rightarrow> munat \<Rightarrow> bool" where
  "legal_line l buf s \<longleftrightarrow> \<not> bad_llid l \<and> (\<forall>ctx. llid_to_ctx (env s) l = Some ctx \<longrightarrow> (case ctx_state ctx of
       state_wait_info \<Rightarrow> (\<exists>info. get_info_from_buf buf ctx = Some info \<and>
         (\<forall>ctx'. info = Some ctx' \<longrightarrow> ip_string_to_int (remote_ip_txt ctx') \<noteq> None))
     | state_running_half \<Rightarrow> \<not> bad_llid (ctx_llid ctx) \<and> llid_to_clo s (ctx_llid ctx) = None \<and>
         (\<forall>r c. clos s r = Some c \<longrightarrow> conn_key (tcpid c) = conn_key (ctx_tcpid ctx) \<longrightarrow> llid (tcpid c) = 0)
     | state_running_full \<Rightarrow> (\<exists>r. key_at s r = Some (conn_key (ctx_tcpid ctx)))
     | _ \<Rightarrow> True))"

lemma request_mac_ok:
  assumes "stack_inv P W s" and "ip_string_to_int ip \<noteq> None"
  shows "ok P W s (request_mac_with_ip ip s)"
proof -
  obtain f where "format_arp_req get_unix2inet_ip ip = Some f"
    using assms(2) by (auto simp: format_arp_req_def put_ip_def our_ips_int Let_def)
  with assms(1) show ?thesis by (auto simp: request_mac_with_ip_def packet_output_to_slirptux_def evolves_clos)
qed

lemma alloc_waiting_ok:
  assumes s: "stack_inv P W s"
  shows "okv P W s (alloc_ctx_waiting_for_vmtx syn ctx l s)"
proof -
  have "okv P W s (arm_timeout_waiting_for_vmtx syn ctx l s)"
  proof -
    have "okv P W s (timeout_add 50 call s \<bind> (\<lambda>((date, r), s). Some (True, set_ctx l (f date r) s)))" for call f
      by (rule okv_bind_okv [OF timeout_add_ok [OF s]]) (auto simp: MAX_TIMEOUT_BEATS_def split: prod.split)
    with s show ?thesis by (auto simp: arm_timeout_waiting_for_vmtx_def)
  qed
  then show ?thesis
    unfolding alloc_ctx_waiting_for_vmtx_def Let_def by (rule okv_bind_okv) auto
qed

lemma wait_info_ok:
  assumes s: "stack_inv P W s" and l: "\<not> bad_llid l" and ip: "ip_string_to_int (remote_ip_txt ctx) \<noteq> None"
  shows "ok P W s (alloc_ctx_waiting_for_vmtx False ctx l (set_ctx l (Some ctx) s) \<bind> (\<lambda>(armed, s).
     if \<not> armed then free_ctx l s else request_mac_with_ip (remote_ip_txt ctx) s \<bind> (\<lambda>s.
       Some (set_ctx l (map_option (change_state state_wait_arp_resp) (llid_to_ctx (env s) l)) s))))"
proof -
  have s': "stack_inv P W (set_ctx l (Some ctx) s)" using s by simp
  have "ok P W (set_ctx l (Some ctx) s) (alloc_ctx_waiting_for_vmtx False ctx l (set_ctx l (Some ctx) s) \<bind> (\<lambda>(armed, s).
     if \<not> armed then free_ctx l s else request_mac_with_ip (remote_ip_txt ctx) s \<bind> (\<lambda>s.
       Some (set_ctx l (map_option (change_state state_wait_arp_resp) (llid_to_ctx (env s) l)) s))))"
  proof (rule ok_bind_okv [OF alloc_waiting_ok [OF s']])
    fix x and t :: munat assume t: "stack_inv P W t"
    have "ok P W t (request_mac_with_ip (remote_ip_txt ctx) t \<bind> (\<lambda>s.
       Some (set_ctx l (map_option (change_state state_wait_arp_resp) (llid_to_ctx (env s) l)) s)))"
      by (rule ok_bind [OF request_mac_ok [OF t ip]]) auto
    with free_ctx_ok [OF t l] show "ok P W t (case (x, t) of (armed, s) \<Rightarrow>
       if \<not> armed then free_ctx l s else request_mac_with_ip (remote_ip_txt ctx) s \<bind> (\<lambda>s.
         Some (set_ctx l (map_option (change_state state_wait_arp_resp) (llid_to_ctx (env s) l)) s)))" by simp
  qed
  then show ?thesis by (rule ok_from) simp
qed

lemma running_half_ok:
  assumes s: "stack_inv P W s" and W: "65535 \<le> W" "W < 2 ^ 30" and l: "\<not> bad_llid l'" "llid_to_clo s l' = None"
    and c: "clos s r = Some c" "conn_key (tcpid c) = conn_key (ctx_tcpid ctx)" "llid (tcpid c) = 0"
  shows "ok P W s (util_attach_llid_clo l' r s \<bind> (\<lambda>s.
     with_clo r (\<lambda>c. c\<lparr>tcpid := (tcpid c)\<lparr>llid_unlocked := 1\<rparr>\<rparr>) s \<bind> (\<lambda>s. client_data ctx buf (set_ctx l c' s))))"
proof (rule ok_bind [OF attach_ok [OF s c(1,3) l]])
  fix t :: munat assume t: "stack_inv P W t" "evolves s t"
  then obtain d where d: "clos t r = Some d" "same_conn c d" using c(1) unfolding evolves_def by blast
  show "ok P W t (with_clo r (\<lambda>c. c\<lparr>tcpid := (tcpid c)\<lparr>llid_unlocked := 1\<rparr>\<rparr>) t \<bind>
      (\<lambda>s. client_data ctx buf (set_ctx l c' s)))"
  proof (rule ok_bind [OF unlock_ok [OF t(1) d(1)]])
    fix u :: munat assume u: "stack_inv P W u" "evolves t u"
    then obtain e where e: "clos u r = Some e" "same_conn d e" using d(1) unfolding evolves_def by blast
    have "key_at (set_ctx l c' u) r = Some (conn_key (ctx_tcpid ctx))"
      using e d(2) c(2) by (simp add: key_at_def same_conn_def)
    then have "ok P W (set_ctx l c' u) (client_data ctx buf (set_ctx l c' u))"
      using u(1) W by (intro client_data_ok) auto
    then show "ok P W u (client_data ctx buf (set_ctx l c' u))" by (rule ok_from) simp
  qed
qed

lemma rx_cb_ok:
  assumes s: "stack_inv P W s" and W: "65535 \<le> W" "W < 2 ^ 30" and legal: "legal_line l buf s"
  shows "ok P W s (unix2inet_ssh_rx_cb l buf s)"
proof -
  have l: "\<not> bad_llid l" using legal by (simp add: legal_line_def)
  show ?thesis
  proof (cases "llid_to_ctx (env s) l")
    case None
    with l delete_if_exists_ok [OF s l] show ?thesis by (simp add: unix2inet_ssh_rx_cb_def find_ctx_def kout_if_bind)
  next
    case (Some ctx)
    note lg = legal [unfolded legal_line_def, THEN conjunct2, rule_format, OF Some]
    have rx: "unix2inet_ssh_rx_cb l buf s = (case ctx_state ctx of
         state_wait_info \<Rightarrow> get_info_from_buf buf ctx \<bind> (\<lambda>info. case info of None \<Rightarrow> free_ctx l s
           | Some ctx \<Rightarrow> alloc_ctx_waiting_for_vmtx False ctx l (set_ctx l (Some ctx) s) \<bind> (\<lambda>(armed, s).
               if \<not> armed then free_ctx l s else request_mac_with_ip (remote_ip_txt ctx) s \<bind> (\<lambda>s.
               Some (set_ctx l (map_option (change_state state_wait_arp_resp) (llid_to_ctx (env s) l)) s))))
       | state_running_half \<Rightarrow> util_get_fast_clo (ctx_tcpid ctx) s \<bind> (\<lambda>f. case f of None \<Rightarrow> free_ctx l s
           | Some r \<Rightarrow> util_attach_llid_clo (ctx_llid ctx) r s \<bind> (\<lambda>s.
               with_clo r (\<lambda>c. c\<lparr>tcpid := (tcpid c)\<lparr>llid_unlocked := 1\<rparr>\<rparr>) s \<bind>
               (\<lambda>s. client_data ctx buf (set_ctx l (Some (change_state state_running_full ctx)) s))))
       | state_running_full \<Rightarrow> client_data ctx buf s
       | _ \<Rightarrow> free_ctx l s)"
      using l Some by (simp add: unix2inet_ssh_rx_cb_def find_ctx_def kout_if_bind cong: ctx_state.case_cong)
    show ?thesis
    proof (cases "ctx_state ctx")
      case state_wait_info
      with lg obtain info where i: "get_info_from_buf buf ctx = Some info"
        "\<And>ctx'. info = Some ctx' \<Longrightarrow> ip_string_to_int (remote_ip_txt ctx') \<noteq> None" by auto
      with rx state_wait_info free_ctx_ok [OF s l] wait_info_ok [OF s l] show ?thesis by (cases info) simp_all
    next
      case state_running_half
      with lg have h: "\<not> bad_llid (ctx_llid ctx)" "llid_to_clo s (ctx_llid ctx) = None"
        "\<And>r c. clos s r = Some c \<Longrightarrow> conn_key (tcpid c) = conn_key (ctx_tcpid ctx) \<Longrightarrow> llid (tcpid c) = 0" by auto
      show ?thesis
        using s
      proof (cases rule: find_conn [where tid = "ctx_tcpid ctx"])
        case none
        with rx state_running_half free_ctx_ok [OF s l] show ?thesis by (simp add: clo_mngt_find_def)
      next
        case (one r c)
        have "llid (tcpid c) = 0" by (rule h(3) [OF one(2,3)])
        from running_half_ok [OF s W h(1,2) one(2,3) this] one(1) rx state_running_half show ?thesis
          by (simp add: clo_mngt_find_def)
      qed
    next
      case state_running_full
      with lg client_data_ok [OF s W] rx show ?thesis by simp
    qed (use rx free_ctx_ok [OF s l] in simp_all)
  qed
qed

section \<open>The timer of a connecting socket\<close>

lemma set_connect_frame [simp]:
  "clos (set_connect c s) = clos s" "stack_inv P W (set_connect c s) = stack_inv P W s" "evolves s (set_connect c s)"
  "llid_to_clo (set_connect c s) = llid_to_clo s"
  by (simp_all add: set_connect_def)

definition attachable :: "t_tcp_id \<Rightarrow> int \<Rightarrow> munat \<Rightarrow> bool" where
  "attachable tid l s \<longleftrightarrow> \<not> bad_llid l \<and> llid_to_clo s l = None \<and>
     (\<forall>r c. clos s r = Some c \<longrightarrow> conn_key (tcpid c) = conn_key tid \<longrightarrow> llid (tcpid c) = 0)"

lemma callback_fail_ok:
  assumes "stack_inv nat_addr W s" and "nat_addr (local_addr tid)" and "st \<noteq> 0"
  shows "ok nat_addr W s (callback_connect tid l st s)"
  using high_close_rx_ok [OF assms(1,2)] assms(3) by (simp add: callback_connect_def)

lemma synack_tx_attachable:
  assumes "clo_high_synack_tx tid s = Some (b, t)" and "attachable tid l s"
  shows "attachable tid l t"
proof -
  have f: "llid_to_clo (send_seg tid a q w fl n d s) = llid_to_clo s" for tid a q w fl n d and s :: munat
    by (simp add: send_seg_def split_beta)
  have "llid_to_clo t = llid_to_clo s \<and> (\<forall>r. map_option tcpid (clos t r) = map_option tcpid (clos s r))"
    using assms(1) by (auto simp: clo_high_synack_tx_def bind_eq_Some deref_def util_sends Let_def f
        clo_mngt_adjust_send_next_def clo_mngt_set_state_def split: option.splits if_splits)
  then show ?thesis using assms(2) unfolding attachable_def by (metis (no_types, lifting) map_option_eq_Some)
qed

lemma callback_connect_ok:
  assumes s: "stack_inv nat_addr W s" and W: "65535 \<le> W" "W + 2 < 2 ^ 30" and addr: "nat_addr (local_addr tid)"
    and a: "st = 0 \<Longrightarrow> attachable tid l s"
  shows "ok nat_addr (W + 2) s (callback_connect tid l st s)"
proof (cases "st = 0")
  case False
  from ok_mono [OF callback_fail_ok [OF s addr False], of "W + 2"] show ?thesis by simp
next
  case True
  have W1: "W + 1 < 2 ^ 32" using W by simp
  from clo_high_synack_tx_ok [OF s W1, of tid] obtain b t where
    t: "clo_high_synack_tx tid s = Some (b, t)" "stack_inv nat_addr (W + 1) t" "evolves s t" by (auto simp: okv_def)
  have at: "attachable tid l t" by (rule synack_tx_attachable [OF t(1) a [OF True]])
  have close: "ok nat_addr (W + 2) t (llid_clo_high_close_rx tid t)"
    using ok_mono [OF high_close_rx_ok [OF t(2) addr], of "W + 2"] by simp
  have "ok nat_addr (W + 2) t (util_get_fast_clo tid t \<bind> (\<lambda>f. case f of None \<Rightarrow> Some t
     | Some r \<Rightarrow> util_attach_llid_clo l r t \<bind> with_clo r (\<lambda>c. c\<lparr>tcpid := (tcpid c)\<lparr>llid_unlocked := 1\<rparr>\<rparr>)))"
    using t(2)
  proof (cases rule: find_conn [where tid = tid])
    case none
    with stack_inv_mono [OF t(2), of "W + 2"] show ?thesis by (auto simp: clo_mngt_find_def)
  next
    case (one r c)
    have "ok nat_addr (W + 1) t (util_attach_llid_clo l r t \<bind> with_clo r (\<lambda>c. c\<lparr>tcpid := (tcpid c)\<lparr>llid_unlocked := 1\<rparr>\<rparr>))"
    proof (rule ok_bind [OF attach_ok [OF t(2) one(2)]])
      show "llid (tcpid c) = 0" "\<not> bad_llid l" "llid_to_clo t l = None" using at one by (auto simp: attachable_def)
      fix u :: munat assume u: "stack_inv nat_addr (W + 1) u" "evolves t u"
      with one(2) obtain d where "clos u r = Some d" using evolves_live by blast
      with u(1) show "ok nat_addr (W + 1) u (with_clo r (\<lambda>c. c\<lparr>tcpid := (tcpid c)\<lparr>llid_unlocked := 1\<rparr>\<rparr>) u)"
        by (rule unlock_ok)
    qed
    from ok_mono [OF this, of "W + 2"] one(1) show ?thesis by (simp add: clo_mngt_find_def)
  qed
  with close have "ok nat_addr (W + 2) t (if \<not> b then llid_clo_high_close_rx tid t
     else util_get_fast_clo tid t \<bind> (\<lambda>f. case f of None \<Rightarrow> Some t
     | Some r \<Rightarrow> util_attach_llid_clo l r t \<bind> with_clo r (\<lambda>c. c\<lparr>tcpid := (tcpid c)\<lparr>llid_unlocked := 1\<rparr>\<rparr>)))" by simp
  from ok_from [OF this t(3)] show ?thesis using True t(1) by (simp add: callback_connect_def)
qed

lemma get_set_connect:
  assumes "get_connect i s = Some c" and "cc_id d = i"
  shows "get_connect i (set_connect d s) = Some d"
proof -
  have "find (\<lambda>c. cc_id c = i) xs = Some c \<Longrightarrow> find (\<lambda>c. cc_id c = i) (replace_first (\<lambda>e. cc_id e = i) (\<lambda>_. d) xs) = Some d" for xs
    using assms(2) by (induction xs) auto
  with assms show ?thesis by (simp add: get_connect_def set_connect_def)
qed

lemma end_ctx_ok:
  assumes s: "stack_inv nat_addr W s" and W: "65535 \<le> W" "W + 2 < 2 ^ 30" and c: "get_connect i s = Some c"
    and z: "timer_abs_beat c = 0" and addr: "nat_addr (local_addr (cc_tcpid c))"
    and a: "0 < l \<Longrightarrow> attachable (cc_tcpid c) l s"
  shows "ok nat_addr (W + 2) s (end_ctx i l s)"
proof -
  let ?s = "set_connect (c\<lparr>end_ctx_call := True\<rparr>) s"
  have a': "0 < l \<Longrightarrow> attachable (cc_tcpid c) l ?s" using a by (simp add: attachable_def)
  have "ok nat_addr (W + 2) ?s (if 0 < l then callback_connect (cc_tcpid c) l 0 ?s else callback_connect (cc_tcpid c) 0 (-1) ?s)"
    using callback_connect_ok [of W ?s "cc_tcpid c" 0 l] callback_connect_ok [of W ?s "cc_tcpid c" "-1" 0] s W addr a' by simp
  then have "ok nat_addr (W + 2) s (if 0 < l then callback_connect (cc_tcpid c) l 0 ?s else callback_connect (cc_tcpid c) 0 (-1) ?s)"
    by (rule ok_from) simp
  then have "ok nat_addr (W + 2) s ((if 0 < l then callback_connect (cc_tcpid c) l 0 ?s else callback_connect (cc_tcpid c) 0 (-1) ?s)
     \<bind> (\<lambda>s. Some (with_env f (if cc_llid c = 0 then with_env g s else s))))" for f g
    by (rule ok_bind) (auto intro!: ok_some evolves_clos)
  moreover have "ok nat_addr (W + 2) s (Some s)" using stack_inv_mono [OF s, of "W + 2"] by auto
  ultimately show ?thesis using z by (simp add: end_ctx_def c Let_def)
qed

definition legal_connect :: "net \<Rightarrow> nat \<Rightarrow> munat \<Rightarrow> bool" where
  "legal_connect n i s \<longleftrightarrow> (\<exists>c. get_connect i s = Some c \<and> map_option cc_id (find_connect (cc_tcpid c) s) = Some i \<and>
     nat_addr (local_addr (cc_tcpid c)) \<and> 0 \<le> cc_fd c \<and> cc_fd c < MAX_SELECT_CHANNELS - 1 \<and>
     (\<forall>l. connect_state n (cc_fd c) (cc_count c + 1) = Connected l \<longrightarrow> attachable (cc_tcpid c) l s))"

lemma find_cc_id: "get_connect i s = Some c \<Longrightarrow> cc_id c = i"
  unfolding get_connect_def by (drule find_SomeD) simp

lemma timer_connect_wait_ok:
  assumes s: "stack_inv nat_addr W s" and W: "65535 \<le> W" "W + 2 < 2 ^ 30" and legal: "legal_connect n i s"
  shows "ok nat_addr (W + 2) s (timer_connect_wait n i s)"
proof -
  obtain c where c: "get_connect i s = Some c" "map_option cc_id (find_connect (cc_tcpid c) s) = Some i"
    "nat_addr (local_addr (cc_tcpid c))" "0 \<le> cc_fd c" "cc_fd c < MAX_SELECT_CHANNELS - 1"
    "\<And>l. connect_state n (cc_fd c) (cc_count c + 1) = Connected l \<Longrightarrow> attachable (cc_tcpid c) l s"
    using legal unfolding legal_connect_def by blast
  define d where "d = c\<lparr>timer_abs_beat := 0, timer_ref := 0, cc_count := cc_count c + 1\<rparr>"
  let ?s = "set_connect d s"
  have id: "cc_id c = i" "cc_id d = i" using find_cc_id [OF c(1)] by (simp_all add: d_def)
  have s': "stack_inv nat_addr W ?s" and get: "get_connect i ?s = Some d" using s get_set_connect [OF c(1) id(2)] by simp_all
  have give_up: "ok nat_addr (W + 2) ?s (end_ctx i (-1) ?s)"
    by (rule end_ctx_ok [OF s' W get]) (use c in \<open>simp_all add: d_def\<close>)
  have again: "ok nat_addr (W + 2) ?s (timeout_add 5 call ?s \<bind> (\<lambda>((date, r), s). Some (set_connect (f date r) s)))" for call f
    by (rule ok_bind_okv [OF timeout_add_ok [OF s']])
      (auto simp: MAX_TIMEOUT_BEATS_def split: prod.split intro!: ok_some intro: stack_inv_mono)
  have up: "ok nat_addr (W + 2) ?s (end_ctx i l (set_connect (d\<lparr>cc_llid := l\<rparr>) (with_env f ?s)))"
    if "connect_state n (cc_fd c) (cc_count c + 1) = Connected l" and "head_ctx (f (env ?s)) = head_ctx (env ?s)" for l f
  proof -
    let ?u = "set_connect (d\<lparr>cc_llid := l\<rparr>) (with_env f ?s)"
    have "get_connect i (with_env f ?s) = Some d" using get that(2) by (simp add: get_connect_def)
    then have "get_connect i ?u = Some (d\<lparr>cc_llid := l\<rparr>)" by (rule get_set_connect) (simp add: id)
    moreover have "attachable (cc_tcpid c) l ?u" using c(6) [OF that(1)] by (simp add: attachable_def)
    ultimately have "ok nat_addr (W + 2) ?u (end_ctx i l ?u)"
      using s' W c(3) by (intro end_ctx_ok [of W ?u i "d\<lparr>cc_llid := l\<rparr>"]) (simp_all add: d_def)
    then show ?thesis by (rule ok_from) (rule evolves_trans [of _ "with_env f ?s"], simp_all)
  qed
  have pos: "connect_state n (cc_fd c) (cc_count c + 1) = Connected l \<Longrightarrow> 0 < l" for l
    using c(6) [of l] by (auto simp: attachable_def bad_llid_def)
  have "timer_connect_wait n i s = (if 30 < cc_count d then end_ctx i (-1) ?s
     else if connect_state n (cc_fd c) (cc_count c + 1) = Not_writable then timeout_add 5 (Timer_connect_wait i) ?s \<bind>
       (\<lambda>((date, r), s). Some (set_connect (d\<lparr>timer_abs_beat := date, timer_ref := r\<rparr>) s))
     else (case connect_state n (cc_fd c) (cc_count c + 1) of
         Connected l \<Rightarrow> end_ctx i l (set_connect (d\<lparr>cc_llid := l\<rparr>)
             (with_env (\<lambda>e. e\<lparr>chan_open := (chan_open e)(l := True), chan_tx := (chan_tx e)(l := [])\<rparr>) ?s))
       | _ \<Rightarrow> end_ctx i (-1) ?s))"
  proof -
    have fd: "cc_fd d = cc_fd c" "cc_count d = cc_count c + 1" by (simp_all add: d_def)
    have "\<not> (cc_fd c < 0 \<or> MAX_SELECT_CHANNELS - 1 \<le> cc_fd c)" using c(4,5) by linarith
    with pos show ?thesis
      unfolding timer_connect_wait_def c(1) bind.bind_lunit Let_def d_def [symmetric] c(2) fd
      by (cases "connect_state n (cc_fd c) (cc_count c + 1)") (simp_all add: kout_if_bind not_le)
  qed
  moreover have "ok nat_addr (W + 2) ?s \<dots>"
    using give_up again up by (cases "connect_state n (cc_fd c) (cc_count c + 1)") simp_all
  ultimately have "ok nat_addr (W + 2) ?s (timer_connect_wait n i s)" by (simp only:)
  then show ?thesis by (rule ok_from) (rule set_connect_frame(3))
qed

end
