(* ===== verification/Nat_Run.thy ===== *)
theory Nat_Run
  imports Nat_Events
begin

text \<open>
  The events of munat as a step function, and its safety over every sequence of legal ones.
\<close>

section \<open>The answer of a machine to an ARP request\<close>

lemma syn_tx_env: "clo_high_syn_tx tid s = Some (b, t) \<Longrightarrow> env t = env s"
proof -
  have i: "util_insert_clo tid s = Some (r, u) \<Longrightarrow> env u = env s" for r u
    by (auto simp: util_insert_clo_def create_fast_def bind_eq_Some Let_def kout_if_bind split: if_splits)
  have c: "clo_mngt_create_tcp tid s = Some (r, u) \<Longrightarrow> env u = env s" for r u
    by (auto simp: clo_mngt_create_tcp_def clo_next_iss_def bind_eq_Some Let_def with_clo_def deref_def set_clo_def dest!: i)
  assume "clo_high_syn_tx tid s = Some (b, t)"
  then show ?thesis
    by (auto simp: clo_high_syn_tx_def bind_eq_Some util_sends Let_def dest!: c split: if_splits prod.splits)
qed

lemma our_tcp_id:
  assumes "\<not> bad_llid l" and "ip_string_to_int ip = Some a"
  shows "\<exists>tid. unix2inet_init_tcp_id mac ip l port = Some tid \<and> llid tid = 0 \<and> nat_addr (local_addr tid) \<and> our_port tid"
proof -
  have "uint (word_of_int (OFFSET_PORT + l) :: u16) = OFFSET_PORT + l"
  proof -
    have "0 \<le> OFFSET_PORT + l" "OFFSET_PORT + l < 65536"
      using assms(1) by (simp_all add: bad_llid_def OFFSET_PORT_def CLOWNIX_MAX_CHANNELS_def)
    then show ?thesis by (simp only: uint_word_of_int) simp
  qed
  with assms show ?thesis
    by (simp add: unix2inet_init_tcp_id_def our_ips_int nat_addr_def local_addr_def our_port_def)
qed

lemma first_syn_ok:
  assumes s: "stack_inv nat_addr W s" and W: "65535 \<le> W" "W + 2 < 2 ^ 30" and l: "\<not> bad_llid (ctx_llid ctx)"
    and ip: "ip_string_to_int ip \<noteq> None"
  shows "okv nat_addr (W + 2) s (send_first_tcp_syn ctx mac ip port s)"
    and "send_first_tcp_syn ctx mac ip port s = Some (True, t) \<Longrightarrow> llid_to_ctx (env t) (ctx_llid ctx) \<noteq> None"
proof -
  obtain a where a: "ip_string_to_int ip = Some a" using ip by blast
  obtain tid where tid: "unix2inet_init_tcp_id mac ip (ctx_llid ctx) port = Some tid" "llid tid = 0" "nat_addr (local_addr tid)"
    "our_port tid" using our_tcp_id [OF l a] by blast
  let ?s = "set_ctx (ctx_llid ctx) (Some (ctx\<lparr>ctx_tcpid := tid\<rparr>)) s"
  have s': "stack_inv nat_addr W ?s" using s by simp
  have W': "0 \<le> W" "W + 1 < 2 ^ 32" using W by simp_all
  obtain b u where u: "clo_high_syn_tx tid ?s = Some (b, u)" "stack_inv nat_addr (W + 1) u" "evolves ?s u"
    using clo_high_syn_tx_ok [OF s' W' tid(2-4)] by (auto simp: okv_def)
  obtain f where f: "util_get_fast_clo tid u = Some f"
    using u(2) by (cases rule: find_conn [where tid = tid]) (auto simp: clo_mngt_find_def)
  have free: "okv nat_addr (W + 2) s (free_ctx (ctx_llid ctx) u \<bind> (\<lambda>s. Some (False, s)))"
  proof -
    have "okv nat_addr (W + 2) u (free_ctx (ctx_llid ctx) u \<bind> (\<lambda>s. Some (False, s)))"
      by (rule ok_bind_true [OF ok_mono [OF free_ctx_ok [OF u(2) l]]]) simp
    then show ?thesis using u(3) by (rule okv_from [OF okv_from]) simp
  qed
  have sent: "okv nat_addr (W + 2) s (Some (True, req_unix2inet_conpath_evt l' name u))" for l' name
    using stack_inv_mono [OF u(2), of "W + 2"] evolves_trans [of s ?s u] u(3)
    by (auto simp: req_unix2inet_conpath_evt_def intro!: okv_some intro: evolves_trans)
  have eq: "send_first_tcp_syn ctx mac ip port s = (if \<not> b then free_ctx (ctx_llid ctx) u \<bind> (\<lambda>s. Some (False, s))
     else (case (f, look_for_machine_with_ip ip (boot (env u))) of
         (Some _, Some m) \<Rightarrow> Some (True, req_unix2inet_conpath_evt (ctx_llid ctx) (ma_name m) u)
       | _ \<Rightarrow> free_ctx (ctx_llid ctx) u \<bind> (\<lambda>s. Some (False, s))))"
    by (simp add: send_first_tcp_syn_def tid(1) u(1) f Let_def)
  show "okv nat_addr (W + 2) s (send_first_tcp_syn ctx mac ip port s)"
    unfolding eq using free sent by (auto split: option.split)
  have "env u = env ?s" by (rule syn_tx_env [OF u(1)])
  then show "send_first_tcp_syn ctx mac ip port s = Some (True, t) \<Longrightarrow> llid_to_ctx (env t) (ctx_llid ctx) \<noteq> None"
    unfolding eq by (auto simp: bind_eq_Some req_unix2inet_conpath_evt_def set_ctx_def split: if_splits option.splits)
qed

text \<open>An ARP answer is legal if the client that waits for the address has its timeout.\<close>

definition legal_arp :: "string \<Rightarrow> munat \<Rightarrow> bool" where
  "legal_arp ip s \<longleftrightarrow> ip_string_to_int ip \<noteq> None \<and> (\<forall>w. find (\<lambda>w. w_ip w = ip) (waiting_for_arp_reply (env s)) = Some w \<longrightarrow>
     \<not> bad_llid (w_llid w) \<and> (\<forall>ctx. llid_to_ctx (env s) (w_llid w) = Some ctx \<longrightarrow>
       clownix_timeout_exists (timeout_abs_beat ctx) (timeout_ref ctx) (nat_wheel (env s))))"

lemma arp_resp_ok:
  assumes s: "stack_inv nat_addr W s" and W: "65535 \<le> W" "W + 2 < 2 ^ 30" and legal: "legal_arp ip s"
  shows "ok nat_addr (W + 2) s (unix2inet_arp_resp mac ip s)"
proof -
  obtain w u where w: "free_ctx_waiting_for_vmtx False ip s = (w, u)" by (metis prod.exhaust)
  have u: "stack_inv nat_addr W u" "evolves s u" "llid_to_ctx (env u) = llid_to_ctx (env s)" "nat_wheel (env u) = nat_wheel (env s)"
    using w s by (auto simp: free_ctx_waiting_for_vmtx_def Let_def)
  have s2: "ok nat_addr (W + 2) s (Some u)" using u stack_inv_mono [OF u(1), of "W + 2"] by auto
  show ?thesis
  proof (cases w)
    case None
    with w s2 show ?thesis by (simp add: unix2inet_arp_resp_def)
  next
    case (Some lp)
    obtain l port where lp: "lp = (l, port)" by (cases lp)
    have ip: "ip_string_to_int ip \<noteq> None" using legal by (simp add: legal_arp_def)
    have l: "\<not> bad_llid l" and tm: "llid_to_ctx (env s) l = Some ctx \<Longrightarrow>
        clownix_timeout_exists (timeout_abs_beat ctx) (timeout_ref ctx) (nat_wheel (env s))" for ctx
      using legal w Some lp by (auto simp: legal_arp_def free_ctx_waiting_for_vmtx_def Let_def)
    show ?thesis
    proof (cases "llid_to_ctx (env u) l")
      case None
      with w s2 l Some lp show ?thesis by (simp add: unix2inet_arp_resp_def find_ctx_def kout_if_bind)
    next
      case ctx: (Some ctx)
      show ?thesis
      proof (cases "ctx_llid ctx = l")
        case False
        with w s2 l Some lp ctx show ?thesis by (simp add: unix2inet_arp_resp_def find_ctx_def kout_if_bind)
      next
        case True
        define ctx0 where "ctx0 = ctx\<lparr>timeout_abs_beat := 0, timeout_ref := 0\<rparr>"
        define go where "go = (\<lambda>(sent, s). if \<not> sent then Some s else (case llid_to_ctx (env s) l of None \<Rightarrow> None
           | Some ctx \<Rightarrow> alloc_ctx_waiting_for_vmtx True ctx l s \<bind> (\<lambda>(armed, s). if \<not> armed then free_ctx l s
               else Some (set_ctx l (map_option (change_state state_wait_syn_ack) (llid_to_ctx (env s) l)) s))))"
        obtain v where v: "timeout_del (timeout_abs_beat ctx) (timeout_ref ctx) u = Some v" "stack_inv nat_addr W v" "evolves u v"
          using timeout_del_ok [OF u(1), of "timeout_abs_beat ctx" "timeout_ref ctx"] tm [of ctx] ctx u(3,4) by (auto simp: ok_def)
        let ?v = "set_ctx l (Some ctx0) v"
        have v': "stack_inv nat_addr W ?v" using v(2) by simp
        have c0: "ctx_llid ctx0 = l" using True by (simp add: ctx0_def)
        obtain b x where x: "send_first_tcp_syn ctx0 mac ip port ?v = Some (b, x)" "stack_inv nat_addr (W + 2) x" "evolves ?v x"
          using first_syn_ok(1) [OF v' W, of ctx0 ip mac port] l ip c0 by (auto simp: okv_def)
        have still: "b \<Longrightarrow> llid_to_ctx (env x) l \<noteq> None"
          using first_syn_ok(2) [OF v' W, of ctx0 ip mac port x] x(1) l ip c0 by auto
        have wait: "ok nat_addr (W + 2) x (alloc_ctx_waiting_for_vmtx True c l x \<bind> (\<lambda>(armed, s). if \<not> armed then free_ctx l s
               else Some (set_ctx l (map_option (change_state state_wait_syn_ack) (llid_to_ctx (env s) l)) s)))" for c
        proof (rule ok_bind_okv [OF alloc_waiting_ok [OF x(2)]])
          fix armed and y :: munat assume y: "stack_inv nat_addr (W + 2) y" "evolves x y"
          show "ok nat_addr (W + 2) y (case (armed, y) of (armed, s) \<Rightarrow> if \<not> armed then free_ctx l s
               else Some (set_ctx l (map_option (change_state state_wait_syn_ack) (llid_to_ctx (env s) l)) s))"
            using free_ctx_ok [OF y(1) l] y(1) by auto
        qed
        have "ok nat_addr (W + 2) x (go (b, x))"
          using still wait x(2) by (auto simp: go_def)
        moreover have "evolves s x"
          by (rule evolves_trans [OF u(2) evolves_trans [OF v(3) evolves_trans [OF _ x(3)]]]) simp
        ultimately have "ok nat_addr (W + 2) s (go (b, x))" by (rule ok_from)
        moreover have "unix2inet_arp_resp mac ip s = go (b, x)"
          unfolding unix2inet_arp_resp_def w Some lp Let_def prod.case option.case
          using l ctx True v(1) x(1) by (simp add: find_ctx_def kout_if_bind ctx0_def go_def)
        ultimately show ?thesis by simp
      qed
    qed
  qed
qed

section \<open>Timeouts of the clients\<close>

definition legal_wait :: "t_timeout_info \<Rightarrow> munat \<Rightarrow> bool" where
  "legal_wait ti s \<longleftrightarrow> \<not> bad_llid (ti_llid ti) \<and> (llid_to_ctx (env s) (ti_llid ti) \<noteq> None \<longrightarrow>
     (\<forall>l p. fst (free_ctx_waiting_for_vmtx (ti_is_synack ti) (ti_ip ti) s) = Some (l, p) \<longrightarrow>
       chan_open (env s) l \<and> \<not> bad_llid l))"

lemma timeout_waiting_ok:
  assumes s: "stack_inv P W s" and legal: "legal_wait ti s"
  shows "ok P W s (timeout_waiting_for_vmtx ti s)"
proof -
  obtain w u where w: "free_ctx_waiting_for_vmtx (ti_is_synack ti) (ti_ip ti) s = (w, u)" by (metis prod.exhaust)
  have u: "stack_inv P W u" "evolves s u" "llid_to_ctx (env u) = llid_to_ctx (env s)" "chan_open (env u) = chan_open (env s)"
    using w s by (auto simp: free_ctx_waiting_for_vmtx_def Let_def)
  have "ok P W u (doorways_tx_resp l 1 u \<bind> (\<lambda>s. timeout_add 10 call s \<bind> (\<lambda>(_, s). Some s)))"
    if "chan_open (env u) l" "\<not> bad_llid l" for l call
  proof (rule ok_bind [OF doorways_tx_resp_ok [OF u(1) that]])
    fix t :: munat assume "stack_inv P W t"
    then show "ok P W t (timeout_add 10 call t \<bind> (\<lambda>(_, s). Some s))"
      by (rule ok_bind_okv [OF timeout_add_ok]) (auto simp: MAX_TIMEOUT_BEATS_def)
  qed
  then have answer: "ok P W s (doorways_tx_resp l 1 u \<bind> (\<lambda>s. timeout_add 10 call s \<bind> (\<lambda>(_, s). Some s)))"
    if "chan_open (env u) l" "\<not> bad_llid l" for l call
    using that u(2) by (auto intro: ok_from)
  have "ok P W s (Some u)" using u by auto
  with answer show ?thesis
    using legal w u by (auto simp: timeout_waiting_for_vmtx_def legal_wait_def find_ctx_def kout_if_bind split: option.split)
qed

lemma timeout_free_ok:
  assumes s: "stack_inv P W s" and l: "\<not> bad_llid (ti_llid ti)"
  shows "ok P W s (timeout_free_ctx ti s)"
proof -
  have "ok P W s ((case llid_to_ctx (env s) (ti_llid ti) of
       Some c \<Rightarrow> if ti_is_synack ti then clo_high_free_tcpid (ctx_tcpid c) s else Some s
     | None \<Rightarrow> Some s) \<bind> free_ctx (ti_llid ti))"
    using s clo_high_free_tcpid_ok [OF s] by (intro ok_bind [OF _ free_ctx_ok [OF _ l]]) (auto split: option.split)
  with l show ?thesis by (simp add: timeout_free_ctx_def find_ctx_def kout_if_bind)
qed

section \<open>Sequences of events\<close>

datatype munat_event =
  Frame "u8 list"
| Heartbeat
| Deferred t_timer_fct
| Ack_timer t_tcp_id
| Client_connects int
| Client_writes int "u8 list"
| Client_fails int
| Path_breaks int
| Socket_readable int int read_answer
| Socket_timer int int read_answer
| Socket_fails int
| Connect_timer nat
| Wait_timer t_timeout_info
| Free_timer t_timeout_info
| Arp_answer "u8 list" string

fun munat_step :: "net \<Rightarrow> munat \<Rightarrow> munat_event \<Rightarrow> munat run" where
  "munat_step n s (Frame f) = clo_low_input nat_chan (nat_high n) f s"
| "munat_step n s Heartbeat = clo_heartbeat_timer nat_chan s"
| "munat_step n s (Deferred fct) = timer_fct_call (nat_high n) fct s"
| "munat_step n s (Ack_timer tid) = send_ack_cb tid s"
| "munat_step n s (Client_connects l) = unix2inet_ssh_connect l
     (with_env (\<lambda>e. e\<lparr>chan_open := (chan_open e)(l := True), chan_tx := (chan_tx e)(l := [])\<rparr>) s)"
| "munat_step n s (Client_writes l buf) = unix2inet_ssh_rx_cb l buf s"
| "munat_step n s (Client_fails l) = unix2inet_ssh_err_cb l s"
| "munat_step n s (Path_breaks l) = free_unix2inet_conpath l s"
| "munat_step n s (Socket_readable l fd a) = tcp_rx_from_out l fd a s"
| "munat_step n s (Socket_timer l fd a) = timed_rx_from_out l fd a s"
| "munat_step n s (Socket_fails l) = tcp_err_from_out l s"
| "munat_step n s (Connect_timer i) = timer_connect_wait n i s"
| "munat_step n s (Wait_timer ti) = timeout_waiting_for_vmtx ti s"
| "munat_step n s (Free_timer ti) = timeout_free_ctx ti s"
| "munat_step n s (Arp_answer mac ip) = unix2inet_arp_resp mac ip s"

text \<open>What the environment has to keep to; each condition that can fail in the sources is a lemma
  or a property further down.\<close>

fun munat_legal :: "net \<Rightarrow> munat \<Rightarrow> munat_event \<Rightarrow> bool" where
  "munat_legal n s (Frame f) = (\<exists>p. tcp_packet2low f = Some p \<and>
     (\<forall>low. p = Some low \<longrightarrow> legal_low nat_addr (can_open n) can_answer low s))"
| "munat_legal n s Heartbeat = True"
| "munat_legal n s (Deferred fct) = nat_addr (local_addr (fct_tcpid fct))"
| "munat_legal n s (Ack_timer tid) = True"
| "munat_legal n s (Client_connects l) = (\<not> bad_llid l \<and> llid_to_ctx (env s) l = None)"
| "munat_legal n s (Client_writes l buf) = legal_line l buf s"
| "munat_legal n s (Client_fails l) = (\<not> bad_llid l)"
| "munat_legal n s (Path_breaks l) = (\<not> bad_llid l)"
| "munat_legal n s (Socket_readable l fd a) = (\<not> bad_llid l)"
| "munat_legal n s (Socket_timer l fd a) = (\<not> bad_llid l)"
| "munat_legal n s (Socket_fails l) = (\<not> bad_llid l)"
| "munat_legal n s (Connect_timer i) = legal_connect n i s"
| "munat_legal n s (Wait_timer ti) = legal_wait ti s"
| "munat_legal n s (Free_timer ti) = (\<not> bad_llid (ti_llid ti))"
| "munat_legal n s (Arp_answer mac ip) = legal_arp ip s"

fun legal_events :: "net \<Rightarrow> munat_event list \<Rightarrow> munat \<Rightarrow> bool" where
  "legal_events n [] s = True"
| "legal_events n (e # es) s = (munat_legal n s e \<and> (case munat_step n s e of None \<Rightarrow> True | Some t \<Rightarrow> legal_events n es t))"

lemma ssh_connect_ok:
  assumes "stack_inv P W s" and "\<not> bad_llid l" and "llid_to_ctx (env s) l = None"
  shows "ok P W s (unix2inet_ssh_connect l s)"
  using assms by (auto simp: unix2inet_ssh_connect_def find_ctx_def alloc_ctx_def kout_if_bind intro!: ok_some evolves_clos)

lemma munat_step_ok:
  assumes s: "stack_inv nat_addr W s" and W: "65535 \<le> W" "W + 2 < 2 ^ 30" and legal: "munat_legal n s e"
  shows "\<exists>t. munat_step n s e = Some t \<and> stack_inv nat_addr (W + 2) t"
proof -
  have W2: "W \<le> W + 2" "W < 2 ^ 30" using W by simp_all
  have same: "\<exists>t. m = Some t \<and> stack_inv nat_addr (W + 2) t" if "ok nat_addr W s m" for m
    using that stack_inv_mono [OF _ W2(1)] by (auto simp: ok_def)
  have two: "\<exists>t. m = Some t \<and> stack_inv nat_addr (W + 2) t" if "ok nat_addr (W + 2) s m" for m
    using that by (auto simp: ok_def)
  show ?thesis
  proof (cases e)
    case (Frame f)
    then obtain p where p: "tcp_packet2low f = Some p"
      "\<And>low. p = Some low \<Longrightarrow> legal_low nat_addr (can_open n) can_answer low s" using legal by auto
    from nat_layer.clo_low_input_ok [OF s W p] Frame two show ?thesis by simp
  next
    case Heartbeat
    with clo_heartbeat_timer_ok [OF s W(1) W2(2)] stack_inv_mono [OF _ W2(1)] show ?thesis by fastforce
  next
    case (Deferred fct)
    with nat_layer.timer_fct_call_ok [OF s W] legal two show ?thesis by simp
  next
    case (Ack_timer tid)
    with send_ack_cb_ok [OF s] same show ?thesis by simp
  next
    case (Client_connects l)
    let ?u = "with_env (\<lambda>e. e\<lparr>chan_open := (chan_open e)(l := True), chan_tx := (chan_tx e)(l := [])\<rparr>) s"
    have "ok nat_addr W ?u (unix2inet_ssh_connect l ?u)"
      by (rule ssh_connect_ok) (use s legal Client_connects in simp_all)
    then have "ok nat_addr W s (unix2inet_ssh_connect l ?u)" by (rule ok_from) simp
    with Client_connects same show ?thesis by simp
  next
    case (Client_writes l buf)
    with rx_cb_ok [OF s W(1) W2(2)] legal same show ?thesis by simp
  next
    case (Client_fails l)
    with free_ctx_ok [OF s] legal same show ?thesis by (simp add: unix2inet_ssh_err_cb_def)
  next
    case (Path_breaks l)
    with free_ctx_ok [OF s] legal same show ?thesis by (simp add: free_unix2inet_conpath_def)
  next
    case (Socket_readable l fd a)
    with tcp_rx_from_out_ok [OF s W(1) W2(2)] legal same show ?thesis by simp
  next
    case (Socket_timer l fd a)
    with timed_rx_ok [OF s W(1) W2(2)] legal same show ?thesis by simp
  next
    case (Socket_fails l)
    with fatal_err_ok [OF s] legal same show ?thesis by (simp add: tcp_err_from_out_def)
  next
    case (Connect_timer i)
    with timer_connect_wait_ok [OF s W] legal two show ?thesis by simp
  next
    case (Wait_timer ti)
    with timeout_waiting_ok [OF s] legal same show ?thesis by simp
  next
    case (Free_timer ti)
    with timeout_free_ok [OF s] legal same show ?thesis by simp
  next
    case (Arp_answer mac ip)
    with arp_resp_ok [OF s W] legal two show ?thesis by simp
  qed
qed


text \<open>The state after \<open>main\<close> has initialised the parts.\<close>

definition nat_env_init :: "string \<Rightarrow> nat_env" where
  "nat_env_init dns = \<lparr>chan_open = (\<lambda>_. False), chan_tx = (\<lambda>_. []), chan_stopped = (\<lambda>_. False),
     nat_wheel = clownix_timer_init, llid_to_ctx = (\<lambda>_. None), waiting_for_arp_reply = [], waiting_for_syn_ack = [],
     head_ctx = [], next_ctx = 0, sock_count = 0, closed_fds = [], rx_timers = [], boot = init_bootp,
     socks = (\<lambda>_. None), next_sock = 0, llid_to_socket = (\<lambda>_. None), udp_ident = 0, udp_out = [],
     g_resolv_dns_ip = dns, app_msgs = []\<rparr>"

definition munat_init :: "string \<Rightarrow> munat" where
  "munat_init dns = clo_init (nat_env_init dns)"

lemma clo_init_inv: "stack_inv P W (clo_init e)"
  by (simp add: clo_init_def clo_mngt_init_def TCP_MAX_SIZE_def stack_inv_def tables_inv_def tables_parts key_at_def llid_at_def)

definition demo_net :: net where
  "demo_net = \<lparr>socket_fd = (\<lambda>i. 10 + int i), connect_state = (\<lambda>fd c. Not_writable), bind_ok = (\<lambda>_. True),
     watch_llid = (\<lambda>fd. fd + 1)\<rparr>"


end
