(* ===== verification/Nat_Answers.thy ===== *)
theory Nat_Answers
  imports Nat_Packets Nat_Run
begin

text \<open>
  The answers that munat gives to the frames of a machine by itself: ARP and ICMP echo.
\<close>

section \<open>ARP\<close>

lemma our_mac_of_tip:
  assumes "tip = ip_text a b c d"
  shows "our_mac_of tip \<noteq> None \<longleftrightarrow> is_our_ip tip"
  by (auto simp: our_mac_of_def is_our_ip_def)

lemma our_mac_length: "our_mac_of ip = Some m \<Longrightarrow> length m = 6"
  by (auto simp: our_mac_of_def OUR_MAC_GW_def OUR_MAC_DNS_def OUR_MAC_CISCO_def split: if_splits)

lemma list6: "length xs = 6 \<Longrightarrow> \<exists>a b c d e f. xs = [a, b, c, d, e, f]"
  by (auto simp: numeral_eq_Suc length_Suc_conv)

lemma arp_answer_fields:
  assumes "length mac = 6" and "length m = 6"
  shows "get_proto 42 (mac @ m @ arp_head 0x02 @ m @ [a, b, c, d] @ mac @ [e, f, g, h]) = Some proto_arp_resp"
    and "get_dst_mac (mac @ m @ arp_head 0x02 @ m @ [a, b, c, d] @ mac @ [e, f, g, h]) = Some mac"
    and "get_src_mac (mac @ m @ arp_head 0x02 @ m @ [a, b, c, d] @ mac @ [e, f, g, h]) = Some m"
    and "get_arp_sip (mac @ m @ arp_head 0x02 @ m @ [a, b, c, d] @ mac @ [e, f, g, h]) = Some (ip_text a b c d)"
    and "get_arp_tip (mac @ m @ arp_head 0x02 @ m @ [a, b, c, d] @ mac @ [e, f, g, h]) = Some (ip_text e f g h)"
  using list6 [OF assms(1)] list6 [OF assms(2)]
  by (auto simp: get_proto_def get_dst_mac_def get_src_mac_def get_arp_sip_def get_arp_tip_def arp_head_def peek_def
      MAC_HEADER_def kout_if_bind)

text \<open>C18: an ARP request that a machine broadcasts is answered if and only if it asks for one of the
  three addresses of munat. The answer is one frame, addressed to the machine; read back it is an ARP
  answer of the MAC address that stands for the address asked for, and names the machine's own
  addresses. For any other address nothing changes.
\<close>
theorem arp_request_answered:
  assumes "get_proto (length data) data = Some proto_arp_req" and "42 \<le> length data" and "data ! 0 AND 1 \<noteq> 0"
    and "get_arp_tip data = Some tip" and "get_arp_sip data = Some sip" and "get_src_mac data = Some mac"
  shows "case our_mac_of tip of
      None \<Rightarrow> packet_input_from_slirptux n (length data) data s = Some s
    | Some m \<Rightarrow> \<exists>f. packet_input_from_slirptux n (length data) data s = Some (s\<lparr>low_out := low_out s @ [f]\<rparr>) \<and>
        length f = 42 \<and> get_proto 42 f = Some proto_arp_resp \<and> get_dst_mac f = Some mac \<and> get_src_mac f = Some m \<and>
        get_arp_sip f = Some tip \<and> get_arp_tip f = Some sip"
proof -
  obtain dst where dst: "get_dst_mac data = Some dst" using assms(2) by (simp add: get_dst_mac_def kout_if_bind)
  have mac: "length mac = 6" using assms(2,6) by (auto simp: get_src_mac_def kout_if_bind)
  obtain a b c d where tip: "tip = ip_text a b c d" using assms(2,4) by (auto simp: get_arp_tip_def kout_if_bind)
  obtain e f g h where sip: "sip = ip_text e f g h" using assms(2,5) by (auto simp: get_arp_sip_def kout_if_bind)
  have run: "packet_input_from_slirptux n (length data) data s = unix2inet_or_gw_or_dns_arp_arrival data mac s"
    using assms(1,3,6) dst by (simp add: packet_input_from_slirptux_def)
  have arr: "unix2inet_or_gw_or_dns_arp_arrival data mac s =
      (if is_our_ip tip then format_arp_resp mac sip tip \<bind> (\<lambda>f. Some (packet_output_to_slirptux f s)) else Some s)"
    using assms(4,5) by (simp add: unix2inet_or_gw_or_dns_arp_arrival_def)
  show ?thesis
  proof (cases "our_mac_of tip")
    case None
    then show ?thesis using our_mac_of_tip [OF tip] run arr by simp
  next
    case (Some m)
    have m: "length m = 6" by (rule our_mac_length [OF Some])
    let ?f = "mac @ m @ arp_head 0x02 @ m @ [a, b, c, d] @ mac @ [e, f, g, h]"
    have "packet_input_from_slirptux n (length data) data s = Some (s\<lparr>low_out := low_out s @ [?f]\<rparr>)"
      using arp_resp_shape [OF mac Some tip sip] our_mac_of_tip [OF tip] Some run arr
      by (simp add: packet_output_to_slirptux_def)
    moreover have "length ?f = 42" using mac m by (simp add: arp_head_def)
    ultimately show ?thesis using arp_answer_fields [OF mac m, of a b c d e f g h] tip sip Some by auto
  qed
qed

definition demo_arp :: "u8 list" where
  "demo_arp = replicate 6 0xFF @ [2, 0, 0, 0, 0, 1] @ arp_head 0x01 @ [2, 0, 0, 0, 0, 1] @ [172, 17, 0, 9] @ replicate 6 0 @ [172, 17, 0, 2]"

theorem arp_request_answered_witness:
  "\<exists>f. packet_input_from_slirptux demo_net 42 demo_arp (munat_init ''8.8.8.8'') =
     Some ((munat_init ''8.8.8.8'')\<lparr>low_out := low_out (munat_init ''8.8.8.8'') @ [f]\<rparr>) \<and>
     length f = 42 \<and> get_dst_mac f = Some [2, 0, 0, 0, 0, 1] \<and> get_src_mac f = Some OUR_MAC_GW \<and> get_arp_sip f = Some ''172.17.0.2''"
proof -
  have "length demo_arp = 42" by (simp add: demo_arp_def arp_head_def)
  moreover have "get_proto 42 demo_arp = Some proto_arp_req" "demo_arp ! 0 AND 1 \<noteq> 0" "get_arp_tip demo_arp = Some get_gw_ip"
    "get_arp_sip demo_arp = Some ''172.17.0.9''" "get_src_mac demo_arp = Some [2, 0, 0, 0, 0, 1]" by code_simp+
  moreover have "our_mac_of get_gw_ip = Some OUR_MAC_GW" by (simp add: our_mac_of_def)
  ultimately show ?thesis
    using arp_request_answered [of demo_arp get_gw_ip "''172.17.0.9''" "[2, 0, 0, 0, 0, 1]" demo_net "munat_init ''8.8.8.8''"]
    by (auto simp: get_gw_ip_def)
qed

section \<open>Echo\<close>

lemma sum_le_icmp_reply:
  "sum_le (icmp_reply_with c data) = sum_le (icmp_reply_with 0 data) + uint c"
proof -
  have "byte16 0 0 = 0" "byte16 1 0 = 0" by (simp_all add: byte16_def)
  then show ?thesis using uint_bytes16 [of c] by (simp add: icmp_reply_with_def)
qed

lemma sum_le_frame: "length xs \<le> 65535 \<Longrightarrow> 2 * sum_le xs \<le> 65535 * 65536"
proof -
  assume "length xs \<le> 65535"
  then have "65535 * (int (length xs) + 1) \<le> 65535 * 65536" by (intro mult_left_mono) simp_all
  then show ?thesis by (rule order_trans [OF sum_le_bound])
qed

lemma icmp_reply_checksum:
  assumes "4 \<le> length data" and "length data \<le> 65535"
  shows "in_cksum (icmp_reply_with (utils_in_cksum (icmp_reply_with 0 data)) data) = 0"
proof -
  let ?h = "icmp_reply_with 0 data"
  have len: "length ?h = length data" "length (icmp_reply_with c data) = length data" for c
    using assms(1) by (simp_all add: icmp_reply_with_def)
  have eq: "utils_in_cksum ?h = in_cksum ?h" using assms(2) len by (intro utils_in_cksum_eq) simp
  have bound: "2 * sum_le (icmp_reply_with c data) \<le> 65535 * 65536" for c
    by (rule sum_le_frame) (simp only: len assms(2))
  show ?thesis
  proof (cases "sum_le ?h = 0")
    case True
    then have "in_cksum ?h = 0xFFFF" by (simp add: in_cksum_def Let_def)
    then have "sum_le (icmp_reply_with (utils_in_cksum ?h) data) = 65535"
      using sum_le_icmp_reply [of "utils_in_cksum ?h" data] True eq by simp
    then show ?thesis by (simp add: in_cksum_def Let_def)
  next
    case False
    have "0 < sum_le ?h" using False sum_le_nonneg [of ?h] by linarith
    moreover have "sum_le ?h < 2 ^ 31" using bound [of 0] by simp
    moreover have "sum_le (icmp_reply_with (utils_in_cksum ?h) data) = sum_le ?h + uint (in_cksum ?h)"
      by (subst sum_le_icmp_reply) (simp add: eq)
    moreover have "sum_le (icmp_reply_with (utils_in_cksum ?h) data) < 2 ^ 32"
      using bound [of "utils_in_cksum ?h"] by simp
    ultimately show ?thesis by (rule cksum_filled)
  qed
qed

lemma our_ip_mac: "is_our_ip ip \<Longrightarrow> \<exists>m. our_mac_of ip = Some m \<and> length m = 6"
  by (auto simp: is_our_ip_def our_mac_of_def OUR_MAC_GW_def OUR_MAC_DNS_def OUR_MAC_CISCO_def)

text \<open>A header that is filled in shows its two addresses and is accepted with its data.\<close>

lemma filled_header:
  fixes p :: u8
  assumes ips: "ip_string_to_int sip = Some (be32 a b c d)" "ip_string_to_int dip = Some (be32 e f g h)"
  obtains hd where "fill_ip_ip_header len sip dip p ident = Some (hd, ident + 1)"
    and "length hd = 20" and "hd ! 9 = p" and "take 4 (drop 12 hd) = [a, b, c, d]" and "take 4 (drop 16 hd) = [e, f, g, h]"
    and "\<And>data. len = 20 + int (length data) \<Longrightarrow> data \<noteq> [] \<Longrightarrow> len \<le> 65535 \<Longrightarrow> tst_ip_input (hd @ data) = Some (Some len)"
proof -
  define hd where "hd = ip_ip_header_with (utils_in_cksum (ip_ip_header_with 0 (ident + 1) len (be32 a b c d) (be32 e f g h) p))
      (ident + 1) len (be32 a b c d) (be32 e f g h) p"
  have fill: "fill_ip_ip_header len sip dip p ident = Some (hd, ident + 1)"
    using ips by (simp add: fill_ip_ip_header_def hd_def Let_def)
  show ?thesis
    by (rule that [OF fill])
      (use fill_ip_ip_header_accepted [OF fill] in \<open>simp_all add: hd_def ip_ip_header_with_def bytes32_be32 bytes16_def\<close>)
qed

text \<open>C19: an ICMP echo request with a right checksum for one of the addresses of munat is answered by
  one frame for the machine. Read as munat reads frames itself, the answer has a right IP header with the same
  length and the addresses exchanged; its message has a right checksum too, is of type 0, and repeats the
  identifier, the sequence number and the data of the request.
\<close>
theorem echo_request_answered:
  assumes "tst_ip_input (drop 14 f) = Some (Some len)" and "f ! 23 = IPPROTO_ICMP" and "length src_mac = 6"
    and "is_our_ip (ip_text (f ! 30) (f ! 31) (f ! 32) (f ! 33))"
    and "msg = take (nat len - 20) (drop 34 f)" and "utils_in_cksum msg = 0" and "msg ! 0 = ICMP_ECHO" and "4 \<le> length msg"
  shows "\<exists>t r. packet_ip_input n name src_mac (length f) f s = Some t \<and> low_out t = low_out s @ [r] \<and>
     length r = 14 + nat len \<and> get_dst_mac r = Some src_mac \<and> tst_ip_input (drop 14 r) = Some (Some len) \<and> r ! 23 = IPPROTO_ICMP \<and>
     take 4 (drop 26 r) = take 4 (drop 30 f) \<and> take 4 (drop 30 r) = take 4 (drop 26 f) \<and>
     in_cksum (drop 34 r) = 0 \<and> r ! 34 = 0 \<and> drop 38 r = drop 4 msg"
proof -
  let ?sip = "ip_text (f ! 26) (f ! 27) (f ! 28) (f ! 29)" and ?dip = "ip_text (f ! 30) (f ! 31) (f ! 32) (f ! 33)"
  let ?s = "with_machine name (\<lambda>m. m\<lparr>tot_rx_pkt := tot_rx_pkt m + 1\<rparr>) s"
  have tst: "20 < length (drop 14 f)" "len = 256 * uint (drop 14 f ! 2) + uint (drop 14 f ! 3)" "len \<le> int (length (drop 14 f))"
    using tst_ip_inputD [OF assms(1)] by simp_all
  have len: "len \<le> 65535" using tst(2) uint_u8 [of "drop 14 f ! 2"] uint_u8 [of "drop 14 f ! 3"] by linarith
  have msg: "length msg = nat len - 20" using tst(3) assms(5) by simp
  then have len20: "24 \<le> len" using assms(8) by linarith
  then have total: "nat (len - 20) = length msg" "len = 20 + int (length msg)" "length msg \<le> 65535" using msg len by linarith+
  obtain m where m: "our_mac_of ?dip = Some m" "length m = 6" using our_ip_mac [OF assms(4)] by blast
  define icmp where "icmp = icmp_reply_with (utils_in_cksum (icmp_reply_with 0 msg)) msg"
  have icmp: "length icmp = length msg" "in_cksum icmp = 0" "icmp \<noteq> []" "icmp ! 0 = 0" "drop 4 icmp = drop 4 msg"
    using icmp_reply_checksum [OF assms(8) total(3)] assms(8) by (simp_all add: icmp_def icmp_reply_with_def)
  obtain iph where iph: "fill_ip_ip_header len ?dip ?sip IPPROTO_ICMP (udp_ident (env ?s)) = Some (iph, udp_ident (env ?s) + 1)"
    "length iph = 20" "iph ! 9 = IPPROTO_ICMP" "take 4 (drop 12 iph) = [f ! 30, f ! 31, f ! 32, f ! 33]"
    "take 4 (drop 16 iph) = [f ! 26, f ! 27, f ! 28, f ! 29]"
    "\<And>data. len = 20 + int (length data) \<Longrightarrow> data \<noteq> [] \<Longrightarrow> len \<le> 65535 \<Longrightarrow> tst_ip_input (iph @ data) = Some (Some len)"
    using filled_header [OF ip_text_be32 ip_text_be32] by blast
  have hdr: "tst_ip_input (iph @ icmp) = Some (Some len)" by (rule iph(6)) (use total(2) icmp len in simp_all)
  let ?r = "src_mac @ m @ [0x08, 0x00] @ iph @ icmp"
  let ?t = "packet_output_to_slirptux ?r (with_env (\<lambda>e. e\<lparr>udp_ident := udp_ident (env ?s) + 1\<rparr>) ?s)"
  have whole: "take (length f - 14) (drop 14 f) = drop 14 f" by simp
  have nths: "drop 14 f ! 9 = f ! 23" "drop 14 f ! 12 = f ! 26" "drop 14 f ! 13 = f ! 27" "drop 14 f ! 14 = f ! 28" "drop 14 f ! 15 = f ! 29"
    "drop 14 f ! 16 = f ! 30" "drop 14 f ! 17 = f ! 31" "drop 14 f ! 18 = f ! 32" "drop 14 f ! 19 = f ! 33"
    using tst(1) by (simp_all add: nth_drop)
  have long: "\<not> length f \<le> 34" using tst(1) by simp
  have first: "peek (drop 34 f) 0 = Some ICMP_ECHO" and take: "take (nat (len - 20)) (drop 34 f) = msg"
    using assms(5,7,8) total(1) msg by (auto simp: peek_def)
  have fits: "\<not> int (length (drop 34 f)) < len - 20" using tst(3) by simp
  have reply: "packet_icmp_echoreply src_mac ?sip ?dip msg ?s = Some ?t"
    using iph(1) m(1) assms(8) total(2) by (simp add: packet_icmp_echoreply_def Let_def kout_if_bind fill_mac_ip_header_def icmp_def IP_HEADER_def)
  have "packet_ip_input n name src_mac (length f) f s = packet_icmp_input src_mac ?sip ?dip (len - 20) (drop 34 f) ?s"
    using long assms(1,2) whole unfolding packet_ip_input_def MAC_HEADER_def IP_HEADER_def
    by (simp add: kout_if_bind nths Let_def)
  also have "\<dots> = Some ?t"
    using fits assms(4,6) first take reply by (simp add: packet_icmp_input_def kout_if_bind Let_def)
  finally have run: "packet_ip_input n name src_mac (length f) f s = Some ?t" .
  have d: "drop 14 ?r = iph @ icmp" "drop 34 ?r = icmp" "drop 38 ?r = drop 4 icmp" "?r ! 23 = iph ! 9" "?r ! 34 = icmp ! 0"
    "take 4 (drop 26 ?r) = take 4 (drop 12 iph)" "take 4 (drop 30 ?r) = take 4 (drop 16 iph)"
    using assms(3) m(2) iph(2) by (simp_all add: nth_append)
  have four: "take 4 (drop k f) = [f ! k, f ! (k + 1), f ! (k + 2), f ! (k + 3)]" if "k + 3 < length f" for k
    using that by (simp add: take_Suc_conv_app_nth numeral_eq_Suc flip: Cons_nth_drop_Suc)
  have addr: "take 4 (drop 26 ?r) = take 4 (drop 30 f)" "take 4 (drop 30 ?r) = take 4 (drop 26 f)"
    using tst(1) four [of 26] four [of 30] unfolding d by (simp_all add: iph)
  have "length ?r = 14 + nat len" "get_dst_mac ?r = Some src_mac"
    using assms(3) m(2) iph(2) icmp(1) total len20 by (simp_all add: get_dst_mac_def kout_if_bind nat_add_distrib)
  moreover have "low_out ?t = low_out s @ [?r]" by (simp add: packet_output_to_slirptux_def with_env_def with_machine_def)
  ultimately show ?thesis using run d iph(3) hdr addr icmp by (intro exI [of _ ?t] exI [of _ ?r]) simp
qed

definition demo_ping :: "u8 list" where
  "demo_ping = OUR_MAC_GW @ [2, 0, 0, 0, 0, 1, 0x08, 0x00] @
     [0x45, 0, 0, 30, 0, 1, 0x40, 0, 0x40, 1, 0xE2, 0xB0, 172, 17, 0, 9, 172, 17, 0, 2] @
     [8, 0, 0x74, 0x3B, 0x12, 0x34, 0, 1, 0x71, 0x8F]"

theorem echo_request_answered_witness:
  "\<exists>t r. packet_ip_input demo_net ''vm'' [2, 0, 0, 0, 0, 1] 44 demo_ping (munat_init ''8.8.8.8'') = Some t \<and>
     low_out t = [r] \<and> length r = 44 \<and> tst_ip_input (drop 14 r) = Some (Some 30) \<and> drop 38 r = [0x12, 0x34, 0, 1, 0x71, 0x8F]"
proof -
  let ?msg = "[8, 0, 0x74, 0x3B, 0x12, 0x34, 0, 1, 0x71, 0x8F] :: u8 list"
  have len: "length demo_ping = 44" by (simp add: demo_ping_def OUR_MAC_GW_def)
  have out: "low_out (munat_init ''8.8.8.8'') = []" by (simp add: munat_init_def clo_init_def clo_mngt_init_def)
  have a: "tst_ip_input (drop 14 demo_ping) = Some (Some 30)" by code_simp
  have b: "demo_ping ! 23 = IPPROTO_ICMP" by code_simp
  have c: "length [2, 0, 0, 0, 0, 1 :: u8] = 6" by simp
  have d: "is_our_ip (ip_text (demo_ping ! 30) (demo_ping ! 31) (demo_ping ! 32) (demo_ping ! 33))" by code_simp
  have e: "?msg = take (nat 30 - 20) (drop 34 demo_ping)" by code_simp
  have f: "utils_in_cksum ?msg = 0" by code_simp
  have g: "?msg ! 0 = ICMP_ECHO" "4 \<le> length ?msg" by (simp_all add: ICMP_ECHO_def)
  have h: "14 + nat 30 = (44 :: nat)" "drop 4 ?msg = [0x12, 0x34, 0, 1, 0x71, 0x8F]" by simp_all
  from echo_request_answered [OF a b c d e f g, of demo_net "''vm''" "munat_init ''8.8.8.8''"]
  show ?thesis unfolding len out h append_Nil by blast
qed

end
