(* ===== verification/Nat_Sockets.thy ===== *)
theory Nat_Sockets
  imports Nat_Answers
begin

text \<open>
  The UDP sockets of a machine are found by a hash of their addresses and ports. The tables of
  \<open>machine.c\<close> stay consistent, the search is the interface of the other lookup tables, and a
  datagram that comes back reaches the machine and the port that sent the first one.
\<close>

section \<open>The hash\<close>

type_synonym sock_key = "u32 \<times> u32 \<times> u16 \<times> u16"

definition sock_key :: "t_machine_sock \<Rightarrow> sock_key" where
  "sock_key ms = (ms_lip_int ms, ms_fip_int ms, ms_lport ms, ms_fport ms)"

definition key_idx :: "sock_key \<Rightarrow> int run" where
  "key_idx k = (case k of (lip, fip, lport, fport) \<Rightarrow> sock_hash lip fip lport fport)"

lemma same_sock_key: "same_sock lip fip lport fport ms \<longleftrightarrow> sock_key ms = (lip, fip, lport, fport)"
  by (auto simp: same_sock_def sock_key_def)

lemma sock_hash_total: "\<exists>idx. sock_hash lip fip lport fport = Some idx"
proof -
  obtain h :: u8 where h: "sock_hash lip fip lport fport =
      (let result = uint h + 1 in kout_if (result \<le> 0 \<or> MAX_SOCK_HASH_IDX \<le> result) \<bind> (\<lambda>_. Some result))"
    by (auto simp: sock_hash_def Let_def)
  have "\<not> (uint h + 1 \<le> 0 \<or> MAX_SOCK_HASH_IDX \<le> uint h + 1)"
    using uint_u8 [of h] unfolding MAX_SOCK_HASH_IDX_def by linarith
  then show ?thesis using h by (simp only: Let_def kout_if_bind if_False) blast
qed

lemma key_idx_total: "\<exists>idx. key_idx k = Some idx"
  using sock_hash_total by (cases k) (simp add: key_idx_def)

section \<open>The tables\<close>

definition machine_socks_ok :: "(nat \<Rightarrow> t_machine_sock option) \<Rightarrow> t_machine \<Rightarrow> bool" where
  "machine_socks_ok heap m \<longleftrightarrow> distinct (head_udp m) \<and>
     (\<forall>i \<in> set (head_udp m). \<exists>ms. heap i = Some ms \<and> ms_machine ms = ma_name m) \<and>
     (\<forall>idx. distinct (hash_head m idx) \<and> (\<forall>i. i \<in> set (hash_head m idx) \<longleftrightarrow>
        i \<in> set (head_udp m) \<and> (\<exists>ms. heap i = Some ms \<and> key_idx (sock_key ms) = Some idx))) \<and>
     (\<forall>i \<in> set (head_udp m). \<forall>j \<in> set (head_udp m).
        map_option sock_key (heap i) = map_option sock_key (heap j) \<longrightarrow> i = j)"

lemma machine_socks_okD:
  assumes "machine_socks_ok heap m"
  shows "distinct (head_udp m)" and "i \<in> set (head_udp m) \<Longrightarrow> \<exists>ms. heap i = Some ms \<and> ms_machine ms = ma_name m"
    and "distinct (hash_head m idx)"
    and "i \<in> set (hash_head m idx) \<longleftrightarrow> i \<in> set (head_udp m) \<and> (\<exists>ms. heap i = Some ms \<and> key_idx (sock_key ms) = Some idx)"
    and "i \<in> set (head_udp m) \<Longrightarrow> j \<in> set (head_udp m) \<Longrightarrow> map_option sock_key (heap i) = map_option sock_key (heap j) \<Longrightarrow> i = j"
  using assms unfolding machine_socks_ok_def by auto

definition udp_inv :: "munat \<Rightarrow> bool" where
  "udp_inv s \<longleftrightarrow> distinct (map ma_name (head_machine (boot (env s)))) \<and>
     (\<forall>m \<in> set (head_machine (boot (env s))). machine_socks_ok (socks (env s)) m) \<and>
     (\<forall>i. next_sock (env s) \<le> i \<longrightarrow> socks (env s) i = None)"

lemma sock_walk_found:
  assumes "\<forall>i \<in> set is. heap i \<noteq> None"
  shows "sock_walk heap P is = Some (find (\<lambda>i. \<exists>ms. heap i = Some ms \<and> P ms) is)"
  using assms by (induction "is") auto

text \<open>The search in one list of the hash is the search in the list of all sockets.\<close>

lemma fast_is_linear:
  assumes "machine_socks_ok (socks (env s)) m"
  shows "get_fast_sock m lip fip lport fport s =
    Some (find (\<lambda>i. map_option sock_key (socks (env s) i) = Some (lip, fip, lport, fport)) (head_udp m))"
proof -
  let ?k = "(lip, fip, lport, fport)" and ?heap = "socks (env s)"
  let ?P = "\<lambda>i. map_option sock_key (?heap i) = Some ?k"
  obtain idx where idx: "key_idx ?k = Some idx" using key_idx_total by blast
  note ok = machine_socks_okD [OF assms]
  have sets: "i \<in> set (hash_head m idx) \<longleftrightarrow> i \<in> set (head_udp m) \<and> (\<exists>ms. ?heap i = Some ms \<and> key_idx (sock_key ms) = Some idx)" for i
    by (rule ok(4))
  have live: "\<forall>i \<in> set (hash_head m idx). ?heap i \<noteq> None" using sets by auto
  have inj: "i = j" if "i \<in> set (head_udp m)" "j \<in> set (head_udp m)" "?P i" "?P j" for i j
    by (rule ok(5)) (use that in auto)
  have "get_fast_sock m lip fip lport fport s = Some (find (\<lambda>i. \<exists>ms. ?heap i = Some ms \<and> sock_key ms = ?k) (hash_head m idx))"
    using idx sock_walk_found [OF live] by (simp add: get_fast_sock_def key_idx_def same_sock_key)
  also have "(\<lambda>i. \<exists>ms. ?heap i = Some ms \<and> sock_key ms = ?k) = ?P" by auto
  also have "find ?P (hash_head m idx) = find ?P (head_udp m)"
  proof (cases "find ?P (head_udp m)")
    case None
    have "find ?P (hash_head m idx) = None"
      using None sets by (simp add: find_None_iff)
    with None show ?thesis by simp
  next
    case (Some i)
    have i: "i \<in> set (head_udp m)" "?P i" using find_SomeD [OF Some] by simp_all
    have "i \<in> set (hash_head m idx)" using i idx sets by auto
    from find_Some_ex [of i, OF this, of ?P] i(2) obtain j where j: "find ?P (hash_head m idx) = Some j" by blast
    have "j \<in> set (head_udp m)" "?P j" using find_SomeD [OF j] sets by simp_all
    then have "j = i" using i by (intro inj)
    with Some j show ?thesis by simp
  qed
  finally show ?thesis .
qed

section \<open>Updates of one machine\<close>

lemma set_replace_first_key:
  "distinct (map g xs) \<Longrightarrow> set (replace_first (\<lambda>x. g x = k) f xs) = (\<lambda>x. if g x = k then f x else x) ` set xs"
proof (induction xs)
  case (Cons x xs)
  show ?case
  proof (cases "g x = k")
    case True
    then have "\<forall>y \<in> set xs. g y \<noteq> k" using Cons.prems by (auto, metis image_eqI)
    then have "(\<lambda>x. if g x = k then f x else x) ` set xs = (\<lambda>x. x) ` set xs" by (intro image_cong) auto
    with True show ?thesis by simp
  next
    case False
    with Cons show ?thesis by simp
  qed
qed simp

lemma find_replace_first:
  assumes "\<And>x. P x \<Longrightarrow> P (f x)"
  shows "find P (replace_first P f xs) = map_option f (find P xs)"
  using assms by (induction xs) auto

lemma replace_first_twice:
  assumes "\<And>x. P x \<Longrightarrow> P (f x)"
  shows "replace_first P g (replace_first P f xs) = replace_first P (\<lambda>x. g (f x)) xs"
  using assms by (induction xs) auto

lemma upd_machine_twice:
  assumes "\<And>m. ma_name (f m) = ma_name m"
  shows "upd_machine name g (upd_machine name f b) = upd_machine name (\<lambda>m. g (f m)) b"
  using assms by (simp add: upd_machine_def replace_first_twice)

lemma machine_socks_ok_cong:
  assumes "\<And>i. i \<in> set (head_udp m) \<Longrightarrow> heap' i = heap i"
  shows "machine_socks_ok heap' m \<longleftrightarrow> machine_socks_ok heap m"
proof -
  have "(i \<in> set (head_udp m) \<and> (\<exists>ms. heap' i = Some ms \<and> key_idx (sock_key ms) = Some idx)) \<longleftrightarrow>
      (i \<in> set (head_udp m) \<and> (\<exists>ms. heap i = Some ms \<and> key_idx (sock_key ms) = Some idx))" for i idx
    using assms by auto
  with assms show ?thesis unfolding machine_socks_ok_def by (simp cong: ball_cong)
qed

lemma get_machineD:
  assumes "udp_inv s" and "get_machine name s = Some m"
  shows "ma_name m = name" and "m \<in> set (head_machine (boot (env s)))" and "machine_socks_ok (socks (env s)) m"
proof -
  have "m \<in> set (head_machine (boot (env s))) \<and> ma_name m = name"
    using assms(2) unfolding get_machine_def look_for_machine_with_name_def by (rule find_SomeD)
  then show "ma_name m = name" "m \<in> set (head_machine (boot (env s)))" "machine_socks_ok (socks (env s)) m"
    using assms(1) by (simp_all add: udp_inv_def)
qed

lemma machine_update_inv:
  assumes s: "udp_inv s" and b: "head_machine (boot (env t)) = head_machine (upd_machine name f (boot (env s)))"
    and keep: "\<And>m. ma_name (f m) = ma_name m"
    and this_one: "\<And>m. get_machine name s = Some m \<Longrightarrow> machine_socks_ok (socks (env t)) (f m)"
    and others: "\<And>m i. m \<in> set (head_machine (boot (env s))) \<Longrightarrow> ma_name m \<noteq> name \<Longrightarrow> i \<in> set (head_udp m) \<Longrightarrow>
      socks (env t) i = socks (env s) i"
    and fresh: "\<And>i. next_sock (env t) \<le> i \<Longrightarrow> socks (env t) i = None"
  shows "udp_inv t"
proof -
  let ?ms = "head_machine (boot (env s))"
  have d: "distinct (map ma_name ?ms)" and ok: "\<And>m. m \<in> set ?ms \<Longrightarrow> machine_socks_ok (socks (env s)) m"
    using s by (auto simp: udp_inv_def)
  have ms: "head_machine (boot (env t)) = replace_first (\<lambda>m. ma_name m = name) f ?ms" by (simp add: b upd_machine_def)
  have set: "set (head_machine (boot (env t))) = (\<lambda>m. if ma_name m = name then f m else m) ` set ?ms"
    unfolding ms by (rule set_replace_first_key [OF d])
  have each: "machine_socks_ok (socks (env t)) (if ma_name m = name then f m else m)" if m: "m \<in> set ?ms" for m
  proof (cases "ma_name m = name")
    case True
    have "get_machine name s = Some m"
      using find_key_unique [OF d m] True by (simp add: get_machine_def look_for_machine_with_name_def)
    with True this_one show ?thesis by simp
  next
    case False
    have "machine_socks_ok (socks (env t)) m \<longleftrightarrow> machine_socks_ok (socks (env s)) m"
      by (rule machine_socks_ok_cong) (rule others [OF m False])
    with False ok [OF m] show ?thesis by simp
  qed
  have "machine_socks_ok (socks (env t)) m" if "m \<in> set (head_machine (boot (env t)))" for m
    using that each unfolding set by (elim imageE) (simp del: if_split)
  moreover have "map ma_name (head_machine (boot (env t))) = map ma_name ?ms"
    unfolding ms by (rule map_replace_first) (rule keep)
  ultimately show ?thesis using d fresh unfolding udp_inv_def by simp
qed

section \<open>A new socket\<close>

definition plug_sock :: "nat \<Rightarrow> int \<Rightarrow> t_machine \<Rightarrow> t_machine" where
  "plug_sock i idx m = m\<lparr>hash_head := (hash_head m)(idx := i # hash_head m idx), head_udp := i # head_udp m\<rparr>"

definition new_sock :: "string \<Rightarrow> string \<Rightarrow> u32 \<Rightarrow> u16 \<Rightarrow> string \<Rightarrow> u32 \<Rightarrow> u16 \<Rightarrow> int \<Rightarrow> int \<Rightarrow> t_machine_sock" where
  "new_sock name lip lip_int lport fip fip_int fport l fd = \<lparr>ms_lip = take (MAX_NAME_LEN - 1) lip, ms_lip_int = lip_int,
     ms_lport = lport, ms_fip = take (MAX_NAME_LEN - 1) fip, ms_fip_int = fip_int, ms_fport = fport, ms_llid = l, ms_fd = fd,
     timer_killer_abs_beat = 0, timer_killer_ref = 0, ms_machine = name\<rparr>"

lemma alloc_machine_sock_eq:
  assumes "ip_string_to_int lip = Some a" and "ip_string_to_int fip = Some b" and "sock_hash a b lport fport = Some idx"
  shows "alloc_machine_sock name lip lport fip fport l fd s = Some (next_sock (env s),
    with_env (\<lambda>e. e\<lparr>socks := (socks e)(next_sock e \<mapsto> new_sock name lip a lport fip b fport l fd), next_sock := Suc (next_sock e),
      boot := upd_machine name (plug_sock (next_sock e) idx) (boot e)\<rparr>) s)"
  using assms by (simp add: alloc_machine_sock_def create_fast_sock_def get_sock_def set_sock_def with_machine_def with_env_def
      upd_machine_twice plug_sock_def [abs_def] new_sock_def Let_def)

lemma plug_sock_ok:
  assumes m: "machine_socks_ok heap m" and fresh: "heap i = None" and idx: "key_idx (sock_key ms) = Some idx"
    and name: "ms_machine ms = ma_name m" and new: "\<And>j. j \<in> set (head_udp m) \<Longrightarrow> map_option sock_key (heap j) \<noteq> Some (sock_key ms)"
  shows "machine_socks_ok (heap(i \<mapsto> ms)) (plug_sock i idx m)"
proof -
  note ok = machine_socks_okD [OF m]
  have out: "i \<notin> set (head_udp m)" using ok(2) [of i] fresh by auto
  have hash: "i \<notin> set (hash_head m j)" for j using ok(4) [of i j] out by simp
  have "distinct (hash_head (plug_sock i idx m) j) \<and> (\<forall>r. r \<in> set (hash_head (plug_sock i idx m) j) \<longleftrightarrow>
      r \<in> set (head_udp (plug_sock i idx m)) \<and> (\<exists>ms'. (heap(i \<mapsto> ms)) r = Some ms' \<and> key_idx (sock_key ms') = Some j))" for j
    using ok(3,4) hash out idx by (auto simp: plug_sock_def)
  moreover have "distinct (head_udp (plug_sock i idx m))" using ok(1) out by (simp add: plug_sock_def)
  moreover have "\<exists>ms'. (heap(i \<mapsto> ms)) j = Some ms' \<and> ms_machine ms' = ma_name (plug_sock i idx m)"
    if "j \<in> set (head_udp (plug_sock i idx m))" for j
    using that ok(2) [of j] name by (auto simp: plug_sock_def)
  moreover have "r = j" if "r \<in> set (head_udp (plug_sock i idx m))" "j \<in> set (head_udp (plug_sock i idx m))"
    "map_option sock_key ((heap(i \<mapsto> ms)) r) = map_option sock_key ((heap(i \<mapsto> ms)) j)" for r j
  proof (cases "r = i \<or> j = i")
    case True
    with that new [of r] new [of j] out show ?thesis
      by (auto simp: plug_sock_def eq_commute [of "Some _" "map_option _ _"] split: if_splits)
  next
    case False
    with that have "r \<in> set (head_udp m)" "j \<in> set (head_udp m)" "map_option sock_key (heap r) = map_option sock_key (heap j)"
      by (simp_all add: plug_sock_def)
    then show ?thesis by (rule ok(5))
  qed
  ultimately show ?thesis unfolding machine_socks_ok_def by blast
qed

lemma alloc_machine_sock_ok:
  assumes s: "udp_inv s" and m: "get_machine name s = Some m"
    and ips: "ip_string_to_int lip = Some a" "ip_string_to_int fip = Some b"
    and new: "\<And>j. j \<in> set (head_udp m) \<Longrightarrow> map_option sock_key (socks (env s) j) \<noteq> Some (a, b, lport, fport)"
    and res: "alloc_machine_sock name lip lport fip fport l fd s = Some (i, t)"
  shows "udp_inv t \<and> i = next_sock (env s) \<and> socks (env t) = (socks (env s))(i \<mapsto> new_sock name lip a lport fip b fport l fd)"
proof -
  let ?ms = "new_sock name lip a lport fip b fport l fd"
  obtain idx where idx: "sock_hash a b lport fport = Some idx" using sock_hash_total by blast
  let ?t = "with_env (\<lambda>e. e\<lparr>socks := (socks e)(next_sock e \<mapsto> ?ms), next_sock := Suc (next_sock e),
      boot := upd_machine name (plug_sock (next_sock e) idx) (boot e)\<rparr>) s"
  have t: "i = next_sock (env s)" "t = ?t" using res alloc_machine_sock_eq [OF ips idx] by auto
  have key: "sock_key ?ms = (a, b, lport, fport)" by (simp add: new_sock_def sock_key_def)
  have fresh: "socks (env s) (next_sock (env s)) = None" using s by (simp add: udp_inv_def)
  have name: "ma_name m = name" and ok: "machine_socks_ok (socks (env s)) m" using get_machineD [OF s m] by simp_all
  have used: "i \<noteq> next_sock (env s)" if "m' \<in> set (head_machine (boot (env s)))" "i \<in> set (head_udp m')" for m' i
    using machine_socks_okD(2) [of "socks (env s)" m' i] s that fresh by (auto simp: udp_inv_def)
  have socks: "socks (env ?t) = (socks (env s))(next_sock (env s) \<mapsto> ?ms)" "next_sock (env ?t) = Suc (next_sock (env s))"
    "head_machine (boot (env ?t)) = head_machine (upd_machine name (plug_sock (next_sock (env s)) idx) (boot (env s)))"
    by (simp_all add: with_env_def)
  have "udp_inv ?t"
  proof (rule machine_update_inv [OF s socks(3)])
    fix m' assume "get_machine name s = Some m'"
    with m have "m' = m" by simp
    moreover have "machine_socks_ok ((socks (env s))(next_sock (env s) \<mapsto> ?ms)) (plug_sock (next_sock (env s)) idx m)"
      by (rule plug_sock_ok [OF ok fresh]) (use idx name new in \<open>simp_all add: key key_idx_def, simp add: new_sock_def\<close>)
    ultimately show "machine_socks_ok (socks (env ?t)) (plug_sock (next_sock (env s)) idx m')" unfolding socks(1) by simp
  next
    fix m' i assume "m' \<in> set (head_machine (boot (env s)))" "ma_name m' \<noteq> name" "i \<in> set (head_udp m')"
    then have "i \<noteq> next_sock (env s)" using used by blast
    then show "socks (env ?t) i = socks (env s) i" unfolding socks(1) by simp
  next
    fix i assume "next_sock (env ?t) \<le> i"
    then have "next_sock (env s) < i" unfolding socks(2) by simp
    then show "socks (env ?t) i = None" using s unfolding socks(1) udp_inv_def by simp
  qed (simp add: plug_sock_def)
  with t show ?thesis by (simp add: with_env_def)
qed

section \<open>The end of a socket\<close>

definition unplug_sock :: "nat \<Rightarrow> int \<Rightarrow> t_machine \<Rightarrow> t_machine" where
  "unplug_sock i idx m = m\<lparr>hash_head := (hash_head m)(idx := remove1 i (hash_head m idx)), head_udp := remove1 i (head_udp m)\<rparr>"

lemma unplug_sock_ok:
  assumes m: "machine_socks_ok heap m" and i: "heap i = Some ms" and idx: "key_idx (sock_key ms) = Some idx"
  shows "machine_socks_ok (heap(i := None)) (unplug_sock i idx m)"
proof -
  note ok = machine_socks_okD [OF m]
  have sets: "set (remove1 i (head_udp m)) = set (head_udp m) - {i}" "set (remove1 i (hash_head m j)) = set (hash_head m j) - {i}" for j
    using ok(1,3) by (simp_all add: set_remove1_eq)
  have "i \<notin> set (hash_head m j)" if "j \<noteq> idx" for j using ok(4) [of i j] i idx that by simp
  then have "distinct (hash_head (unplug_sock i idx m) j) \<and> (\<forall>r. r \<in> set (hash_head (unplug_sock i idx m) j) \<longleftrightarrow>
      r \<in> set (head_udp (unplug_sock i idx m)) \<and> (\<exists>ms'. (heap(i := None)) r = Some ms' \<and> key_idx (sock_key ms') = Some j))" for j
    using ok(3) ok(4) [of _ j] by (cases "j = idx") (auto simp: unplug_sock_def sets)
  moreover have "distinct (head_udp (unplug_sock i idx m))" using ok(1) by (simp add: unplug_sock_def)
  moreover have "\<exists>ms'. (heap(i := None)) j = Some ms' \<and> ms_machine ms' = ma_name (unplug_sock i idx m)"
    if "j \<in> set (head_udp (unplug_sock i idx m))" for j
    using that ok(2) [of j] by (auto simp: unplug_sock_def sets)
  moreover have "r = j" if "r \<in> set (head_udp (unplug_sock i idx m))" "j \<in> set (head_udp (unplug_sock i idx m))"
    "map_option sock_key ((heap(i := None)) r) = map_option sock_key ((heap(i := None)) j)" for r j
    using that ok(5) [of r j] by (simp add: unplug_sock_def sets)
  ultimately show ?thesis unfolding machine_socks_ok_def by blast
qed

text \<open>A socket of which the tables are right and the timeout is armed, or was just called.\<close>

definition sock_armed :: "nat \<Rightarrow> t_machine_sock \<Rightarrow> munat \<Rightarrow> bool" where
  "sock_armed i ms s \<longleftrightarrow> (timer_killer_abs_beat ms \<noteq> 0 \<longrightarrow>
       clownix_timeout_exists (timer_killer_abs_beat ms) (timer_killer_ref ms) (nat_wheel (env s))) \<and>
     (0 < ms_llid ms \<longrightarrow> \<not> bad_llid (ms_llid ms) \<and> llid_to_socket (env s) (ms_llid ms) = Some i)"

lemma timeout_del_eq:
  assumes "date \<noteq> 0 \<Longrightarrow> clownix_timeout_exists date r (nat_wheel (env s))"
  obtains w where "timeout_del date r s = Some (with_env (\<lambda>e. e\<lparr>nat_wheel := w\<rparr>) s)"
    and "\<And>date r. clownix_timeout_exists date r w = clownix_timeout_exists date r (nat_wheel (env s))"
proof -
  let ?w = "nat_wheel (env s)" and ?idx = "date mod MAX_TIMEOUT_BEATS"
  let ?v = "?w\<lparr>g_grape := (g_grape ?w)(?idx := replace_first (\<lambda>e. el_ref e = r) inhibit (g_grape ?w ?idx))\<rparr>"
  have f: "find (\<lambda>e. el_ref e = q) (replace_first (\<lambda>e. el_ref e = r) inhibit es) = None \<longleftrightarrow> find (\<lambda>e. el_ref e = q) es = None"
    for q and es :: "nat_call t_timeout_elem list"
    by (induction es) (simp_all add: inhibit_def)
  have "timeout_del date r s = Some (with_env (\<lambda>e. e\<lparr>nat_wheel := ?v\<rparr>) s)"
    using assms by (auto simp: timeout_del_def clownix_timeout_del_def clownix_timeout_exists_def kout_if_bind Let_def)
  moreover have "clownix_timeout_exists d q ?v = clownix_timeout_exists d q ?w" for d q
    using f by (simp add: clownix_timeout_exists_def del: not_None_eq)
  ultimately show ?thesis by (rule that)
qed

lemma delete_sock_llid_eq:
  assumes "get_sock i s = Some ms" and "0 < ms_llid ms \<longrightarrow> \<not> bad_llid (ms_llid ms) \<and> llid_to_socket (env s) (ms_llid ms) = Some i"
  obtains f where "delete_machine_sock_llid i s = Some (set_sock i (Some (ms\<lparr>ms_llid := 0\<rparr>)) (with_env f s))"
    and "\<And>e. socks (f e) = socks e \<and> boot (f e) = boot e \<and> next_sock (f e) = next_sock e"
proof -
  let ?g = "\<lambda>e. e\<lparr>llid_to_socket := (llid_to_socket e)(ms_llid ms := None)\<rparr>"
  let ?s = "with_env ?g s"
  show ?thesis
  proof (cases "0 < ms_llid ms")
    case False
    with assms have "delete_machine_sock_llid i s = Some (set_sock i (Some (ms\<lparr>ms_llid := 0\<rparr>)) (with_env id s))"
      by (simp add: delete_machine_sock_llid_def with_env_def)
    then show ?thesis by (rule that) simp
  next
    case True
    with assms have "delete_machine_sock_llid i s = Some (set_sock i (Some (ms\<lparr>ms_llid := 0\<rparr>))
        (if exist_channel (ms_llid ms) (env ?s) then with_env (delete_channel (ms_llid ms)) ?s else ?s))"
      by (simp add: delete_machine_sock_llid_def reset_llid_to_socket_def delete_if_exists_def kout_if_bind)
    also have "\<dots> = Some (set_sock i (Some (ms\<lparr>ms_llid := 0\<rparr>))
        (with_env (\<lambda>e. if exist_channel (ms_llid ms) (env ?s) then delete_channel (ms_llid ms) (?g e) else ?g e) s))"
      by (simp add: with_env_def)
    finally show ?thesis by (rule that) (simp add: delete_channel_def)
  qed
qed

lemma free_machine_sock_ok:
  assumes s: "udp_inv s" and i: "socks (env s) i = Some ms" and m: "get_machine (ms_machine ms) s = Some m" "i \<in> set (head_udp m)"
    and armed: "sock_armed i ms s"
  shows "\<exists>t m'. free_machine_sock i s = Some t \<and> udp_inv t \<and> socks (env t) = (socks (env s))(i := None) \<and>
    get_machine (ms_machine ms) t = Some m' \<and> set (head_udp m') = set (head_udp m) - {i}"
proof -
  obtain w1 where w1: "timeout_del 0 0 s = Some (with_env (\<lambda>e. e\<lparr>nat_wheel := w1\<rparr>) s)"
    "\<And>date r. clownix_timeout_exists date r w1 = clownix_timeout_exists date r (nat_wheel (env s))"
    by (rule timeout_del_eq [of 0 0 s]) simp_all
  let ?s1 = "with_env (\<lambda>e. e\<lparr>nat_wheel := w1\<rparr>) s"
  obtain w2 where w2: "timeout_del 0 0 ?s1 = Some (with_env (\<lambda>e. e\<lparr>nat_wheel := w2\<rparr>) ?s1)"
    "\<And>date r. clownix_timeout_exists date r w2 = clownix_timeout_exists date r (nat_wheel (env s))"
    by (rule timeout_del_eq [of 0 0 ?s1]) (simp_all add: w1(2))
  let ?s2 = "with_env (\<lambda>e. e\<lparr>nat_wheel := w2\<rparr>) ?s1"
  obtain w3 where w3: "timeout_del (timer_killer_abs_beat ms) (timer_killer_ref ms) ?s2 = Some (with_env (\<lambda>e. e\<lparr>nat_wheel := w3\<rparr>) ?s2)"
    by (rule timeout_del_eq [of "timer_killer_abs_beat ms" "timer_killer_ref ms" ?s2])
      (use armed in \<open>simp_all add: w2(2) sock_armed_def\<close>)
  let ?s3 = "with_env (\<lambda>e. e\<lparr>nat_wheel := w3\<rparr>) ?s2"
  have i3: "get_sock i ?s3 = Some ms" using i by (simp add: get_sock_def)
  have l3: "0 < ms_llid ms \<longrightarrow> \<not> bad_llid (ms_llid ms) \<and> llid_to_socket (env ?s3) (ms_llid ms) = Some i"
    using armed by (simp add: sock_armed_def)
  obtain f where f: "delete_machine_sock_llid i ?s3 = Some (set_sock i (Some (ms\<lparr>ms_llid := 0\<rparr>)) (with_env f ?s3))"
    "\<And>e. socks (f e) = socks e \<and> boot (f e) = boot e \<and> next_sock (f e) = next_sock e"
    by (rule delete_sock_llid_eq [OF i3 l3]) blast
  define s4 where "s4 = set_sock i (Some (ms\<lparr>ms_llid := 0\<rparr>)) (with_env f ?s3)"
  have s4: "socks (env s4) = (socks (env s))(i \<mapsto> ms\<lparr>ms_llid := 0\<rparr>)" "boot (env s4) = boot (env s)" "next_sock (env s4) = next_sock (env s)"
    using f(2) by (simp_all add: s4_def set_sock_def)
  obtain idx where idx: "key_idx (sock_key ms) = Some idx" using key_idx_total by blast
  have key: "sock_key (ms\<lparr>ms_llid := 0\<rparr>) = sock_key ms" by (simp add: sock_key_def)
  note md = get_machineD [OF s m(1)]
  note ok = machine_socks_okD [OF md(3)]
  have cur: "sock_walk (socks (env s4)) (\<lambda>x. sock_key x = sock_key ms) (hash_head m idx) = Some (Some i)"
  proof -
    let ?P = "\<lambda>j. \<exists>x. socks (env s4) j = Some x \<and> sock_key x = sock_key ms"
    have in_list: "i \<in> set (hash_head m idx)" using ok(4) m(2) i idx by auto
    have P: "?P i" using s4(1) key by simp
    obtain j where j: "find ?P (hash_head m idx) = Some j" using find_Some_ex [of i, OF in_list, of ?P] P by blast
    have "j \<in> set (head_udp m)" "?P j" using find_SomeD [OF j] ok(4) by auto
    then have "map_option sock_key (socks (env s) j) = map_option sock_key (socks (env s) i)"
      using s4(1) i key by (cases "j = i") auto
    with \<open>j \<in> set (head_udp m)\<close> m(2) have "j = i" by (intro ok(5))
    moreover have "\<forall>j \<in> set (hash_head m idx). socks (env s4) j \<noteq> None" using ok(4) s4(1) by auto
    ultimately show ?thesis using j sock_walk_found by simp
  qed
  let ?name = "ms_machine ms"
  let ?t = "with_env (\<lambda>e. e\<lparr>socks := (socks e)(i := None), boot := upd_machine ?name (unplug_sock i idx) (boot e)\<rparr>) s4"
  have same: "same_sock (ms_lip_int ms) (ms_fip_int ms) (ms_lport ms) (ms_fport ms) = (\<lambda>x. sock_key x = sock_key ms)"
    by (rule ext) (simp add: same_sock_key sock_key_def)
  have hash: "sock_hash (ms_lip_int ms) (ms_fip_int ms) (ms_lport ms) (ms_fport ms) = Some idx"
    using idx by (simp add: key_idx_def sock_key_def)
  have m4: "get_machine ?name s4 = Some m" using m(1) s4(2) by (simp add: get_machine_def)
  have "delete_fast_sock ?name i s4 = Some (with_machine ?name (\<lambda>m. m\<lparr>hash_head := (hash_head m)(idx := remove1 i (hash_head m idx))\<rparr>) s4)"
    using s4(1) m4 cur by (simp add: delete_fast_sock_def get_sock_def same hash kout_if_bind)
  moreover have "free_machine_sock i s = delete_fast_sock ?name i s4 \<bind>
      (\<lambda>s. Some (set_sock i None (with_machine ?name (\<lambda>m. m\<lparr>head_udp := remove1 i (head_udp m)\<rparr>) s)))"
    using i f(1) unfolding free_machine_sock_def w1(1) by (simp add: get_sock_def w2(1) w3 s4_def)
  ultimately have "free_machine_sock i s = Some ?t"
    by (simp add: set_sock_def with_machine_def with_env_def upd_machine_twice unplug_sock_def [abs_def])
  moreover have "udp_inv ?t"
  proof (rule machine_update_inv [OF s, where name = ?name and f = "unplug_sock i idx"])
    fix m' assume "get_machine ?name s = Some m'"
    with m(1) have "m' = m" by simp
    moreover have "machine_socks_ok ((socks (env s))(i := None)) (unplug_sock i idx m)"
      by (rule unplug_sock_ok [OF md(3) i idx])
    ultimately show "machine_socks_ok (socks (env ?t)) (unplug_sock i idx m')" by (simp add: s4)
  next
    fix m' j assume "m' \<in> set (head_machine (boot (env s)))" "ma_name m' \<noteq> ?name" "j \<in> set (head_udp m')"
    then have "j \<noteq> i" using machine_socks_okD(2) [of "socks (env s)" m' j] s i by (auto simp: udp_inv_def)
    then show "socks (env ?t) j = socks (env s) j" by (simp add: s4)
  next
    fix j assume "next_sock (env ?t) \<le> j"
    then show "socks (env ?t) j = None" using s by (simp add: s4 udp_inv_def)
  qed (simp_all add: s4 unplug_sock_def upd_machine_def)
  moreover have "get_machine ?name ?t = Some (unplug_sock i idx m)"
  proof -
    have "find (\<lambda>m. ma_name m = ?name) (replace_first (\<lambda>m. ma_name m = ?name) (unplug_sock i idx) ms) =
        map_option (unplug_sock i idx) (find (\<lambda>m. ma_name m = ?name) ms)" for ms
      by (rule find_replace_first) (simp add: unplug_sock_def)
    then show ?thesis using m(1) by (simp add: s4 upd_machine_def get_machine_def look_for_machine_with_name_def)
  qed
  moreover have "set (head_udp (unplug_sock i idx m)) = set (head_udp m) - {i}"
    using ok(1) by (simp add: unplug_sock_def set_remove1_eq)
  ultimately show ?thesis by (simp add: s4)
qed

section \<open>The interface of the lookup tables\<close>

definition udp_find :: "string \<Rightarrow> sock_key \<Rightarrow> munat \<Rightarrow> nat option run" where
  "udp_find name k s = (case k of (lip, fip, lport, fport) \<Rightarrow> do { m \<leftarrow> get_machine name s; get_fast_sock m lip fip lport fport s })"

definition udp_key_of :: "string \<Rightarrow> munat \<Rightarrow> nat \<Rightarrow> sock_key option" where
  "udp_key_of name s i = (case get_machine name s of
     None \<Rightarrow> None
   | Some m \<Rightarrow> if i \<in> set (head_udp m) then map_option sock_key (socks (env s) i) else None)"

lemma udp_find_eq:
  assumes "udp_inv s" and "get_machine name s = Some m"
  shows "udp_find name k s = Some (find (\<lambda>i. map_option sock_key (socks (env s) i) = Some k) (head_udp m))"
  using fast_is_linear [OF get_machineD(3) [OF assms]] assms(2) by (cases k) (simp add: udp_find_def)

interpretation udp_table: lookup_table "\<lambda>s. udp_inv s \<and> get_machine name s \<noteq> None" "\<lambda>_. True" "udp_find name" "udp_key_of name"
  for name
proof
  fix s k assume "udp_inv s \<and> get_machine name s \<noteq> None"
  then obtain m where s: "udp_inv s" "get_machine name s = Some m" by auto
  let ?P = "\<lambda>i. map_option sock_key (socks (env s) i) = Some k"
  show "(udp_find name k s = Some None \<and> (\<forall>r. udp_key_of name s r \<noteq> Some k)) \<or>
      (\<exists>r. udp_find name k s = Some (Some r) \<and> udp_key_of name s r = Some k)"
  proof (cases "find ?P (head_udp m)")
    case None
    with s udp_find_eq [OF s] show ?thesis by (auto simp: udp_key_of_def find_None_iff split: if_splits)
  next
    case (Some r)
    with s udp_find_eq [OF s] find_SomeD [OF Some] show ?thesis by (auto simp: udp_key_of_def)
  qed
next
  fix s k r r' assume "udp_inv s \<and> get_machine name s \<noteq> None" and k: "udp_key_of name s r = Some k" "udp_key_of name s r' = Some k"
  then obtain m where s: "udp_inv s" "get_machine name s = Some m" by auto
  from k s(2) show "r = r'"
    by (intro machine_socks_okD(5) [OF get_machineD(3) [OF s]]) (auto simp: udp_key_of_def split: if_splits)
qed

section \<open>The socket of a datagram\<close>

lemma udp_inv_cong:
  assumes "socks (env t) = socks (env s)" and "head_machine (boot (env t)) = head_machine (boot (env s))"
    and "next_sock (env t) = next_sock (env s)"
  shows "udp_inv t \<longleftrightarrow> udp_inv s"
  using assms by (simp add: udp_inv_def)

lemma udp_inv_set_sock:
  assumes s: "udp_inv s" and i: "socks (env s) i = Some ms" and same: "sock_key ms' = sock_key ms" "ms_machine ms' = ms_machine ms"
  shows "udp_inv (set_sock i (Some ms') s)"
proof -
  have "machine_socks_ok ((socks (env s))(i \<mapsto> ms')) m \<longleftrightarrow> machine_socks_ok (socks (env s)) m" for m
  proof -
    have k: "map_option sock_key (((socks (env s))(i \<mapsto> ms')) j) = map_option sock_key (socks (env s) j)" for j
      using i same by simp
    have "(\<exists>x. ((socks (env s))(i \<mapsto> ms')) j = Some x \<and> ms_machine x = na) \<longleftrightarrow> (\<exists>x. socks (env s) j = Some x \<and> ms_machine x = na)"
      "(\<exists>x. ((socks (env s))(i \<mapsto> ms')) j = Some x \<and> key_idx (sock_key x) = idx) \<longleftrightarrow> (\<exists>x. socks (env s) j = Some x \<and> key_idx (sock_key x) = idx)"
      for j na idx using i same by auto
    then show ?thesis unfolding machine_socks_ok_def k by simp
  qed
  moreover have "i < next_sock (env s)" using s i unfolding udp_inv_def by (metis not_less option.distinct(1))
  ultimately show ?thesis using s by (simp add: udp_inv_def set_sock_def)
qed

text \<open>What the text of an address says is what the socket is found by.\<close>

definition sock_texts :: "munat \<Rightarrow> bool" where
  "sock_texts s \<longleftrightarrow> (\<forall>i ms. socks (env s) i = Some ms \<longrightarrow>
     ip_string_to_int (ms_lip ms) = Some (ms_lip_int ms) \<and> ip_string_to_int (ms_fip ms) = Some (ms_fip_int ms))"

definition quiet :: "munat \<Rightarrow> munat \<Rightarrow> bool" where
  "quiet s t \<longleftrightarrow> socks (env t) = socks (env s) \<and> boot (env t) = boot (env s) \<and> next_sock (env t) = next_sock (env s) \<and>
     low_out t = low_out s \<and> udp_out (env t) = udp_out (env s)"

lemma quiet_calls:
  "timeout_del date r s = Some t \<Longrightarrow> quiet s t"
  "timeout_add nb call s = Some (x, t) \<Longrightarrow> quiet s t"
  "udp_attach n s = Some (y, t) \<Longrightarrow> quiet s t"
  "set_llid_to_socket l i s = Some t \<Longrightarrow> quiet s t"
  by (auto simp: quiet_def timeout_del_def timeout_add_def udp_attach_def set_llid_to_socket_def bind_eq_Some Let_def with_env_def
      split: if_splits)

lemma quiet_inv: "quiet s t \<Longrightarrow> udp_inv t = udp_inv s \<and> sock_texts t = sock_texts s \<and> get_machine name t = get_machine name s"
  by (simp add: quiet_def udp_inv_def sock_texts_def get_machine_def)

text \<open>The search or the creation, before the timeout is set.\<close>

definition search_or_create :: "net \<Rightarrow> string \<Rightarrow> string \<Rightarrow> u16 \<Rightarrow> string \<Rightarrow> u16 \<Rightarrow> munat \<Rightarrow> (nat option \<times> munat) run" where
  "search_or_create n name lip lport fip fport s = do {
     m \<leftarrow> get_machine name s;
     f \<leftarrow> find_machine_sock m lip lport fip fport s;
     case f of
        Some i \<Rightarrow> Some (Some i, s)
      | None \<Rightarrow> do {
          (a, s) \<leftarrow> udp_attach n s;
          case a of
            None \<Rightarrow> Some (None, s)
          | Some (l, fd) \<Rightarrow> do {
              (i, s) \<leftarrow> alloc_machine_sock name lip lport fip fport l fd s;
              s \<leftarrow> set_llid_to_socket l i s;
              Some (Some i, s)
            }
        }
   }"

definition has_sock :: "string \<Rightarrow> sock_key \<Rightarrow> nat \<Rightarrow> munat \<Rightarrow> bool" where
  "has_sock name k i s \<longleftrightarrow> (\<exists>ms. socks (env s) i = Some ms \<and> sock_key ms = k \<and> ms_machine ms = name) \<and>
     (\<exists>m. get_machine name s = Some m \<and> i \<in> set (head_udp m))"

lemma alloc_frame:
  assumes "ip_string_to_int lip = Some a" and "ip_string_to_int fip = Some b"
    and "alloc_machine_sock name lip lport fip fport l fd s = Some (i, t)"
  shows "low_out t = low_out s \<and> udp_out (env t) = udp_out (env s) \<and>
    g_active_mac_head (boot (env t)) = g_active_mac_head (boot (env s)) \<and>
    (get_machine name s \<noteq> None \<longrightarrow> (\<exists>m. get_machine name t = Some m \<and> i \<in> set (head_udp m)))"
proof -
  obtain idx where idx: "sock_hash a b lport fport = Some idx" using sock_hash_total by blast
  have "find (\<lambda>m. ma_name m = name) (replace_first (\<lambda>m. ma_name m = name) (plug_sock j idx) ms) =
      map_option (plug_sock j idx) (find (\<lambda>m. ma_name m = name) ms)" for j ms
    by (rule find_replace_first) (simp add: plug_sock_def)
  then show ?thesis using assms(3) alloc_machine_sock_eq [OF assms(1,2) idx]
    by (auto simp: upd_machine_def get_machine_def look_for_machine_with_name_def plug_sock_def)
qed

lemma search_or_create_ok:
  assumes s: "udp_inv s" "sock_texts s"
    and ips: "ip_string_to_int lip = Some a" "ip_string_to_int fip = Some b" "take (MAX_NAME_LEN - 1) lip = lip" "take (MAX_NAME_LEN - 1) fip = fip"
    and run: "search_or_create n name lip lport fip fport s = Some (f, t)"
  shows "udp_inv t \<and> sock_texts t \<and> low_out t = low_out s \<and> udp_out (env t) = udp_out (env s) \<and>
    g_active_mac_head (boot (env t)) = g_active_mac_head (boot (env s)) \<and> (\<forall>i. f = Some i \<longrightarrow> has_sock name (a, b, lport, fport) i t)"
proof -
  let ?k = "(a, b, lport, fport)"
  obtain m where m: "get_machine name s = Some m" using run by (auto simp: search_or_create_def bind_eq_Some)
  note md = get_machineD [OF s(1) m]
  have find: "find_machine_sock m lip lport fip fport s = Some (find (\<lambda>i. map_option sock_key (socks (env s) i) = Some ?k) (head_udp m))"
    using fast_is_linear [OF md(3)] ips by (simp add: find_machine_sock_def)
  show ?thesis
  proof (cases "find (\<lambda>i. map_option sock_key (socks (env s) i) = Some ?k) (head_udp m)")
    case (Some i)
    have t: "f = Some i" "t = s" using run Some find m by (simp_all add: search_or_create_def)
    have "i \<in> set (head_udp m)" "map_option sock_key (socks (env s) i) = Some ?k" using find_SomeD [OF Some] by simp_all
    then have "has_sock name ?k i s" using machine_socks_okD(2) [OF md(3)] md(1) m by (force simp: has_sock_def)
    with t s show ?thesis by simp
  next
    case None
    obtain y u where u: "udp_attach n s = Some (y, u)" using run None find m by (auto simp: search_or_create_def bind_eq_Some)
    have q: "quiet s u" by (rule quiet_calls(3) [OF u])
    note qi = quiet_inv [OF q, of name]
    show ?thesis
    proof (cases y)
      case None
      with u run \<open>find _ _ = None\<close> find m have "f = None" "t = u" by (simp_all add: search_or_create_def)
      with q qi s show ?thesis by (simp add: quiet_def)
    next
      case (Some ld)
      obtain l fd where ld: "ld = (l, fd)" by (cases ld)
      obtain i v where v: "alloc_machine_sock name lip lport fip fport l fd u = Some (i, v)" "set_llid_to_socket l i v = Some t" "f = Some i"
        using run \<open>find _ _ = None\<close> find m u Some ld by (auto simp: search_or_create_def bind_eq_Some)
      have new: "map_option sock_key (socks (env u) j) \<noteq> Some ?k" if "j \<in> set (head_udp m)" for j
        using find_NoneD [OF None that] q by (simp add: quiet_def)
      have "udp_inv v \<and> i = next_sock (env u) \<and> socks (env v) = (socks (env u))(i \<mapsto> new_sock name lip a lport fip b fport l fd)"
        using alloc_machine_sock_ok [OF _ _ ips(1,2) new v(1)] qi s m by simp
      moreover from this have "sock_texts v"
        using qi s ips by (simp add: sock_texts_def new_sock_def)
      ultimately show ?thesis
        using q alloc_frame [OF ips(1,2) v(1)] quiet_calls(4) [OF v(2)] quiet_inv [OF quiet_calls(4) [OF v(2)], of name] v(3) m qi
        by (simp add: quiet_def has_sock_def new_sock_def sock_key_def)
    qed
  qed
qed

lemma machine_get_udp_sock_eq:
  "machine_get_udp_sock n name lip lport fip fport s = search_or_create n name lip lport fip fport s \<bind> (\<lambda>(f, s). case f of
     None \<Rightarrow> Some (None, s)
   | Some i \<Rightarrow> get_sock i s \<bind> (\<lambda>ms. timeout_del (timer_killer_abs_beat ms) (timer_killer_ref ms) s \<bind> (\<lambda>s.
       timeout_add 10 (Timer_killer_machine_sock i) s \<bind> (\<lambda>((date, r), s).
       Some (Some i, set_sock i (Some (ms\<lparr>timer_killer_abs_beat := date, timer_killer_ref := r\<rparr>)) s)))))"
  by (cases "get_machine name s") (simp_all add: machine_get_udp_sock_def search_or_create_def)

lemma machine_get_udp_sock_ok:
  assumes s: "udp_inv s" "sock_texts s"
    and ips: "ip_string_to_int lip = Some a" "ip_string_to_int fip = Some b" "take (MAX_NAME_LEN - 1) lip = lip" "take (MAX_NAME_LEN - 1) fip = fip"
    and run: "machine_get_udp_sock n name lip lport fip fport s = Some (f, t)"
  shows "udp_inv t \<and> sock_texts t \<and> low_out t = low_out s \<and> udp_out (env t) = udp_out (env s) \<and>
    g_active_mac_head (boot (env t)) = g_active_mac_head (boot (env s)) \<and> (\<forall>i. f = Some i \<longrightarrow> has_sock name (a, b, lport, fport) i t)"
proof -
  obtain g u where u: "search_or_create n name lip lport fip fport s = Some (g, u)"
    using run by (auto simp: machine_get_udp_sock_eq bind_eq_Some)
  note uk = search_or_create_ok [OF s ips u]
  show ?thesis
  proof (cases g)
    case None
    with run u uk show ?thesis by (simp add: machine_get_udp_sock_eq)
  next
    case (Some i)
    obtain ms m where ms: "socks (env u) i = Some ms" "sock_key ms = (a, b, lport, fport)" "ms_machine ms = name"
      and m: "get_machine name u = Some m" "i \<in> set (head_udp m)"
      using uk Some by (auto simp: has_sock_def)
    obtain v date r w where v: "timeout_del (timer_killer_abs_beat ms) (timer_killer_ref ms) u = Some v"
      "timeout_add 10 (Timer_killer_machine_sock i) v = Some ((date, r), w)" "f = Some i"
      "t = set_sock i (Some (ms\<lparr>timer_killer_abs_beat := date, timer_killer_ref := r\<rparr>)) w"
      using run u Some ms by (auto simp: machine_get_udp_sock_eq get_sock_def bind_eq_Some)
    have q: "quiet u v" "quiet v w" by (rule quiet_calls(1) [OF v(1)], rule quiet_calls(2) [OF v(2)])
    then have w: "udp_inv w" "sock_texts w" "socks (env w) i = Some ms"
      using uk quiet_inv [OF q(1), of name] quiet_inv [OF q(2), of name] ms by (simp_all add: quiet_def)
    have "udp_inv t" unfolding v(4) by (rule udp_inv_set_sock [OF w(1,3)]) (simp_all add: sock_key_def)
    moreover have "sock_texts t" using w(2,3) v(4) by (simp add: sock_texts_def set_sock_def)
    moreover have "has_sock name (a, b, lport, fport) i t" using ms m v(4) quiet_inv [OF q(1), of name] quiet_inv [OF q(2), of name]
      by (simp add: has_sock_def set_sock_def sock_key_def get_machine_def)
    ultimately show ?thesis using q uk v(3,4) by (simp add: quiet_def set_sock_def)
  qed
qed

section \<open>Properties\<close>

text \<open>A machine whose address munat knows, with no socket.\<close>

definition demo_udp :: munat where
  "demo_udp = with_env (\<lambda>e. e\<lparr>boot := \<lparr>g_stored_mac_head = [], g_active_mac_head = [\<lparr>ac_name = ''vm'', ac_mac = [2, 0, 0, 0, 0, 1]\<rparr>],
     head_machine = [\<lparr>ma_name = ''vm'', ma_vm_id = 1, ma_ip = ''172.17.0.11'', tot_rx_pkt = 0, head_udp = [], hash_head = (\<lambda>_. [])\<rparr>]\<rparr>\<rparr>)
     (munat_init ''8.8.8.8'')"

lemma demo_udp_inv: "udp_inv demo_udp" "sock_texts demo_udp"
  by (simp_all add: demo_udp_def udp_inv_def sock_texts_def machine_socks_ok_def munat_init_def clo_init_def clo_mngt_init_def
      nat_env_init_def init_bootp_def)

lemma demo_ips: "ip_string_to_int ''8.8.8.8'' = Some (be32 8 8 8 8)" "ip_string_to_int ''172.17.0.11'' = Some (be32 172 17 0 11)"
  by code_simp+


lemma socket_udp_rx_frame:
  assumes inv: "sock_texts s" and i: "socks (env s) i = Some ms" and m: "get_machine (ms_machine ms) s = Some m" "ma_name m = ms_machine ms"
    and mac: "get_mac_with_name (ms_machine ms) (boot (env s)) = Some mac" "length mac = 6" and len: "length reply \<le> 10000"
    and ips: "ms_lip_int ms = be32 e f g h" "ms_fip_int ms = be32 a b c d"
  shows "\<exists>u r. socket_udp_rx i (Some reply) s = Some u \<and> low_out u = low_out s @ [r] \<and> get_dst_mac r = Some mac \<and>
     tst_ip_input (drop 14 r) = Some (Some (28 + int (length reply))) \<and> r ! 23 = IPPROTO_UDP \<and>
     take 4 (drop 26 r) = [e, f, g, h] \<and> take 4 (drop 30 r) = [a, b, c, d] \<and>
     take 4 (drop 34 r) = bytes16 (ms_lport ms) @ bytes16 (ms_fport ms) \<and> drop 42 r = reply"
proof -
  let ?from = "if ms_lip ms = get_dns_ip then get_dns_ip else get_gw_ip" and ?len = "28 + int (length reply)"
  let ?udp = "fill_udp_ip_header (8 + int (length reply)) (ms_lport ms) (ms_fport ms)"
  obtain our where our: "our_mac_of ?from = Some our" "length our = 6"
    by (rule that [of "if ms_lip ms = get_dns_ip then OUR_MAC_DNS else OUR_MAC_GW"])
      (simp_all add: our_mac_of_def OUR_MAC_GW_def OUR_MAC_DNS_def get_dns_ip_def get_gw_ip_def)
  have texts: "ip_string_to_int (ms_lip ms) = Some (be32 e f g h)" "ip_string_to_int (ms_fip ms) = Some (be32 a b c d)"
    using inv i ips by (simp_all add: sock_texts_def)
  obtain iph where iph: "fill_ip_ip_header ?len (ms_lip ms) (ms_fip ms) IPPROTO_UDP (udp_ident (env s)) = Some (iph, udp_ident (env s) + 1)"
    "length iph = 20" "iph ! 9 = IPPROTO_UDP" "take 4 (drop 12 iph) = [e, f, g, h]" "take 4 (drop 16 iph) = [a, b, c, d]"
    "\<And>data. ?len = 20 + int (length data) \<Longrightarrow> data \<noteq> [] \<Longrightarrow> ?len \<le> 65535 \<Longrightarrow> tst_ip_input (iph @ data) = Some (Some ?len)"
    using filled_header [OF texts] by blast
  have udp: "length ?udp = 8" "take 4 ?udp = bytes16 (ms_lport ms) @ bytes16 (ms_fport ms)"
    by (simp_all add: fill_udp_ip_header_def bytes16_def)
  have ne: "?udp @ reply \<noteq> []" using udp(1) by auto
  have tst: "tst_ip_input (iph @ ?udp @ reply) = Some (Some ?len)" by (rule iph(6)) (use udp(1) len ne in simp_all)
  let ?r = "mac @ our @ [0x08, 0x00] @ iph @ ?udp @ reply"
  have h: "fill_mac_ip_header ?from mac = Some (mac @ our @ [0x08, 0x00])" unfolding fill_mac_ip_header_def our(1) by simp
  have l: "int IP_HEADER + int UDP_HEADER + int (length reply) = ?len" "int UDP_HEADER + int (length reply) = 8 + int (length reply)"
    by (simp_all add: IP_HEADER_def UDP_HEADER_def)
  have "socket_udp_rx i (Some reply) s = Some (packet_output_to_slirptux ?r (with_env (\<lambda>e. e\<lparr>udp_ident := udp_ident (env s) + 1\<rparr>) s))"
    unfolding socket_udp_rx_def get_sock_def i bind.bind_lunit m mac(1) option.case Let_def l h iph(1) [unfolded IPPROTO_UDP_def]
    by simp
  moreover have "low_out (packet_output_to_slirptux ?r (with_env f s)) = low_out s @ [?r]" for f
    by (simp add: packet_output_to_slirptux_def with_env_def)
  moreover have "get_dst_mac ?r = Some mac" "drop 14 ?r = iph @ ?udp @ reply" "?r ! 23 = iph ! 9" "drop 42 ?r = reply"
    "take 4 (drop 26 ?r) = take 4 (drop 12 iph)" "take 4 (drop 30 ?r) = take 4 (drop 16 iph)" "take 4 (drop 34 ?r) = take 4 ?udp"
    using mac(2) our(2) iph(2) udp(1) by (simp_all add: get_dst_mac_def kout_if_bind nth_append)
  ultimately show ?thesis using tst iph(3-5) udp(2) by metis
qed






end
