(* ===== verification/Nat_Dhcp.thy ===== *)
theory Nat_Dhcp
  imports Nat_Sockets
begin

text \<open>
  What the DHCP of munat promises a machine, and what a request can do to munat.
\<close>

section \<open>The answer\<close>

definition answer_options :: "u8 \<Rightarrow> u8 list" where
  "answer_options t = rfc1533_cookie @ [53, 1, t] @ [54, 4] @ bytes32 0xAC110002 @ [1, 4, 0xff, 0xff, 0xff, 0x00] @
     [3, 4] @ bytes32 0xAC110002 @ [6, 4] @ bytes32 0xAC110003 @ [51, 4] @ bytes32 LEASE_TIME @ [255]"

lemma answer_options_decode:
  "dhcp_decode 38 (answer_options DHCPOFFER) = Some (2, 0)" "dhcp_decode 38 (answer_options DHCPACK) = Some (5, 0)"
  "length (answer_options t) = 38"
  by (code_simp, code_simp, simp add: answer_options_def rfc1533_cookie_def bytes32_def)

lemma format_rbp_eq:
  assumes "bp_hwaddr bp = Some hw"
  shows "format_rbp bp addr type = Some ([2, 1, 6, 0] @ take 4 (drop 4 bp) @ replicate 8 0 @ bytes32 addr @ bytes32 0xAC110002 @
     replicate 4 0 @ hw @ replicate 10 0 @ bp_text 64 ''slirpserverhost'' @ bp_text 128 ''boot_file_name'' @
     answer_options (if type = DHCPDISCOVER then DHCPOFFER else DHCPACK))"
  using assms by (simp add: format_rbp_def our_ips_int answer_options_def)

lemma rbp_fields:
  assumes "length xid = 4" and "length hw = 6" and "length opts = 38"
    and r: "r = [2, 1, 6, 0] @ xid @ replicate 8 0 @ bytes32 addr @ bytes32 gw @
     replicate 4 0 @ hw @ replicate 10 0 @ bp_text 64 ''slirpserverhost'' @ bp_text 128 ''boot_file_name'' @ opts"
  shows "length r = 274" and "take 4 (drop 4 r) = xid" and "take 4 (drop 16 r) = bytes32 addr" and "take 6 (drop 28 r) = hw"
    and "drop 236 r = opts"
proof -
  have b: "length (bytes32 w) = 4" for w by (simp add: bytes32_def)
  have t: "length (bp_text 64 ''slirpserverhost'') = 64" "length (bp_text 128 ''boot_file_name'') = 128" by (simp_all add: bp_text_def)
  show "length r = 274" "take 4 (drop 4 r) = xid" "take 4 (drop 16 r) = bytes32 addr" "take 6 (drop 28 r) = hw" "drop 236 r = opts"
    using assms(1-3) b t by (simp_all add: r)
qed

section \<open>Addresses\<close>

lemma boot_addr_inj:
  assumes "(0xAC110002 :: u32) + word_of_int (i + 8) = 0xAC110002 + word_of_int (j + 8)" and "\<bar>i - j\<bar> < 2 ^ 32"
  shows "i = j"
proof -
  have "(word_of_int i :: u32) = word_of_int j" using assms(1) by simp
  then have "i mod 2 ^ 32 = j mod 2 ^ 32" by (simp add: word_of_int_eq_iff take_bit_eq_mod)
  then have "2 ^ 32 dvd i - j" by (rule mod_eq_dvd_iff [THEN iffD1])
  then show ?thesis using assms(2) dvd_imp_le_int [of "i - j" "2 ^ 32"] by fastforce
qed

text \<open>The answer to a request that is understood.\<close>

lemma bootp_reply_eq:
  assumes "dhcp_decode len (drop BP_VEND bp) = Some (type, a0)" and "type = DHCPDISCOVER \<or> type = DHCPREQUEST"
    and "bp_hwaddr bp = Some mac" and "find_mac_in_stored_mac mac b = Some c"
  obtains rbp b' where "bootp_format_reply len bp b = Some (Some (0xAC110002 + word_of_int (st_vm_id c + 8), rbp), b')"
    and "format_rbp bp (0xAC110002 + word_of_int (st_vm_id c + 8)) type = Some rbp"
    and "head_machine b' = head_machine b" and "get_mac_with_name (take (MAX_NAME_LEN - 1) (st_name c)) b' = Some mac"
proof -
  let ?addr = "0xAC110002 + word_of_int (st_vm_id c + 8) :: u32"
  obtain rbp where rbp: "format_rbp bp ?addr type = Some rbp" using format_rbp_eq [OF assms(3)] by blast
  let ?b = "alloc_active_mac (st_name c) mac (case find_active_with_name (st_name c) b of
          None \<Rightarrow> b | Some _ \<Rightarrow> free_active_mac (\<lambda>a. ac_name a = st_name c) b)"
  have "bootp_format_reply len bp b = Some (Some (?addr, rbp), ?b)"
    using assms rbp by (simp add: bootp_format_reply_def get_dhcp_addr_def our_ips_int Let_def)
  moreover have "head_machine ?b = head_machine b"
    by (simp add: alloc_active_mac_def free_active_mac_def split: option.split)
  moreover have "get_mac_with_name (take (MAX_NAME_LEN - 1) (st_name c)) ?b = Some mac"
    by (simp add: alloc_active_mac_def get_mac_with_name_def find_active_with_name_def)
  ultimately show ?thesis using rbp by (intro that)
qed


definition demo_tables :: boot_tables where
  "demo_tables = \<lparr>g_stored_mac_head = [\<lparr>st_name = ''a'', st_vm_id = 1, st_eth = [[2, 0, 0, 0, 0, 1]]\<rparr>,
     \<lparr>st_name = ''b'', st_vm_id = 2, st_eth = [[2, 0, 0, 0, 0, 2]]\<rparr>], g_active_mac_head = [],
     head_machine = [\<lparr>ma_name = ''a'', ma_vm_id = 1, ma_ip = [], tot_rx_pkt = 0, head_udp = [], hash_head = (\<lambda>_. [])\<rparr>,
       \<lparr>ma_name = ''b'', ma_vm_id = 2, ma_ip = ''172.17.0.12'', tot_rx_pkt = 0, head_udp = [], hash_head = (\<lambda>_. [])\<rparr>]\<rparr>"

text \<open>A discovery of the hardware address that ends with \<open>n\<close>.\<close>

definition demo_discover :: "u8 \<Rightarrow> u8 list" where
  "demo_discover n = [1, 1, 6, 0, 9, 9, 9, 9] @ replicate 20 0 @ [2, 0, 0, 0, 0, n] @ replicate 202 0 @ rfc1533_cookie @ [53, 1, 1, 255]"


text \<open>C24: a DHCP request names the hardware address for which it asks; nothing compares it with the
  sender. When munat has an address for it, the request ends the process if and only if another
  machine than the sender has that address already: a machine that asks with the hardware
  address of another one stops munat for all.
\<close>
theorem dhcp_for_another_is_fatal:
  assumes "bp_op data = Some 1" and "dhcp_decode len (drop BP_VEND data) = Some (type, a0)" and "type = DHCPDISCOVER \<or> type = DHCPREQUEST"
    and "bp_hwaddr data = Some mac" and "find_mac_in_stored_mac mac (boot (env s)) = Some c"
    and "addr = 0xAC11000A + word_of_int (st_vm_id c)" and "addr \<noteq> 0"
  shows "packet_bootp_input name src_mac len data s = None \<longleftrightarrow>
    (\<exists>m \<in> set (head_machine (boot (env s))). ma_name m \<noteq> name \<and> ma_ip m = int_to_ip_string addr)"
proof -
  have addr: "(0xAC110002 :: u32) + word_of_int (st_vm_id c + 8) = addr"
    unfolding assms(6) by (simp only: wi_hom_add [symmetric]) simp
  obtain rbp b where r: "bootp_format_reply len data (boot (env s)) = Some (Some (addr, rbp), b)" "head_machine b = head_machine (boot (env s))"
    using bootp_reply_eq [OF assms(2-5)] unfolding addr by blast
  have b: "ip_string_to_int ''255.255.255.255'' = Some 0xFFFFFFFF" by code_simp
  have h: "fill_mac_ip_header get_gw_ip src_mac = Some (src_mac @ OUR_MAC_GW @ [0x08, 0x00])" by (simp add: fill_mac_ip_header_def our_mac_of_def)
  show ?thesis
    using assms(1,7) r by (auto simp: packet_bootp_input_def machine_boop_alloc_def fill_ip_ip_header_def our_ips_int b h kout_if_bind Let_def
      split: if_splits)
qed

theorem dhcp_for_another_is_fatal_witness:
  "packet_bootp_input ''a'' [2, 0, 0, 0, 0, 1] 8 (demo_discover 2) (with_env (\<lambda>e. e\<lparr>boot := demo_tables\<rparr>) (munat_init ''8.8.8.8'')) = None"
proof -
  let ?s = "with_env (\<lambda>e. e\<lparr>boot := demo_tables\<rparr>) (munat_init ''8.8.8.8'')"
  have o: "bp_op (demo_discover 2) = Some 1" by code_simp
  have d: "dhcp_decode 8 (drop BP_VEND (demo_discover 2)) = Some (1, 0)" by code_simp
  have t: "(1 :: int) = DHCPDISCOVER \<or> (1 :: int) = DHCPREQUEST" by (simp add: DHCPDISCOVER_def)
  have h: "bp_hwaddr (demo_discover 2) = Some [2, 0, 0, 0, 0, 2]" by code_simp
  have f: "find_mac_in_stored_mac [2, 0, 0, 0, 0, 2] (boot (env ?s)) = Some \<lparr>st_name = ''b'', st_vm_id = 2, st_eth = [[2, 0, 0, 0, 0, 2]]\<rparr>"
    by (simp add: find_mac_in_stored_mac_def demo_tables_def)
  have a: "(0xAC11000C :: u32) = 0xAC11000A + word_of_int (st_vm_id \<lparr>st_name = ''b'', st_vm_id = 2, st_eth = [[2, 0, 0, 0, 0, 2]]\<rparr>)"
    "(0xAC11000C :: u32) \<noteq> 0" by simp_all
  have i: "int_to_ip_string 0xAC11000C = ''172.17.0.12''" by code_simp
  from dhcp_for_another_is_fatal [OF o d t h f a, of "''a''" "[2, 0, 0, 0, 0, 1]"]
  show ?thesis by (simp add: i demo_tables_def)
qed

section \<open>The end of the options\<close>

text \<open>
  The tag that ends the options is compared as a signed character with 255 and never found; and the length of the
  whole request is taken for the length of its options. What the memory holds behind a request decides
  how it is understood.
\<close>

theorem dhcp_reads_behind_the_end:
  assumes "length req = 244" and "drop 236 req = rfc1533_cookie @ [53, 1, 1, 255]"
  shows "dhcp_decode (int (length req)) (drop BP_VEND (req @ [0, 53, 1, t] @ replicate 232 0)) = Some (uint t, 0)"
proof -
  have d: "drop BP_VEND (req @ [0, 53, 1, t] @ replicate 232 0) = rfc1533_cookie @ [53, 1, 1, 255, 0, 53, 1, t] @ replicate 232 0"
    using assms by (simp add: BP_VEND_def)
  show ?thesis
    unfolding d assms(1)
    by (simp add: dhcp_decode_def rfc1533_cookie_def kout_if_bind dhcp_options.simps peek_def)
qed

end
