(* ===== verification/Nat_Lines.thy ===== *)
theory Nat_Lines
  imports Nat_Run
begin

text \<open>
  The line with which a client names the machine it wants: what the tools of the clients print is
  what munat reads.
\<close>

section \<open>Words\<close>

definition is_word :: "string \<Rightarrow> bool" where
  "is_word w \<longleftrightarrow> w \<noteq> [] \<and> list_all (\<lambda>c. \<not> is_space c \<and> c \<noteq> CHR ''='' \<and> c \<noteq> CHR 0x00) w"

lemma is_wordD: "is_word w \<Longrightarrow> w \<noteq> [] \<and> (\<forall>c \<in> set w. \<not> is_space c)"
  by (auto simp: is_word_def list_all_iff)

lemma space_char: "is_space CHR '' ''"
  by (simp add: is_space_def)

lemma scan_word_word:
  assumes "w \<noteq> [] \<and> (\<forall>c \<in> set w. \<not> is_space c)"
  shows "scan_word (CHR '' '' # w @ CHR '' '' # r) = Some (w, CHR '' '' # r)"
proof -
  have "dropWhile is_space (w @ CHR '' '' # r) = w @ CHR '' '' # r" using assms by (cases w) auto
  moreover have "takeWhile (\<lambda>c. \<not> is_space c) (w @ CHR '' '' # r) = w"
    "dropWhile (\<lambda>c. \<not> is_space c) (w @ CHR '' '' # r) = CHR '' '' # r"
    using assms by (auto simp: takeWhile_append2 dropWhile_append2 space_char)
  ultimately show ?thesis using assms by (simp add: scan_word_def space_char Let_def)
qed

lemma scan_lit_append [simp]: "scan_lit p (p @ r) = Some r"
  by (induction p) (simp_all add: scan_char_def)

lemma dropWhile_space_lit: "\<not> is_space c \<Longrightarrow> dropWhile is_space (CHR '' '' # c # r) = c # r"
  by (simp add: space_char)

lemma scan_int_dec_nat:
  assumes "n < 2 ^ 31"
  shows "scan_int (CHR '' '' # dec_nat n @ [CHR '' '']) = Some (int n, [CHR '' ''])"
proof -
  obtain c cs where d: "dec_nat n = c # cs" using dec_nat_nonempty by (cases "dec_nat n") auto
  have c: "is_digit c" using dec_nat_digits [of n] d by simp
  then have sp: "dropWhile is_space (CHR '' '' # dec_nat n @ [CHR '' '']) = dec_nat n @ [CHR '' '']"
    using is_digit_not_space d by (simp add: space_char)
  have sign: "c \<noteq> CHR ''-''" "c \<noteq> CHR ''+''" using c by (auto simp: is_digit_def)
  have all: "\<forall>x \<in> set (dec_nat n). is_digit x" by (rule dec_nat_digits)
  have blank: "\<not> is_digit CHR '' ''" by (simp add: is_digit_def)
  have "takeWhile is_digit (dec_nat n @ [CHR '' '']) = dec_nat n" "dropWhile is_digit (dec_nat n @ [CHR '' '']) = [CHR '' '']"
    using all blank by (auto simp: takeWhile_append2 dropWhile_append2)
  moreover have "int n < 2 ^ 31" using assms by (metis of_nat_less_numeral_power_cancel_iff)
  then have "i32 (max (- (2 ^ 63)) (min (2 ^ 63 - 1) (int n))) = int n" by (simp add: i32_id)
  ultimately show ?thesis
    using sign dec_value_dec_nat [of n] unfolding scan_int_def sp Let_def by (simp add: d)
qed

section \<open>The mark at the end\<close>

lemma strstr_after_word:
  assumes "strstr_at u pat = None" and "CHR '' '' \<notin> set pat" and "pat \<noteq> []"
  shows "strstr_at (u @ CHR '' '' # r) pat = map_option (\<lambda>k. length u + 1 + k) (strstr_at r pat)"
  using assms(1)
proof (induction u)
  case Nil
  have "take (length pat) (CHR '' '' # r) \<noteq> pat" using assms(2,3) by (cases pat) auto
  then show ?case by (simp add: option.map_comp comp_def)
next
  case (Cons c u)
  have "take (length pat) (c # u @ CHR '' '' # r) \<noteq> pat"
  proof (cases "length pat \<le> length (c # u)")
    case True
    then have "take (length pat) (c # u @ CHR '' '' # r) = take (length pat) (c # u)"
      by (metis append_Cons take_append diff_is_0_eq take_0 append_Nil2)
    with Cons.prems show ?thesis by (simp split: if_splits)
  next
    case False
    then have "take (length pat) ((c # u) @ CHR '' '' # r) = (c # u) @ take (length pat - length (c # u)) (CHR '' '' # r)"
      by (simp only: take_append) simp
    moreover have "0 < length pat - length (c # u)" using False by simp
    ultimately have "CHR '' '' \<in> set (take (length pat) ((c # u) @ CHR '' '' # r))"
      by (cases "length pat - length (c # u)") auto
    then show ?thesis using assms(2) by auto
  qed
  moreover have "strstr_at u pat = None" using Cons.prems by (simp split: if_splits)
  ultimately show ?case using Cons.IH by (simp add: option.map_comp comp_def)
qed

lemma strstr_digits:
  assumes "\<forall>c \<in> set ds. is_digit c" and "pat \<noteq> []" and "\<not> is_digit (hd pat)"
  shows "strstr_at ds pat = None"
  using assms(1)
proof (induction ds)
  case (Cons d ds)
  have "take (length pat) (d # ds) \<noteq> pat" using Cons.prems assms(2,3) by (cases pat) auto
  with Cons show ?case by simp
qed (use assms(2) in simp)

section \<open>The line\<close>

text \<open>The line as the tools print it (\<open>doorways_access.c\<close> hands it on as it is).\<close>

definition client_line :: "string \<Rightarrow> string \<Rightarrow> nat \<Rightarrow> string" where
  "client_line user ip port = ''user='' @ user @ ''=ip='' @ ip @ ''=port='' @ dec_nat port @ ''=cloonix_info_end''"

lemma unat_of_char: "unat (of_char c :: u8) = of_char c"
proof -
  have m: "unat (of_nat m :: u8) = m" if "m < 256" for m using that by (simp add: unsigned_of_nat take_bit_nat_eq_self)
  have "(of_char c :: u8) = of_nat (of_char c)" by (simp only: of_nat_of_char)
  then show ?thesis by (simp only: m [OF nat_of_char_less_256])
qed

lemma byte_of_char:
  "(of_char c :: u8) = 0 \<longleftrightarrow> c = CHR 0x00" "(of_char c :: u8) = 0x3D \<longleftrightarrow> c = CHR ''=''"
  "char_of (unat (of_char c :: u8)) = c"
proof -
  have e: "(of_char c :: u8) = w \<longleftrightarrow> (of_char c :: nat) = unat w" for w :: u8
    by (metis unat_of_char word_unat_eq_iff)
  have z: "(of_char CHR 0x00 :: nat) = 0" "(of_char CHR ''='' :: nat) = 0x3D" by simp_all
  show "(of_char c :: u8) = 0 \<longleftrightarrow> c = CHR 0x00" unfolding e using z(1) by (metis of_char_eq_iff unat_0)
  have u: "unat (0x3D :: u8) = 0x3D" by simp
  show "(of_char c :: u8) = 0x3D \<longleftrightarrow> c = CHR ''=''" unfolding e u using z(2) by (metis of_char_eq_iff)
  show "char_of (unat (of_char c :: u8)) = c" by (simp add: unat_of_char)
qed

text \<open>The text that the line becomes when it is read: the bytes before the NUL, with blanks for the equal signs.\<close>

lemma read_c_bytes:
  assumes "CHR 0x00 \<notin> set t"
  shows "map (\<lambda>b. if b = 0x3D then CHR '' '' else char_of (unat b)) (takeWhile (\<lambda>b. b \<noteq> 0) (c_bytes t)) =
    map (\<lambda>c. if c = CHR ''='' then CHR '' '' else c) t"
  using assms by (induction t) (auto simp: c_bytes_def byte_of_char)

lemma map_id_word:
  assumes "list_all (\<lambda>c. c \<noteq> CHR ''='') w"
  shows "map (\<lambda>c. if c = CHR ''='' then CHR '' '' else c) w = w"
  using assms by (induction w) auto

lemma client_line_read:
  assumes "is_word user" and "is_word ip"
  shows "CHR 0x00 \<notin> set (client_line user ip port)"
    and "map (\<lambda>c. if c = CHR ''='' then CHR '' '' else c) (client_line user ip port) =
      ''user'' @ CHR '' '' # user @ CHR '' '' # ''ip'' @ CHR '' '' # ip @ CHR '' '' # ''port'' @ CHR '' '' # dec_nat port @ CHR '' '' # ''cloonix_info_end''"
proof -
  have d: "list_all (\<lambda>c. c \<noteq> CHR ''='' \<and> c \<noteq> CHR 0x00) (dec_nat port)"
    using dec_nat_digits [of port] by (auto simp: list_all_iff is_digit_def)
  have w: "list_all (\<lambda>c. c \<noteq> CHR ''='' \<and> c \<noteq> CHR 0x00) user" "list_all (\<lambda>c. c \<noteq> CHR ''='' \<and> c \<noteq> CHR 0x00) ip"
    using assms by (auto simp: is_word_def list_all_iff)
  have z: "list_all (\<lambda>c. c \<noteq> CHR 0x00) v" if "list_all (\<lambda>c. c \<noteq> CHR ''='' \<and> c \<noteq> CHR 0x00) v" for v
    using that by (simp add: list_all_iff)
  have "list_all (\<lambda>c. c \<noteq> CHR 0x00) (client_line user ip port)"
    unfolding client_line_def list_all_append using z [OF d] z [OF w(1)] z [OF w(2)] by simp
  then show "CHR 0x00 \<notin> set (client_line user ip port)" unfolding list_all_iff by blast
  have m: "map (\<lambda>c. if c = CHR ''='' then CHR '' '' else c) v = v" if "list_all (\<lambda>c. c \<noteq> CHR ''='' \<and> c \<noteq> CHR 0x00) v" for v
    using that by (intro map_id_word) (auto simp: list_all_iff)
  show "map (\<lambda>c. if c = CHR ''='' then CHR '' '' else c) (client_line user ip port) =
      ''user'' @ CHR '' '' # user @ CHR '' '' # ''ip'' @ CHR '' '' # ip @ CHR '' '' # ''port'' @ CHR '' '' # dec_nat port @ CHR '' '' # ''cloonix_info_end''"
    unfolding client_line_def map_append m [OF d] m [OF w(1)] m [OF w(2)] by simp
qed

text \<open>The words of the line without the mark.\<close>

lemma scan_client_line:
  assumes "is_word user" and "is_word ip" and "port < 2 ^ 31"
  shows "scan_info (''user'' @ CHR '' '' # user @ CHR '' '' # ''ip'' @ CHR '' '' # ip @ CHR '' '' # ''port'' @ CHR '' '' # dec_nat port @ [CHR '' '']) =
      Some (user, ip, int port)"
    and "info_fits (''user'' @ CHR '' '' # user @ CHR '' '' # ''ip'' @ CHR '' '' # ip @ CHR '' '' # r) \<longleftrightarrow>
      length user < MAX_NAME_LEN \<and> length ip < MAX_NAME_LEN"
proof -
  have i: "dropWhile is_space (CHR '' '' # ''ip'' @ r) = ''ip'' @ r" "dropWhile is_space (CHR '' '' # ''port'' @ r) = ''port'' @ r" for r
    by (simp_all add: is_space_def)
  note w = is_wordD [OF assms(1)] is_wordD [OF assms(2)]
  show "scan_info (''user'' @ CHR '' '' # user @ CHR '' '' # ''ip'' @ CHR '' '' # ip @ CHR '' '' # ''port'' @ CHR '' '' # dec_nat port @ [CHR '' '']) =
      Some (user, ip, int port)"
    unfolding scan_info_def scan_lit_append bind.bind_lunit scan_word_word [OF w(1)] prod.case i scan_word_word [OF w(2)]
      scan_int_dec_nat [OF assms(3)] by simp
  show "info_fits (''user'' @ CHR '' '' # user @ CHR '' '' # ''ip'' @ CHR '' '' # ip @ CHR '' '' # r) \<longleftrightarrow>
      length user < MAX_NAME_LEN \<and> length ip < MAX_NAME_LEN"
    unfolding info_fits_def scan_lit_append bind.bind_lunit scan_word_word [OF w(1)] option.case prod.case i scan_word_word [OF w(2)] by simp
qed

lemma find_mark:
  assumes "is_word user" and "is_word ip" and "strstr_at user ''cloonix_info_end'' = None" and "strstr_at ip ''cloonix_info_end'' = None"
  shows "strstr_at (''user'' @ CHR '' '' # user @ CHR '' '' # ''ip'' @ CHR '' '' # ip @ CHR '' '' # ''port'' @ CHR '' '' # dec_nat port @ CHR '' '' # ''cloonix_info_end'') ''cloonix_info_end'' =
    Some (length (''user'' @ CHR '' '' # user @ CHR '' '' # ''ip'' @ CHR '' '' # ip @ CHR '' '' # ''port'' @ CHR '' '' # dec_nat port @ [CHR '' '']))"
proof -
  let ?p = "''cloonix_info_end''"
  have p: "CHR '' '' \<notin> set ?p" "?p \<noteq> []" by simp_all
  have n: "strstr_at ''user'' ?p = None" "strstr_at ''ip'' ?p = None" "strstr_at ''port'' ?p = None" "strstr_at (dec_nat port) ?p = None"
    by (code_simp, code_simp, code_simp, rule strstr_digits [OF dec_nat_digits]) (simp_all add: is_digit_def)
  have e: "strstr_at ?p ?p = Some 0" by code_simp
  show ?thesis
    unfolding strstr_after_word [OF n(1) p] strstr_after_word [OF assms(3) p] strstr_after_word [OF n(2) p] strstr_after_word [OF assms(4) p]
      strstr_after_word [OF n(3) p] strstr_after_word [OF n(4) p] e by simp
qed

lemma get_info_of_line:
  assumes w: "is_word user" "is_word ip" and p: "port < 2 ^ 31"
    and m: "strstr_at user ''cloonix_info_end'' = None" "strstr_at ip ''cloonix_info_end'' = None"
    and len: "length user < MAX_NAME_LEN" "length ip < MAX_NAME_LEN" "int (length (c_bytes (client_line user ip port))) < TCP_MAX_SIZE"
  shows "get_info_from_buf (c_bytes (client_line user ip port)) ctx =
    Some (Some (ctx\<lparr>remote_user := user, remote_ip_txt := ip, ctx_remote_port := word_of_nat port\<rparr>))"
proof -
  let ?t = "''user'' @ CHR '' '' # user @ CHR '' '' # ''ip'' @ CHR '' '' # ip @ CHR '' '' # ''port'' @ CHR '' '' # dec_nat port @ [CHR '' '']"
  let ?b = "?t @ ''cloonix_info_end''"
  have b: "map (\<lambda>b. if b = 0x3D then CHR '' '' else char_of (unat b)) (takeWhile (\<lambda>b. b \<noteq> 0) (c_bytes (client_line user ip port))) = ?b"
    unfolding read_c_bytes [OF client_line_read(1) [OF w]] client_line_read(2) [OF w] by simp
  have k: "strstr_at ?b ''cloonix_info_end'' = Some (length ?t)" using find_mark [OF w m, of port] by simp
  have "take (length x) (x @ y) = x" for x y :: string by simp
  then have t: "take (length ?t) ?b = ?t" "length ?b = length ?t + length ''cloonix_info_end''" by (blast, simp only: length_append)
  have nul: "0 \<in> set (c_bytes (client_line user ip port))" by (simp add: c_bytes_def)
  have i: "info_fits ?t" using scan_client_line(2) [OF w p, of "''port'' @ CHR '' '' # dec_nat port @ [CHR '' '']"] len(1,2) by simp
  show ?thesis
    unfolding get_info_from_buf_def b Let_def k option.case t(1) scan_client_line(1) [OF w p]
    using len(3) nul i t(2) by (simp add: kout_if_bind)
qed

section \<open>What the line starts\<close>

definition good_line :: "string \<Rightarrow> string \<Rightarrow> nat \<Rightarrow> bool" where
  "good_line user ip port \<longleftrightarrow> is_word user \<and> is_word ip \<and> port < 65536 \<and>
     strstr_at user ''cloonix_info_end'' = None \<and> strstr_at ip ''cloonix_info_end'' = None \<and>
     length user < MAX_NAME_LEN \<and> length ip < MAX_NAME_LEN \<and> ip_string_to_int ip \<noteq> None"


definition named_ctx :: "string \<Rightarrow> string \<Rightarrow> nat \<Rightarrow> t_ctx_unix2inet \<Rightarrow> t_ctx_unix2inet" where
  "named_ctx user ip port ctx = ctx\<lparr>remote_user := user, remote_ip_txt := ip, ctx_remote_port := word_of_nat port\<rparr>"

lemma good_line_read:
  assumes "good_line user ip port"
  shows "get_info_from_buf (c_bytes (client_line user ip port)) ctx = Some (Some (named_ctx user ip port ctx))"
proof -
  note g = assms [unfolded good_line_def]
  have "length (dec_nat port) \<le> 5" using g by (intro length_dec_nat) simp_all
  then have "length (c_bytes (client_line user ip port)) \<le> 200"
    using g by (simp add: c_bytes_def client_line_def MAX_NAME_LEN_def)
  then have "int (length (c_bytes (client_line user ip port))) < TCP_MAX_SIZE" by (simp add: TCP_MAX_SIZE_def)
  with g show ?thesis unfolding named_ctx_def by (intro get_info_of_line) simp_all
qed

text \<open>A client that has connected and sent its line.\<close>

lemma client_waits:
  assumes g: "good_line user ip port" and l: "\<not> bad_llid l" and ctx: "llid_to_ctx (env s) l = Some ctx"
    and st: "ctx_state ctx = state_wait_info" "timeout_abs_beat ctx = 0" "timeout_ref ctx = 0"
  obtains t f date r where "unix2inet_ssh_rx_cb l (c_bytes (client_line user ip port)) s = Some t"
    and "format_arp_req get_unix2inet_ip ip = Some f" and "low_out t = low_out s @ [f]"
    and "llid_to_ctx (env t) = (llid_to_ctx (env s))(l \<mapsto> (named_ctx user ip port ctx)
      \<lparr>timeout_abs_beat := date, timeout_ref := r, ctx_state := state_wait_arp_resp\<rparr>)"
    and "waiting_for_arp_reply (env t) = \<lparr>w_ip = ip, w_llid = l, w_port = word_of_nat port\<rparr> # waiting_for_arp_reply (env s)"
    and "chan_open (env t) = chan_open (env s)" and "llid_to_clo t = llid_to_clo s"
    and "clownix_timeout_add 50 (Timeout_waiting_for_vmtx \<lparr>ti_llid = l, ti_ip = ip, ti_is_synack = False\<rparr>) (nat_wheel (env s)) =
      Some ((date, r), nat_wheel (env t))"
proof -
  note gl = g [unfolded good_line_def]
  let ?c = "named_ctx user ip port ctx"
  have c: "timeout_abs_beat ?c = 0" "timeout_ref ?c = 0" "remote_ip_txt ?c = ip" "ctx_remote_port ?c = word_of_nat port"
    using st by (simp_all add: named_ctx_def)
  let ?call = "Timeout_waiting_for_vmtx \<lparr>ti_llid = l, ti_ip = ip, ti_is_synack = False\<rparr>"
  obtain date r w where add: "clownix_timeout_add 50 ?call (nat_wheel (env s)) = Some ((date, r), w)"
    by (auto simp: clownix_timeout_add_def plug_elem_def kout_if_bind Let_def MIN_TIMEOUT_BEATS_def MAX_TIMEOUT_BEATS_def)
  obtain f where f: "format_arp_req get_unix2inet_ip ip = Some f"
    using gl by (auto simp: format_arp_req_def put_ip_def our_ips_int Let_def)
  have tk: "take (MAX_NAME_LEN - 1) ip = ip" using gl by (simp add: MAX_NAME_LEN_def)
  let ?d = "?c\<lparr>timeout_abs_beat := date, timeout_ref := r\<rparr>"
  let ?t = "set_ctx l (Some (change_state state_wait_arp_resp ?d)) (packet_output_to_slirptux f
    (with_env (\<lambda>e. e\<lparr>waiting_for_arp_reply := \<lparr>w_ip = ip, w_llid = l, w_port = word_of_nat port\<rparr> # waiting_for_arp_reply e\<rparr>)
      (set_ctx l (Some ?d) (with_env (\<lambda>e. e\<lparr>nat_wheel := w\<rparr>) (set_ctx l (Some ?c) s)))))"
  have arm: "alloc_ctx_waiting_for_vmtx False ?c l (set_ctx l (Some ?c) s) = Some (True,
    with_env (\<lambda>e. e\<lparr>waiting_for_arp_reply := \<lparr>w_ip = ip, w_llid = l, w_port = word_of_nat port\<rparr> # waiting_for_arp_reply e\<rparr>)
      (set_ctx l (Some ?d) (with_env (\<lambda>e. e\<lparr>nat_wheel := w\<rparr>) (set_ctx l (Some ?c) s))))"
    using add c tk by (simp add: alloc_ctx_waiting_for_vmtx_def arm_timeout_waiting_for_vmtx_def timeout_add_def set_ctx_def with_env_def)
  have run: "unix2inet_ssh_rx_cb l (c_bytes (client_line user ip port)) s = Some ?t"
    using l ctx st(1) f arm c(3)
    by (simp add: unix2inet_ssh_rx_cb_def find_ctx_def kout_if_bind good_line_read [OF g] request_mac_with_ip_def set_ctx_def with_env_def
        packet_output_to_slirptux_def)
  show ?thesis
    by (rule that [OF run f])
      (use add in \<open>simp_all add: set_ctx_def with_env_def packet_output_to_slirptux_def change_state_def\<close>)
qed

section \<open>Properties\<close>

lemma arp_req_fields:
  assumes "format_arp_req get_unix2inet_ip ip = Some f" and "ip_string_to_int ip = Some a"
  shows "get_proto 42 f = Some proto_arp_req" and "get_arp_tip f = Some (int_to_ip_string a)" and "get_arp_sip f = Some get_unix2inet_ip"
    and "take 6 f = replicate 6 0xFF"
proof -
  let ?m = "if ip = get_gw_ip then OUR_MAC_GW else if ip = get_dns_ip then OUR_MAC_DNS else OUR_MAC_CISCO"
  obtain m where m: "length m = 6" "f = replicate 6 0xFF @ m @ arp_head 0x01 @ m @ bytes32 0xAC110001 @ replicate 6 0x00 @ bytes32 a"
  proof (rule that [of ?m])
    show "length ?m = 6" by (simp add: OUR_MAC_GW_def OUR_MAC_DNS_def OUR_MAC_CISCO_def)
    show "f = replicate 6 0xFF @ ?m @ arp_head 0x01 @ ?m @ bytes32 0xAC110001 @ replicate 6 0x00 @ bytes32 a"
      using assms by (simp add: format_arp_req_def put_ip_def our_ips_int Let_def)
  qed
  obtain m0 m1 m2 m3 m4 m5 where ms: "m = [m0, m1, m2, m3, m4, m5]" using m(1) by (auto simp: numeral_eq_Suc length_Suc_conv)
  have b: "bytes32 0xAC110001 = [172, 17, 0, 1]" by code_simp
  have r: "replicate 6 x = [x, x, x, x, x, x]" for x :: u8 by (simp add: numeral_eq_Suc)
  have f: "f = [0xFF, 0xFF, 0xFF, 0xFF, 0xFF, 0xFF, m0, m1, m2, m3, m4, m5, 0x08, 0x06, 0x00, 0x01, 0x08, 0x00, 0x06, 0x04, 0x00, 0x01,
      m0, m1, m2, m3, m4, m5, 172, 17, 0, 1, 0, 0, 0, 0, 0, 0, byte32 3 a, byte32 2 a, byte32 1 a, byte32 0 a]"
    unfolding m(2) ms b r arp_head_def by (simp add: bytes32_def)
  show "get_proto 42 f = Some proto_arp_req" "take 6 f = replicate 6 0xFF"
    by (simp_all add: f r get_proto_def peek_def MAC_HEADER_def)
  show "get_arp_tip f = Some (int_to_ip_string a)" "get_arp_sip f = Some get_unix2inet_ip"
    by (simp_all add: f get_arp_tip_def get_arp_sip_def kout_if_bind int_to_ip_string_def our_ips)
qed

text \<open>C25: the line of a client is understood. For every user, address and port, munat reads of the line
  \<open>user=...=ip=...=port=...=cloonix_info_end\<close> exactly that user, address and port; the client then waits for the
  machine, and one frame goes out, a broadcast ARP request of 172.17.0.1 for the address of the line.
\<close>
theorem client_line_understood:
  assumes "good_line user ip port" and "\<not> bad_llid l" and "llid_to_ctx (env s) l = Some ctx" and "ctx_state ctx = state_wait_info"
    and "timeout_abs_beat ctx = 0" and "timeout_ref ctx = 0"
  shows "\<exists>t c f a. unix2inet_ssh_rx_cb l (c_bytes (client_line user ip port)) s = Some t \<and>
     llid_to_ctx (env t) l = Some c \<and> remote_user c = user \<and> remote_ip_txt c = ip \<and> ctx_remote_port c = word_of_nat port \<and>
     ctx_state c = state_wait_arp_resp \<and> low_out t = low_out s @ [f] \<and> take 6 f = replicate 6 0xFF \<and>
     get_proto 42 f = Some proto_arp_req \<and> get_arp_sip f = Some get_unix2inet_ip \<and>
     ip_string_to_int ip = Some a \<and> get_arp_tip f = Some (int_to_ip_string a)"
proof -
  obtain a where a: "ip_string_to_int ip = Some a" using assms(1) by (auto simp: good_line_def)
  obtain t f date r where t: "unix2inet_ssh_rx_cb l (c_bytes (client_line user ip port)) s = Some t"
    "format_arp_req get_unix2inet_ip ip = Some f" "low_out t = low_out s @ [f]"
    "llid_to_ctx (env t) = (llid_to_ctx (env s))(l \<mapsto> (named_ctx user ip port ctx)
      \<lparr>timeout_abs_beat := date, timeout_ref := r, ctx_state := state_wait_arp_resp\<rparr>)"
    using client_waits [OF assms] by metis
  note f = arp_req_fields [OF t(2) a]
  let ?c = "(named_ctx user ip port ctx)\<lparr>timeout_abs_beat := date, timeout_ref := r, ctx_state := state_wait_arp_resp\<rparr>"
  show ?thesis
    by (rule exI [of _ t], rule exI [of _ ?c]) (use t(1,3,4) f a in \<open>simp add: named_ctx_def\<close>)
qed

lemma demo_good_line: "good_line ''me'' ''172.17.0.99'' 22"
proof -
  have "is_word ''me''" "is_word ''172.17.0.99''" "strstr_at ''me'' ''cloonix_info_end'' = None"
    "strstr_at ''172.17.0.99'' ''cloonix_info_end'' = None" "ip_string_to_int ''172.17.0.99'' \<noteq> None" by code_simp+
  then show ?thesis by (simp add: good_line_def MAX_NAME_LEN_def)
qed

theorem client_line_understood_witness:
  "\<exists>t c. unix2inet_ssh_rx_cb 5 (c_bytes (client_line ''me'' ''172.17.0.99'' 22))
      (set_ctx 5 (Some \<lparr>ctx_state = state_wait_info, ctx_llid = 5, remote_user = [], remote_ip_txt = [],
       ctx_remote_port = 0, timeout_abs_beat = 0, timeout_ref = 0, ctx_tcpid = zero_tcpid\<rparr>) (munat_init ''8.8.8.8'')) = Some t \<and>
     llid_to_ctx (env t) 5 = Some c \<and> remote_user c = ''me'' \<and> remote_ip_txt c = ''172.17.0.99'' \<and> ctx_state c = state_wait_arp_resp"
proof -
  let ?c = "\<lparr>ctx_state = state_wait_info, ctx_llid = 5, remote_user = [], remote_ip_txt = [],
       ctx_remote_port = 0, timeout_abs_beat = 0, timeout_ref = 0, ctx_tcpid = zero_tcpid\<rparr>"
  have l: "\<not> bad_llid 5" by (simp add: bad_llid_def CLOWNIX_MAX_CHANNELS_def)
  have c: "llid_to_ctx (env (set_ctx 5 (Some ?c) (munat_init ''8.8.8.8''))) 5 = Some ?c" by (simp add: set_ctx_def with_env_def)
  from client_line_understood [OF demo_good_line l c] show ?thesis by auto
qed

text \<open>C26: two clients that ask for the same silent address stop munat. When a second client has asked
  for the address that the first one waits for and then leaves, the refusal for the first client is sent to
  the second one, whose channel is closed, and the process ends; all the events before are handled.
\<close>
theorem silent_address_is_fatal:
  assumes "good_line user ip port" and "\<not> bad_llid l1" and "\<not> bad_llid l2" and "l1 \<noteq> l2"
    and "llid_to_ctx (env s) l1 = None" and "llid_to_ctx (env s) l2 = None" and "llid_to_clo s l2 = None"
  shows "\<exists>t. run_events (munat_step n) s [Client_connects l1, Client_writes l1 (c_bytes (client_line user ip port)),
       Client_connects l2, Client_writes l2 (c_bytes (client_line user ip port)), Client_fails l2] = Some t \<and>
     munat_step n t (Wait_timer \<lparr>ti_llid = l1, ti_ip = ip, ti_is_synack = False\<rparr>) = None"
proof -
  let ?line = "c_bytes (client_line user ip port)"
  have connect: "\<exists>t c. munat_step n s (Client_connects l) = Some t \<and> llid_to_ctx (env t) = (llid_to_ctx (env s))(l \<mapsto> c) \<and>
      ctx_state c = state_wait_info \<and> timeout_abs_beat c = 0 \<and> timeout_ref c = 0 \<and> llid_to_clo t = llid_to_clo s \<and> chan_open (env t) l"
    if "llid_to_ctx (env s) l = None" "\<not> bad_llid l" for l and s :: munat
    using that by (auto simp: unix2inet_ssh_connect_def find_ctx_def kout_if_bind alloc_ctx_def set_ctx_def with_env_def change_state_def)
  obtain a c1 where a: "munat_step n s (Client_connects l1) = Some a" "llid_to_ctx (env a) = (llid_to_ctx (env s))(l1 \<mapsto> c1)"
    "ctx_state c1 = state_wait_info" "timeout_abs_beat c1 = 0" "timeout_ref c1 = 0" "llid_to_clo a = llid_to_clo s"
    using connect [OF assms(5,2)] by blast
  have "llid_to_ctx (env a) l1 = Some c1" using a(2) by simp
  from client_waits [OF assms(1,2) this a(3-5)] obtain b d1 where b: "unix2inet_ssh_rx_cb l1 ?line a = Some b"
    "llid_to_ctx (env b) = (llid_to_ctx (env a))(l1 \<mapsto> d1)" "llid_to_clo b = llid_to_clo a" by metis
  have "llid_to_ctx (env b) l2 = None" using a(2) b(2) assms(4,6) by simp
  from connect [OF this assms(3)] obtain c c2 where c: "munat_step n b (Client_connects l2) = Some c"
    "llid_to_ctx (env c) = (llid_to_ctx (env b))(l2 \<mapsto> c2)" "ctx_state c2 = state_wait_info" "timeout_abs_beat c2 = 0" "timeout_ref c2 = 0"
    "llid_to_clo c = llid_to_clo b" by blast
  have "llid_to_ctx (env c) l2 = Some c2" using c(2) by simp
  from client_waits [OF assms(1,3) this c(3-5)] obtain d d2 where d: "unix2inet_ssh_rx_cb l2 ?line c = Some d"
    "llid_to_ctx (env d) = (llid_to_ctx (env c))(l2 \<mapsto> d2)" "llid_to_clo d = llid_to_clo c"
    "waiting_for_arp_reply (env d) = \<lparr>w_ip = ip, w_llid = l2, w_port = word_of_nat port\<rparr> # waiting_for_arp_reply (env c)" by metis
  have clo: "llid_to_clo d l2 = None" using a(6) b(3) c(6) d(3) assms(7) by simp
  have ctx: "llid_to_ctx (env d) l2 = Some d2" "llid_to_ctx (env d) l1 = Some d1" using b(2) c(2) d(2) assms(4) by simp_all
  define e where "e = (if exist_channel l2 (env (set_ctx l2 None d)) then with_env (delete_channel l2) (set_ctx l2 None d) else set_ctx l2 None d)"
  have e: "munat_step n d (Client_fails l2) = Some e"
    using ctx(1) clo assms(3) by (simp add: unix2inet_ssh_err_cb_def free_ctx_def find_ctx_def kout_if_bind llid_slirptux_tcp_close_llid_def
        util_get_clo_def delete_if_exists_def e_def)
  have ek: "waiting_for_arp_reply (env e) = waiting_for_arp_reply (env d)" "llid_to_ctx (env e) l1 = Some d1" "\<not> chan_open (env e) l2"
    using ctx(2) assms(3,4) by (auto simp: e_def set_ctx_def with_env_def delete_channel_def exist_channel_def bad_llid_def)
  have "timeout_waiting_for_vmtx \<lparr>ti_llid = l1, ti_ip = ip, ti_is_synack = False\<rparr> e = None"
    using ek d(4) assms(2) by (simp add: timeout_waiting_for_vmtx_def free_ctx_waiting_for_vmtx_def find_ctx_def kout_if_bind
        doorways_tx_resp_def data_tx_def c_bytes_def Let_def)
  moreover have "run_events (munat_step n) s [Client_connects l1, Client_writes l1 ?line, Client_connects l2, Client_writes l2 ?line, Client_fails l2] = Some e"
    unfolding run_events.simps a(1) c(1) e bind.bind_lunit by (simp add: b(1) c(1) [simplified] d(1) e [simplified])
  ultimately show ?thesis by simp
qed

theorem silent_address_is_fatal_witness:
  "\<exists>t. run_events (munat_step demo_net) (munat_init ''8.8.8.8'') [Client_connects 5, Client_writes 5 (c_bytes (client_line ''me'' ''172.17.0.99'' 22)),
       Client_connects 6, Client_writes 6 (c_bytes (client_line ''me'' ''172.17.0.99'' 22)), Client_fails 6] = Some t \<and>
     munat_step demo_net t (Wait_timer \<lparr>ti_llid = 5, ti_ip = ''172.17.0.99'', ti_is_synack = False\<rparr>) = None"
  by (rule silent_address_is_fatal [OF demo_good_line])
    (simp_all add: bad_llid_def CLOWNIX_MAX_CHANNELS_def munat_init_def clo_init_def clo_mngt_init_def nat_env_init_def)

end
