(* ===== verification/Nat_Connect.thy ===== *)
theory Nat_Connect
  imports Nat_Run
begin

text \<open>
  The end of an attempt to connect a machine to the outside: the attempt that is refused, and the one
  that is never answered.
\<close>

section \<open>What a close leaves of the environment\<close>

text \<open>A part of the environment that neither the data for a channel nor its deletion changes.\<close>

definition untouched :: "'e clo_chan \<Rightarrow> ('e \<Rightarrow> 'a) \<Rightarrow> bool" where
  "untouched ch f \<longleftrightarrow> (\<forall>l e. f (msg_delete_channel ch l e) = f e) \<and> (\<forall>tid d e. f (high_data_rx ch tid d e) = f e)"

lemma with_clo_env [simp]: "with_clo r g s = Some t \<Longrightarrow> env t = env s"
  by (auto simp: with_clo_def bind_eq_Some set_clo_def)

lemma quiet_env:
  "async_for num r s = Some t \<Longrightarrow> env t = env s"
  "util_detach_llid_clo l r s = Some t \<Longrightarrow> env t = env s"
  "local_send_finack_state_fin r s = Some t \<Longrightarrow> env t = env s"
  "local_send_reset_state_closed r s = Some t \<Longrightarrow> env t = env s"
proof -
  have seg: "env (send_seg tid a q w fl n d s) = env s" for tid a q w fl n d and s :: "'e clo_sys"
    by (simp add: send_seg_def split_beta)
  show "async_for num r s = Some t \<Longrightarrow> env t = env s" by (auto simp: async_for_def bind_eq_Some async_fct_call_def Let_def)
  show "util_detach_llid_clo l r s = Some t \<Longrightarrow> env t = env s"
    by (auto simp: util_detach_llid_clo_def bind_eq_Some set_llid_def with_clo_def set_clo_def kout_if_bind split: if_splits)
  show "local_send_finack_state_fin r s = Some t \<Longrightarrow> env t = env s"
    by (auto simp: local_send_finack_state_fin_def send_finack_and_move_def bind_eq_Some Let_def set_clo_def util_sends seg split: if_splits)
  show "local_send_reset_state_closed r s = Some t \<Longrightarrow> env t = env s"
    by (auto simp: local_send_reset_state_closed_def send_reset_state_closed_def bind_eq_Some with_clo_def set_clo_def util_sends seg)
qed

lemma close_channel_untouched:
  assumes u: "untouched ch f" and c: "close_channel ch r s = Some t"
  shows "f (env t) = f (env s)"
proof -
  obtain c0 where c0: "deref r s = Some c0" using c by (auto simp: close_channel_def bind_eq_Some)
  define v where "v = (if msg_exist_channel ch (llid (tcpid c0)) (env s) then s\<lparr>env := msg_delete_channel ch (llid (tcpid c0)) (env s)\<rparr> else s)"
  have v: "f (env v) = f (env s)" using u by (simp add: v_def untouched_def)
  obtain c1 :: t_clo where "(if llid (tcpid c1) \<noteq> 0 then util_detach_llid_clo (llid (tcpid c1)) r v else Some v) = Some t"
    using c unfolding close_channel_def c0 bind.bind_lunit Let_def v_def [symmetric] bind_eq_Some by blast
  then have "env t = env v" using quiet_env(2) by (metis option.inject)
  with v show ?thesis by simp
qed

lemma deliver_untouched:
  assumes u: "untouched ch f" and c: "deliver_rxdata ch r s = Some t"
  shows "f (env t) = f (env s)"
proof -
  obtain c0 data c1 where "deref r s = Some c0" "clo_mngt_get_new_rxdata c0 = Some (data, c1)"
    using c by (auto simp: deliver_rxdata_def bind_eq_Some)
  with c have "t = (case data of None \<Rightarrow> set_clo r c1 s | Some d \<Rightarrow> (set_clo r c1 s)\<lparr>env := high_data_rx ch (tcpid c1) d (env (set_clo r c1 s))\<rparr>)"
    by (simp add: deliver_rxdata_def Let_def)
  then show ?thesis using u by (cases data) (simp_all add: untouched_def set_clo_def)
qed

lemma purge_untouched:
  assumes u: "untouched ch f" and c: "local_rx_data_purge ch r s = Some t"
  shows "f (env t) = f (env s)"
proof -
  obtain v where v: "v = s \<or> deliver_rxdata ch r s = Some v" "with_clo r (\<lambda>c. c\<lparr>head_ldata := []\<rparr>) v = Some t"
    using c by (auto simp: local_rx_data_purge_def bind_eq_Some Let_def split: if_splits)
  have "f (env v) = f (env s)" using v(1) deliver_untouched [OF u] by blast
  then show ?thesis using v(2) by simp
qed

lemma close_tx_untouched:
  assumes u: "untouched ch f" and c: "clo_high_close_tx ch tid s = Some (b, t)"
  shows "f (env t) = f (env s)"
proof (cases "clo_mngt_find tid s")
  case (Some o')
  show ?thesis
  proof (cases o')
    case None
    with c Some show ?thesis by (simp add: clo_high_close_tx_def)
  next
    case r: (Some r)
    obtain v w d where v: "close_channel ch r s = Some v" "local_rx_data_purge ch r v = Some w" "deref r w = Some d"
      using c Some r by (auto simp: clo_high_close_tx_def bind_eq_Some)
    have "env t = env w"
      using c Some r v quiet_env with_clo_env unfolding clo_high_close_tx_def
      by (cases "state d") (auto simp: bind_eq_Some split: if_splits)
    then show ?thesis using close_channel_untouched [OF u v(1)] purge_untouched [OF u v(2)] by simp
  qed
qed (use c in \<open>simp add: clo_high_close_tx_def\<close>)

lemma nat_untouched: "untouched nat_chan head_ctx" "untouched nat_chan closed_fds"
  by (simp_all add: untouched_def nat_chan_def delete_channel_def llid_clo_data_rx_def chan_append_def)

lemma close_llid_keeps:
  assumes "llid_slirptux_tcp_close_llid l s = Some t"
  shows "head_ctx (env t) = head_ctx (env s) \<and> closed_fds (env t) = closed_fds (env s)"
proof -
  have k: "head_ctx (env v) = head_ctx (env u) \<and> closed_fds (env v) = closed_fds (env u)"
    if "clo_high_close_tx nat_chan tid u = Some (b, v)" for tid u b v
    using close_tx_untouched [OF nat_untouched(1) that] close_tx_untouched [OF nat_untouched(2) that] by simp
  obtain f where f: "util_get_clo l s = Some f" using assms by (auto simp: llid_slirptux_tcp_close_llid_def bind_eq_Some)
  show ?thesis
  proof (cases f)
    case None
    with assms f show ?thesis by (simp add: llid_slirptux_tcp_close_llid_def)
  next
    case (Some r)
    with assms f obtain u and c :: t_clo and b where "with_clo r (\<lambda>c. c\<lparr>has_been_closed_from_outside_socket := 1\<rparr>) s = Some u"
      "clo_high_close_tx nat_chan (tcpid c) u = Some (b, t)"
      by (auto simp: llid_slirptux_tcp_close_llid_def bind_eq_Some)
    then show ?thesis using k by simp
  qed
qed

lemma free_ctx_keeps:
  assumes "free_ctx l s = Some t"
  shows "head_ctx (env t) = head_ctx (env s) \<and> closed_fds (env t) = closed_fds (env s)"
proof -
  obtain u where u: "u = s \<or> llid_slirptux_tcp_close_llid l s = Some u" "t = set_ctx l None u \<or> t = u \<or> t = with_env (delete_channel l) (set_ctx l None u) \<or>
     t = with_env (delete_channel l) u"
    using assms by (auto simp: free_ctx_def bind_eq_Some delete_if_exists_def split: option.splits if_splits)
  have "head_ctx (env u) = head_ctx (env s) \<and> closed_fds (env u) = closed_fds (env s)" using u(1) close_llid_keeps by blast
  then show ?thesis using u(2) by (auto simp: set_ctx_def delete_channel_def)
qed

lemma high_close_rx_keeps:
  assumes "llid_clo_high_close_rx tid s = Some t"
  shows "head_ctx (env t) = head_ctx (env s) \<and> closed_fds (env t) = closed_fds (env s)"
proof -
  obtain u f where u: "unix2inet_close_tcpid tid s = Some u" "util_get_fast_clo tid u = Some f"
    using assms by (auto simp: llid_clo_high_close_rx_def bind_eq_Some)
  have "u = s \<or> (\<exists>l. free_ctx l s = Some u)"
    using u(1) by (auto simp: unix2inet_close_tcpid_def bind_eq_Some Let_def split: if_splits option.splits)
  then have 1: "head_ctx (env u) = head_ctx (env s) \<and> closed_fds (env u) = closed_fds (env s)" using free_ctx_keeps by blast
  show ?thesis
  proof (cases f)
    case None
    with assms u 1 show ?thesis by (simp add: llid_clo_high_close_rx_def)
  next
    case (Some r)
    with assms u obtain c :: t_clo and b where "clo_high_close_tx nat_chan (tcpid c) u = Some (b, t)"
      by (auto simp: llid_clo_high_close_rx_def bind_eq_Some)
    then show ?thesis using 1 close_tx_untouched [OF nat_untouched(1)] close_tx_untouched [OF nat_untouched(2)] by metis
  qed
qed

section \<open>A connection that is refused\<close>

lemma high_close_rx_None_iff:
  fixes tid :: t_tcp_id
  assumes "stack_inv P W s"
  shows "llid_clo_high_close_rx tid s = None \<longleftrightarrow> our_concern tid \<and> bad_llid (uint (local_port tid) - OFFSET_PORT)"
proof
  assume "llid_clo_high_close_rx tid s = None"
  then have "\<not> nat_addr (local_addr tid)" using high_close_rx_ok [OF assms, of tid] by (auto simp: ok_def)
  then show "our_concern tid \<and> bad_llid (uint (local_port tid) - OFFSET_PORT)"
    by (auto simp: nat_addr_def local_addr_def our_concern_iff)
next
  assume "our_concern tid \<and> bad_llid (uint (local_port tid) - OFFSET_PORT)"
  then show "llid_clo_high_close_rx tid s = None"
    by (simp add: llid_clo_high_close_rx_def unix2inet_close_tcpid_def kout_if_bind Let_def)
qed

text \<open>An attempt that is on the list, under its own connection, and has its socket.\<close>

definition pending_connect :: "nat \<Rightarrow> t_connect_ctx \<Rightarrow> munat \<Rightarrow> bool" where
  "pending_connect i c s \<longleftrightarrow> get_connect i s = Some c \<and> map_option cc_id (find_connect (cc_tcpid c) s) = Some i \<and>
     \<not> end_ctx_call c \<and> cc_llid c = 0 \<and> 0 \<le> cc_fd c \<and> cc_fd c < MAX_SELECT_CHANNELS - 1"

definition counted :: "t_connect_ctx \<Rightarrow> t_connect_ctx" where
  "counted c = c\<lparr>timer_abs_beat := 0, timer_ref := 0, cc_count := cc_count c + 1\<rparr>"

lemma end_ctx_fail_eq:
  assumes "get_connect i s = Some c" and "\<not> end_ctx_call c" and "timer_abs_beat c = 0" and "cc_llid c = 0"
  shows "end_ctx i (-1) s = llid_clo_high_close_rx (cc_tcpid c) (set_connect (c\<lparr>end_ctx_call := True\<rparr>) s) \<bind>
    (\<lambda>s. Some (with_env (\<lambda>e. e\<lparr>closed_fds := closed_fds e @ [cc_fd c], head_ctx := remove_first (\<lambda>d. cc_id d = i) (head_ctx e)\<rparr>) s))"
  using assms by (simp add: end_ctx_def callback_connect_def with_env_def Let_def)

lemma pendingD:
  assumes "pending_connect i c s"
  shows "cc_id c = i" and "get_connect i (set_connect (counted c) s) = Some (counted c)"
    and "map_option cc_id (find_connect (cc_tcpid c) (set_connect (counted c) s)) = Some i"
proof -
  have get: "get_connect i s = Some c" and find: "map_option cc_id (find_connect (cc_tcpid c) s) = Some i"
    using assms by (simp_all add: pending_connect_def)
  show id: "cc_id c = i" by (rule find_cc_id [OF get])
  show "get_connect i (set_connect (counted c) s) = Some (counted c)" by (rule get_set_connect [OF get]) (simp add: counted_def id)
  have "map_option cc_id (find (\<lambda>d. util_tcpid_comp (cc_tcpid d) tid) (replace_first (\<lambda>d. cc_id d = i) (\<lambda>_. counted c) xs)) =
      map_option cc_id (find (\<lambda>d. util_tcpid_comp (cc_tcpid d) tid) xs)"
    if "find (\<lambda>d. cc_id d = i) xs = Some c" for xs and tid :: t_tcp_id
    using that by (induction xs) (auto simp: counted_def)
  then show "map_option cc_id (find_connect (cc_tcpid c) (set_connect (counted c) s)) = Some i"
    using get find by (simp add: find_connect_def get_connect_def set_connect_def with_env_def counted_def id)
qed

lemma timer_connect_wait_eq:
  assumes "pending_connect i c s"
  shows "timer_connect_wait n i s = (if 30 < cc_count c + 1 then end_ctx i (-1) (set_connect (counted c) s)
     else case connect_state n (cc_fd c) (cc_count c + 1) of
       Not_writable \<Rightarrow> timeout_add 5 (Timer_connect_wait i) (set_connect (counted c) s) \<bind>
         (\<lambda>((date, r), s). Some (set_connect ((counted c)\<lparr>timer_abs_beat := date, timer_ref := r\<rparr>) s))
     | So_error \<Rightarrow> end_ctx i (-1) (set_connect (counted c) s)
     | Connected l \<Rightarrow> kout_if (l \<le> 0) \<bind> (\<lambda>_. end_ctx i l (set_connect ((counted c)\<lparr>cc_llid := l\<rparr>)
         (with_env (\<lambda>e. e\<lparr>chan_open := (chan_open e)(l := True), chan_tx := (chan_tx e)(l := [])\<rparr>) (set_connect (counted c) s)))))"
proof -
  have c: "get_connect i s = Some c" "map_option cc_id (find_connect (cc_tcpid c) s) = Some i" "\<not> (cc_fd c < 0 \<or> MAX_SELECT_CHANNELS - 1 \<le> cc_fd c)"
    using assms by (auto simp: pending_connect_def)
  have d: "c\<lparr>timer_abs_beat := 0, timer_ref := 0, cc_count := cc_count c + 1\<rparr> = counted c" "cc_fd (counted c) = cc_fd c"
    "cc_count (counted c) = cc_count c + 1" by (simp_all add: counted_def)
  show ?thesis
    using c(3) unfolding timer_connect_wait_def c(1) bind.bind_lunit Let_def c(2) d
    by (cases "connect_state n (cc_fd c) (cc_count c + 1)") (simp_all add: kout_if_bind)
qed


section \<open>A connection that is never answered\<close>

lemma ids_replace_first: "cc_id x = i \<Longrightarrow> map cc_id (replace_first (\<lambda>d. cc_id d = i) (\<lambda>_. x) xs) = map cc_id xs"
  by (induction xs) auto

lemma ids_remove_first: "map cc_id (remove_first (\<lambda>d. cc_id d = i) xs) = remove1 i (map cc_id xs)"
  by (induction xs) auto

lemma wait_once:
  assumes "pending_connect i c s" and "stack_inv P W s" and "cc_count c < 30" and "connect_state n (cc_fd c) (cc_count c + 1) = Not_writable"
  shows "\<exists>t d. timer_connect_wait n i s = Some t \<and> pending_connect i d t \<and> stack_inv P W t \<and> cc_count d = cc_count c + 1 \<and>
    cc_fd d = cc_fd c \<and> cc_tcpid d = cc_tcpid c \<and> closed_fds (env t) = closed_fds (env s) \<and> map cc_id (head_ctx (env t)) = map cc_id (head_ctx (env s))"
proof -
  let ?s = "set_connect (counted c) s"
  note p = pendingD [OF assms(1)]
  obtain date r w where w: "clownix_timeout_add 5 (Timer_connect_wait i) (nat_wheel (env ?s)) = Some ((date, r), w)"
    by (auto simp: clownix_timeout_add_def plug_elem_def kout_if_bind Let_def MIN_TIMEOUT_BEATS_def MAX_TIMEOUT_BEATS_def)
  let ?d = "(counted c)\<lparr>timer_abs_beat := date, timer_ref := r\<rparr>"
  let ?u = "with_env (\<lambda>e. e\<lparr>nat_wheel := w\<rparr>) ?s"
  let ?t = "set_connect ?d ?u"
  have run: "timer_connect_wait n i s = Some ?t"
    using assms(3,4) w by (simp add: timer_connect_wait_eq [OF assms(1)] timeout_add_def)
  have u: "get_connect i ?u = Some (counted c)" "map_option cc_id (find_connect (cc_tcpid c) ?u) = Some i"
    using p(2,3) by (simp_all add: get_connect_def find_connect_def)
  have id: "cc_id (counted c) = i" using p(1) by (simp add: counted_def)
  have get: "get_connect i ?t = Some ?d" by (rule get_set_connect [OF u(1)]) (simp add: id)
  have "map_option cc_id (find (\<lambda>d. util_tcpid_comp (cc_tcpid d) tid) (replace_first (\<lambda>d. cc_id d = i) (\<lambda>_. ?d) xs)) =
      map_option cc_id (find (\<lambda>d. util_tcpid_comp (cc_tcpid d) tid) xs)"
    if "find (\<lambda>d. cc_id d = i) xs = Some (counted c)" for xs and tid :: t_tcp_id
    using that by (induction xs) auto
  then have "map_option cc_id (find_connect (cc_tcpid c) ?t) = Some i"
    using u by (simp add: find_connect_def get_connect_def set_connect_def id)
  then have "pending_connect i ?d ?t" using get assms(1) by (simp add: pending_connect_def counted_def)
  moreover have "stack_inv P W ?t" using assms(2) by simp
  moreover have "map cc_id (head_ctx (env ?t)) = map cc_id (head_ctx (env s))" by (simp add: set_connect_def id ids_replace_first)
  ultimately show ?thesis using run by (intro exI [of _ ?t] exI [of _ ?d]) (simp add: counted_def set_connect_def)
qed

lemma wait_many:
  assumes "pending_connect i c s" and "stack_inv P W s" and "cc_count c + int k \<le> 30" and "\<And>m. connect_state n (cc_fd c) m = Not_writable"
  shows "\<exists>t d. run_events (\<lambda>s _. timer_connect_wait n i s) s (replicate k ()) = Some t \<and> pending_connect i d t \<and> stack_inv P W t \<and>
    cc_count d = cc_count c + int k \<and> cc_fd d = cc_fd c \<and> cc_tcpid d = cc_tcpid c \<and> closed_fds (env t) = closed_fds (env s) \<and>
    map cc_id (head_ctx (env t)) = map cc_id (head_ctx (env s))"
  using assms
proof (induction k arbitrary: c s)
  case (Suc k)
  have "cc_count c < 30" using Suc.prems(3) by simp
  from wait_once [OF Suc.prems(1,2) this Suc.prems(4)] obtain u e where u: "timer_connect_wait n i s = Some u" "pending_connect i e u"
    "stack_inv P W u" "cc_count e = cc_count c + 1" "cc_fd e = cc_fd c" "cc_tcpid e = cc_tcpid c" "closed_fds (env u) = closed_fds (env s)"
    "map cc_id (head_ctx (env u)) = map cc_id (head_ctx (env s))" by blast
  have "cc_count e + int k \<le> 30" using Suc.prems(3) u(4) by simp
  moreover have "\<And>m. connect_state n (cc_fd e) m = Not_writable" using Suc.prems(4) u(5) by simp
  ultimately obtain t d where "run_events (\<lambda>s _. timer_connect_wait n i s) u (replicate k ()) = Some t" "pending_connect i d t" "stack_inv P W t"
    "cc_count d = cc_count e + int k" "cc_fd d = cc_fd e" "cc_tcpid d = cc_tcpid e" "closed_fds (env t) = closed_fds (env u)"
    "map cc_id (head_ctx (env t)) = map cc_id (head_ctx (env u))"
    using Suc.IH [OF u(2,3)] by blast
  with u show ?case by (intro exI [of _ t] exI [of _ d]) simp
qed auto


section \<open>Witnesses\<close>

definition demo_connect :: "u32 \<Rightarrow> t_connect_ctx" where
  "demo_connect ip = \<lparr>cc_id = 0, cc_tcpid = \<lparr>local_mac = OUR_MAC_CISCO, remote_mac = [2, 0, 0, 0, 0, 1], local_ip = ip, remote_ip = 0xAC11000B,
     local_port = 80, remote_port = 4000, llid = 0, llid_unlocked = 0\<rparr>, cc_fd = 10, cc_llid = 0, cc_count = 0, end_ctx_call = False,
     timer_abs_beat = 1, timer_ref = 1, cc_addr = (ip, 80)\<rparr>"

definition demo_connecting :: "u32 \<Rightarrow> munat" where
  "demo_connecting ip = with_env (\<lambda>e. e\<lparr>head_ctx := [demo_connect ip]\<rparr>) (munat_init ''8.8.8.8'')"

lemma demo_pending: "pending_connect 0 (demo_connect ip) (demo_connecting ip)" "stack_inv P W (demo_connecting ip)" "cc_count (demo_connect ip) = 0"
  by (simp_all add: pending_connect_def demo_connecting_def get_connect_def find_connect_def demo_connect_def util_tcpid_comp_def
      MAX_SELECT_CHANNELS_def munat_init_def clo_init_inv)



end
