(* ===== verification/Rx_Frame.thy ===== *)
theory Rx_Frame
  imports Prelude
begin

text \<open>
  The messages of the control channels (\<open>lib_ioc/src/chunk.c\<close>, \<open>rx_process.c\<close> and the reading side of
  \<open>msg_layer.c\<close>). A message is the text of an XML element; the bytes of a channel arrive in pieces of
  any size, which are kept on a chain until the closing tag of the element has come.
\<close>

section \<open>The chain of received pieces\<close>

text \<open>\<open>ck_id\<close> is the address of the object; the length of \<open>chunk\<close> is \<open>len\<close>.\<close>

record t_data_chunk =
  ck_id :: nat
  chunk :: string
  len_done :: nat
  start_len_done :: nat

datatype t_rx_type = rx_type_watch | rx_type_listen | rx_type_ascii_start | rx_type_open_bound_found | rx_type_rawdata

text \<open>\<open>next_chunk\<close> is the address that \<open>malloc\<close> gives next.\<close>

record t_data_channel =
  rx :: "t_data_chunk list"
  rx_bound_start :: "nat option"
  boundary :: "string option"
  i_bound_start :: nat
  dc_llid :: int
  decoding_state :: t_rx_type
  next_chunk :: nat

definition MAX_SIZE_BIGGEST_MSG :: nat where "MAX_SIZE_BIGGEST_MSG = 100000"

definition all_done :: "t_data_chunk \<Rightarrow> t_data_chunk" where
  "all_done c = c\<lparr>len_done := length (chunk c)\<rparr>"

text \<open>Called with the first chunk and a later one: the argument is the chain before that one.\<close>

definition push_done_limit :: "t_data_chunk list \<Rightarrow> t_data_chunk list" where
  "push_done_limit cs = map all_done cs"

definition chain_append :: "string \<Rightarrow> t_data_channel \<Rightarrow> t_data_channel" where
  "chain_append nrx d = d\<lparr>rx := rx d @ [\<lparr>ck_id = next_chunk d, chunk = nrx, len_done = 0, start_len_done = 0\<rparr>],
                          next_chunk := Suc (next_chunk d)\<rparr>"

text \<open>\<open>None\<close> is the null pointer: the whole chain is deleted.\<close>

definition chain_del :: "nat option \<Rightarrow> t_data_chunk list \<Rightarrow> t_data_chunk list" where
  "chain_del stop cs = dropWhile (\<lambda>c. Some (ck_id c) \<noteq> stop) cs"

definition chain_get_prev_len :: "t_data_chunk list \<Rightarrow> nat \<Rightarrow> nat run" where
  "chain_get_prev_len cs offset = do {
     kout_if (cs = [] \<or> length (chunk (hd cs)) \<le> offset);
     Some (sum_list (map (\<lambda>c. length (chunk c)) cs) - offset)
   }"

fun chain_copy_next :: "string \<Rightarrow> nat \<Rightarrow> t_data_chunk list \<Rightarrow> string run" where
  "chain_copy_next tot max_len [] = Some tot"
| "chain_copy_next tot max_len (c # cs) = do {
     kout_if (max_len < length tot + length (chunk c));
     chain_copy_next (tot @ chunk c) max_len cs
   }"

definition chain_copy :: "t_data_chunk list \<Rightarrow> nat \<Rightarrow> nat \<Rightarrow> string run" where
  "chain_copy cs offset max_len = (case cs of
     [] \<Rightarrow> Some []
   | c # cs \<Rightarrow> do {
       kout_if (max_len < length (chunk c) - offset);
       chain_copy_next (drop offset (chunk c)) max_len cs
     })"

definition make_a_buf_copy :: "t_data_chunk list \<Rightarrow> nat \<Rightarrow> string run" where
  "make_a_buf_copy cs offset = do {
     tot_len \<leftarrow> chain_get_prev_len cs offset;
     chain_copy cs offset tot_len
   }"

section \<open>The opening tag\<close>

definition alloc_boundary :: "string \<Rightarrow> nat \<Rightarrow> nat \<Rightarrow> t_data_channel \<Rightarrow> t_data_channel" where
  "alloc_boundary b ck i d = d\<lparr>boundary := Some b, rx_bound_start := Some ck, i_bound_start := i,
     decoding_state := rx_type_open_bound_found\<rparr>"

definition free_boundary :: "t_data_channel \<Rightarrow> t_data_channel" where
  "free_boundary d = d\<lparr>boundary := None, rx_bound_start := None, i_bound_start := 0,
     decoding_state := rx_type_ascii_start\<rparr>"

definition LT :: char where "LT = CHR ''<''"
definition GT :: char where "GT = CHR ''>''"
definition NUL :: char where "NUL = CHR 0x00"

definition is_good_first_letter_xml :: "char \<Rightarrow> bool" where
  "is_good_first_letter_xml c \<longleftrightarrow>
     (let n = (of_char c :: nat) in 97 \<le> n \<and> n \<le> 122 \<or> 65 \<le> n \<and> n \<le> 90) \<or> c = CHR '':'' \<or> c = CHR ''_''"

definition is_good_next_letter_xml :: "char \<Rightarrow> bool" where
  "is_good_next_letter_xml c \<longleftrightarrow> is_good_first_letter_xml c \<or>
     (let n = (of_char c :: nat) in 48 \<le> n \<and> n \<le> 57) \<or> c = CHR ''-'' \<or> c = CHR ''.''"

text \<open>The NULs before the first \<open><\<close> of its chunk become spaces.\<close>

definition blank_nuls :: "string \<Rightarrow> string" where
  "blank_nuls s = map (\<lambda>c. if c = NUL then CHR '' '' else c) (takeWhile (\<lambda>c. c \<noteq> LT) s) @ dropWhile (\<lambda>c. c \<noteq> LT) s"

fun detect_xml_start_in_chunk :: "t_data_chunk list \<Rightarrow> nat option \<times> t_data_chunk list" where
  "detect_xml_start_in_chunk [] = (None, [])"
| "detect_xml_start_in_chunk (c # cs) =
     (if LT \<in> set (chunk c) then (Some (ck_id c), c\<lparr>chunk := blank_nuls (chunk c)\<rparr> # cs)
      else let (r, cs') = detect_xml_start_in_chunk cs in (r, c # cs'))"

text \<open>
  The walk for an opening tag: \<open>found\<close> (0 nothing, 1 after \<open><\<close>, 2 in the name, 4 after \<open>>\<close>),
  the number of characters since the \<open><\<close>, and where that one is.
\<close>

type_synonym t_open = "nat \<times> nat \<times> (nat \<times> nat)"

fun open_bytes :: "nat \<Rightarrow> string \<Rightarrow> nat \<Rightarrow> t_open \<Rightarrow> t_open" where
  "open_bytes ck [] i st = st"
| "open_bytes ck (c # cs) i (found, nb, bd) =
     (let found = (if c = NUL then 0 else found) in
      if found = 2 then
        (if is_good_next_letter_xml c then open_bytes ck cs (Suc i) (2, nb + 1, bd)
         else if c = GT then (4, nb + 1, bd)
         else if c = LT then open_bytes ck cs (Suc i) (1, 1, (ck, i))
         else open_bytes ck cs (Suc i) (0, nb, bd))
      else if found = 1 then
        (if is_good_first_letter_xml c then open_bytes ck cs (Suc i) (2, nb + 1, bd)
         else if c = LT then open_bytes ck cs (Suc i) (1, 1, (ck, i))
         else open_bytes ck cs (Suc i) (0, nb, bd))
      else if c = LT then open_bytes ck cs (Suc i) (1, 1, (ck, i))
      else open_bytes ck cs (Suc i) (found, nb, bd))"

fun open_chunks :: "t_data_chunk list \<Rightarrow> t_open \<Rightarrow> t_open" where
  "open_chunks [] st = st"
| "open_chunks (c # cs) st =
     (let st' = open_bytes (ck_id c) (drop (start_len_done c) (chunk c)) (start_len_done c) st in
      if fst st' = 4 then st' else open_chunks cs st')"

definition chain_text :: "t_data_chunk list \<Rightarrow> string" where
  "chain_text cs = concat (map chunk cs)"

text \<open>The closing tag, from the \<open><\<close> at \<open>i_start\<close> of the first chunk and the \<open>nb\<close> characters of the opening one.\<close>

definition close_tag :: "t_data_chunk list \<Rightarrow> nat \<Rightarrow> nat \<Rightarrow> string run" where
  "close_tag cs i_start nb = do {
     let t = drop i_start (chunk (hd cs)) @ chain_text (tl cs);
     kout_if (nb < 3 \<or> cs = []);
     kout_if (length t < nb \<or> hd t \<noteq> LT);
     Some ([LT, CHR ''/''] @ take (nb - 1) (tl t))
   }"

text \<open>The result is the boundary, with the chunk and the position of the opening tag.\<close>

definition get_xml_start_boundary_from_chunk :: "t_data_chunk list \<Rightarrow> (string \<times> nat \<times> nat) option run" where
  "get_xml_start_boundary_from_chunk cs = do {
     kout_if (cs = []);
     let (found, nb, (ck, i)) = open_chunks cs (0, 0, (0, 0));
     if found = 4 then do {
       b \<leftarrow> close_tag (chain_del (Some ck) cs) i nb;
       Some (Some (b, ck, i))
     } else Some None
   }"

definition chunks_state_rx_type_ascii_start :: "t_data_channel \<Rightarrow> t_data_channel run" where
  "chunks_state_rx_type_ascii_start d = do {
     kout_if (boundary d \<noteq> None);
     if rx d = [] \<or> chunk (hd (rx d)) = [] then Some d
     else (case detect_xml_start_in_chunk (rx d) of
       (None, cs) \<Rightarrow> Some (d\<lparr>rx := chain_del None cs\<rparr>)
     | (Some ck, cs) \<Rightarrow> do {
         let d = d\<lparr>rx := chain_del (Some ck) cs\<rparr>;
         b \<leftarrow> get_xml_start_boundary_from_chunk (rx d);
         case b of
           None \<Rightarrow> Some d
         | Some (b, ck, i) \<Rightarrow> Some (alloc_boundary b ck i (d\<lparr>rx := chain_del (Some ck) (rx d)\<rparr>))
       })
   }"

section \<open>The closing tag\<close>

text \<open>
  The walk over the bytes of a chunk from \<open>len_done\<close> on: \<open>q\<close> is the number of characters of the
  boundary that match so far (state 0 of the source is \<open>q = 0\<close>), \<open>ld\<close> the new \<open>len_done\<close>, and \<open>push\<close>
  whether \<open>push_done_limit\<close> was called.
\<close>

datatype t_walk = Walk_nul nat bool | Walk_hit nat bool | Walk_end nat nat bool

fun close_bytes :: "string \<Rightarrow> string \<Rightarrow> nat \<Rightarrow> nat \<Rightarrow> nat \<Rightarrow> bool \<Rightarrow> t_walk" where
  "close_bytes b [] i q ld push = Walk_end q ld push"
| "close_bytes b (c # cs) i q ld push =
     (if c = NUL then Walk_nul i push
      else if q = 0 then
        (if c \<noteq> b ! 0 then close_bytes b cs (Suc i) 0 (ld + 1) push
         else close_bytes b cs (Suc i) 1 ld push)
      else if c = b ! q then
        (if Suc q = length b then Walk_hit ld push else close_bytes b cs (Suc i) (Suc q) ld push)
      else if c = b ! 0 then close_bytes b cs (Suc i) 1 ld push
      else close_bytes b cs (Suc i) 0 (ld + 1) True)"

definition pushed :: "bool \<Rightarrow> t_data_chunk list \<Rightarrow> t_data_chunk list" where
  "pushed p cs = (if p then push_done_limit cs else cs)"

text \<open>The results: the boundary was found, the chunk that hit a problem, and the chain.\<close>

fun close_chunks :: "string \<Rightarrow> t_data_chunk list \<Rightarrow> t_data_chunk list \<Rightarrow> nat \<Rightarrow> nat
    \<Rightarrow> (bool \<times> nat option \<times> t_data_chunk list) run" where
  "close_chunks b prev [] q tot = Some (False, None, prev)"
| "close_chunks b prev (c # cs) q tot = do {
     kout_if (length (chunk c) < len_done c);
     (case close_bytes b (drop (len_done c) (chunk c)) (len_done c) q (len_done c) False of
       Walk_nul i p \<Rightarrow>
         Some (False, Some (ck_id c), pushed p prev @ c\<lparr>start_len_done := i, len_done := Suc i\<rparr> # cs)
     | Walk_hit ld p \<Rightarrow>
         Some (True, if MAX_SIZE_BIGGEST_MSG \<le> tot + ld then Some (ck_id c) else None,
               pushed p prev @ c\<lparr>len_done := ld\<rparr> # cs)
     | Walk_end q ld p \<Rightarrow>
         (if MAX_SIZE_BIGGEST_MSG \<le> tot + ld
          then Some (False, Some (ck_id c), pushed p prev @ c\<lparr>len_done := ld\<rparr> # cs)
          else close_chunks b (pushed p prev @ [c\<lparr>len_done := ld\<rparr>]) cs q (tot + ld)))
   }"

definition get_close_boundary_from_chunk ::
  "t_data_chunk list \<Rightarrow> string \<Rightarrow> (bool \<times> nat option \<times> t_data_chunk list) run" where
  "get_close_boundary_from_chunk cs b =
     (if cs = [] then Some (False, None, [])
      else do {
        kout_if (chunk (hd cs) = []);
        kout_if (length b < 4);
        close_chunks b [] cs 0 0
      })"

text \<open>The positions that \<open>memchr\<close> stops at are those of the first character; the first whole match is taken.\<close>

definition find_pattern :: "string \<Rightarrow> string \<Rightarrow> nat option" where
  "find_pattern msg pat = (if length msg < length pat then None
     else find (\<lambda>i. msg ! i = hd pat \<and> take (length pat) (drop i msg) = pat) [0..<length msg - length pat + 1])"

definition look_for_boundary :: "string \<Rightarrow> string \<Rightarrow> nat run" where
  "look_for_boundary msg pat = do { i \<leftarrow> find_pattern msg pat; Some (i + length pat) }"

text \<open>A message is the text with its NUL.\<close>

definition chunks_state_rx_type_close_bound_found :: "t_data_channel \<Rightarrow> (string option \<times> t_data_channel) run" where
  "chunks_state_rx_type_close_bound_found d = do {
     b \<leftarrow> boundary d;
     (res, problem, cs) \<leftarrow> get_close_boundary_from_chunk (rx d) b;
     let d = d\<lparr>rx := cs\<rparr>;
     if res then do {
       kout_if (rx_bound_start d = None);
       kout_if (rx d = [] \<or> Some (ck_id (hd (rx d))) \<noteq> rx_bound_start d);
       tot_rx \<leftarrow> make_a_buf_copy (rx d) (i_bound_start d);
       end_found \<leftarrow> look_for_boundary tot_rx b;
       let d = free_boundary (d\<lparr>rx := chain_del None (rx d)\<rparr>);
       let left = drop end_found tot_rx;
       Some (Some (take end_found tot_rx @ [NUL]), if left \<noteq> [] then chain_append left d else d)
     } else (case problem of
       None \<Rightarrow> Some (None, d)
     | Some ck \<Rightarrow> Some (None, free_boundary (d\<lparr>rx := chain_del (Some ck) (rx d)\<rparr>)))
   }"

section \<open>The pieces as they come\<close>

text \<open>
  The call for a message gets the channel and the rest \<open>'s\<close> of the program; it may delete the channel,
  which leaves \<open>llid\<close> 0. The loop ends when no message is complete; \<open>None\<close> is also the loop that does
  not end.
\<close>

type_synonym 's msg_call = "string \<Rightarrow> t_data_channel \<times> 's \<Rightarrow> (t_data_channel \<times> 's) run"

partial_function (option) rx_loop :: "'s msg_call \<Rightarrow> t_data_channel \<times> 's \<Rightarrow> (t_data_channel \<times> 's) run" where
  "rx_loop cb ds =
     (if decoding_state (fst ds) \<noteq> rx_type_open_bound_found then Some ds
      else do {
        (m, d) \<leftarrow> chunks_state_rx_type_close_bound_found (fst ds);
        case m of
          Some msg \<Rightarrow> do {
            ds \<leftarrow> cb msg (d, snd ds);
            if dc_llid (fst ds) \<noteq> 0 then do {
              d \<leftarrow> chunks_state_rx_type_ascii_start (fst ds);
              rx_loop cb (d, snd ds)
            } else Some ds
          }
        | None \<Rightarrow>
            if decoding_state d = rx_type_ascii_start then do {
              d \<leftarrow> chunks_state_rx_type_ascii_start d;
              rx_loop cb (d, snd ds)
            } else Some (d, snd ds)
      })"

definition string_rx_to_process :: "'s msg_call \<Rightarrow> t_data_channel \<times> 's \<Rightarrow> (t_data_channel \<times> 's) run" where
  "string_rx_to_process cb ds = do {
     d \<leftarrow> (if decoding_state (fst ds) = rx_type_ascii_start then chunks_state_rx_type_ascii_start (fst ds) else Some (fst ds));
     rx_loop cb (d, snd ds)
   }"

definition new_rx_to_process :: "'s msg_call \<Rightarrow> string \<Rightarrow> t_data_channel \<times> 's \<Rightarrow> (t_data_channel \<times> 's) run" where
  "new_rx_to_process cb new_rx ds = do {
     let d = chain_append new_rx (fst ds);
     kout_if (decoding_state d \<notin> {rx_type_ascii_start, rx_type_open_bound_found});
     string_rx_to_process cb (d, snd ds)
   }"

definition chunk_chain_delete :: "t_data_channel \<Rightarrow> t_data_channel run" where
  "chunk_chain_delete d =
     (let d = d\<lparr>rx := chain_del None (rx d)\<rparr> in
      case decoding_state d of
        rx_type_ascii_start \<Rightarrow> do { kout_if (boundary d \<noteq> None); Some d }
      | rx_type_open_bound_found \<Rightarrow> do { kout_if (boundary d = None); Some (free_boundary d) }
      | _ \<Rightarrow> Some d)"

text \<open>
  A channel that can be read (\<open>rx_dchan_cb\<close>): \<open>rd\<close> is what \<open>util_read\<close> gives, \<open>None\<close> an error or the
  end of the stream. A channel of raw data is not cut into messages.
\<close>

definition rx_dchan_cb :: "'s msg_call \<Rightarrow> (t_data_channel \<times> 's \<Rightarrow> (t_data_channel \<times> 's) run) \<Rightarrow> string option
    \<Rightarrow> t_data_channel \<times> 's \<Rightarrow> (t_data_channel \<times> 's) run" where
  "rx_dchan_cb cb err rd ds = do {
     kout_if (dc_llid (fst ds) = 0);
     case rd of
       None \<Rightarrow> err ds
     | Some buf \<Rightarrow> if decoding_state (fst ds) = rx_type_rawdata then cb buf ds else new_rx_to_process cb buf ds
   }"

text \<open>A new channel of messages.\<close>

definition new_dchan :: "int \<Rightarrow> t_data_channel" where
  "new_dchan l = \<lparr>rx = [], rx_bound_start = None, boundary = None, i_bound_start = 0, dc_llid = l,
     decoding_state = rx_type_ascii_start, next_chunk = 0\<rparr>"

end
