(* ===== verification/Rx_Match.thy ===== *)
theory Rx_Match
  imports Rx_Frame
begin

text \<open>
  The search for a closing tag over a chain of pieces. \<open>track\<close> is the search over one text; a tag begins
  with the only \<open><\<close> it has, so the search never has to go back. A pass over the chain that stops at
  its end leaves in \<open>len_done\<close> a place from which the next pass comes to the same state.
\<close>

section \<open>The search over one text\<close>

definition match_next :: "string \<Rightarrow> nat \<Rightarrow> char \<Rightarrow> nat" where
  "match_next b q c = (if c = b ! q then Suc q else if c = b ! 0 then 1 else 0)"

text \<open>\<open>None\<close> is a match of the whole tag.\<close>

fun track :: "string \<Rightarrow> nat \<Rightarrow> string \<Rightarrow> nat option" where
  "track b q [] = Some q"
| "track b q (c # cs) = (let q' = match_next b q c in if q' = length b then None else track b q' cs)"

definition tag_like :: "string \<Rightarrow> bool" where
  "tag_like b \<longleftrightarrow> 4 \<le> length b \<and> b ! 0 = LT \<and> LT \<notin> set (tl b)"

lemma tag_likeD:
  assumes "tag_like b"
  shows "4 \<le> length b" "b ! 0 = LT" "0 < k \<Longrightarrow> k < length b \<Longrightarrow> b ! k \<noteq> LT"
proof -
  from assms show "4 \<le> length b" "b ! 0 = LT" by (auto simp: tag_like_def)
  assume "0 < k" "k < length b"
  then have "b ! k = tl b ! (k - 1)" "k - 1 < length (tl b)" by (auto simp: nth_tl)
  with assms show "b ! k \<noteq> LT" by (metis nth_mem tag_like_def)
qed

lemma track_append: "track b q (s @ t) = track b q s \<bind> (\<lambda>r. track b r t)"
  by (induction s arbitrary: q) (simp_all add: Let_def)

lemma match_next_LT [simp]: "tag_like b \<Longrightarrow> q < length b \<Longrightarrow> match_next b q LT = 1"
  by (cases "q = 0") (auto simp: match_next_def tag_likeD(2) tag_likeD(3) [of b q, symmetric])

lemma match_next_0 [simp]: "tag_like b \<Longrightarrow> c \<noteq> LT \<Longrightarrow> match_next b 0 c = 0"
  by (simp add: match_next_def tag_likeD)

lemma track_no_LT: "tag_like b \<Longrightarrow> LT \<notin> set t \<Longrightarrow> track b 0 t = Some 0"
  by (induction t) (auto simp: Let_def tag_like_def)

lemma track_range:
  "tag_like b \<Longrightarrow> q < length b \<Longrightarrow> track b q t = Some r \<Longrightarrow> r < length b \<and> r \<le> q + length t"
proof (induction t arbitrary: q)
  case (Cons c t)
  let ?q = "match_next b q c"
  have le: "?q \<le> Suc q" by (simp add: match_next_def)
  with Cons.prems(1,2) have "?q \<le> length b"
    by (auto simp: match_next_def dest: tag_likeD(1))
  moreover from Cons.prems(3) have "?q \<noteq> length b" "track b ?q t = Some r"
    by (auto simp: Let_def split: if_splits)
  ultimately have "r < length b \<and> r \<le> ?q + length t"
    using Cons.IH [of ?q] Cons.prems(1) by simp
  with le show ?case by simp
qed simp

text \<open>A state that does not come from the start of the text is found from its start as well.\<close>

lemma track_from_0:
  assumes "tag_like b" "q < length b" "track b q w = Some r"
  shows "r \<le> length w \<and> track b 0 w = Some r \<or> 1 \<le> q \<and> r = q + length w \<and> LT \<notin> set w"
  using assms(3)
proof (induction w arbitrary: r rule: rev_induct)
  case Nil
  then show ?case by auto
next
  case (snoc c w)
  from snoc.prems obtain p where p: "track b q w = Some p"
    and r: "r = match_next b p c" "match_next b p c \<noteq> length b"
    by (auto simp: track_append Let_def bind_eq_Some split: if_splits)
  note len = tag_likeD(1) [OF assms(1)]
  from track_range [OF assms(1,2) p] have pl: "p < length b" by simp
  from snoc.IH [OF p] show ?case
  proof
    assume "p \<le> length w \<and> track b 0 w = Some p"
    with r show ?thesis by (auto simp: track_append Let_def match_next_def)
  next
    assume a: "1 \<le> q \<and> p = q + length w \<and> LT \<notin> set w"
    with assms(1) have t0: "track b 0 w = Some 0" by (simp add: track_no_LT)
    show ?thesis
    proof (cases "c = LT")
      case True
      with r pl assms(1) have "r = 1" by simp
      moreover have "match_next b 0 LT = 1" using assms(1) len by (intro match_next_LT) auto
      ultimately show ?thesis using True t0 len by (simp add: track_append Let_def)
    next
      case False
      with t0 len assms(1) have "track b 0 (w @ [c]) = Some 0"
        by (auto simp: track_append Let_def)
      with a r False assms(1) show ?thesis by (auto simp: match_next_def tag_likeD)
    qed
  qed
qed

lemma track_suffix:
  assumes "tag_like b" "q < length b" "track b q (s @ w) = Some r" "r \<le> length w"
  shows "track b 0 w = Some r"
proof -
  from assms(3) obtain p where p: "track b q s = Some p" "track b p w = Some r"
    by (auto simp: track_append bind_eq_Some)
  from track_range [OF assms(1,2) p(1)] have "p < length b" by simp
  from track_from_0 [OF assms(1) this p(2)] assms(4) show ?thesis by auto
qed

section \<open>The walk over the bytes of a piece\<close>

lemma close_bytes_end:
  assumes "tag_like b" "q < length b" "NUL \<notin> set u" "track b q u = Some r"
  shows "\<exists>ld' p. close_bytes b u i q ld p0 = Walk_end r ld' (p0 \<or> p) \<and> ld \<le> ld' \<and>
    (q = 0 \<or> p \<longrightarrow> ld' + r \<le> ld + length u) \<and> (q \<noteq> 0 \<and> \<not> p \<longrightarrow> ld' = ld)"
  using assms(2-)
proof (induction u arbitrary: i q ld p0)
  case Nil
  then show ?case by auto
next
  case (Cons c u)
  note len = tag_likeD(1) [OF assms(1)]
  from Cons.prems have c: "c \<noteq> NUL" "NUL \<notin> set u" by auto
  from Cons.prems(3) have nx: "match_next b q c \<noteq> length b" "track b (match_next b q c) u = Some r"
    by (auto simp: Let_def split: if_splits)
  have lt: "match_next b q c < length b"
    using nx(1) Cons.prems(1) len by (auto simp: match_next_def)
  note IH = Cons.IH [OF lt c(2) nx(2)]
  consider (skip) "q = 0" "c \<noteq> b ! 0" | (first) "q = 0" "c = b ! 0" | (more) "q \<noteq> 0" "c = b ! q"
    | (again) "q \<noteq> 0" "c \<noteq> b ! q" "c = b ! 0" | (lost) "q \<noteq> 0" "c \<noteq> b ! q" "c \<noteq> b ! 0"
    by blast
  then show ?case
  proof cases
    case skip
    then show ?thesis using IH [of "Suc i" "ld + 1" p0] c by (force simp: match_next_def)
  next
    case first
    with nx have "r \<le> 1 + length u"
      using track_range [OF assms(1) lt nx(2)] by (simp add: match_next_def)
    with first show ?thesis using IH [of "Suc i" ld p0] c len by (fastforce simp: match_next_def)
  next
    case more
    then show ?thesis using IH [of "Suc i" ld p0] c nx(1) by (fastforce simp: match_next_def)
  next
    case again
    then show ?thesis using IH [of "Suc i" ld p0] c by (fastforce simp: match_next_def)
  next
    case lost
    from IH [of "Suc i" "ld + 1" True] lost c show ?thesis
      by (force simp: match_next_def)
  qed
qed

text \<open>No NUL comes before the match.\<close>

fun calm :: "string \<Rightarrow> nat \<Rightarrow> string \<Rightarrow> bool" where
  "calm b q [] = True"
| "calm b q (c # cs) = (c \<noteq> NUL \<and> (match_next b q c \<noteq> length b \<longrightarrow> calm b (match_next b q c) cs))"

lemma calm_append:
  "calm b q (s @ t) \<longleftrightarrow> calm b q s \<and> (case track b q s of None \<Rightarrow> True | Some r \<Rightarrow> calm b r t)"
  by (induction s arbitrary: q) (auto simp: Let_def)

lemma calm_no_NUL: "NUL \<notin> set u \<Longrightarrow> calm b q u"
  by (induction u arbitrary: q) auto

lemma calm_Some: "calm b q u \<Longrightarrow> track b q u = Some r \<Longrightarrow> NUL \<notin> set u"
  by (induction u arbitrary: q) (auto simp: Let_def split: if_splits)

lemma close_bytes_hit:
  assumes "tag_like b" "q < length b" "calm b q u" "track b q u = None"
  shows "\<exists>ld' p. close_bytes b u i q ld p0 = Walk_hit ld' p"
  using assms(2-)
proof (induction u arbitrary: i q ld p0)
  case Nil
  then show ?case by simp
next
  case (Cons c u)
  note len = tag_likeD(1) [OF assms(1)]
  from Cons.prems have c: "c \<noteq> NUL" by simp
  show ?case
  proof (cases "match_next b q c = length b")
    case True
    with Cons.prems(1) c len show ?thesis by (cases "q = 0") (auto simp: match_next_def split: if_splits)
  next
    case False
    have lt: "match_next b q c < length b"
      using False Cons.prems(1) len by (auto simp: match_next_def)
    from Cons.prems(3) False have "track b (match_next b q c) u = None" by (simp add: Let_def)
    moreover from Cons.prems(2) False have "calm b (match_next b q c) u" by simp
    ultimately have IH: "\<exists>ld' p. close_bytes b u i (match_next b q c) ld p0 = Walk_hit ld' p" for i ld p0
      using Cons.IH [OF lt] by blast
    show ?thesis
      using IH [of "Suc i" ld p0] IH [of "Suc i" "ld + 1" True] IH [of "Suc i" "ld + 1" p0] c False
      by (auto simp: match_next_def split: if_splits)
  qed
qed

section \<open>The pass over the chain\<close>

text \<open>What a pass reads of the chain, and what makes it come to the same state again.\<close>

definition resid :: "t_data_chunk list \<Rightarrow> string" where
  "resid cs = concat (map (\<lambda>c. drop (len_done c) (chunk c)) cs)"

fun chain_ok :: "string \<Rightarrow> nat \<Rightarrow> t_data_chunk list \<Rightarrow> bool" where
  "chain_ok b q [] = True"
| "chain_ok b q (c # cs) = (len_done c \<le> length (chunk c) \<and> (len_done c \<noteq> 0 \<longrightarrow> q = 0) \<and>
     (case track b q (drop (len_done c) (chunk c)) of None \<Rightarrow> True | Some r \<Rightarrow> chain_ok b r cs))"

definition done_sum :: "t_data_chunk list \<Rightarrow> nat" where
  "done_sum cs = sum_list (map len_done cs)"

lemma chain_simps [simp]:
  "resid [] = []" "resid (c # cs) = drop (len_done c) (chunk c) @ resid cs" "resid (xs @ ys) = resid xs @ resid ys"
  "chain_text [] = []" "chain_text (c # cs) = chunk c @ chain_text cs" "chain_text (xs @ ys) = chain_text xs @ chain_text ys"
  "done_sum [] = 0" "done_sum (c # cs) = len_done c + done_sum cs" "done_sum (xs @ ys) = done_sum xs + done_sum ys"
  by (simp_all add: resid_def chain_text_def done_sum_def)

lemma chain_ok_append:
  "chain_ok b q (xs @ ys) \<longleftrightarrow> chain_ok b q xs \<and> (case track b q (resid xs) of None \<Rightarrow> True | Some r \<Rightarrow> chain_ok b r ys)"
  by (induction xs arbitrary: q) (auto simp: track_append split: option.splits)

lemma chain_ok_fresh: "list_all (\<lambda>c. len_done c = 0) cs \<Longrightarrow> chain_ok b q cs \<and> resid cs = chain_text cs"
  by (induction cs arbitrary: q) (auto split: option.splits)

text \<open>Two chains with the same objects and texts.\<close>

definition same_pieces :: "t_data_chunk list \<Rightarrow> t_data_chunk list \<Rightarrow> bool" where
  "same_pieces cs ds \<longleftrightarrow> map (\<lambda>c. (ck_id c, chunk c, start_len_done c)) cs = map (\<lambda>c. (ck_id c, chunk c, start_len_done c)) ds"

lemma same_pieces_simps [simp]:
  "same_pieces cs cs"
  "same_pieces (c # cs) (c' # cs') \<longleftrightarrow>
     ck_id c = ck_id c' \<and> chunk c = chunk c' \<and> start_len_done c = start_len_done c' \<and> same_pieces cs cs'"
  "same_pieces [] cs \<longleftrightarrow> cs = []" "same_pieces cs [] \<longleftrightarrow> cs = []"
  by (auto simp: same_pieces_def)

lemma same_pieces_append: "same_pieces a a' \<Longrightarrow> same_pieces b b' \<Longrightarrow> same_pieces (a @ b) (a' @ b')"
  by (simp add: same_pieces_def)

lemma same_pieces_trans: "same_pieces a b \<Longrightarrow> same_pieces b c \<Longrightarrow> same_pieces a c"
  by (simp add: same_pieces_def)

lemma same_pieces_text: "same_pieces cs ds \<Longrightarrow> chain_text cs = chain_text ds"
proof (induction cs arbitrary: ds)
  case (Cons c cs)
  then show ?case by (cases ds) auto
qed simp

lemma pushed_same [simp]: "same_pieces (pushed p cs) cs"
  by (induction cs) (auto simp: pushed_def push_done_limit_def all_done_def same_pieces_def)

lemma pushed_ok:
  assumes "chain_ok b 0 cs" "track b 0 (resid cs) = Some q" "done_sum cs \<le> length (chain_text cs)"
  shows "chain_ok b 0 (pushed p cs) \<and> track b 0 (resid (pushed p cs)) = Some (if p then 0 else q) \<and>
    done_sum (pushed p cs) \<le> length (chain_text cs)"
proof (cases p)
  case True
  have "chain_ok b 0 (map all_done cs) \<and> resid (map all_done cs) = [] \<and>
      done_sum (map all_done cs) = length (chain_text cs)"
    by (induction cs) (auto simp: all_done_def)
  with True show ?thesis by (simp add: pushed_def push_done_limit_def)
qed (use assms in \<open>simp add: pushed_def\<close>)

lemma close_chunks_end:
  assumes "tag_like b" "NUL \<notin> set (chain_text cs)" "tot \<le> length (chain_text prev)"
    and "length (chain_text prev) + length (chain_text cs) < MAX_SIZE_BIGGEST_MSG"
    and "chain_ok b 0 prev" "track b 0 (resid prev) = Some q" "done_sum prev \<le> length (chain_text prev)"
    and "chain_ok b q cs" "track b q (resid cs) = Some r" "q < length b"
  shows "\<exists>cs'. close_chunks b prev cs q tot = Some (False, None, cs') \<and> same_pieces cs' (prev @ cs) \<and>
    chain_ok b 0 cs' \<and> track b 0 (resid cs') = Some r"
  using assms(2-)
proof (induction cs arbitrary: prev q tot)
  case Nil
  then show ?case by simp
next
  case (Cons c cs)
  let ?u = "drop (len_done c) (chunk c)"
  from Cons.prems(8) obtain q' where q': "track b q ?u = Some q'" "track b q' (resid cs) = Some r"
    by (auto simp: track_append bind_eq_Some)
  from Cons.prems(7) q'(1) have ok: "len_done c \<le> length (chunk c)" "len_done c \<noteq> 0 \<longrightarrow> q = 0" "chain_ok b q' cs"
    by auto
  have nul: "NUL \<notin> set ?u" using Cons.prems(1) by (auto dest: in_set_dropD)
  from close_bytes_end [OF assms(1) Cons.prems(9) nul q'(1), of "len_done c" "len_done c" False]
  obtain ld p where w: "close_bytes b ?u (len_done c) q (len_done c) False = Walk_end q' ld p" "len_done c \<le> ld"
    "q = 0 \<or> p \<longrightarrow> ld + q' \<le> len_done c + length ?u" "q \<noteq> 0 \<and> \<not> p \<longrightarrow> ld = len_done c"
    by auto
  have q'b: "q' < length b" using track_range [OF assms(1) Cons.prems(9) q'(1)] by simp
  have ldl: "ld \<le> length (chunk c)" using w(3,4) ok(1) by (cases "q = 0 \<or> p") auto
  have ld0: "\<not> p \<and> ld \<noteq> 0 \<longrightarrow> q = 0" using w(4) ok(2) by auto
  have again: "track b (if p then 0 else q) (drop ld (chunk c)) = Some q'"
  proof (cases "q = 0 \<or> p")
    case True
    with w(3) ok(1) ldl have "q' \<le> length (drop ld (chunk c))" by auto
    moreover have "?u = take (ld - len_done c) ?u @ drop ld (chunk c)"
      using w(2) by (metis append_take_drop_id drop_drop le_add_diff_inverse2)
    ultimately have "track b 0 (drop ld (chunk c)) = Some q'"
      using track_suffix [OF assms(1) Cons.prems(9)] q'(1) by metis
    with True show ?thesis by auto
  next
    case False
    with w(4) q'(1) show ?thesis by auto
  qed
  note pu = pushed_ok [OF Cons.prems(4-6), of p]
  let ?prev = "pushed p prev @ [c\<lparr>len_done := ld\<rparr>]"
  have sp: "same_pieces ?prev (prev @ [c])" by (intro same_pieces_append) auto
  from same_pieces_text [OF sp] have tx: "chain_text ?prev = chain_text prev @ chunk c" by simp
  have pre: "chain_ok b 0 ?prev" "track b 0 (resid ?prev) = Some q'" "done_sum ?prev \<le> length (chain_text ?prev)"
  proof -
    show "chain_ok b 0 ?prev" using pu ldl again ld0 by (auto simp: chain_ok_append split: option.splits)
    show "track b 0 (resid ?prev) = Some q'" using pu again by (simp add: track_append)
    show "done_sum ?prev \<le> length (chain_text ?prev)" unfolding tx using pu ldl by simp
  qed
  have small: "tot + ld < MAX_SIZE_BIGGEST_MSG" using Cons.prems(2,3) ldl by simp
  have t': "tot + ld \<le> length (chain_text ?prev)" unfolding tx using Cons.prems(2) ldl by simp
  have l': "length (chain_text ?prev) + length (chain_text cs) < MAX_SIZE_BIGGEST_MSG"
    unfolding tx using Cons.prems(3) by simp
  have n': "NUL \<notin> set (chain_text cs)" using Cons.prems(1) by simp
  from Cons.IH [OF n' t' l' pre ok(3) q'(2) q'b] obtain cs' where
    "close_chunks b ?prev cs q' (tot + ld) = Some (False, None, cs')" "same_pieces cs' (?prev @ cs)"
    "chain_ok b 0 cs'" "track b 0 (resid cs') = Some r" by blast
  moreover have "same_pieces (?prev @ cs) (prev @ c # cs)"
    using same_pieces_append [OF sp, of cs cs] by simp
  ultimately show ?case
    using w(1) small ok(1) same_pieces_trans by (auto simp: kout_if_bind)
qed

lemma close_chunks_hit:
  assumes "tag_like b" "calm b q (resid cs)" "tot \<le> length (chain_text prev)"
    and "length (chain_text prev) + length (chain_text cs) < MAX_SIZE_BIGGEST_MSG + length (chunk (last cs))"
    and "chain_ok b q cs" "track b q (resid cs) = None" "q < length b"
  shows "\<exists>pr cs'. close_chunks b prev cs q tot = Some (True, pr, cs') \<and> same_pieces cs' (prev @ cs)"
  using assms(2-)
proof (induction cs arbitrary: prev q tot)
  case Nil
  then show ?case by simp
next
  case (Cons c cs)
  let ?u = "drop (len_done c) (chunk c)"
  from Cons.prems(1) have cm: "calm b q ?u" by (simp add: calm_append)
  from Cons.prems(4) have ld: "len_done c \<le> length (chunk c)" by simp
  show ?case
  proof (cases "track b q ?u")
    case None
    from close_bytes_hit [OF assms(1) Cons.prems(6) cm None] obtain ld p where
      "close_bytes b ?u (len_done c) q (len_done c) False = Walk_hit ld p" by blast
    moreover have "same_pieces (pushed p prev @ c\<lparr>len_done := ld\<rparr> # cs) (prev @ c # cs)"
      by (intro same_pieces_append) auto
    ultimately show ?thesis using ld by (auto simp: kout_if_bind)
  next
    case (Some q')
    with Cons.prems(5) have r: "track b q' (resid cs) = None" by (simp add: track_append)
    then have ne: "cs \<noteq> []" by auto
    from close_bytes_end [OF assms(1) Cons.prems(6) calm_Some [OF cm Some] Some, of "len_done c" "len_done c" False]
    obtain ld' p where w: "close_bytes b ?u (len_done c) q (len_done c) False = Walk_end q' ld' p"
      "q = 0 \<or> p \<longrightarrow> ld' + q' \<le> len_done c + length ?u" "q \<noteq> 0 \<and> \<not> p \<longrightarrow> ld' = len_done c"
      by auto
    have ldl: "ld' \<le> length (chunk c)" using w(2,3) ld by (cases "q = 0 \<or> p") auto
    have lb: "length (chunk (last cs)) \<le> length (chain_text cs)"
      using ne by (induction cs) auto
    have q'b: "q' < length b" using track_range [OF assms(1) Cons.prems(6) Some] by simp
    let ?prev = "pushed p prev @ [c\<lparr>len_done := ld'\<rparr>]"
    have sp: "same_pieces ?prev (prev @ [c])" by (intro same_pieces_append) auto
    from same_pieces_text [OF sp] have tx: "chain_text ?prev = chain_text prev @ chunk c" by simp
    have small: "tot + ld' < MAX_SIZE_BIGGEST_MSG" using Cons.prems(2,3) ldl ne lb by simp
    have t': "tot + ld' \<le> length (chain_text ?prev)" unfolding tx using Cons.prems(2) ldl by simp
    have l': "length (chain_text ?prev) + length (chain_text cs) < MAX_SIZE_BIGGEST_MSG + length (chunk (last cs))"
      unfolding tx using Cons.prems(3) ne by simp
    have n': "calm b q' (resid cs)" using Cons.prems(1) Some by (simp add: calm_append)
    from Cons.prems(4) Some have o': "chain_ok b q' cs" by simp
    from Cons.IH [OF n' t' l' o' r q'b] obtain pr cs' where
      "close_chunks b ?prev cs q' (tot + ld') = Some (True, pr, cs')" "same_pieces cs' (?prev @ cs)" by blast
    moreover have "same_pieces (?prev @ cs) (prev @ c # cs)"
      using same_pieces_append [OF sp, of cs cs] by simp
    ultimately show ?thesis
      using w(1) small ld same_pieces_trans by (auto simp: kout_if_bind)
  qed
qed

end
