(* ===== verification/Rx_Messages.thy ===== *)
theory Rx_Messages
  imports Rx_Match
begin

text \<open>
  The messages of a control channel as text, the streams of them, and the place where the search for the
  closing tag stops in such a stream.
\<close>

section \<open>Messages\<close>

definition open_tag :: "string \<Rightarrow> string" where "open_tag n = LT # n @ [GT]"
definition end_tag :: "string \<Rightarrow> string" where "end_tag n = LT # CHR ''/'' # n @ [GT]"
definition msg_text :: "string \<Rightarrow> string \<Rightarrow> string" where "msg_text n b = open_tag n @ b @ end_tag n"

definition xml_name :: "string \<Rightarrow> bool" where
  "xml_name n \<longleftrightarrow> n \<noteq> [] \<and> is_good_first_letter_xml (hd n) \<and> list_all is_good_next_letter_xml (tl n)"

text \<open>Only NULs and the closing tag itself cannot be in the body.\<close>

definition good_msg :: "string \<Rightarrow> string \<Rightarrow> bool" where
  "good_msg n b \<longleftrightarrow> xml_name n \<and> NUL \<notin> set b \<and> find_pattern b (end_tag n) = None"

text \<open>Between the messages may be any characters but \<open><\<close>, such as the NULs that the senders add.\<close>

fun stream :: "string \<Rightarrow> (string \<times> string \<times> string) list \<Rightarrow> string" where
  "stream j [] = j"
| "stream j ((n, b, j') # ms) = j @ msg_text n b @ stream j' ms"

fun good_stream :: "string \<Rightarrow> (string \<times> string \<times> string) list \<Rightarrow> bool" where
  "good_stream j [] = (LT \<notin> set j)"
| "good_stream j ((n, b, j') # ms) = (LT \<notin> set j \<and> good_msg n b \<and>
     length j + length (msg_text n b) \<le> MAX_SIZE_BIGGEST_MSG \<and> good_stream j' ms)"

fun last_junk :: "string \<Rightarrow> (string \<times> string \<times> string) list \<Rightarrow> string" where
  "last_junk j [] = j"
| "last_junk j ((n, b, j') # ms) = last_junk j' ms"

definition msg_of :: "string \<times> string \<times> string \<Rightarrow> string" where
  "msg_of m = (case m of (n, b, j) \<Rightarrow> msg_text n b @ [NUL])"

lemma good_stream_junk:
  "good_stream j ms \<Longrightarrow> LT \<notin> set j' \<Longrightarrow> length j' \<le> length j \<Longrightarrow> good_stream j' ms"
  by (cases ms) auto

lemma stream_junk: "stream (i @ j) ms = i @ stream j ms"
  by (cases ms) auto

lemma good_junk: "good_stream j ms \<Longrightarrow> LT \<notin> set j"
  by (cases ms) auto

section \<open>Facts on names and tags\<close>

lemma letter_char:
  assumes "is_good_next_letter_xml c"
  shows "c \<noteq> LT" "c \<noteq> GT" "c \<noteq> NUL" "c \<noteq> CHR ''/''"
  using assms by (auto simp: is_good_next_letter_xml_def is_good_first_letter_xml_def LT_def GT_def NUL_def)

lemma first_is_next: "is_good_first_letter_xml c \<Longrightarrow> is_good_next_letter_xml c"
  by (simp add: is_good_next_letter_xml_def)

lemma GT_char [simp]:
  "\<not> is_good_next_letter_xml GT" "GT \<noteq> LT" "GT \<noteq> NUL" "LT \<noteq> NUL" "CHR ''/'' \<noteq> LT" "CHR ''/'' \<noteq> NUL"
  "LT \<noteq> GT" "NUL \<noteq> LT" "LT \<noteq> CHR ''/''" "NUL \<noteq> GT" "NUL \<noteq> CHR ''/''" "GT \<noteq> CHR ''/''" "CHR ''/'' \<noteq> GT"
  by (simp_all add: is_good_next_letter_xml_def is_good_first_letter_xml_def LT_def GT_def NUL_def)

lemma name_letters: "xml_name n \<Longrightarrow> c \<in> set n \<Longrightarrow> is_good_next_letter_xml c"
  by (cases n) (auto simp: xml_name_def list_all_iff first_is_next)

lemma name_chars: "xml_name n \<Longrightarrow> LT \<notin> set n \<and> NUL \<notin> set n \<and> GT \<notin> set n"
  using name_letters letter_char by blast

lemma end_tag_like: "xml_name n \<Longrightarrow> tag_like (end_tag n)"
  using name_chars [of n] by (cases n) (auto simp: tag_like_def end_tag_def xml_name_def Suc_le_eq)

lemma length_open_tag: "length (open_tag n) = length n + 2"
  by (simp add: open_tag_def)

lemma tag_simps [simp]: "length (end_tag n) = length n + 3" "end_tag n \<noteq> []" "open_tag n \<noteq> []"
  by (simp_all add: open_tag_def end_tag_def)

lemma msg_no_NUL: "good_msg n b \<Longrightarrow> NUL \<notin> set (msg_text n b)"
  using name_chars [of n] by (auto simp: good_msg_def msg_text_def open_tag_def end_tag_def)

section \<open>Where a message ends\<close>

lemma track_occurs:
  "tag_like b \<Longrightarrow> q < length b \<Longrightarrow> track b q t = None \<Longrightarrow> \<exists>s1 s2. take q b @ t = s1 @ b @ s2"
proof (induction t arbitrary: q)
  case (Cons c t)
  note len = tag_likeD(1) [OF Cons.prems(1)]
  let ?q = "match_next b q c"
  have step: "\<exists>s. take q b @ c # t = s @ take ?q b @ t"
  proof (cases "c = b ! q")
    case True
    with Cons.prems(2) show ?thesis by (simp add: match_next_def take_Suc_conv_app_nth)
  next
    case False
    show ?thesis
    proof (cases "c = b ! 0")
      case True
      with False len show ?thesis by (cases b) (auto simp: match_next_def)
    next
      case False2: False
      with False show ?thesis by (intro exI [of _ "take q b @ [c]"]) (simp add: match_next_def)
    qed
  qed
  then obtain s where s: "take q b @ c # t = s @ take ?q b @ t" ..
  show ?case
  proof (cases "?q = length b")
    case True
    then have "take ?q b = b" by simp
    with s have "take q b @ c # t = s @ b @ t" by simp
    then show ?thesis by blast
  next
    case False
    with Cons.prems(2) len have "?q < length b" by (auto simp: match_next_def)
    moreover from Cons.prems(3) False have "track b ?q t = None" by (simp add: Let_def)
    ultimately obtain s1 s2 where "take ?q b @ t = s1 @ b @ s2" using Cons.IH Cons.prems(1) by blast
    with s show ?thesis by (metis append.assoc)
  qed
qed simp

lemma track_tag:
  assumes "tag_like b" "q < length b" "0 < k" "k \<le> length b"
  shows "track b q (take k b) = (if k = length b then None else Some k)"
  using assms(3,4)
proof (induction k)
  case (Suc k)
  note len = tag_likeD(1) [OF assms(1)]
  show ?case
  proof (cases "k = 0")
    case True
    then have "take (Suc k) b = [LT]" using len tag_likeD(2) [OF assms(1)] by (cases b) auto
    with True assms(1,2) len show ?thesis by auto
  next
    case False
    with Suc have "track b q (take k b) = Some k" by simp
    moreover have "take (Suc k) b = take k b @ [b ! k]" using Suc.prems by (simp add: take_Suc_conv_app_nth)
    ultimately show ?thesis by (simp add: track_append Let_def match_next_def)
  qed
qed simp

lemma find_pattern_None:
  assumes "find_pattern (s1 @ b @ s2) b = None" "b \<noteq> []"
  shows False
proof -
  let ?P = "\<lambda>i. (s1 @ b @ s2) ! i = hd b \<and> take (length b) (drop i (s1 @ b @ s2)) = b"
  from assms(1) have "find ?P [0..<length (s1 @ b @ s2) - length b + 1] = None"
    by (simp add: find_pattern_def)
  then have "\<not> ?P (length s1)" by (rule find_NoneD) simp
  with assms(2) show False by (simp add: nth_append hd_conv_nth)
qed

lemma open_tag_track:
  assumes "xml_name n"
  shows "track (end_tag n) 0 (open_tag n) = Some 0"
proof -
  note tl = end_tag_like [OF assms]
  from assms have n: "n = hd n # tl n" by (simp add: xml_name_def)
  from assms have h: "is_good_next_letter_xml (hd n)" by (simp add: xml_name_def first_is_next)
  have m1: "match_next (end_tag n) 0 LT = 1" using tl by (intro match_next_LT) auto
  have m2: "match_next (end_tag n) 1 (hd n) = 0"
    using letter_char [OF h] by (simp add: match_next_def end_tag_def)
  have "track (end_tag n) 0 (open_tag n) = track (end_tag n) 0 (LT # hd n # tl n @ [GT])"
    by (subst n) (simp add: open_tag_def)
  also have "\<dots> = track (end_tag n) 0 (tl n @ [GT])" using m1 m2 by (simp add: Let_def)
  also have "\<dots> = Some 0"
    using name_chars [OF assms] tl n by (intro track_no_LT) (auto, metis list.set_intros(2))
  finally show ?thesis .
qed

text \<open>The closing tag is found exactly with the last character of the message.\<close>

lemma message_end:
  assumes "good_msg n b" "LT \<notin> set j" "t @ x = j @ msg_text n b @ y"
  shows "track (end_tag n) 0 t = None \<longleftrightarrow> length j + length (msg_text n b) \<le> length t"
proof -
  let ?b = "end_tag n"
  from assms(1) have nm: "xml_name n" and fp: "find_pattern b ?b = None" by (auto simp: good_msg_def)
  note tl = end_tag_like [OF nm]
  have pre: "track ?b 0 (j @ open_tag n) = Some 0"
    using track_no_LT [OF tl assms(2)] open_tag_track [OF nm] by (simp add: track_append)
  have "track ?b 0 b \<noteq> None"
  proof
    assume "track ?b 0 b = None"
    from track_occurs [OF tl _ this] obtain s1 s2 where "b = s1 @ ?b @ s2" by auto
    with find_pattern_None [of s1 ?b s2] fp show False by auto
  qed
  then obtain q where q: "track ?b 0 b = Some q" by auto
  with track_range [OF tl _ q] have ql: "q < length ?b" by simp
  let ?w = "j @ open_tag n @ b"
  have "track ?b 0 ((j @ open_tag n) @ b) = Some q" using pre q by (subst track_append) simp
  then have w: "track ?b 0 ?w = Some q" by simp
  have all: "track ?b 0 (?w @ ?b) = None"
    using w track_tag [OF tl ql, of "length ?b"] by (subst track_append) (simp only: bind.bind_lunit, simp)
  show ?thesis
  proof (cases "length j + length (msg_text n b) \<le> length t")
    case True
    with assms(3) have "take (length (?w @ ?b)) t = ?w @ ?b"
      by (metis (no_types, lifting) append.assoc append_eq_append_conv_if length_append msg_text_def take_all_iff)
    then have "t = (?w @ ?b) @ drop (length (?w @ ?b)) t" by (metis append_take_drop_id)
    then have "track ?b 0 t = track ?b 0 (?w @ ?b) \<bind> (\<lambda>r. track ?b r (drop (length (?w @ ?b)) t))"
      by (metis track_append)
    with all True show ?thesis by simp
  next
    case False
    then have "length t < length (?w @ ?b)" by (simp add: msg_text_def)
    moreover have tt: "t = take (length t) ((?w @ ?b) @ y)" using assms(3)
      by (metis append.assoc append_eq_conv_conj msg_text_def)
    ultimately have tw: "t = take (length t) (?w @ ?b)" by simp
    have "track ?b 0 t \<noteq> None"
    proof (cases "length t \<le> length ?w")
      case True
      with tw have "?w = t @ drop (length t) ?w" by (metis append_take_drop_id take_append diff_is_0_eq' take_0 append_Nil2)
      with w have "track ?b 0 t \<bind> (\<lambda>r. track ?b r (drop (length t) ?w)) = Some q"
        by (metis track_append)
      then show ?thesis by (metis bind.bind_lzero option.distinct(1))
    next
      case longer: False
      let ?k = "length t - length ?w"
      from tw longer have "t = ?w @ take ?k ?b" by (metis take_all_iff take_append nat_le_linear)
      moreover have "track ?b q (take ?k ?b) = Some ?k"
        using track_tag [OF tl ql, of ?k] longer False by (simp add: msg_text_def)
      ultimately have "track ?b 0 t = Some ?k" using w by (metis track_append bind.bind_lunit)
      then show ?thesis by simp
    qed
    with False show ?thesis by simp
  qed
qed

end
