(* ===== verification/Rx_Stream.thy ===== *)
theory Rx_Stream
  imports Rx_Messages
begin

text \<open>
  A stream of messages, however it is cut into pieces, is delivered as these messages; a closing tag in
  front of an opening one ends the process.
\<close>

section \<open>The opening tag\<close>

lemma open_bytes_junk:
  "LT \<notin> set j \<Longrightarrow> open_bytes ck (j @ t) i (0, nb, bd) = open_bytes ck t (i + length j) (0, nb, bd)"
  by (induction j arbitrary: i) auto

text \<open>After \<open>k\<close> characters of an opening tag of length \<open>l\<close>.\<close>

definition open_state :: "nat \<Rightarrow> nat \<Rightarrow> nat \<times> nat \<Rightarrow> t_open" where
  "open_state l k bd = (if k = l then 4 else if k = 1 then 1 else 2, k, bd)"

lemma open_state_4: "k < l \<Longrightarrow> fst (open_state l k bd) \<noteq> 4"
  by (simp add: open_state_def)

lemma open_bytes_tag:
  assumes "xml_name n" "1 \<le> k" "k < length (open_tag n)" "t @ x = drop k (open_tag n) @ y"
  shows "open_bytes ck t i (open_state (length (open_tag n)) k bd) =
    open_state (length (open_tag n)) (min (length (open_tag n)) (k + length t)) bd"
  using assms(2-)
proof (induction t arbitrary: k i)
  case Nil
  then show ?case by (simp add: min_def)
next
  case (Cons c t)
  from Cons.prems(2,3) have c: "c = open_tag n ! k" "t @ x = drop (Suc k) (open_tag n) @ y"
    by (simp_all add: Cons_nth_drop_Suc [symmetric])
  show ?case
  proof (cases "Suc k = length (open_tag n)")
    case True
    then have "c = GT" "k \<noteq> 1" using c(1) assms(1)
      by (auto simp: open_tag_def nth_append xml_name_def)
    with True Cons.prems(1) show ?thesis by (simp add: open_state_def min_def)
  next
    case False
    then have n: "c = n ! (k - 1)" "k - 1 < length n" using c(1) Cons.prems(1,2)
      by (auto simp: open_tag_def nth_append nth_Cons' less_Suc_eq)
    then have l: "is_good_next_letter_xml c" using name_letters [OF assms(1)] by simp
    have f: "k = 1 \<Longrightarrow> is_good_first_letter_xml c"
      using n assms(1) by (simp add: xml_name_def hd_conv_nth)
    have "open_bytes ck (c # t) i (open_state (length (open_tag n)) k bd) =
        open_bytes ck t (Suc i) (open_state (length (open_tag n)) (Suc k) bd)"
      using l f letter_char [OF l] False Cons.prems(1,2) by (auto simp: open_state_def)
    with Cons.IH [of "Suc k"] False Cons.prems(2) c(2) show ?thesis by simp
  qed
qed

lemma open_chunks_tag:
  assumes "xml_name n" "1 \<le> k" "k < length (open_tag n)" "chain_text cs @ x = drop k (open_tag n) @ y"
    and "list_all (\<lambda>c. start_len_done c = 0) cs"
  shows "open_chunks cs (open_state (length (open_tag n)) k bd) =
    open_state (length (open_tag n)) (min (length (open_tag n)) (k + length (chain_text cs))) bd"
  using assms(2-)
proof (induction cs arbitrary: k)
  case Nil
  then show ?case by (simp add: min_def)
next
  case (Cons c cs)
  let ?l = "length (open_tag n)"
  let ?k = "min ?l (k + length (chunk c))"
  from Cons.prems have s: "start_len_done c = 0" "list_all (\<lambda>c. start_len_done c = 0) cs" by auto
  have c: "open_bytes (ck_id c) (chunk c) 0 (open_state ?l k bd) = open_state ?l ?k bd"
    using open_bytes_tag [OF assms(1) Cons.prems(1,2), of "chunk c"] Cons.prems(3) by simp
  show ?case
  proof (cases "?k = ?l")
    case True
    then have "fst (open_state ?l ?k bd) = 4" "min ?l (k + length (chain_text (c # cs))) = ?k"
      by (auto simp: open_state_def)
    with c s show ?thesis by simp
  next
    case False
    then have k: "?k = k + length (chunk c)" "?k < ?l" by auto
    have "chain_text cs @ x = drop ?k (open_tag n) @ y"
    proof -
      have "drop (length (chunk c)) ((chunk c @ chain_text cs) @ x) =
          drop (length (chunk c)) (drop k (open_tag n) @ y)"
        using Cons.prems(3) by simp
      with k show ?thesis by (simp add: add.commute)
    qed
    moreover have "fst (open_state ?l ?k bd) \<noteq> 4" using k(2) by (rule open_state_4)
    moreover have "min ?l (?k + length (chain_text cs)) = min ?l (k + length (chain_text (c # cs)))"
      using k by simp
    ultimately show ?thesis
      using Cons.IH [of ?k] Cons.prems(1) k(2) s c by simp
  qed
qed

section \<open>The start of a message\<close>

text \<open>A chain as it was received, not searched yet; if there is any, its first piece has a \<open><\<close>.\<close>

definition fresh :: "t_data_chunk list \<Rightarrow> bool" where
  "fresh cs \<longleftrightarrow> list_all (\<lambda>c. len_done c = 0 \<and> start_len_done c = 0) cs"

lemma fresh_simps [simp]:
  "fresh []" "fresh (c # cs) \<longleftrightarrow> len_done c = 0 \<and> start_len_done c = 0 \<and> fresh cs"
  "fresh (xs @ ys) \<longleftrightarrow> fresh xs \<and> fresh ys"
  by (simp_all add: fresh_def)

lemma blank_nuls_junk:
  assumes "LT \<notin> set j"
  shows "\<exists>j'. blank_nuls (j @ LT # t) = j' @ LT # t \<and> length j' = length j \<and> LT \<notin> set j' \<and> NUL \<notin> set j'"
proof (intro exI conjI)
  let ?j = "map (\<lambda>c. if c = NUL then CHR '' '' else c) j"
  from assms show "blank_nuls (j @ LT # t) = ?j @ LT # t"
    by (simp add: blank_nuls_def takeWhile_append dropWhile_append)
  show "LT \<notin> set ?j" "NUL \<notin> set ?j" using assms by (auto simp: LT_def NUL_def)
qed simp

text \<open>
  Between two events: the text \<open>x\<close> still to come, and the messages not delivered yet. The channel waits
  for an opening tag, or for the closing tag of the first of these messages.
\<close>

definition waits_open :: "t_data_channel \<Rightarrow> string \<Rightarrow> string \<Rightarrow> (string \<times> string \<times> string) list \<Rightarrow> bool" where
  "waits_open d x j ms \<longleftrightarrow> decoding_state d = rx_type_ascii_start \<and> boundary d = None \<and> dc_llid d \<noteq> 0 \<and>
     fresh (rx d) \<and> (rx d \<noteq> [] \<longrightarrow> LT \<in> set (chunk (hd (rx d)))) \<and>
     (\<exists>j'. LT \<notin> set j' \<and> length j' \<le> length j \<and> chain_text (rx d) @ x = stream j' ms \<and>
       (ms = [] \<longrightarrow> rx d = []) \<and>
       (ms \<noteq> [] \<longrightarrow> length (chain_text (rx d)) < length j' + length (open_tag (fst (hd ms)))))"

text \<open>The pass for the closing tag can start: \<open>passed\<close> says that one has been made already and found nothing.\<close>

definition close_at :: "bool \<Rightarrow> t_data_channel \<Rightarrow> string \<Rightarrow> string \<Rightarrow> string
    \<Rightarrow> t_data_chunk list \<Rightarrow> t_data_chunk list \<Rightarrow> bool" where
  "close_at passed d n b j ps fs \<longleftrightarrow> LT \<notin> set j \<and> NUL \<notin> set j \<and>
     rx d \<noteq> [] \<and> length j < length (chunk (hd (rx d))) \<and>
     decoding_state d = rx_type_open_bound_found \<and> boundary d = Some (end_tag n) \<and> dc_llid d \<noteq> 0 \<and>
     rx_bound_start d = Some (ck_id (hd (rx d))) \<and> i_bound_start d = length j \<and>
     length (chain_text (butlast (rx d))) < length j + length (msg_text n b) \<and>
     rx d = ps @ fs \<and> list_all (\<lambda>c. len_done c = 0) fs \<and> chain_ok (end_tag n) 0 ps \<and>
     track (end_tag n) 0 (resid ps) = track (end_tag n) 0 (chain_text ps) \<and>
     length (chain_text ps) < length j + length (msg_text n b) \<and> (passed \<longrightarrow> fs = [])"

fun waits_close :: "bool \<Rightarrow> t_data_channel \<Rightarrow> string \<Rightarrow> string \<Rightarrow> (string \<times> string \<times> string) list \<Rightarrow> bool" where
  "waits_close passed d x j [] = False"
| "waits_close passed d x j ((n, b, j'') # ms') = (\<exists>j' ps fs. length j' \<le> length j \<and>
     chain_text (rx d) @ x = stream j' ((n, b, j'') # ms') \<and> close_at passed d n b j' ps fs)"

lemma first_LT: "LT \<notin> set j \<Longrightarrow> LT \<notin> set j' \<Longrightarrow> j @ LT # u = j' @ LT # v \<Longrightarrow> j = j' \<and> u = v"
proof (induction j arbitrary: j')
  case Nil
  then show ?case by (cases j') auto
next
  case (Cons c j)
  then show ?case by (cases j') auto
qed

lemma stream_first: "stream j ((n, b, j') # ms) = j @ LT # n @ [GT] @ b @ end_tag n @ stream j' ms"
  by (simp add: msg_text_def open_tag_def)

text \<open>The walk over a chain whose first piece has the first \<open><\<close>.\<close>

lemma open_chunks_first:
  assumes "xml_name n" "LT \<notin> set j" "fresh (f # fs)" "chunk f = j @ LT # t" "(LT # t @ chain_text fs) @ x = open_tag n @ y"
  shows "open_chunks (f # fs) (0, 0, (0, 0)) =
    open_state (length (open_tag n)) (min (length (open_tag n)) (length (LT # t @ chain_text fs))) (ck_id f, length j)"
proof -
  let ?l = "length (open_tag n)" and ?bd = "(ck_id f, length j)"
  have l: "1 < ?l" by (simp add: length_open_tag)
  have tx: "t @ chain_text fs @ x = drop 1 (open_tag n) @ y"
    using assms(5) by (simp add: open_tag_def)
  have "open_bytes (ck_id f) (chunk f) 0 (0, 0, (0, 0)) = open_bytes (ck_id f) t (Suc (length j)) (1, 1, ?bd)"
    using assms(2,4) by (simp add: open_bytes_junk)
  also have "(1, 1, ?bd) = open_state ?l 1 ?bd" using l by (simp add: open_state_def)
  also have "open_bytes (ck_id f) t (Suc (length j)) (open_state ?l 1 ?bd) = open_state ?l (min ?l (1 + length t)) ?bd"
    using open_bytes_tag [OF assms(1) _ l tx] by simp
  finally have f: "open_bytes (ck_id f) (chunk f) 0 (0, 0, (0, 0)) = open_state ?l (min ?l (1 + length t)) ?bd" .
  show ?thesis
  proof (cases "1 + length t < ?l")
    case True
    then have m: "min ?l (1 + length t) = 1 + length t" by simp
    have "chain_text fs @ x = drop (1 + length t) (open_tag n) @ y"
    proof -
      from True have "length t \<le> length (drop 1 (open_tag n))" by simp
      with tx have "chain_text fs @ x = drop (length t) (drop 1 (open_tag n)) @ y"
        by (metis (no_types, lifting) append_eq_append_conv_if append_eq_conv_conj drop_append
            diff_is_0_eq' drop0)
      then show ?thesis by (simp add: add.commute)
    qed
    from open_chunks_tag [OF assms(1) _ True this, of ?bd] assms(3) f m open_state_4 [OF True, of ?bd]
    show ?thesis by (simp add: fresh_def list_all_iff)
  next
    case False
    then have "min ?l (1 + length t) = ?l" "min ?l (length (LT # t @ chain_text fs)) = ?l" by auto
    with f assms(3) show ?thesis by (simp add: open_state_def)
  qed
qed

lemma close_tag_first:
  assumes "xml_name n" "chunk f = j @ LT # t" "(LT # t @ chain_text fs) @ x = open_tag n @ y"
    and "length (open_tag n) \<le> length (LT # t @ chain_text fs)"
  shows "close_tag (f # fs) (length j) (length (open_tag n)) = Some (end_tag n)"
proof -
  from assms(1) have "n \<noteq> []" by (simp add: xml_name_def)
  moreover have "take (length n + 1) (t @ chain_text fs) = n @ [GT]"
  proof -
    from assms(3) have "(t @ chain_text fs) @ x = (n @ [GT]) @ y" by (simp add: open_tag_def)
    moreover have "length (n @ [GT]) \<le> length (t @ chain_text fs)" using assms(4) by (simp add: length_open_tag)
    ultimately have "take (length (n @ [GT])) (t @ chain_text fs) = n @ [GT]"
      by (metis append_eq_append_conv_if)
    then show ?thesis by simp
  qed
  ultimately show ?thesis
    using assms(2,4) by (simp add: close_tag_def length_open_tag kout_if_bind end_tag_def Suc_le_eq)
qed

lemma ascii_step:
  assumes "waits_open d (c @ x) j ms" "good_stream j ms" "c \<noteq> []"
  shows "\<exists>d'. chunks_state_rx_type_ascii_start (chain_append c d) = Some d' \<and>
    (waits_open d' x j ms \<or> waits_close False d' x j ms)"
proof -
  from assms(1) obtain j' where d: "decoding_state d = rx_type_ascii_start" "boundary d = None" "dc_llid d \<noteq> 0"
      "fresh (rx d)" "rx d \<noteq> [] \<longrightarrow> LT \<in> set (chunk (hd (rx d)))"
    and j': "LT \<notin> set j'" "length j' \<le> length j" "chain_text (rx d) @ c @ x = stream j' ms"
      "ms = [] \<longrightarrow> rx d = []" "ms \<noteq> [] \<longrightarrow> length (chain_text (rx d)) < length j' + length (open_tag (fst (hd ms)))"
    by (auto simp: waits_open_def)
  let ?c = "\<lparr>ck_id = next_chunk d, chunk = c, len_done = 0, start_len_done = 0\<rparr>"
  obtain f fs where cs: "rx d @ [?c] = f # fs" by (cases "rx d @ [?c]") auto
  have fr: "fresh (f # fs)" unfolding cs [symmetric] using d(4) by simp
  have tx: "chain_text (f # fs) = chain_text (rx d) @ c" unfolding cs [symmetric] by simp
  have rx: "rx (chain_append c d) = f # fs" using cs by (simp add: chain_append_def)
  have ne: "chunk f \<noteq> []" using cs d(5) assms(3) by (cases "rx d") auto
  have bd: "boundary (chain_append c d) = None" using d(2) by (simp add: chain_append_def)
  have st: "chunks_state_rx_type_ascii_start (chain_append c d) = (case detect_xml_start_in_chunk (f # fs) of
      (None, cs) \<Rightarrow> Some ((chain_append c d)\<lparr>rx := chain_del None cs\<rparr>)
    | (Some ck, cs) \<Rightarrow> do {
        let d = (chain_append c d)\<lparr>rx := chain_del (Some ck) cs\<rparr>;
        b \<leftarrow> get_xml_start_boundary_from_chunk (rx d);
        case b of None \<Rightarrow> Some d | Some (b, ck, i) \<Rightarrow> Some (alloc_boundary b ck i (d\<lparr>rx := chain_del (Some ck) (rx d)\<rparr>)) })"
    using ne bd rx by (simp add: chunks_state_rx_type_ascii_start_def)
  show ?thesis
  proof (cases "LT \<in> set (chunk f)")
    case False
    then have rd: "rx d = []" "f = ?c" "fs = []" using cs d(5) by (cases "rx d"; auto)+
    obtain j2 where j2: "j' = c @ j2" "x = stream j2 ms"
    proof (cases ms)
      case Nil
      with j'(3) rd that [of x] show ?thesis by simp
    next
      case (Cons m ms')
      obtain n b jj where m: "m = (n, b, jj)" by (cases m) auto
      from j'(3) rd Cons m have "c @ x = j' @ LT # n @ [GT] @ b @ end_tag n @ stream jj ms'"
        by (simp only: stream_first chain_simps append_Nil)
      then consider u where "j' = c @ u" "x = u @ LT # n @ [GT] @ b @ end_tag n @ stream jj ms'"
        | u where "c = j' @ LT # u"
        by (auto simp: append_eq_append_conv2 append_eq_Cons_conv)
      then show ?thesis
      proof cases
        case 1
        with that [of u] Cons m show ?thesis by (simp only: stream_first)
      next
        case 2
        with False rd show ?thesis by simp
      qed
    qed
    let ?d = "(chain_append c d)\<lparr>rx := []\<rparr>"
    have "chunks_state_rx_type_ascii_start (chain_append c d) = Some ?d"
      using st False rd by (simp add: chain_del_def)
    moreover have "waits_open ?d x j ms"
      using j2 j' d by (auto simp: waits_open_def chain_append_def intro!: exI [of _ j2] simp: length_open_tag)
    ultimately show ?thesis by blast
  next
    case True
    then obtain jj t where f: "chunk f = jj @ LT # t" "LT \<notin> set jj" by (meson split_list_first)
    obtain n b j'' ms' where ms: "ms = (n, b, j'') # ms'"
    proof (cases ms)
      case Nil
      with j'(1,3) tx f True show ?thesis by (metis UnCI append.assoc chain_simps(5) set_append stream.simps(1))
    qed (use that in \<open>cases rule: prod_cases3, blast\<close>)
    from assms(2) ms have nm: "xml_name n" by (simp add: good_msg_def)
    let ?y = "b @ end_tag n @ stream j'' ms'"
    have split: "jj @ LT # (t @ chain_text fs @ x) = j' @ LT # (n @ [GT] @ ?y)"
    proof -
      from tx f have e: "chain_text (rx d) @ c = jj @ LT # t @ chain_text fs" by simp
      have "(chain_text (rx d) @ c) @ x = stream j' ms" using j'(3) by simp
      then show ?thesis unfolding e ms stream_first by simp
    qed
    from first_LT [OF f(2) j'(1) split] have jj: "jj = j'" and u: "t @ chain_text fs @ x = n @ [GT] @ ?y" by auto
    obtain jb where jb: "blank_nuls (chunk f) = jb @ LT # t" "length jb = length jj" "LT \<notin> set jb" "NUL \<notin> set jb"
      using blank_nuls_junk [OF f(2), of t] f(1) by auto
    let ?f = "f\<lparr>chunk := blank_nuls (chunk f)\<rparr>"
    let ?l = "length (open_tag n)" and ?m = "length (LT # t @ chain_text fs)"
    have fr': "fresh (?f # fs)" "chunk ?f = jb @ LT # t" using fr jb by auto
    have op: "(LT # t @ chain_text fs) @ x = open_tag n @ ?y" using u by (simp add: open_tag_def)
    note oc = open_chunks_first [OF nm jb(3) fr' op]
    have del: "chain_del (Some (ck_id f)) (?f # fs) = ?f # fs" by (simp add: chain_del_def)
    have str: "chain_text (?f # fs) @ x = stream jb ms"
      using u ms jb(1) by (simp add: msg_text_def open_tag_def)
    let ?d = "(chain_append c d)\<lparr>rx := ?f # fs\<rparr>"
    show ?thesis
    proof (cases "?m < ?l")
      case True
      then have "open_chunks (?f # fs) (0, 0, (0, 0)) = open_state ?l ?m (ck_id f, length jb)"
        using oc by simp
      moreover have "fst (open_state ?l ?m (ck_id f, length jb)) \<noteq> 4" by (rule open_state_4 [OF True])
      ultimately have "get_xml_start_boundary_from_chunk (?f # fs) = Some None"
        by (auto simp: get_xml_start_boundary_from_chunk_def split: prod.splits)
      then have "chunks_state_rx_type_ascii_start (chain_append c d) = Some ?d"
        using st \<open>LT \<in> set (chunk f)\<close> del by (simp add: Let_def)
      moreover have "waits_open ?d x j ms"
        unfolding waits_open_def using d str jb fr'(1) ms True j'(2) jj f
        by (intro conjI exI [of _ jb]) (auto simp: chain_append_def)
      ultimately show ?thesis by blast
    next
      case False
      then have "open_chunks (?f # fs) (0, 0, (0, 0)) = (4, ?l, (ck_id f, length jb))"
        using oc by (simp add: open_state_def min_def)
      moreover have "close_tag (?f # fs) (length jb) ?l = Some (end_tag n)"
        using close_tag_first [OF nm fr'(2) op] False by simp
      ultimately have "get_xml_start_boundary_from_chunk (?f # fs) = Some (Some (end_tag n, ck_id f, length jb))"
        using del by (simp add: get_xml_start_boundary_from_chunk_def)
      then have "chunks_state_rx_type_ascii_start (chain_append c d) =
          Some (alloc_boundary (end_tag n) (ck_id f) (length jb) ?d)"
        using st \<open>LT \<in> set (chunk f)\<close> del by (simp add: Let_def)
      moreover have "waits_close False (alloc_boundary (end_tag n) (ck_id f) (length jb) ?d) x j ms"
      proof -
        have fz: "list_all (\<lambda>c. len_done c = 0) (?f # fs)" using fr'(1) by (simp add: fresh_def list_all_iff)
        have "length (chain_text (butlast (?f # fs))) < length jb + length (msg_text n b)"
        proof (cases "fs = []")
          case True
          then show ?thesis by (simp add: msg_text_def length_open_tag)
        next
          case False
          then have "rx d = f # butlast fs" using cs by (metis append_butlast_last_id butlast.simps(2) butlast_snoc)
          moreover have "length (chunk ?f) = length (chunk f)" using jb f by simp
          ultimately show ?thesis using j'(5) ms False jb(2) jj by (simp add: msg_text_def)
        qed
        note bl = this
        let ?D = "alloc_boundary (end_tag n) (ck_id f) (length jb) ?d"
        have D: "rx ?D = ?f # fs" "dc_llid ?D \<noteq> 0" "decoding_state ?D = rx_type_open_bound_found"
          "boundary ?D = Some (end_tag n)" "rx_bound_start ?D = Some (ck_id f)" "i_bound_start ?D = length jb"
          using d by (simp_all add: alloc_boundary_def chain_append_def)
        have y: "chain_text (rx ?D) @ x = jb @ msg_text n b @ stream j'' ms'" using str ms D(1) by simp
        have "close_at False ?D n b jb [] (?f # fs)"
          unfolding close_at_def using D bl jb fz by (simp add: msg_text_def length_open_tag)
        with y ms j'(2) jj jb(2) show ?thesis by auto
      qed
      ultimately show ?thesis by blast
    qed
  qed
qed

section \<open>The end of a message\<close>

lemma chain_del_None [simp]: "chain_del None cs = []"
  by (simp add: chain_del_def)

lemma make_a_buf_copy_eq:
  assumes "cs \<noteq> []" "i < length (chunk (hd cs))"
  shows "make_a_buf_copy cs i = Some (drop i (chain_text cs))"
proof -
  obtain c ds where cs: "cs = c # ds" using assms(1) by (cases cs) auto
  have len: "sum_list (map (\<lambda>c. length (chunk c)) ds) = length (chain_text ds)" for ds
    by (induction ds) auto
  have "chain_copy_next t m ds = Some (t @ chain_text ds)" if "length t + length (chain_text ds) \<le> m" for t m ds
    using that by (induction ds arbitrary: t) (auto simp: kout_if_bind)
  with assms(2) show ?thesis
    by (simp add: cs make_a_buf_copy_def chain_get_prev_len_def chain_copy_def kout_if_bind len)
qed

lemma find_pattern_first:
  assumes "length w + length b \<le> length t" "take (length b) (drop (length w) t) = b" "b \<noteq> []"
    and "\<And>i. i < length w \<Longrightarrow> take (length b) (drop i t) \<noteq> b"
  shows "find_pattern t b = Some (length w)"
proof -
  let ?P = "\<lambda>i. t ! i = hd b \<and> take (length b) (drop i t) = b"
  have "length w < length t" using assms(1,3) by (cases b) auto
  then have "t ! length w = hd (take (length b) (drop (length w) t))"
    using assms(3) by (simp add: hd_drop_conv_nth hd_take)
  with assms(2) have P: "?P (length w)" by simp
  have "[0..<length t - length b + 1] = [0..<length w] @ length w # [Suc (length w)..<length t - length b + 1]"
    using assms(1) by (metis Suc_eq_plus1 add_leD2 le_add_diff_inverse2 less_Suc_eq_le nat_le_iff_add add_le_imp_le_diff upt_conv_Cons upt_add_eq_append zero_le plus_nat.add_0)
  moreover have "find ?P [0..<length w] = None"
    using assms(4) by (auto simp: find_None_iff)
  moreover have "find ?P (xs @ length w # ys) = Some (length w)" if "find ?P xs = None" for xs ys
    using that P by (induction xs) (auto split: if_splits)
  ultimately show ?thesis using assms(1) by (simp add: find_pattern_def del: upt_Suc)
qed

text \<open>The closing tag is found at the end of the message.\<close>

lemma look_for_message:
  assumes "good_msg n b" "t = msg_text n b @ y"
  shows "look_for_boundary t (end_tag n) = Some (length (msg_text n b))"
proof -
  let ?b = "end_tag n" and ?w = "open_tag n @ b"
  have "find_pattern t ?b = Some (length ?w)"
  proof (rule find_pattern_first)
    show "length ?w + length ?b \<le> length t" "take (length ?b) (drop (length ?w) t) = ?b"
      using assms(2) by (simp_all add: msg_text_def)
    show "?b \<noteq> []" by simp
    fix i assume i: "i < length ?w"
    show "take (length ?b) (drop i t) \<noteq> ?b"
    proof
      assume eq: "take (length ?b) (drop i t) = ?b"
      let ?k = "i + length ?b"
      have tk: "take ?k t = take i t @ ?b" using eq by (simp add: take_add)
      have kl: "?k < length (msg_text n b)" using i by (simp add: msg_text_def)
      have "take ?k t @ drop ?k t = [] @ msg_text n b @ y"
        using assms(2) by (simp only: append_take_drop_id append_Nil)
      from message_end [OF assms(1) _ this] have some: "track ?b 0 (take ?k t) \<noteq> None"
        using kl by simp
      from assms(1) have tl: "tag_like ?b" by (intro end_tag_like) (simp add: good_msg_def)
      from some obtain q where q: "track ?b 0 (take i t) = Some q"
        unfolding tk track_append by (cases "track ?b 0 (take i t)") auto
      have "q < length ?b" using track_range [OF tl _ q] by simp
      from track_tag [OF tl this, of "length ?b"] q some show False unfolding tk track_append by simp
    qed
  qed
  then show ?thesis by (simp add: look_for_boundary_def msg_text_def)
qed

lemma prefix_no_NUL:
  assumes "good_msg n b" "NUL \<notin> set j" "t @ x = j @ msg_text n b @ y" "length t \<le> length j + length (msg_text n b)"
  shows "NUL \<notin> set t"
proof -
  from assms(3,4) have "t = take (length t) (j @ msg_text n b)"
    by (metis append.assoc append_eq_append_conv_if append_eq_conv_conj length_append)
  with msg_no_NUL [OF assms(1)] assms(2) show ?thesis
    by (metis UnE in_set_takeD set_append)
qed

lemma scan_hit:
  assumes "waits_close p d x j ms" "good_stream j ms" "ms = (n, b, j'') # ms'"
    and "track (end_tag n) 0 (chain_text (rx d)) = None"
  shows "\<exists>left. chunks_state_rx_type_close_bound_found d =
      Some (Some (msg_of (n, b, j'')), if left \<noteq> [] then chain_append left (free_boundary (d\<lparr>rx := []\<rparr>)) else free_boundary (d\<lparr>rx := []\<rparr>)) \<and>
    waits_open (free_boundary (d\<lparr>rx := []\<rparr>)) (left @ x) j'' ms'"
proof -
  let ?b = "end_tag n"
  from assms(1,3) obtain j' ps fs where j': "length j' \<le> length j" "chain_text (rx d) @ x = stream j' ms"
    and at: "close_at p d n b j' ps fs" by auto
  from j' at [unfolded close_at_def] have w: "LT \<notin> set j'" "NUL \<notin> set j'" "length j' \<le> length j"
      "chain_text (rx d) @ x = stream j' ms" "rx d \<noteq> []" "length j' < length (chunk (hd (rx d)))"
      "boundary d = Some ?b" "dc_llid d \<noteq> 0" "rx_bound_start d = Some (ck_id (hd (rx d)))" "i_bound_start d = length j'"
    and bl: "length (chain_text (butlast (rx d))) < length j' + length (msg_text n b)"
    and pf: "rx d = ps @ fs" "list_all (\<lambda>c. len_done c = 0) fs" "chain_ok ?b 0 ps"
      "track ?b 0 (resid ps) = track ?b 0 (chain_text ps)" "length (chain_text ps) < length j' + length (msg_text n b)"
    by blast+
  from assms(2,3) have gm: "good_msg n b" and sz: "length j + length (msg_text n b) \<le> MAX_SIZE_BIGGEST_MSG"
    and gs: "good_stream j'' ms'" by auto
  from gm have tl: "tag_like ?b" by (intro end_tag_like) (simp add: good_msg_def)
  have str: "chain_text (rx d) @ x = j' @ msg_text n b @ stream j'' ms'" using w(4) assms(3) by simp
  note mend = message_end [OF gm w(1)]
  have long: "length j' + length (msg_text n b) \<le> length (chain_text (rx d))"
    using mend [OF str] assms(4) by simp
  note fr = chain_ok_fresh [OF pf(2), of ?b]
  have pstr: "chain_text ps @ (chain_text fs @ x) = j' @ msg_text n b @ stream j'' ms'"
    using str pf(1) by simp
  from mend [OF pstr] pf(5) obtain q where q: "track ?b 0 (chain_text ps) = Some q" by fastforce
  have ok: "chain_ok ?b 0 (rx d)" using pf fr by (simp add: chain_ok_append split: option.splits)
  have tr: "track ?b 0 (resid (rx d)) = None"
    using assms(4) pf q fr by (simp add: track_append)
  have cm: "calm ?b 0 (resid (rx d))"
  proof -
    have "chain_text (rx d) = take (length j' + length (msg_text n b)) (chain_text (rx d)) @
        drop (length j' + length (msg_text n b)) (chain_text (rx d))" (is "_ = ?t @ ?r") by simp
    have ts: "?t @ (?r @ x) = j' @ msg_text n b @ stream j'' ms'"
      using str by (metis append.assoc append_take_drop_id)
    have "NUL \<notin> set ?t" using prefix_no_NUL [OF gm w(2) ts] by simp
    moreover have "track ?b 0 ?t = None" using mend [OF ts] long by simp
    ultimately have "calm ?b 0 (?t @ ?r)" using calm_no_NUL by (simp add: calm_append del: append_take_drop_id)
    then have c: "calm ?b 0 (chain_text ps @ chain_text fs)"
      using pf(1) by (simp only: append_take_drop_id chain_simps)
    have "NUL \<notin> set (resid ps)"
    proof -
      have "set (resid ps) \<subseteq> set (chain_text ps)" by (induction ps) (auto dest: in_set_dropD)
      with prefix_no_NUL [OF gm w(2) pstr] pf(5) show ?thesis by auto
    qed
    with c pf(1,4) q fr show ?thesis by (simp add: calm_append calm_no_NUL)
  qed
  have size: "length (chain_text []) + length (chain_text (rx d)) < MAX_SIZE_BIGGEST_MSG + length (chunk (last (rx d)))"
  proof -
    have "chain_text (rx d) = chain_text (butlast (rx d)) @ chunk (last (rx d))"
      using w(5) by (metis append_Nil2 append_butlast_last_id chain_simps(4,5,6))
    then have "length (chain_text (rx d)) = length (chain_text (butlast (rx d))) + length (chunk (last (rx d)))"
      by (metis length_append)
    with bl sz w(3) show ?thesis by simp
  qed
  from close_chunks_hit [OF tl cm _ size ok tr] obtain pr cs' where
    cc: "close_chunks ?b [] (rx d) 0 0 = Some (True, pr, cs')" and sp: "same_pieces cs' (rx d)"
    by auto
  have gc: "get_close_boundary_from_chunk (rx d) ?b = Some (True, pr, cs')"
    using cc w(5,6) tl by (auto simp: get_close_boundary_from_chunk_def kout_if_bind tag_like_def)
  have hd: "cs' \<noteq> []" "ck_id (hd cs') = ck_id (hd (rx d))" "chunk (hd cs') = chunk (hd (rx d))"
    using sp w(5) by (cases cs'; cases "rx d"; auto)+
  have copy: "make_a_buf_copy cs' (length j') = Some (drop (length j') (chain_text (rx d)))"
    using make_a_buf_copy_eq [of cs' "length j'"] hd w(6) same_pieces_text [OF sp] by simp
  let ?m = "length (msg_text n b)"
  obtain y where y: "drop (length j') (chain_text (rx d)) = msg_text n b @ y" "y @ x = stream j'' ms'"
  proof -
    have "chain_text (rx d) = j' @ msg_text n b @ drop (length j' + ?m) (chain_text (rx d))"
      using str long by (metis (no_types, lifting) append.assoc append_eq_append_conv_if append_take_drop_id length_append)
    moreover from this str have "drop (length j' + ?m) (chain_text (rx d)) @ x = stream j'' ms'"
      by (metis append.assoc same_append_eq)
    ultimately show ?thesis using that by (metis append_eq_conv_conj)
  qed
  have "chunks_state_rx_type_close_bound_found d = Some (Some (msg_text n b @ [NUL]),
      if y \<noteq> [] then chain_append y (free_boundary (d\<lparr>rx := []\<rparr>)) else free_boundary (d\<lparr>rx := []\<rparr>))"
    using w(7,9,10) gc hd copy y(1) look_for_message [OF gm y(1)]
    by (simp add: chunks_state_rx_type_close_bound_found_def kout_if_bind Let_def)
  moreover have "waits_open (free_boundary (d\<lparr>rx := []\<rparr>)) (y @ x) j'' ms'"
    using w(8) y(2) gs good_junk [OF gs] by (auto simp: waits_open_def free_boundary_def length_open_tag)
  ultimately show ?thesis by (intro exI [of _ y]) (simp add: msg_of_def)
qed

lemma scan_miss:
  assumes "waits_close p d x j ms" "good_stream j ms" "ms = (n, b, j'') # ms'"
    and "track (end_tag n) 0 (chain_text (rx d)) = Some r"
  shows "\<exists>d'. chunks_state_rx_type_close_bound_found d = Some (None, d') \<and> waits_close True d' x j ms"
proof -
  let ?b = "end_tag n"
  from assms(1,3) obtain j' ps fs where j': "length j' \<le> length j" "chain_text (rx d) @ x = stream j' ms"
    and at: "close_at p d n b j' ps fs" by auto
  from j' at [unfolded close_at_def] have w: "LT \<notin> set j'" "NUL \<notin> set j'"
      "rx d \<noteq> []" "length j' < length (chunk (hd (rx d)))"
      "boundary d = Some ?b" "dc_llid d \<noteq> 0" "rx_bound_start d = Some (ck_id (hd (rx d)))" "i_bound_start d = length j'"
      "decoding_state d = rx_type_open_bound_found"
    and pf: "rx d = ps @ fs" "list_all (\<lambda>c. len_done c = 0) fs" "chain_ok ?b 0 ps"
      "track ?b 0 (resid ps) = track ?b 0 (chain_text ps)" "length (chain_text ps) < length j' + length (msg_text n b)"
    by blast+
  from assms(2,3) have gm: "good_msg n b" and sz: "length j + length (msg_text n b) \<le> MAX_SIZE_BIGGEST_MSG" by auto
  from gm have tl: "tag_like ?b" by (intro end_tag_like) (simp add: good_msg_def)
  have str: "chain_text (rx d) @ x = j' @ msg_text n b @ stream j'' ms'" using j'(2) assms(3) by simp
  have short: "length (chain_text (rx d)) < length j' + length (msg_text n b)"
    using message_end [OF gm w(1) str] assms(4) by simp
  have nul: "NUL \<notin> set (chain_text (rx d))" using prefix_no_NUL [OF gm w(2) str] short by simp
  note fr = chain_ok_fresh [OF pf(2), of ?b]
  have "track ?b 0 (chain_text ps @ chain_text fs) = Some r" using assms(4) pf(1) by simp
  then obtain q where q: "track ?b 0 (chain_text ps) = Some q" "track ?b q (chain_text fs) = Some r"
    by (auto simp: track_append bind_eq_Some)
  have ok: "chain_ok ?b 0 (rx d)" using pf fr by (simp add: chain_ok_append split: option.splits)
  have tr: "track ?b 0 (resid (rx d)) = Some r" using pf q fr by (simp add: track_append)
  have size: "length (chain_text []) + length (chain_text (rx d)) < MAX_SIZE_BIGGEST_MSG"
    using short sz j'(1) by simp
  have zero: "0 < length ?b" by simp
  from close_chunks_end [OF tl nul _ size _ _ _ ok tr zero, of 0] obtain cs' where
    cc: "close_chunks ?b [] (rx d) 0 0 = Some (False, None, cs')" and sp: "same_pieces cs' (rx d)"
    and ok': "chain_ok ?b 0 cs'" and tr': "track ?b 0 (resid cs') = Some r"
    by auto
  have gc: "get_close_boundary_from_chunk (rx d) ?b = Some (False, None, cs')"
    using cc w(3,4) tl by (auto simp: get_close_boundary_from_chunk_def kout_if_bind tag_like_def)
  have tx: "chain_text cs' = chain_text (rx d)" by (rule same_pieces_text [OF sp])
  have hd: "cs' \<noteq> []" "ck_id (hd cs') = ck_id (hd (rx d))" "chunk (hd cs') = chunk (hd (rx d))"
    using sp w(3) by (cases cs'; cases "rx d"; auto)+
  have "chain_text cs' = chain_text (butlast cs') @ chunk (last cs')"
    using hd(1) by (metis append_Nil2 append_butlast_last_id chain_simps(4,5,6))
  then have bl: "length (chain_text (butlast cs')) < length j' + length (msg_text n b)"
    using short tx by (metis length_append le_add1 le_less_trans)
  have "close_at True (d\<lparr>rx := cs'\<rparr>) n b j' cs' []"
    unfolding close_at_def using w hd tx ok' tr' assms(4) short bl by simp
  moreover have "chunks_state_rx_type_close_bound_found d = Some (None, d\<lparr>rx := cs'\<rparr>)"
    using gc w(5) by (simp add: chunks_state_rx_type_close_bound_found_def)
  ultimately show ?thesis using j' tx assms(3) by (auto intro!: exI [of _ "d\<lparr>rx := cs'\<rparr>"])
qed

section \<open>All the messages of a stream\<close>

text \<open>A call for a message that changes the rest of the program and leaves the channel alone.\<close>

definition keeps_channel :: "('s \<Rightarrow> string \<Rightarrow> 's) \<Rightarrow> 's msg_call" where
  "keeps_channel upd msg ds = Some (fst ds, upd (snd ds) msg)"

text \<open>What is left after some messages.\<close>

definition waits :: "t_data_channel \<Rightarrow> string \<Rightarrow> string \<Rightarrow> (string \<times> string \<times> string) list \<Rightarrow> bool" where
  "waits d x j ms \<longleftrightarrow> waits_open d x j ms \<or> waits_close True d x j ms"

lemma waits_close_state: "waits_close p d x j ms \<Longrightarrow> decoding_state d = rx_type_open_bound_found \<and> dc_llid d \<noteq> 0"
  by (cases ms) (auto simp: close_at_def)

lemma ascii_step_none:
  "waits_open d x j ms \<Longrightarrow> rx d = [] \<Longrightarrow> chunks_state_rx_type_ascii_start d = Some d"
  by (simp add: waits_open_def chunks_state_rx_type_ascii_start_def)

lemma rx_loop_delivers:
  assumes "waits_open d x j ms \<or> waits_close p d x j ms" "good_stream j ms"
  shows "\<exists>d' given rest. rx_loop (keeps_channel upd) (d, s) = Some (d', foldl upd s (map msg_of given)) \<and>
    ms = given @ rest \<and> good_stream (last_junk j given) rest \<and> waits d' x (last_junk j given) rest"
  using assms
proof (induction ms arbitrary: d j p s)
  case Nil
  then show ?case
    by (intro exI [of _ d] exI [of _ "[]"]) (auto simp: waits_def waits_open_def rx_loop.simps [of _ "(d, s)"])
next
  case (Cons m ms)
  obtain n b j'' where m: "m = (n, b, j'')" by (cases m) auto
  show ?case
  proof (cases "waits_open d x j (m # ms)")
    case True
    then have "decoding_state d = rx_type_ascii_start" by (simp add: waits_open_def)
    then have "rx_loop (keeps_channel upd) (d, s) = Some (d, s)" by (simp add: rx_loop.simps)
    with True Cons.prems(2) show ?thesis
      by (intro exI [of _ d] exI [of _ "[]"] exI [of _ "m # ms"]) (simp add: waits_def)
  next
    case False
    with Cons.prems(1) have wc: "waits_close p d x j ((n, b, j'') # ms)" by (simp add: m)
    from waits_close_state [OF wc] have st: "decoding_state d = rx_type_open_bound_found" by simp
    note gs = Cons.prems(2) [unfolded m]
    show ?thesis
    proof (cases "track (end_tag n) 0 (chain_text (rx d))")
      case (Some r)
      from scan_miss [OF wc gs refl Some] obtain d' where
        d': "chunks_state_rx_type_close_bound_found d = Some (None, d')" "waits_close True d' x j (m # ms)"
        by (auto simp: m)
      with waits_close_state [OF d'(2)] st have "rx_loop (keeps_channel upd) (d, s) = Some (d', s)"
        by (simp add: rx_loop.simps [of _ "(d, s)"])
      with d'(2) Cons.prems(2) show ?thesis
        by (intro exI [of _ d'] exI [of _ "[]"] exI [of _ "m # ms"]) (simp add: waits_def)
    next
      case None
      let ?d = "free_boundary (d\<lparr>rx := []\<rparr>)"
      from scan_hit [OF wc gs refl None] obtain left where
        hit: "chunks_state_rx_type_close_bound_found d =
          Some (Some (msg_of m), if left \<noteq> [] then chain_append left ?d else ?d)"
        and wo: "waits_open ?d (left @ x) j'' ms"
        by (auto simp: m)
      let ?e = "if left \<noteq> [] then chain_append left ?d else ?d"
      from gs have gs': "good_stream j'' ms" by simp
      have ll: "dc_llid ?e \<noteq> 0" using wo by (simp add: waits_open_def chain_append_def)
      obtain e where e: "chunks_state_rx_type_ascii_start ?e = Some e"
        "waits_open e x j'' ms \<or> waits_close False e x j'' ms"
      proof (cases "left = []")
        case True
        with wo ascii_step_none [OF wo] that [of ?d] show ?thesis by (auto simp: free_boundary_def)
      next
        case False
        with ascii_step [OF wo gs' False] that show ?thesis by auto
      qed
      have step: "rx_loop (keeps_channel upd) (d, s) = rx_loop (keeps_channel upd) (e, upd s (msg_of m))"
        by (subst rx_loop.simps) (simp add: st hit e(1) ll keeps_channel_def del: if_split split del: if_split)
      from Cons.IH [OF e(2) gs', of "upd s (msg_of m)"] obtain d' given rest where
        "rx_loop (keeps_channel upd) (e, upd s (msg_of m)) = Some (d', foldl upd (upd s (msg_of m)) (map msg_of given))"
        "ms = given @ rest" "good_stream (last_junk j'' given) rest" "waits d' x (last_junk j'' given) rest"
        by blast
      with step show ?thesis
        by (intro exI [of _ d'] exI [of _ "m # given"] exI [of _ rest]) (simp add: m)
    qed
  qed
qed

lemma waits_close_more:
  assumes "waits_close True d (c @ x) j ms"
  shows "waits_close False (chain_append c d) x j ms"
proof (cases ms)
  case (Cons m ms')
  obtain n b j'' where m: "m = (n, b, j'')" by (cases m) auto
  from assms obtain j' ps fs where j': "length j' \<le> length j" "chain_text (rx d) @ c @ x = stream j' ms"
    and at: "close_at True d n b j' ps fs" by (auto simp: Cons m)
  have "close_at False (chain_append c d) n b j' (rx d) [\<lparr>ck_id = next_chunk d, chunk = c, len_done = 0, start_len_done = 0\<rparr>]"
    using at unfolding close_at_def by (auto simp: chain_append_def)
  with j' show ?thesis by (auto simp: Cons m chain_append_def)
qed (use assms in simp)

lemma piece_delivers:
  assumes "waits d (c @ x) j ms" "good_stream j ms" "c \<noteq> []"
  shows "\<exists>d' given rest. new_rx_to_process (keeps_channel upd) c (d, s) = Some (d', foldl upd s (map msg_of given)) \<and>
    ms = given @ rest \<and> good_stream (last_junk j given) rest \<and> waits d' x (last_junk j given) rest"
proof (cases "waits_open d (c @ x) j ms")
  case True
  from ascii_step [OF True assms(2,3)] obtain e where e: "chunks_state_rx_type_ascii_start (chain_append c d) = Some e"
    "waits_open e x j ms \<or> waits_close False e x j ms" by blast
  from True have "decoding_state (chain_append c d) = rx_type_ascii_start" by (simp add: waits_open_def chain_append_def)
  with e(1) have "new_rx_to_process (keeps_channel upd) c (d, s) = rx_loop (keeps_channel upd) (e, s)"
    by (simp add: new_rx_to_process_def string_rx_to_process_def kout_if_bind)
  with rx_loop_delivers [OF e(2) assms(2)] show ?thesis by simp
next
  case False
  with assms(1) have "waits_close True d (c @ x) j ms" by (simp add: waits_def)
  from waits_close_more [OF this] have wc: "waits_close False (chain_append c d) x j ms" .
  from waits_close_state [OF wc] have "new_rx_to_process (keeps_channel upd) c (d, s) =
      rx_loop (keeps_channel upd) (chain_append c d, s)"
    by (simp add: new_rx_to_process_def string_rx_to_process_def kout_if_bind)
  with rx_loop_delivers [OF disjI2 [OF wc] assms(2)] show ?thesis by simp
qed

lemma last_junk_append: "last_junk j (xs @ ys) = last_junk (last_junk j xs) ys"
  by (induction j xs rule: last_junk.induct) auto

lemma pieces_deliver:
  assumes "waits d (concat cs @ x) j ms" "good_stream j ms" "[] \<notin> set cs"
  shows "\<exists>d' given rest. run_events (\<lambda>ds c. new_rx_to_process (keeps_channel upd) c ds) (d, s) cs =
      Some (d', foldl upd s (map msg_of given)) \<and>
    ms = given @ rest \<and> waits d' x (last_junk j given) rest"
  using assms
proof (induction cs arbitrary: d j ms s)
  case Nil
  then show ?case by (intro exI [of _ d] exI [of _ "[]"] exI [of _ ms]) simp
next
  case (Cons c cs)
  from Cons.prems have w: "waits d (c @ concat cs @ x) j ms" "c \<noteq> []" "[] \<notin> set cs" by auto
  from piece_delivers [OF w(1) Cons.prems(2) w(2), of upd s] obtain e g1 r1 where
    e: "new_rx_to_process (keeps_channel upd) c (d, s) = Some (e, foldl upd s (map msg_of g1))"
    "ms = g1 @ r1" "good_stream (last_junk j g1) r1" "waits e (concat cs @ x) (last_junk j g1) r1" by blast
  from Cons.IH [OF e(4,3) w(3), of "foldl upd s (map msg_of g1)"] obtain d' g2 r2 where
    "run_events (\<lambda>ds c. new_rx_to_process (keeps_channel upd) c ds) (e, foldl upd s (map msg_of g1)) cs =
      Some (d', foldl upd (foldl upd s (map msg_of g1)) (map msg_of g2))"
    "r1 = g2 @ r2" "waits d' x (last_junk (last_junk j g1) g2) r2" by blast
  with e show ?case
    by (intro exI [of _ d'] exI [of _ "g1 @ g2"] exI [of _ r2]) (simp add: last_junk_append)
qed

lemma stream_snoc: "stream j (ms @ [(n, b, j')]) = stream j ms @ msg_text n b @ j'"
  by (induction j ms rule: stream.induct) auto

lemma waits_length:
  assumes "waits d x j ((n, b, j'') # ms)"
  shows "length (stream j'' ms) < length x"
proof -
  from assms obtain j' where "chain_text (rx d) @ x = j' @ msg_text n b @ stream j'' ms"
    and l: "length (chain_text (rx d)) < length j' + length (msg_text n b)"
    unfolding waits_def waits_open_def
    by (fastforce simp: close_at_def msg_text_def)
  then have "length (chain_text (rx d)) + length x = length j' + length (msg_text n b) + length (stream j'' ms)"
    by (metis add.assoc length_append)
  with l show ?thesis by simp
qed

text \<open>C29: (\<open>rx_process.c\<close>) A stream of XML messages on a control channel, with any characters but \<open><\<close>
  between them, is delivered as exactly these messages, in order and each as soon as its last
  byte has come, however \<open>read\<close> cuts the bytes into pieces (here up to a message \<open>(n, b)\<close> of which only the
  part \<open>p\<close> has come): the search that goes on over several pieces from the positions in \<open>len_done\<close> misses
  nothing and finds nothing twice, and none of the internal checks ends the process. A message with the
  characters before it has at most 100000 bytes.\<close>

theorem messages_delivered:
  assumes "good_stream j (ms @ [(n, b, [])])" and "[] \<notin> set cs" and "l \<noteq> 0"
    and "concat cs = stream j ms @ p" and "p @ x = msg_text n b" and "x \<noteq> []"
  shows "\<exists>d. run_events (\<lambda>ds c. new_rx_to_process (keeps_channel upd) c ds) (new_dchan l, s) cs =
    Some (d, foldl upd s (map msg_of ms))"
proof -
  let ?ms = "ms @ [(n, b, [])]"
  have str: "concat cs @ x = stream j ?ms" using assms(4,5) by (simp add: stream_snoc)
  have "waits_open (new_dchan l) (concat cs @ x) j ?ms"
    using str good_junk [OF assms(1)] assms(3) by (auto simp: waits_open_def new_dchan_def length_open_tag)
  then have "waits (new_dchan l) (concat cs @ x) j ?ms" by (simp add: waits_def)
  from pieces_deliver [OF this assms(1,2), of upd s] obtain d given rest where
    run: "run_events (\<lambda>ds c. new_rx_to_process (keeps_channel upd) c ds) (new_dchan l, s) cs =
      Some (d, foldl upd s (map msg_of given))"
    and ms: "?ms = given @ rest" and w: "waits d x (last_junk j given) rest" by blast
  have "given = ms"
  proof (cases rest rule: rev_cases)
    case Nil
    with ms have "last_junk j given = []" by (auto simp: last_junk_append dest: sym)
    with w Nil have "x = []" by (auto simp: waits_def waits_open_def)
    with assms(6) show ?thesis by simp
  next
    case (snoc zs m)
    with ms have m: "m = (n, b, [])" "ms = given @ zs" by auto
    show ?thesis
    proof (cases zs)
      case (Cons r zs')
      obtain n' b' j' where "r = (n', b', j')" by (cases r) auto
      with w snoc Cons m have "length (stream j' (zs' @ [(n, b, [])])) < length x"
        using waits_length [of d x "last_junk j given" n' b' j'] by simp
      moreover have "length x \<le> length (msg_text n b)" using assms(5) by (metis le_add2 length_append)
      ultimately show ?thesis by (simp add: stream_snoc)
    qed (use m in simp)
  qed
  with run show ?thesis by blast
qed

theorem messages_delivered_witness:
  "\<exists>d. run_events (\<lambda>ds c. new_rx_to_process (keeps_channel (\<lambda>log m. log @ [m])) c ds) (new_dchan 5, [])
      [''<a>x<'', ''/a>'' @ [NUL], ''<b''] = Some (d, [''<a>x</a>'' @ [NUL]])"
proof -
  have g: "good_stream [] ([(''a'', ''x'', [NUL])] @ [(''b'', [], [])])"
  proof -
    have "good_msg ''a'' ''x''" "good_msg ''b'' []" by code_simp+
    moreover have "length (msg_text ''a'' ''x'') = 8" "length (msg_text ''b'' []) = 7" by code_simp+
    ultimately show ?thesis by (simp add: MAX_SIZE_BIGGEST_MSG_def)
  qed
  have ne: "[] \<notin> set [''<a>x<'', ''/a>'' @ [NUL], ''<b'']" and l: "(5 :: int) \<noteq> 0" by simp_all
  have c: "concat [''<a>x<'', ''/a>'' @ [NUL], ''<b''] = stream [] [(''a'', ''x'', [NUL])] @ ''<b''"
    and x: "''<b'' @ ''></b>'' = msg_text ''b'' []" and x': "''></b>'' \<noteq> []" by code_simp+
  have "map msg_of [(''a'', ''x'', [NUL])] = [''<a>x</a>'' @ [NUL]]" by code_simp
  with messages_delivered [OF g ne l c x x', of "\<lambda>log m. log @ [m]" "[]"] show ?thesis by simp
qed

section \<open>A closing tag in front of the opening one\<close>

text \<open>C30: (\<open>rx_process.c\<close>) A piece that has a closing tag \<open></n>\<close> in front of the opening tag \<open><n>\<close> ends the
  process, unless another closing tag follows: the search for the closing tag starts at the beginning
  of the piece and finds the one in front, and \<open>look_for_boundary\<close>, which starts at the opening tag, then
  finds none. Whoever can write to a control channel can stop the server with eight bytes.\<close>

theorem stray_close_tag_is_fatal:
  assumes "decoding_state (fst ds) = rx_type_ascii_start" and "boundary (fst ds) = None" and "rx (fst ds) = []"
    and "xml_name n" and "LT \<notin> set j" and "LT \<notin> set m" and "find_pattern (open_tag n @ y) (end_tag n) = None"
  shows "new_rx_to_process cb (j @ end_tag n @ m @ open_tag n @ y) ds = None"
proof -
  let ?b = "end_tag n" and ?d = "fst ds"
  let ?t = "CHR ''/'' # n @ GT # m @ open_tag n @ y"
  let ?c = "\<lparr>ck_id = next_chunk ?d, chunk = j @ LT # ?t, len_done = 0, start_len_done = 0\<rparr>"
  have piece: "j @ ?b @ m @ open_tag n @ y = j @ LT # ?t" by (simp add: end_tag_def)
  obtain jb where jb: "blank_nuls (j @ LT # ?t) = jb @ LT # ?t" "length jb = length j" "LT \<notin> set jb" "NUL \<notin> set jb"
    using blank_nuls_junk [OF assms(5)] by blast
  let ?c' = "?c\<lparr>chunk := jb @ LT # ?t\<rparr>" and ?l = "length (open_tag n)"
  let ?w = "jb @ end_tag n @ m" and ?o = "n @ GT # y"
  let ?bd = "(ck_id ?c, length ?w)"
  have tl: "tag_like ?b" by (rule end_tag_like [OF assms(4)])
  have len1: "1 < ?l" by (simp add: length_open_tag)
  have tx: "jb @ LT # ?t = ?w @ LT # ?o" by (simp add: end_tag_def open_tag_def)
  have slash: "\<not> is_good_first_letter_xml (CHR ''/'')" by (simp add: is_good_first_letter_xml_def)
  have "open_bytes (ck_id ?c) (jb @ LT # ?t) 0 (0, 0, (0, 0)) =
      open_bytes (ck_id ?c) (CHR ''/'' # (n @ GT # m) @ LT # ?o) (Suc (length jb)) (1, 1, (ck_id ?c, length jb))"
    using jb(3) by (simp add: open_bytes_junk open_tag_def)
  also have "\<dots> = open_bytes (ck_id ?c) ((n @ GT # m) @ LT # ?o) (length jb + 2) (0, 1, (ck_id ?c, length jb))"
    using slash by simp
  also have "\<dots> = open_bytes (ck_id ?c) ?o (Suc (length ?w)) (1, 1, ?bd)"
    using name_chars [OF assms(4)] assms(6) by (subst open_bytes_junk) (auto simp: eval_nat_numeral)
  also have "(1, 1, ?bd) = open_state ?l 1 ?bd" using len1 by (simp add: open_state_def)
  also have "open_bytes (ck_id ?c) ?o (Suc (length ?w)) (open_state ?l 1 ?bd) = open_state ?l (min ?l (1 + length ?o)) ?bd"
    using len1 by (intro open_bytes_tag [OF assms(4), where x = "[]" and y = y]) (simp_all add: open_tag_def)
  also have "\<dots> = (4, ?l, ?bd)" by (simp add: open_state_def length_open_tag)
  finally have op: "open_bytes (ck_id ?c) (jb @ LT # ?t) 0 (0, 0, (0, 0)) = (4, ?l, ?bd)" .
  have ct: "close_tag [?c'] (length ?w) ?l = Some ?b"
    by (rule close_tag_first [OF assms(4), where t = ?o and x = "[]" and y = y])
      (simp_all add: end_tag_def open_tag_def)
  have gx: "get_xml_start_boundary_from_chunk [?c'] = Some (Some (?b, ck_id ?c, length ?w))"
    using op ct by (simp add: get_xml_start_boundary_from_chunk_def chain_del_def)
  let ?e = "alloc_boundary ?b (ck_id ?c) (length ?w) ((chain_append (j @ LT # ?t) ?d)\<lparr>rx := [?c']\<rparr>)"
  have rx: "rx (chain_append (j @ LT # ?t) ?d) = [?c]" "boundary (chain_append (j @ LT # ?t) ?d) = None"
    using assms(2,3) by (simp_all add: chain_append_def)
  have asc: "chunks_state_rx_type_ascii_start (chain_append (j @ LT # ?t) ?d) = Some ?e"
    using rx gx jb(1) by (simp add: chunks_state_rx_type_ascii_start_def chain_del_def)
  have "track ?b 0 (jb @ ?b) = None"
    using track_no_LT [OF tl jb(3)] track_tag [OF tl, of 0 "length ?b"] by (simp add: track_append)
  moreover have "NUL \<notin> set (jb @ ?b)" using jb(4) name_chars [OF assms(4)] by (auto simp: end_tag_def)
  ultimately have "track ?b 0 ((jb @ ?b) @ m @ LT # ?o) = None" "calm ?b 0 ((jb @ ?b) @ m @ LT # ?o)"
    using calm_no_NUL [of "jb @ ?b" ?b 0]
    by (simp_all add: track_append [of ?b 0 "jb @ ?b"] calm_append [of ?b 0 "jb @ ?b"] del: append_assoc)
  then obtain ld p where "close_bytes ?b (jb @ LT # ?t) 0 0 0 False = Walk_hit ld p"
    using close_bytes_hit [OF tl, of 0] tx by fastforce
  moreover have "pushed p [] = []" "n \<noteq> []" for p
    using assms(4) by (simp_all add: pushed_def push_done_limit_def xml_name_def)
  ultimately obtain pr where gc: "get_close_boundary_from_chunk [?c'] ?b = Some (True, pr, [?c'\<lparr>len_done := ld\<rparr>])"
    by (simp add: get_close_boundary_from_chunk_def kout_if_bind)
  have copy: "make_a_buf_copy [?c'\<lparr>len_done := ld\<rparr>] (length ?w) = Some (open_tag n @ y)"
  proof -
    have "length v < length (v @ LT # u)" "drop (length v) (v @ LT # u) = LT # u" for u v by simp_all
    from this [of ?w ?o] have "length ?w < length (chunk ?c')" "drop (length ?w) (chunk ?c') = LT # ?o"
      by (simp_all only: tx t_data_chunk.simps)
    with make_a_buf_copy_eq [of "[?c'\<lparr>len_done := ld\<rparr>]" "length ?w"] show ?thesis
      by (simp add: open_tag_def del: length_append)
  qed
  have "chunks_state_rx_type_close_bound_found ?e = None"
    using gc copy assms(7)
    by (simp add: chunks_state_rx_type_close_bound_found_def alloc_boundary_def chain_append_def look_for_boundary_def kout_if_bind)
  moreover have "decoding_state ?e = rx_type_open_bound_found" by (simp add: alloc_boundary_def)
  ultimately have "rx_loop cb (?e, snd ds) = None" by (simp add: rx_loop.simps)
  with asc assms(1) show ?thesis
    by (simp add: piece new_rx_to_process_def string_rx_to_process_def kout_if_bind chain_append_def)
qed

theorem stray_close_tag_is_fatal_witness:
  "new_rx_to_process (keeps_channel (\<lambda>n m. Suc n)) ''</a><a>'' (new_dchan 5, 0) = None"
proof -
  have "xml_name ''a''" "LT \<notin> set ([] :: string)" "find_pattern (open_tag ''a'' @ []) (end_tag ''a'') = None" by code_simp+
  moreover have "decoding_state (fst (new_dchan 5, 0 :: nat)) = rx_type_ascii_start" "boundary (fst (new_dchan 5, 0 :: nat)) = None"
    "rx (fst (new_dchan 5, 0 :: nat)) = []" by (simp_all add: new_dchan_def)
  ultimately have "new_rx_to_process (keeps_channel (\<lambda>n m. Suc n)) ([] @ end_tag ''a'' @ [] @ open_tag ''a'' @ []) (new_dchan 5, 0) = None"
    by (intro stray_close_tag_is_fatal) simp_all
  moreover have "[] @ end_tag ''a'' @ [] @ open_tag ''a'' @ [] = ''</a><a>''" by code_simp
  ultimately show ?thesis by simp
qed

end
