(* ===== verification/Tx_Queue.thy ===== *)
theory Tx_Queue
  imports Rx_Stream
begin

text \<open>
  The sending side of a control channel (\<open>lib_ioc/src/msg_layer.c\<close>, \<open>chunk.c\<close>): messages wait on a chain
  and are written when the socket has room; and the two sides together.
\<close>

section \<open>The chain of pieces to write\<close>

definition MAX_TOT_LEN_QSIG :: nat where "MAX_TOT_LEN_QSIG = 1000000"

text \<open>The other half of the channel; \<open>tx_out\<close> is what \<open>write\<close> has taken.\<close>

record t_data_channel_tx = t_data_channel +
  tx :: "t_data_chunk list"
  last_tx :: "nat option"
  tot_txq_size :: nat
  peak_queue_len :: nat
  tx_out :: string

definition chain_append_tx :: "string \<Rightarrow> t_data_channel_tx \<Rightarrow> t_data_channel_tx" where
  "chain_append_tx ntx d =
     (let cur = \<lparr>ck_id = next_chunk d, chunk = ntx, len_done = 0, start_len_done = 0\<rparr> in
      d\<lparr>tx := (if last_tx d \<noteq> None then tx d @ [cur] else [cur]), last_tx := Some (ck_id cur),
        next_chunk := Suc (next_chunk d)\<rparr>)"

text \<open>The first piece is not there only when the queue is empty.\<close>

definition first_elem_delete :: "t_data_channel_tx \<Rightarrow> t_data_channel_tx run" where
  "first_elem_delete d = (case tx d of
     [] \<Rightarrow> None
   | c # cs \<Rightarrow> Some (d\<lparr>last_tx := (if last_tx d = Some (ck_id c) then None else last_tx d), tx := cs\<rparr>))"

text \<open>A full queue drops the message without a word.\<close>

definition string_tx :: "string \<Rightarrow> t_data_channel_tx \<Rightarrow> t_data_channel_tx run" where
  "string_tx msg d = do {
     kout_if (msg = [] \<or> MAX_TOT_LEN_QSIG < length msg);
     kout_if (dc_llid d = 0);
     kout_if (decoding_state d \<noteq> rx_type_ascii_start \<and> decoding_state d \<noteq> rx_type_open_bound_found);
     if tot_txq_size d < MAX_TOT_LEN_QSIG then
       (let tot = tot_txq_size d + length msg in
        Some (chain_append_tx msg (d\<lparr>tot_txq_size := tot, peak_queue_len := max (peak_queue_len d) tot\<rparr>)))
     else Some d
   }"

text \<open>What a call of \<open>write\<close> finds: room for some bytes, none (\<open>EAGAIN\<close>, \<open>EINTR\<close>), or an error.\<close>

datatype t_room = Room nat | Again | Write_error

definition tx_write :: "t_room \<Rightarrow> string \<Rightarrow> nat run" where
  "tx_write r msg = (case r of
     Room k \<Rightarrow> if min k (length msg) = 0 then None else Some (min k (length msg))
   | Again \<Rightarrow> Some 0
   | Write_error \<Rightarrow> None)"

definition tx_try_send_chunk :: "t_room \<Rightarrow> t_data_channel_tx \<Rightarrow> (nat \<times> t_data_channel_tx) run" where
  "tx_try_send_chunk r d = (case tx d of
     [] \<Rightarrow> None
   | c # cs \<Rightarrow> do {
       let fstr = drop (len_done c) (chunk c);
       len \<leftarrow> tx_write r fstr;
       if 0 < len then do {
         kout_if (tot_txq_size d < len);
         let d = d\<lparr>tot_txq_size := tot_txq_size d - len, tx_out := tx_out d @ take len fstr\<rparr>;
         if len = length fstr then do {
           d \<leftarrow> first_elem_delete d;
           Some (if tx d \<noteq> [] then 1 else 0, d)
         } else Some (2, d\<lparr>tx := c\<lparr>len_done := len_done c + len\<rparr> # cs\<rparr>)
       } else Some (0, d)
     })"

text \<open>One call of \<open>write\<close> for each element of the list, then there is no room.\<close>

fun tx_loop :: "t_room list \<Rightarrow> t_data_channel_tx \<Rightarrow> t_data_channel_tx run" where
  "tx_loop [] d = map_option snd (tx_try_send_chunk Again d)"
| "tx_loop (r # rs) d = do {
     (result, d) \<leftarrow> tx_try_send_chunk r d;
     if result = 1 then tx_loop rs d else Some d
   }"

definition tx_dchan_cb :: "t_room list \<Rightarrow> t_data_channel_tx \<Rightarrow> t_data_channel_tx run" where
  "tx_dchan_cb rs d = do {
     kout_if (dc_llid d = 0);
     if tot_txq_size d \<noteq> 0 then do {
       kout_if (tx d = []);
       tx_loop rs d
     } else Some d
   }"

section \<open>A run of the sender\<close>

datatype tx_event_msg = Send string | Writable "t_room list"

fun tx_msg_step :: "t_data_channel_tx \<Rightarrow> tx_event_msg \<Rightarrow> t_data_channel_tx run" where
  "tx_msg_step d (Send msg) = string_tx msg d"
| "tx_msg_step d (Writable rs) = tx_dchan_cb rs d"

text \<open>No error of the socket; \<open>write\<close> takes at least a byte if it takes any.\<close>

fun tx_msg_legal :: "tx_event_msg \<Rightarrow> bool" where
  "tx_msg_legal (Send msg) = (msg \<noteq> [] \<and> length msg \<le> MAX_TOT_LEN_QSIG)"
| "tx_msg_legal (Writable rs) = list_all (\<lambda>r. r \<noteq> Write_error \<and> r \<noteq> Room 0) rs"

fun sent_text :: "tx_event_msg list \<Rightarrow> string" where
  "sent_text [] = []"
| "sent_text (Send msg # es) = msg @ sent_text es"
| "sent_text (Writable rs # es) = sent_text es"

definition new_dchan_tx :: "int \<Rightarrow> t_data_channel_tx" where
  "new_dchan_tx l = t_data_channel.extend (new_dchan l) (t_data_channel_tx.fields [] None 0 0 [])"

definition tx_queue_ok :: "t_data_channel_tx \<Rightarrow> bool" where
  "tx_queue_ok d \<longleftrightarrow> dc_llid d \<noteq> 0 \<and> decoding_state d = rx_type_ascii_start \<and>
     tot_txq_size d = length (resid (tx d)) \<and>
     list_all (\<lambda>c. len_done c < length (chunk c) \<and> ck_id c < next_chunk d) (tx d) \<and>
     distinct (map ck_id (tx d)) \<and>
     last_tx d = (if tx d = [] then None else Some (ck_id (last (tx d))))"

lemma tx_queue_empty: "tx_queue_ok d \<Longrightarrow> tx d = [] \<longleftrightarrow> tot_txq_size d = 0"
  by (cases "tx d") (auto simp: tx_queue_ok_def)

lemma string_tx_ok:
  assumes "tx_queue_ok d" "msg \<noteq> []" "length msg \<le> MAX_TOT_LEN_QSIG" "tot_txq_size d < MAX_TOT_LEN_QSIG"
  shows "\<exists>e. string_tx msg d = Some e \<and> tx_queue_ok e \<and> tx_out e = tx_out d \<and> resid (tx e) = resid (tx d) @ msg"
proof -
  let ?c = "\<lparr>ck_id = next_chunk d, chunk = msg, len_done = 0, start_len_done = 0\<rparr>"
  let ?e = "d\<lparr>tot_txq_size := tot_txq_size d + length msg,
    peak_queue_len := max (peak_queue_len d) (tot_txq_size d + length msg), tx := tx d @ [?c],
    last_tx := Some (next_chunk d), next_chunk := Suc (next_chunk d)\<rparr>"
  have "string_tx msg d = Some ?e"
    using assms by (auto simp: string_tx_def kout_if_bind tx_queue_ok_def chain_append_tx_def Let_def)
  moreover have "tx_queue_ok ?e"
    using assms by (auto simp: tx_queue_ok_def list_all_iff less_Suc_eq)
  ultimately show ?thesis by (intro exI [of _ ?e]) simp
qed

lemma tx_try_ok:
  assumes "tx_queue_ok d" "tx d \<noteq> []" "r \<noteq> Write_error" "r \<noteq> Room 0"
  shows "\<exists>res e. tx_try_send_chunk r d = Some (res, e) \<and> tx_queue_ok e \<and>
    tx_out e @ resid (tx e) = tx_out d @ resid (tx d) \<and> (res = 1 \<longrightarrow> tx e \<noteq> []) \<and> tot_txq_size e \<le> tot_txq_size d"
proof -
  obtain c cs where tx: "tx d = c # cs" using assms(2) by (cases "tx d") auto
  from assms(1) tx have c: "len_done c < length (chunk c)" by (simp add: tx_queue_ok_def)
  let ?f = "drop (len_done c) (chunk c)"
  from c have f: "?f \<noteq> []" by simp
  consider "r = Again" | k where "r = Room k" "0 < k" using assms(3,4) by (cases r) auto
  then show ?thesis
  proof cases
    case 1
    with assms(1) tx show ?thesis by (simp add: tx_try_send_chunk_def tx_write_def)
  next
    case (2 k)
    let ?n = "min k (length ?f)"
    from 2 f c have n: "0 < ?n" "?n \<le> tot_txq_size d" using assms(1) tx by (auto simp: tx_queue_ok_def)
    show ?thesis
    proof (cases "?n = length ?f")
      case True
      let ?e = "d\<lparr>tot_txq_size := tot_txq_size d - ?n, tx_out := tx_out d @ ?f,
        last_tx := (if last_tx d = Some (ck_id c) then None else last_tx d), tx := cs\<rparr>"
      have "tx_try_send_chunk r d = Some (if cs \<noteq> [] then 1 else 0, ?e)"
        using 2 n True tx f by (auto simp: tx_try_send_chunk_def tx_write_def kout_if_bind first_elem_delete_def Let_def)
      moreover have "cs \<noteq> [] \<Longrightarrow> ck_id (last cs) \<noteq> ck_id c"
      proof
        assume "cs \<noteq> []" "ck_id (last cs) = ck_id c"
        then have "ck_id c \<in> ck_id ` set cs" by (metis imageI last_in_set)
        with assms(1) tx show False by (simp add: tx_queue_ok_def)
      qed
      then have "tx_queue_ok ?e"
        using assms(1) tx True by (auto simp: tx_queue_ok_def)
      ultimately show ?thesis using tx by auto
    next
      case False
      let ?e = "d\<lparr>tot_txq_size := tot_txq_size d - ?n, tx_out := tx_out d @ take ?n ?f,
        tx := c\<lparr>len_done := len_done c + ?n\<rparr> # cs\<rparr>"
      from False have lt: "?n < length ?f" by simp
      have "tx_try_send_chunk r d = Some (2, ?e)"
        using 2 n False tx by (auto simp: tx_try_send_chunk_def tx_write_def kout_if_bind Let_def)
      moreover have "tx_queue_ok ?e"
        using assms(1) tx lt by (auto simp: tx_queue_ok_def)
      moreover have "take ?n ?f @ drop (len_done c + ?n) (chunk c) = ?f"
        by (metis add.commute append_take_drop_id drop_drop)
      ultimately show ?thesis using tx by (intro exI [of _ 2] exI [of _ ?e]) simp
    qed
  qed
qed

lemma tx_loop_ok:
  assumes "tx_queue_ok d" "tx d \<noteq> []" "list_all (\<lambda>r. r \<noteq> Write_error \<and> r \<noteq> Room 0) rs"
  shows "\<exists>e. tx_loop rs d = Some e \<and> tx_queue_ok e \<and> tx_out e @ resid (tx e) = tx_out d @ resid (tx d) \<and>
    tot_txq_size e \<le> tot_txq_size d"
  using assms
proof (induction rs arbitrary: d)
  case Nil
  from tx_try_ok [OF Nil.prems(1,2), of Again] show ?case by auto
next
  case (Cons r rs)
  from Cons.prems(3) have r: "r \<noteq> Write_error" "r \<noteq> Room 0" "list_all (\<lambda>r. r \<noteq> Write_error \<and> r \<noteq> Room 0) rs" by auto
  from tx_try_ok [OF Cons.prems(1,2) r(1,2)] obtain res e where
    e: "tx_try_send_chunk r d = Some (res, e)" "tx_queue_ok e"
    "tx_out e @ resid (tx e) = tx_out d @ resid (tx d)" "res = 1 \<longrightarrow> tx e \<noteq> []" "tot_txq_size e \<le> tot_txq_size d" by blast
  show ?case
  proof (cases "res = 1")
    case True
    with Cons.IH [OF e(2) _ r(3)] e show ?thesis by (auto intro: le_trans)
  qed (use e in simp)
qed

lemma sender_run:
  assumes "tx_queue_ok d" "list_all tx_msg_legal es"
    and "tot_txq_size d + length (sent_text es) \<le> MAX_TOT_LEN_QSIG"
  shows "\<exists>e. run_events tx_msg_step d es = Some e \<and> tx_queue_ok e \<and>
    tx_out e @ resid (tx e) = tx_out d @ resid (tx d) @ sent_text es"
  using assms
proof (induction es arbitrary: d)
  case (Cons ev es)
  show ?case
  proof (cases ev)
    case (Send msg)
    with Cons.prems have m: "msg \<noteq> []" "length msg \<le> MAX_TOT_LEN_QSIG" "tot_txq_size d < MAX_TOT_LEN_QSIG"
      by (auto simp: neq_Nil_conv)
    from string_tx_ok [OF Cons.prems(1) m] obtain e where e: "string_tx msg d = Some e" "tx_queue_ok e"
      "tx_out e = tx_out d" "resid (tx e) = resid (tx d) @ msg" by blast
    from e(2,4) Cons.prems(1) have "tot_txq_size e = tot_txq_size d + length msg" by (simp add: tx_queue_ok_def)
    with Cons.IH [OF e(2)] Cons.prems Send e show ?thesis by auto
  next
    case (Writable rs)
    obtain e where e: "tx_dchan_cb rs d = Some e" "tx_queue_ok e" "tx_out e @ resid (tx e) = tx_out d @ resid (tx d)"
      "tot_txq_size e \<le> tot_txq_size d"
    proof (cases "tx d = []")
      case True
      with tx_queue_empty [OF Cons.prems(1)] Cons.prems(1) that [of d] show ?thesis
        by (simp add: tx_dchan_cb_def kout_if_bind tx_queue_ok_def)
    next
      case False
      with tx_loop_ok [OF Cons.prems(1) False, of rs] tx_queue_empty [OF Cons.prems(1)] Cons.prems(1,2) Writable that
      show ?thesis by (auto simp: tx_dchan_cb_def kout_if_bind tx_queue_ok_def)
    qed
    with Cons.IH [OF e(2)] Cons.prems Writable e show ?thesis by auto
  qed
qed simp

section \<open>Both sides\<close>

text \<open>The stream of the sender: \<open>msg_tx\<close> of \<open>rpct.c\<close> sends every message with its NUL.\<close>

definition with_NUL :: "string \<times> string \<Rightarrow> string" where
  "with_NUL m = msg_text (fst m) (snd m) @ [NUL]"

definition sends :: "tx_event_msg list \<Rightarrow> string list" where
  "sends es = concat (map (\<lambda>e. case e of Send msg \<Rightarrow> [msg] | Writable rs \<Rightarrow> []) es)"

lemma sent_text_sends: "sent_text es = concat (sends es)"
  by (induction es rule: sent_text.induct) (auto simp: sends_def)

lemma stream_NUL: "stream [] (map (\<lambda>(n, b). (n, b, [NUL])) ms) = concat (map with_NUL ms)"
proof -
  have "stream j (map (\<lambda>(n, b). (n, b, [NUL])) ms) = j @ concat (map with_NUL ms)" for j
    by (induction ms arbitrary: j) (auto simp: with_NUL_def)
  then show ?thesis by simp
qed

text \<open>C31: (\<open>msg_layer.c\<close>, \<open>rx_process.c\<close>) Both ends of a control channel together: messages that are given to
  \<open>string_tx\<close>, at most a megabyte in all, are written by \<open>tx_dchan_cb\<close> however much room each call of
  \<open>write\<close> finds, and the peer, however its calls of \<open>read\<close> cut the bytes, is called with the first of
  these messages in order, and with all of them once the queue of the sender is empty; neither process
  ends.\<close>

theorem channel_delivers_the_messages:
  assumes "good_stream [] (map (\<lambda>(n, b). (n, b, [NUL])) ms)" and "sends es = map with_NUL ms"
    and "list_all tx_msg_legal es" and "length (concat (map with_NUL ms)) \<le> MAX_TOT_LEN_QSIG"
    and "l \<noteq> 0" and "l' \<noteq> 0"
  shows "\<exists>e. run_events tx_msg_step (new_dchan_tx l) es = Some e \<and>
    (\<forall>cs. [] \<notin> set cs \<and> concat cs = tx_out e \<longrightarrow>
      (\<exists>d k. run_events (\<lambda>ds c. new_rx_to_process (keeps_channel (\<lambda>log m. log @ [m])) c ds) (new_dchan l', []) cs =
          Some (d, map with_NUL (take k ms)) \<and> (tx e = [] \<longrightarrow> length ms \<le> k)))"
proof -
  let ?ms = "map (\<lambda>(n, b). (n, b, [NUL])) ms"
  have sent: "sent_text es = stream [] ?ms" by (simp add: sent_text_sends assms(2) stream_NUL)
  have new: "tx_queue_ok (new_dchan_tx l)" "tx_out (new_dchan_tx l) = []" "tx (new_dchan_tx l) = []" "tot_txq_size (new_dchan_tx l) = 0"
    using assms(5) by (simp_all add: tx_queue_ok_def new_dchan_tx_def new_dchan_def t_data_channel.defs t_data_channel_tx.defs)
  from sender_run [OF new(1) assms(3)] assms(4) new(2-4) sent obtain e where
    e: "run_events tx_msg_step (new_dchan_tx l) es = Some e" "tx_queue_ok e" "tx_out e @ resid (tx e) = stream [] ?ms"
    by (auto simp: stream_NUL)
  show ?thesis
  proof (intro exI [of _ e] conjI allI impI)
    fix cs assume cs: "[] \<notin> set cs \<and> concat cs = tx_out e"
    let ?x = "resid (tx e)"
    have "waits_open (new_dchan l') (concat cs @ ?x) [] ?ms"
      using cs e(3) assms(6) by (auto simp: waits_open_def new_dchan_def length_open_tag)
    then have "waits (new_dchan l') (concat cs @ ?x) [] ?ms" by (simp add: waits_def)
    from pieces_deliver [OF this assms(1), of "\<lambda>log m. log @ [m]" "[]"] cs obtain d given rest where
      run: "run_events (\<lambda>ds c. new_rx_to_process (keeps_channel (\<lambda>log m. log @ [m])) c ds) (new_dchan l', []) cs =
        Some (d, foldl (\<lambda>log m. log @ [m]) [] (map msg_of given))"
      and ms: "?ms = given @ rest" and w: "waits d ?x (last_junk [] given) rest" by blast
    have fold: "foldl (\<lambda>log m. log @ [m]) a xs = a @ xs" for a xs :: "string list"
      by (induction xs arbitrary: a) auto
    have "given = take (length given) ?ms" using ms by simp
    then have "map msg_of given = map msg_of (take (length given) ?ms)" by simp
    also have "\<dots> = map with_NUL (take (length given) ms)"
      by (simp add: take_map msg_of_def with_NUL_def split_def)
    finally have "map msg_of given = map with_NUL (take (length given) ms)" .
    moreover have "tx e = [] \<longrightarrow> length ms \<le> length given"
    proof
      assume "tx e = []"
      then have "?x = []" by simp
      have "rest = []"
      proof (rule ccontr)
        assume "rest \<noteq> []"
        then obtain n b j' rs where "rest = (n, b, j') # rs" by (cases rest) auto
        with waits_length [of d ?x "last_junk [] given" n b j' rs] w \<open>?x = []\<close> show False by simp
      qed
      with ms show "length ms \<le> length given" by (metis append_Nil2 length_map order_refl)
    qed
    ultimately show "\<exists>d k. run_events (\<lambda>ds c. new_rx_to_process (keeps_channel (\<lambda>log m. log @ [m])) c ds) (new_dchan l', []) cs =
        Some (d, map with_NUL (take k ms)) \<and> (tx e = [] \<longrightarrow> length ms \<le> k)"
      using run fold by (intro exI [of _ d] exI [of _ "length given"]) simp
  qed (rule e(1))
qed

theorem channel_delivers_the_messages_witness:
  "\<exists>d. run_events (\<lambda>ds c. new_rx_to_process (keeps_channel (\<lambda>log m. log @ [m])) c ds) (new_dchan 7, [])
      [''<a></'', ''a>'' @ [NUL]] = Some (d, [''<a></a>'' @ [NUL]])"
proof -
  let ?es = "[Send (''<a></a>'' @ [NUL]), Writable [Room 3, Again], Writable [Room 100]]"
  have "good_stream [] (map (\<lambda>(n, b). (n, b, [NUL])) [(''a'', [])])"
  proof -
    have "good_msg ''a'' []" "length (msg_text ''a'' []) = 7" by code_simp+
    then show ?thesis by (simp add: MAX_SIZE_BIGGEST_MSG_def)
  qed
  moreover have "sends ?es = map with_NUL [(''a'', [])]" by code_simp
  moreover have "list_all tx_msg_legal ?es" by (simp add: MAX_TOT_LEN_QSIG_def)
  moreover have "length (concat (map with_NUL [(''a'', [])])) \<le> MAX_TOT_LEN_QSIG"
  proof -
    have "length (concat (map with_NUL [(''a'', [])])) = 8" by code_simp
    then show ?thesis by (simp add: MAX_TOT_LEN_QSIG_def)
  qed
  ultimately obtain e where e: "run_events tx_msg_step (new_dchan_tx 5) ?es = Some e" and
    all: "\<And>cs. [] \<notin> set cs \<and> concat cs = tx_out e \<Longrightarrow>
      (\<exists>d k. run_events (\<lambda>ds c. new_rx_to_process (keeps_channel (\<lambda>log m. log @ [m])) c ds) (new_dchan 7, []) cs =
          Some (d, map with_NUL (take k [(''a'', [])])) \<and> (tx e = [] \<longrightarrow> length [(''a'' :: string, [] :: string)] \<le> k))"
    using channel_delivers_the_messages [of "[(''a'', [])]" ?es 5 7] by auto
  from e have "tx_out e = ''<a></a>'' @ [NUL]" "tx e = []"
    by (auto simp: new_dchan_tx_def new_dchan_def t_data_channel.defs t_data_channel_tx.defs string_tx_def
        MAX_TOT_LEN_QSIG_def chain_append_tx_def tx_dchan_cb_def tx_try_send_chunk_def tx_write_def
        first_elem_delete_def kout_if_bind Let_def)
  with all [of "[''<a></'', ''a>'' @ [NUL]]"] obtain d k where
    "run_events (\<lambda>ds c. new_rx_to_process (keeps_channel (\<lambda>log m. log @ [m])) c ds) (new_dchan 7, [])
      [''<a></'', ''a>'' @ [NUL]] = Some (d, map with_NUL (take k [(''a'', [])]))" "1 \<le> k" by auto
  moreover have "map with_NUL [(''a'', [])] = [''<a></a>'' @ [NUL]]" by code_simp
  ultimately show ?thesis by (cases k) auto
qed

end
