(* ===== verification/Blkd_Rx.thy ===== *)
theory Blkd_Rx
  imports Blkd_Types
begin

text \<open>
  The receiving side of the packet sockets between the processes (\<open>common/lib_blkd/src/blkd_rx.c\<close>, and
  from \<open>blkd.c\<close> the header and the end of a packet). Packets are not copied: the bytes of the
  socket are read into large buffers, the groups, and a packet is a place in one; a group lives as
  long as a packet in it. The packets of a socket are on a ring of records, the newest of which is
  the packet that is being read.
\<close>

section \<open>Groups, packets and the ring\<close>

definition HEADER_BLKD_SIZE :: nat where "HEADER_BLKD_SIZE = 20"
definition MAX_TOTAL_BLKD_SIZE :: nat where "MAX_TOTAL_BLKD_SIZE = 1544"
definition GROUP_BLKD_MAX_SIZE :: nat where "GROUP_BLKD_MAX_SIZE = 40 * MAX_TOTAL_BLKD_SIZE"
definition MAX_GLOB_BLKD_QUEUED_BYTES :: int where "MAX_GLOB_BLKD_QUEUED_BYTES = 100 * int GROUP_BLKD_MAX_SIZE"
definition RX_POOL :: nat where "RX_POOL = 0x3FFF + 1"

text \<open>The length of \<open>head_data\<close> is \<open>len_data_read\<close>; what follows in the buffer is not set.\<close>

record t_blkd_group =
  count_blkd_tied :: nat
  len_data_done :: nat
  head_data :: "u8 list"

text \<open>The pointers of a received packet are its group and a position; \<open>rx_usec\<close> are the bytes of the number.\<close>

record t_blkd_rx =
  bgroup :: nat
  header_pos :: nat
  rx_payload_len :: nat
  rx_llid :: nat
  rx_type :: nat
  rx_val :: nat
  rx_usec :: "u8 list"

record t_blkd_record =
  len_to_do :: nat
  len_done :: nat
  rblkd :: "t_blkd_rx option"

text \<open>
  \<open>flow_msgs\<close> are the messages of the flow control; the counters of the reports are left out but
  the one of the dropped bytes.
\<close>

record t_blkd_fifo_rx =
  put :: nat
  get :: nat
  qty :: nat
  rx_queued_bytes :: int
  dist_flow_control_on :: bool
  dist_flow_control_count :: int
  rec :: "nat \<Rightarrow> t_blkd_record"
  groups :: "nat \<Rightarrow> t_blkd_group option"
  next_group :: nat
  flow_msgs :: "int list"
  drop_rx :: int

definition next_idx :: "nat \<Rightarrow> nat" where "next_idx i = (i + 1) mod RX_POOL"

definition malloc_create_new_group :: "u8 list \<Rightarrow> t_blkd_fifo_rx \<Rightarrow> (nat \<times> t_blkd_fifo_rx) run" where
  "malloc_create_new_group data_left p = do {
     kout_if (2 * MAX_TOTAL_BLKD_SIZE \<le> length data_left);
     let g = next_group p;
     Some (g, p\<lparr>groups := (groups p)(g := Some \<lparr>count_blkd_tied = 0, len_data_done = 0, head_data = data_left\<rparr>),
                next_group := Suc g\<rparr>)
   }"

definition malloc_create_new_blkd :: "nat \<Rightarrow> t_blkd_fifo_rx \<Rightarrow> t_blkd_rx run" where
  "malloc_create_new_blkd g p = do {
     gr \<leftarrow> groups p g;
     kout_if (GROUP_BLKD_MAX_SIZE < len_data_done gr + MAX_TOTAL_BLKD_SIZE);
     Some \<lparr>bgroup = g, header_pos = len_data_done gr, rx_payload_len = 0, rx_llid = 0, rx_type = 0, rx_val = 0,
           rx_usec = replicate 8 0\<rparr>
   }"

definition free_rec :: t_blkd_record where
  "free_rec = \<lparr>len_to_do = 0, len_done = 0, rblkd = None\<rparr>"

definition pool_rx_init :: "t_blkd_fifo_rx \<Rightarrow> t_blkd_fifo_rx" where
  "pool_rx_init p = p\<lparr>rec := (\<lambda>_. free_rec), put := 0, get := RX_POOL - 1, qty := 0\<rparr>"

text \<open>The lock is taken and released inside of each function of the ring; here one thread uses it.\<close>

definition pool_rx_alloc :: "t_blkd_rx \<Rightarrow> t_blkd_fifo_rx \<Rightarrow> t_blkd_fifo_rx run" where
  "pool_rx_alloc b p = do {
     kout_if (put p = get p);
     kout_if (rblkd (rec p (put p)) \<noteq> None);
     Some (p\<lparr>rec := (rec p)(put p := \<lparr>len_to_do = 0, len_done = 0, rblkd = Some b\<rparr>),
             put := next_idx (put p), qty := qty p + 1\<rparr>)
   }"

definition pool_rx_get_newest_rec :: "t_blkd_fifo_rx \<Rightarrow> nat option run" where
  "pool_rx_get_newest_rec p =
     (if 0 < qty p then do {
        let idx = (put p + RX_POOL - 1) mod RX_POOL;
        kout_if (rblkd (rec p idx) = None);
        Some (Some idx)
      } else Some None)"

definition pool_rx_get :: "t_blkd_fifo_rx \<Rightarrow> (t_blkd_rx option \<times> t_blkd_fifo_rx) run" where
  "pool_rx_get p =
     (if 0 < qty p then do {
        let i = next_idx (get p);
        b \<leftarrow> rblkd (rec p i);
        Some (Some b, p\<lparr>get := i, rx_queued_bytes := (rx_queued_bytes p - int (len_to_do (rec p i))) mod 2 ^ 64,
                        rec := (rec p)(i := free_rec), qty := qty p - 1\<rparr>)
      } else Some (None, p))"

datatype rec_state = blkd_no_state | blkd_read_head | blkd_read_body | blkd_all_done

definition get_rec_state :: "t_blkd_record \<Rightarrow> rec_state run" where
  "get_rec_state r =
     (if len_done r < HEADER_BLKD_SIZE \<or> len_done r = HEADER_BLKD_SIZE \<and> len_to_do r = 0 then Some blkd_read_head
      else if len_to_do r \<noteq> 0 \<and> len_to_do r = len_done r then Some blkd_all_done
      else if HEADER_BLKD_SIZE \<le> len_done r \<and> len_to_do r \<noteq> 0 then Some blkd_read_body
      else None)"

definition pool_rx_oldest_record_state :: "t_blkd_fifo_rx \<Rightarrow> rec_state run" where
  "pool_rx_oldest_record_state p =
     (if 0 < qty p then get_rec_state (rec p (next_idx (get p))) else Some blkd_no_state)"

section \<open>Reading a packet\<close>

definition set_group :: "nat \<Rightarrow> t_blkd_group \<Rightarrow> t_blkd_fifo_rx \<Rightarrow> t_blkd_fifo_rx" where
  "set_group g gr p = p\<lparr>groups := (groups p)(g := Some gr)\<rparr>"

definition set_rec :: "nat \<Rightarrow> t_blkd_record \<Rightarrow> t_blkd_fifo_rx \<Rightarrow> t_blkd_fifo_rx" where
  "set_rec i r p = p\<lparr>rec := (rec p)(i := r)\<rparr>"

text \<open>\<open>None\<close> is the result -1.\<close>

definition group_read_up :: "nat \<Rightarrow> nat \<Rightarrow> t_blkd_fifo_rx \<Rightarrow> (nat option \<times> t_blkd_fifo_rx) run" where
  "group_read_up g m p = do {
     gr \<leftarrow> groups p g;
     let left = length (head_data gr) - len_data_done gr;
     if len_data_done gr < length (head_data gr) then
       (if left < m then Some (Some left, set_group g (gr\<lparr>len_data_done := length (head_data gr)\<rparr>) p)
        else Some (Some m, set_group g (gr\<lparr>len_data_done := len_data_done gr + m\<rparr>) p))
     else Some (None, p)
   }"

definition num16 :: "u8 \<Rightarrow> u8 \<Rightarrow> nat" where
  "num16 a b = 256 * unat a + unat b"

definition blkd_header_rx_extract :: "nat \<Rightarrow> t_blkd_fifo_rx \<Rightarrow> t_blkd_fifo_rx run" where
  "blkd_header_rx_extract i p = do {
     b \<leftarrow> rblkd (rec p i);
     gr \<leftarrow> groups p (bgroup b);
     let head = drop (header_pos b) (head_data gr);
     ub_if (length head < HEADER_BLKD_SIZE);
     kout_if (take 4 head \<noteq> [0xCA, 0xFE, 0xBE, 0xEF]);
     let todo = num16 (head ! 4) (head ! 5);
     kout_if (todo \<le> HEADER_BLKD_SIZE);
     Some (set_rec i ((rec p i)\<lparr>len_to_do := todo, rblkd := Some (b\<lparr>rx_payload_len := todo - HEADER_BLKD_SIZE,
       rx_llid := num16 (head ! 6) (head ! 7), rx_type := num16 (head ! 8) (head ! 9),
       rx_val := num16 (head ! 10) (head ! 11), rx_usec := take 8 (drop 12 head)\<rparr>)\<rparr>) p)
   }"

text \<open>The result is whether the loop of the caller goes on.\<close>

definition auto_extract_header :: "nat \<Rightarrow> nat \<Rightarrow> t_blkd_fifo_rx \<Rightarrow> (bool \<times> t_blkd_fifo_rx) run" where
  "auto_extract_header g i p =
     (if len_done (rec p i) = HEADER_BLKD_SIZE then map_option (Pair True) (blkd_header_rx_extract i p)
      else do {
        (len, p) \<leftarrow> group_read_up g (HEADER_BLKD_SIZE - len_done (rec p i)) p;
        case len of
          None \<Rightarrow> Some (False, p)
        | Some l \<Rightarrow> do {
            let p = set_rec i ((rec p i)\<lparr>len_done := len_done (rec p i) + l\<rparr>) p;
            if len_done (rec p i) = HEADER_BLKD_SIZE then map_option (Pair True) (blkd_header_rx_extract i p)
            else Some (False, p)
          }
      })"

definition tie_group :: "nat \<Rightarrow> t_blkd_fifo_rx \<Rightarrow> t_blkd_fifo_rx run" where
  "tie_group g p = do { gr \<leftarrow> groups p g; Some (set_group g (gr\<lparr>count_blkd_tied := count_blkd_tied gr + 1\<rparr>) p) }"

definition prepare_new_blkd :: "nat \<Rightarrow> t_blkd_fifo_rx \<Rightarrow> t_blkd_fifo_rx run" where
  "prepare_new_blkd g p = do {
     p \<leftarrow> tie_group g p;
     b \<leftarrow> malloc_create_new_blkd g p;
     pool_rx_alloc b p
   }"

text \<open>What is left to read moves to the new group; the last instruction takes it out of the old one.\<close>

definition prepare_new_group_and_blkd :: "nat \<Rightarrow> t_blkd_fifo_rx \<Rightarrow> t_blkd_fifo_rx run" where
  "prepare_new_group_and_blkd last_group p = do {
     lg \<leftarrow> groups p last_group;
     (g, p) \<leftarrow> malloc_create_new_group (drop (len_data_done lg) (head_data lg)) p;
     p \<leftarrow> prepare_new_blkd g p;
     lg \<leftarrow> groups p last_group;
     Some (set_group last_group (lg\<lparr>head_data := take (len_data_done lg) (head_data lg)\<rparr>) p)
   }"

definition maybe_new_group :: "nat \<Rightarrow> t_blkd_fifo_rx \<Rightarrow> t_blkd_fifo_rx run" where
  "maybe_new_group g p = do {
     gr \<leftarrow> groups p g;
     let todo_space_left = int (length (head_data gr)) - int (len_data_done gr);
     let virgin_space_left = int GROUP_BLKD_MAX_SIZE - int (length (head_data gr));
     kout_if (todo_space_left < 0 \<or> int GROUP_BLKD_MAX_SIZE < todo_space_left);
     kout_if (virgin_space_left < 0 \<or> int GROUP_BLKD_MAX_SIZE < virgin_space_left);
     if todo_space_left + virgin_space_left \<le> int MAX_TOTAL_BLKD_SIZE then prepare_new_group_and_blkd g p
     else prepare_new_blkd g p
   }"

definition auto_fill_body :: "nat \<Rightarrow> nat \<Rightarrow> t_blkd_fifo_rx \<Rightarrow> (bool \<times> t_blkd_fifo_rx) run" where
  "auto_fill_body g i p = do {
     (len, p) \<leftarrow> group_read_up g (len_to_do (rec p i) - len_done (rec p i)) p;
     case len of
       None \<Rightarrow> Some (False, p)
     | Some l \<Rightarrow> do {
         let p = set_rec i ((rec p i)\<lparr>len_done := len_done (rec p i) + l\<rparr>) p;
         if len_to_do (rec p i) = len_done (rec p i) then do {
           p \<leftarrow> maybe_new_group g p;
           Some (True, p\<lparr>rx_queued_bytes := (rx_queued_bytes p + int (len_to_do (rec p i))) mod 2 ^ 64\<rparr>)
         } else Some (False, p)
       }
   }"

text \<open>The newest record: its state, its group and its index.\<close>

definition pool_rx_newest_record_state :: "t_blkd_fifo_rx \<Rightarrow> (rec_state \<times> nat \<times> nat) run" where
  "pool_rx_newest_record_state p = do {
     r \<leftarrow> pool_rx_get_newest_rec p;
     i \<leftarrow> r;
     b \<leftarrow> rblkd (rec p i);
     st \<leftarrow> get_rec_state (rec p i);
     Some (st, bgroup b, i)
   }"

section \<open>The socket\<close>

text \<open>\<open>rk\<close> is the rank and the number of the channel, for a process that takes part in the flow control.\<close>

definition trig_dist_flow_control :: "(int \<times> int) option \<Rightarrow> t_blkd_fifo_rx \<Rightarrow> t_blkd_fifo_rx" where
  "trig_dist_flow_control rk p = (case rk of
     None \<Rightarrow> p
   | Some (rank, num) \<Rightarrow>
       if rank = 0 \<or> num = -1 then p
       else p\<lparr>dist_flow_control_on := True, dist_flow_control_count := 5, flow_msgs := flow_msgs p @ [rank]\<rparr>)"

text \<open>What \<open>sock_unix_read\<close> gives: bytes, at most as many as asked for, or 0 or -1.\<close>

datatype t_rd = Rd_bytes "u8 list" | Rd_nothing | Rd_error

datatype read_state = read_state_error | read_state_drop | read_state_end | read_state_ok

definition group_read_sock_unix ::
  "(int \<times> int) option \<Rightarrow> t_rd \<Rightarrow> nat \<Rightarrow> t_blkd_fifo_rx \<Rightarrow> (read_state \<times> t_blkd_fifo_rx) run" where
  "group_read_sock_unix rk rd g p = do {
     let p = (if MAX_GLOB_BLKD_QUEUED_BYTES div 10 < rx_queued_bytes p \<and> \<not> dist_flow_control_on p
              then trig_dist_flow_control rk p else p);
     let st = (if MAX_GLOB_BLKD_QUEUED_BYTES div 2 < rx_queued_bytes p then read_state_drop else read_state_ok);
     gr \<leftarrow> groups p g;
     kout_if (GROUP_BLKD_MAX_SIZE \<le> length (head_data gr));
     (case rd of
       Rd_nothing \<Rightarrow> Some (read_state_end, p)
     | Rd_error \<Rightarrow> Some (read_state_error, p)
     | Rd_bytes bs \<Rightarrow> do {
         ub_if (GROUP_BLKD_MAX_SIZE < length (head_data gr) + length bs);
         Some (st, set_group g (gr\<lparr>head_data := head_data gr @ bs\<rparr>) p)
       })
   }"

definition blkd_rx_fifo_get :: "t_blkd_fifo_rx \<Rightarrow> (t_blkd_rx option \<times> t_blkd_fifo_rx) run" where
  "blkd_rx_fifo_get p = do {
     st \<leftarrow> pool_rx_oldest_record_state p;
     if st = blkd_all_done then pool_rx_get p else Some (None, p)
   }"

text \<open>The end of a received packet (\<open>blkd.c\<close>).\<close>

definition blkd_free :: "t_blkd_rx \<Rightarrow> t_blkd_fifo_rx \<Rightarrow> t_blkd_fifo_rx run" where
  "blkd_free b p = do {
     gr \<leftarrow> groups p (bgroup b);
     kout_if (count_blkd_tied gr = 0);
     let n = count_blkd_tied gr - 1;
     Some (if n = 0 then p\<lparr>groups := (groups p)(bgroup b := None)\<rparr>
           else set_group (bgroup b) (gr\<lparr>count_blkd_tied := n\<rparr>) p)
   }"

lemma blkd_rx_fifo_get_qty:
  assumes "blkd_rx_fifo_get p = Some (Some b, q)"
  shows "qty q < qty p"
proof -
  from assms obtain st where "pool_rx_oldest_record_state p = Some st" "st = blkd_all_done" "pool_rx_get p = Some (Some b, q)"
    by (auto simp: blkd_rx_fifo_get_def bind_eq_Some split: if_splits)
  then show ?thesis by (auto simp: pool_rx_get_def bind_eq_Some Let_def split: if_splits)
qed

lemma blkd_free_qty [simp]: "blkd_free b p = Some q \<Longrightarrow> qty q = qty p"
  by (auto simp: blkd_free_def bind_eq_Some set_group_def kout_if_bind Let_def split: if_splits)

function rx_purge_all :: "t_blkd_fifo_rx \<Rightarrow> t_blkd_fifo_rx run" where
  "rx_purge_all p = (case blkd_rx_fifo_get p of
     None \<Rightarrow> None
   | Some (None, q) \<Rightarrow> Some q
   | Some (Some b, q) \<Rightarrow>
       (case blkd_free b (q\<lparr>drop_rx := drop_rx q + int (rx_payload_len b)\<rparr>) of
          None \<Rightarrow> None
        | Some q' \<Rightarrow> rx_purge_all q'))"
  by pat_completeness auto
termination
proof (relation "measure qty", goal_cases)
  case (2 p r a q b q')
  then show ?case using blkd_rx_fifo_get_qty [of p b q] by simp
qed simp

text \<open>The loop over the new bytes.\<close>

partial_function (option) blkd_rx_loop :: "rec_state \<times> nat \<times> nat \<Rightarrow> t_blkd_fifo_rx \<Rightarrow> t_blkd_fifo_rx run" where
  "blkd_rx_loop st p = do {
     (more, p) \<leftarrow> (case st of
       (blkd_read_head, g, i) \<Rightarrow> auto_extract_header g i p
     | (blkd_read_body, g, i) \<Rightarrow> auto_fill_body g i p
     | _ \<Rightarrow> None);
     st \<leftarrow> pool_rx_newest_record_state p;
     if more then blkd_rx_loop st p else Some p
   }"

text \<open>The event of a readable socket; the call of the user gets the ring and the rest \<open>'s\<close> of the program.\<close>

definition blkd_fd_event_rx :: "(int \<times> int) option \<Rightarrow> (t_blkd_fifo_rx \<times> 's \<Rightarrow> (t_blkd_fifo_rx \<times> 's) run) \<Rightarrow> t_rd
    \<Rightarrow> t_blkd_fifo_rx \<times> 's \<Rightarrow> (int \<times> t_blkd_fifo_rx \<times> 's) run" where
  "blkd_fd_event_rx rk rx_ready_cb rd ps = do {
     (st, g, i) \<leftarrow> pool_rx_newest_record_state (fst ps);
     (rst, p) \<leftarrow> group_read_sock_unix rk rd g (fst ps);
     if rst = read_state_ok \<or> rst = read_state_drop then do {
       p \<leftarrow> blkd_rx_loop (st, g, i) p;
       if rx_queued_bytes p \<noteq> 0 then
         (if rst = read_state_ok then map_option (Pair 0) (rx_ready_cb (p, snd ps))
          else map_option (\<lambda>p. (0, p, snd ps)) (rx_purge_all p))
       else Some (0, p, snd ps)
     } else Some (if rst = read_state_error then -1 else 0, p, snd ps)
   }"

text \<open>The dummy group of the start is freed at the end.\<close>

definition blkd_rx_init :: "t_blkd_fifo_rx \<Rightarrow> t_blkd_fifo_rx run" where
  "blkd_rx_init p = do {
     (dummy, p) \<leftarrow> malloc_create_new_group [] p;
     p \<leftarrow> prepare_new_group_and_blkd dummy (pool_rx_init p);
     Some (p\<lparr>groups := (groups p)(dummy := None)\<rparr>)
   }"

end
