(* ===== verification/Index_Ring.thy ===== *)
theory Index_Ring
  imports Prelude
begin

text \<open>
  A queue in an array of \<open>N\<close> places with the indices \<open>get\<close> (the place before the oldest element)
  and \<open>put\<close> (the first free place): what the pools of the packet sockets have in common.
\<close>

definition ridx :: "nat \<Rightarrow> nat \<Rightarrow> nat \<Rightarrow> nat" where
  "ridx N g k = (g + 1 + k) mod N"

definition ring_list :: "nat \<Rightarrow> 'r \<Rightarrow> nat \<Rightarrow> nat \<Rightarrow> nat \<Rightarrow> (nat \<Rightarrow> 'r) \<Rightarrow> 'r list \<Rightarrow> bool" where
  "ring_list N e g p q f rs \<longleftrightarrow> length rs = q \<and> q < N \<and> g < N \<and> p = ridx N g q \<and>
     (\<forall>k < N. f (ridx N g k) = (if k < q then rs ! k else e))"

lemma ridx_lt: "0 < N \<Longrightarrow> ridx N g k < N"
  by (simp add: ridx_def)

lemma ridx_inj: "j < N \<Longrightarrow> k < N \<Longrightarrow> ridx N g j = ridx N g k \<longleftrightarrow> j = k"
proof (induction j k rule: linorder_wlog)
  case (le j k)
  show ?case
  proof
    assume "ridx N g j = ridx N g k"
    then have "N dvd k - j"
      using le(1) by (auto simp: ridx_def mod_eq_dvd_iff_nat dest: sym)
    moreover have "k - j < N" using le by simp
    ultimately have "k - j = 0" by (metis dvd_imp_le not_less not_gr_zero)
    with le(1) show "j = k" by simp
  qed simp
qed (simp add: eq_commute)

lemma ridx_Suc: "(ridx N g k + 1) mod N = ridx N g (Suc k)"
  by (simp add: ridx_def mod_Suc_eq)

lemma ridx_0: "(g + 1) mod N = ridx N g 0"
  by (simp add: ridx_def)

lemma ridx_next: "ridx N (ridx N g 0) k = ridx N g (Suc k)"
  using mod_add_left_eq [of "g + 1" N "k + 1"] by (simp add: ridx_def)

text \<open>The element at a place of the list.\<close>

lemma ring_list_nth: "ring_list N e g p q f rs \<Longrightarrow> k < length rs \<Longrightarrow> f (ridx N g k) = rs ! k"
  by (simp add: ring_list_def)

lemma ring_list_update:
  assumes "ring_list N e g p q f rs" "i < length rs"
  shows "ring_list N e g p q (f(ridx N g i := r)) (rs[i := r])"
proof -
  from assms have "i < N" by (simp add: ring_list_def)
  then have "ridx N g k = ridx N g i \<longleftrightarrow> k = i" if "k < N" for k using that by (simp add: ridx_inj)
  with assms show ?thesis by (auto simp: ring_list_def nth_list_update)
qed

text \<open>There is place as long as the indices differ.\<close>

lemma ring_list_full:
  assumes "ring_list N e g p q f rs"
  shows "p = g \<longleftrightarrow> length rs + 1 = N"
proof -
  from assms have l: "length rs < N" "g < N" "p = ridx N g (length rs)" by (auto simp: ring_list_def)
  have "g = ridx N g (N - 1)" using l(2) by (simp add: ridx_def)
  with l ridx_inj [of "length rs" N "N - 1" g] show ?thesis by auto
qed

lemma ring_list_put:
  assumes "ring_list N e g p q f rs" "length rs + 1 < N"
  shows "f p = e" "ring_list N e g ((p + 1) mod N) (q + 1) (f(p := r)) (rs @ [r])"
proof -
  from assms have l: "q = length rs" "p = ridx N g (length rs)" by (simp_all add: ring_list_def)
  from assms l show "f p = e" by (simp add: ring_list_def)
  have "ridx N g k = p \<longleftrightarrow> k = length rs" if "k < N" for k
    using that assms(2) l by (simp add: ridx_inj)
  moreover have "(p + 1) mod N = ridx N g (q + 1)" using l by (simp only: ridx_Suc) simp
  ultimately show "ring_list N e g ((p + 1) mod N) (q + 1) (f(p := r)) (rs @ [r])"
    using assms l by (auto simp: ring_list_def nth_append)
qed

lemma ring_list_get:
  assumes "ring_list N e g p q f (r # rs)"
  shows "0 < q" "f ((g + 1) mod N) = r" "ring_list N e ((g + 1) mod N) p (q - 1) (f((g + 1) mod N := e)) rs"
proof -
  from assms have l: "q = Suc (length rs)" "Suc (length rs) < N" "p = ridx N g q" by (simp_all add: ring_list_def)
  then show "0 < q" by simp
  show "f ((g + 1) mod N) = r" using ring_list_nth [OF assms, of 0] by (simp add: ridx_def)
  show "ring_list N e ((g + 1) mod N) p (q - 1) (f((g + 1) mod N := e)) rs"
    unfolding ring_list_def ridx_0
  proof (intro conjI allI impI)
    show "length rs = q - 1" "q - 1 < N" using l by simp_all
    show "ridx N g 0 < N" using l by (intro ridx_lt) simp
    show "p = ridx N (ridx N g 0) (q - 1)" using l by (simp add: ridx_next)
    fix k assume k: "k < N"
    show "(f(ridx N g 0 := e)) (ridx N (ridx N g 0) k) = (if k < q - 1 then rs ! k else e)"
    proof (cases "Suc k = N")
      case True
      then have "ridx N g (Suc k) = ridx N g 0" using mod_add_self2 [of "g + 1" N] by (simp add: ridx_def)
      with True l show ?thesis by (simp add: ridx_next)
    next
      case False
      with k have "Suc k < N" by simp
      moreover from this have "ridx N g (Suc k) \<noteq> ridx N g 0" using ridx_inj [of "Suc k" N 0 g] by simp
      ultimately show ?thesis using assms l by (simp add: ridx_next ring_list_def)
    qed
  qed
qed

lemma ring_list_empty: "0 < N \<Longrightarrow> ring_list N e (N - 1) 0 0 (\<lambda>_. e) []"
  by (simp add: ring_list_def ridx_def)

end
