(* ===== verification/Blkd_Ring.thy ===== *)
theory Blkd_Ring
  imports Blkd_Rx Index_Ring
begin

text \<open>
  The packets of a socket as text, the ring of records as a list, and what the memory of the groups
  has to do with the list.
\<close>

section \<open>Packets\<close>

record t_pkt =
  pk_llid :: nat
  pk_type :: nat
  pk_val :: nat
  pk_usec :: "u8 list"
  pk_data :: "u8 list"

definition num16_bytes :: "nat \<Rightarrow> u8 list" where
  "num16_bytes x = [of_nat (x div 256), of_nat x]"

definition pkt_len :: "t_pkt \<Rightarrow> nat" where
  "pkt_len k = HEADER_BLKD_SIZE + length (pk_data k)"

definition pkt_bytes :: "t_pkt \<Rightarrow> u8 list" where
  "pkt_bytes k = [0xCA, 0xFE, 0xBE, 0xEF] @ num16_bytes (pkt_len k) @ num16_bytes (pk_llid k) @
     num16_bytes (pk_type k) @ num16_bytes (pk_val k) @ pk_usec k @ pk_data k"

definition good_pkt :: "t_pkt \<Rightarrow> bool" where
  "good_pkt k \<longleftrightarrow> pk_data k \<noteq> [] \<and> int (length (pk_data k)) \<le> PAYLOAD_BLKD_SIZE \<and> length (pk_usec k) = 8"

text \<open>The header has 16 bits for each number.\<close>

definition pkt_seen :: "t_pkt \<Rightarrow> t_pkt" where
  "pkt_seen k = k\<lparr>pk_llid := pk_llid k mod 65536, pk_type := pk_type k mod 65536, pk_val := pk_val k mod 65536\<rparr>"

lemma num16_of_nat: "num16 (of_nat (x div 256)) (of_nat x) = x mod 65536"
proof -
  have "x mod 65536 = x mod (256 * 256)" by simp
  also have "\<dots> = 256 * (x div 256 mod 256) + x mod 256" by (rule mod_mult2_eq)
  finally show ?thesis by (simp add: num16_def unat_of_nat)
qed

lemma length_pkt_bytes: "good_pkt k \<Longrightarrow> length (pkt_bytes k) = pkt_len k"
  by (simp add: pkt_bytes_def pkt_len_def num16_bytes_def good_pkt_def HEADER_BLKD_SIZE_def)

lemma pkt_len_bounds: "good_pkt k \<Longrightarrow> 20 < pkt_len k \<and> pkt_len k \<le> MAX_TOTAL_BLKD_SIZE"
  by (auto simp: pkt_len_def good_pkt_def HEADER_BLKD_SIZE_def MAX_TOTAL_BLKD_SIZE_def PAYLOAD_BLKD_SIZE_def Suc_le_eq)

lemma list8: "length xs = 8 \<Longrightarrow> \<exists>a b c d e f g h. xs = [a, b, c, d, e, f, g, h]"
  by (auto simp: numeral_eq_Suc length_Suc_conv)

text \<open>The first twenty bytes of a packet.\<close>

lemma pkt_header:
  assumes "good_pkt k" "take 20 head = take 20 (pkt_bytes k)"
  shows "20 \<le> length head" "take 4 head = [0xCA, 0xFE, 0xBE, 0xEF]" "num16 (head ! 4) (head ! 5) = pkt_len k"
    "num16 (head ! 6) (head ! 7) = pk_llid k mod 65536" "num16 (head ! 8) (head ! 9) = pk_type k mod 65536"
    "num16 (head ! 10) (head ! 11) = pk_val k mod 65536" "take 8 (drop 12 head) = pk_usec k"
proof -
  from assms(1) have "length (pk_usec k) = 8" by (simp add: good_pkt_def)
  then obtain a b c d e f g h where u: "pk_usec k = [a, b, c, d, e, f, g, h]" using list8 by blast
  from pkt_len_bounds [OF assms(1)] length_pkt_bytes [OF assms(1)] have l: "20 < length (pkt_bytes k)" by simp
  with assms(2) have "length (take 20 head) = 20" by simp
  then show len: "20 \<le> length head" by simp
  have nth: "head ! i = pkt_bytes k ! i" if "i < 20" for i
    using assms(2) that by (metis nth_take)
  have tk: "take n (drop m head) = take n (drop m (pkt_bytes k))" if "m + n \<le> 20" for m n
  proof -
    have "take n (drop m (take 20 xs)) = take n (drop m xs)" for xs :: "u8 list"
      using that by (simp add: drop_take min_def)
    with assms(2) show ?thesis by metis
  qed
  have b: "pkt_bytes k ! 4 = of_nat (pkt_len k div 256)" "pkt_bytes k ! 5 = of_nat (pkt_len k)"
    "pkt_bytes k ! 6 = of_nat (pk_llid k div 256)" "pkt_bytes k ! 7 = of_nat (pk_llid k)"
    "pkt_bytes k ! 8 = of_nat (pk_type k div 256)" "pkt_bytes k ! 9 = of_nat (pk_type k)"
    "pkt_bytes k ! 10 = of_nat (pk_val k div 256)" "pkt_bytes k ! 11 = of_nat (pk_val k)"
    by (simp_all add: pkt_bytes_def num16_bytes_def)
  have h: "head ! 4 = pkt_bytes k ! 4" "head ! 5 = pkt_bytes k ! 5" "head ! 6 = pkt_bytes k ! 6" "head ! 7 = pkt_bytes k ! 7"
    "head ! 8 = pkt_bytes k ! 8" "head ! 9 = pkt_bytes k ! 9" "head ! 10 = pkt_bytes k ! 10" "head ! 11 = pkt_bytes k ! 11"
    by (rule nth, simp (no_asm))+
  from pkt_len_bounds [OF assms(1)] have "pkt_len k mod 65536 = pkt_len k" by (simp add: MAX_TOTAL_BLKD_SIZE_def)
  then show "num16 (head ! 4) (head ! 5) = pkt_len k" by (simp only: h b num16_of_nat)
  show "take 4 head = [0xCA, 0xFE, 0xBE, 0xEF]" using tk [of 0 4] by (simp add: pkt_bytes_def)
  show "num16 (head ! 6) (head ! 7) = pk_llid k mod 65536" "num16 (head ! 8) (head ! 9) = pk_type k mod 65536"
    "num16 (head ! 10) (head ! 11) = pk_val k mod 65536"
    by (simp_all only: h b num16_of_nat)
  show "take 8 (drop 12 head) = pk_usec k" using tk [of 12 8] u
    by (simp add: pkt_bytes_def num16_bytes_def)
qed

section \<open>The ring as a list\<close>

definition ring_at :: "t_blkd_fifo_rx \<Rightarrow> nat \<Rightarrow> nat" where
  "ring_at p k = ridx RX_POOL (get p) k"

definition ring_rep :: "t_blkd_fifo_rx \<Rightarrow> t_blkd_record list \<Rightarrow> bool" where
  "ring_rep p rs \<longleftrightarrow> ring_list RX_POOL free_rec (get p) (put p) (qty p) (rec p) rs"

lemma RX_POOL_pos [simp]: "0 < RX_POOL"
  by (simp add: RX_POOL_def)

lemma ring_at_0: "ring_at p 0 = next_idx (get p)"
  by (simp add: ring_at_def next_idx_def ridx_def)

lemma ring_rep_cong:
  "get p' = get p \<Longrightarrow> put p' = put p \<Longrightarrow> qty p' = qty p \<Longrightarrow> rec p' = rec p \<Longrightarrow> ring_rep p' rs = ring_rep p rs"
  by (simp add: ring_rep_def)

text \<open>The newest and the oldest record.\<close>

lemma ring_newest:
  assumes "ring_rep p (rs @ [r])"
  shows "(put p + RX_POOL - 1) mod RX_POOL = ring_at p (length rs)" "rec p (ring_at p (length rs)) = r" "0 < qty p"
proof -
  from assms have l: "ring_list RX_POOL free_rec (get p) (put p) (qty p) (rec p) (rs @ [r])" by (simp add: ring_rep_def)
  then show "0 < qty p" by (simp add: ring_list_def)
  show "rec p (ring_at p (length rs)) = r" using ring_list_nth [OF l, of "length rs"] by (simp add: ring_at_def)
  have "put p = (ring_at p (length rs) + 1) mod RX_POOL" using l by (simp only: ring_list_def ring_at_def ridx_Suc) simp
  then have "(put p + (RX_POOL - 1)) mod RX_POOL = (ring_at p (length rs) + 1 + (RX_POOL - 1)) mod RX_POOL"
    by (simp add: mod_add_left_eq)
  also have "\<dots> = ring_at p (length rs)" using ridx_lt [OF RX_POOL_pos] by (simp add: RX_POOL_def ring_at_def)
  finally show "(put p + RX_POOL - 1) mod RX_POOL = ring_at p (length rs)" by (simp add: RX_POOL_def add.commute)
qed

lemma ring_oldest: "ring_rep p (r # rs) \<Longrightarrow> rec p (ring_at p 0) = r \<and> 0 < qty p"
  using ring_list_nth [of RX_POOL free_rec "get p" "put p" "qty p" "rec p" "r # rs" 0]
  by (auto simp: ring_rep_def ring_at_def ring_list_def)

lemma ring_set_newest:
  assumes "ring_rep p (rs @ [r])"
  shows "ring_rep (set_rec (ring_at p (length rs)) r' p) (rs @ [r'])"
  using ring_list_update [of RX_POOL free_rec "get p" "put p" "qty p" "rec p" "rs @ [r]" "length rs" r'] assms
  by (simp add: ring_rep_def set_rec_def ring_at_def)

lemma ring_alloc:
  assumes "ring_rep p rs" "length rs + 1 < RX_POOL"
  shows "\<exists>p'. pool_rx_alloc b p = Some p' \<and> ring_rep p' (rs @ [\<lparr>len_to_do = 0, len_done = 0, rblkd = Some b\<rparr>]) \<and>
    groups p' = groups p \<and> next_group p' = next_group p \<and> rx_queued_bytes p' = rx_queued_bytes p \<and>
    dist_flow_control_on p' = dist_flow_control_on p \<and> get p' = get p \<and>
    (\<forall>k < length rs. rec p' (ring_at p k) = rec p (ring_at p k))"
proof -
  let ?r = "\<lparr>len_to_do = 0, len_done = 0, rblkd = Some b\<rparr>"
  let ?p = "p\<lparr>rec := (rec p)(put p := ?r), put := next_idx (put p), qty := qty p + 1\<rparr>"
  from assms(1) have l: "ring_list RX_POOL free_rec (get p) (put p) (qty p) (rec p) rs" by (simp add: ring_rep_def)
  note q = ring_list_put [OF l assms(2)]
  from ring_list_full [OF l] assms(2) have "put p \<noteq> get p" by simp
  with q(1) have "pool_rx_alloc b p = Some ?p"
    by (simp add: pool_rx_alloc_def kout_if_bind free_rec_def)
  moreover have rep: "ring_rep ?p (rs @ [?r])" using q(2) [of ?r] by (simp add: ring_rep_def next_idx_def)
  moreover have "rec ?p (ring_at p k) = rec p (ring_at p k)" if "k < length rs" for k
  proof -
    from rep have l2: "ring_list RX_POOL free_rec (get p) (put ?p) (qty ?p) (rec ?p) (rs @ [?r])" by (simp add: ring_rep_def)
    from that have "rec ?p (ridx RX_POOL (get p) k) = rs ! k" using ring_list_nth [OF l2, of k] by (simp add: nth_append)
    with that show ?thesis using ring_list_nth [OF l, of k] by (simp only: ring_at_def)
  qed
  ultimately show ?thesis by (intro exI [of _ ?p]) simp
qed

lemma ring_get:
  assumes "ring_rep p (r # rs)" "rblkd r = Some b"
  shows "\<exists>p'. pool_rx_get p = Some (Some b, p') \<and> ring_rep p' rs \<and> groups p' = groups p \<and> next_group p' = next_group p \<and>
    rx_queued_bytes p' = (rx_queued_bytes p - int (len_to_do r)) mod 2 ^ 64 \<and>
    dist_flow_control_on p' = dist_flow_control_on p"
proof -
  let ?i = "next_idx (get p)"
  let ?p = "p\<lparr>get := ?i, rx_queued_bytes := (rx_queued_bytes p - int (len_to_do r)) mod 2 ^ 64,
    rec := (rec p)(?i := free_rec), qty := qty p - 1\<rparr>"
  from assms(1) have l: "ring_list RX_POOL free_rec (get p) (put p) (qty p) (rec p) (r # rs)" by (simp add: ring_rep_def)
  note q = ring_list_get [OF l, folded next_idx_def]
  have "pool_rx_get p = Some (Some b, ?p)"
    using q(1,2) assms(2) by (simp add: pool_rx_get_def Let_def)
  moreover have "ring_rep ?p rs" using q(3) by (simp add: ring_rep_def)
  ultimately show ?thesis by (intro exI [of _ ?p]) simp
qed

end
