(* ===== verification/Blkd_Tx.thy ===== *)
theory Blkd_Tx
  imports Blkd_Ring
begin

text \<open>
  The sending side of the packet sockets (\<open>common/lib_blkd/src/blkd_tx.c\<close>, and from \<open>blkd.c\<close> the making
  of a packet, its header, and the fan-out to several channels). A packet is one object in memory
  whatever the number of channels it waits on; its \<open>count_reference\<close> says when it is freed. An object
  and the group that owns its bytes have the same number here. Packets of the groups of qemu are
  sent in two parts; nothing in the repository makes one.
\<close>

section \<open>The pool of a channel\<close>

definition TX_POOL :: nat where "TX_POOL = 0x7FFF + 1"

record t_tx_rec =
  to_do :: int
  dn :: int
  tblkd :: "nat option"

record t_blkd_fifo_tx =
  tx_put :: nat
  tx_get :: nat
  tx_qty :: nat
  tx_queued_bytes :: int
  tx_rec :: "nat \<Rightarrow> t_tx_rec"

record t_tx_group =
  tx_tied :: nat
  qemu_total_payload_len :: int

text \<open>
  The memory of the process: \<open>sent\<close> are the bytes that \<open>write\<close> has taken of each channel, \<open>flow_trigs\<close>
  counts the calls of \<open>trig_dist_flow_control\<close>.
\<close>

record t_tx =
  blkds :: "nat \<Rightarrow> t_blkd option"
  tgroups :: "nat \<Rightarrow> t_tx_group option"
  next_blkd :: nat
  fifos :: "int \<Rightarrow> t_blkd_fifo_tx option"
  sent :: "int \<Rightarrow> u8 list"
  drop_tx :: "int \<Rightarrow> int"
  flow_trigs :: nat

definition free_tx_rec :: t_tx_rec where
  "free_tx_rec = \<lparr>to_do = 0, dn = 0, tblkd = None\<rparr>"

definition pool_tx_init :: t_blkd_fifo_tx where
  "pool_tx_init = \<lparr>tx_put = 0, tx_get = TX_POOL - 1, tx_qty = 0, tx_queued_bytes = 0, tx_rec = (\<lambda>_. free_tx_rec)\<rparr>"

definition next_tx :: "nat \<Rightarrow> nat" where "next_tx i = (i + 1) mod TX_POOL"

definition tx_bytes :: "t_blkd \<Rightarrow> int" where
  "tx_bytes d = header_blkd_len d + payload_len d"

definition pool_tx_alloc :: "nat \<Rightarrow> t_blkd \<Rightarrow> t_blkd_fifo_tx \<Rightarrow> (nat \<times> t_blkd_fifo_tx) run" where
  "pool_tx_alloc b d f = do {
     kout_if (tx_put f = tx_get f);
     kout_if (tblkd (tx_rec f (tx_put f)) \<noteq> None);
     Some (tx_put f, f\<lparr>tx_rec := (tx_rec f)(tx_put f := \<lparr>to_do = 0, dn = 0, tblkd = Some b\<rparr>),
       tx_queued_bytes := (tx_queued_bytes f + tx_bytes d) mod 2 ^ 64, tx_put := next_tx (tx_put f), tx_qty := tx_qty f + 1\<rparr>)
   }"

definition pool_tx_get :: "t_blkd_fifo_tx \<Rightarrow> nat option run" where
  "pool_tx_get f =
     (if 0 < tx_qty f then do {
        kout_if (tblkd (tx_rec f (next_tx (tx_get f))) = None);
        Some (Some (next_tx (tx_get f)))
      } else Some None)"

definition set_fifo :: "int \<Rightarrow> t_blkd_fifo_tx \<Rightarrow> t_tx \<Rightarrow> t_tx" where
  "set_fifo c f s = s\<lparr>fifos := (fifos s)(c \<mapsto> f)\<rparr>"

definition set_blkd :: "nat \<Rightarrow> t_blkd \<Rightarrow> t_tx \<Rightarrow> t_tx" where
  "set_blkd b d s = s\<lparr>blkds := (blkds s)(b \<mapsto> d)\<rparr>"

definition pool_tx_free :: "int \<Rightarrow> t_tx \<Rightarrow> (nat option \<times> t_tx) run" where
  "pool_tx_free c s = do {
     f \<leftarrow> fifos s c;
     if 0 < tx_qty f then do {
       let i = next_tx (tx_get f);
       b \<leftarrow> tblkd (tx_rec f i);
       d \<leftarrow> blkds s b;
       let s = set_fifo c (f\<lparr>tx_get := i, tx_queued_bytes := (tx_queued_bytes f - tx_bytes d) mod 2 ^ 64,
         tx_rec := (tx_rec f)(i := free_tx_rec), tx_qty := tx_qty f - 1\<rparr>) s;
       Some (Some b, set_blkd b (d\<lparr>count_reference := count_reference d - 1\<rparr>) s)
     } else Some (None, s)
   }"

section \<open>Packets\<close>

text \<open>The numbers \<open>llid\<close>, \<open>type\<close> and \<open>val\<close> are arguments that the code does not use.\<close>

definition blkd_create_tx_full_copy :: "int \<Rightarrow> u8 list \<Rightarrow> int \<Rightarrow> int \<Rightarrow> int \<Rightarrow> int \<Rightarrow> t_tx \<Rightarrow> (nat \<times> t_tx) run" where
  "blkd_create_tx_full_copy len buf llid type val usec s = do {
     let b = next_blkd s;
     kout_if (PAYLOAD_BLKD_SIZE < len);
     kout_if (len \<le> 0);
     ub_if (int (length buf) < len);
     Some (b, s\<lparr>next_blkd := b + 1, tgroups := (tgroups s)(b \<mapsto> \<lparr>tx_tied = 1, qemu_total_payload_len = 0\<rparr>),
       blkds := (blkds s)(b \<mapsto> \<lparr>count_reference = 0, blkd_group = Some b, qemu_group_rank = 0, blkd_llid = 0, blkd_type = 0,
         blkd_val = 0, blkd_usec = usec, header_blkd_len = int HEADER_BLKD_SIZE, payload_len = len, header_blkd = [],
         payload_blkd = take (nat len) buf\<rparr>)\<rparr>)
   }"

definition blkd_free_tx :: "nat \<Rightarrow> t_tx \<Rightarrow> t_tx run" where
  "blkd_free_tx b s = do {
     d \<leftarrow> blkds s b;
     g \<leftarrow> blkd_group d;
     gr \<leftarrow> tgroups s g;
     kout_if (tx_tied gr = 0);
     let n = tx_tied gr - 1;
     Some (s\<lparr>tgroups := (tgroups s)(g := (if n = 0 then None else Some (gr\<lparr>tx_tied := n\<rparr>))), blkds := (blkds s)(b := None)\<rparr>)
   }"

text \<open>A number in two bytes, and the eight bytes of \<open>usec\<close> in the memory of the processor.\<close>

definition int16_bytes :: "int \<Rightarrow> u8 list" where
  "int16_bytes x = [word_of_int (x div 256), word_of_int x]"

definition usec_bytes :: "int \<Rightarrow> u8 list" where
  "usec_bytes x = map (\<lambda>i. word_of_int (x div 256 ^ i)) [0..<8]"

definition tx_header :: "int \<Rightarrow> t_blkd \<Rightarrow> u8 list" where
  "tx_header len d = [0xCA, 0xFE, 0xBE, 0xEF] @ int16_bytes len @ int16_bytes (blkd_llid d) @ int16_bytes (blkd_type d) @
     int16_bytes (blkd_val d) @ usec_bytes (blkd_usec d)"

definition blkd_header_tx_setup :: "int \<Rightarrow> nat \<Rightarrow> t_tx \<Rightarrow> t_tx run" where
  "blkd_header_tx_setup c i s = do {
     f \<leftarrow> fifos s c;
     b \<leftarrow> tblkd (tx_rec f i);
     d \<leftarrow> blkds s b;
     if header_blkd_len d \<noteq> 0 then do {
       let s = set_fifo c (f\<lparr>tx_rec := (tx_rec f)(i := (tx_rec f i)\<lparr>to_do := payload_len d + header_blkd_len d\<rparr>)\<rparr>) s;
       len \<leftarrow> (if qemu_group_rank d \<noteq> 0 then do {
            g \<leftarrow> blkd_group d;
            gr \<leftarrow> tgroups s g;
            Some (qemu_total_payload_len gr + header_blkd_len d)
          } else Some (payload_len d + header_blkd_len d));
       Some (set_blkd b (d\<lparr>header_blkd := tx_header len d\<rparr>) s)
     } else Some (set_fifo c (f\<lparr>tx_rec := (tx_rec f)(i := (tx_rec f i)\<lparr>to_do := payload_len d\<rparr>)\<rparr>) s)
   }"

definition blkd_tx_fifo_alloc :: "int \<Rightarrow> nat \<Rightarrow> t_tx \<Rightarrow> (int \<times> t_tx) run" where
  "blkd_tx_fifo_alloc c b s = do {
     f \<leftarrow> fifos s c;
     let s = (if MAX_GLOB_BLKD_QUEUED_BYTES div 10 < tx_queued_bytes f then s\<lparr>flow_trigs := flow_trigs s + 1\<rparr> else s);
     if 3 * MAX_GLOB_BLKD_QUEUED_BYTES div 4 < tx_queued_bytes f \<or> tx_put f = tx_get f then Some (-1, s)
     else do {
       d \<leftarrow> blkds s b;
       let d = d\<lparr>count_reference := count_reference d + 1\<rparr>;
       (i, f) \<leftarrow> pool_tx_alloc b d f;
       s \<leftarrow> blkd_header_tx_setup c i (set_fifo c f (set_blkd b d s));
       Some (0, s)
     }
   }"

fun put_loop :: "int list \<Rightarrow> nat \<Rightarrow> t_tx \<Rightarrow> t_tx run" where
  "put_loop [] b s = Some s"
| "put_loop (c # cs) b s =
     (if fifos s c \<noteq> None then do {
        (res, s) \<leftarrow> blkd_tx_fifo_alloc c b s;
        if res \<noteq> 0 then do {
          d \<leftarrow> blkds s b;
          put_loop cs b (s\<lparr>drop_tx := (drop_tx s)(c := drop_tx s c + payload_len d)\<rparr>)
        } else put_loop cs b s
      } else put_loop cs b s)"

definition blkd_put_tx :: "int list \<Rightarrow> nat \<Rightarrow> t_tx \<Rightarrow> t_tx run" where
  "blkd_put_tx llids b s = do {
     d \<leftarrow> blkds s b;
     kout_if (PAYLOAD_BLKD_SIZE < payload_len d);
     kout_if (payload_len d \<le> 0);
     s \<leftarrow> put_loop llids b (set_blkd b (d\<lparr>count_reference := count_reference d + 1\<rparr>) s);
     d \<leftarrow> blkds s b;
     let d = d\<lparr>count_reference := count_reference d - 1\<rparr>;
     let s = set_blkd b d s;
     if count_reference d = 0 then blkd_free_tx b s else Some s
   }"

section \<open>Writing\<close>

text \<open>The answers of \<open>write\<close>: a number of bytes, try again, or an error.\<close>

datatype t_wr = Wr nat | Wr_again | Wr_error

definition sock_unix_write :: "u8 list \<Rightarrow> int \<Rightarrow> t_wr \<Rightarrow> int \<Rightarrow> t_tx \<Rightarrow> (int \<times> bool \<times> t_tx) run" where
  "sock_unix_write buf len w c s = do {
     kout_if (len \<le> 0);
     ub_if (int (length buf) < len);
     Some (case w of
       Wr_error \<Rightarrow> (-1, False, s)
     | Wr_again \<Rightarrow> (0, True, s)
     | Wr m \<Rightarrow> (let n = min m (nat len) in
         (int n, int n \<noteq> len, s\<lparr>sent := (sent s)(c := sent s c @ take n buf)\<rparr>)))
   }"

definition try_sending :: "int \<Rightarrow> nat \<Rightarrow> t_wr \<Rightarrow> t_tx \<Rightarrow> (int \<times> bool \<times> t_tx) run" where
  "try_sending c i w s = do {
     f \<leftarrow> fifos s c;
     let r = tx_rec f i;
     b \<leftarrow> tblkd r;
     d \<leftarrow> blkds s b;
     let (len_2_tx, ptr_2_tx) =
       (if qemu_group_rank d \<noteq> 0 then
          (if dn r < header_blkd_len d then (header_blkd_len d - dn r, drop (nat (dn r)) (header_blkd d))
           else (to_do r - dn r, drop (nat (dn r - header_blkd_len d)) (payload_blkd d)))
        else (to_do r - dn r, drop (nat (dn r)) (header_blkd d @ payload_blkd d)));
     (len, get_out, s) \<leftarrow> sock_unix_write ptr_2_tx len_2_tx w c s;
     if 0 \<le> len then
       Some (if len = len_2_tx then 0 else 1, get_out, set_fifo c (f\<lparr>tx_rec := (tx_rec f)(i := r\<lparr>dn := dn r + len\<rparr>)\<rparr>) s)
     else Some (-1, get_out, s)
   }"

definition free_sent :: "int \<Rightarrow> t_tx \<Rightarrow> t_tx run" where
  "free_sent c s = do {
     (ob, s) \<leftarrow> pool_tx_free c s;
     b \<leftarrow> ob;
     d \<leftarrow> blkds s b;
     if count_reference d = 0 then blkd_free_tx b s else Some s
   }"

text \<open>The two loops of \<open>blkd_fd_event_tx\<close>; the list has the answers of the calls of \<open>write\<close>, "try again" at its end.\<close>

partial_function (option) tx_rec_loop :: "int \<Rightarrow> nat \<Rightarrow> int \<Rightarrow> t_wr list \<Rightarrow> t_tx \<Rightarrow> (int \<times> bool \<times> t_wr list \<times> t_tx) run" where
  "tx_rec_loop c i res ws s = do {
     f \<leftarrow> fifos s c;
     if tblkd (tx_rec f i) = None then Some (res, False, ws, s)
     else do {
       (res, get_out, s) \<leftarrow> try_sending c i (case ws of [] \<Rightarrow> Wr_again | w # _ \<Rightarrow> w) s;
       let ws = tl ws;
       if get_out \<or> res < 0 then Some (res, get_out, ws, s)
       else do {
         f \<leftarrow> fifos s c;
         s \<leftarrow> (if dn (tx_rec f i) = to_do (tx_rec f i) then free_sent c s else Some s);
         tx_rec_loop c i res ws s
       }
     }
   }"

partial_function (option) tx_pool_loop :: "int \<Rightarrow> nat option \<Rightarrow> int \<Rightarrow> t_wr list \<Rightarrow> t_tx \<Rightarrow> (int \<times> t_tx) run" where
  "tx_pool_loop c oi res ws s = (case oi of
     None \<Rightarrow> Some (res, s)
   | Some i \<Rightarrow> do {
       (res, get_out, ws, s) \<leftarrow> tx_rec_loop c i res ws s;
       if \<not> get_out \<and> res = 0 then do {
         f \<leftarrow> fifos s c;
         oi \<leftarrow> pool_tx_get f;
         tx_pool_loop c oi res ws s
       } else Some (res, s)
     })"

definition blkd_fd_event_tx :: "int \<Rightarrow> t_wr list \<Rightarrow> t_tx \<Rightarrow> (int \<times> t_tx) run" where
  "blkd_fd_event_tx c ws s = do {
     f \<leftarrow> fifos s c;
     oi \<leftarrow> pool_tx_get f;
     kout_if (oi = None \<and> (tx_qty f \<noteq> 0 \<or> tx_queued_bytes f \<noteq> 0));
     tx_pool_loop c oi 0 ws s
   }"

text \<open>All that waits on a channel is dropped; the two loops of the code are one here.\<close>

partial_function (option) purge_loop :: "int \<Rightarrow> t_tx \<Rightarrow> t_tx run" where
  "purge_loop c s = do {
     f \<leftarrow> fifos s c;
     oi \<leftarrow> pool_tx_get f;
     if oi = None then Some s
     else do {
       s \<leftarrow> free_sent c s;
       purge_loop c s
     }
   }"

definition blkd_fd_event_purge_tx :: "int \<Rightarrow> t_tx \<Rightarrow> t_tx run" where
  "blkd_fd_event_purge_tx c s = do {
     s \<leftarrow> purge_loop c s;
     f \<leftarrow> fifos s c;
     kout_if (tx_qty f \<noteq> 0 \<or> tx_queued_bytes f \<noteq> 0);
     Some s
   }"

text \<open>The end of a channel; the list of the channels is left out.\<close>

definition free_llid_blkd :: "int \<Rightarrow> t_tx \<Rightarrow> t_tx run" where
  "free_llid_blkd c s =
     (if fifos s c = None then Some s
      else do {
        s \<leftarrow> blkd_fd_event_purge_tx c s;
        Some (s\<lparr>fifos := (fifos s)(c := None)\<rparr>)
      })"

end
