(* ===== verification/Blkd_Stream.thy ===== *)
theory Blkd_Stream
  imports Blkd_Ring
begin

text \<open>
  What the user of a packet socket does at an event, the invariant of a socket whose text is a
  sequence of packets, and the steps of the loop over the new bytes.
\<close>

section \<open>The user of the packets\<close>

text \<open>\<open>rx_blkd_sock_cb\<close> of \<open>lib_muend\<close>, for one endpoint; the counters of the reports are left out.\<close>

partial_function (option) rx_blkd_loop ::
  "(t_blkd_rx option \<Rightarrow> t_blkd_fifo_rx \<times> 's \<Rightarrow> (bool \<times> t_blkd_fifo_rx \<times> 's) run) \<Rightarrow> t_blkd_fifo_rx \<times> 's
    \<Rightarrow> (t_blkd_fifo_rx \<times> 's) run" where
  "rx_blkd_loop rx ps = do {
     (b, p) \<leftarrow> blkd_rx_fifo_get (fst ps);
     if b = None then Some (p, snd ps)
     else do {
       (stop, ps) \<leftarrow> rx b (p, snd ps);
       if stop then Some ps else rx_blkd_loop rx ps
     }
   }"

definition rx_blkd_sock_cb ::
  "(t_blkd_rx option \<Rightarrow> t_blkd_fifo_rx \<times> 's \<Rightarrow> (bool \<times> t_blkd_fifo_rx \<times> 's) run) \<Rightarrow> t_blkd_fifo_rx \<times> 's
    \<Rightarrow> (t_blkd_fifo_rx \<times> 's) run" where
  "rx_blkd_sock_cb rx ps = do {
     (busy, ps) \<leftarrow> rx None ps;
     if \<not> busy then rx_blkd_loop rx ps
     else do {
       (b, p) \<leftarrow> blkd_rx_fifo_get (fst ps);
       case b of None \<Rightarrow> Some (p, snd ps) | Some b \<Rightarrow> map_option (\<lambda>p. (p, snd ps)) (blkd_free b p)
     }
   }"

text \<open>What the pointers of a packet show.\<close>

definition rx_packet :: "t_blkd_rx \<Rightarrow> t_blkd_fifo_rx \<Rightarrow> t_pkt run" where
  "rx_packet b p = do {
     gr \<leftarrow> groups p (bgroup b);
     let data = drop (header_pos b + HEADER_BLKD_SIZE) (head_data gr);
     ub_if (length data < rx_payload_len b);
     Some \<lparr>pk_llid = rx_llid b, pk_type = rx_type b, pk_val = rx_val b, pk_usec = rx_usec b,
           pk_data = take (rx_payload_len b) data\<rparr>
   }"

text \<open>
  \<open>rx_from_traffic_sock\<close> of the endpoints that use a packet at once and free it (\<open>munat\<close>); \<open>use\<close>
  is what the endpoint does with it.
\<close>

definition rx_use_and_free ::
  "(t_pkt \<Rightarrow> 's \<Rightarrow> 's) \<Rightarrow> t_blkd_rx option \<Rightarrow> t_blkd_fifo_rx \<times> 's \<Rightarrow> (bool \<times> t_blkd_fifo_rx \<times> 's) run" where
  "rx_use_and_free use bd ps = (case bd of
     None \<Rightarrow> Some (False, ps)
   | Some b \<Rightarrow> do {
       k \<leftarrow> rx_packet b (fst ps);
       p \<leftarrow> blkd_free b (fst ps);
       Some (False, p, use k (snd ps))
     })"

section \<open>The invariant\<close>

definition rec_group :: "t_blkd_record \<Rightarrow> nat" where
  "rec_group r = bgroup (the (rblkd r))"

definition pkt_fields :: "t_pkt \<Rightarrow> t_blkd_rx \<Rightarrow> bool" where
  "pkt_fields k b \<longleftrightarrow> rx_payload_len b = length (pk_data k) \<and> rx_llid b = pk_llid k mod 65536 \<and>
     rx_type b = pk_type k mod 65536 \<and> rx_val b = pk_val k mod 65536 \<and> rx_usec b = pk_usec k"

text \<open>A record whose packet is complete: the memory of its group has the bytes.\<close>

definition done_rec :: "(nat \<Rightarrow> t_blkd_group option) \<Rightarrow> t_pkt \<Rightarrow> t_blkd_record \<Rightarrow> bool" where
  "done_rec gs k r \<longleftrightarrow> (\<exists>b gr. rblkd r = Some b \<and> pkt_fields k b \<and> len_to_do r = pkt_len k \<and> len_done r = pkt_len k \<and>
     gs (bgroup b) = Some gr \<and> header_pos b + pkt_len k \<le> len_data_done gr \<and> len_data_done gr \<le> length (head_data gr) \<and>
     take (pkt_len k) (drop (header_pos b) (head_data gr)) = pkt_bytes k)"

text \<open>The record that is read: the bytes \<open>w\<close> of its packet are taken, \<open>u\<close> is read and not taken.\<close>

definition cur_rec :: "(nat \<Rightarrow> t_blkd_group option) \<Rightarrow> t_pkt list \<Rightarrow> u8 list \<Rightarrow> u8 list \<Rightarrow> t_blkd_record \<Rightarrow> bool" where
  "cur_rec gs ms w u r \<longleftrightarrow> (\<exists>b gr pre. rblkd r = Some b \<and> gs (bgroup b) = Some gr \<and> head_data gr = pre @ w @ u \<and>
     header_pos b = length pre \<and> len_data_done gr = length pre + length w \<and>
     length pre + MAX_TOTAL_BLKD_SIZE \<le> GROUP_BLKD_MAX_SIZE \<and> length (head_data gr) \<le> GROUP_BLKD_MAX_SIZE \<and>
     len_done r = length w \<and>
     (if length w < HEADER_BLKD_SIZE then len_to_do r = 0
      else ms \<noteq> [] \<and> length w < pkt_len (hd ms) \<and> len_to_do r = pkt_len (hd ms) \<and> pkt_fields (hd ms) b))"

text \<open>A group counts the packets in it, and there is no group without a packet.\<close>

definition tied :: "t_blkd_fifo_rx \<Rightarrow> t_blkd_record list \<Rightarrow> bool" where
  "tied p rs \<longleftrightarrow> dom (groups p) = rec_group ` set rs \<and> (\<forall>g gr. groups p g = Some gr \<longrightarrow> g < next_group p \<and>
     count_blkd_tied gr = count_list (map rec_group rs) g)"

definition rx_ok :: "t_blkd_fifo_rx \<Rightarrow> t_pkt list \<Rightarrow> t_blkd_record list \<Rightarrow> t_blkd_record
    \<Rightarrow> t_pkt list \<Rightarrow> u8 list \<Rightarrow> u8 list \<Rightarrow> bool" where
  "rx_ok p ks cs cur ms w u \<longleftrightarrow> ring_rep p (cs @ [cur]) \<and> list_all2 (done_rec (groups p)) ks cs \<and>
     cur_rec (groups p) ms w u cur \<and> tied p (cs @ [cur]) \<and>
     rx_queued_bytes p = int (sum_list (map pkt_len ks)) \<and>
     sum_list (map pkt_len ks) + length w + length u \<le> 3 * GROUP_BLKD_MAX_SIZE \<and>
     list_all good_pkt (ks @ ms)"

definition rx_text :: "t_pkt list \<Rightarrow> u8 list" where
  "rx_text ms = concat (map pkt_bytes ms)"

section \<open>Groups that grow\<close>

definition grp_le :: "t_blkd_group \<Rightarrow> t_blkd_group \<Rightarrow> bool" where
  "grp_le gr gr' \<longleftrightarrow> len_data_done gr \<le> len_data_done gr' \<and> len_data_done gr' \<le> length (head_data gr') \<and>
     take (len_data_done gr) (head_data gr') = take (len_data_done gr) (head_data gr)"

lemma done_rec_mono:
  assumes "done_rec gs k r" "\<And>gr. gs (rec_group r) = Some gr \<Longrightarrow> \<exists>gr'. gs' (rec_group r) = Some gr' \<and> grp_le gr gr'"
  shows "done_rec gs' k r"
proof -
  from assms(1) obtain b gr where b: "rblkd r = Some b" "pkt_fields k b" "len_to_do r = pkt_len k" "len_done r = pkt_len k"
    "gs (bgroup b) = Some gr" "header_pos b + pkt_len k \<le> len_data_done gr" "len_data_done gr \<le> length (head_data gr)"
    "take (pkt_len k) (drop (header_pos b) (head_data gr)) = pkt_bytes k"
    by (auto simp: done_rec_def)
  then obtain gr' where g: "gs' (bgroup b) = Some gr'" "grp_le gr gr'"
    using assms(2) [of gr] by (auto simp: rec_group_def)
  have "take (pkt_len k) (drop (header_pos b) (take (len_data_done gr) xs)) = take (pkt_len k) (drop (header_pos b) xs)"
    for xs :: "u8 list"
    using b(6) by (simp add: drop_take)
  with b(8) g(2) have "take (pkt_len k) (drop (header_pos b) (head_data gr')) = pkt_bytes k"
    by (metis grp_le_def)
  with b g show ?thesis by (auto simp: done_rec_def grp_le_def)
qed

lemma done_rec_upd:
  assumes "gs g = Some gr" "grp_le gr gr'" "done_rec gs k r"
  shows "done_rec (gs(g \<mapsto> gr')) k r"
proof (rule done_rec_mono [OF assms(3)])
  fix gr0
  assume g0: "gs (rec_group r) = Some gr0"
  from assms(3) have "len_data_done gr0 \<le> length (head_data gr0)"
    using g0 by (auto simp: done_rec_def rec_group_def)
  with g0 assms(1,2) show "\<exists>gr'a. (gs(g \<mapsto> gr')) (rec_group r) = Some gr'a \<and> grp_le gr0 gr'a"
    by (auto simp: grp_le_def)
qed

lemma done_recs_upd:
  assumes "gs g = Some gr" "grp_le gr gr'" "list_all2 (done_rec gs) ks cs"
  shows "list_all2 (done_rec (gs(g \<mapsto> gr'))) ks cs"
  using assms(3) by (rule list_all2_mono) (use assms(1,2) done_rec_upd [where gs = gs and g = g] in blast)

lemma tied_upd:
  assumes "tied p (cs @ [r])" "groups p g = Some gr" "count_blkd_tied gr' = count_blkd_tied gr" "rec_group r' = rec_group r"
    "groups p' = (groups p)(g \<mapsto> gr')" "next_group p' = next_group p"
  shows "tied p' (cs @ [r'])"
proof -
  have "dom (groups p') = insert g (dom (groups p))" using assms(5) by simp
  also have "\<dots> = dom (groups p)" using assms(2) by auto
  finally show ?thesis using assms by (auto simp: tied_def)
qed

section \<open>Steps\<close>

lemma group_read_up_eq:
  assumes "groups p g = Some gr" "head_data gr = pre @ w @ u" "len_data_done gr = length pre + length w" "0 < m"
  shows "group_read_up g m p = (if u = [] then Some (None, p)
    else Some (Some (min m (length u)), set_group g (gr\<lparr>len_data_done := len_data_done gr + min m (length u)\<rparr>) p))"
  using assms by (auto simp: group_read_up_def Let_def min_def add.assoc)

lemma cur_recE:
  assumes "cur_rec gs ms w u r"
  obtains b gr pre where "rblkd r = Some b" "len_done r = length w"
    "if length w < HEADER_BLKD_SIZE then len_to_do r = 0
     else ms \<noteq> [] \<and> length w < pkt_len (hd ms) \<and> len_to_do r = pkt_len (hd ms) \<and> pkt_fields (hd ms) b"
    "gs (bgroup b) = Some gr" "head_data gr = pre @ w @ u" "header_pos b = length pre"
    "len_data_done gr = length pre + length w" "length pre + MAX_TOTAL_BLKD_SIZE \<le> GROUP_BLKD_MAX_SIZE"
    "length (head_data gr) \<le> GROUP_BLKD_MAX_SIZE" "rec_group r = bgroup b"
  using assms unfolding cur_rec_def by (elim exE conjE) (auto simp: rec_group_def)

lemma newest_state:
  assumes "rx_ok p ks cs cur ms w u"
  shows "pool_rx_newest_record_state p = Some
    (if length w < HEADER_BLKD_SIZE then blkd_read_head else blkd_read_body, rec_group cur, ring_at p (length cs))"
proof -
  from assms have c: "cur_rec (groups p) ms w u cur" by (simp add: rx_ok_def)
  then obtain b gr pre where b: "rblkd cur = Some b" "len_done cur = length w"
    "if length w < HEADER_BLKD_SIZE then len_to_do cur = 0
     else ms \<noteq> [] \<and> length w < pkt_len (hd ms) \<and> len_to_do cur = pkt_len (hd ms) \<and> pkt_fields (hd ms) b"
    by (rule cur_recE)
  from assms have r: "ring_rep p (cs @ [cur])" by (simp add: rx_ok_def)
  note n = ring_newest [OF r]
  from b have "get_rec_state cur = Some (if length w < HEADER_BLKD_SIZE then blkd_read_head else blkd_read_body)"
    by (auto simp: get_rec_state_def HEADER_BLKD_SIZE_def split: if_splits)
  with b(1) n show ?thesis
    by (simp add: pool_rx_newest_record_state_def pool_rx_get_newest_rec_def kout_if_bind Let_def rec_group_def)
qed

text \<open>Bytes go from \<open>u\<close> to \<open>w\<close>; the record of the packet changes as the state \<open>p'\<close> says.\<close>

lemma rx_move_parts:
  assumes "rx_ok p ks cs cur ms w (v @ u)" "groups p (rec_group cur) = Some gr" "rec_group cur' = rec_group cur"
    "p' = set_rec (ring_at p (length cs)) cur'
      (set_group (rec_group cur) (gr\<lparr>len_data_done := len_data_done gr + length v\<rparr>) p)"
  shows "ring_rep p' (cs @ [cur'])" "list_all2 (done_rec (groups p')) ks cs" "tied p' (cs @ [cur'])"
    "groups p' = (groups p)(rec_group cur \<mapsto> gr\<lparr>len_data_done := len_data_done gr + length v\<rparr>)"
    "rx_queued_bytes p' = rx_queued_bytes p" "get p' = get p"
proof -
  let ?gr = "gr\<lparr>len_data_done := len_data_done gr + length v\<rparr>"
  from assms(1) have r: "ring_rep p (cs @ [cur])" by (simp add: rx_ok_def)
  from assms(1) have "cur_rec (groups p) ms w (v @ u) cur" by (simp add: rx_ok_def)
  then have le: "grp_le gr ?gr" using assms(2) by (elim cur_recE) (simp add: grp_le_def)
  show gs: "groups p' = (groups p)(rec_group cur \<mapsto> ?gr)" "rx_queued_bytes p' = rx_queued_bytes p" "get p' = get p"
    using assms(4) by (simp_all add: set_rec_def set_group_def)
  show "ring_rep p' (cs @ [cur'])"
  proof -
    have "ring_rep (set_group (rec_group cur) ?gr p) (cs @ [cur])"
      using r by (simp add: ring_rep_def set_group_def ring_at_def)
    from ring_set_newest [OF this, of cur'] show ?thesis using assms(4) by (simp add: ring_at_def set_group_def)
  qed
  show "list_all2 (done_rec (groups p')) ks cs"
    using assms(1,2) le unfolding gs by (intro done_recs_upd) (auto simp: rx_ok_def)
  show "tied p' (cs @ [cur'])"
  proof (rule tied_upd)
    show "tied p (cs @ [cur])" using assms(1) by (simp add: rx_ok_def)
    show "next_group p' = next_group p" using assms(4) by (simp add: set_rec_def set_group_def)
  qed (use assms(2,3) gs in auto)
qed

lemma rx_ok_move:
  assumes "rx_ok p ks cs cur ms w (v @ u)" "groups p (rec_group cur) = Some gr" "rblkd cur' = Some b'"
    "bgroup b' = rec_group cur" "header_pos b' = header_pos (the (rblkd cur))" "len_done cur' = length (w @ v)"
    "if length (w @ v) < HEADER_BLKD_SIZE then len_to_do cur' = 0
     else ms \<noteq> [] \<and> length (w @ v) < pkt_len (hd ms) \<and> len_to_do cur' = pkt_len (hd ms) \<and> pkt_fields (hd ms) b'"
  shows "rx_ok (set_rec (ring_at p (length cs)) cur'
    (set_group (rec_group cur) (gr\<lparr>len_data_done := len_data_done gr + length v\<rparr>) p)) ks cs cur' ms (w @ v) u"
proof -
  let ?gr = "gr\<lparr>len_data_done := len_data_done gr + length v\<rparr>"
  let ?p = "set_rec (ring_at p (length cs)) cur' (set_group (rec_group cur) ?gr p)"
  from assms(1) have "cur_rec (groups p) ms w (v @ u) cur" by (simp add: rx_ok_def)
  then obtain b pre where b: "rblkd cur = Some b" "head_data gr = pre @ w @ v @ u" "header_pos b = length pre"
    "len_data_done gr = length pre + length w" "length pre + MAX_TOTAL_BLKD_SIZE \<le> GROUP_BLKD_MAX_SIZE"
    "length (head_data gr) \<le> GROUP_BLKD_MAX_SIZE"
    using assms(2) by (elim cur_recE) (simp add: rec_group_def)
  have "rec_group cur' = rec_group cur" using assms(3,4) by (simp add: rec_group_def)
  note parts = rx_move_parts [OF assms(1,2) this refl]
  have "cur_rec (groups ?p) ms (w @ v) u cur'"
    unfolding cur_rec_def parts(4) using assms(3-7) b by (intro exI [of _ b'] exI [of _ ?gr] exI [of _ pre]) auto
  with parts assms(1) show ?thesis by (simp add: rx_ok_def)
qed

lemma take_prefix_eq: "xs @ x = ys @ y \<Longrightarrow> n \<le> length xs \<Longrightarrow> n \<le> length ys \<Longrightarrow> take n xs = take n ys"
  by (metis append_eq_conv_conj take_append diff_is_0_eq' take_0 append_Nil2)

lemma set_rec_set_rec [simp]: "set_rec i r (set_rec i r' p) = set_rec i r p"
  by (simp add: set_rec_def)

lemma rec_set_rec [simp]: "rec (set_rec i r p) i = r" "groups (set_rec i r p) = groups p"
  by (simp_all add: set_rec_def)

lemma groups_set_group [simp]: "groups (set_group g gr p) = (groups p)(g \<mapsto> gr)" "rec (set_group g gr p) = rec p"
  by (simp_all add: set_group_def)

lemma header_extract:
  assumes "rblkd (rec p i) = Some b" "groups p (bgroup b) = Some gr" "good_pkt k"
    "take 20 (drop (header_pos b) (head_data gr)) = take 20 (pkt_bytes k)"
  shows "\<exists>b'. blkd_header_rx_extract i p = Some (set_rec i ((rec p i)\<lparr>len_to_do := pkt_len k, rblkd := Some b'\<rparr>) p) \<and>
    bgroup b' = bgroup b \<and> header_pos b' = header_pos b \<and> pkt_fields k b'"
proof -
  note h = pkt_header [OF assms(3,4)]
  from pkt_len_bounds [OF assms(3)] have "20 < pkt_len k" "pkt_len k - 20 = length (pk_data k)"
    by (simp_all add: pkt_len_def HEADER_BLKD_SIZE_def)
  with assms(1,2) h show ?thesis
    by (intro exI [of _ "b\<lparr>rx_payload_len := pkt_len k - 20, rx_llid := pk_llid k mod 65536,
        rx_type := pk_type k mod 65536, rx_val := pk_val k mod 65536, rx_usec := pk_usec k\<rparr>"])
      (simp add: blkd_header_rx_extract_def HEADER_BLKD_SIZE_def kout_if_bind Let_def pkt_fields_def)
qed

lemma head_step:
  assumes "rx_ok p ks cs cur ms w u" "length w < HEADER_BLKD_SIZE" "w @ u @ x = rx_text ms"
  shows "\<exists>more p' cur' w' u'. auto_extract_header (rec_group cur) (ring_at p (length cs)) p = Some (more, p') \<and>
    rx_ok p' ks cs cur' ms w' u' \<and> w' @ u' = w @ u \<and> (if more then length u' < length u else u' = [])"
proof -
  let ?i = "ring_at p (length cs)"
  let ?m = "HEADER_BLKD_SIZE - length w"
  from assms(1) have c: "cur_rec (groups p) ms w u cur" by (simp add: rx_ok_def)
  then obtain b gr pre where b: "rblkd cur = Some b" "len_done cur = length w" "len_to_do cur = 0"
    "groups p (bgroup b) = Some gr" "head_data gr = pre @ w @ u" "header_pos b = length pre"
    "len_data_done gr = length pre + length w" "rec_group cur = bgroup b"
    by (rule cur_recE) (use assms(2) in simp)
  from assms(1) have "ring_rep p (cs @ [cur])" by (simp add: rx_ok_def)
  then have i: "rec p ?i = cur" by (rule ring_newest)
  let ?gr = "gr\<lparr>len_data_done := len_data_done gr + min ?m (length u)\<rparr>"
  from assms(2) have m: "0 < ?m" by simp
  note up = group_read_up_eq [OF b(4,5,7) m]
  show ?thesis
  proof (cases "u = []")
    case True
    then have "auto_extract_header (rec_group cur) ?i p = Some (False, p)"
      using i b(2,8) up assms(2) by (simp add: auto_extract_header_def)
    with assms(1) True show ?thesis by auto
  next
    case False
    show ?thesis
    proof (cases "length u < ?m")
      case True
      have up': "group_read_up (bgroup b) ?m p =
          Some (Some (length u), set_group (bgroup b) (gr\<lparr>len_data_done := len_data_done gr + length u\<rparr>) p)"
        unfolding up using False True by (simp add: min_absorb2)
      have ne: "length w \<noteq> HEADER_BLKD_SIZE" "length w + length u \<noteq> HEADER_BLKD_SIZE" using assms(2) True by simp_all
      let ?cur = "cur\<lparr>len_done := length w + length u\<rparr>"
      let ?p = "set_rec ?i ?cur (set_group (rec_group cur) (gr\<lparr>len_data_done := len_data_done gr + length u\<rparr>) p)"
      have "auto_extract_header (rec_group cur) ?i p = Some (False, ?p)"
        using ne by (simp add: auto_extract_header_def i b(2,8) up' Let_def)
      moreover have "rx_ok ?p ks cs ?cur ms (w @ u) []"
        using assms(1) b less_diff_conv2 [of "length w" HEADER_BLKD_SIZE "length u"] True assms(2)
        by (intro rx_ok_move) (simp_all add: less_diff_conv add.commute)
      ultimately show ?thesis by fastforce
    next
      case nl: False
      let ?v = "take ?m u" and ?u = "drop ?m u"
      from False assms(3) have "rx_text ms \<noteq> []" by auto
      then obtain k ms' where ms: "ms = k # ms'" by (cases ms) (auto simp: rx_text_def)
      with assms(1) have k: "good_pkt k" by (simp add: rx_ok_def)
      note len = pkt_len_bounds [OF k] length_pkt_bytes [OF k]
      have t20: "take 20 (w @ u) = take 20 (pkt_bytes k)"
        by (rule take_prefix_eq [of _ x _ "rx_text ms'"])
          (use assms(3) nl len ms in \<open>auto simp: rx_text_def HEADER_BLKD_SIZE_def\<close>)
      let ?gr = "gr\<lparr>len_data_done := len_data_done gr + length ?v\<rparr>"
      let ?p1 = "set_rec ?i (cur\<lparr>len_done := 20\<rparr>) (set_group (bgroup b) ?gr p)"
      have up': "group_read_up (bgroup b) ?m p = Some (Some ?m, set_group (bgroup b) ?gr p)"
        unfolding up using False nl by (simp add: min_absorb1)
      have v: "length ?v = ?m" "length w + ?m = 20" using nl assms(2) by (simp_all add: HEADER_BLKD_SIZE_def)
      obtain b' where b': "blkd_header_rx_extract ?i ?p1 = Some (set_rec ?i (cur\<lparr>len_done := 20, len_to_do := pkt_len k, rblkd := Some b'\<rparr>) ?p1)"
        "bgroup b' = bgroup b" "header_pos b' = header_pos b" "pkt_fields k b'"
        using header_extract [of ?p1 ?i b ?gr k] b k t20 by (auto simp add: set_rec_def)
      have ne: "length w \<noteq> HEADER_BLKD_SIZE" "length w + ?m = HEADER_BLKD_SIZE" "HEADER_BLKD_SIZE = 20"
        using assms(2) by (simp_all add: HEADER_BLKD_SIZE_def)
      let ?cur = "cur\<lparr>len_done := 20, len_to_do := pkt_len k, rblkd := Some b'\<rparr>"
      let ?p = "set_rec ?i ?cur (set_group (rec_group cur) ?gr p)"
      have "auto_extract_header (rec_group cur) ?i p = Some (True, ?p)"
        using ne b'(1) by (simp add: auto_extract_header_def i b(2,8) up' Let_def)
      moreover have "rx_ok ?p ks cs ?cur ms (w @ ?v) ?u"
        using assms(1) b b' v len ms by (intro rx_ok_move) (simp_all add: HEADER_BLKD_SIZE_def)
      moreover have "length ?u < length u" using nl m by simp
      ultimately show ?thesis by (intro exI [of _ True] exI [of _ ?p] exI [of _ ?cur] exI [of _ "w @ ?v"] exI [of _ ?u]) simp
    qed
  qed
qed

text \<open>The end of a packet: the record of the next one is made, in the same group or in a new one.\<close>

lemma cur_rec_fresh:
  assumes "gs g = Some gr" "head_data gr = pre @ u" "len_data_done gr = length pre"
    "length pre + MAX_TOTAL_BLKD_SIZE \<le> GROUP_BLKD_MAX_SIZE" "length (head_data gr) \<le> GROUP_BLKD_MAX_SIZE"
  shows "cur_rec gs ms [] u \<lparr>len_to_do = 0, len_done = 0, rblkd = Some \<lparr>bgroup = g, header_pos = length pre,
    rx_payload_len = 0, rx_llid = 0, rx_type = 0, rx_val = 0, rx_usec = replicate 8 0\<rparr>\<rparr>"
  using assms by (auto simp: cur_rec_def HEADER_BLKD_SIZE_def)

lemma new_packet:
  assumes "ring_rep p rs" "length rs + 1 < RX_POOL" "groups p g = Some gr" "head_data gr = pre @ u"
    "len_data_done gr = length pre" "length (head_data gr) \<le> GROUP_BLKD_MAX_SIZE" "tied p rs"
  shows "\<exists>p' r. maybe_new_group g p = Some p' \<and> ring_rep p' (rs @ [r]) \<and> cur_rec (groups p') ms [] u r \<and>
    tied p' (rs @ [r]) \<and> (\<forall>k r'. done_rec (groups p) k r' \<longrightarrow> done_rec (groups p') k r') \<and>
    rx_queued_bytes p' = rx_queued_bytes p \<and> get p' = get p \<and>
    (\<forall>k < length rs. rec p' (ring_at p k) = rec p (ring_at p k))"
proof (cases "length u + (GROUP_BLKD_MAX_SIZE - length (head_data gr)) \<le> MAX_TOTAL_BLKD_SIZE")
  case False
  let ?gr = "gr\<lparr>count_blkd_tied := count_blkd_tied gr + 1\<rparr>"
  let ?b = "\<lparr>bgroup = g, header_pos = length pre, rx_payload_len = 0, rx_llid = 0, rx_type = 0, rx_val = 0, rx_usec = replicate 8 0\<rparr>"
  let ?r = "\<lparr>len_to_do = 0, len_done = 0, rblkd = Some ?b\<rparr>"
  let ?p = "set_group g ?gr p"
  have len: "length pre + MAX_TOTAL_BLKD_SIZE \<le> GROUP_BLKD_MAX_SIZE" using False assms(4,6) by simp
  have "ring_rep ?p rs" using assms(1) by (simp add: ring_rep_def set_group_def ring_at_def)
  from ring_alloc [OF this assms(2), of ?b] obtain p' where p': "pool_rx_alloc ?b ?p = Some p'" "ring_rep p' (rs @ [?r])"
    "groups p' = groups ?p" "next_group p' = next_group p" "rx_queued_bytes p' = rx_queued_bytes p" "get p' = get p"
    "\<forall>k < length rs. rec p' (ring_at p k) = rec p (ring_at p k)"
    by (auto simp: set_group_def ring_at_def)
  have "maybe_new_group g p = prepare_new_blkd g p"
    using assms(3-6) False by (auto simp: maybe_new_group_def kout_if_bind Let_def)
  also have "\<dots> = Some p'"
    using assms(3,5) len p'(1) by (simp add: prepare_new_blkd_def tie_group_def malloc_create_new_blkd_def kout_if_bind)
  finally have "maybe_new_group g p = Some p'" .
  moreover have "cur_rec (groups p') ms [] u ?r"
    unfolding p'(3) using assms len by (intro cur_rec_fresh [of _ _ ?gr]) simp_all
  moreover have "tied p' (rs @ [?r])"
  proof -
    have "g \<in> rec_group ` set rs" using assms(3,7) by (auto simp: tied_def)
    then have "dom (groups p') = rec_group ` set (rs @ [?r])"
      using assms(7) p'(3) by (auto simp: tied_def rec_group_def)
    with assms(3,7) p'(3,4) show ?thesis by (auto simp: tied_def rec_group_def)
  qed
  moreover have "done_rec (groups p') k r'" if "done_rec (groups p) k r'" for k r'
    unfolding p'(3) groups_set_group by (rule done_rec_upd [OF assms(3) _ that]) (use assms(4,5) in \<open>simp add: grp_le_def\<close>)
  ultimately show ?thesis using p' by blast
next
  case True
  let ?n = "next_group p"
  let ?gr = "gr\<lparr>head_data := pre\<rparr>"
  let ?b = "\<lparr>bgroup = ?n, header_pos = 0, rx_payload_len = 0, rx_llid = 0, rx_type = 0, rx_val = 0, rx_usec = replicate 8 0\<rparr>"
  let ?r = "\<lparr>len_to_do = 0, len_done = 0, rblkd = Some ?b\<rparr>"
  let ?p = "p\<lparr>next_group := Suc ?n, groups := (groups p)(?n := Some \<lparr>count_blkd_tied = 1, len_data_done = 0, head_data = u\<rparr>)\<rparr>"
  have "ring_rep ?p rs" using assms(1) by (simp add: ring_rep_def ring_at_def)
  from ring_alloc [OF this assms(2), of ?b] obtain p' where p': "pool_rx_alloc ?b ?p = Some p'" "ring_rep p' (rs @ [?r])"
    "groups p' = groups ?p" "next_group p' = Suc ?n" "rx_queued_bytes p' = rx_queued_bytes p" "get p' = get p"
    "\<forall>k < length rs. rec p' (ring_at p k) = rec p (ring_at p k)"
    by (auto simp: ring_at_def)
  let ?q = "set_group g ?gr p'"
  from assms(3,7) have g: "g < ?n" by (simp add: tied_def)
  from True have ul: "length u < 3088" by (simp add: MAX_TOTAL_BLKD_SIZE_def)
  have "maybe_new_group g p = prepare_new_group_and_blkd g p"
    using assms(3-6) True by (auto simp: maybe_new_group_def kout_if_bind Let_def)
  also have "\<dots> = Some ?q"
    using assms(3-6) True g p'(1,3) ul
    by (simp add: prepare_new_group_and_blkd_def malloc_create_new_group_def prepare_new_blkd_def tie_group_def set_group_def
        malloc_create_new_blkd_def kout_if_bind Let_def MAX_TOTAL_BLKD_SIZE_def GROUP_BLKD_MAX_SIZE_def)
  finally have "maybe_new_group g p = Some ?q" .
  moreover have "ring_rep ?q (rs @ [?r])" using p'(2) by (simp add: ring_rep_def set_group_def ring_at_def)
  moreover have "cur_rec (groups ?q) ms [] u ?r"
    using cur_rec_fresh [of "groups ?q" ?n "\<lparr>count_blkd_tied = 1, len_data_done = 0, head_data = u\<rparr>" "[]" u ms]
      g p'(3) True by (simp add: MAX_TOTAL_BLKD_SIZE_def GROUP_BLKD_MAX_SIZE_def)
  moreover have "tied ?q (rs @ [?r])"
  proof -
    have "groups p ?n = None" using assms(7) by (cases "groups p ?n") (auto simp: tied_def)
    with assms(7) have n: "?n \<notin> set (map rec_group rs)" by (auto simp: tied_def)
    have "g \<in> rec_group ` set rs" using assms(3,7) by (auto simp: tied_def)
    then have "dom (groups ?q) = rec_group ` set (rs @ [?r])"
      using assms(7) p'(3) by (auto simp: tied_def rec_group_def)
    with assms(3,7) g p'(3,4) n show ?thesis
      by (auto simp: tied_def rec_group_def set_group_def less_Suc_eq)
  qed
  moreover have "done_rec (groups ?q) k r'" if d: "done_rec (groups p) k r'" for k r'
  proof (rule done_rec_mono [OF d])
    fix gr0 assume r: "groups p (rec_group r') = Some gr0"
    with assms(7) have "rec_group r' < ?n" by (simp add: tied_def)
    then have "rec_group r' \<noteq> ?n" by simp
    moreover from d r have "grp_le gr0 gr0" by (auto simp: done_rec_def rec_group_def grp_le_def)
    ultimately show "\<exists>gr'. groups ?q (rec_group r') = Some gr' \<and> grp_le gr0 gr'"
      using r p'(3) assms(3-5) by (auto simp: grp_le_def)
  qed
  moreover have "rx_queued_bytes ?q = rx_queued_bytes p" "get ?q = get p" "\<forall>k < length rs. rec ?q (ring_at p k) = rec p (ring_at p k)"
    using p' by (simp_all add: set_group_def)
  ultimately show ?thesis by blast
qed

lemma sum_pkt_len: "list_all good_pkt ks \<Longrightarrow> 20 * length ks \<le> sum_list (map pkt_len ks)"
  by (induction ks) (auto dest!: pkt_len_bounds)

lemma pool_has_room:
  assumes "rx_ok p ks cs cur ms w u"
  shows "length cs + 2 < RX_POOL"
proof -
  have "length cs = length ks" using assms by (auto simp: rx_ok_def dest: list_all2_lengthD)
  moreover have "20 * length ks \<le> 3 * GROUP_BLKD_MAX_SIZE"
    using assms sum_pkt_len [of ks] by (auto simp: rx_ok_def)
  ultimately show ?thesis by (simp add: GROUP_BLKD_MAX_SIZE_def MAX_TOTAL_BLKD_SIZE_def RX_POOL_def)
qed

lemma body_step:
  assumes "rx_ok p ks cs cur ms w u" "\<not> length w < HEADER_BLKD_SIZE" "w @ u @ x = rx_text ms"
  shows "\<exists>more p' ks' cs' cur' ms' w' u'. auto_fill_body (rec_group cur) (ring_at p (length cs)) p = Some (more, p') \<and>
    rx_ok p' (ks @ ks') cs' cur' ms' w' u' \<and> ms = ks' @ ms' \<and> rx_text ks' @ w' @ u' = w @ u \<and>
    (if more then length u' < length u else u' = [])"
proof -
  let ?i = "ring_at p (length cs)"
  from assms(1) have c: "cur_rec (groups p) ms w u cur" by (simp add: rx_ok_def)
  then obtain b gr pre where b: "rblkd cur = Some b" "len_done cur = length w" "len_to_do cur = pkt_len (hd ms)"
    "ms \<noteq> []" "length w < pkt_len (hd ms)" "pkt_fields (hd ms) b"
    "groups p (bgroup b) = Some gr" "head_data gr = pre @ w @ u" "header_pos b = length pre"
    "len_data_done gr = length pre + length w" "rec_group cur = bgroup b"
    "length (head_data gr) \<le> GROUP_BLKD_MAX_SIZE"
    by (rule cur_recE) (use assms(2) in simp)
  obtain k ms' where ms: "ms = k # ms'" using b(4) by (cases ms) auto
  with assms(1) have k: "good_pkt k" by (simp add: rx_ok_def)
  note len = pkt_len_bounds [OF k] length_pkt_bytes [OF k]
  from assms(1) have "ring_rep p (cs @ [cur])" by (simp add: rx_ok_def)
  then have i: "rec p ?i = cur" by (rule ring_newest)
  define m where "m = pkt_len k - length w"
  from b(5) ms have m: "0 < m" "length w + m = pkt_len k" by (simp_all add: m_def)
  note up = group_read_up_eq [OF b(7,8,10) m(1)]
  have fill: "auto_fill_body (rec_group cur) ?i p = do {
     (len, p) \<leftarrow> group_read_up (bgroup b) m p;
     case len of
       None \<Rightarrow> Some (False, p)
     | Some l \<Rightarrow> do {
         let p = set_rec ?i ((rec p ?i)\<lparr>len_done := len_done (rec p ?i) + l\<rparr>) p;
         if len_to_do (rec p ?i) = len_done (rec p ?i) then do {
           p \<leftarrow> maybe_new_group (bgroup b) p;
           Some (True, p\<lparr>rx_queued_bytes := (rx_queued_bytes p + int (len_to_do (rec p ?i))) mod 2 ^ 64\<rparr>)
         } else Some (False, p)
       }
   }"
    by (simp add: auto_fill_body_def i b(2,3,11) ms m_def cong: option.case_cong)
  show ?thesis
  proof (cases "u = []")
    case True
    then have "auto_fill_body (rec_group cur) ?i p = Some (False, p)" using up by (simp add: fill)
    with assms(1) True show ?thesis
      by (intro exI [of _ False] exI [of _ p] exI [of _ "[]"] exI [of _ cs] exI [of _ cur] exI [of _ ms] exI [of _ w] exI [of _ u])
        (simp add: rx_text_def)
  next
    case False
    show ?thesis
    proof (cases "length u < m")
      case True
      let ?cur = "cur\<lparr>len_done := length w + length u\<rparr>"
      let ?p = "set_rec ?i ?cur (set_group (rec_group cur) (gr\<lparr>len_data_done := len_data_done gr + length u\<rparr>) p)"
      have up': "group_read_up (bgroup b) m p =
          Some (Some (length u), set_group (bgroup b) (gr\<lparr>len_data_done := len_data_done gr + length u\<rparr>) p)"
        unfolding up using False True by (simp add: min_absorb2)
      have lt: "length w + length u < pkt_len k" using True m by simp
      then have "auto_fill_body (rec_group cur) ?i p = Some (False, ?p)"
        unfolding fill by (simp add: i b(2,3,11) ms up' Let_def)
      moreover have "rx_ok ?p ks cs ?cur ms (w @ u) []"
        using assms(1,2) b lt ms by (intro rx_ok_move) simp_all
      ultimately show ?thesis
        by (intro exI [of _ False] exI [of _ ?p] exI [of _ "[]"] exI [of _ cs] exI [of _ ?cur] exI [of _ ms] exI [of _ "w @ u"]
            exI [of _ "[]"]) (simp add: rx_text_def)
    next
      case nl: False
      define v where "v = take m u"
      define u2 where "u2 = drop m u"
      from nl have v: "length v = m" "u = v @ u2" by (simp_all add: v_def u2_def)
      let ?gr = "gr\<lparr>len_data_done := len_data_done gr + length v\<rparr>"
      let ?cur = "cur\<lparr>len_done := pkt_len k\<rparr>"
      let ?p = "set_rec ?i ?cur (set_group (rec_group cur) ?gr p)"
      have wv: "w @ v = pkt_bytes k"
      proof -
        have "take (pkt_len k) ((w @ v) @ u2 @ x) = take (pkt_len k) (pkt_bytes k @ rx_text ms')"
          using assms(3) v(2) ms by (simp add: rx_text_def)
        with m v(1) len show ?thesis by simp
      qed
      have ok: "rx_ok p ks cs cur ms w (v @ u2)" using assms(1) v(2) by simp
      have gk: "groups p (rec_group cur) = Some gr" using b by simp
      have "rec_group ?cur = rec_group cur" by (simp add: rec_group_def)
      note parts = rx_move_parts [OF ok gk this refl]
      have "done_rec (groups ?p) k ?cur"
        unfolding done_rec_def parts(4) using b ms v m wv
        by (intro exI [of _ b] exI [of _ ?gr]) simp
      with parts(2) have dn: "list_all2 (done_rec (groups ?p)) (ks @ [k]) (cs @ [?cur])"
        by (simp add: list_all2_appendI)
      have hd: "head_data ?gr = (pre @ w @ v) @ u2" "len_data_done ?gr = length (pre @ w @ v)"
        "length (head_data ?gr) \<le> GROUP_BLKD_MAX_SIZE"
        using b v by simp_all
      have room: "length (cs @ [?cur]) + 1 < RX_POOL" using pool_has_room [OF assms(1)] by simp
      have g1: "groups ?p (bgroup b) = Some ?gr" unfolding parts(4) using b by simp
      from new_packet [OF parts(1) room g1 hd parts(3), of ms'] obtain q r where q:
        "maybe_new_group (bgroup b) ?p = Some q" "ring_rep q ((cs @ [?cur]) @ [r])" "cur_rec (groups q) ms' [] u2 r"
        "tied q ((cs @ [?cur]) @ [r])" "\<And>k r'. done_rec (groups ?p) k r' \<Longrightarrow> done_rec (groups q) k r'"
        "rx_queued_bytes q = rx_queued_bytes ?p" "get q = get ?p"
        "\<forall>k < length (cs @ [?cur]). rec q (ring_at ?p k) = rec ?p (ring_at ?p k)"
        by blast
      have ri: "rec q ?i = ?cur"
      proof -
        have "ring_at ?p (length cs) = ?i" by (simp add: ring_at_def set_rec_def set_group_def)
        moreover have "rec q (ring_at ?p (length cs)) = rec ?p (ring_at ?p (length cs))" using q(8) by simp
        ultimately show ?thesis by simp
      qed
      let ?q = "q\<lparr>rx_queued_bytes := (rx_queued_bytes q + int (pkt_len k)) mod 2 ^ 64\<rparr>"
      have up': "group_read_up (bgroup b) m p = Some (Some m, set_group (bgroup b) ?gr p)"
        unfolding up using False nl v by (simp add: min_absorb1)
      have "auto_fill_body (rec_group cur) ?i p = Some (True, ?q)"
        unfolding fill using q(1) by (simp add: i b(2,3,11) ms up' Let_def m(2) ri)
      moreover have "rx_ok ?q (ks @ [k]) (cs @ [?cur]) r ms' [] u2"
        unfolding rx_ok_def
      proof (intro conjI)
        show "ring_rep ?q ((cs @ [?cur]) @ [r])" using q(2) by (simp add: ring_rep_def ring_at_def)
        show "list_all2 (done_rec (groups ?q)) (ks @ [k]) (cs @ [?cur])"
          using dn q(5) by (simp add: list_all2_mono)
        show "tied ?q ((cs @ [?cur]) @ [r])" using q(4) by (simp add: tied_def)
        show sm: "sum_list (map pkt_len (ks @ [k])) + length ([] :: u8 list) + length u2 \<le> 3 * GROUP_BLKD_MAX_SIZE"
          using ok m v by (simp add: rx_ok_def)
        have "rx_queued_bytes q = int (sum_list (map pkt_len ks))" using q(6) parts(5) ok by (simp add: rx_ok_def)
        then show "rx_queued_bytes ?q = int (sum_list (map pkt_len (ks @ [k])))"
          using sm by (simp add: GROUP_BLKD_MAX_SIZE_def MAX_TOTAL_BLKD_SIZE_def mod_pos_pos_trivial)
        show "list_all good_pkt ((ks @ [k]) @ ms')" using ok ms by (simp add: rx_ok_def)
      qed (use q(3) in simp)
      moreover have "rx_text [k] @ [] @ u2 = w @ u" using wv v(2) by (simp add: rx_text_def)
      moreover have "length u2 < length u" using v m by simp
      ultimately show ?thesis using ms
        by (intro exI [of _ True] exI [of _ ?q] exI [of _ "[k]"] exI [of _ "cs @ [?cur]"] exI [of _ r] exI [of _ ms'] exI [of _ "[]"]
            exI [of _ u2]) simp
    qed
  qed
qed

end
