(* ===== verification/Blkd_Deliver.thy ===== *)
theory Blkd_Deliver
  imports Blkd_Stream
begin

text \<open>
  The events of a packet socket: whatever the cut of the text into reads, the user gets each packet
  when its last byte has come, in order, and the memory of the packets is given back.
\<close>

section \<open>The loop over the new bytes\<close>

lemma rx_text_append [simp]: "rx_text (ks @ ms) = rx_text ks @ rx_text ms"
  by (simp add: rx_text_def)

lemma rx_text_Nil [simp]: "rx_text [] = []"
  by (simp add: rx_text_def)

lemma loop_step:
  assumes "rx_ok p ks cs cur ms w u" "w @ u @ x = rx_text ms" "pool_rx_newest_record_state p = Some st"
  shows "\<exists>more p' ks' cs' cur' ms' w' u'. (case st of
       (blkd_read_head, g, i) \<Rightarrow> auto_extract_header g i p
     | (blkd_read_body, g, i) \<Rightarrow> auto_fill_body g i p
     | _ \<Rightarrow> None) = Some (more, p') \<and>
    rx_ok p' (ks @ ks') cs' cur' ms' w' u' \<and> ms = ks' @ ms' \<and> rx_text ks' @ w' @ u' = w @ u \<and>
    (if more then length u' < length u else u' = [])"
proof (cases "length w < HEADER_BLKD_SIZE")
  case True
  with newest_state [OF assms(1)] assms(3) have st: "st = (blkd_read_head, rec_group cur, ring_at p (length cs))" by simp
  from head_step [OF assms(1) True assms(2)] obtain more p' cur' w' u' where
    "auto_extract_header (rec_group cur) (ring_at p (length cs)) p = Some (more, p')"
    "rx_ok p' ks cs cur' ms w' u'" "w' @ u' = w @ u" "if more then length u' < length u else u' = []"
    by blast
  then show ?thesis unfolding st
    by (intro exI [of _ more] exI [of _ p'] exI [of _ "[]"] exI [of _ cs] exI [of _ cur'] exI [of _ ms] exI [of _ w'] exI [of _ u']) simp
next
  case False
  with newest_state [OF assms(1)] assms(3) have st: "st = (blkd_read_body, rec_group cur, ring_at p (length cs))" by simp
  from body_step [OF assms(1) False assms(2)] show ?thesis unfolding st by simp
qed

lemma blkd_rx_loop_ends:
  assumes "rx_ok p ks cs cur ms w u" "w @ u @ x = rx_text ms" "pool_rx_newest_record_state p = Some st"
  shows "\<exists>p' ks' cs' cur' ms' w'. blkd_rx_loop st p = Some p' \<and> rx_ok p' (ks @ ks') cs' cur' ms' w' [] \<and>
    ms = ks' @ ms' \<and> rx_text ks' @ w' = w @ u"
  using assms
proof (induction "length u" arbitrary: p ks cs cur ms w u st rule: less_induct)
  case less
  obtain more p1 k1 cs1 cur1 ms1 w1 u1 where s: "(case st of
       (blkd_read_head, g, i) \<Rightarrow> auto_extract_header g i p
     | (blkd_read_body, g, i) \<Rightarrow> auto_fill_body g i p
     | _ \<Rightarrow> None) = Some (more, p1)"
    "rx_ok p1 (ks @ k1) cs1 cur1 ms1 w1 u1" "ms = k1 @ ms1" "rx_text k1 @ w1 @ u1 = w @ u"
    "if more then length u1 < length u else u1 = []"
    using loop_step [OF less.prems] by blast
  obtain st1 where n: "pool_rx_newest_record_state p1 = Some st1" using newest_state [OF s(2)] by blast
  have loop: "blkd_rx_loop st p = (if more then blkd_rx_loop st1 p1 else Some p1)"
    by (subst blkd_rx_loop.simps) (simp add: s(1) n)
  from less.prems(2) s(3) s(4) [symmetric] have x: "w1 @ u1 @ x = rx_text ms1" by (metis append.assoc rx_text_append same_append_eq)
  show ?case
  proof (cases more)
    case False
    with s have "u1 = []" by simp
    with False s loop show ?thesis
      by (intro exI [of _ p1] exI [of _ k1] exI [of _ cs1] exI [of _ cur1] exI [of _ ms1] exI [of _ w1]) simp
  next
    case True
    with s(5) have "length u1 < length u" by simp
    from less.hyps [OF this s(2) x n] obtain p2 k2 cs2 cur2 ms2 w2 where
      "blkd_rx_loop st1 p1 = Some p2" "rx_ok p2 ((ks @ k1) @ k2) cs2 cur2 ms2 w2 []" "ms1 = k2 @ ms2" "rx_text k2 @ w2 = w1 @ u1"
      by blast
    with s loop True show ?thesis
      by (intro exI [of _ p2] exI [of _ "k1 @ k2"] exI [of _ cs2] exI [of _ cur2] exI [of _ ms2] exI [of _ w2]) simp
  qed
qed

section \<open>The user\<close>

lemma fifo_get_empty:
  assumes "rx_ok p [] cs cur ms w u"
  shows "blkd_rx_fifo_get p = Some (None, p)"
proof -
  from assms have cs: "cs = []" "ring_rep p [cur]" by (auto simp: rx_ok_def)
  from newest_state [OF assms] have "get_rec_state (rec p (ring_at p 0)) \<noteq> None"
    "get_rec_state (rec p (ring_at p 0)) \<noteq> Some blkd_all_done"
    using ring_newest [of p "[]" cur] cs
    by (auto simp: pool_rx_newest_record_state_def pool_rx_get_newest_rec_def kout_if_bind Let_def bind_eq_Some split: if_splits)
  then show ?thesis using cs
    by (auto simp: blkd_rx_fifo_get_def pool_rx_oldest_record_state_def ring_at_0)
qed

lemma done_rec_group: "done_rec gs k r \<Longrightarrow> rblkd r = Some b \<Longrightarrow> rec_group r = bgroup b"
  by (simp add: rec_group_def)

text \<open>The user takes a packet, sees its bytes and frees it.\<close>

lemma take_packet:
  assumes "rx_ok p (k # ks) cs cur ms w u"
  shows "\<exists>b p1 p2 cs'. blkd_rx_fifo_get p = Some (Some b, p1) \<and> rx_packet b p1 = Some (pkt_seen k) \<and>
    blkd_free b p1 = Some p2 \<and> rx_ok p2 ks cs' cur ms w u"
proof -
  from assms obtain r cs' where cs: "cs = r # cs'" "done_rec (groups p) k r" "list_all2 (done_rec (groups p)) ks cs'"
    by (auto simp: rx_ok_def list_all2_Cons1)
  from cs(2) obtain b gr where b: "rblkd r = Some b" "pkt_fields k b" "len_to_do r = pkt_len k" "len_done r = pkt_len k"
    "groups p (bgroup b) = Some gr" "header_pos b + pkt_len k \<le> len_data_done gr" "len_data_done gr \<le> length (head_data gr)"
    "take (pkt_len k) (drop (header_pos b) (head_data gr)) = pkt_bytes k"
    by (auto simp: done_rec_def)
  from assms have k: "good_pkt k" by (simp add: rx_ok_def)
  note len = pkt_len_bounds [OF k]
  from assms cs have ring: "ring_rep p (r # (cs' @ [cur]))" and tp: "tied p (r # (cs' @ [cur]))" by (simp_all add: rx_ok_def)
  have "rec p (ring_at p 0) = r" "0 < qty p" using ring_oldest [OF ring] by simp_all
  then have old: "pool_rx_oldest_record_state p = Some blkd_all_done"
    using b len by (auto simp: pool_rx_oldest_record_state_def ring_at_0 get_rec_state_def HEADER_BLKD_SIZE_def)
  from ring_get [OF ring b(1)] obtain p1 where p1: "pool_rx_get p = Some (Some b, p1)" "ring_rep p1 (cs' @ [cur])"
    "groups p1 = groups p" "next_group p1 = next_group p"
    "rx_queued_bytes p1 = (rx_queued_bytes p - int (len_to_do r)) mod 2 ^ 64"
    by blast
  have get: "blkd_rx_fifo_get p = Some (Some b, p1)" using old p1(1) by (simp add: blkd_rx_fifo_get_def)
  have pk: "rx_packet b p1 = Some (pkt_seen k)"
  proof -
    have "drop 20 (take (pkt_len k) (drop (header_pos b) (head_data gr))) = drop 20 (pkt_bytes k)" using b(8) by simp
    moreover have "drop 20 (pkt_bytes k) = pk_data k"
      using k by (simp add: pkt_bytes_def num16_bytes_def good_pkt_def)
    ultimately have d: "take (length (pk_data k)) (drop (header_pos b + 20) (head_data gr)) = pk_data k"
      by (simp add: drop_take pkt_len_def HEADER_BLKD_SIZE_def add.commute)
    with b(2,5-7) p1(3) show ?thesis
      by (simp add: rx_packet_def HEADER_BLKD_SIZE_def kout_if_bind pkt_fields_def pkt_seen_def pkt_len_def Let_def)
  qed
  let ?gs = "map rec_group (cs' @ [cur])"
  have g: "rec_group r = bgroup b" using b by (simp add: rec_group_def)
  have cnt: "count_blkd_tied gr = Suc (count_list ?gs (bgroup b))" using tp b(5) g by (simp add: tied_def)
  let ?n = "count_list ?gs (bgroup b)"
  let ?gr = "gr\<lparr>count_blkd_tied := ?n\<rparr>"
  let ?p2 = "p1\<lparr>groups := (groups p)(bgroup b := (if ?n = 0 then None else Some ?gr))\<rparr>"
  have free: "blkd_free b p1 = Some ?p2"
    using p1(3) b(5) cnt by (simp add: blkd_free_def kout_if_bind Let_def set_group_def)
  have mono: "done_rec (groups ?p2) k' r'" if "done_rec (groups p) k' r'" "r' \<in> set cs'" for k' r'
  proof (rule done_rec_mono [OF that(1)])
    fix gr0 assume r: "groups p (rec_group r') = Some gr0"
    have "?n \<noteq> 0" if "rec_group r' = bgroup b" using \<open>r' \<in> set cs'\<close> that
      by (auto simp: count_list_0_iff) (metis image_eqI)
    moreover from that(1) r have "grp_le gr0 gr0" by (auto simp: done_rec_def rec_group_def grp_le_def)
    ultimately show "\<exists>gr'. groups ?p2 (rec_group r') = Some gr' \<and> grp_le gr0 gr'"
      using r b(5) by (auto simp: grp_le_def)
  qed
  have "rx_ok ?p2 ks cs' cur ms w u"
    unfolding rx_ok_def
  proof (intro conjI)
    show "ring_rep ?p2 (cs' @ [cur])" using p1(2) by (simp add: ring_rep_def ring_at_def)
    show "list_all2 (done_rec (groups ?p2)) ks cs'"
      using cs(3) mono by (auto simp: list_all2_conv_all_nth)
    show "tied ?p2 (cs' @ [cur])"
    proof -
      have "dom (groups ?p2) = rec_group ` set (cs' @ [cur])"
        using tp g by (auto simp: tied_def count_list_0_iff split: if_splits)
      then show ?thesis using tp b(5) p1(4) g by (auto simp: tied_def split: if_splits)
    qed
    show "cur_rec (groups ?p2) ms w u cur"
    proof -
      have "cur_rec (groups p) ms w u cur" using assms by (simp add: rx_ok_def)
      moreover have "?n \<noteq> 0" if "rec_group cur = bgroup b" using that by (simp add: count_list_0_iff)
      ultimately show ?thesis using b(5) unfolding cur_rec_def rec_group_def by force
    qed
    have q: "rx_queued_bytes p = int (pkt_len k) + int (sum_list (map pkt_len ks))"
      and sm: "sum_list (map pkt_len ks) \<le> 3 * GROUP_BLKD_MAX_SIZE"
      using assms by (simp_all add: rx_ok_def)
    then show "rx_queued_bytes ?p2 = int (sum_list (map pkt_len ks))"
      using p1(5) b(3) by (simp add: GROUP_BLKD_MAX_SIZE_def MAX_TOTAL_BLKD_SIZE_def)
    show "sum_list (map pkt_len ks) + length w + length u \<le> 3 * GROUP_BLKD_MAX_SIZE"
      "list_all good_pkt (ks @ ms)"
      using assms by (simp_all add: rx_ok_def)
  qed
  with get pk free show ?thesis by blast
qed

lemma rx_ok_nil: "rx_ok p [] cs cur ms w u \<Longrightarrow> cs = []"
  by (simp add: rx_ok_def)

lemma rx_blkd_loop_drains:
  assumes "rx_ok p ks cs cur ms w u"
  shows "\<exists>p'. rx_blkd_loop (rx_use_and_free use) (p, s) = Some (p', fold use (map pkt_seen ks) s) \<and> rx_ok p' [] [] cur ms w u"
  using assms
proof (induction ks arbitrary: p cs s)
  case Nil
  then show ?case using fifo_get_empty [OF Nil] rx_ok_nil [OF Nil] by (subst rx_blkd_loop.simps) simp
next
  case (Cons k ks)
  from take_packet [OF Cons.prems] obtain b p1 p2 cs' where t: "blkd_rx_fifo_get p = Some (Some b, p1)"
    "rx_packet b p1 = Some (pkt_seen k)" "blkd_free b p1 = Some p2" "rx_ok p2 ks cs' cur ms w u"
    by blast
  have "rx_use_and_free use (Some b) (p1, s) = Some (False, p2, use (pkt_seen k) s)"
    using t(2,3) by (simp add: rx_use_and_free_def)
  then have "rx_blkd_loop (rx_use_and_free use) (p, s) = rx_blkd_loop (rx_use_and_free use) (p2, use (pkt_seen k) s)"
    using t(1) by (subst rx_blkd_loop.simps) simp
  with Cons.IH [OF t(4), of "use (pkt_seen k) s"] show ?case by simp
qed

lemma rx_blkd_sock_cb_drains:
  assumes "rx_ok p ks cs cur ms w u"
  shows "\<exists>p'. rx_blkd_sock_cb (rx_use_and_free use) (p, s) = Some (p', fold use (map pkt_seen ks) s) \<and> rx_ok p' [] [] cur ms w u"
proof -
  have "rx_blkd_sock_cb (rx_use_and_free use) (p, s) = rx_blkd_loop (rx_use_and_free use) (p, s)"
    by (simp add: rx_blkd_sock_cb_def rx_use_and_free_def)
  with rx_blkd_loop_drains [OF assms, of use s] show ?thesis by simp
qed

section \<open>Events\<close>

text \<open>The place that is left in the group: what the read asks for.\<close>

definition rx_room :: "t_blkd_fifo_rx \<Rightarrow> nat" where
  "rx_room p = (case pool_rx_newest_record_state p of
     Some (_, g, _) \<Rightarrow> (case groups p g of Some gr \<Rightarrow> GROUP_BLKD_MAX_SIZE - length (head_data gr) | None \<Rightarrow> 0)
   | None \<Rightarrow> 0)"

lemma cur_rec_short:
  assumes "cur_rec gs ms w u r" "list_all good_pkt ms"
  shows "length w < MAX_TOTAL_BLKD_SIZE"
proof (cases "length w < HEADER_BLKD_SIZE")
  case False
  with assms(1) have "ms \<noteq> []" "length w < pkt_len (hd ms)" by (auto elim!: cur_recE)
  with assms(2) pkt_len_bounds [of "hd ms"] show ?thesis by (cases ms) auto
qed (simp add: HEADER_BLKD_SIZE_def MAX_TOTAL_BLKD_SIZE_def)

lemma rx_room_pos:
  assumes "rx_ok p ks cs cur ms w []"
  shows "\<exists>gr. groups p (rec_group cur) = Some gr \<and> rx_room p = GROUP_BLKD_MAX_SIZE - length (head_data gr) \<and>
    length (head_data gr) < GROUP_BLKD_MAX_SIZE"
proof -
  from assms have c: "cur_rec (groups p) ms w [] cur" and "list_all good_pkt ms" by (simp_all add: rx_ok_def)
  then have w: "length w < MAX_TOTAL_BLKD_SIZE" by (rule cur_rec_short)
  from c obtain gr pre where "groups p (rec_group cur) = Some gr" "head_data gr = pre @ w @ []"
    "length pre + MAX_TOTAL_BLKD_SIZE \<le> GROUP_BLKD_MAX_SIZE"
    by (auto elim!: cur_recE)
  with w newest_state [OF assms] show ?thesis by (auto simp: rx_room_def)
qed

lemma ring_rep_set_group: "ring_rep (set_group g gr p) rs = ring_rep p rs"
  by (simp add: ring_rep_def set_group_def ring_at_def)

lemma rx_read:
  assumes "rx_ok p ks cs cur ms w []" "groups p (rec_group cur) = Some gr" "length (head_data gr) + length bs \<le> GROUP_BLKD_MAX_SIZE"
    "sum_list (map pkt_len ks) \<le> GROUP_BLKD_MAX_SIZE + MAX_TOTAL_BLKD_SIZE"
  shows "rx_ok (set_group (rec_group cur) (gr\<lparr>head_data := head_data gr @ bs\<rparr>) p) ks cs cur ms w bs"
proof -
  let ?gr = "gr\<lparr>head_data := head_data gr @ bs\<rparr>"
  let ?p = "set_group (rec_group cur) ?gr p"
  from assms(1) have c: "cur_rec (groups p) ms w [] cur" and ok: "list_all good_pkt ms" by (simp_all add: rx_ok_def)
  note w = cur_rec_short [OF c ok]
  from c have "cur_rec (groups ?p) ms w bs cur"
    using assms(2,3) by (elim cur_recE) (auto simp: cur_rec_def split: if_splits)
  moreover have "tied ?p (cs @ [cur])"
    by (rule tied_upd [of p _ cur]) (use assms(1,2) in \<open>auto simp: rx_ok_def set_group_def\<close>)
  moreover have "ring_rep p (cs @ [cur])" using assms(1) by (simp only: rx_ok_def)
  then have "ring_rep ?p (cs @ [cur])" by (simp only: ring_rep_set_group)
  moreover have "rx_queued_bytes ?p = rx_queued_bytes p" by (simp add: set_group_def)
  moreover have "list_all2 (done_rec (groups ?p)) ks cs"
  proof -
    have "list_all2 (done_rec (groups p)) ks cs" using assms(1) by (simp add: rx_ok_def)
    moreover have "grp_le gr ?gr"
      using c assms(2) by (elim cur_recE) (auto simp: grp_le_def rec_group_def)
    ultimately show ?thesis unfolding groups_set_group
      by (elim list_all2_mono) (rule done_rec_upd [where gs = "groups p" and g = "rec_group cur", OF assms(2)])
  qed
  ultimately show ?thesis using assms(1,3,4) w
    by (simp add: rx_ok_def GROUP_BLKD_MAX_SIZE_def MAX_TOTAL_BLKD_SIZE_def)
qed

text \<open>
  An event with any user: the bytes are cut into packets, and the user is called when there are some.
\<close>

lemma fd_event_any:
  assumes "rx_ok p ks0 cs cur ms w []" "w @ bs @ x = rx_text ms" "length bs \<le> rx_room p" "bs \<noteq> []"
    "sum_list (map pkt_len ks0) \<le> GROUP_BLKD_MAX_SIZE + MAX_TOTAL_BLKD_SIZE"
  shows "\<exists>p' ks cs' cur' ms' w'. blkd_fd_event_rx rk cb (Rd_bytes bs) (p, s) =
      (if ks0 @ ks = [] then Some (0, p', s) else map_option (Pair 0) (cb (p', s))) \<and>
    rx_ok p' (ks0 @ ks) cs' cur' ms' w' [] \<and> ms = ks @ ms' \<and> rx_text ks @ w' = w @ bs"
proof -
  from rx_room_pos [OF assms(1)] obtain gr where gr: "groups p (rec_group cur) = Some gr"
    "rx_room p = GROUP_BLKD_MAX_SIZE - length (head_data gr)" "length (head_data gr) < GROUP_BLKD_MAX_SIZE"
    by blast
  have q0: "rx_queued_bytes p = int (sum_list (map pkt_len ks0))" using assms(1) by (simp add: rx_ok_def)
  obtain st i where n: "pool_rx_newest_record_state p = Some (st, rec_group cur, i)" using newest_state [OF assms(1)] by blast
  let ?p = "set_group (rec_group cur) (gr\<lparr>head_data := head_data gr @ bs\<rparr>) p"
  have read: "group_read_sock_unix rk (Rd_bytes bs) (rec_group cur) p = Some (read_state_ok, ?p)"
    using q0 gr assms(3-5)
    by (auto simp: group_read_sock_unix_def MAX_GLOB_BLKD_QUEUED_BYTES_def GROUP_BLKD_MAX_SIZE_def
      MAX_TOTAL_BLKD_SIZE_def kout_if_bind)
  have len: "length (head_data gr) + length bs \<le> GROUP_BLKD_MAX_SIZE" using gr assms(3) by simp
  note ok = rx_read [OF assms(1) gr(1) len assms(5)]
  have "pool_rx_newest_record_state ?p = pool_rx_newest_record_state p"
    by (simp add: pool_rx_newest_record_state_def pool_rx_get_newest_rec_def set_group_def)
  with n have n1: "pool_rx_newest_record_state ?p = Some (st, rec_group cur, i)" by simp
  from blkd_rx_loop_ends [OF ok assms(2) n1] obtain p1 ks cs1 cur1 ms1 w1 where
    l: "blkd_rx_loop (st, rec_group cur, i) ?p = Some p1" "rx_ok p1 (ks0 @ ks) cs1 cur1 ms1 w1 []" "ms = ks @ ms1"
      "rx_text ks @ w1 = w @ bs"
    by blast
  have q1: "rx_queued_bytes p1 = int (sum_list (map pkt_len (ks0 @ ks)))" "list_all good_pkt (ks0 @ ks)"
    using l(2) by (simp_all add: rx_ok_def)
  have "rx_queued_bytes p1 = 0 \<longleftrightarrow> ks0 @ ks = []"
    using q1 sum_pkt_len [of "ks0 @ ks"] by (cases "ks0 @ ks") auto
  then have "blkd_fd_event_rx rk cb (Rd_bytes bs) (p, s) =
      (if ks0 @ ks = [] then Some (0, p1, s) else map_option (Pair 0) (cb (p1, s)))"
    using n read l(1) by (simp add: blkd_fd_event_rx_def)
  with l show ?thesis by blast
qed

lemma fd_event:
  assumes "rx_ok p [] [] cur ms w []" "w @ bs @ x = rx_text ms" "length bs \<le> rx_room p"
  shows "\<exists>p' ks cur' ms' w'. blkd_fd_event_rx rk (rx_blkd_sock_cb (rx_use_and_free use))
      (if bs = [] then Rd_nothing else Rd_bytes bs) (p, s) = Some (0, p', fold use (map pkt_seen ks) s) \<and>
    rx_ok p' [] [] cur' ms' w' [] \<and> ms = ks @ ms' \<and> rx_text ks @ w' = w @ bs"
proof (cases "bs = []")
  case True
  obtain st i where n: "pool_rx_newest_record_state p = Some (st, rec_group cur, i)" using newest_state [OF assms(1)] by blast
  moreover have "rx_queued_bytes p = 0" using assms(1) by (simp add: rx_ok_def)
  moreover obtain gr where "groups p (rec_group cur) = Some gr" "length (head_data gr) < GROUP_BLKD_MAX_SIZE"
    using rx_room_pos [OF assms(1)] by blast
  ultimately have "blkd_fd_event_rx rk (rx_blkd_sock_cb (rx_use_and_free use)) Rd_nothing (p, s) = Some (0, p, s)"
    by (simp add: blkd_fd_event_rx_def group_read_sock_unix_def MAX_GLOB_BLKD_QUEUED_BYTES_def kout_if_bind)
  with True assms show ?thesis
    by (intro exI [of _ p] exI [of _ "[]"] exI [of _ cur] exI [of _ ms] exI [of _ w]) simp
next
  case False
  from fd_event_any [OF assms False, of rk "rx_blkd_sock_cb (rx_use_and_free use)" s] obtain p1 ks cs1 cur1 ms1 w1 where e:
    "blkd_fd_event_rx rk (rx_blkd_sock_cb (rx_use_and_free use)) (Rd_bytes bs) (p, s) =
      (if ks = [] then Some (0, p1, s) else map_option (Pair 0) (rx_blkd_sock_cb (rx_use_and_free use) (p1, s)))"
    "rx_ok p1 ks cs1 cur1 ms1 w1 []" "ms = ks @ ms1" "rx_text ks @ w1 = w @ bs"
    by auto
  from rx_blkd_sock_cb_drains [OF e(2), of use s] obtain p2 where
    d: "rx_blkd_sock_cb (rx_use_and_free use) (p1, s) = Some (p2, fold use (map pkt_seen ks) s)" "rx_ok p2 [] [] cur1 ms1 w1 []"
    by blast
  show ?thesis
  proof (cases "ks = []")
    case True
    with e(1,2) False rx_ok_nil [of p1 cs1] e(3,4) show ?thesis
      by (intro exI [of _ p1] exI [of _ "[]"] exI [of _ cur1] exI [of _ ms1] exI [of _ w1]) auto
  next
    case ks: False
    with False e d show ?thesis
      by (intro exI [of _ p2] exI [of _ ks] exI [of _ cur1] exI [of _ ms1] exI [of _ w1]) simp
  qed
qed

text \<open>
  A run of events: each read takes what there is of the text, no more than there is place for and no
  more than \<open>n\<close> bytes.
\<close>

fun rx_events :: "(t_pkt \<Rightarrow> 's \<Rightarrow> 's) \<Rightarrow> (int \<times> int) option \<Rightarrow> nat list \<Rightarrow> u8 list \<Rightarrow> t_blkd_fifo_rx \<times> 's
    \<Rightarrow> (u8 list \<times> t_blkd_fifo_rx \<times> 's) run" where
  "rx_events use rk [] str ps = Some (str, ps)"
| "rx_events use rk (n # ns) str ps = do {
     let bs = take (min n (rx_room (fst ps))) str;
     (res, ps) \<leftarrow> blkd_fd_event_rx rk (rx_blkd_sock_cb (rx_use_and_free use)) (if bs = [] then Rd_nothing else Rd_bytes bs) ps;
     rx_events use rk ns (drop (length bs) str) ps
   }"

lemma rx_events_run:
  assumes "rx_ok p [] [] cur ms w []" "w @ str @ x = rx_text ms"
  shows "\<exists>left p' ks cur' ms' w'. rx_events use rk ns str (p, s) = Some (left, p', fold use (map pkt_seen ks) s) \<and>
    rx_ok p' [] [] cur' ms' w' [] \<and> ms = ks @ ms' \<and> w @ str = rx_text ks @ w' @ left \<and>
    (list_all (\<lambda>n. 0 < n) ns \<longrightarrow> length str \<le> length ns \<longrightarrow> left = [])"
  using assms
proof (induction ns arbitrary: p cur ms w str s)
  case Nil
  then show ?case
    by (intro exI [of _ str] exI [of _ p] exI [of _ "[]"] exI [of _ cur] exI [of _ ms] exI [of _ w]) simp
next
  case (Cons n ns)
  define bs where "bs = take (min n (rx_room p)) str"
  have len: "length bs \<le> rx_room p" by (simp add: bs_def)
  define rest where "rest = drop (length bs) str"
  have bsx: "bs @ rest = str"
    unfolding rest_def bs_def by (metis append_take_drop_id length_take min.commute min_def take_all_iff drop_all nat_le_linear)
  with Cons.prems(2) have "w @ bs @ (rest @ x) = rx_text ms" by auto
  from fd_event [OF Cons.prems(1) this len, of rk use s] obtain p1 k1 cur1 ms1 w1 where e:
    "blkd_fd_event_rx rk (rx_blkd_sock_cb (rx_use_and_free use)) (if bs = [] then Rd_nothing else Rd_bytes bs) (p, s) =
      Some (0, p1, fold use (map pkt_seen k1) s)"
    "rx_ok p1 [] [] cur1 ms1 w1 []" "ms = k1 @ ms1" "rx_text k1 @ w1 = w @ bs"
    by blast
  have "rx_text k1 @ (w1 @ rest @ x) = rx_text k1 @ rx_text ms1"
    using e(3,4) bsx Cons.prems(2) by (metis append.assoc rx_text_append)
  then have "w1 @ rest @ x = rx_text ms1" by simp
  from Cons.IH [OF e(2) this, of "fold use (map pkt_seen k1) s"] obtain left p2 k2 cur2 ms2 w2 where i:
    "rx_events use rk ns rest (p1, fold use (map pkt_seen k1) s) = Some (left, p2, fold use (map pkt_seen k2) (fold use (map pkt_seen k1) s))"
    "rx_ok p2 [] [] cur2 ms2 w2 []" "ms1 = k2 @ ms2" "w1 @ rest = rx_text k2 @ w2 @ left"
    "list_all (\<lambda>n. 0 < n) ns \<longrightarrow> length rest \<le> length ns \<longrightarrow> left = []"
    by blast
  have "rx_events use rk (n # ns) str (p, s) = Some (left, p2, fold use (map pkt_seen (k1 @ k2)) s)"
  proof -
    have "rx_events use rk (n # ns) str (p, s) =
        (blkd_fd_event_rx rk (rx_blkd_sock_cb (rx_use_and_free use)) (if bs = [] then Rd_nothing else Rd_bytes bs) (p, s) \<bind>
         (\<lambda>(res, ps). rx_events use rk ns rest ps))"
      by (simp only: rx_events.simps Let_def fst_conv bs_def rest_def)
    also have "\<dots> = rx_events use rk ns rest (p1, fold use (map pkt_seen k1) s)" by (simp only: e(1)) simp
    finally show ?thesis using i(1) by simp
  qed
  moreover have "w @ str = rx_text (k1 @ k2) @ w2 @ left"
    using e(4) i(4) bsx by (metis append.assoc rx_text_append)
  moreover have "left = []" if "list_all (\<lambda>n. 0 < n) (n # ns)" "length str \<le> length (n # ns)"
  proof (cases "str = []")
    case True
    with that i(5) bsx show ?thesis by simp
  next
    case False
    have "0 < rx_room p" using rx_room_pos [OF Cons.prems(1)] by auto
    with False that have "bs \<noteq> []" by (simp add: bs_def)
    moreover have "length str = length bs + length rest" using bsx by (metis length_append)
    ultimately have "length rest < length str" by (cases bs) auto
    with that i(5) show ?thesis by simp
  qed
  ultimately show ?case using e(3) i(2,3)
    by (intro exI [of _ left] exI [of _ p2] exI [of _ "k1 @ k2"] exI [of _ cur2] exI [of _ ms2] exI [of _ w2]) simp
qed

section \<open>The start\<close>

text \<open>\<open>alloc_llid_blkd\<close> clears the memory before the call of \<open>blkd_rx_init\<close>.\<close>

definition zero_fifo_rx :: t_blkd_fifo_rx where
  "zero_fifo_rx = \<lparr>put = 0, get = 0, qty = 0, rx_queued_bytes = 0, dist_flow_control_on = False, dist_flow_control_count = 0,
     rec = (\<lambda>_. free_rec), groups = (\<lambda>_. None), next_group = 0, flow_msgs = [], drop_rx = 0\<rparr>"

lemma init_ok:
  assumes "list_all good_pkt ms"
  shows "\<exists>p cur. blkd_rx_init zero_fifo_rx = Some p \<and> rx_ok p [] [] cur ms [] []"
proof -
  let ?b = "\<lparr>bgroup = 1, header_pos = 0, rx_payload_len = 0, rx_llid = 0, rx_type = 0, rx_val = 0, rx_usec = replicate 8 0\<rparr>"
  let ?cur = "\<lparr>len_to_do = 0, len_done = 0, rblkd = Some ?b\<rparr>"
  let ?gr = "\<lparr>count_blkd_tied = 1, len_data_done = 0, head_data = []\<rparr>"
  let ?p = "pool_rx_init zero_fifo_rx\<lparr>next_group := 2, groups := [0 \<mapsto> \<lparr>count_blkd_tied = 0, len_data_done = 0, head_data = []\<rparr>, 1 \<mapsto> ?gr]\<rparr>"
  have "ring_rep ?p []"
    using ring_list_empty [OF RX_POOL_pos, of free_rec] by (simp add: ring_rep_def pool_rx_init_def zero_fifo_rx_def)
  from ring_alloc [OF this, of ?b] obtain p where p: "pool_rx_alloc ?b ?p = Some p" "ring_rep p [?cur]"
    "groups p = groups ?p" "next_group p = 2" "rx_queued_bytes p = 0"
    by (auto simp: RX_POOL_def pool_rx_init_def zero_fifo_rx_def)
  let ?q = "p\<lparr>groups := [1 \<mapsto> ?gr]\<rparr>"
  have "ring_rep (p\<lparr>groups := gs\<rparr>) rs = ring_rep p rs" for gs rs by (simp add: ring_rep_def ring_at_def)
  with p(2) have "ring_rep ?q [?cur]" by blast
  moreover have "cur_rec (groups ?q) ms [] [] ?cur"
    using cur_rec_fresh [of "groups ?q" 1 ?gr "[]" "[]" ms] by (simp add: MAX_TOTAL_BLKD_SIZE_def GROUP_BLKD_MAX_SIZE_def)
  moreover have "tied ?q [?cur]" using p(4) by (auto simp: tied_def rec_group_def)
  ultimately have "rx_ok ?q [] [] ?cur ms [] []" using p(5) assms by (simp add: rx_ok_def)
  moreover have "blkd_rx_init zero_fifo_rx = Some ?q"
    using p(1,3)
    by (simp add: blkd_rx_init_def malloc_create_new_group_def prepare_new_group_and_blkd_def prepare_new_blkd_def tie_group_def
        malloc_create_new_blkd_def kout_if_bind Let_def set_group_def pool_rx_init_def zero_fifo_rx_def
        MAX_TOTAL_BLKD_SIZE_def GROUP_BLKD_MAX_SIZE_def numeral_2_eq_2 fun_eq_iff)
  ultimately show ?thesis by blast
qed

section \<open>Delivery\<close>

text \<open>The packets whose last byte is among the first \<open>n\<close>.\<close>

fun whole_pkts :: "t_pkt list \<Rightarrow> nat \<Rightarrow> t_pkt list" where
  "whole_pkts [] n = []"
| "whole_pkts (k # ks) n = (if pkt_len k \<le> n then k # whole_pkts ks (n - pkt_len k) else [])"

lemma whole_pkts_prefix:
  assumes "list_all good_pkt ks" "ms' = [] \<or> length w < pkt_len (hd ms')"
  shows "whole_pkts (ks @ ms') (length (rx_text ks @ w)) = ks"
  using assms(1)
proof (induction ks)
  case Nil
  then show ?case using assms(2) by (cases ms') auto
next
  case (Cons k ks)
  then show ?case using length_pkt_bytes [of k] by (simp add: rx_text_def)
qed

lemma reads_deliver:
  assumes "list_all good_pkt ms" "str @ later = rx_text ms"
  shows "\<exists>seen left p. (blkd_rx_init zero_fifo_rx \<bind> (\<lambda>p. rx_events use rk ns str (p, s))) =
      Some (left, p, fold use (map pkt_seen (whole_pkts ms (length seen))) s) \<and>
    seen @ left = str \<and> card (dom (groups p)) = 1 \<and>
    (list_all (\<lambda>n. 0 < n) ns \<and> length str \<le> length ns \<longrightarrow> left = [])"
proof -
  obtain p0 cur0 where i: "blkd_rx_init zero_fifo_rx = Some p0" "rx_ok p0 [] [] cur0 ms [] []"
    using init_ok [OF assms(1)] by blast
  have "[] @ str @ later = rx_text ms" using assms(2) by simp
  from rx_events_run [OF i(2) this, of use rk ns s, unfolded append_Nil] obtain left p ks cur ms' w where r:
    "rx_events use rk ns str (p0, s) = Some (left, p, fold use (map pkt_seen ks) s)" "rx_ok p [] [] cur ms' w []"
    "ms = ks @ ms'" "str = rx_text ks @ w @ left" "list_all (\<lambda>n. 0 < n) ns \<longrightarrow> length str \<le> length ns \<longrightarrow> left = []"
    by blast
  have "whole_pkts ms (length (rx_text ks @ w)) = ks"
    unfolding r(3)
  proof (rule whole_pkts_prefix)
    show "list_all good_pkt ks" using assms(1) r(3) by simp
    show "ms' = [] \<or> length w < pkt_len (hd ms')"
    proof (cases "ms' = [] \<or> \<not> length w < HEADER_BLKD_SIZE")
      case True
      with r(2) show ?thesis by (auto simp: rx_ok_def elim!: cur_recE)
    next
      case False
      moreover from this have "20 < pkt_len (hd ms')"
        using assms(1) r(3) pkt_len_bounds [of "hd ms'"] by (cases ms') auto
      ultimately show ?thesis by (simp add: HEADER_BLKD_SIZE_def)
    qed
  qed
  moreover have "card (dom (groups p)) = 1" using r(2) by (simp add: rx_ok_def tied_def)
  ultimately show ?thesis using i(1) r
    by (intro exI [of _ "rx_text ks @ w"] exI [of _ left] exI [of _ p]) simp
qed

definition two_pkts :: "t_pkt list" where
  "two_pkts = [\<lparr>pk_llid = 1, pk_type = 2, pk_val = 3, pk_usec = replicate 8 0, pk_data = [10, 11, 12]\<rparr>,
     \<lparr>pk_llid = 4, pk_type = 5, pk_val = 65536, pk_usec = replicate 8 1, pk_data = [13]\<rparr>]"

text \<open>C32: The packets of a socket. The other side writes good packets (1 to 1524 bytes of data) whose
  text starts with \<open>str\<close>, and the socket is read by any number of events, each of which finds any
  number of bytes. Then no event fails, and the user has had exactly the packets whose last byte
  has been read, in order, with the numbers of the header modulo 65536; the only memory left is the
  group of the packet that is being read. If each event finds at least one byte and there are as
  many events as bytes, all of the text is read.\<close>

theorem packets_delivered:
  assumes "list_all good_pkt ms" "str @ later = rx_text ms"
  shows "\<exists>seen left p. (blkd_rx_init zero_fifo_rx \<bind> (\<lambda>p. rx_events use rk ns str (p, s))) =
      Some (left, p, fold use (map pkt_seen (whole_pkts ms (length seen))) s) \<and>
    seen @ left = str \<and> card (dom (groups p)) = 1 \<and>
    (list_all (\<lambda>n. 0 < n) ns \<and> length str \<le> length ns \<longrightarrow> left = [])"
  using assms by (rule reads_deliver)

theorem packets_delivered_witness:
  "\<exists>p. (blkd_rx_init zero_fifo_rx \<bind> (\<lambda>p. rx_events (\<lambda>k ks. ks @ [k]) None (replicate 44 1) (rx_text two_pkts) (p, []))) =
    Some ([], p, map pkt_seen two_pkts)"
proof -
  have ok: "list_all good_pkt two_pkts" by (simp add: two_pkts_def good_pkt_def PAYLOAD_BLKD_SIZE_def)
  have "length (rx_text two_pkts) = 44" by (simp add: two_pkts_def rx_text_def pkt_bytes_def num16_bytes_def)
  moreover from this have "whole_pkts two_pkts (length (rx_text two_pkts)) = two_pkts"
    by (simp add: two_pkts_def pkt_len_def HEADER_BLKD_SIZE_def)
  moreover have "fold (\<lambda>k ks. ks @ [k]) xs ys = ys @ xs" for xs ys :: "t_pkt list" by (induction xs arbitrary: ys) auto
  ultimately show ?thesis
    using packets_delivered [OF ok, of "rx_text two_pkts" "[]" "\<lambda>k ks. ks @ [k]" None "replicate 44 1" "[]"]
    by (auto simp: list_all_iff)
qed

end
