(* ===== verification/Blkd_Fanout.thy ===== *)
theory Blkd_Fanout
  imports Blkd_Tx Blkd_Deliver "HOL-Library.Sublist"
begin

text \<open>
  The packets that wait on several channels: what is queued, what is sent, and who holds the memory.
\<close>

section \<open>Packets and their text\<close>

definition pkt_of :: "t_blkd \<Rightarrow> t_pkt" where
  "pkt_of d = \<lparr>pk_llid = nat (blkd_llid d mod 65536), pk_type = nat (blkd_type d mod 65536), pk_val = nat (blkd_val d mod 65536),
     pk_usec = usec_bytes (blkd_usec d), pk_data = payload_blkd d\<rparr>"

definition full_header :: "t_blkd \<Rightarrow> u8 list" where
  "full_header d = tx_header (payload_len d + header_blkd_len d) d"

definition blkd_ok :: "t_blkd \<Rightarrow> bool" where
  "blkd_ok d \<longleftrightarrow> qemu_group_rank d = 0 \<and> header_blkd_len d = int HEADER_BLKD_SIZE \<and> payload_len d = int (length (payload_blkd d)) \<and>
     payload_blkd d \<noteq> [] \<and> payload_len d \<le> PAYLOAD_BLKD_SIZE"

lemma int16_bytes_eq: "int16_bytes x = num16_bytes (nat (x mod 65536))"
proof -
  have "nat (x mod 65536) div 256 = nat (x mod 65536 div 256)" by (simp add: nat_div_distrib)
  moreover have "x mod 65536 div 256 = x div 256 mod 256"
    using zmod_zmult2_eq [of 256 x 256] by (simp add: ac_simps)
  moreover have "word_of_int (x div 256) = (word_of_int (x div 256 mod 256) :: u8)" "word_of_int x = (word_of_int (x mod 65536) :: u8)"
    by (simp_all add: word_of_int_eq_iff take_bit_eq_mod mod_mod_cancel)
  ultimately show ?thesis by (simp add: int16_bytes_def num16_bytes_def)
qed

lemma length_usec_bytes [simp]: "length (usec_bytes x) = 8"
  by (simp add: usec_bytes_def)

lemma length_full_header [simp]: "length (full_header d) = 20"
  by (simp add: full_header_def tx_header_def int16_bytes_def)

lemma blkd_pkt:
  assumes "blkd_ok d"
  shows "good_pkt (pkt_of d)" "tx_bytes d = int (pkt_len (pkt_of d))" "pkt_bytes (pkt_of d) = full_header d @ payload_blkd d"
proof -
  show g: "good_pkt (pkt_of d)" using assms by (simp add: good_pkt_def pkt_of_def blkd_ok_def)
  show t: "tx_bytes d = int (pkt_len (pkt_of d))"
    using assms by (simp add: tx_bytes_def pkt_len_def pkt_of_def blkd_ok_def)
  have "pkt_len (pkt_of d) < 65536" using pkt_len_bounds [OF g] by (simp add: MAX_TOTAL_BLKD_SIZE_def)
  then have "tx_bytes d mod 65536 = tx_bytes d" unfolding t by (intro mod_pos_pos_trivial) auto
  then have l: "nat ((payload_len d + header_blkd_len d) mod 65536) = pkt_len (pkt_of d)"
    using t by (simp add: tx_bytes_def add.commute)
  have sel: "pk_llid (pkt_of d) = nat (blkd_llid d mod 65536)" "pk_type (pkt_of d) = nat (blkd_type d mod 65536)"
    "pk_val (pkt_of d) = nat (blkd_val d mod 65536)" "pk_usec (pkt_of d) = usec_bytes (blkd_usec d)"
    "pk_data (pkt_of d) = payload_blkd d"
    by (simp_all add: pkt_of_def)
  show "pkt_bytes (pkt_of d) = full_header d @ payload_blkd d"
    by (simp only: pkt_bytes_def full_header_def tx_header_def int16_bytes_eq l sel append.assoc)
qed

section \<open>Queues\<close>

definition fifo_recs :: "t_blkd_fifo_tx \<Rightarrow> t_tx_rec list" where
  "fifo_recs f = map (\<lambda>k. tx_rec f (ridx TX_POOL (tx_get f) k)) [0..<tx_qty f]"

definition rec_ids :: "t_blkd_fifo_tx \<Rightarrow> nat list" where
  "rec_ids f = map (\<lambda>r. the (tblkd r)) (fifo_recs f)"

definition fifo_ok :: "t_blkd_fifo_tx \<Rightarrow> bool" where
  "fifo_ok f \<longleftrightarrow> ring_list TX_POOL free_tx_rec (tx_get f) (tx_put f) (tx_qty f) (tx_rec f) (fifo_recs f)"

lemma TX_POOL_pos [simp]: "0 < TX_POOL"
  by (simp add: TX_POOL_def)

lemma fifo_okI:
  assumes "ring_list TX_POOL free_tx_rec (tx_get f) (tx_put f) (tx_qty f) (tx_rec f) rs"
  shows "fifo_ok f" "fifo_recs f = rs"
proof -
  show "fifo_recs f = rs"
    by (rule nth_equalityI) (use assms in \<open>auto simp: fifo_recs_def ring_list_def\<close>)
  with assms show "fifo_ok f" by (simp add: fifo_ok_def)
qed

lemma length_fifo_recs [simp]: "length (fifo_recs f) = tx_qty f"
  by (simp add: fifo_recs_def)

text \<open>The first record.\<close>

lemma fifo_first:
  assumes "fifo_ok f" "fifo_recs f = r # rs"
  shows "tx_rec f (next_tx (tx_get f)) = r" "0 < tx_qty f"
  using ring_list_get [of TX_POOL free_tx_rec "tx_get f" "tx_put f" "tx_qty f" "tx_rec f" r rs] assms
  by (simp_all add: fifo_ok_def next_tx_def)

lemma fifo_set_first:
  assumes "fifo_ok f" "fifo_recs f = r # rs"
  shows "fifo_ok (f\<lparr>tx_rec := (tx_rec f)(next_tx (tx_get f) := r')\<rparr>)"
    "fifo_recs (f\<lparr>tx_rec := (tx_rec f)(next_tx (tx_get f) := r')\<rparr>) = r' # rs"
proof -
  have l: "ring_list TX_POOL free_tx_rec (tx_get f) (tx_put f) (tx_qty f) (tx_rec f) (r # rs)" using assms by (simp add: fifo_ok_def)
  from ring_list_update [OF l, of 0 r'] have "ring_list TX_POOL free_tx_rec (tx_get f) (tx_put f) (tx_qty f)
      ((tx_rec f)(next_tx (tx_get f) := r')) (r' # rs)"
    by (simp add: next_tx_def ridx_def)
  then show "fifo_ok (f\<lparr>tx_rec := (tx_rec f)(next_tx (tx_get f) := r')\<rparr>)"
    "fifo_recs (f\<lparr>tx_rec := (tx_rec f)(next_tx (tx_get f) := r')\<rparr>) = r' # rs"
    by (intro fifo_okI; simp)+
qed

lemma fifo_drop_first:
  assumes "fifo_ok f" "fifo_recs f = r # rs"
    "f' = f\<lparr>tx_get := next_tx (tx_get f), tx_queued_bytes := n, tx_rec := (tx_rec f)(next_tx (tx_get f) := free_tx_rec), tx_qty := tx_qty f - 1\<rparr>"
  shows "fifo_ok f'" "fifo_recs f' = rs" "tx_rec f' (next_tx (tx_get f)) = free_tx_rec"
proof -
  have l: "ring_list TX_POOL free_tx_rec (tx_get f) (tx_put f) (tx_qty f) (tx_rec f) (r # rs)" using assms by (simp add: fifo_ok_def)
  have "ring_list TX_POOL free_tx_rec (tx_get f') (tx_put f') (tx_qty f') (tx_rec f') rs"
    using ring_list_get(3) [OF l] assms(3) by (simp add: next_tx_def)
  then show "fifo_ok f'" "fifo_recs f' = rs" by (rule fifo_okI)+
  show "tx_rec f' (next_tx (tx_get f)) = free_tx_rec" using assms(3) by simp
qed

lemma fifo_append:
  assumes "fifo_ok f" "tx_put f \<noteq> tx_get f"
    "tx_rec f' = (tx_rec f)(tx_put f := r)" "tx_put f' = next_tx (tx_put f)" "tx_qty f' = tx_qty f + 1" "tx_get f' = tx_get f"
  shows "fifo_ok f'" "fifo_recs f' = fifo_recs f @ [r]"
proof -
  have l: "ring_list TX_POOL free_tx_rec (tx_get f) (tx_put f) (tx_qty f) (tx_rec f) (fifo_recs f)" using assms by (simp add: fifo_ok_def)
  from ring_list_full [OF l] assms(2) have "length (fifo_recs f) + 1 \<noteq> TX_POOL" by simp
  moreover from l have "length (fifo_recs f) < TX_POOL" by (simp add: ring_list_def)
  ultimately have lt: "length (fifo_recs f) + 1 < TX_POOL" by linarith
  have "ring_list TX_POOL free_tx_rec (tx_get f') (tx_put f') (tx_qty f') (tx_rec f') (fifo_recs f @ [r])"
    using ring_list_put(2) [OF l lt] assms(3-) by (simp add: next_tx_def)
  then show "fifo_ok f'" "fifo_recs f' = fifo_recs f @ [r]" by (rule fifo_okI)+
qed

lemma fifo_free_place:
  assumes "fifo_ok f" "tx_put f \<noteq> tx_get f"
  shows "tx_rec f (tx_put f) = free_tx_rec"
proof -
  have l: "ring_list TX_POOL free_tx_rec (tx_get f) (tx_put f) (tx_qty f) (tx_rec f) (fifo_recs f)" using assms by (simp add: fifo_ok_def)
  from ring_list_full [OF l] assms(2) have "length (fifo_recs f) + 1 \<noteq> TX_POOL" by simp
  moreover from l have "length (fifo_recs f) < TX_POOL" by (simp add: ring_list_def)
  ultimately have "length (fifo_recs f) + 1 < TX_POOL" by linarith
  then show ?thesis by (rule ring_list_put(1) [OF l])
qed

section \<open>The invariant\<close>

definition rec_ok :: "t_tx \<Rightarrow> t_tx_rec \<Rightarrow> bool" where
  "rec_ok s r \<longleftrightarrow> (\<exists>b d. tblkd r = Some b \<and> blkds s b = Some d \<and> blkd_ok d \<and> header_blkd d = full_header d \<and> to_do r = tx_bytes d)"

definition rec_pkt :: "t_tx \<Rightarrow> t_tx_rec \<Rightarrow> t_pkt" where
  "rec_pkt s r = pkt_of (the (blkds s (the (tblkd r))))"

definition queued :: "t_tx \<Rightarrow> t_blkd_fifo_tx \<Rightarrow> t_pkt list" where
  "queued s f = map (rec_pkt s) (fifo_recs f)"

definition pkts_len :: "t_pkt list \<Rightarrow> nat" where
  "pkts_len ks = sum_list (map pkt_len ks)"

definition queue_ok :: "t_tx \<Rightarrow> t_blkd_fifo_tx \<Rightarrow> bool" where
  "queue_ok s f \<longleftrightarrow> fifo_ok f \<and> list_all (rec_ok s) (fifo_recs f) \<and> tx_queued_bytes f = int (pkts_len (queued s f)) \<and>
     tx_queued_bytes f < 2 ^ 24"

definition data_len :: "t_pkt list \<Rightarrow> int" where
  "data_len ks = sum_list (map (\<lambda>k. int (length (pk_data k))) ks)"

text \<open>
  \<open>ks\<close> are the packets put on the channel: those that are taken are in the text, sent or not, and the
  others are counted as dropped.
\<close>

definition text_ok :: "t_pkt list \<Rightarrow> int \<Rightarrow> u8 list \<Rightarrow> t_tx_rec list \<Rightarrow> t_pkt list \<Rightarrow> bool" where
  "text_ok ks drops out rs qs \<longleftrightarrow> (\<exists>old. subseq (old @ qs) ks \<and> list_all good_pkt (old @ qs) \<and>
     drops = data_len ks - data_len (old @ qs) \<and> (pkts_len ks \<le> 655340 \<longrightarrow> old @ qs = ks) \<and>
     out = rx_text old @ (case rs of [] \<Rightarrow> [] | r # _ \<Rightarrow> take (nat (dn r)) (pkt_bytes (hd qs))) \<and>
     (case rs of [] \<Rightarrow> True | r # rs \<Rightarrow> 0 \<le> dn r \<and> dn r < to_do r \<and> list_all (\<lambda>r. dn r = 0) rs))"

definition occ :: "t_tx \<Rightarrow> nat \<Rightarrow> nat" where
  "occ s b = (\<Sum>c\<in>dom (fifos s). count_list (rec_ids (the (fifos s c))) b)"

text \<open>\<open>held b\<close> is 1 while \<open>blkd_put_tx\<close> holds \<open>b\<close>.\<close>

definition heap_ok :: "(nat \<Rightarrow> nat) \<Rightarrow> t_tx \<Rightarrow> bool" where
  "heap_ok held s \<longleftrightarrow> finite (dom (fifos s)) \<and> dom (tgroups s) = dom (blkds s) \<and>
     (\<forall>b d. blkds s b = Some d \<longrightarrow> b < next_blkd s \<and> blkd_ok d \<and> blkd_group d = Some b \<and>
       (\<exists>gr. tgroups s b = Some gr \<and> tx_tied gr = 1) \<and> count_reference d = of_nat (occ s b + held b) \<and>
       0 < occ s b + held b \<and> occ s b + held b < 2 ^ 32)"

lemma heap_okD:
  "heap_ok held s \<Longrightarrow> blkds s b = Some d \<Longrightarrow> b < next_blkd s \<and> blkd_ok d \<and> blkd_group d = Some b \<and>
    (\<exists>gr. tgroups s b = Some gr \<and> tx_tied gr = 1) \<and> count_reference d = of_nat (occ s b + held b) \<and>
    0 < occ s b + held b \<and> occ s b + held b < 2 ^ 32"
  by (simp add: heap_ok_def)

text \<open>The channels of \<open>X\<close> are on their way to be closed: their text does not matter.\<close>

definition tx_inv :: "(nat \<Rightarrow> nat) \<Rightarrow> int set \<Rightarrow> t_tx \<Rightarrow> (int \<Rightarrow> t_pkt list) \<Rightarrow> bool" where
  "tx_inv held X s P \<longleftrightarrow> heap_ok held s \<and> (\<forall>c f. fifos s c = Some f \<longrightarrow> queue_ok s f \<and>
     (c \<in> X \<or> text_ok (P c) (drop_tx s c) (sent s c) (fifo_recs f) (queued s f)))"

text \<open>Objects may change in what the queues do not see.\<close>

definition same_pkt :: "t_blkd \<Rightarrow> t_blkd \<Rightarrow> bool" where
  "same_pkt d d' \<longleftrightarrow> d' = d\<lparr>count_reference := count_reference d', header_blkd := header_blkd d'\<rparr> \<and>
     (header_blkd d = full_header d \<longrightarrow> header_blkd d' = full_header d')"

lemma same_pkt_fields:
  assumes "same_pkt d d'"
  shows "pkt_of d' = pkt_of d" "blkd_ok d' = blkd_ok d" "tx_bytes d' = tx_bytes d" "full_header d' = full_header d"
    "blkd_group d' = blkd_group d" "payload_len d' = payload_len d"
proof -
  from assms obtain n h where d: "d' = d\<lparr>count_reference := n, header_blkd := h\<rparr>" unfolding same_pkt_def by blast
  show "pkt_of d' = pkt_of d" "blkd_ok d' = blkd_ok d" "tx_bytes d' = tx_bytes d" "full_header d' = full_header d"
    "blkd_group d' = blkd_group d" "payload_len d' = payload_len d"
    unfolding d by (simp_all add: pkt_of_def blkd_ok_def tx_bytes_def full_header_def tx_header_def)
qed

lemma same_pkt_refl [simp]: "same_pkt d d"
  by (simp add: same_pkt_def)

lemma same_pkt_trans:
  assumes "same_pkt d d1" "same_pkt d1 d'"
  shows "same_pkt d d'"
proof -
  from assms obtain n h n' h' where d: "d1 = d\<lparr>count_reference := n, header_blkd := h\<rparr>"
    "d' = d1\<lparr>count_reference := n', header_blkd := h'\<rparr>"
    unfolding same_pkt_def by blast
  then have "d' = d\<lparr>count_reference := n', header_blkd := h'\<rparr>" by simp
  moreover have "header_blkd d = full_header d \<longrightarrow> header_blkd d' = full_header d'" using assms by (simp add: same_pkt_def)
  ultimately show ?thesis unfolding same_pkt_def by simp
qed

lemma rec_ok_same:
  assumes "rec_ok s r" "\<And>d. blkds s (the (tblkd r)) = Some d \<Longrightarrow> \<exists>d'. blkds s' (the (tblkd r)) = Some d' \<and> same_pkt d d'"
  shows "rec_ok s' r" "rec_pkt s' r = rec_pkt s r"
proof -
  from assms(1) obtain b d where d: "tblkd r = Some b" "blkds s b = Some d" "blkd_ok d" "header_blkd d = full_header d"
    "to_do r = tx_bytes d"
    by (auto simp: rec_ok_def)
  with assms(2) obtain d' where d': "blkds s' b = Some d'" "same_pkt d d'" by auto
  note f = same_pkt_fields [OF d'(2)]
  from d' d(4) have "header_blkd d' = full_header d'" by (simp add: same_pkt_def)
  with d d' f show "rec_ok s' r" by (auto simp: rec_ok_def)
  show "rec_pkt s' r = rec_pkt s r" using d d' f by (simp add: rec_pkt_def)
qed

lemma queue_ok_same:
  assumes "queue_ok s f" "\<And>b d. b \<in> set (rec_ids f) \<Longrightarrow> blkds s b = Some d \<Longrightarrow> \<exists>d'. blkds s' b = Some d' \<and> same_pkt d d'"
  shows "queue_ok s' f" "queued s' f = queued s f"
proof -
  have r: "rec_ok s' r \<and> rec_pkt s' r = rec_pkt s r" if "r \<in> set (fifo_recs f)" for r
  proof -
    from assms(1) that have ok: "rec_ok s r" by (auto simp: queue_ok_def list_all_iff)
    have "the (tblkd r) \<in> set (rec_ids f)" using that by (auto simp: rec_ids_def)
    with assms(2) rec_ok_same [OF ok] show ?thesis by blast
  qed
  then show q: "queued s' f = queued s f" by (simp add: queued_def)
  with r assms(1) show "queue_ok s' f" by (auto simp: queue_ok_def list_all_iff)
qed

section \<open>Counting\<close>

lemma occ_pos:
  assumes "finite (dom (fifos s))" "fifos s c = Some f" "b \<in> set (rec_ids f)"
  shows "0 < occ s b"
proof -
  have "count_list (rec_ids f) b \<noteq> 0" using assms(3) by (simp add: count_list_0_iff)
  moreover have "count_list (rec_ids (the (fifos s c))) b \<le> occ s b"
    unfolding occ_def by (rule member_le_sum) (use assms in auto)
  ultimately show ?thesis using assms(2) by simp
qed

lemma occ_set_fifo:
  assumes "finite (dom (fifos s))" "fifos s c = Some f" "fifos s' = (fifos s)(c \<mapsto> f')"
  shows "occ s' b + count_list (rec_ids f) b = occ s b + count_list (rec_ids f') b"
proof -
  let ?D = "dom (fifos s) - {c}"
  have c: "c \<in> dom (fifos s)" "dom (fifos s') = dom (fifos s)" using assms(2,3) by auto
  have "occ s b = count_list (rec_ids f) b + (\<Sum>x\<in>?D. count_list (rec_ids (the (fifos s x))) b)"
    unfolding occ_def using assms(2) by (subst sum.remove [OF assms(1) c(1)]) simp
  moreover have "occ s' b = count_list (rec_ids f') b + (\<Sum>x\<in>?D. count_list (rec_ids (the (fifos s x))) b)"
    unfolding occ_def c(2) using assms(3) by (subst sum.remove [OF assms(1) c(1)]) simp
  ultimately show ?thesis by simp
qed

lemma occ_cong: "fifos s' = fifos s \<Longrightarrow> occ s' b = occ s b"
  by (simp add: occ_def)

section \<open>Putting a packet on a channel\<close>

lemma pkts_len_append [simp]: "pkts_len (xs @ ys) = pkts_len xs + pkts_len ys" "pkts_len [k] = pkt_len k" "pkts_len [] = 0"
  by (simp_all add: pkts_len_def)

lemma data_len_append [simp]: "data_len (xs @ ys) = data_len xs + data_len ys" "data_len [k] = int (length (pk_data k))" "data_len [] = 0"
  by (simp_all add: data_len_def)

lemma limit_eq: "3 * MAX_GLOB_BLKD_QUEUED_BYTES div 4 = 4632000"
  by (simp add: MAX_GLOB_BLKD_QUEUED_BYTES_def GROUP_BLKD_MAX_SIZE_def MAX_TOTAL_BLKD_SIZE_def)

lemma alloc_accept:
  assumes "fifos s c = Some f" "fifo_ok f" "blkds s b = Some d" "blkd_ok d" "tx_queued_bytes f \<le> 4632000" "tx_put f \<noteq> tx_get f"
    "f' = f\<lparr>tx_queued_bytes := (tx_queued_bytes f + tx_bytes d) mod 2 ^ 64, tx_put := next_tx (tx_put f), tx_qty := tx_qty f + 1,
       tx_rec := (tx_rec f)(tx_put f := \<lparr>to_do = tx_bytes d, dn = 0, tblkd = Some b\<rparr>)\<rparr>"
  shows "\<exists>s'. blkd_tx_fifo_alloc c b s = Some (0, s') \<and> fifos s' = (fifos s)(c \<mapsto> f') \<and>
    blkds s' = (blkds s)(b \<mapsto> d\<lparr>count_reference := count_reference d + 1, header_blkd := full_header d\<rparr>) \<and>
    tgroups s' = tgroups s \<and> next_blkd s' = next_blkd s \<and> sent s' = sent s \<and> drop_tx s' = drop_tx s"
proof -
  have "tx_rec f (tx_put f) = free_tx_rec" by (rule fifo_free_place [OF assms(2,6)])
  with assms show ?thesis
    by (simp add: blkd_tx_fifo_alloc_def limit_eq pool_tx_alloc_def kout_if_bind blkd_header_tx_setup_def Let_def set_fifo_def
        set_blkd_def free_tx_rec_def blkd_ok_def tx_bytes_def full_header_def tx_header_def HEADER_BLKD_SIZE_def add.commute)
qed

lemma alloc_refuse:
  assumes "fifos s c = Some f" "\<not> (tx_queued_bytes f \<le> 4632000 \<and> tx_put f \<noteq> tx_get f)"
  shows "\<exists>s'. blkd_tx_fifo_alloc c b s = Some (-1, s') \<and> fifos s' = fifos s \<and> blkds s' = blkds s \<and>
    tgroups s' = tgroups s \<and> next_blkd s' = next_blkd s \<and> sent s' = sent s \<and> drop_tx s' = drop_tx s"
  using assms by (auto simp: blkd_tx_fifo_alloc_def limit_eq Let_def)

lemma text_ok_take:
  assumes "text_ok ks drops out rs qs" "good_pkt k" "to_do r = int (pkt_len k)" "dn r = 0"
    "length rs = length qs"
  shows "text_ok (ks @ [k]) drops out (rs @ [r]) (qs @ [k])"
proof -
  from assms(1) obtain old where o: "subseq (old @ qs) ks" "list_all good_pkt (old @ qs)" "drops = data_len ks - data_len (old @ qs)"
    "pkts_len ks \<le> 655340 \<longrightarrow> old @ qs = ks"
    "out = rx_text old @ (case rs of [] \<Rightarrow> [] | r # _ \<Rightarrow> take (nat (dn r)) (pkt_bytes (hd qs)))"
    "case rs of [] \<Rightarrow> True | r # rs \<Rightarrow> 0 \<le> dn r \<and> dn r < to_do r \<and> list_all (\<lambda>r. dn r = 0) rs"
    by (auto simp: text_ok_def)
  have "subseq ((old @ qs) @ [k]) (ks @ [k])" using o(1) by (simp only: subseq_append)
  moreover have "0 < pkt_len k" using pkt_len_bounds [OF assms(2)] by simp
  moreover have "hd (qs @ [k]) = hd qs" if "rs = r0 # rs0" for r0 rs0 using that assms(5) by (cases qs) auto
  ultimately show ?thesis unfolding text_ok_def
    using o assms by (intro exI [of _ old]) (cases rs; simp)
qed

lemma text_ok_drop:
  assumes "text_ok ks drops out rs qs" "\<not> pkts_len (ks @ [k]) \<le> 655340"
  shows "text_ok (ks @ [k]) (drops + int (length (pk_data k))) out rs qs"
proof -
  from assms(1) obtain old where o: "subseq (old @ qs) ks" "list_all good_pkt (old @ qs)" "drops = data_len ks - data_len (old @ qs)"
    "out = rx_text old @ (case rs of [] \<Rightarrow> [] | r # _ \<Rightarrow> take (nat (dn r)) (pkt_bytes (hd qs)))"
    "case rs of [] \<Rightarrow> True | r # rs \<Rightarrow> 0 \<le> dn r \<and> dn r < to_do r \<and> list_all (\<lambda>r. dn r = 0) rs"
    unfolding text_ok_def by blast
  have "subseq (old @ qs) (ks @ [k])" using o(1) by (rule subseq_rev_drop_many)
  with o assms(2) show ?thesis unfolding text_ok_def by (intro exI [of _ old]) simp
qed

text \<open>Few packets are not dropped.\<close>

lemma room_for_few:
  assumes "text_ok ks drops out (fifo_recs f) (queued s f)" "queue_ok s f" "pkts_len (ks @ [k]) \<le> 655340" "good_pkt k"
  shows "tx_queued_bytes f \<le> 4632000 \<and> tx_put f \<noteq> tx_get f"
proof -
  from assms(1,3) obtain old where o: "old @ queued s f = ks" "list_all good_pkt (queued s f)" by (auto simp: text_ok_def)
  have ring: "ring_list TX_POOL free_tx_rec (tx_get f) (tx_put f) (tx_qty f) (tx_rec f) (fifo_recs f)"
    using assms(2) by (simp add: queue_ok_def fifo_ok_def)
  have le: "pkts_len (queued s f) + pkt_len k \<le> 655340" using o(1) assms(3) by auto
  have "20 * tx_qty f \<le> pkts_len (queued s f)" using sum_pkt_len [OF o(2)] by (simp add: pkts_len_def queued_def)
  moreover have "20 < pkt_len k" using pkt_len_bounds [OF assms(4)] by simp
  ultimately have "tx_qty f + 1 < TX_POOL" using le unfolding TX_POOL_def by linarith
  with ring_list_full [OF ring] have "tx_put f \<noteq> tx_get f" by simp
  moreover have "tx_queued_bytes f \<le> 4632000" using assms(2) le by (simp add: queue_ok_def)
  ultimately show ?thesis by simp
qed

lemma heap_ok_cong:
  "heap_ok held s \<Longrightarrow> fifos s' = fifos s \<Longrightarrow> blkds s' = blkds s \<Longrightarrow> tgroups s' = tgroups s \<Longrightarrow> next_blkd s' = next_blkd s \<Longrightarrow>
    heap_ok held s'"
  by (simp add: heap_ok_def occ_def)

lemma queue_ok_cong:
  assumes "blkds s' = blkds s"
  shows "queue_ok s' f = queue_ok s f" "queued s' f = queued s f"
proof -
  have "rec_ok s' = rec_ok s" "rec_pkt s' = rec_pkt s"
    using assms by (auto simp: fun_eq_iff rec_ok_def rec_pkt_def)
  then show "queue_ok s' f = queue_ok s f" "queued s' f = queued s f" by (simp_all add: queue_ok_def queued_def)
qed

lemma count_list_append_one: "count_list (xs @ [y]) x = count_list xs x + (if x = y then 1 else 0)"
  by (induction xs) auto

lemma put_accepted:
  assumes "tx_inv held {} s P" "fifos s c = Some f" "blkds s b = Some d" "occ s b + held b + 1 < 2 ^ 32"
    "tx_queued_bytes f \<le> 4632000" "tx_put f \<noteq> tx_get f"
  shows "\<exists>s' d'. blkd_tx_fifo_alloc c b s = Some (0, s') \<and> tx_inv held {} s' (P(c := P c @ [pkt_of d])) \<and>
    dom (fifos s') = dom (fifos s) \<and> blkds s' b = Some d' \<and> same_pkt d d' \<and> occ s' b \<le> occ s b + 1"
proof -
  from assms(1,2) have h: "heap_ok held s" and q: "queue_ok s f"
    and t: "text_ok (P c) (drop_tx s c) (sent s c) (fifo_recs f) (queued s f)"
    by (auto simp: tx_inv_def)
  from h assms(3) have d: "blkd_ok d" "b < next_blkd s" "blkd_group d = Some b" "\<exists>gr. tgroups s b = Some gr \<and> tx_tied gr = 1"
    "count_reference d = of_nat (occ s b + held b)"
    and fin: "finite (dom (fifos s))"
    by (auto simp: heap_ok_def)
  from q have fo: "fifo_ok f" by (simp add: queue_ok_def)
  note pk = blkd_pkt [OF d(1)]
  let ?r = "\<lparr>to_do = tx_bytes d, dn = 0, tblkd = Some b\<rparr>"
  let ?f = "f\<lparr>tx_queued_bytes := (tx_queued_bytes f + tx_bytes d) mod 2 ^ 64, tx_put := next_tx (tx_put f), tx_qty := tx_qty f + 1,
       tx_rec := (tx_rec f)(tx_put f := ?r)\<rparr>"
  obtain f' where f': "f' = ?f" by blast
  then have f'_sel: "tx_rec f' = (tx_rec f)(tx_put f := ?r)" "tx_put f' = next_tx (tx_put f)" "tx_qty f' = tx_qty f + 1"
    "tx_get f' = tx_get f" "tx_queued_bytes f' = (tx_queued_bytes f + tx_bytes d) mod 2 ^ 64"
    by simp_all
  let ?d = "d\<lparr>count_reference := count_reference d + 1, header_blkd := full_header d\<rparr>"
  from alloc_accept [OF assms(2) fo assms(3) d(1) assms(5,6) f'] obtain s' where s': "blkd_tx_fifo_alloc c b s = Some (0, s')"
    "fifos s' = (fifos s)(c \<mapsto> f')" "blkds s' = (blkds s)(b \<mapsto> ?d)" "tgroups s' = tgroups s" "next_blkd s' = next_blkd s"
    "sent s' = sent s" "drop_tx s' = drop_tx s"
    by blast
  have app: "fifo_ok f'" "fifo_recs f' = fifo_recs f @ [?r]"
    using fifo_append [OF fo assms(6) f'_sel(1-4)] by simp_all
  have ids: "rec_ids f' = rec_ids f @ [b]" unfolding rec_ids_def app(2) by simp
  have sd: "same_pkt d ?d" by (simp add: same_pkt_def full_header_def tx_header_def)
  note sf = same_pkt_fields [OF sd]
  have same: "\<exists>d'. blkds s' x = Some d' \<and> same_pkt dx d'" if "blkds s x = Some dx" for x dx
    using that s'(3) sd assms(3) by (cases "x = b") auto
  note qs = queue_ok_same [of s _ s', OF _ same]
  have oc: "occ s' x = occ s x + (if x = b then 1 else 0)" for x
    using occ_set_fifo [OF fin assms(2) s'(2), of x] unfolding ids count_list_append_one by auto
  have "heap_ok held s'"
    unfolding heap_ok_def
  proof (intro conjI allI impI)
    show "finite (dom (fifos s'))" using fin s'(2) by simp
    show "dom (tgroups s') = dom (blkds s')" using h s'(3,4) assms(3) by (auto simp: heap_ok_def)
    fix x dx assume x: "blkds s' x = Some dx"
    show "x < next_blkd s'" "blkd_ok dx" "blkd_group dx = Some x" "\<exists>gr. tgroups s' x = Some gr \<and> tx_tied gr = 1"
      "count_reference dx = of_nat (occ s' x + held x)" "0 < occ s' x + held x" "occ s' x + held x < 2 ^ 32"
      using x h s'(3-5) d sf assms(4) by (auto simp: heap_ok_def oc split: if_splits)
  qed
  moreover have "queue_ok s' f'" "text_ok (P c @ [pkt_of d]) (drop_tx s' c) (sent s' c) (fifo_recs f') (queued s' f')"
  proof -
    have qf: "queue_ok s' f" "queued s' f = queued s f" using qs [OF q] by blast+
    have r: "rec_ok s' ?r" "rec_pkt s' ?r = pkt_of d"
      using s'(3) d(1) sf by (auto simp: rec_ok_def rec_pkt_def)
    have qq: "queued s' f' = queued s f @ [pkt_of d]" using qf(2) r(2) by (simp add: queued_def app(2))
    have "tx_bytes d \<le> 1544" "0 \<le> tx_bytes d" using pk(1,2) pkt_len_bounds [of "pkt_of d"] by (simp_all add: MAX_TOTAL_BLKD_SIZE_def)
    moreover have "0 \<le> tx_queued_bytes f" using q by (simp add: queue_ok_def)
    ultimately have "(tx_queued_bytes f + tx_bytes d) mod 2 ^ 64 = tx_queued_bytes f + tx_bytes d" "tx_queued_bytes f + tx_bytes d < 2 ^ 24"
      using assms(5) by (simp_all add: mod_pos_pos_trivial)
    then show "queue_ok s' f'"
      using q qf r qq app pk(2) by (simp add: queue_ok_def f'_sel(5))
    show "text_ok (P c @ [pkt_of d]) (drop_tx s' c) (sent s' c) (fifo_recs f') (queued s' f')"
      unfolding qq app(2) s'(6,7) using t pk by (intro text_ok_take) (auto simp: queued_def)
  qed
  moreover have "queue_ok s' g \<and> text_ok (P c') (drop_tx s' c') (sent s' c') (fifo_recs g) (queued s' g)"
    if "fifos s c' = Some g" for c' g
  proof -
    from assms(1) that have "queue_ok s g" "text_ok (P c') (drop_tx s c') (sent s c') (fifo_recs g) (queued s g)"
      by (auto simp: tx_inv_def)
    with qs [of g] s'(6,7) show ?thesis by simp
  qed
  ultimately have "tx_inv held {} s' (P(c := P c @ [pkt_of d]))"
    using s'(2) by (simp add: tx_inv_def)
  then show ?thesis using s' sd oc [of b] assms(2) by auto
qed

lemma put_refused:
  assumes "tx_inv held {} s P" "fifos s c = Some f" "blkds s b = Some d"
    "\<not> (tx_queued_bytes f \<le> 4632000 \<and> tx_put f \<noteq> tx_get f)"
  shows "\<exists>s'. blkd_tx_fifo_alloc c b s = Some (-1, s') \<and> blkds s' b = Some d \<and> fifos s' = fifos s \<and>
    tx_inv held {} (s'\<lparr>drop_tx := (drop_tx s')(c := drop_tx s' c + payload_len d)\<rparr>) (P(c := P c @ [pkt_of d]))"
proof -
  from alloc_refuse [OF assms(2,4)] obtain s' where s': "blkd_tx_fifo_alloc c b s = Some (-1, s')" "fifos s' = fifos s"
    "blkds s' = blkds s" "tgroups s' = tgroups s" "next_blkd s' = next_blkd s" "sent s' = sent s" "drop_tx s' = drop_tx s"
    by blast
  let ?s = "s'\<lparr>drop_tx := (drop_tx s')(c := drop_tx s' c + payload_len d)\<rparr>"
  from assms(1,2) have h: "heap_ok held s" and q: "queue_ok s f"
    and t: "text_ok (P c) (drop_tx s c) (sent s c) (fifo_recs f) (queued s f)"
    by (auto simp: tx_inv_def)
  from h assms(3) have d: "blkd_ok d" by (auto simp: heap_ok_def)
  have h': "heap_ok held ?s" by (rule heap_ok_cong [OF h]) (use s' in simp_all)
  have big: "\<not> pkts_len (P c @ [pkt_of d]) \<le> 655340"
    using room_for_few [OF t q _ blkd_pkt(1) [OF d]] assms(4) by blast
  have "payload_len d = int (length (pk_data (pkt_of d)))" using d by (simp add: blkd_ok_def pkt_of_def)
  with text_ok_drop [OF t big] have t': "text_ok (P c @ [pkt_of d]) (drop_tx s c + payload_len d) (sent s c) (fifo_recs f) (queued s f)"
    by simp
  define s2 where "s2 = ?s"
  have s2: "blkds s2 = blkds s" "fifos s2 = fifos s" "sent s2 = sent s" "drop_tx s2 = (drop_tx s)(c := drop_tx s c + payload_len d)"
    using s' by (simp_all add: s2_def)
  have "tx_inv held {} s2 (P(c := P c @ [pkt_of d]))"
    unfolding tx_inv_def s2 queue_ok_cong [OF s2(1)] using h' [folded s2_def] assms(1,2) t'
    by (auto simp: tx_inv_def)
  then have "tx_inv held {} ?s (P(c := P c @ [pkt_of d]))" by (simp only: s2_def)
  with s' assms(3) show ?thesis by auto
qed

lemma put_loop_ok:
  assumes "tx_inv held {} s P" "blkds s b = Some d" "occ s b + held b + length cs < 2 ^ 32"
  shows "\<exists>s' d'. put_loop cs b s = Some s' \<and> tx_inv held {} s' (\<lambda>c. P c @ replicate (count_list cs c) (pkt_of d)) \<and>
    dom (fifos s') = dom (fifos s) \<and> blkds s' b = Some d' \<and> same_pkt d d'"
  using assms
proof (induction cs arbitrary: s P d)
  case Nil
  then show ?case by auto
next
  case (Cons c cs)
  have P: "(\<lambda>x. P x @ replicate (count_list (c # cs) x) k) = (\<lambda>x. (P(c := P c @ [k])) x @ replicate (count_list cs x) k)" for k
    by (auto simp: fun_eq_iff)
  show ?case
  proof (cases "fifos s c")
    case None
    then have "tx_inv held {} s (P(c := P c @ [pkt_of d]))" using Cons.prems(1) by (auto simp: tx_inv_def)
    from Cons.IH [OF this Cons.prems(2)] Cons.prems(3) None show ?thesis unfolding P by simp
  next
    case (Some f)
    show ?thesis
    proof (cases "tx_queued_bytes f \<le> 4632000 \<and> tx_put f \<noteq> tx_get f")
      case True
      from Cons.prems(3) have "occ s b + held b + 1 < 2 ^ 32" by simp
      from put_accepted [OF Cons.prems(1) Some Cons.prems(2) this] True obtain s1 d1 where s1:
        "blkd_tx_fifo_alloc c b s = Some (0, s1)" "tx_inv held {} s1 (P(c := P c @ [pkt_of d]))" "dom (fifos s1) = dom (fifos s)"
        "blkds s1 b = Some d1" "same_pkt d d1" "occ s1 b \<le> occ s b + 1"
        by blast
      have "occ s1 b + held b + length cs < 2 ^ 32" using s1(6) Cons.prems(3) by simp
      from Cons.IH [OF s1(2,4) this] obtain s' d' where i: "put_loop cs b s1 = Some s'"
        "tx_inv held {} s' (\<lambda>x. (P(c := P c @ [pkt_of d])) x @ replicate (count_list cs x) (pkt_of d1))"
        "dom (fifos s') = dom (fifos s1)" "blkds s' b = Some d'" "same_pkt d1 d'"
        by blast
      have "same_pkt d d'" by (rule same_pkt_trans [OF s1(5) i(5)])
      with i s1 Some same_pkt_fields(1) [OF s1(5)] show ?thesis unfolding P by auto
    next
      case False
      from put_refused [OF Cons.prems(1) Some Cons.prems(2) False] obtain s1 where s1:
        "blkd_tx_fifo_alloc c b s = Some (-1, s1)" "blkds s1 b = Some d" "fifos s1 = fifos s"
        "tx_inv held {} (s1\<lparr>drop_tx := (drop_tx s1)(c := drop_tx s1 c + payload_len d)\<rparr>) (P(c := P c @ [pkt_of d]))"
        by blast
      let ?s = "s1\<lparr>drop_tx := (drop_tx s1)(c := drop_tx s1 c + payload_len d)\<rparr>"
      have "occ ?s b = occ s b" using s1(3) by (simp add: occ_def)
      then have "occ ?s b + held b + length cs < 2 ^ 32" using Cons.prems(3) by simp
      from Cons.IH [OF s1(4) _ this] s1 Some show ?thesis unfolding P by simp
    qed
  qed
qed

section \<open>Giving a packet back\<close>

abbreviation hold :: "nat \<Rightarrow> nat \<Rightarrow> nat" where
  "hold b \<equiv> (\<lambda>x. if x = b then 1 else 0)"

definition release :: "nat \<Rightarrow> t_tx \<Rightarrow> t_tx run" where
  "release b s = do {
     d \<leftarrow> blkds s b;
     let d = d\<lparr>count_reference := count_reference d - 1\<rparr>;
     let s = set_blkd b d s;
     if count_reference d = 0 then blkd_free_tx b s else Some s
   }"

lemma tx_inv_blkds:
  assumes "tx_inv held X s P" "heap_ok held' s'" "fifos s' = fifos s" "sent s' = sent s" "drop_tx s' = drop_tx s"
    "\<And>c f b d. fifos s c = Some f \<Longrightarrow> b \<in> set (rec_ids f) \<Longrightarrow> blkds s b = Some d \<Longrightarrow> \<exists>d'. blkds s' b = Some d' \<and> same_pkt d d'"
  shows "tx_inv held' X s' P" "\<And>c f. fifos s c = Some f \<Longrightarrow> queued s' f = queued s f"
proof -
  have q: "queue_ok s' f \<and> queued s' f = queued s f" if "fifos s c = Some f" for c f
  proof -
    have "queue_ok s f" using assms(1) that by (simp add: tx_inv_def)
    from queue_ok_same [OF this, of s'] show ?thesis using assms(6) [OF that] by blast
  qed
  then show "\<And>c f. fifos s c = Some f \<Longrightarrow> queued s' f = queued s f" by blast
  show "tx_inv held' X s' P" using assms(1-5) q by (simp add: tx_inv_def)
qed

lemma release_ok:
  assumes "tx_inv (hold b) X s P" "blkds s b = Some d"
  shows "\<exists>s'. release b s = Some s' \<and> tx_inv (\<lambda>_. 0) X s' P \<and> fifos s' = fifos s \<and> sent s' = sent s \<and> drop_tx s' = drop_tx s \<and>
    (\<forall>c f. fifos s c = Some f \<longrightarrow> queued s' f = queued s f)"
proof -
  from assms(1) have h: "heap_ok (hold b) s" by (simp add: tx_inv_def)
  with assms(2) have d: "blkd_ok d" "b < next_blkd s" "blkd_group d = Some b"
    "count_reference d = of_nat (occ s b + hold b b)" "occ s b + hold b b < 2 ^ 32" and fin: "finite (dom (fifos s))"
    unfolding heap_ok_def by blast+
  from h assms(2) obtain gr where gr: "tgroups s b = Some gr" "tx_tied gr = 1" unfolding heap_ok_def by blast
  let ?d = "d\<lparr>count_reference := count_reference d - 1\<rparr>"
  have cnt: "count_reference d - 1 = of_nat (occ s b)" using d(4) by simp
  have z: "count_reference d - 1 = 0 \<longleftrightarrow> occ s b = 0"
  proof -
    have "unat (of_nat (occ s b) :: u32) = occ s b" using d(5) by (simp add: unat_of_nat)
    then show ?thesis unfolding cnt unat_eq_zero [symmetric] by simp
  qed
  have sd: "same_pkt d ?d" by (simp add: same_pkt_def full_header_def tx_header_def)
  note sf = same_pkt_fields [OF sd]
  show ?thesis
  proof (cases "occ s b = 0")
    case True
    let ?s = "(set_blkd b ?d s)\<lparr>tgroups := (tgroups s)(b := None), blkds := (blkds s)(b := None)\<rparr>"
    have rel: "release b s = Some ?s"
      using assms(2) z True d(3) gr by (simp add: release_def blkd_free_tx_def set_blkd_def Let_def)
    have oc: "occ ?s = occ s" by (simp add: fun_eq_iff occ_def set_blkd_def)
    have h': "heap_ok (\<lambda>_. 0) ?s"
      unfolding heap_ok_def oc using h by (auto simp: heap_ok_def set_blkd_def split: if_splits)
    have "\<exists>d'. blkds ?s b' = Some d' \<and> same_pkt dx d'"
      if "fifos s c = Some f" "b' \<in> set (rec_ids f)" "blkds s b' = Some dx" for c f b' dx
    proof -
      have "b' \<noteq> b" using occ_pos [OF fin that(1,2)] True by auto
      with that(3) show ?thesis by simp
    qed
    note same = this
    have fs: "fifos ?s = fifos s" "sent ?s = sent s" "drop_tx ?s = drop_tx s" by (simp_all add: set_blkd_def)
    have i: "tx_inv (\<lambda>_. 0) X ?s P" by (rule tx_inv_blkds(1) [OF assms(1) h' fs]) (rule same)
    have qd: "queued ?s f = queued s f" if "fifos s c = Some f" for c f
      by (rule tx_inv_blkds(2) [OF assms(1) h' fs _ that]) (rule same)
    show ?thesis using rel i fs qd by blast
  next
    case False
    let ?s = "set_blkd b ?d s"
    have rel: "release b s = Some ?s"
      using assms(2) z False by (simp add: release_def set_blkd_def Let_def)
    have oc: "occ ?s = occ s" by (simp add: fun_eq_iff occ_def set_blkd_def)
    have h': "heap_ok (\<lambda>_. 0) ?s"
      unfolding heap_ok_def oc
    proof (intro conjI allI impI)
      show "finite (dom (fifos ?s))" using fin by (simp add: set_blkd_def)
      show "dom (tgroups ?s) = dom (blkds ?s)" using h assms(2) by (auto simp: heap_ok_def set_blkd_def)
      fix x dx assume x: "blkds ?s x = Some dx"
      have ns: "next_blkd ?s = next_blkd s" "tgroups ?s = tgroups s" by (simp_all add: set_blkd_def)
      have all: "x < next_blkd s \<and> blkd_ok dx \<and> blkd_group dx = Some x \<and> (\<exists>gr. tgroups s x = Some gr \<and> tx_tied gr = 1) \<and>
          count_reference dx = of_nat (occ s x) \<and> 0 < occ s x \<and> occ s x < 2 ^ 32"
      proof (cases "x = b")
        case True
        with x have "dx = ?d" by (simp add: set_blkd_def)
        moreover have "blkd_ok ?d" "blkd_group ?d = Some b" using sf(2,5) d by simp_all
        ultimately show ?thesis using True d(2,5) gr cnt False by simp
      next
        case nb: False
        with x have "blkds s x = Some dx" by (simp add: set_blkd_def)
        from heap_okD [OF h this] nb show ?thesis by simp
      qed
      show "x < next_blkd ?s" "blkd_ok dx" "blkd_group dx = Some x" "\<exists>gr. tgroups ?s x = Some gr \<and> tx_tied gr = 1"
        "count_reference dx = of_nat (occ s x + 0)" "0 < occ s x + 0" "occ s x + 0 < 2 ^ 32"
        using all unfolding ns by simp_all
    qed
    have "\<exists>d'. blkds ?s b' = Some d' \<and> same_pkt dx d'"
      if "fifos s c = Some f" "b' \<in> set (rec_ids f)" "blkds s b' = Some dx" for c f b' dx
      using that sd assms(2) by (cases "b' = b") (auto simp: set_blkd_def)
    note same = this
    have fs: "fifos ?s = fifos s" "sent ?s = sent s" "drop_tx ?s = drop_tx s" by (simp_all add: set_blkd_def)
    have i: "tx_inv (\<lambda>_. 0) X ?s P" by (rule tx_inv_blkds(1) [OF assms(1) h' fs]) (rule same)
    have qd: "queued ?s f = queued s f" if "fifos s c = Some f" for c f
      by (rule tx_inv_blkds(2) [OF assms(1) h' fs _ that]) (rule same)
    show ?thesis using rel i fs qd by blast
  qed
qed

text \<open>The first record leaves the queue of a channel; its packet is then held by nobody else than the caller.\<close>

lemma queue_drop_first:
  assumes "tx_inv (\<lambda>_. 0) X s P" "c \<in> X" "fifos s c = Some f" "fifo_recs f = r # rs"
  shows "\<exists>b d f'. tblkd r = Some b \<and> blkds s b = Some d \<and> f' = f\<lparr>tx_get := next_tx (tx_get f),
      tx_queued_bytes := (tx_queued_bytes f - tx_bytes d) mod 2 ^ 64,
      tx_rec := (tx_rec f)(next_tx (tx_get f) := free_tx_rec), tx_qty := tx_qty f - 1\<rparr> \<and>
    tx_inv (hold b) X (set_fifo c f' s) P \<and> fifo_recs f' = rs \<and> queued s f' = tl (queued s f) \<and>
    tx_rec f' (next_tx (tx_get f)) = free_tx_rec"
proof -
  from assms(1,3) have h: "heap_ok (\<lambda>_. 0) s" and q: "queue_ok s f" by (auto simp: tx_inv_def)
  from q assms(4) have fo: "fifo_ok f" and rok: "rec_ok s r" "list_all (rec_ok s) rs" by (auto simp: queue_ok_def)
  from rok(1) obtain b d where b: "tblkd r = Some b" "blkds s b = Some d" "to_do r = tx_bytes d" "blkd_ok d"
    by (auto simp: rec_ok_def)
  obtain f' where f': "f' = f\<lparr>tx_get := next_tx (tx_get f), tx_queued_bytes := (tx_queued_bytes f - tx_bytes d) mod 2 ^ 64,
      tx_rec := (tx_rec f)(next_tx (tx_get f) := free_tx_rec), tx_qty := tx_qty f - 1\<rparr>"
    by blast
  note dr = fifo_drop_first [OF fo assms(4) f']
  have qs: "queued s f' = tl (queued s f)" "queued s f = pkt_of d # queued s f'"
    using b by (simp_all add: queued_def dr(2) assms(4) rec_pkt_def)
  have qb: "tx_queued_bytes f' = (tx_queued_bytes f - tx_bytes d) mod 2 ^ 64" using f' by simp
  have q': "queue_ok s f'"
  proof -
    have e: "tx_queued_bytes f = int (pkts_len (queued s f)) \<and> tx_queued_bytes f < 2 ^ 24" using q by (simp add: queue_ok_def)
    then have "tx_queued_bytes f - tx_bytes d = int (pkts_len (queued s f'))"
      using blkd_pkt(2) [OF b(4)] by (simp add: qs(2) pkts_len_def)
    moreover from this have "int (pkts_len (queued s f')) < 2 ^ 24"
      using e blkd_pkt(2) [OF b(4)] by simp
    ultimately show ?thesis using dr rok(2) qb by (simp add: queue_ok_def mod_pos_pos_trivial)
  qed
  have ids: "rec_ids f = b # rec_ids f'" using b by (simp add: rec_ids_def dr(2) assms(4))
  let ?s = "set_fifo c f' s"
  have fs: "fifos ?s = (fifos s)(c \<mapsto> f')" "blkds ?s = blkds s" "tgroups ?s = tgroups s" "next_blkd ?s = next_blkd s"
    "sent ?s = sent s" "drop_tx ?s = drop_tx s"
    by (simp_all add: set_fifo_def)
  have fin: "finite (dom (fifos s))" using h by (simp add: heap_ok_def)
  have oc: "occ ?s x + hold b x = occ s x" for x
    using occ_set_fifo [OF fin assms(3) fs(1), of x] unfolding ids by auto
  have "heap_ok (hold b) ?s" unfolding heap_ok_def oc fs using h by (auto simp: heap_ok_def)
  then have "tx_inv (hold b) X ?s P"
    using assms(1,2) q' by (auto simp: tx_inv_def fs queue_ok_cong [OF fs(2)])
  with b f' dr qs show ?thesis by blast
qed

lemma free_sent_ok:
  assumes "tx_inv (\<lambda>_. 0) X s P" "c \<in> X" "fifos s c = Some f" "fifo_recs f = r # rs"
  shows "\<exists>s' f'. free_sent c s = Some s' \<and> tx_inv (\<lambda>_. 0) X s' P \<and> fifos s' = (fifos s)(c \<mapsto> f') \<and> fifo_recs f' = rs \<and>
    queued s' f' = tl (queued s f) \<and> sent s' = sent s \<and> drop_tx s' = drop_tx s \<and> tx_rec f' (next_tx (tx_get f)) = free_tx_rec \<and>
    (\<forall>c' f. c' \<noteq> c \<longrightarrow> fifos s c' = Some f \<longrightarrow> queued s' f = queued s f)"
proof -
  from queue_drop_first [OF assms] obtain b d f' where q: "tblkd r = Some b" "blkds s b = Some d"
    "f' = f\<lparr>tx_get := next_tx (tx_get f), tx_queued_bytes := (tx_queued_bytes f - tx_bytes d) mod 2 ^ 64,
      tx_rec := (tx_rec f)(next_tx (tx_get f) := free_tx_rec), tx_qty := tx_qty f - 1\<rparr>"
    "tx_inv (hold b) X (set_fifo c f' s) P" "fifo_recs f' = rs" "queued s f' = tl (queued s f)"
    "tx_rec f' (next_tx (tx_get f)) = free_tx_rec"
    by blast
  let ?s = "set_fifo c f' s"
  have fs: "fifos ?s = (fifos s)(c \<mapsto> f')" "blkds ?s = blkds s" "sent ?s = sent s" "drop_tx ?s = drop_tx s"
    by (simp_all add: set_fifo_def)
  have "blkds ?s b = Some d" using q(2) fs by simp
  from release_ok [OF q(4) this] obtain s' where s': "release b ?s = Some s'" "tx_inv (\<lambda>_. 0) X s' P" "fifos s' = fifos ?s"
    "sent s' = sent ?s" "drop_tx s' = drop_tx ?s" "\<forall>c f. fifos ?s c = Some f \<longrightarrow> queued s' f = queued ?s f"
    by blast
  from assms(1,3) have fo: "fifo_ok f" by (auto simp: tx_inv_def queue_ok_def)
  note ff = fifo_first [OF fo assms(4)]
  have "free_sent c s = release b ?s"
    using assms(3) ff q(1,2) by (simp add: free_sent_def pool_tx_free_def release_def q(3) Let_def set_fifo_def set_blkd_def)
  have old: "queued s' g = queued s g" if "((fifos s)(c \<mapsto> f')) c' = Some g" for c' g
    using s'(6) that unfolding fs(1) queue_ok_cong(2) [OF fs(2)] by blast
  have "queued s' f' = tl (queued s f)" using old [of c f'] q(6) by simp
  moreover have "\<forall>c' f. c' \<noteq> c \<longrightarrow> fifos s c' = Some f \<longrightarrow> queued s' f = queued s f"
  proof (intro allI impI)
    fix c' g assume "c' \<noteq> c" "fifos s c' = Some g"
    then show "queued s' g = queued s g" using old [of c' g] by simp
  qed
  ultimately show ?thesis using \<open>free_sent c s = release b ?s\<close> s'(1-5) fs q(5,7)
    by (intro exI [of _ s'] exI [of _ f']) simp
qed

end
