(* ===== verification/Blkd_Send.thy ===== *)
theory Blkd_Send
  imports Blkd_Fanout
begin

text \<open>
  The events of the sending side, and the whole way of a packet: from a process that puts packets on
  its channels to the processes that read them.
\<close>

section \<open>Sending\<close>

text \<open>A packet as the processes send it: \<open>blkd_create_tx_full_copy\<close> leaves the three numbers at 0.\<close>

definition tx_pkt :: "u8 list \<Rightarrow> int \<Rightarrow> t_pkt" where
  "tx_pkt buf usec = \<lparr>pk_llid = 0, pk_type = 0, pk_val = 0, pk_usec = usec_bytes usec, pk_data = buf\<rparr>"

definition send_packet :: "int list \<Rightarrow> u8 list \<Rightarrow> int \<Rightarrow> t_tx \<Rightarrow> t_tx run" where
  "send_packet llids buf usec s = do {
     (b, s) \<leftarrow> blkd_create_tx_full_copy (int (length buf)) buf 0 0 0 usec s;
     blkd_put_tx llids b s
   }"

lemma occ_fresh:
  assumes "tx_inv held X s P" "blkds s b = None"
  shows "occ s b = 0"
  unfolding occ_def
proof (rule sum.neutral, rule ballI)
  fix c assume "c \<in> dom (fifos s)"
  then obtain f where f: "fifos s c = Some f" by blast
  with assms(1) have "list_all (rec_ok s) (fifo_recs f)" by (auto simp: tx_inv_def queue_ok_def)
  with assms(2) have "b \<notin> set (rec_ids f)" by (auto simp: list_all_iff rec_ids_def rec_ok_def)
  with f show "count_list (rec_ids (the (fifos s c))) b = 0" by (simp add: count_list_0_iff)
qed

text \<open>A new object that is put on channels.\<close>

definition with_blkd :: "t_blkd \<Rightarrow> t_tx \<Rightarrow> t_tx" where
  "with_blkd d s = (let b = next_blkd s in
     s\<lparr>next_blkd := b + 1, tgroups := (tgroups s)(b \<mapsto> \<lparr>tx_tied = 1, qemu_total_payload_len = 0\<rparr>),
       blkds := (blkds s)(b \<mapsto> d\<lparr>count_reference := 0, blkd_group := Some b\<rparr>)\<rparr>)"

lemma put_fresh_ok:
  assumes "tx_inv (\<lambda>_. 0) {} s P" "blkd_ok d" "header_blkd d = []" "length llids < 2 ^ 31"
  shows "\<exists>s'. blkd_put_tx llids (next_blkd s) (with_blkd d s) = Some s' \<and> dom (fifos s') = dom (fifos s) \<and>
    tx_inv (\<lambda>_. 0) {} s' (\<lambda>c. P c @ replicate (count_list llids c) (pkt_of d))"
proof -
  let ?b = "next_blkd s"
  let ?d = "d\<lparr>count_reference := 0, blkd_group := Some ?b\<rparr>"
  let ?s1 = "with_blkd d s"
  let ?d2 = "?d\<lparr>count_reference := 1\<rparr>"
  let ?s2 = "set_blkd ?b ?d2 ?s1"
  from assms(1) have h: "heap_ok (\<lambda>_. 0) s" by (simp add: tx_inv_def)
  have fresh: "blkds s ?b = None" using heap_okD [OF h, of ?b] by (cases "blkds s ?b") auto
  note oc = occ_fresh [OF assms(1) fresh]
  have d: "blkd_ok ?d2" "pkt_of ?d2 = pkt_of d" using assms(2) by (simp_all add: blkd_ok_def pkt_of_def)
  have fs: "fifos ?s2 = fifos s" "sent ?s2 = sent s" "drop_tx ?s2 = drop_tx s" "blkds ?s2 = (blkds s)(?b \<mapsto> ?d2)"
    "tgroups ?s2 = (tgroups s)(?b \<mapsto> \<lparr>tx_tied = 1, qemu_total_payload_len = 0\<rparr>)" "next_blkd ?s2 = ?b + 1"
    by (simp_all add: set_blkd_def with_blkd_def Let_def)
  have oc2: "occ ?s2 = occ s" unfolding fun_eq_iff occ_def fs by simp
  have h2: "heap_ok (hold ?b) ?s2"
    unfolding heap_ok_def oc2 fs
  proof (intro conjI allI impI)
    show "finite (dom (fifos s))" "dom ((tgroups s)(?b \<mapsto> \<lparr>tx_tied = 1, qemu_total_payload_len = 0\<rparr>)) = dom ((blkds s)(?b \<mapsto> ?d2))"
      using h by (simp_all add: heap_ok_def)
    fix x dx assume x: "((blkds s)(?b \<mapsto> ?d2)) x = Some dx"
    have "x < ?b + 1 \<and> blkd_ok dx \<and> blkd_group dx = Some x \<and>
      (\<exists>gr. ((tgroups s)(?b \<mapsto> \<lparr>tx_tied = 1, qemu_total_payload_len = 0\<rparr>)) x = Some gr \<and> tx_tied gr = 1) \<and>
      count_reference dx = of_nat (occ s x + hold ?b x) \<and> 0 < occ s x + hold ?b x \<and> occ s x + hold ?b x < 2 ^ 32"
    proof (cases "x = ?b")
      case True
      with x d oc show ?thesis by auto
    next
      case False
      with x have "blkds s x = Some dx" by simp
      from heap_okD [OF h this] False show ?thesis by auto
    qed
    then show "x < ?b + 1" "blkd_ok dx" "blkd_group dx = Some x"
      "\<exists>gr. ((tgroups s)(?b \<mapsto> \<lparr>tx_tied = 1, qemu_total_payload_len = 0\<rparr>)) x = Some gr \<and> tx_tied gr = 1"
      "count_reference dx = of_nat (occ s x + hold ?b x)" "0 < occ s x + hold ?b x" "occ s x + hold ?b x < 2 ^ 32"
      by simp_all
  qed
  have same: "\<exists>d'. blkds ?s2 b' = Some d' \<and> same_pkt dx d'" if "blkds s b' = Some dx" for b' dx
    using that fresh unfolding fs by (cases "b' = ?b") auto
  have inv: "tx_inv (hold ?b) {} ?s2 P" by (rule tx_inv_blkds(1) [OF assms(1) h2 fs(1-3)]) (rule same)
  have "occ ?s2 ?b + hold ?b ?b + length llids < 2 ^ 32" using oc oc2 assms(4) by simp
  from put_loop_ok [OF inv _ this, of ?d2] obtain s3 d3 where p: "put_loop llids ?b ?s2 = Some s3"
    "tx_inv (hold ?b) {} s3 (\<lambda>c. P c @ replicate (count_list llids c) (pkt_of d))" "dom (fifos s3) = dom (fifos s)"
    "blkds s3 ?b = Some d3"
    unfolding d(2) by (auto simp: set_blkd_def with_blkd_def Let_def)
  from release_ok [OF p(2,4)] obtain s' where r: "release ?b s3 = Some s'"
    "tx_inv (\<lambda>_. 0) {} s' (\<lambda>c. P c @ replicate (count_list llids c) (pkt_of d))" "fifos s' = fifos s3"
    by blast
  have "blkds ?s1 ?b = Some ?d" by (simp add: with_blkd_def Let_def)
  moreover have "payload_len ?d \<le> PAYLOAD_BLKD_SIZE" "0 < payload_len ?d" using assms(2) by (auto simp: blkd_ok_def)
  ultimately have "blkd_put_tx llids ?b ?s1 = (put_loop llids ?b ?s2 \<bind> release ?b)"
    by (simp add: blkd_put_tx_def release_def [abs_def] kout_if_bind Let_def)
  with p r show ?thesis by auto
qed

lemma send_ok:
  assumes "tx_inv (\<lambda>_. 0) {} s P" "buf \<noteq> []" "int (length buf) \<le> PAYLOAD_BLKD_SIZE" "length llids < 2 ^ 31"
  shows "\<exists>s'. send_packet llids buf usec s = Some s' \<and> dom (fifos s') = dom (fifos s) \<and>
    tx_inv (\<lambda>_. 0) {} s' (\<lambda>c. P c @ replicate (count_list llids c) (tx_pkt buf usec))"
proof -
  let ?d = "\<lparr>count_reference = 0, blkd_group = None, qemu_group_rank = 0, blkd_llid = 0, blkd_type = 0, blkd_val = 0,
    blkd_usec = usec, header_blkd_len = int HEADER_BLKD_SIZE, payload_len = int (length buf), header_blkd = [], payload_blkd = buf\<rparr>"
  have cr: "blkd_create_tx_full_copy (int (length buf)) buf 0 0 0 usec s = Some (next_blkd s, with_blkd ?d s)"
    using assms(2,3) by (simp add: blkd_create_tx_full_copy_def with_blkd_def kout_if_bind Let_def)
  have d: "blkd_ok ?d" "pkt_of ?d = tx_pkt buf usec"
    using assms(2,3) by (simp_all add: blkd_ok_def pkt_of_def tx_pkt_def)
  from put_fresh_ok [OF assms(1) d(1) _ assms(4)] show ?thesis by (simp add: send_packet_def cr d(2))
qed

section \<open>Writing\<close>

text \<open>How many of the \<open>left\<close> bytes of a packet an answer of \<open>write\<close> takes.\<close>

fun taken :: "t_wr \<Rightarrow> nat \<Rightarrow> nat" where
  "taken (Wr n) left = min n left"
| "taken _ left = 0"

definition moved :: "int \<Rightarrow> t_blkd_fifo_tx \<Rightarrow> t_tx_rec \<Rightarrow> u8 list \<Rightarrow> t_tx \<Rightarrow> t_tx" where
  "moved c f r bs s = set_fifo c (f\<lparr>tx_rec := (tx_rec f)(next_tx (tx_get f) := r\<lparr>dn := dn r + int (length bs)\<rparr>)\<rparr>)
     (s\<lparr>sent := (sent s)(c := sent s c @ bs)\<rparr>)"

lemma moved_sel:
  "fifos (moved c f r bs s) = (fifos s)(c \<mapsto> f\<lparr>tx_rec := (tx_rec f)(next_tx (tx_get f) := r\<lparr>dn := dn r + int (length bs)\<rparr>)\<rparr>)"
  "blkds (moved c f r bs s) = blkds s" "tgroups (moved c f r bs s) = tgroups s" "next_blkd (moved c f r bs s) = next_blkd s"
  "drop_tx (moved c f r bs s) = drop_tx s" "sent (moved c f r bs s) = (sent s)(c := sent s c @ bs)"
  by (simp_all add: moved_def set_fifo_def)

lemma first_rec:
  assumes "tx_inv held X s P" "fifos s c = Some f" "fifo_recs f = r # rs"
  shows "\<exists>b d. tblkd r = Some b \<and> blkds s b = Some d \<and> blkd_ok d \<and> header_blkd d = full_header d \<and> to_do r = tx_bytes d \<and>
    queued s f = pkt_of d # map (rec_pkt s) rs \<and> tx_rec f (next_tx (tx_get f)) = r"
proof -
  from assms have q: "queue_ok s f" by (auto simp: tx_inv_def)
  with assms(3) have "rec_ok s r" "fifo_ok f" by (auto simp: queue_ok_def)
  then show ?thesis using fifo_first(1) [OF _ assms(3)] by (auto simp: rec_ok_def queued_def assms(3) rec_pkt_def)
qed

lemma try_sending_eq:
  assumes "tx_inv held X s P" "fifos s c = Some f" "fifo_recs f = r # rs" "0 \<le> dn r" "dn r < to_do r"
    "left = nat (to_do r - dn r)" "bs = take (taken w left) (drop (nat (dn r)) (pkt_bytes (hd (queued s f))))"
  shows "try_sending c (next_tx (tx_get f)) w s =
      (if w = Wr_error then Some (-1, False, s)
       else Some (if length bs = left then 0 else 1, length bs \<noteq> left, moved c f r bs s))"
    "length bs = taken w left"
proof -
  from first_rec [OF assms(1-3)] obtain b d where d: "tblkd r = Some b" "blkds s b = Some d" "blkd_ok d" "header_blkd d = full_header d"
    "to_do r = tx_bytes d" "queued s f = pkt_of d # map (rec_pkt s) rs" "tx_rec f (next_tx (tx_get f)) = r"
    by blast
  note pk = blkd_pkt [OF d(3)]
  let ?t = "drop (nat (dn r)) (pkt_bytes (pkt_of d))"
  have len: "length ?t = left" "0 < left"
    using pk assms(4-6) d(5) length_pkt_bytes [OF pk(1)] by simp_all
  have bs: "bs = take (taken w left) ?t" using assms(7) d(6) by simp
  have tk: "taken w left \<le> left" by (cases w) auto
  then show lb: "length bs = taken w left" unfolding bs using len(1) by (simp del: length_drop)
  have lft: "to_do r - dn r = int left" using assms(5,6) by simp
  have rank: "qemu_group_rank d = 0" using d(3) by (simp add: blkd_ok_def)
  have full: "header_blkd d @ payload_blkd d = pkt_bytes (pkt_of d)" using d(4) pk(3) by simp
  have trying: "try_sending c (next_tx (tx_get f)) w s = do {
     (len, get_out, s) \<leftarrow> sock_unix_write ?t (int left) w c s;
     if 0 \<le> len then
       Some (if len = int left then 0 else 1, get_out, set_fifo c (f\<lparr>tx_rec := (tx_rec f)(next_tx (tx_get f) := r\<lparr>dn := dn r + len\<rparr>)\<rparr>) s)
     else Some (-1, get_out, s)
   }"
    by (simp add: try_sending_def assms(2) d(1,2,7) rank full lft Let_def cong: if_cong del: drop_append)
  have wr: "sock_unix_write ?t (int left) w c s =
    (if w = Wr_error then Some (-1, False, s)
     else Some (int (length bs), length bs \<noteq> left, s\<lparr>sent := (sent s)(c := sent s c @ bs)\<rparr>))"
    using len lb bs by (cases w) (simp_all add: sock_unix_write_def kout_if_bind Let_def del: length_drop)
  show "try_sending c (next_tx (tx_get f)) w s =
      (if w = Wr_error then Some (-1, False, s)
       else Some (if length bs = left then 0 else 1, length bs \<noteq> left, moved c f r bs s))"
    unfolding trying wr by (simp add: moved_def)
qed

text \<open>A part of the packet goes out.\<close>

lemma moved_inv:
  assumes "tx_inv (\<lambda>_. 0) X s P" "fifos s c = Some f" "fifo_recs f = r # rs" "c \<in> X"
  shows "tx_inv (\<lambda>_. 0) X (moved c f r bs s) P"
    "\<And>f1. fifos (moved c f r bs s) c = Some f1 \<Longrightarrow> fifo_recs f1 = r\<lparr>dn := dn r + int (length bs)\<rparr> # rs \<and>
      queued (moved c f r bs s) f1 = queued s f \<and> tx_get f1 = tx_get f"
proof -
  let ?r = "r\<lparr>dn := dn r + int (length bs)\<rparr>"
  obtain f1 where f1: "f1 = f\<lparr>tx_rec := (tx_rec f)(next_tx (tx_get f) := ?r)\<rparr>" by blast
  from assms(1,2) have h: "heap_ok (\<lambda>_. 0) s" and q: "queue_ok s f" by (auto simp: tx_inv_def)
  then have fo: "fifo_ok f" by (simp add: queue_ok_def)
  note st = fifo_set_first [OF fo assms(3), of ?r, folded f1]
  have ro: "rec_ok s ?r = rec_ok s r" "rec_pkt s ?r = rec_pkt s r" by (simp_all add: rec_ok_def rec_pkt_def)
  have qd: "queued s f1 = queued s f" by (simp add: queued_def st(2) assms(3) ro)
  have q1: "queue_ok s f1" using q st ro f1 qd assms(3) by (simp add: queue_ok_def)
  have ids: "rec_ids f1 = rec_ids f" by (simp add: rec_ids_def st(2) assms(3))
  have fs: "fifos (moved c f r bs s) = (fifos s)(c \<mapsto> f1)" by (simp add: moved_sel f1)
  have fin: "finite (dom (fifos s))" using h by (simp add: heap_ok_def)
  have oc: "occ (moved c f r bs s) = occ s"
    using occ_set_fifo [OF fin assms(2) fs] unfolding ids by (auto simp: fun_eq_iff)
  have "heap_ok (\<lambda>_. 0) (moved c f r bs s)"
    using h unfolding heap_ok_def oc fs moved_sel(2-4) by auto
  then show "tx_inv (\<lambda>_. 0) X (moved c f r bs s) P"
    using assms(1,4) q1 by (auto simp: tx_inv_def fs queue_ok_cong [OF moved_sel(2)] moved_sel(5,6))
  show "\<And>f1. fifos (moved c f r bs s) c = Some f1 \<Longrightarrow> fifo_recs f1 = ?r # rs \<and>
      queued (moved c f r bs s) f1 = queued s f \<and> tx_get f1 = tx_get f"
    unfolding fs using st qd f1 by (auto simp: queue_ok_cong [OF moved_sel(2)])
qed

lemma tx_inv_weaken: "tx_inv held X s P \<Longrightarrow> X \<subseteq> Y \<Longrightarrow> tx_inv held Y s P"
  by (auto simp: tx_inv_def)

lemma tx_inv_strengthen:
  assumes "tx_inv held {c} s P" "\<And>f. fifos s c = Some f \<Longrightarrow> text_ok (P c) (drop_tx s c) (sent s c) (fifo_recs f) (queued s f)"
  shows "tx_inv held {} s P"
  using assms by (auto simp: tx_inv_def)

lemma text_ok_more:
  assumes "text_ok ks drops out (r # rs) (k # qs)" "bs = take m (drop (nat (dn r)) (pkt_bytes k))" "int (length bs) < to_do r - dn r"
  shows "text_ok ks drops (out @ bs) (r\<lparr>dn := dn r + int (length bs)\<rparr> # rs) (k # qs)"
proof -
  from assms(1) obtain old where o: "subseq (old @ k # qs) ks" "list_all good_pkt (old @ k # qs)" "drops = data_len ks - data_len (old @ k # qs)"
    "pkts_len ks \<le> 655340 \<longrightarrow> old @ k # qs = ks" "out = rx_text old @ take (nat (dn r)) (pkt_bytes k)"
    "0 \<le> dn r" "dn r < to_do r" "list_all (\<lambda>r. dn r = 0) rs"
    by (auto simp: text_ok_def)
  have "bs = take (length bs) (drop (nat (dn r)) (pkt_bytes k))"
    using assms(2) by (metis append_eq_conv_conj append_take_drop_id)
  then have "take (nat (dn r)) (pkt_bytes k) @ bs = take (nat (dn r) + length bs) (pkt_bytes k)"
    by (metis take_add)
  moreover have "nat (dn r + int (length bs)) = nat (dn r) + length bs" using o(6) by simp
  ultimately show ?thesis using o assms(3) unfolding text_ok_def by (intro exI [of _ old]) simp
qed

lemma text_ok_end:
  assumes "text_ok ks drops out (r # rs) (k # qs)" "bs = drop (nat (dn r)) (pkt_bytes k)"
    "list_all (\<lambda>r. 0 < to_do r) rs"
  shows "text_ok ks drops (out @ bs) rs qs"
proof -
  from assms(1) obtain old where o: "subseq (old @ k # qs) ks" "list_all good_pkt (old @ k # qs)" "drops = data_len ks - data_len (old @ k # qs)"
    "pkts_len ks \<le> 655340 \<longrightarrow> old @ k # qs = ks" "out = rx_text old @ take (nat (dn r)) (pkt_bytes k)"
    "list_all (\<lambda>r. dn r = 0) rs"
    by (auto simp: text_ok_def)
  have "out @ bs = rx_text (old @ [k])" using o(5) assms(2) by (simp add: rx_text_def)
  with o assms(3) show ?thesis unfolding text_ok_def
    by (intro exI [of _ "old @ [k]"]) (auto split: list.splits)
qed

lemma dom_upd: "fifos s c = Some f \<Longrightarrow> dom ((fifos s)(c \<mapsto> f')) = dom (fifos s)"
  by auto

text \<open>One call of \<open>write\<close>: an error, a part, or all that is left, and then the packet is given back.\<close>

lemma write_part:
  assumes "tx_inv (\<lambda>_. 0) {} s P" "fifos s c = Some f" "fifo_recs f = r # rs" "w \<noteq> Wr_error"
    "taken w (nat (to_do r - dn r)) \<noteq> nat (to_do r - dn r)"
  shows "\<exists>s1. try_sending c (next_tx (tx_get f)) w s = Some (1, True, s1) \<and> tx_inv (\<lambda>_. 0) {} s1 P \<and> dom (fifos s1) = dom (fifos s)"
proof -
  have t: "text_ok (P c) (drop_tx s c) (sent s c) (r # rs) (queued s f)"
    using assms(1,2) unfolding assms(3) [symmetric] by (simp add: tx_inv_def)
  then have dn: "0 \<le> dn r" "dn r < to_do r" by (auto simp: text_ok_def)
  define left where "left = nat (to_do r - dn r)"
  define bs where "bs = take (taken w left) (drop (nat (dn r)) (pkt_bytes (hd (queued s f))))"
  note e = try_sending_eq [OF assms(1-3) dn left_def bs_def]
  from first_rec [OF assms(1-3)] obtain k qs where q: "queued s f = k # qs" by blast
  have "taken w left \<le> left" by (cases w) auto
  with e(2) assms(5) have lt: "length bs < left" by (simp add: left_def)
  let ?s = "moved c f r bs s"
  note mi = moved_inv [OF tx_inv_weaken [OF assms(1), of "{c}"] assms(2,3)]
  have "tx_inv (\<lambda>_. 0) {} ?s P"
  proof (rule tx_inv_strengthen [OF mi(1)])
    fix f1 assume f1: "fifos ?s c = Some f1"
    have "text_ok (P c) (drop_tx s c) (sent s c @ bs) (r\<lparr>dn := dn r + int (length bs)\<rparr> # rs) (k # qs)"
      by (rule text_ok_more [OF t [unfolded q]]) (use lt q in \<open>simp_all add: bs_def left_def\<close>)
    then show "text_ok (P c) (drop_tx ?s c) (sent ?s c) (fifo_recs f1) (queued ?s f1)"
      using mi(2) [OF _ _ f1] q by (simp add: moved_sel)
  qed simp_all
  moreover have "try_sending c (next_tx (tx_get f)) w s = Some (1, True, ?s)" using e(1) assms(4) lt by simp
  moreover have "dom (fifos ?s) = dom (fifos s)" unfolding moved_sel by (rule dom_upd [OF assms(2)])
  ultimately show ?thesis by blast
qed

lemma write_all:
  assumes "tx_inv (\<lambda>_. 0) {} s P" "fifos s c = Some f" "fifo_recs f = r # rs" "w \<noteq> Wr_error"
    "taken w (nat (to_do r - dn r)) = nat (to_do r - dn r)"
  shows "\<exists>s1 f1 s2 f2. try_sending c (next_tx (tx_get f)) w s = Some (0, False, s1) \<and> fifos s1 c = Some f1 \<and>
    dn (tx_rec f1 (next_tx (tx_get f))) = to_do (tx_rec f1 (next_tx (tx_get f))) \<and> free_sent c s1 = Some s2 \<and>
    tx_inv (\<lambda>_. 0) {} s2 P \<and> dom (fifos s2) = dom (fifos s) \<and> fifos s2 c = Some f2 \<and> fifo_recs f2 = rs \<and>
    tblkd (tx_rec f2 (next_tx (tx_get f))) = None"
proof -
  have t: "text_ok (P c) (drop_tx s c) (sent s c) (r # rs) (queued s f)" and q0: "queue_ok s f"
    using assms(1,2) unfolding assms(3) [symmetric] by (simp_all add: tx_inv_def)
  then have dn: "0 \<le> dn r" "dn r < to_do r" by (auto simp: text_ok_def)
  define left where "left = nat (to_do r - dn r)"
  define bs where "bs = take (taken w left) (drop (nat (dn r)) (pkt_bytes (hd (queued s f))))"
  note e = try_sending_eq [OF assms(1-3) dn left_def bs_def]
  from first_rec [OF assms(1-3)] obtain b d where d: "blkd_ok d" "to_do r = tx_bytes d" "queued s f = pkt_of d # map (rec_pkt s) rs"
    by blast
  note pk = blkd_pkt [OF d(1)]
  have all: "length bs = left" using e(2) assms(5) by (simp add: left_def)
  have bs: "bs = drop (nat (dn r)) (pkt_bytes (pkt_of d))"
    using pk(1,2) length_pkt_bytes [OF pk(1)] assms(5) d(2,3) by (simp add: bs_def left_def)
  let ?s = "moved c f r bs s"
  let ?r = "r\<lparr>dn := dn r + int (length bs)\<rparr>"
  have "dn ?r = to_do ?r" using all dn by (simp add: left_def)
  note mi = moved_inv [OF tx_inv_weaken [OF assms(1), of "{c}"] assms(2,3)]
  obtain f1 where f1: "fifos ?s c = Some f1" by (simp add: moved_sel)
  have m2: "fifo_recs f1 = ?r # rs" "queued ?s f1 = queued s f" "tx_get f1 = tx_get f" using mi(2) [OF _ _ f1] by simp_all
  have m1: "tx_inv (\<lambda>_. 0) {c} ?s P" by (rule mi(1)) simp_all
  from free_sent_ok [OF m1 _ f1 m2(1)] obtain s2 f2 where fr: "free_sent c ?s = Some s2" "tx_inv (\<lambda>_. 0) {c} s2 P"
    "fifos s2 = (fifos ?s)(c \<mapsto> f2)" "fifo_recs f2 = rs" "queued s2 f2 = tl (queued s f)" "sent s2 = sent ?s" "drop_tx s2 = drop_tx ?s"
    "tx_rec f2 (next_tx (tx_get f)) = free_tx_rec"
    unfolding m2(2,3) by blast
  have "tx_inv (\<lambda>_. 0) {} s2 P"
  proof (rule tx_inv_strengthen [OF fr(2)])
    fix f3 assume "fifos s2 c = Some f3"
    with fr(3) have f3: "f3 = f2" by simp
    have "list_all (rec_ok s) rs" using q0 assms(3) by (simp add: queue_ok_def)
    then have pos: "list_all (\<lambda>r. 0 < to_do r) rs"
    proof (rule list.pred_mono_strong)
      fix r' assume "rec_ok s r'"
      then obtain d' where "blkd_ok d'" "to_do r' = tx_bytes d'" by (auto simp: rec_ok_def)
      with blkd_pkt [of d'] pkt_len_bounds [of "pkt_of d'"] show "0 < to_do r'" by simp
    qed
    have "text_ok (P c) (drop_tx s c) (sent s c @ bs) rs (map (rec_pkt s) rs)"
      by (rule text_ok_end [OF t [unfolded d(3)] bs pos])
    then show "text_ok (P c) (drop_tx s2 c) (sent s2 c) (fifo_recs f3) (queued s2 f3)"
      unfolding f3 fr(4-7) d(3) by (simp add: moved_sel)
  qed
  moreover have "try_sending c (next_tx (tx_get f)) w s = Some (0, False, ?s)" using e(1) assms(4) all by simp
  moreover have "dn (tx_rec f1 (next_tx (tx_get f))) = to_do (tx_rec f1 (next_tx (tx_get f)))"
    using first_rec [OF m1 f1 m2(1)] m2(3) \<open>dn ?r = to_do ?r\<close> by auto
  moreover have "dom (fifos s2) = dom (fifos s)"
    unfolding fr(3) moved_sel fun_upd_upd by (rule dom_upd [OF assms(2)])
  moreover have "fifos s2 c = Some f2" using fr(3) by simp
  ultimately show ?thesis using f1 fr(1,4,8)
    by (intro exI [of _ ?s] exI [of _ f1] exI [of _ s2] exI [of _ f2]) (simp add: free_tx_rec_def)
qed

text \<open>Answers that take any packet whole.\<close>

definition takes_all :: "t_wr \<Rightarrow> bool" where
  "takes_all w \<longleftrightarrow> (case w of Wr n \<Rightarrow> MAX_TOTAL_BLKD_SIZE \<le> n | _ \<Rightarrow> False)"

lemma takes_all_left:
  assumes "tx_inv held X s P" "fifos s c = Some f" "fifo_recs f = r # rs" "0 \<le> dn r" "takes_all w"
  shows "taken w (nat (to_do r - dn r)) = nat (to_do r - dn r)" "w \<noteq> Wr_error"
proof -
  from first_rec [OF assms(1-3)] obtain d where d: "blkd_ok d" "to_do r = tx_bytes d" by blast
  with blkd_pkt [OF d(1)] pkt_len_bounds [of "pkt_of d"] have "to_do r \<le> int MAX_TOTAL_BLKD_SIZE" by simp
  with assms(4,5) show "taken w (nat (to_do r - dn r)) = nat (to_do r - dn r)" "w \<noteq> Wr_error"
    by (auto simp: takes_all_def split: t_wr.splits)
qed

definition answer :: "t_wr list \<Rightarrow> t_wr" where
  "answer ws = (case ws of [] \<Rightarrow> Wr_again | w # _ \<Rightarrow> w)"

lemma rec_loop_ok:
  assumes "tx_inv (\<lambda>_. 0) {} s P" "fifos s c = Some f" "fifo_recs f = r # rs"
  shows "\<exists>res get_out s'. tx_rec_loop c (next_tx (tx_get f)) 0 ws s = Some (res, get_out, tl ws, s') \<and>
    tx_inv (\<lambda>_. 0) {} s' P \<and> dom (fifos s') = dom (fifos s) \<and>
    (get_out \<or> res \<noteq> 0 \<or> (\<exists>f'. fifos s' c = Some f' \<and> fifo_recs f' = rs)) \<and>
    (takes_all (answer ws) \<longrightarrow> \<not> get_out \<and> res = 0)"
proof -
  let ?i = "next_tx (tx_get f)"
  let ?left = "nat (to_do r - dn r)"
  from first_rec [OF assms] obtain b where b: "tblkd r = Some b" "tx_rec f ?i = r" by blast
  have t: "text_ok (P c) (drop_tx s c) (sent s c) (r # rs) (queued s f)"
    using assms(1,2) unfolding assms(3) [symmetric] by (simp add: tx_inv_def)
  then have dn: "0 \<le> dn r" "dn r < to_do r" by (auto simp: text_ok_def)
  have loop: "tx_rec_loop c ?i 0 ws s = do {
      (res, get_out, s) \<leftarrow> try_sending c ?i (answer ws) s;
      if get_out \<or> res < 0 then Some (res, get_out, tl ws, s)
      else do {
        f \<leftarrow> fifos s c;
        s \<leftarrow> (if dn (tx_rec f ?i) = to_do (tx_rec f ?i) then free_sent c s else Some s);
        tx_rec_loop c ?i res (tl ws) s
      }
    }"
    using assms(2) b by (subst tx_rec_loop.simps) (simp add: answer_def Let_def)
  note big = takes_all_left [OF assms dn(1)]
  show ?thesis
  proof (cases "answer ws = Wr_error")
    case True
    have "try_sending c ?i (answer ws) s = Some (-1, False, s)" using try_sending_eq(1) [OF assms dn refl refl] True by simp
    then have "tx_rec_loop c ?i 0 ws s = Some (-1, False, tl ws, s)" unfolding loop by simp
    with True assms(1) show ?thesis by (auto simp: takes_all_def)
  next
    case ne: False
    show ?thesis
    proof (cases "taken (answer ws) ?left = ?left")
      case False
      from write_part [OF assms ne False] obtain s1 where "try_sending c ?i (answer ws) s = Some (1, True, s1)"
        "tx_inv (\<lambda>_. 0) {} s1 P" "dom (fifos s1) = dom (fifos s)"
        by blast
      with loop big(1) [of "answer ws"] False show ?thesis by auto
    next
      case True
      from write_all [OF assms ne True] obtain s1 f1 s2 f2 where w: "try_sending c ?i (answer ws) s = Some (0, False, s1)"
        "fifos s1 c = Some f1" "dn (tx_rec f1 ?i) = to_do (tx_rec f1 ?i)" "free_sent c s1 = Some s2" "tx_inv (\<lambda>_. 0) {} s2 P"
        "dom (fifos s2) = dom (fifos s)" "fifos s2 c = Some f2" "fifo_recs f2 = rs" "tblkd (tx_rec f2 ?i) = None"
        by blast
      have "tx_rec_loop c ?i 0 (tl ws) s2 = Some (0, False, tl ws, s2)"
        using w(7,9) by (subst tx_rec_loop.simps) simp
      with loop w(1-4) have "tx_rec_loop c ?i 0 ws s = Some (0, False, tl ws, s2)" by simp
      with w show ?thesis by auto
    qed
  qed
qed

lemma pool_tx_get_eq:
  assumes "tx_inv held X s P" "fifos s c = Some f"
  shows "pool_tx_get f = Some (case fifo_recs f of [] \<Rightarrow> None | _ # _ \<Rightarrow> Some (next_tx (tx_get f)))"
proof (cases "fifo_recs f")
  case Nil
  then have "tx_qty f = 0" using length_fifo_recs [of f] by simp
  with Nil show ?thesis by (simp add: pool_tx_get_def)
next
  case (Cons r rs)
  then have "0 < tx_qty f" using length_fifo_recs [of f] by simp
  with Cons first_rec [OF assms Cons] show ?thesis by (auto simp: pool_tx_get_def kout_if_bind)
qed

lemma pool_loop_ok:
  assumes "tx_inv (\<lambda>_. 0) {} s P" "fifos s c = Some f" "pool_tx_get f = Some oi"
  shows "\<exists>res s'. tx_pool_loop c oi 0 ws s = Some (res, s') \<and> tx_inv (\<lambda>_. 0) {} s' P \<and> dom (fifos s') = dom (fifos s) \<and>
    (list_all takes_all ws \<longrightarrow> tx_qty f \<le> length ws \<longrightarrow> res = 0 \<and> (\<exists>f'. fifos s' c = Some f' \<and> fifo_recs f' = []))"
  using assms
proof (induction "fifo_recs f" arbitrary: s f oi ws)
  case Nil
  then have "oi = None" using pool_tx_get_eq [OF Nil(2,3)] Nil(1) [symmetric] by simp
  then show ?case using Nil by (subst tx_pool_loop.simps) auto
next
  case (Cons r rs)
  note fr = Cons.hyps(2) [symmetric]
  have oi: "oi = Some (next_tx (tx_get f))" using pool_tx_get_eq [OF Cons.prems(1,2)] Cons.prems(3) fr by simp
  have qty: "tx_qty f = Suc (length rs)" using length_fifo_recs [of f] fr by simp
  from rec_loop_ok [OF Cons.prems(1,2) fr, of ws] obtain res get_out s1 where l:
    "tx_rec_loop c (next_tx (tx_get f)) 0 ws s = Some (res, get_out, tl ws, s1)" "tx_inv (\<lambda>_. 0) {} s1 P"
    "dom (fifos s1) = dom (fifos s)" "get_out \<or> res \<noteq> 0 \<or> (\<exists>f'. fifos s1 c = Some f' \<and> fifo_recs f' = rs)"
    "takes_all (answer ws) \<longrightarrow> \<not> get_out \<and> res = 0"
    by blast
  show ?case
  proof (cases "get_out \<or> res \<noteq> 0")
    case True
    then have "tx_pool_loop c oi 0 ws s = Some (res, s1)" using l(1) oi by (subst tx_pool_loop.simps) auto
    moreover have "\<not> (list_all takes_all ws \<and> tx_qty f \<le> length ws)"
      using l(5) True qty by (cases ws) (auto simp: answer_def)
    ultimately show ?thesis using l by blast
  next
    case False
    with l(4) obtain f1 where f1: "fifos s1 c = Some f1" "fifo_recs f1 = rs" by blast
    obtain oi1 where oi1: "pool_tx_get f1 = Some oi1" using pool_tx_get_eq [OF l(2) f1(1)] by blast
    have "tx_pool_loop c oi 0 ws s = tx_pool_loop c oi1 0 (tl ws) s1"
      using l(1) oi False f1 oi1 by (subst tx_pool_loop.simps) simp
    moreover from Cons.hyps(1) [OF f1(2) [symmetric] l(2) f1(1) oi1, of "tl ws"] obtain res' s' where r:
      "tx_pool_loop c oi1 0 (tl ws) s1 = Some (res', s')" "tx_inv (\<lambda>_. 0) {} s' P" "dom (fifos s') = dom (fifos s1)"
      "list_all takes_all (tl ws) \<longrightarrow> tx_qty f1 \<le> length (tl ws) \<longrightarrow> res' = 0 \<and> (\<exists>f'. fifos s' c = Some f' \<and> fifo_recs f' = [])"
      by blast
    moreover have "tx_qty f1 = length rs" using length_fifo_recs [of f1] f1(2) by simp
    moreover have "list_all takes_all (tl ws)" if "list_all takes_all ws" using that by (cases ws) auto
    ultimately show ?thesis using l(3) qty by (cases ws) auto
  qed
qed

lemma event_tx_ok:
  assumes "tx_inv (\<lambda>_. 0) {} s P" "fifos s c = Some f"
  shows "\<exists>res s'. blkd_fd_event_tx c ws s = Some (res, s') \<and> tx_inv (\<lambda>_. 0) {} s' P \<and> dom (fifos s') = dom (fifos s) \<and>
    (list_all takes_all ws \<longrightarrow> tx_qty f \<le> length ws \<longrightarrow> res = 0 \<and> (\<exists>f'. fifos s' c = Some f' \<and> fifo_recs f' = []))"
proof -
  obtain oi where oi: "pool_tx_get f = Some oi" using pool_tx_get_eq [OF assms] by blast
  have "tx_qty f = 0 \<and> tx_queued_bytes f = 0" if "oi = None"
  proof -
    have "fifo_recs f = []" using that oi pool_tx_get_eq [OF assms] by (cases "fifo_recs f") auto
    then show ?thesis using assms length_fifo_recs [of f] by (auto simp: tx_inv_def queue_ok_def queued_def)
  qed
  then have "blkd_fd_event_tx c ws s = tx_pool_loop c oi 0 ws s"
    using assms(2) oi by (auto simp: blkd_fd_event_tx_def kout_if_bind)
  with pool_loop_ok [OF assms oi, of ws] show ?thesis by simp
qed

section \<open>The end of a channel\<close>

lemma purge_ok:
  assumes "tx_inv (\<lambda>_. 0) {c} s P" "fifos s c = Some f"
  shows "\<exists>s' f'. purge_loop c s = Some s' \<and> tx_inv (\<lambda>_. 0) {c} s' P \<and> dom (fifos s') = dom (fifos s) \<and> fifos s' c = Some f' \<and>
    fifo_recs f' = []"
  using assms
proof (induction "fifo_recs f" arbitrary: s f)
  case Nil
  then have "pool_tx_get f = Some None" using pool_tx_get_eq [OF Nil(2,3)] Nil(1) [symmetric] by simp
  with Nil show ?case by (subst purge_loop.simps) auto
next
  case (Cons r rs)
  note fr = Cons.hyps(2) [symmetric]
  have g: "pool_tx_get f = Some (Some (next_tx (tx_get f)))" using pool_tx_get_eq [OF Cons.prems(1,2)] fr by simp
  from free_sent_ok [OF Cons.prems(1) _ Cons.prems(2) fr] obtain s1 f1 where s1: "free_sent c s = Some s1"
    "tx_inv (\<lambda>_. 0) {c} s1 P" "fifos s1 = (fifos s)(c \<mapsto> f1)" "fifo_recs f1 = rs"
    by blast
  have "fifos s1 c = Some f1" using s1(3) by simp
  from Cons.hyps(1) [OF s1(4) [symmetric] s1(2) this] obtain s' f' where "purge_loop c s1 = Some s'"
    "tx_inv (\<lambda>_. 0) {c} s' P" "dom (fifos s') = dom (fifos s1)" "fifos s' c = Some f'" "fifo_recs f' = []"
    by blast
  moreover have "purge_loop c s = purge_loop c s1" using Cons.prems(2) g s1(1) by (subst purge_loop.simps) simp
  moreover have "dom (fifos s1) = dom (fifos s)" unfolding s1(3) by (rule dom_upd [OF Cons.prems(2)])
  ultimately show ?case by auto
qed

lemma free_llid_ok:
  assumes "tx_inv (\<lambda>_. 0) {} s P"
  shows "\<exists>s'. free_llid_blkd c s = Some s' \<and> tx_inv (\<lambda>_. 0) {} s' P \<and> dom (fifos s') = dom (fifos s) - {c}"
proof (cases "fifos s c")
  case None
  then show ?thesis using assms by (auto simp: free_llid_blkd_def)
next
  case (Some f)
  from purge_ok [OF tx_inv_weaken [OF assms] Some] obtain s1 f1 where p: "purge_loop c s = Some s1" "tx_inv (\<lambda>_. 0) {c} s1 P"
    "dom (fifos s1) = dom (fifos s)" "fifos s1 c = Some f1" "fifo_recs f1 = []"
    by blast
  let ?s = "s1\<lparr>fifos := (fifos s1)(c := None)\<rparr>"
  have "tx_qty f1 = 0 \<and> tx_queued_bytes f1 = 0"
    using p(2,4,5) length_fifo_recs [of f1] by (auto simp: tx_inv_def queue_ok_def queued_def)
  then have run: "free_llid_blkd c s = Some ?s"
    using Some p(1,4) by (simp add: free_llid_blkd_def blkd_fd_event_purge_tx_def kout_if_bind)
  have h: "heap_ok (\<lambda>_. 0) s1" using p(2) by (simp add: tx_inv_def)
  then have fin: "finite (dom (fifos s1))" by (simp add: heap_ok_def)
  have ids: "rec_ids f1 = []" by (simp add: rec_ids_def p(5))
  have oc: "occ ?s = occ s1"
  proof
    fix b
    have c: "c \<in> dom (fifos s1)" using p(4) by blast
    have "occ s1 b = (\<Sum>x\<in>dom (fifos s1) - {c}. count_list (rec_ids (the (fifos s1 x))) b)"
      unfolding occ_def by (subst sum.remove [OF fin c]) (simp add: p(4) ids)
    also have "\<dots> = occ ?s b" unfolding occ_def by (rule sum.cong) auto
    finally show "occ ?s b = occ s1 b" by simp
  qed
  have "heap_ok (\<lambda>_. 0) ?s" using h unfolding heap_ok_def oc by simp
  moreover have "queue_ok ?s = queue_ok s1" "queued ?s = queued s1"
    using queue_ok_cong [of ?s s1] by (auto simp: fun_eq_iff)
  ultimately have "tx_inv (\<lambda>_. 0) {} ?s P" using p(2) unfolding tx_inv_def by (auto split: if_splits)
  with run p(3) show ?thesis by auto
qed

section \<open>Runs\<close>

text \<open>
  What happens to a process that sends: it puts a packet on channels, a channel can be written to, a
  channel is closed. After an error of \<open>write\<close> the queue of the channel stays (\<open>channel.c\<close> closes the
  descriptor and does not tell \<open>blkd.c\<close>).
\<close>

datatype tx_ev = Ev_send "int list" "u8 list" int | Ev_writable int "t_wr list" | Ev_delete int

fun tx_step :: "t_tx \<Rightarrow> tx_ev \<Rightarrow> t_tx run" where
  "tx_step s (Ev_send llids buf usec) = send_packet llids buf usec s"
| "tx_step s (Ev_writable c ws) = (if fifos s c = None then Some s else map_option snd (blkd_fd_event_tx c ws s))"
| "tx_step s (Ev_delete c) = free_llid_blkd c s"

text \<open>The sizes that \<open>blkd_create_tx_full_copy\<close> takes, and a number of channels that is an \<open>int\<close>.\<close>

fun good_ev :: "tx_ev \<Rightarrow> bool" where
  "good_ev (Ev_send llids buf usec) \<longleftrightarrow> buf \<noteq> [] \<and> int (length buf) \<le> PAYLOAD_BLKD_SIZE \<and> length llids < 2 ^ 31"
| "good_ev _ \<longleftrightarrow> True"

fun sent_to :: "int \<Rightarrow> tx_ev \<Rightarrow> t_pkt list" where
  "sent_to c (Ev_send llids buf usec) = replicate (count_list llids c) (tx_pkt buf usec)"
| "sent_to c _ = []"

definition put_on :: "tx_ev list \<Rightarrow> int \<Rightarrow> t_pkt list" where
  "put_on evs c = concat (map (sent_to c) evs)"

definition tx_start :: "int list \<Rightarrow> t_tx" where
  "tx_start cs = \<lparr>blkds = (\<lambda>_. None), tgroups = (\<lambda>_. None), next_blkd = 0,
     fifos = (\<lambda>c. if c \<in> set cs then Some pool_tx_init else None), sent = (\<lambda>_. []), drop_tx = (\<lambda>_. 0), flow_trigs = 0\<rparr>"

lemma tx_start_inv: "tx_inv (\<lambda>_. 0) {} (tx_start cs) (\<lambda>_. [])"
proof -
  have f: "fifo_ok pool_tx_init" "fifo_recs pool_tx_init = []"
    using ring_list_empty [OF TX_POOL_pos, of free_tx_rec] by (intro fifo_okI; simp add: pool_tx_init_def)+
  have "dom (fifos (tx_start cs)) = set cs" by (auto simp: tx_start_def split: if_splits)
  then have "heap_ok (\<lambda>_. 0) (tx_start cs)" by (simp add: heap_ok_def tx_start_def)
  moreover have "queue_ok (tx_start cs) pool_tx_init" using f by (simp add: queue_ok_def queued_def pool_tx_init_def)
  moreover have "text_ok [] 0 [] (fifo_recs pool_tx_init) (queued (tx_start cs) pool_tx_init)"
    by (simp add: text_ok_def f(2) queued_def)
  ultimately show ?thesis by (auto simp: tx_inv_def tx_start_def split: if_splits)
qed

lemma tx_step_ok:
  assumes "tx_inv (\<lambda>_. 0) {} s P" "good_ev e"
  shows "\<exists>s'. tx_step s e = Some s' \<and> tx_inv (\<lambda>_. 0) {} s' (\<lambda>c. P c @ sent_to c e) \<and>
    dom (fifos s') = {c \<in> dom (fifos s). e \<noteq> Ev_delete c}"
proof (cases e)
  case (Ev_send llids buf usec)
  with assms(2) send_ok [OF assms(1), of buf llids usec] show ?thesis by auto
next
  case (Ev_writable c ws)
  show ?thesis
  proof (cases "fifos s c")
    case None
    with assms(1) Ev_writable show ?thesis by auto
  next
    case (Some f)
    with Ev_writable event_tx_ok [OF assms(1) Some, of ws] show ?thesis by auto
  qed
next
  case (Ev_delete c)
  with free_llid_ok [OF assms(1), of c] show ?thesis by auto
qed

definition fanout_inv :: "int list \<Rightarrow> t_tx \<times> tx_ev list \<Rightarrow> bool" where
  "fanout_inv cs sh \<longleftrightarrow> tx_inv (\<lambda>_. 0) {} (fst sh) (put_on (snd sh)) \<and>
     dom (fifos (fst sh)) = {c \<in> set cs. Ev_delete c \<notin> set (snd sh)}"

lemma put_on_simps: "put_on [] = (\<lambda>_. [])" "put_on (evs @ [e]) = (\<lambda>c. put_on evs c @ sent_to c e)"
  by (simp_all add: fun_eq_iff put_on_def)

text \<open>The process with the history of its events keeps the interface of the systems that do not end.\<close>

definition hist_step :: "t_tx \<times> tx_ev list \<Rightarrow> tx_ev \<Rightarrow> (t_tx \<times> tx_ev list) run" where
  "hist_step sh e = map_option (\<lambda>t. (t, snd sh @ [e])) (tx_step (fst sh) e)"

lemma run_hist: "run_events hist_step (s, h) evs = map_option (\<lambda>t. (t, h @ evs)) (run_events tx_step s evs)"
proof (induction evs arbitrary: s h)
  case (Cons e evs)
  then show ?case by (cases "tx_step s e") (simp_all add: hist_step_def)
qed simp

lemma hist_step_ok:
  assumes "fanout_inv cs sh" "good_ev e"
  shows "\<exists>th. hist_step sh e = Some th \<and> fanout_inv cs th"
  using tx_step_ok [of "fst sh" "put_on (snd sh)" e] assms
  by (auto simp: fanout_inv_def hist_step_def put_on_simps)

interpretation fanout: safe_system "(tx_start cs, [])" hist_step good_ev "fanout_inv cs" for cs
proof (unfold_locales, goal_cases)
  case 1
  then show ?case using tx_start_inv
    by (auto simp: fanout_inv_def put_on_simps tx_start_def split: if_splits)
next
  case (2 sh e th)
  then show ?case using hist_step_ok by fastforce
next
  case (3 sh e)
  then show ?case using hist_step_ok by blast
qed

lemma tx_run_ok:
  assumes "list_all good_ev evs"
  shows "\<exists>s. run_events tx_step (tx_start cs) evs = Some s \<and> tx_inv (\<lambda>_. 0) {} s (put_on evs) \<and>
    dom (fifos s) = {c \<in> set cs. Ev_delete c \<notin> set evs}"
  using fanout.reach_returns [OF assms, of cs] by (auto simp: run_hist fanout_inv_def)

section \<open>The whole way\<close>

lemma put_on_seen: "k \<in> set (put_on evs c) \<Longrightarrow> pkt_seen k = k"
proof -
  assume "k \<in> set (put_on evs c)"
  then obtain e where "k \<in> set (sent_to c e)" by (auto simp: put_on_def)
  then show "pkt_seen k = k" by (cases e) (auto simp: pkt_seen_def tx_pkt_def)
qed

lemma whole_pkts_subset: "set (whole_pkts ks n) \<subseteq> set ks"
  by (induction ks n rule: whole_pkts.induct) auto

lemma channel_text:
  assumes "tx_inv (\<lambda>_. 0) {} s P" "fifos s c = Some f"
  shows "\<exists>ks pend. subseq ks (P c) \<and> list_all good_pkt ks \<and> drop_tx s c = data_len (P c) - data_len ks \<and>
    (pkts_len (P c) \<le> 655340 \<longrightarrow> ks = P c) \<and> sent s c @ pend = rx_text ks \<and> (tx_qty f = 0 \<longrightarrow> pend = [])"
proof -
  have t: "text_ok (P c) (drop_tx s c) (sent s c) (fifo_recs f) (queued s f)"
    using assms by (simp add: tx_inv_def)
  show ?thesis
  proof (cases "fifo_recs f")
    case Nil
    then have "queued s f = []" by (simp add: queued_def)
    with t Nil show ?thesis by (auto simp: text_ok_def)
  next
    case (Cons r rs)
    then have q: "tx_qty f \<noteq> 0" using length_fifo_recs [of f] by auto
    from first_rec [OF assms Cons] obtain d where qd: "queued s f = pkt_of d # map (rec_pkt s) rs" by blast
    from t obtain old where o: "subseq (old @ queued s f) (P c)" "list_all good_pkt (old @ queued s f)"
      "drop_tx s c = data_len (P c) - data_len (old @ queued s f)"
      "pkts_len (P c) \<le> 655340 \<longrightarrow> old @ queued s f = P c"
      "sent s c = rx_text old @ (case fifo_recs f of [] \<Rightarrow> [] | r # _ \<Rightarrow> take (nat (dn r)) (pkt_bytes (hd (queued s f))))"
      unfolding text_ok_def by blast
    have out: "sent s c = rx_text old @ take (nat (dn r)) (pkt_bytes (pkt_of d))" using o(5) by (simp add: Cons qd)
    have "sent s c @ drop (nat (dn r)) (pkt_bytes (pkt_of d)) @ rx_text (map (rec_pkt s) rs) = rx_text (old @ queued s f)"
      unfolding out qd by (simp add: rx_text_def)
    note out = this
    show ?thesis
      by (intro exI [of _ "old @ queued s f"] exI conjI) (fact o(1), fact o(2), fact o(3), fact o(4), fact out, use q in simp)
  qed
qed

text \<open>The memory when nothing waits.\<close>

lemma all_freed:
  assumes "tx_inv (\<lambda>_. 0) {} s P" "\<And>c f. fifos s c = Some f \<Longrightarrow> tx_qty f = 0"
  shows "blkds s = (\<lambda>_. None)" "tgroups s = (\<lambda>_. None)"
proof -
  have h: "heap_ok (\<lambda>_. 0) s" using assms(1) by (simp add: tx_inv_def)
  have "occ s b = 0" for b
    unfolding occ_def
  proof (rule sum.neutral, rule ballI)
    fix c assume "c \<in> dom (fifos s)"
    then obtain f where f: "fifos s c = Some f" by blast
    from assms(2) [OF f] have "fifo_recs f = []" by (simp add: fifo_recs_def)
    with f show "count_list (rec_ids (the (fifos s c))) b = 0" by (simp add: rec_ids_def)
  qed
  then have n: "blkds s b = None" for b using heap_okD [OF h, of b] by (cases "blkds s b") auto
  then show "blkds s = (\<lambda>_. None)" by blast
  have "dom (tgroups s) = {}" using h n by (auto simp: heap_ok_def)
  then show "tgroups s = (\<lambda>_. None)" by simp
qed

lemma peer_gets:
  assumes "\<forall>k\<in>set ps. pkt_seen k = k" "subseq ks ps" "list_all good_pkt ks" "sent s c @ pend = rx_text ks"
  shows "\<exists>seen left p. (blkd_rx_init zero_fifo_rx \<bind> (\<lambda>p. rx_events use None ns (sent s c) (p, st))) =
      Some (left, p, fold use (whole_pkts ks (length seen)) st) \<and> seen @ left = sent s c"
proof -
  have "map pkt_seen (whole_pkts ks n) = whole_pkts ks n" for n
  proof (rule map_idI)
    fix k assume "k \<in> set (whole_pkts ks n)"
    then have "k \<in> set ks" using whole_pkts_subset by blast
    with assms(2) have "k \<in> set ps" by (auto elim: list_emb_set)
    with assms(1) show "pkt_seen k = k" by blast
  qed
  with reads_deliver [OF assms(3,4), of use None ns st] show ?thesis by metis
qed

text \<open>What the peer of a channel gets of the packets \<open>P c\<close> that were put on it.\<close>

lemma channel_gets:
  assumes "tx_inv (\<lambda>_. 0) {} s P" "fifos s c = Some f" "\<forall>k\<in>set (P c). pkt_seen k = k"
  shows "\<exists>ks pend. subseq ks (P c) \<and> drop_tx s c = data_len (P c) - data_len ks \<and> (pkts_len (P c) \<le> 655340 \<longrightarrow> ks = P c) \<and>
    sent s c @ pend = rx_text ks \<and> (tx_qty f = 0 \<longrightarrow> pend = []) \<and>
    (\<forall>ns st. \<exists>seen left p. (blkd_rx_init zero_fifo_rx \<bind> (\<lambda>p. rx_events use None ns (sent s c) (p, st))) =
      Some (left, p, fold use (whole_pkts ks (length seen)) st) \<and> seen @ left = sent s c)"
proof -
  from channel_text [OF assms(1,2)] obtain ks pend where k: "subseq ks (P c)" "list_all good_pkt ks"
    "drop_tx s c = data_len (P c) - data_len ks" "pkts_len (P c) \<le> 655340 \<longrightarrow> ks = P c"
    "sent s c @ pend = rx_text ks" "tx_qty f = 0 \<longrightarrow> pend = []"
    by (elim exE conjE)
  note peer = peer_gets [OF assms(3) k(1,2,5), of use]
  show ?thesis
    by (rule exI [of _ ks], rule exI [of _ pend], intro conjI allI) (fact k(1), fact k(3), fact k(4), fact k(5), fact k(6), rule peer)
qed

text \<open>C33: The way of the packets from one process to others. A process puts packets (1 to 1524 bytes) on
  any of its channels, the channels can be written to now and then and take what they take, an
  error included, and channels are closed. Then no check ends the process. Of the packets put on a
  channel that is not closed, those that are taken are a subsequence, the bytes of the others are
  counted as dropped, and none is dropped while the packets put on the channel have at most
  655340 bytes. What was written to the channel is a beginning of the text of the packets taken,
  all of it when the queue is empty, and the process at the other end, whatever its reads cut,
  uses exactly these packets as far as their last byte has come. A channel that takes all that is
  offered gets all that waits. And when no queue holds a packet, no packet is left in memory,
  whatever the number of channels each one was put on.\<close>

theorem channels_get_their_packets:
  fixes use :: "t_pkt \<Rightarrow> 's \<Rightarrow> 's"
  assumes "list_all good_ev evs"
  shows "\<exists>s. run_events tx_step (tx_start cs) evs = Some s \<and>
    (\<forall>c. fifos s c \<noteq> None \<longleftrightarrow> c \<in> set cs \<and> Ev_delete c \<notin> set evs) \<and>
    (\<forall>c f. fifos s c = Some f \<longrightarrow>
      (\<exists>ks pend. subseq ks (put_on evs c) \<and> drop_tx s c = data_len (put_on evs c) - data_len ks \<and>
        (pkts_len (put_on evs c) \<le> 655340 \<longrightarrow> ks = put_on evs c) \<and>
        sent s c @ pend = rx_text ks \<and> (tx_qty f = 0 \<longrightarrow> pend = []) \<and>
        (\<forall>ns st. \<exists>seen left p. (blkd_rx_init zero_fifo_rx \<bind> (\<lambda>p. rx_events use None ns (sent s c) (p, st))) =
          Some (left, p, fold use (whole_pkts ks (length seen)) st) \<and> seen @ left = sent s c)) \<and>
      (\<forall>ws. list_all takes_all ws \<and> tx_qty f \<le> length ws \<longrightarrow>
        (\<exists>s' f'. tx_step s (Ev_writable c ws) = Some s' \<and> fifos s' c = Some f' \<and> tx_qty f' = 0))) \<and>
    ((\<forall>c f. fifos s c = Some f \<longrightarrow> tx_qty f = 0) \<longrightarrow> blkds s = (\<lambda>_. None) \<and> tgroups s = (\<lambda>_. None))"
proof -
  from tx_run_ok [OF assms] obtain s where s: "run_events tx_step (tx_start cs) evs = Some s"
    "tx_inv (\<lambda>_. 0) {} s (put_on evs)" "dom (fifos s) = {c \<in> set cs. Ev_delete c \<notin> set evs}"
    by blast
  have alive: "fifos s c \<noteq> None \<longleftrightarrow> c \<in> set cs \<and> Ev_delete c \<notin> set evs" for c
    using s(3) by (metis (mono_tags, lifting) domIff mem_Collect_eq)
  have texts: "\<exists>ks pend. subseq ks (put_on evs c) \<and> drop_tx s c = data_len (put_on evs c) - data_len ks \<and>
        (pkts_len (put_on evs c) \<le> 655340 \<longrightarrow> ks = put_on evs c) \<and>
        sent s c @ pend = rx_text ks \<and> (tx_qty f = 0 \<longrightarrow> pend = []) \<and>
        (\<forall>ns st. \<exists>seen left p. (blkd_rx_init zero_fifo_rx \<bind> (\<lambda>p. rx_events use None ns (sent s c) (p, st))) =
          Some (left, p, fold use (whole_pkts ks (length seen)) st) \<and> seen @ left = sent s c)"
    if "fifos s c = Some f" for c f
  proof -
    have "\<forall>k\<in>set (put_on evs c). pkt_seen k = k" using put_on_seen by blast
    from channel_gets [OF s(2) that this, of use] show ?thesis .
  qed
  have ready: "\<exists>s' f'. tx_step s (Ev_writable c ws) = Some s' \<and> fifos s' c = Some f' \<and> tx_qty f' = 0"
    if "fifos s c = Some f" "list_all takes_all ws \<and> tx_qty f \<le> length ws" for c f ws
  proof -
    from event_tx_ok [OF s(2) that(1), of ws] that(2) obtain res s' f' where e: "blkd_fd_event_tx c ws s = Some (res, s')"
      "fifos s' c = Some f'" "fifo_recs f' = []"
      by blast
    then have "tx_qty f' = 0" using length_fifo_recs [of f'] by simp
    with e that(1) show ?thesis by simp
  qed
  show ?thesis
    by (rule exI [of _ s], intro conjI allI impI)
      (fact s(1), rule alive, erule texts, erule (1) ready, (rule all_freed [OF s(2)]; blast)+)
qed

definition two_sends :: "tx_ev list" where
  "two_sends = [Ev_send [1, 2] [7, 8] 0, Ev_writable 1 [Wr 5], Ev_send [2] [9] 1, Ev_delete 1]"

theorem channels_get_their_packets_witness:
  "\<exists>s f pend. run_events tx_step (tx_start [1, 2]) two_sends = Some s \<and> fifos s 1 = None \<and> fifos s 2 = Some f \<and>
    sent s 2 @ pend = rx_text [tx_pkt [7, 8] 0, tx_pkt [9] 1]"
proof -
  have ok: "list_all good_ev two_sends" by (simp add: two_sends_def PAYLOAD_BLKD_SIZE_def)
  have p: "put_on two_sends 2 = [tx_pkt [7, 8] 0, tx_pkt [9] 1]" "pkts_len (put_on two_sends 2) = 43"
    by (simp_all add: put_on_def two_sends_def pkts_len_def pkt_len_def HEADER_BLKD_SIZE_def tx_pkt_def)
  from channels_get_their_packets [OF ok, of "[1, 2]" "\<lambda>_ (u :: unit). u"] obtain s where s:
    "run_events tx_step (tx_start [1, 2]) two_sends = Some s"
    "\<forall>c. fifos s c \<noteq> None \<longleftrightarrow> c \<in> set [1, 2] \<and> Ev_delete c \<notin> set two_sends"
    "\<forall>c f. fifos s c = Some f \<longrightarrow>
      (\<exists>ks pend. subseq ks (put_on two_sends c) \<and> drop_tx s c = data_len (put_on two_sends c) - data_len ks \<and>
        (pkts_len (put_on two_sends c) \<le> 655340 \<longrightarrow> ks = put_on two_sends c) \<and>
        sent s c @ pend = rx_text ks \<and> (tx_qty f = 0 \<longrightarrow> pend = []) \<and>
        (\<forall>ns st. \<exists>seen left p. (blkd_rx_init zero_fifo_rx \<bind> (\<lambda>p. rx_events (\<lambda>_ (u :: unit). u) None ns (sent s c) (p, st))) =
          Some (left, p, fold (\<lambda>_ (u :: unit). u) (whole_pkts ks (length seen)) st) \<and> seen @ left = sent s c)) \<and>
      (\<forall>ws. list_all takes_all ws \<and> tx_qty f \<le> length ws \<longrightarrow>
        (\<exists>s' f'. tx_step s (Ev_writable c ws) = Some s' \<and> fifos s' c = Some f' \<and> tx_qty f' = 0))"
    by (elim exE conjE)
  have "fifos s 1 = None" using s(2) [rule_format, of 1] by (simp add: two_sends_def)
  moreover obtain f where f: "fifos s 2 = Some f" using s(2) [rule_format, of 2] by (auto simp: two_sends_def)
  moreover obtain ks pend where "pkts_len (put_on two_sends 2) \<le> 655340 \<longrightarrow> ks = put_on two_sends 2" "sent s 2 @ pend = rx_text ks"
    using s(3) [rule_format, OF f] by (elim exE conjE)
  moreover from this p(2) have "sent s 2 @ pend = rx_text (put_on two_sends 2)" by simp
  ultimately show ?thesis using s(1) unfolding p(1) by blast
qed

end
