(* ===== verification/Lan_Tables.thy ===== *)
theory Lan_Tables
  imports C_Text Blkd_Send
begin

text \<open>
  The tables of a LAN, the process \<open>mulan\<close>: who is announced (\<open>lib_mulan/src/llid_rank.c\<close>), which ranks
  are taken (\<open>rank_mngt.c\<close>), and what it needs of its channels (\<open>msg_layer.c\<close>, \<open>channel.c\<close>, \<open>blkd.c\<close>).
\<close>

section \<open>State\<close>

definition MAX_USOCK_RANKS :: nat where "MAX_USOCK_RANKS = 200"
definition MAX_CHANNELS :: int where "MAX_CHANNELS = 10000"
definition LAN_NAME_LEN :: nat where "LAN_NAME_LEN = 64"
definition LAN_PATH_LEN :: nat where "LAN_PATH_LEN = 300"
definition MAX_RESP_LEN :: nat where "MAX_RESP_LEN = 500"

text \<open>An element of the list of the endpoints; \<open>dr_addr\<close> is its address in memory.\<close>

record t_llid_rank =
  dr_addr :: nat
  dr_llid :: int
  dr_traf :: int
  dr_name :: string
  dr_num :: int
  dr_tidx :: int
  prechoice_rank :: int
  dr_rank :: int

text \<open>
  A channel of the process and its callbacks: one of messages, the socket that is listened on, a packet
  socket that waits for its first packet (\<open>rx_init_traf_cb\<close>) and one that is open (\<open>rx_traf_cb\<close>).
\<close>

datatype lan_chan = Client | Listen | Opening | Traffic

text \<open>
  The memory of the process. \<open>in_pkts\<close> and \<open>in_read\<close> are the other side of the packet sockets: the
  packets that the peer writes, and how many bytes of their text have been read. \<open>diag_out\<close> are the
  messages that have been sent, \<open>destroy_timer\<close> is the timeout of \<open>self_destroy\<close>, \<open>ended\<close> the call of
  \<open>exit(0)\<close>.
\<close>

record t_lan =
  g_name :: string
  g_head :: "t_llid_rank list"
  next_dr :: nat
  traf_chain :: "int list"
  sock_traf_nb :: int
  max_ranks :: nat
  rank_present :: "nat \<Rightarrow> nat option"
  listen_path :: string
  llid_listen :: int
  destroying :: bool
  cloonix_llid :: int
  lchans :: "int \<Rightarrow> lan_chan option"
  tx :: t_tx
  rings :: "int \<Rightarrow> t_blkd_fifo_rx option"
  blkd_rank :: "int \<Rightarrow> int"
  in_pkts :: "int \<Rightarrow> t_pkt list"
  in_read :: "int \<Rightarrow> nat"
  diag_out :: "(int \<times> int \<times> string) list"
  destroy_timer :: bool
  ended :: bool

section \<open>Channels\<close>

definition lan_exist_channel :: "int \<Rightarrow> t_lan \<Rightarrow> bool run" where
  "lan_exist_channel l s =
     (if l \<noteq> 0 then do {
        kout_if (l \<le> 0 \<or> MAX_CHANNELS \<le> l);
        Some (lchans s l \<noteq> None)
      } else Some False)"

definition channel_gone :: "int \<Rightarrow> t_lan \<Rightarrow> t_lan" where
  "channel_gone l s = s\<lparr>lchans := (lchans s)(l := None)\<rparr>"

text \<open>\<open>blkd_delete\<close>: what waits in the ring of received packets goes with it.\<close>

definition lan_blkd_delete :: "int \<Rightarrow> t_lan \<Rightarrow> t_lan run" where
  "lan_blkd_delete l s = do {
     t \<leftarrow> free_llid_blkd l (tx s);
     Some (s\<lparr>tx := t, rings := (rings s)(l := None)\<rparr>)
   }"

definition lan_delete_channel :: "int \<Rightarrow> t_lan \<Rightarrow> t_lan run" where
  "lan_delete_channel l s = do {
     kout_if (l \<le> 0 \<or> MAX_CHANNELS \<le> l \<or> lchans s l = None);
     let s' = channel_gone l s;
     if lchans s l = Some Client then Some s' else lan_blkd_delete l s'
   }"

text \<open>\<open>alloc_llid_blkd\<close> for a new packet socket.\<close>

definition lan_alloc_blkd :: "int \<Rightarrow> t_lan \<Rightarrow> t_lan run" where
  "lan_alloc_blkd l s = do {
     kout_if (l \<le> 0 \<or> MAX_CHANNELS \<le> l \<or> fifos (tx s) l \<noteq> None);
     p \<leftarrow> blkd_rx_init zero_fifo_rx;
     let t = tx s;
     Some (s\<lparr>tx := t\<lparr>fifos := (fifos t)(l \<mapsto> pool_tx_init), sent := (sent t)(l := []), drop_tx := (drop_tx t)(l := 0)\<rparr>,
       rings := (rings s)(l \<mapsto> p), blkd_rank := (blkd_rank s)(l := 0)\<rparr>)
   }"

definition lan_set_rank :: "int \<Rightarrow> int \<Rightarrow> t_lan \<Rightarrow> t_lan" where
  "lan_set_rank l r s = (if fifos (tx s) l = None then s else s\<lparr>blkd_rank := (blkd_rank s)(l := r)\<rparr>)"

section \<open>Packet sockets of the endpoints\<close>

definition traf_chain_insert :: "int \<Rightarrow> t_lan \<Rightarrow> t_lan run" where
  "traf_chain_insert l s = do {
     kout_if (l \<le> 0);
     kout_if (l \<in> set (traf_chain s));
     Some (s\<lparr>traf_chain := l # traf_chain s, sock_traf_nb := sock_traf_nb s + 1\<rparr>)
   }"

definition traf_chain_extract :: "int \<Rightarrow> t_lan \<Rightarrow> t_lan run" where
  "traf_chain_extract l s = do {
     kout_if (l \<le> 0);
     Some (if l \<in> set (traf_chain s) then s\<lparr>traf_chain := remove1 l (traf_chain s), sock_traf_nb := sock_traf_nb s - 1\<rparr> else s)
   }"

text \<open>The table has room for \<open>sock_traf_nb\<close> numbers; the check of the code is one too late.\<close>

fun traf_tab :: "int list \<Rightarrow> int \<Rightarrow> t_lan \<Rightarrow> int list \<Rightarrow> int list run" where
  "traf_tab [] l s tab = Some tab"
| "traf_tab (c # cs) l s tab =
     (if c \<noteq> l then do {
        e \<leftarrow> lan_exist_channel c s;
        if e then do {
          kout_if (sock_traf_nb s < int (length tab));
          ub_if (int (length tab) = sock_traf_nb s);
          traf_tab cs l s (tab @ [c])
        } else traf_tab cs l s tab
      } else traf_tab cs l s tab)"

definition get_llid_traf_tab :: "int \<Rightarrow> t_lan \<Rightarrow> int list run" where
  "get_llid_traf_tab l s = traf_tab (traf_chain s) l s []"

section \<open>The list of the endpoints\<close>

definition alloc_llid_rank :: "int \<Rightarrow> string \<Rightarrow> int \<Rightarrow> int \<Rightarrow> int \<Rightarrow> t_lan \<Rightarrow> t_lan" where
  "alloc_llid_rank l name num tidx rank s = s\<lparr>next_dr := Suc (next_dr s),
     g_head := \<lparr>dr_addr = next_dr s, dr_llid = l, dr_traf = 0, dr_name = take (LAN_NAME_LEN - 1) name, dr_num = num, dr_tidx = tidx,
       prechoice_rank = rank, dr_rank = 0\<rparr> # g_head s\<rparr>"

definition free_llid_rank :: "t_llid_rank \<Rightarrow> t_lan \<Rightarrow> t_lan run" where
  "free_llid_rank d s = do {
     e \<leftarrow> lan_exist_channel (dr_llid d) s;
     s \<leftarrow> (if e then lan_delete_channel (dr_llid d) s else Some s);
     s \<leftarrow> (if dr_traf d \<noteq> 0 then do {
            e \<leftarrow> lan_exist_channel (dr_traf d) s;
            s \<leftarrow> (if e then lan_delete_channel (dr_traf d) s else Some s);
            traf_chain_extract (dr_traf d) s
          } else Some s);
     Some (s\<lparr>g_head := filter (\<lambda>x. dr_addr x \<noteq> dr_addr d) (g_head s)\<rparr>)
   }"

definition llid_rank_get_with_name :: "string \<Rightarrow> int \<Rightarrow> int \<Rightarrow> t_lan \<Rightarrow> t_llid_rank option" where
  "llid_rank_get_with_name name num tidx s = find (\<lambda>d. dr_name d = name \<and> dr_num d = num \<and> dr_tidx d = tidx) (g_head s)"

definition llid_rank_get_with_llid :: "int \<Rightarrow> t_lan \<Rightarrow> t_llid_rank option" where
  "llid_rank_get_with_llid l s = find (\<lambda>d. dr_llid d = l) (g_head s)"

definition llid_rank_get_with_llid_unix_sock_traf :: "int \<Rightarrow> t_lan \<Rightarrow> t_llid_rank option" where
  "llid_rank_get_with_llid_unix_sock_traf l s = (if 0 < l then find (\<lambda>d. dr_traf d = l) (g_head s) else None)"

definition llid_rank_get_with_rank :: "int \<Rightarrow> t_lan \<Rightarrow> t_llid_rank option" where
  "llid_rank_get_with_rank r s = find (\<lambda>d. dr_rank d = r) (g_head s)"

definition llid_rank_get_with_prechoice_rank :: "int \<Rightarrow> t_lan \<Rightarrow> t_llid_rank option" where
  "llid_rank_get_with_prechoice_rank r s = find (\<lambda>d. prechoice_rank d = r) (g_head s)"

text \<open>A write through the pointer to an element.\<close>

definition upd_dr :: "t_llid_rank \<Rightarrow> (t_llid_rank \<Rightarrow> t_llid_rank) \<Rightarrow> t_lan \<Rightarrow> t_lan" where
  "upd_dr d f s = s\<lparr>g_head := map (\<lambda>x. if dr_addr x = dr_addr d then f x else x) (g_head s)\<rparr>"

definition llid_rank_peer_rank_set :: "int \<Rightarrow> string \<Rightarrow> int \<Rightarrow> int \<Rightarrow> int \<Rightarrow> t_lan \<Rightarrow> t_llid_rank option \<times> t_lan" where
  "llid_rank_peer_rank_set l name num tidx rank s =
     (if rank \<noteq> 0 \<and> rank < int MAX_USOCK_RANKS \<and> llid_rank_get_with_rank rank s = None then
        (case llid_rank_get_with_llid l s of
           None \<Rightarrow> (None, s)
         | Some d \<Rightarrow>
             if name = dr_name d \<and> dr_num d = num \<and> prechoice_rank d = rank
             then (Some d, upd_dr d (\<lambda>x. x\<lparr>dr_tidx := tidx, dr_rank := rank\<rparr>) s)
             else (None, s))
      else (None, s))"

definition llid_rank_peer_rank_unset :: "int \<Rightarrow> string \<Rightarrow> int \<Rightarrow> t_lan \<Rightarrow> t_lan" where
  "llid_rank_peer_rank_unset l name rank s =
     (if rank \<noteq> 0 \<and> rank < int MAX_USOCK_RANKS \<and> llid_rank_get_with_rank rank s \<noteq> None then
        (case llid_rank_get_with_llid l s of
           None \<Rightarrow> s
         | Some d \<Rightarrow> if name = dr_name d \<and> dr_rank d = rank then upd_dr d (\<lambda>x. x\<lparr>dr_rank := 0\<rparr>) s else s)
      else s)"

definition llid_rank_llid_create :: "int \<Rightarrow> string \<Rightarrow> int \<Rightarrow> int \<Rightarrow> int \<Rightarrow> t_lan \<Rightarrow> t_lan" where
  "llid_rank_llid_create l name num tidx rank s =
     (if llid_rank_get_with_name name num tidx s = None \<and> llid_rank_get_with_llid l s = None \<and>
         llid_rank_get_with_prechoice_rank rank s = None
      then alloc_llid_rank l name num tidx rank s else s)"

section \<open>Ranks\<close>

text \<open>The highest rank of a table that is present, 0 if there is none.\<close>

fun highest_rank :: "nat \<Rightarrow> (nat \<Rightarrow> nat option) \<Rightarrow> nat" where
  "highest_rank 0 present = 0"
| "highest_rank (Suc i) present = (if present (Suc i) \<noteq> None then Suc i else highest_rank i present)"

definition adjust_max_rank :: "t_lan \<Rightarrow> t_lan" where
  "adjust_max_rank s = s\<lparr>max_ranks := highest_rank (MAX_USOCK_RANKS - 1) (rank_present s) + 1\<rparr>"

definition rank_get_free :: "t_lan \<Rightarrow> int" where
  "rank_get_free s =
     (case find (\<lambda>i. rank_present s i = None \<and> llid_rank_get_with_prechoice_rank (int i) s = None) [1..<MAX_USOCK_RANKS] of
        None \<Rightarrow> 0
      | Some i \<Rightarrow> int i)"

definition rank_has_become_inactive :: "t_llid_rank \<Rightarrow> t_lan \<Rightarrow> t_lan run" where
  "rank_has_become_inactive d s = do {
     ub_if (dr_rank d < 0 \<or> int MAX_USOCK_RANKS \<le> dr_rank d);
     if rank_present s (nat (dr_rank d)) \<noteq> None then do {
       let s = llid_rank_peer_rank_unset (dr_llid d) (dr_name d) (dr_rank d) s;
       Some (adjust_max_rank (s\<lparr>rank_present := (rank_present s)(nat (dr_rank d) := None)\<rparr>))
     } else Some s
   }"

definition llid_rank_sig_disconnect :: "int \<Rightarrow> t_lan \<Rightarrow> t_lan run" where
  "llid_rank_sig_disconnect l s = (case llid_rank_get_with_llid l s of
     None \<Rightarrow> Some s
   | Some d \<Rightarrow> rank_has_become_inactive d s \<bind> free_llid_rank d)"

definition llid_rank_traf_disconnect :: "int \<Rightarrow> t_lan \<Rightarrow> t_lan run" where
  "llid_rank_traf_disconnect l s = (case llid_rank_get_with_llid_unix_sock_traf l s of
     None \<Rightarrow> Some s
   | Some d \<Rightarrow> rank_has_become_inactive d s \<bind> free_llid_rank d)"

text \<open>The result of the code is 0 for \<open>True\<close>.\<close>

definition llid_rank_traf_connect :: "int \<Rightarrow> string \<Rightarrow> int \<Rightarrow> int \<Rightarrow> t_lan \<Rightarrow> (bool \<times> t_lan) run" where
  "llid_rank_traf_connect l name num tidx s = (case llid_rank_get_with_name name num tidx s of
     None \<Rightarrow> Some (False, s)
   | Some d \<Rightarrow>
       if dr_traf d \<noteq> 0 then Some (True, s)
       else do {
         s \<leftarrow> traf_chain_insert l (lan_set_rank l (dr_rank d) s);
         Some (True, upd_dr d (\<lambda>x. x\<lparr>dr_traf := l\<rparr>) s)
       })"

end
