(* ===== verification/Lan_Switch.thy ===== *)
theory Lan_Switch
  imports Lan_Tables
begin

text \<open>
  The messages and the traffic of a LAN (\<open>lib_mulan/src/diag.c\<close>, \<open>rank_dialog\<close> of \<open>rank_mngt.c\<close>,
  \<open>client.c\<close>, the timeout of \<open>self_destroy\<close>), and the events of the process.
\<close>

section \<open>Lines\<close>

definition fmt_of :: "string \<Rightarrow> scan_item list" where
  "fmt_of w = [Lit w, Blank, Lit ''lan='', Str, Blank, Lit ''name='', Str, Blank, Lit ''num='', Dec, Blank, Lit ''tidx='', Dec]"

definition fmt_rank :: "string \<Rightarrow> scan_item list" where
  "fmt_rank w = fmt_of w @ [Blank, Lit ''rank='', Dec]"

definition fmt_listen :: "scan_item list" where
  "fmt_listen = [Lit ''cloonix_req_listen='', Str, Blank, Lit ''lan='', Str]"

definition fmt_opening :: "scan_item list" where
  "fmt_opening = [Lit ''TRAFFIC_OPENING:'', Blank, Lit ''name='', Str, Blank, Lit ''num='', Dec, Blank, Lit ''tidx='', Dec]"

text \<open>The words of a line go to buffers of the sizes \<open>bufs\<close> without a check.\<close>

definition scan_line :: "nat list \<Rightarrow> scan_item list \<Rightarrow> string \<Rightarrow> scan_val list run" where
  "scan_line bufs f line = do {
     let vs = sscanf f line;
     ub_if (\<not> words_fit bufs vs);
     Some vs
   }"

definition line_of :: "string \<Rightarrow> string \<Rightarrow> string \<Rightarrow> int \<Rightarrow> int \<Rightarrow> string" where
  "line_of w lan name num tidx = w @ '' lan='' @ lan @ '' name='' @ name @ '' num='' @ dec_int num @ '' tidx='' @ dec_int tidx"

definition rank_line :: "string \<Rightarrow> string \<Rightarrow> string \<Rightarrow> int \<Rightarrow> int \<Rightarrow> int \<Rightarrow> string" where
  "rank_line w lan name num tidx rank = line_of w lan name num tidx @ '' rank='' @ dec_int rank"

section \<open>The dialog of the ranks\<close>

definition rank_has_become_active :: "int \<Rightarrow> string \<Rightarrow> string \<Rightarrow> int \<Rightarrow> int \<Rightarrow> int \<Rightarrow> string \<Rightarrow> t_lan \<Rightarrow> string \<times> t_lan" where
  "rank_has_become_active l lan name num tidx rank resp s = (case llid_rank_peer_rank_set l name num tidx rank s of
     (None, s) \<Rightarrow> (resp, s)
   | (Some d, s) \<Rightarrow>
       (rank_line ''mulan_req_start'' lan name num tidx rank,
        adjust_max_rank (s\<lparr>rank_present := (rank_present s)(nat rank \<mapsto> dr_addr d)\<rparr>)))"

definition req_rank :: "int \<Rightarrow> string \<Rightarrow> string \<Rightarrow> int \<Rightarrow> int \<Rightarrow> t_lan \<Rightarrow> string \<times> t_lan" where
  "req_rank l lan name num tidx s =
     (let rank = rank_get_free s; ko = line_of ''muend_resp_rank_alloc_ko'' lan name num tidx in
      if rank = 0 then (c_trunc (MAX_RESP_LEN - 1) ko, s)
      else
        (let s = llid_rank_llid_create l name num tidx rank s in
         (c_trunc (MAX_RESP_LEN - 1)
            (if listen_path s \<noteq> []
             then rank_line ''muend_resp_rank_alloc_ok'' lan name num tidx rank @ '' traf='' @ listen_path s
             else ko), s)))"

definition rank_dialog :: "int \<Rightarrow> string \<Rightarrow> string \<Rightarrow> t_lan \<Rightarrow> (string \<times> t_lan) run" where
  "rank_dialog l line resp s = do {
     v \<leftarrow> scan_line [LAN_NAME_LEN, LAN_NAME_LEN] (fmt_of ''muend_req_rank'') line;
     case v of
       [SStr lan, SStr name, SDec num, SDec tidx] \<Rightarrow> do {
         kout_if (lan \<noteq> g_name s);
         Some (req_rank l lan name num tidx s)
       }
     | _ \<Rightarrow> do {
         v \<leftarrow> scan_line [LAN_NAME_LEN, LAN_NAME_LEN] (fmt_rank ''muend_ack_rank'') line;
         case v of
           [SStr lan, SStr name, SDec num, SDec tidx, SDec rank] \<Rightarrow> do {
             kout_if (lan \<noteq> g_name s);
             Some (rank_has_become_active l lan name num tidx (rank mod 2 ^ 32) resp s)
           }
         | _ \<Rightarrow> Some (resp, s)
       }
   }"

section \<open>Messages\<close>

definition send_diag :: "int \<Rightarrow> int \<Rightarrow> string \<Rightarrow> t_lan \<Rightarrow> t_lan" where
  "send_diag l tid line s = s\<lparr>diag_out := diag_out s @ [(l, tid, line)]\<rparr>"

text \<open>The loop over the ranks; an element that is freed has no fields.\<close>

fun req_end_loop :: "nat list \<Rightarrow> t_lan \<Rightarrow> t_lan run" where
  "req_end_loop [] s = Some s"
| "req_end_loop (i # is) s = (case rank_present s i of
     None \<Rightarrow> req_end_loop is s
   | Some a \<Rightarrow> do {
       d \<leftarrow> find (\<lambda>d. dr_addr d = a) (g_head s);
       e \<leftarrow> lan_exist_channel (dr_llid d) s;
       req_end_loop is (if e then send_diag (dr_llid d) 0
         (rank_line ''mulan_req_end'' (g_name s) (dr_name d) (dr_num d) (dr_tidx d) (dr_rank d)) s else s)
     })"

definition self_destroy :: "t_lan \<Rightarrow> t_lan run" where
  "self_destroy s = do {
     e \<leftarrow> lan_exist_channel (llid_listen s) s;
     s \<leftarrow> (if e then lan_delete_channel (llid_listen s) s else Some s);
     s \<leftarrow> req_end_loop [1..<max_ranks s] (s\<lparr>llid_listen := 0\<rparr>);
     Some (s\<lparr>destroy_timer := True, destroying := True\<rparr>)
   }"

text \<open>The numbers that a new channel may get: no channel has it, and no packet socket that was left over.\<close>

definition usable_llid :: "int \<Rightarrow> t_lan \<Rightarrow> bool" where
  "usable_llid c s \<longleftrightarrow> 0 < c \<and> c < MAX_CHANNELS \<and> lchans s c = None \<and> fifos (tx s) c = None"

text \<open>
  \<open>blkd_server_listen\<close>: \<open>nl\<close> is the number of the new channel, 0 when the socket cannot be made. The
  copy of the path by \<open>strncpy\<close> with a length of \<open>MAX_RESP_LEN - 1\<close> fills the field of \<open>MAX_PATH_LEN\<close>
  bytes and what follows it up to 499 bytes with zeros: \<open>g_llid_listen_traf\<close>, that has just been set,
  and the start of \<open>g_traf_endp\<close>, which this process does not use.
\<close>

definition req_listen :: "int \<Rightarrow> string \<Rightarrow> t_lan \<Rightarrow> (string \<times> t_lan) run" where
  "req_listen nl path s =
     (if nl = 0 then Some (c_trunc (MAX_RESP_LEN - 1) (''cloonix_resp_listen_ko='' @ path), s\<lparr>llid_listen := 0\<rparr>)
      else do {
        s \<leftarrow> lan_alloc_blkd nl (s\<lparr>lchans := (lchans s)(nl \<mapsto> Listen)\<rparr>);
        Some (c_trunc (MAX_RESP_LEN - 1) (''cloonix_resp_listen_ok='' @ path), s\<lparr>listen_path := path, llid_listen := 0\<rparr>)
      })"

definition diag_answer :: "int \<Rightarrow> string \<Rightarrow> int \<Rightarrow> t_lan \<Rightarrow> (string \<times> t_lan) run" where
  "diag_answer l line nl s =
     (if destroying s then Some (''SELF-DESTROYING'', s)
      else if line = ''cloonix_req_quit'' then do {
        s \<leftarrow> self_destroy s;
        Some (''cloonix_resp_quit'', s)
      }
      else do {
        v \<leftarrow> scan_line [LAN_NAME_LEN, LAN_NAME_LEN] (fmt_of ''muend_req_handshake'') line;
        case v of
          [SStr lan, SStr name, SDec num, SDec tidx] \<Rightarrow> do {
            kout_if (lan \<noteq> g_name s);
            Some (c_trunc (LAN_PATH_LEN - 1) (line_of ''muend_resp_handshake_ok'' lan name num tidx), s)
          }
        | _ \<Rightarrow> do {
            v \<leftarrow> scan_line [LAN_PATH_LEN, LAN_NAME_LEN] fmt_listen line;
            case v of
              [SStr path, SStr lan] \<Rightarrow> do {
                kout_if (lan \<noteq> g_name s);
                req_listen nl path s
              }
            | _ \<Rightarrow> rank_dialog l line ''KO'' s
          }
      })"

definition rpct_recv_diag_msg :: "int \<Rightarrow> int \<Rightarrow> string \<Rightarrow> int \<Rightarrow> t_lan \<Rightarrow> t_lan run" where
  "rpct_recv_diag_msg l tid line nl s = do {
     (resp, s) \<leftarrow> diag_answer l line nl s;
     Some (if take 2 resp = ''KO'' then s else send_diag l tid resp s)
   }"

section \<open>The ends of channels\<close>

definition lan_client_err_cb :: "int \<Rightarrow> t_lan \<Rightarrow> t_lan run" where
  "lan_client_err_cb l s = do {
     e \<leftarrow> lan_exist_channel l s;
     s \<leftarrow> (if e then lan_delete_channel l s else Some s);
     s \<leftarrow> llid_rank_sig_disconnect l s;
     Some (if l = cloonix_llid s then s\<lparr>ended := True\<rparr> else s)
   }"

definition err_traf_cb :: "int \<Rightarrow> t_lan \<Rightarrow> t_lan run" where
  "err_traf_cb l s = do {
     e \<leftarrow> lan_exist_channel l s;
     s \<leftarrow> (if e then lan_delete_channel l s else Some s);
     llid_rank_traf_disconnect l s
   }"

definition err_init_traf_cb :: "int \<Rightarrow> t_lan \<Rightarrow> t_lan run" where
  "err_init_traf_cb l s = do {
     e \<leftarrow> lan_exist_channel l s;
     s \<leftarrow> (if e then lan_delete_channel l s else Some s);
     tab \<leftarrow> get_llid_traf_tab l s;
     kout_if (tab = []);
     Some s
   }"

text \<open>\<open>err_blkd_channel\<close>; a socket that is listened on has \<open>default_err_kill\<close>.\<close>

definition lan_err_blkd_channel :: "int \<Rightarrow> t_lan \<Rightarrow> t_lan run" where
  "lan_err_blkd_channel l s =
     (if fifos (tx s) l = None then Some s
      else do {
        s \<leftarrow> (case lchans s l of
               Some Opening \<Rightarrow> err_init_traf_cb l s
             | Some Traffic \<Rightarrow> err_traf_cb l s
             | _ \<Rightarrow> None);
        if fifos (tx s) l \<noteq> None then lan_blkd_delete l s else Some s
      })"

section \<open>Traffic\<close>

text \<open>The number of the eight bytes of \<open>usec\<close>.\<close>

definition usec_num :: "u8 list \<Rightarrow> int" where
  "usec_num bs = i64 (foldr (\<lambda>b x. uint b + 256 * x) bs 0)"

text \<open>
  A packet that is received and sent on is one object: its bytes stay in the group they were read into.
  In the model it leaves the memory of the ring (\<open>blkd_free\<close>) and enters the memory of the sending
  side with the same contents (\<open>with_blkd\<close>).
\<close>

definition blkd_of_pkt :: "t_pkt \<Rightarrow> t_blkd" where
  "blkd_of_pkt k = \<lparr>count_reference = 0, blkd_group = None, qemu_group_rank = 0, blkd_llid = int (pk_llid k),
     blkd_type = int (pk_type k), blkd_val = int (pk_val k), blkd_usec = usec_num (pk_usec k),
     header_blkd_len = int HEADER_BLKD_SIZE, payload_len = int (length (pk_data k)), header_blkd = [], payload_blkd = pk_data k\<rparr>"

definition put_on_all :: "int list \<Rightarrow> t_pkt \<Rightarrow> t_lan \<Rightarrow> t_lan run" where
  "put_on_all tab k s =
     (if tab \<noteq> [] then
        (if PAYLOAD_BLKD_SIZE < int (length (pk_data k)) \<or> int (length (pk_data k)) \<le> 0 then Some s
         else do {
           t \<leftarrow> blkd_put_tx tab (next_blkd (tx s)) (with_blkd (blkd_of_pkt k) (tx s));
           Some (s\<lparr>tx := t\<rparr>)
         })
      else Some s)"

partial_function (option) traf_loop :: "int list \<Rightarrow> t_blkd_fifo_rx \<times> t_lan \<Rightarrow> (t_blkd_fifo_rx \<times> t_lan) run" where
  "traf_loop tab ps = do {
     (ob, p) \<leftarrow> blkd_rx_fifo_get (fst ps);
     case ob of
       None \<Rightarrow> Some (p, snd ps)
     | Some b \<Rightarrow> do {
         k \<leftarrow> rx_packet b p;
         p \<leftarrow> blkd_free b p;
         s \<leftarrow> put_on_all tab k (snd ps);
         traf_loop tab (p, s)
       }
   }"

definition rx_traf_cb :: "int \<Rightarrow> t_blkd_fifo_rx \<times> t_lan \<Rightarrow> (t_blkd_fifo_rx \<times> t_lan) run" where
  "rx_traf_cb l ps = do {
     tab \<leftarrow> get_llid_traf_tab l (snd ps);
     traf_loop tab ps
   }"

text \<open>The first packet of a socket; its text is read up to a NUL, which has to be in the packet.\<close>

definition pkt_text :: "t_pkt \<Rightarrow> string" where
  "pkt_text k = map (\<lambda>b. char_of (unat b)) (takeWhile (\<lambda>b. b \<noteq> 0) (pk_data k))"

definition opening_answer :: "int \<Rightarrow> t_pkt \<Rightarrow> t_lan \<Rightarrow> t_lan run" where
  "opening_answer l k s = do {
     ub_if (0 \<notin> set (pk_data k));
     v \<leftarrow> scan_line [LAN_PATH_LEN] fmt_opening (pkt_text k);
     case v of
       [SStr name, SDec num, SDec tidx] \<Rightarrow> do {
         (good, s) \<leftarrow> llid_rank_traf_connect l name num tidx s;
         Some (if good then s\<lparr>lchans := (lchans s)(l \<mapsto> Traffic)\<rparr> else s)
       }
     | _ \<Rightarrow> Some s
   }"

definition rx_init_traf_cb :: "int \<Rightarrow> t_blkd_fifo_rx \<times> t_lan \<Rightarrow> (t_blkd_fifo_rx \<times> t_lan) run" where
  "rx_init_traf_cb l ps = do {
     (ob, p) \<leftarrow> blkd_rx_fifo_get (fst ps);
     case ob of
       None \<Rightarrow> Some (p, snd ps)
     | Some b \<Rightarrow> do {
         k \<leftarrow> rx_packet b p;
         s \<leftarrow> opening_answer l k (snd ps);
         p \<leftarrow> blkd_free b p;
         Some (p, s)
       }
   }"

text \<open>
  \<open>rx_blkd_channel\<close> and \<open>tx_blkd_channel\<close> with the end of \<open>handle_io_on_fd\<close>: a channel whose call fails is
  deleted (\<open>channel_delete\<close>), its packet socket is not.
\<close>

definition lan_rx_ready :: "int \<Rightarrow> t_blkd_fifo_rx \<times> t_lan \<Rightarrow> (t_blkd_fifo_rx \<times> t_lan) run" where
  "lan_rx_ready l ps = (if lchans (snd ps) l = Some Traffic then rx_traf_cb l ps else rx_init_traf_cb l ps)"

definition lan_rx_blkd_channel :: "int \<Rightarrow> (int \<times> int) option \<Rightarrow> t_rd \<Rightarrow> t_lan \<Rightarrow> t_lan run" where
  "lan_rx_blkd_channel l rk rd s = (case rings s l of
     None \<Rightarrow> Some (channel_gone l s)
   | Some p \<Rightarrow> do {
       (res, p, s) \<leftarrow> blkd_fd_event_rx rk (lan_rx_ready l) rd (p, s);
       let s = s\<lparr>rings := (rings s)(l \<mapsto> p)\<rparr>;
       Some (if res < 0 then channel_gone l s else s)
     })"

definition lan_tx_blkd_channel :: "int \<Rightarrow> t_wr list \<Rightarrow> t_lan \<Rightarrow> t_lan run" where
  "lan_tx_blkd_channel l ws s =
     (if fifos (tx s) l = None then Some (channel_gone l s)
      else do {
        (res, t) \<leftarrow> blkd_fd_event_tx l ws (tx s);
        let s = s\<lparr>tx := t\<rparr>;
        Some (if res < 0 then channel_gone l s else s)
      })"

section \<open>The process\<close>

text \<open>
  What happens to the process: a client connects, sends a line (\<open>nl\<close> is the number that a new socket
  gets), leaves; somebody connects to the traffic socket \<open>lis\<close> and will write the packets \<open>ks\<close>; such a
  socket can be read (up to \<open>n\<close> bytes), fails, can be written to, is closed by the peer; the timeout of
  \<open>self_destroy\<close>. The system gives an event only to a channel that exists, and a number to a channel
  only when no other has it.
\<close>

datatype lan_ev =
    Client_connect int
  | Diag int int string int
  | Client_err int
  | Traf_connect int int "t_pkt list"
  | Traf_read int "(int \<times> int) option" nat
  | Traf_read_fails int "(int \<times> int) option"
  | Traf_write int "t_wr list"
  | Traf_err int
  | Destroy

text \<open>What a read of up to \<open>n\<close> bytes finds.\<close>

definition lan_bytes :: "int \<Rightarrow> nat \<Rightarrow> t_lan \<Rightarrow> u8 list" where
  "lan_bytes c n s = (case rings s c of
     None \<Rightarrow> []
   | Some p \<Rightarrow> take (min n (rx_room p)) (drop (in_read s c) (rx_text (in_pkts s c))))"

definition client_connect :: "int \<Rightarrow> t_lan \<Rightarrow> t_lan" where
  "client_connect c s = (let s = (if cloonix_llid s = 0 then s\<lparr>cloonix_llid := c\<rparr> else s) in
     s\<lparr>lchans := (lchans s)(c \<mapsto> Client)\<rparr>)"

definition traf_connection :: "int \<Rightarrow> t_pkt list \<Rightarrow> t_lan \<Rightarrow> t_lan run" where
  "traf_connection c ks s =
     map_option (\<lambda>s. s\<lparr>lchans := (lchans s)(c \<mapsto> Opening), in_pkts := (in_pkts s)(c := ks), in_read := (in_read s)(c := 0)\<rparr>)
       (lan_alloc_blkd c s)"

definition is_traf :: "int \<Rightarrow> t_lan \<Rightarrow> bool" where
  "is_traf c s \<longleftrightarrow> lchans s c = Some Opening \<or> lchans s c = Some Traffic"

definition lan_step :: "t_lan \<Rightarrow> lan_ev \<Rightarrow> t_lan run" where
  "lan_step s e =
     (if ended s then Some s
      else case e of
        Client_connect c \<Rightarrow> Some (if usable_llid c s then client_connect c s else s)
      | Diag l tid line nl \<Rightarrow>
          if lchans s l = Some Client then rpct_recv_diag_msg l tid line (if usable_llid nl s then nl else 0) s else Some s
      | Client_err l \<Rightarrow> if lchans s l = Some Client then lan_client_err_cb l s else Some s
      | Traf_connect lis c ks \<Rightarrow> if lchans s lis = Some Listen \<and> usable_llid c s then traf_connection c ks s else Some s
      | Traf_read c rk n \<Rightarrow>
          if is_traf c s
          then (let bs = lan_bytes c n s in
            lan_rx_blkd_channel c rk (if bs = [] then Rd_nothing else Rd_bytes bs)
              (s\<lparr>in_read := (in_read s)(c := in_read s c + length bs)\<rparr>))
          else Some s
      | Traf_read_fails c rk \<Rightarrow> if is_traf c s then lan_rx_blkd_channel c rk Rd_error s else Some s
      | Traf_write c ws \<Rightarrow> if is_traf c s then lan_tx_blkd_channel c ws s else Some s
      | Traf_err c \<Rightarrow>
          if is_traf c s \<or> lchans s c = Some Listen
          then map_option (\<lambda>t. if lchans t c \<noteq> None then channel_gone c t else t) (lan_err_blkd_channel c s)
          else Some s
      | Destroy \<Rightarrow> Some (if destroy_timer s then s\<lparr>ended := True\<rparr> else s))"

definition lan_start :: "string \<Rightarrow> t_lan" where
  "lan_start name = \<lparr>g_name = take (LAN_NAME_LEN - 1) name, g_head = [], next_dr = 0, traf_chain = [], sock_traf_nb = 0, max_ranks = 0,
     rank_present = (\<lambda>_. None), listen_path = [], llid_listen = 0, destroying = False, cloonix_llid = 0, lchans = (\<lambda>_. None),
     tx = tx_start [], rings = (\<lambda>_. None), blkd_rank = (\<lambda>_. 0), in_pkts = (\<lambda>_. []), in_read = (\<lambda>_. 0), diag_out = [],
     destroy_timer = False, ended = False\<rparr>"

end
