(* ===== verification/Endp_Dialog.thy ===== *)
theory Endp_Dialog
  imports Lan_Switch
begin

text \<open>
  The endpoints of a LAN: what \<open>lib_muend\<close> does for the processes that connect to LANs
  (\<open>lib_muend/src/diag.c\<close>, \<open>sock_fd.c\<close>).
\<close>

section \<open>State\<close>

definition MAX_TRAF_ENDPOINT :: int where "MAX_TRAF_ENDPOINT = 4"

record t_traf_endp =
  llid_traf :: int
  llid_lan :: int
  con_name :: string
  con_llid :: int
  con_tid :: int
  timeout_mulan_id :: int

text \<open>The report of a packet socket: the name of the LAN, the number, the index and the rank.\<close>

record t_report_item =
  rank_name :: string
  rank_num :: int
  rank_tidx :: int
  item_rank :: int

text \<open>
  The memory of the process: the endpoints, the channels (\<open>True\<close> for a packet socket), the reports of
  the packet sockets, the timeouts of \<open>fct_timeout_mulan\<close> in the order they are armed, the messages that
  have been sent, the texts that were put on packet sockets.
\<close>

record t_timer_data =
  td_tidx :: int
  td_num :: int
  td_lan :: string
  td_id :: int

record t_mu =
  mu_name :: string
  mu_num :: int
  mu_cloonix :: int
  g_traf_endp :: "nat \<Rightarrow> t_traf_endp"
  mu_chans :: "int \<Rightarrow> bool option"
  reports :: "int \<Rightarrow> t_report_item option"
  mu_timers :: "t_timer_data list"
  mu_out :: "(int \<times> int \<times> string) list"
  mu_puts :: "(int \<times> string) list"
  mu_ended :: bool

section \<open>Channels\<close>

definition mu_exist_channel :: "int \<Rightarrow> t_mu \<Rightarrow> bool run" where
  "mu_exist_channel l s =
     (if l \<noteq> 0 then do {
        kout_if (l \<le> 0 \<or> MAX_CHANNELS \<le> l);
        Some (mu_chans s l \<noteq> None)
      } else Some False)"

definition mu_delete_channel :: "int \<Rightarrow> t_mu \<Rightarrow> t_mu run" where
  "mu_delete_channel l s = do {
     kout_if (l \<le> 0 \<or> MAX_CHANNELS \<le> l \<or> mu_chans s l = None);
     Some (s\<lparr>mu_chans := (mu_chans s)(l := None), reports := (reports s)(l := None)\<rparr>)
   }"

text \<open>The field of the table of the endpoints; another index is memory that is not the table's.\<close>

definition endp_at :: "int \<Rightarrow> t_mu \<Rightarrow> t_traf_endp run" where
  "endp_at i s = do {
     ub_if (i < 0 \<or> MAX_TRAF_ENDPOINT \<le> i);
     Some (g_traf_endp s (nat i))
   }"

definition endp_upd :: "int \<Rightarrow> (t_traf_endp \<Rightarrow> t_traf_endp) \<Rightarrow> t_mu \<Rightarrow> t_mu" where
  "endp_upd i f s = s\<lparr>g_traf_endp := (g_traf_endp s)(nat i := f (g_traf_endp s (nat i)))\<rparr>"

definition mu_send :: "int \<Rightarrow> int \<Rightarrow> string \<Rightarrow> t_mu \<Rightarrow> t_mu" where
  "mu_send l tid line s = s\<lparr>mu_out := mu_out s @ [(l, tid, line)]\<rparr>"

text \<open>A channel is deleted if it exists.\<close>

definition mu_close :: "int \<Rightarrow> t_mu \<Rightarrow> t_mu run" where
  "mu_close l s =
     (if l \<noteq> 0 then do {
        e \<leftarrow> mu_exist_channel l s;
        if e then mu_delete_channel l s else Some s
      } else Some s)"

definition sock_fd_finish :: "int \<Rightarrow> t_mu \<Rightarrow> t_mu run" where
  "sock_fd_finish tidx s = do {
     t \<leftarrow> endp_at tidx s;
     s \<leftarrow> mu_close (llid_traf t) s;
     let s = endp_upd tidx (\<lambda>t. t\<lparr>llid_traf := 0\<rparr>) s;
     s \<leftarrow> mu_close (llid_lan t) s;
     Some (endp_upd tidx (\<lambda>t. t\<lparr>llid_lan := 0\<rparr>) s)
   }"

text \<open>\<open>blkd_client_connect\<close>: \<open>nl\<close> is the number of the new channel, not positive when there is none.\<close>

definition sock_fd_open :: "int \<Rightarrow> int \<Rightarrow> t_mu \<Rightarrow> (bool \<times> t_mu) run" where
  "sock_fd_open tidx nl s = do {
     kout_if (tidx < 0 \<or> MAX_TRAF_ENDPOINT \<le> tidx);
     if nl \<le> 0 then Some (False, s)
     else Some (True, endp_upd tidx (\<lambda>t. t\<lparr>llid_traf := nl\<rparr>)
       (s\<lparr>mu_chans := (mu_chans s)(nl \<mapsto> True),
          reports := (reports s)(nl \<mapsto> \<lparr>rank_name = ''undefined'', rank_num = -1, rank_tidx = -1, item_rank = 0\<rparr>)\<rparr>))
   }"

definition mu_set_rank :: "int \<Rightarrow> int \<Rightarrow> string \<Rightarrow> int \<Rightarrow> int \<Rightarrow> t_mu \<Rightarrow> t_mu" where
  "mu_set_rank l rank lan num tidx s =
     (if reports s l = None then s
      else s\<lparr>reports := (reports s)(l \<mapsto> \<lparr>rank_name = take (LAN_NAME_LEN - 1) lan, rank_num = num, rank_tidx = tidx, item_rank = rank\<rparr>)\<rparr>)"

text \<open>Without a report, or without a rank in it, nothing is stored for the caller: \<open>resp_send_mueth_con_ok\<close> would
  compare with a name that was never written, which the model does not go on with.\<close>

definition mu_get_rank :: "int \<Rightarrow> t_mu \<Rightarrow> int run" where
  "mu_get_rank l s = (case reports s l of
     None \<Rightarrow> None
   | Some r \<Rightarrow> if rank_num r = -1 \<or> rank_tidx r = -1 then None else Some (item_rank r))"

section \<open>The answers to the server\<close>

definition answered :: "t_traf_endp \<Rightarrow> t_traf_endp" where
  "answered t = t\<lparr>timeout_mulan_id := timeout_mulan_id t + 1, con_llid := 0, con_tid := 0\<rparr>"

definition resp_send_mueth_con_ko :: "string \<Rightarrow> int \<Rightarrow> int \<Rightarrow> t_mu \<Rightarrow> t_mu run" where
  "resp_send_mueth_con_ko lan num tidx s = do {
     t \<leftarrow> endp_at tidx s;
     if con_llid t \<noteq> 0 then do {
       e \<leftarrow> mu_exist_channel (con_llid t) s;
       let s = (if e then mu_send (con_llid t) (con_tid t)
                  (c_trunc (LAN_PATH_LEN - 1) (line_of ''cloonix_resp_connect_ko'' lan (mu_name s) num tidx)) s else s);
       Some (endp_upd tidx answered s)
     } else Some s
   }"

definition resp_send_mueth_con_ok :: "string \<Rightarrow> int \<Rightarrow> int \<Rightarrow> t_mu \<Rightarrow> t_mu run" where
  "resp_send_mueth_con_ok lan num tidx s = do {
     t \<leftarrow> endp_at tidx s;
     if con_llid t \<noteq> 0 then do {
       e \<leftarrow> mu_exist_channel (con_llid t) s;
       s \<leftarrow> (if e then do {
               rank \<leftarrow> mu_get_rank (llid_traf t) s;
               Some (mu_send (con_llid t) (con_tid t)
                 (c_trunc (LAN_PATH_LEN - 1) (rank_line ''cloonix_resp_connect_ok'' lan (mu_name s) num tidx rank)) s)
             } else Some s);
       Some (endp_upd tidx answered s)
     } else Some s
   }"

section \<open>The lines of a LAN\<close>

definition fmt_alloc_ok :: "scan_item list" where
  "fmt_alloc_ok = fmt_rank ''muend_resp_rank_alloc_ok'' @ [Blank, Lit ''traf='', Str]"

definition opening_line :: "string \<Rightarrow> int \<Rightarrow> int \<Rightarrow> string" where
  "opening_line name num tidx = ''TRAFFIC_OPENING: name='' @ name @ '' num='' @ dec_int num @ '' tidx='' @ dec_int tidx"

text \<open>\<open>lan_diag\<close>: the line that goes back, empty if there is none, with the index it is sent for; \<open>None\<close> as the
  result is a line that is not understood.\<close>

definition alloc_ok :: "string \<Rightarrow> string \<Rightarrow> int \<Rightarrow> int \<Rightarrow> int \<Rightarrow> int \<Rightarrow> t_mu \<Rightarrow> (string \<times> t_mu) run" where
  "alloc_ok lan name num tidx rank nl s = do {
     kout_if (mu_name s \<noteq> name);
     kout_if (mu_num s \<noteq> num);
     (opened, s) \<leftarrow> sock_fd_open tidx nl s;
     if \<not> opened then map_option (\<lambda>s. ([], s)) (sock_fd_finish tidx s)
     else do {
       t \<leftarrow> endp_at tidx s;
       let s = mu_set_rank (llid_traf t) (i32 rank) lan num tidx s;
       Some (c_trunc (MAX_RESP_LEN - 1) (rank_line ''muend_ack_rank'' lan (mu_name s) num tidx (i32 rank)),
         s\<lparr>mu_puts := mu_puts s @ [(llid_traf t, c_trunc (LAN_PATH_LEN - 1) (opening_line name num tidx))]\<rparr>)
     }
   }"

definition handshake_ok :: "string \<Rightarrow> string \<Rightarrow> int \<Rightarrow> int \<Rightarrow> t_mu \<Rightarrow> (string \<times> t_mu) run" where
  "handshake_ok lan name num tidx s = do {
     t \<leftarrow> endp_at tidx s;
     kout_if (mu_name s \<noteq> name);
     e \<leftarrow> mu_exist_channel (llid_lan t) s;
     kout_if (\<not> e);
     kout_if (con_name t \<noteq> lan);
     Some (c_trunc (MAX_RESP_LEN - 1) (line_of ''muend_req_rank'' lan name num tidx), s)
   }"

text \<open>The values of a line that matches its format.\<close>

fun of_four :: "scan_val list \<Rightarrow> (string \<times> string \<times> int \<times> int) option" where
  "of_four [SStr lan, SStr name, SDec num, SDec tidx] = Some (lan, name, num, tidx)"
| "of_four _ = None"

fun of_five :: "scan_val list \<Rightarrow> (string \<times> string \<times> int \<times> int \<times> int) option" where
  "of_five [SStr lan, SStr name, SDec num, SDec tidx, SDec rank] = Some (lan, name, num, tidx, rank)"
| "of_five _ = None"

definition of_alloc_ok :: "scan_val list \<Rightarrow> (string \<times> string \<times> int \<times> int \<times> int) option" where
  "of_alloc_ok vs = (if length vs = 6 then of_five (take 5 vs) else None)"

definition lan_diag :: "string \<Rightarrow> int \<Rightarrow> t_mu \<Rightarrow> (string \<times> int \<times> t_mu) run" where
  "lan_diag line nl s = do {
     let w = [LAN_NAME_LEN, LAN_NAME_LEN];
     v \<leftarrow> scan_line w (fmt_rank ''mulan_req_start'') line;
     case of_five v of
       Some (lan, name, num, tidx, rank) \<Rightarrow> do {
         kout_if (mu_name s \<noteq> name);
         map_option (\<lambda>s. ([], tidx, s)) (resp_send_mueth_con_ok lan num tidx s)
       }
     | None \<Rightarrow> do {
     v \<leftarrow> scan_line w (fmt_rank ''mulan_req_end'') line;
     case of_five v of
       Some (lan, name, num, tidx, rank) \<Rightarrow> do {
         kout_if (mu_name s \<noteq> name);
         map_option (\<lambda>s. ([], tidx, s)) (sock_fd_finish tidx s)
       }
     | None \<Rightarrow> do {
     v \<leftarrow> scan_line w (fmt_of ''muend_resp_handshake_ok'') line;
     case of_four v of
       Some (lan, name, num, tidx) \<Rightarrow> map_option (\<lambda>(r, s). (r, tidx, s)) (handshake_ok lan name num tidx s)
     | None \<Rightarrow> do {
     v \<leftarrow> scan_line w (fmt_of ''muend_resp_rank_alloc_ko'') line;
     case of_four v of
       Some (lan, name, num, tidx) \<Rightarrow> do {
         kout_if (mu_name s \<noteq> name);
         map_option (\<lambda>s. ([], tidx, s)) (sock_fd_finish tidx s)
       }
     | None \<Rightarrow> do {
     v \<leftarrow> scan_line (w @ [LAN_PATH_LEN]) fmt_alloc_ok line;
     case of_alloc_ok v of
       Some (lan, name, num, tidx, rank) \<Rightarrow> map_option (\<lambda>(r, s). (r, tidx, s)) (alloc_ok lan name num tidx (rank mod 2 ^ 32) nl s)
     | None \<Rightarrow> Some ([], 0, s)
     }}}}
   }"

section \<open>The lines of the server\<close>

definition fmt_connect :: "scan_item list" where
  "fmt_connect = [Lit ''cloonix_req_connect'', Blank, Lit ''sock='', Str, Blank, Lit ''lan='', Str, Blank, Lit ''name='', Str,
     Blank, Lit ''num='', Dec, Blank, Lit ''tidx='', Dec]"

definition of_connect :: "scan_val list \<Rightarrow> (string \<times> string \<times> int \<times> int) option" where
  "of_connect vs = (if length vs = 5 then of_four (tl vs) else None)"

definition connect_line :: "string \<Rightarrow> string \<Rightarrow> string \<Rightarrow> int \<Rightarrow> int \<Rightarrow> string" where
  "connect_line sock lan name num tidx = ''cloonix_req_connect sock='' @ sock @ '' lan='' @ lan @ '' name='' @ name @
     '' num='' @ dec_int num @ '' tidx='' @ dec_int tidx"

text \<open>\<open>string_client_unix\<close>: \<open>nl\<close> is the number of the new channel to the LAN, 0 when there is none.\<close>

definition connect_req_process :: "int \<Rightarrow> int \<Rightarrow> string \<Rightarrow> string \<Rightarrow> int \<Rightarrow> int \<Rightarrow> int \<Rightarrow> t_mu \<Rightarrow> (string \<times> t_mu) run" where
  "connect_req_process l tid lan name num tidx nl s = do {
     let ko = c_trunc (LAN_PATH_LEN - 1) (line_of ''cloonix_resp_connect_ko'' lan name num tidx);
     t \<leftarrow> endp_at tidx s;
     e \<leftarrow> mu_exist_channel (llid_lan t) s;
     Some (if e then (ko, s)
       else if nl = 0 then (ko, endp_upd tidx (\<lambda>t. t\<lparr>llid_lan := 0\<rparr>) s)
       else ([], mu_send nl 0 (c_trunc (LAN_PATH_LEN - 1) (line_of ''muend_req_handshake'' lan name num tidx))
         (endp_upd tidx (\<lambda>t. t\<lparr>llid_lan := nl, con_name := take (LAN_NAME_LEN - 1) lan, con_llid := l, con_tid := tid\<rparr>)
           (s\<lparr>mu_chans := (mu_chans s)(nl \<mapsto> False),
              mu_timers := mu_timers s @ [\<lparr>td_tidx = tidx, td_num = num, td_lan = take (LAN_NAME_LEN - 1) lan, td_id = timeout_mulan_id t\<rparr>]\<rparr>))))
   }"

definition starts_with :: "string \<Rightarrow> string \<Rightarrow> bool" where
  "starts_with line w \<longleftrightarrow> take (length w) line = w"

definition ok_ko :: "bool \<Rightarrow> string \<Rightarrow> string" where
  "ok_ko ok w = w @ (if ok then ''_ok'' else ''_ko'')"

text \<open>
  The chain of the tests: the answer to the server, the answer to the LAN with its index, the state.
  \<open>nl\<close> is the number of the channel that the line may open, \<open>ok\<close> what \<open>setuid\<close> or the opening of a device says.
\<close>

definition mu_requests :: "int \<Rightarrow> int \<Rightarrow> string \<Rightarrow> int \<Rightarrow> bool \<Rightarrow> t_mu \<Rightarrow> (string \<times> string \<times> int \<times> t_mu) run" where
  "mu_requests l tid line nl ok s = do {
     v \<leftarrow> scan_line [LAN_PATH_LEN, LAN_NAME_LEN, LAN_NAME_LEN] fmt_connect line;
     case of_connect v of
       Some (lan, name, num, tidx) \<Rightarrow> do {
         kout_if (mu_name s \<noteq> name);
         map_option (\<lambda>(r, s). (r, [], tidx, s)) (connect_req_process l tid lan name num tidx nl s)
       }
     | None \<Rightarrow> do {
     v \<leftarrow> scan_line [LAN_NAME_LEN, LAN_NAME_LEN] (fmt_of ''cloonix_req_disconnect'') line;
     case of_four v of
       Some (lan, name, num, tidx) \<Rightarrow> do {
         kout_if (mu_name s \<noteq> name);
         s \<leftarrow> sock_fd_finish tidx s;
         Some (c_trunc (LAN_PATH_LEN - 1) (line_of ''cloonix_resp_disconnect_ok'' lan name num tidx), [], tidx, s)
       }
     | None \<Rightarrow>
       if starts_with line ''cloonix_req_suidroot'' then Some (ok_ko ok ''cloonix_resp_suidroot'', [], 0, s)
       else if starts_with line ''cloonix_req_tap'' then Some (ok_ko ok ''cloonix_resp_tap'', [], 0, s)
       else if starts_with line ''cloonix_req_wif'' then Some (ok_ko ok ''cloonix_resp_wif'', [], 0, s)
       else if starts_with line ''cloonix_req_raw'' then Some (ok_ko ok ''cloonix_resp_raw'', [], 0, s)
       else if starts_with line ''cloonix_req_snf'' then Some (''cloonix_resp_snf_ok'', [], 0, s)
       else if line = ''cloonix_req_c2c'' then Some (''cloonix_resp_c2c_ok'', [], 0, s)
       else if line = ''cloonix_req_a2b'' then Some (''cloonix_resp_a2b_ok'', [], 0, s)
       else if line = ''cloonix_req_nat'' then Some (''cloonix_resp_nat_ok'', [], 0, s)
       else if line = ''cloonix_req_kvm'' then Some (''cloonix_resp_kvm_ok'', [], 0, s)
       else map_option (\<lambda>(r, tidx, s). ([], r, tidx, s)) (lan_diag line nl s)
     }}"

definition mu_recv_diag_msg :: "int \<Rightarrow> int \<Rightarrow> string \<Rightarrow> int \<Rightarrow> bool \<Rightarrow> t_mu \<Rightarrow> t_mu run" where
  "mu_recv_diag_msg l tid line nl ok s =
     (if line = ''cloonix_req_quit'' then Some (s\<lparr>mu_ended := True\<rparr>)
      else do {
        (cloonix, lan, tidx, s) \<leftarrow> mu_requests l tid line nl ok s;
        s \<leftarrow> (if cloonix \<noteq> [] then do {
                kout_if (mu_cloonix s = 0);
                kout_if (mu_cloonix s \<noteq> l);
                Some (mu_send l 0 cloonix s)
              } else Some s);
        if lan \<noteq> [] then do {
          t \<leftarrow> endp_at tidx s;
          kout_if (llid_lan t = 0);
          kout_if (llid_lan t \<noteq> l);
          Some (mu_send l 0 lan s)
        } else Some s
      })"

section \<open>The ends of channels and the timeout\<close>

definition fct_timeout_mulan :: "t_timer_data \<Rightarrow> t_mu \<Rightarrow> t_mu run" where
  "fct_timeout_mulan td s = do {
     kout_if (td_tidx td < 0 \<or> MAX_TRAF_ENDPOINT < td_tidx td);
     t \<leftarrow> endp_at (td_tidx td) s;
     if td_id td = timeout_mulan_id t
     then resp_send_mueth_con_ko (td_lan td) (td_num td) (td_tidx td) s \<bind> sock_fd_finish (td_tidx td)
     else Some s
   }"

definition endp_with :: "(t_traf_endp \<Rightarrow> bool) \<Rightarrow> t_mu \<Rightarrow> nat option" where
  "endp_with P s = find (\<lambda>i. P (g_traf_endp s i)) [0..<nat MAX_TRAF_ENDPOINT]"

definition mu_err_cb :: "int \<Rightarrow> t_mu \<Rightarrow> t_mu run" where
  "mu_err_cb l s = do {
     e \<leftarrow> mu_exist_channel l s;
     s \<leftarrow> (if e then mu_delete_channel l s else Some s);
     Some (case endp_with (\<lambda>t. llid_lan t = l) s of
             None \<Rightarrow> s
           | Some i \<Rightarrow> endp_upd (int i) (\<lambda>t. t\<lparr>llid_lan := 0\<rparr>) s)
   }"

definition get_tidx :: "int \<Rightarrow> t_mu \<Rightarrow> int run" where
  "get_tidx l s = map_option int (endp_with (\<lambda>t. llid_traf t = l) s)"

definition err_sock_cb :: "int \<Rightarrow> t_mu \<Rightarrow> t_mu run" where
  "err_sock_cb l s = do {
     tidx \<leftarrow> get_tidx l s;
     sock_fd_finish tidx s
   }"

definition cloonix_connect :: "int \<Rightarrow> t_mu \<Rightarrow> t_mu" where
  "cloonix_connect nl s = s\<lparr>mu_cloonix := (if mu_cloonix s = 0 then nl else mu_cloonix s), mu_chans := (mu_chans s)(nl \<mapsto> False)\<rparr>"

text \<open>The channels that a packet is put on (\<open>sock_fd_tx\<close>).\<close>

fun tx_channels :: "nat list \<Rightarrow> t_mu \<Rightarrow> int list run" where
  "tx_channels [] s = Some []"
| "tx_channels (i # is) s = do {
     let l = llid_traf (g_traf_endp s i);
     e \<leftarrow> (if l \<noteq> 0 then mu_exist_channel l s else Some False);
     ls \<leftarrow> tx_channels is s;
     Some (if e then l # ls else ls)
   }"

definition mu_start :: "string \<Rightarrow> int \<Rightarrow> t_mu" where
  "mu_start name num = \<lparr>mu_name = take (LAN_NAME_LEN - 1) name, mu_num = num, mu_cloonix = 0,
     g_traf_endp = (\<lambda>_. \<lparr>llid_traf = 0, llid_lan = 0, con_name = [], con_llid = 0, con_tid = 0, timeout_mulan_id = 1\<rparr>),
     mu_chans = (\<lambda>_. None), reports = (\<lambda>_. None), mu_timers = [], mu_out = [], mu_puts = [], mu_ended = False\<rparr>"

end
