(* ===== verification/Endp_Lines.thy ===== *)
theory Endp_Lines
  imports Endp_Dialog
begin

text \<open>
  The lines between an endpoint and its LAN: each is read back as what was printed, and by no test that
  comes before.
\<close>

section \<open>Reading back\<close>

definition word :: "nat \<Rightarrow> string \<Rightarrow> bool" where
  "word n w \<longleftrightarrow> w \<noteq> [] \<and> length w < n \<and> (\<forall>c \<in> set w. \<not> is_space c)"

definition small :: "int \<Rightarrow> bool" where
  "small i \<longleftrightarrow> - (2 ^ 31) \<le> i \<and> i < 2 ^ 31"

definition ends_word :: "string \<Rightarrow> bool" where
  "ends_word r \<longleftrightarrow> r = [] \<or> is_space (hd r)"

lemma ends_wordD: "ends_word r \<Longrightarrow> r = [] \<or> \<not> is_digit (hd r)"
  using is_digit_not_space by (auto simp: ends_word_def)

lemma sscanf_lit: "sscanf (Lit w # fs) (w @ s) = sscanf fs s"
  by simp

lemma sscanf_sep:
  "sscanf (Blank # Lit ''lan='' # fs) ('' lan='' @ s) = sscanf fs s"
  "sscanf (Blank # Lit ''name='' # fs) ('' name='' @ s) = sscanf fs s"
  "sscanf (Blank # Lit ''num='' # fs) ('' num='' @ s) = sscanf fs s"
  "sscanf (Blank # Lit ''tidx='' # fs) ('' tidx='' @ s) = sscanf fs s"
  "sscanf (Blank # Lit ''rank='' # fs) ('' rank='' @ s) = sscanf fs s"
  "sscanf (Blank # Lit ''traf='' # fs) ('' traf='' @ s) = sscanf fs s"
  "sscanf (Blank # Lit ''sock='' # fs) ('' sock='' @ s) = sscanf fs s"
  by (simp_all add: is_space_def scan_char_def)

lemma sscanf_str: "word n w \<Longrightarrow> ends_word r \<Longrightarrow> sscanf (Str # fs) (w @ r) = SStr w # sscanf fs r"
  by (simp add: scan_word_self word_def ends_word_def)

lemma sscanf_dec: "small i \<Longrightarrow> ends_word r \<Longrightarrow> sscanf (Dec # fs) (dec_int i @ r) = SDec i # sscanf fs r"
  using scan_int_dec [of i r] ends_wordD by (simp add: small_def)

lemma ends_word_simps [simp]: "ends_word []" "ends_word ('' name='' @ s)" "ends_word ('' num='' @ s)" "ends_word ('' tidx='' @ s)"
  "ends_word ('' rank='' @ s)" "ends_word ('' traf='' @ s)" "ends_word ('' lan='' @ s)"
  by (simp_all add: ends_word_def is_space_def)

lemma sscanf_of:
  assumes "word n lan" "word n' name" "small num" "small tidx" "ends_word r"
  shows "sscanf (fmt_of w @ fs) (line_of w lan name num tidx @ r) = SStr lan # SStr name # SDec num # SDec tidx # sscanf fs r"
proof -
  have f: "fmt_of w @ fs = Lit w # Blank # Lit ''lan='' # Str # Blank # Lit ''name='' # Str # Blank # Lit ''num='' # Dec #
      Blank # Lit ''tidx='' # Dec # fs"
    by (simp add: fmt_of_def)
  have l: "line_of w lan name num tidx @ r = w @ '' lan='' @ lan @ '' name='' @ name @ '' num='' @ dec_int num @ '' tidx='' @ dec_int tidx @ r"
    by (simp only: line_of_def append_assoc)
  show ?thesis
    unfolding f l by (simp only: sscanf_lit sscanf_sep ends_word_simps assms
      sscanf_str [OF assms(1)] sscanf_str [OF assms(2)] sscanf_dec [OF assms(3)] sscanf_dec [OF assms(4)])
qed

lemma sscanf_of_self:
  assumes "word n lan" "word n' name" "small num" "small tidx"
  shows "sscanf (fmt_of w) (line_of w lan name num tidx) = [SStr lan, SStr name, SDec num, SDec tidx]"
  using sscanf_of [OF assms, of "[]" w "[]"] by simp

lemma sscanf_rank:
  assumes "word n lan" "word n' name" "small num" "small tidx" "small rank" "ends_word r"
  shows "sscanf (fmt_rank w @ fs) (rank_line w lan name num tidx rank @ r) =
    SStr lan # SStr name # SDec num # SDec tidx # SDec rank # sscanf fs r"
proof -
  have "sscanf (fmt_rank w @ fs) (rank_line w lan name num tidx rank @ r) =
      sscanf (fmt_of w @ Blank # Lit ''rank='' # Dec # fs) (line_of w lan name num tidx @ '' rank='' @ dec_int rank @ r)"
    by (simp only: fmt_rank_def rank_line_def append_assoc append_Cons append_Nil)
  also have "\<dots> = SStr lan # SStr name # SDec num # SDec tidx # SDec rank # sscanf fs r"
    using sscanf_dec [OF assms(5,6)] by (simp only: sscanf_of [OF assms(1-4)] ends_word_simps sscanf_sep)
  finally show ?thesis .
qed

text \<open>The first words of the lines and formats keep them apart.\<close>

lemma scan_lit_other: "take (length w) s \<noteq> w \<Longrightarrow> scan_lit w s = None"
proof (induction w arbitrary: s)
  case (Cons c w)
  then show ?case by (cases s) (auto simp: scan_char_def)
qed simp

lemma sscanf_other: "take (length w) line \<noteq> w \<Longrightarrow> sscanf (Lit w # fs) line = []"
  by (simp add: scan_lit_other)

lemma differs:
  assumes "take (length w) w' \<noteq> take (length w') w"
  shows "take (length w') (w @ x) \<noteq> w'"
proof
  assume e: "take (length w') (w @ x) = w'"
  have "take (length w') w = take (length w') (take (length w) (w @ x))" by simp
  also have "\<dots> = take (length w) (take (length w') (w @ x))" by (simp only: take_take min.commute)
  also have "\<dots> = take (length w) w'" by (simp only: e)
  finally show False using assms by simp
qed

lemma other_line:
  assumes "take (length w) w' \<noteq> take (length w') w"
  shows "sscanf (fmt_of w') (line_of w lan name num tidx @ r) = []" "sscanf (fmt_rank w') (line_of w lan name num tidx @ r) = []"
    "sscanf (fmt_rank w' @ fs) (line_of w lan name num tidx @ r) = []"
  using differs [OF assms] unfolding fmt_of_def fmt_rank_def line_of_def append_assoc append_Cons by (intro sscanf_other; blast)+

lemma other_rank_line:
  assumes "take (length w) w' \<noteq> take (length w') w"
  shows "sscanf (fmt_of w') (rank_line w lan name num tidx rank @ r) = []" "sscanf (fmt_rank w') (rank_line w lan name num tidx rank @ r) = []"
    "sscanf (fmt_rank w' @ fs) (rank_line w lan name num tidx rank @ r) = []"
  unfolding rank_line_def append_assoc using other_line [OF assms] by blast+

lemma other_fixed:
  assumes "take (length w) w' \<noteq> take (length w') w"
  shows "sscanf (Lit w' # fs) (line_of w lan name num tidx @ r) = []" "sscanf (Lit w' # fs) (rank_line w lan name num tidx rank @ r) = []"
  using differs [OF assms] unfolding rank_line_def line_of_def append_assoc by (intro sscanf_other; blast)+

text \<open>The opening and the request of the server.\<close>

lemma sscanf_opening:
  assumes "word n name" "small num" "small tidx"
  shows "sscanf fmt_opening (opening_line name num tidx) = [SStr name, SDec num, SDec tidx]"
proof -
  have f: "fmt_opening = Lit ''TRAFFIC_OPENING:'' # Blank # Lit ''name='' # Str # Blank # Lit ''num='' # Dec # Blank # Lit ''tidx='' # Dec # []"
    by (simp add: fmt_opening_def)
  have l: "opening_line name num tidx = ''TRAFFIC_OPENING:'' @ '' name='' @ name @ '' num='' @ dec_int num @ '' tidx='' @ dec_int tidx @ []"
    by (simp add: opening_line_def)
  show ?thesis
    unfolding f l by (simp only: sscanf_lit sscanf_sep ends_word_simps sscanf_str [OF assms(1)] sscanf_dec [OF assms(2)] sscanf_dec [OF assms(3)]
      sscanf.simps(1))
qed

lemma sscanf_connect:
  assumes "word n sock" "word n' lan" "word n'' name" "small num" "small tidx"
  shows "sscanf fmt_connect (connect_line sock lan name num tidx) = [SStr sock, SStr lan, SStr name, SDec num, SDec tidx]"
proof -
  have f: "fmt_connect = Lit ''cloonix_req_connect'' # Blank # Lit ''sock='' # Str # Blank # Lit ''lan='' # Str # Blank # Lit ''name='' # Str #
      Blank # Lit ''num='' # Dec # Blank # Lit ''tidx='' # Dec # []"
    by (simp add: fmt_connect_def)
  have l: "connect_line sock lan name num tidx = ''cloonix_req_connect'' @ '' sock='' @ sock @ '' lan='' @ lan @ '' name='' @ name @
      '' num='' @ dec_int num @ '' tidx='' @ dec_int tidx @ []"
    by (simp add: connect_line_def)
  show ?thesis
    unfolding f l by (simp only: sscanf_lit sscanf_sep ends_word_simps sscanf_str [OF assms(1)] sscanf_str [OF assms(2)] sscanf_str [OF assms(3)]
      sscanf_dec [OF assms(4)] sscanf_dec [OF assms(5)] sscanf.simps(1))
qed

text \<open>The answer with the rank and the path of the socket.\<close>

lemma sscanf_alloc_ok:
  assumes "word n lan" "word n' name" "small num" "small tidx" "small rank" "word n'' path"
  shows "sscanf fmt_alloc_ok (rank_line ''muend_resp_rank_alloc_ok'' lan name num tidx rank @ '' traf='' @ path) =
    [SStr lan, SStr name, SDec num, SDec tidx, SDec rank, SStr path]"
proof -
  have "sscanf (Str # []) (path @ []) = SStr path # sscanf [] []" by (rule sscanf_str [OF assms(6)]) simp
  then show ?thesis
    unfolding fmt_alloc_ok_def by (simp only: sscanf_rank [OF assms(1-5)] ends_word_simps sscanf_sep append_Nil2 sscanf.simps(1))
qed

end
