(* ===== verification/Lan_Inv.thy ===== *)
theory Lan_Inv
  imports Lan_Switch
begin

text \<open>
  The invariant of a LAN: the tables agree with each other, the channels with the packet sockets, and
  the rings with what the peers have written. One lemma for each operation.
\<close>

section \<open>A packet that is sent on\<close>

lemma foldr_bytes:
  "map (\<lambda>i. word_of_int (foldr (\<lambda>b x. uint b + 256 * x) bs 0 div 256 ^ i) :: u8) [0..<length bs] = bs"
proof (induction bs)
  case (Cons b bs)
  let ?n = "foldr (\<lambda>b x. uint b + 256 * x) bs 0"
  have lt: "uint b < 256" using uint_bounded [of b] by simp
  have tl: "(uint b + 256 * ?n) div 256 ^ Suc i = ?n div 256 ^ i" for i
  proof -
    have "(uint b + 256 * ?n) div 256 ^ Suc i = (uint b + 256 * ?n) div 256 div 256 ^ i"
      by (simp add: zdiv_zmult2_eq)
    also have "(uint b + 256 * ?n) div 256 = ?n" using lt by simp
    finally show ?thesis .
  qed
  have "(uint b + 256 * ?n) mod 256 = uint b" using lt by (simp add: mod_mult_self2)
  then have "uint (word_of_int (uint b + 256 * ?n) :: u8) = uint b"
    by (simp add: uint_word_of_int del: of_int_add of_int_mult)
  then have hd: "(word_of_int (uint b + 256 * ?n) :: u8) = b" by (simp only: word_uint_eq_iff)
  have "map (\<lambda>i. word_of_int ((uint b + 256 * ?n) div 256 ^ i) :: u8) [0..<Suc (length bs)] =
      b # map (\<lambda>i. word_of_int (?n div 256 ^ i)) [0..<length bs]"
    unfolding map_upt_Suc tl using hd by (simp del: of_int_add of_int_mult)
  then show ?case using Cons by simp
qed simp

lemma word_div_bytes:
  assumes "i < 8"
  shows "(word_of_int (i64 x div 256 ^ i) :: u8) = word_of_int (x div 256 ^ i)"
proof -
  have e: "256 ^ i = (2 :: int) ^ (8 * i)" by (simp add: power_mult)
  have "i64 x mod 2 ^ 64 = x mod 2 ^ 64" by (simp add: i64_def mod_diff_left_eq)
  then have t: "take_bit 64 (i64 x) = take_bit 64 x" by (simp add: take_bit_eq_mod)
  have "take_bit 8 (drop_bit (8 * i) y) = take_bit 8 (drop_bit (8 * i) (take_bit 64 y))" for y :: int
    using assms by (intro bit_eqI) (auto simp: bit_simps)
  then have "take_bit 8 (drop_bit (8 * i) (i64 x)) = take_bit 8 (drop_bit (8 * i) x)" using t by metis
  then show ?thesis unfolding e by (simp add: word_of_int_eq_iff drop_bit_eq_div)
qed

lemma usec_bytes_num: "length bs = 8 \<Longrightarrow> usec_bytes (usec_num bs) = bs"
  using foldr_bytes [of bs] word_div_bytes
  by (auto simp: usec_bytes_def usec_num_def intro!: map_cong elim!: trans [rotated])

lemma blkd_of_pkt:
  assumes "good_pkt k"
  shows "blkd_ok (blkd_of_pkt (pkt_seen k))" "header_blkd (blkd_of_pkt (pkt_seen k)) = []"
    "pkt_of (blkd_of_pkt (pkt_seen k)) = pkt_seen k"
proof -
  show "blkd_ok (blkd_of_pkt (pkt_seen k))" "header_blkd (blkd_of_pkt (pkt_seen k)) = []"
    using assms by (simp_all add: blkd_of_pkt_def blkd_ok_def pkt_seen_def good_pkt_def)
  have "nat (int n mod 65536) = n mod 65536" for n by (simp add: nat_mod_distrib)
  with assms show "pkt_of (blkd_of_pkt (pkt_seen k)) = pkt_seen k"
    by (simp add: blkd_of_pkt_def pkt_of_def pkt_seen_def good_pkt_def usec_bytes_num)
qed

section \<open>The tables\<close>

definition dr_fields :: "t_llid_rank \<Rightarrow> bool" where
  "dr_fields d \<longleftrightarrow> 0 < dr_llid d \<and> dr_llid d < MAX_CHANNELS \<and> 0 \<le> dr_traf d \<and> dr_traf d < MAX_CHANNELS \<and>
     0 < prechoice_rank d \<and> prechoice_rank d < int MAX_USOCK_RANKS \<and> (dr_rank d = 0 \<or> dr_rank d = prechoice_rank d)"

text \<open>Two elements do not share a number.\<close>

definition dr_clash :: "t_llid_rank \<Rightarrow> t_llid_rank \<Rightarrow> bool" where
  "dr_clash d d' \<longleftrightarrow> dr_addr d = dr_addr d' \<or> dr_llid d = dr_llid d' \<or> prechoice_rank d = prechoice_rank d' \<or>
     (dr_traf d = dr_traf d' \<and> dr_traf d \<noteq> 0)"

definition drs_ok :: "t_llid_rank set \<Rightarrow> nat \<Rightarrow> bool" where
  "drs_ok D n \<longleftrightarrow> (\<forall>d\<in>D. dr_fields d \<and> dr_addr d < n) \<and> (\<forall>d\<in>D. \<forall>d'\<in>D. dr_llid d \<noteq> dr_traf d' \<and> (dr_clash d d' \<longrightarrow> d = d'))"

definition ranks_ok :: "t_llid_rank set \<Rightarrow> (nat \<Rightarrow> nat option) \<Rightarrow> nat \<Rightarrow> bool" where
  "ranks_ok D present m \<longleftrightarrow> (\<forall>r a. present r = Some a \<longleftrightarrow> r \<noteq> 0 \<and> (\<exists>d\<in>D. dr_addr d = a \<and> dr_rank d = int r)) \<and>
     (\<forall>r. present r \<noteq> None \<longrightarrow> r < m)"

definition chain_ok :: "t_llid_rank set \<Rightarrow> int list \<Rightarrow> int \<Rightarrow> bool" where
  "chain_ok D ch n \<longleftrightarrow> distinct ch \<and> n = int (length ch) \<and> set ch = dr_traf ` D - {0}"

definition lan_tabs :: "t_lan \<Rightarrow> bool" where
  "lan_tabs s \<longleftrightarrow> drs_ok (set (g_head s)) (next_dr s) \<and> ranks_ok (set (g_head s)) (rank_present s) (max_ranks s) \<and>
     chain_ok (set (g_head s)) (traf_chain s) (sock_traf_nb s)"

lemma drs_okD:
  assumes "drs_ok D n" "d \<in> D"
  shows "dr_fields d" "dr_addr d < n" "\<And>d'. d' \<in> D \<Longrightarrow> dr_clash d d' \<Longrightarrow> d = d'"
    "\<And>d'. d' \<in> D \<Longrightarrow> dr_llid d \<noteq> dr_traf d'"
  using assms by (auto simp: drs_ok_def)

lemma ranks_ok_below:
  assumes "drs_ok D n" "ranks_ok D present m" "present r = Some a"
  shows "r < MAX_USOCK_RANKS"
  using assms by (fastforce simp: ranks_ok_def drs_ok_def dr_fields_def MAX_USOCK_RANKS_def)

lemma highest_rank_upper: "present r \<noteq> None \<Longrightarrow> r \<le> i \<Longrightarrow> r \<le> highest_rank i present"
  by (induction i) (auto simp: le_Suc_eq)

text \<open>An element goes.\<close>

lemma drs_ok_subset: "drs_ok D n \<Longrightarrow> D' \<subseteq> D \<Longrightarrow> drs_ok D' n"
  by (auto simp: drs_ok_def)

lemma chain_ok_remove:
  assumes "drs_ok D n" "chain_ok D ch nb" "d \<in> D"
  shows "chain_ok {x \<in> D. dr_addr x \<noteq> dr_addr d} (if dr_traf d \<noteq> 0 then remove1 (dr_traf d) ch else ch)
    (if dr_traf d \<noteq> 0 then nb - 1 else nb)"
proof -
  have D: "x = d" if "x \<in> D" "dr_addr x = dr_addr d \<or> (dr_traf x = dr_traf d \<and> dr_traf d \<noteq> 0)" for x
    using drs_okD(3) [OF assms(1) that(1) assms(3)] that(2) by (auto simp: dr_clash_def)
  have ch: "distinct ch" "nb = int (length ch)" "set ch = dr_traf ` D - {0}" using assms(2) by (simp_all add: chain_ok_def)
  show ?thesis
  proof (cases "dr_traf d = 0")
    case True
    then have "dr_traf ` {x \<in> D. dr_addr x \<noteq> dr_addr d} - {0} = dr_traf ` D - {0}" using D by force
    with True ch show ?thesis by (simp add: chain_ok_def)
  next
    case False
    then have "dr_traf d \<in> set ch" using ch(3) assms(3) by auto
    then have l: "Suc (length (remove1 (dr_traf d) ch)) = length ch"
      using length_pos_if_in_set [of "dr_traf d" ch] by (simp add: length_remove1)
    have "dr_traf ` {x \<in> D. dr_addr x \<noteq> dr_addr d} - {0} = dr_traf ` D - {0} - {dr_traf d}"
      using D False by force
    with False ch l [symmetric] show ?thesis by (simp add: chain_ok_def set_remove1_eq)
  qed
qed

lemma ranks_ok_remove:
  assumes "drs_ok D n" "ranks_ok D present m" "d \<in> D"
  shows "ranks_ok {x \<in> D. dr_addr x \<noteq> dr_addr d} (present(nat (dr_rank d) := None)) m"
proof -
  have f: "dr_fields d" using assms(1,3) by (rule drs_okD)
  have e: "dr_addr x \<noteq> dr_addr d \<longleftrightarrow> r \<noteq> nat (dr_rank d)" if "x \<in> D" "dr_rank x = int r" "r \<noteq> 0" for x r
  proof
    assume "dr_addr x \<noteq> dr_addr d"
    moreover from this have "prechoice_rank x \<noteq> prechoice_rank d"
      using drs_okD(3) [OF assms(1) that(1) assms(3)] by (auto simp: dr_clash_def)
    moreover have "dr_rank x = prechoice_rank x" using drs_okD(1) [OF assms(1) that(1)] that(2,3) by (auto simp: dr_fields_def)
    ultimately show "r \<noteq> nat (dr_rank d)" using f that by (auto simp: dr_fields_def)
  next
    assume "r \<noteq> nat (dr_rank d)"
    moreover have "x = d" if "dr_addr x = dr_addr d"
      using drs_okD(3) [OF assms(1) \<open>x \<in> D\<close> assms(3)] that by (auto simp: dr_clash_def)
    ultimately show "dr_addr x \<noteq> dr_addr d" using that by auto
  qed
  have "(present(nat (dr_rank d) := None)) r = Some a \<longleftrightarrow>
      r \<noteq> 0 \<and> (\<exists>x\<in>{x \<in> D. dr_addr x \<noteq> dr_addr d}. dr_addr x = a \<and> dr_rank x = int r)" for r a
  proof -
    have "(present(nat (dr_rank d) := None)) r = Some a \<longleftrightarrow> r \<noteq> nat (dr_rank d) \<and> present r = Some a" by simp
    also have "\<dots> \<longleftrightarrow> r \<noteq> nat (dr_rank d) \<and> r \<noteq> 0 \<and> (\<exists>x\<in>D. dr_addr x = a \<and> dr_rank x = int r)"
      using assms(2) by (simp add: ranks_ok_def)
    also have "\<dots> \<longleftrightarrow> r \<noteq> 0 \<and> (\<exists>x\<in>{x \<in> D. dr_addr x \<noteq> dr_addr d}. dr_addr x = a \<and> dr_rank x = int r)"
      using e by blast
    finally show ?thesis .
  qed
  moreover have "r < m" if "(present(nat (dr_rank d) := None)) r \<noteq> None" for r
    using assms(2) that by (auto simp: ranks_ok_def split: if_splits)
  ultimately show ?thesis by (simp add: ranks_ok_def)
qed

section \<open>The channels\<close>

text \<open>
  The channels of \<open>X\<close> are on their way to be closed. The number of the socket that is listened on is
  never kept.
\<close>

definition lan_socks :: "int set \<Rightarrow> t_lan \<Rightarrow> bool" where
  "lan_socks X s \<longleftrightarrow>
     (\<forall>c. lchans s c \<noteq> None \<longrightarrow> 0 < c \<and> c < MAX_CHANNELS) \<and> dom (rings s) = dom (fifos (tx s)) \<and>
     dom (fifos (tx s)) \<subseteq> {0<..<MAX_CHANNELS} \<and>
     (\<forall>c. lchans s c = Some Client \<longrightarrow> fifos (tx s) c = None) \<and>
     (\<forall>c. lchans s c \<noteq> None \<longrightarrow> lchans s c \<noteq> Some Client \<longrightarrow> fifos (tx s) c \<noteq> None) \<and>
     (\<forall>d\<in>set (g_head s). dr_llid d \<in> X \<or> lchans s (dr_llid d) = Some Client) \<and>
     (\<forall>c\<in>set (traf_chain s). c \<in> X \<or> (fifos (tx s) c \<noteq> None \<and> (lchans s c = None \<or> lchans s c = Some Traffic))) \<and>
     (\<forall>c\<in>X. lchans s c = None) \<and> llid_listen s = 0"

lemma lan_socksD:
  assumes "lan_socks X s"
  shows "\<And>c. lchans s c \<noteq> None \<Longrightarrow> 0 < c \<and> c < MAX_CHANNELS" "dom (rings s) = dom (fifos (tx s))"
    "\<And>c. lchans s c = Some Client \<Longrightarrow> fifos (tx s) c = None"
    "\<And>c. lchans s c \<noteq> None \<Longrightarrow> lchans s c \<noteq> Some Client \<Longrightarrow> fifos (tx s) c \<noteq> None"
    "\<And>d. d \<in> set (g_head s) \<Longrightarrow> dr_llid d \<in> X \<or> lchans s (dr_llid d) = Some Client"
    "\<And>c. c \<in> set (traf_chain s) \<Longrightarrow> c \<in> X \<or> (fifos (tx s) c \<noteq> None \<and> (lchans s c = None \<or> lchans s c = Some Traffic))"
    "\<And>c. c \<in> X \<Longrightarrow> lchans s c = None" "dom (fifos (tx s)) \<subseteq> {0<..<MAX_CHANNELS}"
    "llid_listen s = 0"
  using assms unfolding lan_socks_def by blast+

text \<open>The ring of a socket: the packets \<open>ks\<close> wait, \<open>past\<close> have been taken.\<close>

definition ring_state :: "t_pkt list \<Rightarrow> nat \<Rightarrow> t_pkt list \<Rightarrow> t_pkt list \<Rightarrow> t_blkd_fifo_rx \<Rightarrow> bool" where
  "ring_state ps n past ks p \<longleftrightarrow> (\<exists>cs cur ms w x. rx_ok p ks cs cur ms w [] \<and> ps = past @ ks @ ms \<and> list_all good_pkt past \<and>
     n = length (rx_text (past @ ks)) + length w \<and> w @ x = rx_text ms \<and>
     sum_list (map pkt_len ks) \<le> GROUP_BLKD_MAX_SIZE + MAX_TOTAL_BLKD_SIZE)"

definition lan_rings :: "t_lan \<Rightarrow> bool" where
  "lan_rings s \<longleftrightarrow> (\<forall>c. is_traf c s \<longrightarrow> (\<exists>p past ks. rings s c = Some p \<and> ring_state (in_pkts s c) (in_read s c) past ks p))"

definition lan_env :: "int set \<Rightarrow> t_lan \<Rightarrow> (int \<Rightarrow> t_pkt list) \<Rightarrow> bool" where
  "lan_env X s P \<longleftrightarrow> lan_socks X s \<and> lan_rings s \<and> tx_inv (\<lambda>_. 0) {} (tx s) P"

definition lan_inv :: "t_lan \<Rightarrow> (int \<Rightarrow> t_pkt list) \<Rightarrow> bool" where
  "lan_inv s P \<longleftrightarrow> lan_tabs s \<and> lan_env {} s P"

lemma lan_envD: "lan_env X s P \<Longrightarrow> lan_socks X s" "lan_env X s P \<Longrightarrow> lan_rings s"
  "lan_env X s P \<Longrightarrow> tx_inv (\<lambda>_. 0) {} (tx s) P"
  by (simp_all add: lan_env_def)

lemma lan_invD: "lan_inv s P \<Longrightarrow> lan_tabs s" "lan_inv s P \<Longrightarrow> lan_env {} s P"
  by (simp_all add: lan_inv_def)

lemma lan_exist_eq: "0 \<le> l \<Longrightarrow> l < MAX_CHANNELS \<Longrightarrow> lan_exist_channel l s = Some (l \<noteq> 0 \<and> lchans s l \<noteq> None)"
  by (simp add: lan_exist_channel_def kout_if_bind)

text \<open>A channel is deleted.\<close>

definition closed_chan :: "int \<Rightarrow> t_tx \<Rightarrow> t_lan \<Rightarrow> t_lan" where
  "closed_chan l t s = s\<lparr>lchans := (lchans s)(l := None), tx := t,
     rings := (if lchans s l = Some Client \<or> lchans s l = None then rings s else (rings s)(l := None))\<rparr>"

lemma lan_delete_eq:
  assumes "lan_socks X s" "tx_inv (\<lambda>_. 0) {} (tx s) P" "lchans s l \<noteq> None"
  shows "\<exists>t. lan_delete_channel l s = Some (closed_chan l t s) \<and> tx_inv (\<lambda>_. 0) {} t P \<and> dom (fifos t) = dom (fifos (tx s)) - {l}"
proof -
  have l: "0 < l" "l < MAX_CHANNELS" using lan_socksD(1) [OF assms(1,3)] by auto
  show ?thesis
  proof (cases "lchans s l = Some Client")
    case True
    then have "fifos (tx s) l = None" using lan_socksD(3) [OF assms(1)] by blast
    moreover have "lan_delete_channel l s = Some (closed_chan l (tx s) s)"
      using l True by (simp add: lan_delete_channel_def closed_chan_def channel_gone_def kout_if_bind Let_def)
    moreover from calculation(1) have "dom (fifos (tx s)) = dom (fifos (tx s)) - {l}" by (simp add: domIff)
    ultimately show ?thesis using assms(2) by blast
  next
    case False
    from free_llid_ok [OF assms(2), of l] obtain t where t: "free_llid_blkd l (tx s) = Some t" "tx_inv (\<lambda>_. 0) {} t P"
      "dom (fifos t) = dom (fifos (tx s)) - {l}"
      by blast
    have "lan_delete_channel l s = lan_blkd_delete l (channel_gone l s)"
      using l False assms(3) by (auto simp: lan_delete_channel_def kout_if_bind)
    also have "\<dots> = Some (closed_chan l t s)"
      using False t(1) assms(3) by (auto simp: lan_blkd_delete_def closed_chan_def channel_gone_def)
    finally have "lan_delete_channel l s = Some (closed_chan l t s)" .
    with t show ?thesis by blast
  qed
qed

text \<open>A channel is deleted if it exists.\<close>

lemma lan_close_eq:
  assumes "lan_env X s P" "0 \<le> l" "l < MAX_CHANNELS"
  shows "\<exists>t. (lan_exist_channel l s \<bind> (\<lambda>e. if e then lan_delete_channel l s else Some s)) = Some (closed_chan l t s) \<and>
    tx_inv (\<lambda>_. 0) {} t P \<and> dom (fifos t) = (if lchans s l = None then dom (fifos (tx s)) else dom (fifos (tx s)) - {l})"
proof (cases "lchans s l = None")
  case True
  then have "closed_chan l (tx s) s = s" by (simp add: closed_chan_def fun_upd_idem)
  with True assms show ?thesis by (intro exI [of _ "tx s"]) (simp add: lan_exist_eq lan_env_def)
next
  case False
  note so = lan_envD(1) [OF assms(1)]
  from False lan_socksD(1) [OF so] have "l \<noteq> 0" by force
  then have "lan_exist_channel l s = Some True" using False assms(2,3) by (simp add: lan_exist_eq)
  with lan_delete_eq [OF so lan_envD(3) [OF assms(1)] False] False show ?thesis by (simp only: if_True if_False bind.bind_lunit)
qed

lemma closed_chan_sel [simp]:
  "g_head (closed_chan l t s) = g_head s" "next_dr (closed_chan l t s) = next_dr s" "traf_chain (closed_chan l t s) = traf_chain s"
  "sock_traf_nb (closed_chan l t s) = sock_traf_nb s" "max_ranks (closed_chan l t s) = max_ranks s"
  "rank_present (closed_chan l t s) = rank_present s" "lchans (closed_chan l t s) = (lchans s)(l := None)"
  "tx (closed_chan l t s) = t" "in_pkts (closed_chan l t s) = in_pkts s" "in_read (closed_chan l t s) = in_read s"
  "cloonix_llid (closed_chan l t s) = cloonix_llid s" "g_name (closed_chan l t s) = g_name s" "destroying (closed_chan l t s) = destroying s"
  "listen_path (closed_chan l t s) = listen_path s" "ended (closed_chan l t s) = ended s" "llid_listen (closed_chan l t s) = llid_listen s"
  "diag_out (closed_chan l t s) = diag_out s"
  by (simp_all add: closed_chan_def)

lemma closed_chan_ok:
  assumes "lan_env X s P" "tx_inv (\<lambda>_. 0) {} t P" "dom (fifos t) = (if lchans s l = None then dom (fifos (tx s)) else dom (fifos (tx s)) - {l})"
  shows "lan_env (insert l X) (closed_chan l t s) P"
proof -
  note so = lan_envD(1) [OF assms(1)]
  note sk = lan_socksD [OF so]
  have f: "fifos t c = None \<longleftrightarrow> fifos (tx s) c = None \<or> (c = l \<and> lchans s l \<noteq> None)" for c
    using assms(3) [THEN arg_cong [where f = "\<lambda>D. c \<notin> D"]] by (auto simp: domIff)
  have "dom (rings (closed_chan l t s)) = dom (fifos t)"
    using sk(2-4) assms(3) by (auto simp: closed_chan_def split: if_splits)
  moreover have "dom (fifos t) \<subseteq> {0<..<MAX_CHANNELS}" using sk(8) assms(3) by (auto split: if_splits)
  ultimately have "lan_socks (insert l X) (closed_chan l t s)"
    using so f unfolding lan_socks_def closed_chan_sel by auto
  moreover have "lan_rings (closed_chan l t s)"
    using lan_envD(2) [OF assms(1)] by (auto simp: lan_rings_def is_traf_def closed_chan_def)
  ultimately show ?thesis using assms(2) by (simp add: lan_env_def)
qed

section \<open>An endpoint leaves\<close>

lemma find_uniq:
  assumes "x \<in> set xs" "P x" "\<And>y. y \<in> set xs \<Longrightarrow> P y \<Longrightarrow> y = x"
  shows "find P xs = Some x"
proof -
  obtain y where y: "find P xs = Some y" using find_Some_ex [of x xs P] assms(1,2) by blast
  with find_SomeD [OF y] assms(3) show ?thesis by simp
qed

lemma dr_found:
  assumes "lan_tabs s" "d \<in> set (g_head s)"
  shows "llid_rank_get_with_llid (dr_llid d) s = Some d" "dr_traf d \<noteq> 0 \<Longrightarrow> llid_rank_get_with_llid_unix_sock_traf (dr_traf d) s = Some d"
    "find (\<lambda>x. dr_addr x = dr_addr d) (g_head s) = Some d"
proof -
  from assms(1) have D: "drs_ok (set (g_head s)) (next_dr s)" by (simp add: lan_tabs_def)
  have u: "x = d" if "x \<in> set (g_head s)" "dr_clash x d" for x using drs_okD(3) [OF D that(1) assms(2) that(2)] .
  show "llid_rank_get_with_llid (dr_llid d) s = Some d"
    unfolding llid_rank_get_with_llid_def using assms(2) u by (intro find_uniq) (auto simp: dr_clash_def)
  show "find (\<lambda>x. dr_addr x = dr_addr d) (g_head s) = Some d"
    using assms(2) u by (intro find_uniq) (auto simp: dr_clash_def)
  show "llid_rank_get_with_llid_unix_sock_traf (dr_traf d) s = Some d" if "dr_traf d \<noteq> 0"
    unfolding llid_rank_get_with_llid_unix_sock_traf_def
    using assms(2) u that drs_okD(1) [OF D assms(2)] by (subst find_uniq) (auto simp: dr_clash_def dr_fields_def)
qed

text \<open>The state with new tables.\<close>

definition with_ranks :: "t_llid_rank list \<Rightarrow> (nat \<Rightarrow> nat option) \<Rightarrow> nat \<Rightarrow> t_lan \<Rightarrow> t_lan" where
  "with_ranks H pr m s = s\<lparr>g_head := H, rank_present := pr, max_ranks := m\<rparr>"

lemma filter_upd_others:
  assumes "\<And>x. dr_addr (f x) = dr_addr x"
  shows "filter (\<lambda>x. dr_addr x \<noteq> a) (map (\<lambda>x. if dr_addr x = a then f x else x) xs) = filter (\<lambda>x. dr_addr x \<noteq> a) xs"
  using assms by (induction xs) auto

lemma inactive_eq:
  assumes "lan_tabs s" "d \<in> set (g_head s)"
  shows "\<exists>H m. rank_has_become_inactive d s = Some (with_ranks H ((rank_present s)(nat (dr_rank d) := None)) m s) \<and>
    filter (\<lambda>x. dr_addr x \<noteq> dr_addr d) H = filter (\<lambda>x. dr_addr x \<noteq> dr_addr d) (g_head s) \<and>
    (\<forall>r. ((rank_present s)(nat (dr_rank d) := None)) r \<noteq> None \<longrightarrow> r < m) \<and> map dr_llid H = map dr_llid (g_head s)"
proof -
  let ?pr = "(rank_present s)(nat (dr_rank d) := None)"
  from assms(1) have D: "drs_ok (set (g_head s)) (next_dr s)" and R: "ranks_ok (set (g_head s)) (rank_present s) (max_ranks s)"
    by (simp_all add: lan_tabs_def)
  have f: "dr_fields d" by (rule drs_okD(1) [OF D assms(2)])
  then have range: "0 \<le> dr_rank d" "dr_rank d < int MAX_USOCK_RANKS" by (auto simp: dr_fields_def MAX_USOCK_RANKS_def)
  show ?thesis
  proof (cases "rank_present s (nat (dr_rank d)) = None")
    case True
    then have "?pr = rank_present s" by (simp add: fun_upd_idem)
    moreover from this R have "\<forall>r. ?pr r \<noteq> None \<longrightarrow> r < max_ranks s" by (simp add: ranks_ok_def)
    ultimately show ?thesis using True range
      by (intro exI [of _ "g_head s"] exI [of _ "max_ranks s"]) (simp add: rank_has_become_inactive_def with_ranks_def kout_if_bind)
  next
    case False
    define s1 where "s1 = llid_rank_peer_rank_unset (dr_llid d) (dr_name d) (dr_rank d) s"
    have s1: "s1 = s\<lparr>g_head := g_head s1\<rparr> \<and> filter (\<lambda>x. dr_addr x \<noteq> dr_addr d) (g_head s1) = filter (\<lambda>x. dr_addr x \<noteq> dr_addr d) (g_head s) \<and>
      map dr_llid (g_head s1) = map dr_llid (g_head s)"
    proof -
      have "filter (\<lambda>x. dr_addr x \<noteq> dr_addr d) (map (\<lambda>x. if dr_addr x = dr_addr d then x\<lparr>dr_rank := 0\<rparr> else x) (g_head s)) =
          filter (\<lambda>x. dr_addr x \<noteq> dr_addr d) (g_head s)"
        by (rule filter_upd_others) simp
      then show ?thesis using dr_found(1) [OF assms]
        by (simp add: s1_def llid_rank_peer_rank_unset_def upd_dr_def)
    qed
    let ?m = "highest_rank (MAX_USOCK_RANKS - 1) ?pr + 1"
    have "r < ?m" if "?pr r \<noteq> None" for r
    proof -
      from that have "rank_present s r \<noteq> None" by (auto split: if_splits)
      with ranks_ok_below [OF D R] have "r \<le> MAX_USOCK_RANKS - 1" by fastforce
      from highest_rank_upper [where present = ?pr, OF that this] show ?thesis by simp
    qed
    moreover have "rank_has_become_inactive d s = Some (with_ranks (g_head s1) ?pr ?m s)"
    proof -
      obtain H where H: "s1 = s\<lparr>g_head := H\<rparr>" using s1 by blast
      then have "adjust_max_rank (s1\<lparr>rank_present := ?pr\<rparr>) = with_ranks (g_head s1) ?pr ?m s" "rank_present s1 = rank_present s"
        by (simp_all add: adjust_max_rank_def with_ranks_def)
      then show ?thesis using False range by (auto simp: rank_has_become_inactive_def kout_if_bind s1_def)
    qed
    ultimately show ?thesis using s1 by blast
  qed
qed

lemma with_ranks_sel [simp]:
  "g_head (with_ranks H pr m s) = H" "rank_present (with_ranks H pr m s) = pr" "max_ranks (with_ranks H pr m s) = m"
  "next_dr (with_ranks H pr m s) = next_dr s" "traf_chain (with_ranks H pr m s) = traf_chain s"
  "sock_traf_nb (with_ranks H pr m s) = sock_traf_nb s" "lchans (with_ranks H pr m s) = lchans s" "tx (with_ranks H pr m s) = tx s"
  "rings (with_ranks H pr m s) = rings s" "in_pkts (with_ranks H pr m s) = in_pkts s" "in_read (with_ranks H pr m s) = in_read s"
  "g_name (with_ranks H pr m s) = g_name s" "ended (with_ranks H pr m s) = ended s" "destroying (with_ranks H pr m s) = destroying s"
  "cloonix_llid (with_ranks H pr m s) = cloonix_llid s" "listen_path (with_ranks H pr m s) = listen_path s"
  "llid_listen (with_ranks H pr m s) = llid_listen s" "diag_out (with_ranks H pr m s) = diag_out s"
  by (simp_all add: with_ranks_def)

text \<open>What stays when an endpoint leaves or arrives.\<close>

definition same_run :: "t_lan \<Rightarrow> t_lan \<Rightarrow> bool" where
  "same_run s s' \<longleftrightarrow> g_name s' = g_name s \<and> ended s' = ended s \<and> destroying s' = destroying s \<and> cloonix_llid s' = cloonix_llid s \<and>
     listen_path s' = listen_path s \<and> llid_listen s' = llid_listen s \<and> in_pkts s' = in_pkts s \<and> in_read s' = in_read s \<and>
     diag_out s' = diag_out s"

definition chain_less :: "t_llid_rank \<Rightarrow> t_lan \<Rightarrow> t_lan" where
  "chain_less d s = (if dr_traf d \<noteq> 0 then s\<lparr>traf_chain := remove1 (dr_traf d) (traf_chain s), sock_traf_nb := sock_traf_nb s - 1\<rparr> else s)"

lemma lan_env_cong:
  assumes "lan_env X s P" "lchans s' = lchans s" "tx s' = tx s" "rings s' = rings s" "in_pkts s' = in_pkts s" "in_read s' = in_read s"
    "llid_listen s' = llid_listen s" "\<And>d. d \<in> set (g_head s') \<Longrightarrow> dr_llid d \<in> Y \<or> lchans s (dr_llid d) = Some Client"
    "\<And>c. c \<in> set (traf_chain s') \<Longrightarrow> c \<in> Y \<or> (fifos (tx s) c \<noteq> None \<and> (lchans s c = None \<or> lchans s c = Some Traffic))"
    "Y \<subseteq> X"
  shows "lan_env Y s' P"
  using assms unfolding lan_env_def lan_socks_def lan_rings_def is_traf_def by (intro conjI; (simp; fail)?) auto

lemma remove_dr:
  assumes "lan_tabs s" "lan_env X s P" "d \<in> set (g_head s)" "X \<subseteq> {dr_llid d, dr_traf d}"
  shows "\<exists>s'. (rank_has_become_inactive d s \<bind> free_llid_rank d) = Some s' \<and> lan_inv s' P \<and> same_run s s' \<and>
    g_head s' = filter (\<lambda>x. dr_addr x \<noteq> dr_addr d) (g_head s) \<and> lchans s' = (lchans s)(dr_llid d := None, dr_traf d := None) \<and>
    dom (fifos (tx s')) \<subseteq> dom (fifos (tx s))"
proof -
  from assms(1) have D: "drs_ok (set (g_head s)) (next_dr s)" and R: "ranks_ok (set (g_head s)) (rank_present s) (max_ranks s)"
    and C: "chain_ok (set (g_head s)) (traf_chain s) (sock_traf_nb s)"
    by (simp_all add: lan_tabs_def)
  have f: "0 < dr_llid d" "dr_llid d < MAX_CHANNELS" "0 \<le> dr_traf d" "dr_traf d < MAX_CHANNELS"
    using drs_okD(1) [OF D assms(3)] by (auto simp: dr_fields_def)
  let ?pr = "(rank_present s)(nat (dr_rank d) := None)"
  let ?H = "filter (\<lambda>x. dr_addr x \<noteq> dr_addr d) (g_head s)"
  from inactive_eq [OF assms(1,3)] obtain H m where i: "rank_has_become_inactive d s = Some (with_ranks H ?pr m s)"
    "filter (\<lambda>x. dr_addr x \<noteq> dr_addr d) H = ?H" "\<forall>r. ?pr r \<noteq> None \<longrightarrow> r < m" "map dr_llid H = map dr_llid (g_head s)"
    by blast
  define s1 where "s1 = with_ranks H ?pr m s"
  have so: "lan_socks X s" using assms(2) by (rule lan_envD)
  have "dr_llid x \<in> X \<or> lchans s (dr_llid x) = Some Client" if "x \<in> set H" for x
  proof -
    have "dr_llid x \<in> dr_llid ` set (g_head s)" using that i(4) by (metis image_eqI list.set_map)
    then obtain y where "y \<in> set (g_head s)" "dr_llid x = dr_llid y" by blast
    with lan_socksD(5) [OF so this(1)] show ?thesis by simp
  qed
  then have e1: "lan_env X s1 P"
    by (intro lan_env_cong [OF assms(2)]) (use lan_socksD(6) [OF so] in \<open>auto simp: s1_def\<close>)
  from lan_close_eq [OF e1, of "dr_llid d"] f obtain t2 where t2:
    "(lan_exist_channel (dr_llid d) s1 \<bind> (\<lambda>e. if e then lan_delete_channel (dr_llid d) s1 else Some s1)) = Some (closed_chan (dr_llid d) t2 s1)"
    "lan_env (insert (dr_llid d) X) (closed_chan (dr_llid d) t2 s1) P" "dom (fifos t2) \<subseteq> dom (fifos (tx s))"
    using closed_chan_ok [OF e1] by (metis Diff_subset less_imp_le order_refl s1_def with_ranks_sel(8))
  define s2 where "s2 = closed_chan (dr_llid d) t2 s1"
  have "\<exists>s3. (if dr_traf d \<noteq> 0 then do {
            e \<leftarrow> lan_exist_channel (dr_traf d) s2;
            s \<leftarrow> (if e then lan_delete_channel (dr_traf d) s2 else Some s2);
            traf_chain_extract (dr_traf d) s
          } else Some s2) = Some (chain_less d s3) \<and> lan_env {dr_llid d, dr_traf d} s3 P \<and> lchans s3 = (lchans s2)(dr_traf d := None) \<and>
       g_head s3 = H \<and> same_run s s3 \<and> next_dr s3 = next_dr s \<and> rank_present s3 = ?pr \<and> max_ranks s3 = m \<and>
       traf_chain s3 = traf_chain s \<and> sock_traf_nb s3 = sock_traf_nb s \<and> dom (fifos (tx s3)) \<subseteq> dom (fifos (tx s))"
  proof (cases "dr_traf d = 0")
    case True
    have "lchans s2 0 = None" using lan_socksD(1) [OF lan_envD(1) [OF t2(2)], of 0] by (force simp: s2_def)
    moreover have "lan_env {dr_llid d, dr_traf d} s2 P"
      using t2(2) assms(4) True calculation unfolding s2_def [symmetric] lan_env_def lan_socks_def by auto
    ultimately show ?thesis using True
      using t2(3) by (intro exI [of _ s2]) (auto simp: s2_def s1_def chain_less_def same_run_def fun_upd_idem)
  next
    case False
    from lan_close_eq [OF t2(2), of "dr_traf d"] f obtain t3 where t3:
      "(lan_exist_channel (dr_traf d) s2 \<bind> (\<lambda>e. if e then lan_delete_channel (dr_traf d) s2 else Some s2)) = Some (closed_chan (dr_traf d) t3 s2)"
      "lan_env (insert (dr_traf d) (insert (dr_llid d) X)) (closed_chan (dr_traf d) t3 s2) P"
      "dom (fifos t3) \<subseteq> dom (fifos t2)"
      using closed_chan_ok [OF t2(2)] unfolding s2_def closed_chan_sel by (metis Diff_subset order_refl)
    have "dr_traf d \<in> set (traf_chain s)" using C assms(3) False by (auto simp: chain_ok_def)
    then have "traf_chain_extract (dr_traf d) (closed_chan (dr_traf d) t3 s2) = Some (chain_less d (closed_chan (dr_traf d) t3 s2))"
      using f False by (simp add: traf_chain_extract_def chain_less_def kout_if_bind s2_def s1_def)
    moreover have "insert (dr_traf d) (insert (dr_llid d) X) = {dr_llid d, dr_traf d}" using assms(4) by auto
    ultimately show ?thesis using False t3
      using t2(3) by (intro exI [of _ "closed_chan (dr_traf d) t3 s2"]) (auto simp: s2_def s1_def same_run_def bind_assoc [symmetric])
  qed
  then obtain s3 where s3: "(if dr_traf d \<noteq> 0 then do {
            e \<leftarrow> lan_exist_channel (dr_traf d) s2;
            s \<leftarrow> (if e then lan_delete_channel (dr_traf d) s2 else Some s2);
            traf_chain_extract (dr_traf d) s
          } else Some s2) = Some (chain_less d s3)" "lan_env {dr_llid d, dr_traf d} s3 P" "lchans s3 = (lchans s2)(dr_traf d := None)"
       "g_head s3 = H" "same_run s s3" "next_dr s3 = next_dr s" "rank_present s3 = ?pr" "max_ranks s3 = m"
       "traf_chain s3 = traf_chain s" "sock_traf_nb s3 = sock_traf_nb s" "dom (fifos (tx s3)) \<subseteq> dom (fifos (tx s))"
    by blast
  define s4 where "s4 = (chain_less d s3)\<lparr>g_head := ?H\<rparr>"
  have "free_llid_rank d s1 = Some s4"
  proof -
    have "free_llid_rank d s1 = ((lan_exist_channel (dr_llid d) s1 \<bind> (\<lambda>e. if e then lan_delete_channel (dr_llid d) s1 else Some s1)) \<bind>
        (\<lambda>s. (if dr_traf d \<noteq> 0 then do {
            e \<leftarrow> lan_exist_channel (dr_traf d) s;
            s \<leftarrow> (if e then lan_delete_channel (dr_traf d) s else Some s);
            traf_chain_extract (dr_traf d) s
          } else Some s) \<bind> (\<lambda>s. Some (s\<lparr>g_head := filter (\<lambda>x. dr_addr x \<noteq> dr_addr d) (g_head s)\<rparr>))))"
      unfolding free_llid_rank_def bind_assoc ..
    also have "\<dots> = Some ((chain_less d s3)\<lparr>g_head := filter (\<lambda>x. dr_addr x \<noteq> dr_addr d) (g_head (chain_less d s3))\<rparr>)"
      unfolding t2(1) bind.bind_lunit s2_def [symmetric] s3(1) ..
    also have "g_head (chain_less d s3) = H" using s3(4) by (simp add: chain_less_def)
    finally show ?thesis by (simp only: i(2) s4_def)
  qed
  then have "(rank_has_become_inactive d s \<bind> free_llid_rank d) = Some s4" using i(1) by (simp add: s1_def)
  moreover have "lan_tabs s4"
  proof -
    let ?D = "{x \<in> set (g_head s). dr_addr x \<noteq> dr_addr d}"
    have sel: "set (g_head s4) = ?D" "next_dr s4 = next_dr s" "rank_present s4 = ?pr" "max_ranks s4 = m"
      "traf_chain s4 = (if dr_traf d \<noteq> 0 then remove1 (dr_traf d) (traf_chain s) else traf_chain s)"
      "sock_traf_nb s4 = (if dr_traf d \<noteq> 0 then sock_traf_nb s - 1 else sock_traf_nb s)"
      using s3(6-10) by (simp_all add: s4_def chain_less_def)
    have "drs_ok ?D (next_dr s)" by (rule drs_ok_subset [OF D]) blast
    moreover have "ranks_ok ?D ?pr m"
      using ranks_ok_remove [OF D R assms(3)] i(3) unfolding ranks_ok_def by blast
    ultimately show ?thesis unfolding lan_tabs_def sel using chain_ok_remove [OF D C assms(3)] by blast
  qed
  moreover have "lan_env {} s4 P"
  proof (rule lan_env_cong [OF s3(2)])
    note so3 = lan_socksD [OF lan_envD(1) [OF s3(2)]]
    show "dr_llid x \<in> {} \<or> lchans s3 (dr_llid x) = Some Client" if "x \<in> set (g_head s4)" for x
    proof -
      from that have x: "x \<in> set (g_head s)" "dr_addr x \<noteq> dr_addr d" by (auto simp: s4_def)
      then have "dr_llid x \<noteq> dr_llid d" "dr_llid x \<noteq> dr_traf d"
        using drs_okD(3) [OF D x(1) assms(3)] drs_okD(4) [OF D x(1) assms(3)] by (auto simp: dr_clash_def)
      moreover have "x \<in> set (filter (\<lambda>x. dr_addr x \<noteq> dr_addr d) H)" unfolding i(2) using x by simp
      then have "x \<in> set (g_head s3)" using s3(4) by simp
      ultimately show ?thesis using so3(5) by auto
    qed
    show "c \<in> {} \<or> (fifos (tx s3) c \<noteq> None \<and> (lchans s3 c = None \<or> lchans s3 c = Some Traffic))" if "c \<in> set (traf_chain s4)" for c
    proof -
      have c: "c \<in> set (traf_chain s)" "c \<noteq> dr_traf d"
      proof -
        have "distinct (traf_chain s)" "set (traf_chain s) = dr_traf ` set (g_head s) - {0}" using C by (simp_all add: chain_ok_def)
        moreover from that have "c \<in> set (if dr_traf d \<noteq> 0 then remove1 (dr_traf d) (traf_chain s) else traf_chain s)"
          using s3(9) by (simp add: s4_def chain_less_def split: if_splits)
        ultimately show "c \<in> set (traf_chain s)" "c \<noteq> dr_traf d" by (auto split: if_splits)
      qed
      have "c \<in> dr_traf ` set (g_head s)" using C c(1) unfolding chain_ok_def by blast
      then obtain x where "x \<in> set (g_head s)" "c = dr_traf x" by blast
      then have "c \<noteq> dr_llid d" using drs_okD(4) [OF D assms(3)] by blast
      with c so3(6) [of c] s3(9) show ?thesis by auto
    qed
  qed (simp_all add: s4_def chain_less_def)
  moreover have "same_run s s4" using s3(5) by (simp add: s4_def chain_less_def same_run_def)
  moreover have "lchans s4 = (lchans s)(dr_llid d := None, dr_traf d := None)"
    using s3(3) by (simp add: s4_def chain_less_def s2_def s1_def)
  moreover have "dom (fifos (tx s4)) \<subseteq> dom (fifos (tx s))" using s3(11) by (simp add: s4_def chain_less_def)
  moreover have "g_head s4 = ?H" by (simp add: s4_def)
  ultimately show ?thesis unfolding lan_inv_def by blast
qed

end
