(* ===== verification/Lan_Safe.thy ===== *)
theory Lan_Safe
  imports Lan_Inv
begin

text \<open>
  The events of a LAN: each keeps the invariant, but for those that end the process, which are
  characterised.
\<close>

section \<open>Channels that come\<close>

lemma tx_inv_alloc:
  assumes "tx_inv (\<lambda>_. 0) {} t P" "fifos t c = None"
  shows "tx_inv (\<lambda>_. 0) {} (t\<lparr>fifos := (fifos t)(c \<mapsto> pool_tx_init), sent := (sent t)(c := []), drop_tx := (drop_tx t)(c := 0)\<rparr>) (P(c := []))"
proof -
  let ?t = "t\<lparr>fifos := (fifos t)(c \<mapsto> pool_tx_init), sent := (sent t)(c := []), drop_tx := (drop_tx t)(c := 0)\<rparr>"
  have h: "heap_ok (\<lambda>_. 0) t" using assms(1) by (simp add: tx_inv_def)
  have recs: "fifo_ok pool_tx_init" "fifo_recs pool_tx_init = []"
    using ring_list_empty [OF TX_POOL_pos, of free_tx_rec] by (intro fifo_okI; simp add: pool_tx_init_def)+
  have fin: "finite (dom (fifos t))" using h by (simp add: heap_ok_def)
  have oc: "occ ?t = occ t"
  proof
    fix b
    have "occ ?t b = (\<Sum>x\<in>insert c (dom (fifos t)). count_list (rec_ids (the (((fifos t)(c \<mapsto> pool_tx_init)) x))) b)"
      by (simp add: occ_def)
    also have "\<dots> = (\<Sum>x\<in>dom (fifos t). count_list (rec_ids (the (((fifos t)(c \<mapsto> pool_tx_init)) x))) b)"
      using assms(2) fin recs by (subst sum.insert) (auto simp: rec_ids_def)
    also have "\<dots> = occ t b" unfolding occ_def using assms(2) by (intro sum.cong) auto
    finally show "occ ?t b = occ t b" .
  qed
  have "heap_ok (\<lambda>_. 0) ?t" using h fin unfolding heap_ok_def oc by simp
  moreover have "queue_ok ?t pool_tx_init"
    using recs by (simp add: queue_ok_def queued_def pkts_len_def) (simp add: pool_tx_init_def)
  moreover have "text_ok [] 0 [] (fifo_recs pool_tx_init) (queued ?t pool_tx_init)"
    using recs by (simp add: text_ok_def queued_def data_len_def)
  moreover have "queue_ok ?t f = queue_ok t f" "queued ?t f = queued t f" for f
    by (rule queue_ok_cong, simp)+
  ultimately show ?thesis using assms(1) unfolding tx_inv_def by simp
qed

lemma lan_alloc_eq:
  assumes "0 < c" "c < MAX_CHANNELS" "fifos (tx s) c = None"
  shows "\<exists>p t. lan_alloc_blkd c s = Some (s\<lparr>tx := t, rings := (rings s)(c \<mapsto> p), blkd_rank := (blkd_rank s)(c := 0)\<rparr>) \<and>
    dom (fifos t) = insert c (dom (fifos (tx s))) \<and> (\<forall>P. tx_inv (\<lambda>_. 0) {} (tx s) P \<longrightarrow> tx_inv (\<lambda>_. 0) {} t (P(c := []))) \<and>
    (\<forall>ks. list_all good_pkt ks \<longrightarrow> ring_state ks 0 [] [] p)"
proof -
  obtain p where p: "blkd_rx_init zero_fifo_rx = Some p" using init_ok [of "[]"] by auto
  have "ring_state ks 0 [] [] p" if "list_all good_pkt ks" for ks
  proof -
    from init_ok [OF that] p obtain cur where "rx_ok p [] [] cur ks [] []" by auto
    then show ?thesis unfolding ring_state_def by (intro exI [of _ "[]"] exI [of _ cur] exI [of _ ks] exI [of _ "rx_text ks"]) simp
  qed
  moreover note tx_inv_alloc [OF _ assms(3)]
  ultimately show ?thesis using p assms
    by (intro exI [of _ p] exI [of _ "(tx s)\<lparr>fifos := (fifos (tx s))(c \<mapsto> pool_tx_init), sent := (sent (tx s))(c := []), drop_tx := (drop_tx (tx s))(c := 0)\<rparr>"])
      (auto simp: lan_alloc_blkd_def kout_if_bind Let_def)
qed

lemma new_sock_env:
  assumes "lan_env {} s P" "usable_llid c s" "dom (fifos t) = insert c (dom (fifos (tx s)))"
    "tx_inv (\<lambda>_. 0) {} t (P(c := []))" "k \<noteq> Client" "tx s' = t" "rings s' = (rings s)(c \<mapsto> p)" "lchans s' = (lchans s)(c \<mapsto> k)"
    "g_head s' = g_head s" "traf_chain s' = traf_chain s" "llid_listen s' = 0"
    "\<And>x. x \<noteq> c \<Longrightarrow> in_pkts s' x = in_pkts s x \<and> in_read s' x = in_read s x"
    "k = Listen \<or> ring_state (in_pkts s' c) (in_read s' c) [] [] p"
  shows "lan_env {} s' (P(c := []))"
proof -
  note so = lan_envD(1) [OF assms(1)]
  note sk = lan_socksD [OF so]
  have c: "0 < c" "c < MAX_CHANNELS" "lchans s c = None" "fifos (tx s) c = None" using assms(2) by (simp_all add: usable_llid_def)
  have f: "fifos t x = None \<longleftrightarrow> fifos (tx s) x = None \<and> x \<noteq> c" for x
    using assms(3) [THEN arg_cong [where f = "\<lambda>D. x \<notin> D"]] by (auto simp: domIff)
  have "c \<notin> set (traf_chain s)" using sk(6) [of c] c by auto
  then have "lan_socks {} s'"
    using so assms(3,5) c f sk(2,8) unfolding lan_socks_def assms(6-11) by auto
  moreover have "lan_rings s'"
    using lan_envD(2) [OF assms(1)] assms(12,13) unfolding lan_rings_def is_traf_def assms(7,8) by fastforce
  ultimately show ?thesis using assms(4,6) by (simp add: lan_env_def)
qed

lemma traf_connection_ok:
  assumes "lan_inv s P" "usable_llid c s" "list_all good_pkt ks"
  shows "\<exists>s'. traf_connection c ks s = Some s' \<and> lan_inv s' (P(c := []))"
proof -
  have c: "0 < c" "c < MAX_CHANNELS" "fifos (tx s) c = None" using assms(2) by (simp_all add: usable_llid_def)
  from lan_alloc_eq [OF c] obtain p t where
    a: "lan_alloc_blkd c s = Some (s\<lparr>tx := t, rings := (rings s)(c \<mapsto> p), blkd_rank := (blkd_rank s)(c := 0)\<rparr>)"
    "dom (fifos t) = insert c (dom (fifos (tx s)))" "\<And>P. tx_inv (\<lambda>_. 0) {} (tx s) P \<Longrightarrow> tx_inv (\<lambda>_. 0) {} t (P(c := []))"
    "ring_state ks 0 [] [] p"
    using assms(3) by blast
  note e = lan_invD(2) [OF assms(1)]
  define s' where "s' = s\<lparr>tx := t, rings := (rings s)(c \<mapsto> p), blkd_rank := (blkd_rank s)(c := 0), lchans := (lchans s)(c \<mapsto> Opening),
    in_pkts := (in_pkts s)(c := ks), in_read := (in_read s)(c := 0)\<rparr>"
  have "traf_connection c ks s = Some s'" using a(1) by (simp add: traf_connection_def s'_def)
  moreover have "lan_env {} s' (P(c := []))"
    by (rule new_sock_env [OF e assms(2) a(2) a(3) [OF lan_envD(3) [OF e]], of Opening _ p])
      (use a(4) lan_socksD(9) [OF lan_envD(1) [OF e]] in \<open>simp_all add: s'_def\<close>)
  moreover have "lan_tabs s'" using lan_invD(1) [OF assms(1)] by (simp add: lan_tabs_def s'_def)
  ultimately show ?thesis by (auto simp: lan_inv_def)
qed

lemma req_listen_ok:
  assumes "lan_inv s P" "nl = 0 \<or> usable_llid nl s"
  shows "\<exists>resp s'. req_listen nl path s = Some (resp, s') \<and> lan_inv s' (P(nl := [])) \<and> ended s' = ended s"
proof (cases "nl = 0")
  case True
  note e = lan_invD(2) [OF assms(1)]
  have "fifos (tx s) 0 = None" using lan_socksD(8) [OF lan_envD(1) [OF e]] by (auto simp: dom_def)
  then have "tx_inv (\<lambda>_. 0) {} (tx s) (P(0 := []))" using lan_envD(3) [OF e] by (auto simp: tx_inv_def)
  with True assms(1) show ?thesis
    by (simp add: req_listen_def lan_inv_def lan_env_def lan_socks_def lan_rings_def lan_tabs_def is_traf_def)
next
  case False
  with assms(2) have u: "usable_llid nl s" by simp
  let ?s = "s\<lparr>lchans := (lchans s)(nl \<mapsto> Listen)\<rparr>"
  have c: "0 < nl" "nl < MAX_CHANNELS" "fifos (tx ?s) nl = None" using u by (simp_all add: usable_llid_def)
  from lan_alloc_eq [OF c] obtain p t where
    a: "lan_alloc_blkd nl ?s = Some (?s\<lparr>tx := t, rings := (rings ?s)(nl \<mapsto> p), blkd_rank := (blkd_rank ?s)(nl := 0)\<rparr>)"
    "dom (fifos t) = insert nl (dom (fifos (tx ?s)))" "\<And>P. tx_inv (\<lambda>_. 0) {} (tx ?s) P \<Longrightarrow> tx_inv (\<lambda>_. 0) {} t (P(nl := []))"
    by blast
  note e = lan_invD(2) [OF assms(1)]
  define s' where "s' = s\<lparr>lchans := (lchans s)(nl \<mapsto> Listen), tx := t, rings := (rings s)(nl \<mapsto> p), blkd_rank := (blkd_rank s)(nl := 0),
    listen_path := path, llid_listen := 0\<rparr>"
  have "req_listen nl path s = Some (c_trunc (MAX_RESP_LEN - 1) (''cloonix_resp_listen_ok='' @ path), s')"
    using a(1) False by (simp add: req_listen_def s'_def)
  moreover have "lan_env {} s' (P(nl := []))"
    by (rule new_sock_env [OF e u _ a(3), of Listen _ p]) (use a(2) lan_envD(3) [OF e] in \<open>simp_all add: s'_def\<close>)
  moreover have "lan_tabs s'" using lan_invD(1) [OF assms(1)] by (simp add: lan_tabs_def s'_def)
  ultimately show ?thesis by (auto simp: lan_inv_def s'_def)
qed

section \<open>Channels that go\<close>

text \<open>The sockets that a packet of \<open>l\<close> is put on.\<close>

definition lan_targets :: "int \<Rightarrow> t_lan \<Rightarrow> int list" where
  "lan_targets l s = filter (\<lambda>c. c \<noteq> l \<and> lchans s c \<noteq> None) (traf_chain s)"

lemma chain_range:
  assumes "lan_tabs s" "c \<in> set (traf_chain s)"
  shows "0 < c" "c < MAX_CHANNELS" "\<exists>d\<in>set (g_head s). dr_traf d = c"
proof -
  from assms have D: "drs_ok (set (g_head s)) (next_dr s)" and c: "c \<in> dr_traf ` set (g_head s) - {0}"
    by (auto simp: lan_tabs_def chain_ok_def)
  then obtain d where d: "d \<in> set (g_head s)" "dr_traf d = c" "c \<noteq> 0" by auto
  from drs_okD(1) [OF D d(1)] d show "0 < c" "c < MAX_CHANNELS" by (auto simp: dr_fields_def)
  from d show "\<exists>d\<in>set (g_head s). dr_traf d = c" by blast
qed

lemma traf_tab_eq:
  assumes "\<forall>c\<in>set cs. 0 < c \<and> c < MAX_CHANNELS" "int (length tab + length cs) \<le> sock_traf_nb s"
  shows "traf_tab cs l s tab = Some (tab @ filter (\<lambda>c. c \<noteq> l \<and> lchans s c \<noteq> None) cs)"
  using assms
proof (induction cs arbitrary: tab)
  case (Cons c cs)
  then show ?case by (cases "c = l"; cases "lchans s c") (simp_all add: lan_exist_eq kout_if_bind)
qed simp

lemma get_tab_eq: "lan_tabs s \<Longrightarrow> get_llid_traf_tab l s = Some (lan_targets l s)"
  unfolding get_llid_traf_tab_def lan_targets_def
  by (subst traf_tab_eq) (auto simp: chain_range lan_tabs_def chain_ok_def)

lemma lan_tabs_closed [simp]: "lan_tabs (closed_chan l t s) = lan_tabs s"
  by (simp add: lan_tabs_def)

text \<open>An existing channel is closed.\<close>

lemma close_existing:
  assumes "lan_inv s P" "lchans s l \<noteq> None"
  shows "\<exists>t. (lan_exist_channel l s \<bind> (\<lambda>e. if e then lan_delete_channel l s else Some s)) = Some (closed_chan l t s) \<and>
    lan_env {l} (closed_chan l t s) P \<and> fifos t l = None"
proof -
  note e = lan_invD(2) [OF assms(1)]
  have l: "0 \<le> l" "l < MAX_CHANNELS" using lan_socksD(1) [OF lan_envD(1) [OF e] assms(2)] by auto
  from lan_close_eq [OF e l] obtain t where t: "(lan_exist_channel l s \<bind> (\<lambda>e. if e then lan_delete_channel l s else Some s)) =
      Some (closed_chan l t s)" "tx_inv (\<lambda>_. 0) {} t P" "dom (fifos t) = (if lchans s l = None then dom (fifos (tx s)) else dom (fifos (tx s)) - {l})"
    by blast
  from closed_chan_ok [OF e t(2,3)] t(1,3) assms(2) show ?thesis by (intro exI [of _ t]) (auto simp: domIff)
qed

lemma env_closed:
  assumes "lan_env {l} s P" "\<forall>d\<in>set (g_head s). dr_llid d \<noteq> l" "l \<notin> set (traf_chain s)"
  shows "lan_env {} s P"
  by (rule lan_env_cong [OF assms(1)]) (use lan_socksD(5,6) [OF lan_envD(1) [OF assms(1)]] assms(2,3) in auto)

lemma client_err_ok:
  assumes "lan_inv s P" "lchans s l = Some Client"
  shows "\<exists>s'. lan_client_err_cb l s = Some s' \<and> lan_inv s' P"
proof -
  note e = lan_invD(2) [OF assms(1)]
  from close_existing [OF assms(1)] assms(2) obtain t where
    t: "(lan_exist_channel l s \<bind> (\<lambda>e. if e then lan_delete_channel l s else Some s)) = Some (closed_chan l t s)"
    "lan_env {l} (closed_chan l t s) P"
    by auto
  define s1 where "s1 = closed_chan l t s"
  have tabs: "lan_tabs s1" using lan_invD(1) [OF assms(1)] by (simp add: s1_def)
  have "\<exists>s'. llid_rank_sig_disconnect l s1 = Some s' \<and> lan_inv s' P"
  proof (cases "llid_rank_get_with_llid l s1")
    case None
    then have "\<forall>d\<in>set (g_head s1). dr_llid d \<noteq> l" using find_NoneD by (fastforce simp: llid_rank_get_with_llid_def)
    moreover have "fifos (tx s) l = None" using lan_socksD(3) [OF lan_envD(1) [OF e] assms(2)] .
    then have "l \<notin> set (traf_chain s1)" using lan_socksD(6) [OF lan_envD(1) [OF e], of l] by (auto simp: s1_def)
    ultimately have "lan_env {} s1 P" using env_closed [OF t(2)] by (simp add: s1_def)
    with tabs None show ?thesis by (simp add: llid_rank_sig_disconnect_def lan_inv_def)
  next
    case (Some d)
    then have d: "d \<in> set (g_head s1)" "dr_llid d = l"
      using find_SomeD by (fastforce simp: llid_rank_get_with_llid_def)+
    from remove_dr [OF tabs t(2) [folded s1_def] d(1)] d(2) Some show ?thesis
      by (auto simp: llid_rank_sig_disconnect_def)
  qed
  then obtain s' where "llid_rank_sig_disconnect l s1 = Some s'" "lan_inv s' P" by blast
  moreover have "lan_client_err_cb l s = (lan_exist_channel l s \<bind> (\<lambda>e. if e then lan_delete_channel l s else Some s)) \<bind>
      (\<lambda>s. llid_rank_sig_disconnect l s \<bind> (\<lambda>s. Some (if l = cloonix_llid s then s\<lparr>ended := True\<rparr> else s)))"
    by (simp add: lan_client_err_cb_def)
  moreover have "lan_inv (s'\<lparr>ended := True\<rparr>) P" if "lan_inv s' P" for s'
    using that by (simp add: lan_inv_def lan_env_def lan_tabs_def lan_socks_def lan_rings_def is_traf_def)
  ultimately show ?thesis unfolding t(1) by (simp add: s1_def)
qed

lemma err_traf_ok:
  assumes "lan_inv s P" "lchans s l = Some Traffic"
  shows "\<exists>s'. err_traf_cb l s = Some s' \<and> lan_inv s' P \<and> fifos (tx s') l = None \<and> lchans s' l = None"
proof -
  note e = lan_invD(2) [OF assms(1)]
  from close_existing [OF assms(1)] assms(2) obtain t where
    t: "(lan_exist_channel l s \<bind> (\<lambda>e. if e then lan_delete_channel l s else Some s)) = Some (closed_chan l t s)"
    "lan_env {l} (closed_chan l t s) P" "fifos t l = None"
    by auto
  define s1 where "s1 = closed_chan l t s"
  have tabs: "lan_tabs s1" using lan_invD(1) [OF assms(1)] by (simp add: s1_def)
  have l: "0 < l" using lan_socksD(1) [OF lan_envD(1) [OF e], of l] assms(2) by auto
  have "\<exists>s'. llid_rank_traf_disconnect l s1 = Some s' \<and> lan_inv s' P \<and> fifos (tx s') l = None \<and> lchans s' l = None"
  proof (cases "llid_rank_get_with_llid_unix_sock_traf l s1")
    case None
    then have n: "\<forall>d\<in>set (g_head s1). dr_traf d \<noteq> l"
      using find_NoneD l by (fastforce simp: llid_rank_get_with_llid_unix_sock_traf_def)
    then have "l \<notin> set (traf_chain s1)" using chain_range(3) [OF tabs] by blast
    moreover have "\<forall>d\<in>set (g_head s1). dr_llid d \<noteq> l"
      using lan_socksD(5) [OF lan_envD(1) [OF e]] assms(2) by (auto simp: s1_def)
    ultimately have "lan_env {} s1 P" using env_closed [OF t(2)] by (simp add: s1_def)
    with tabs None t(3) show ?thesis by (simp add: llid_rank_traf_disconnect_def lan_inv_def s1_def)
  next
    case (Some d)
    then have d: "d \<in> set (g_head s1)" "dr_traf d = l"
      using find_SomeD l by (fastforce simp: llid_rank_get_with_llid_unix_sock_traf_def)+
    from remove_dr [OF tabs t(2) [folded s1_def] d(1)] d(2) obtain s' where
      r: "(rank_has_become_inactive d s1 \<bind> free_llid_rank d) = Some s'" "lan_inv s' P" "dom (fifos (tx s')) \<subseteq> dom (fifos (tx s1))"
      "lchans s' = (lchans s1)(dr_llid d := None, dr_traf d := None)"
      by auto
    moreover have "fifos (tx s') l = None" "lchans s' l = None" using r(3,4) t(3) d(2) by (auto simp: s1_def)
    ultimately show ?thesis using Some by (simp add: llid_rank_traf_disconnect_def)
  qed
  moreover have "err_traf_cb l s = (lan_exist_channel l s \<bind> (\<lambda>e. if e then lan_delete_channel l s else Some s)) \<bind> llid_rank_traf_disconnect l"
    by (simp add: err_traf_cb_def)
  ultimately show ?thesis unfolding t(1) by (simp add: s1_def)
qed

text \<open>A socket that leaves before its first packet: the process ends when no other is open.\<close>

lemma err_init_eq:
  assumes "lan_inv s P" "lchans s l = Some Opening"
  shows "\<exists>s'. err_init_traf_cb l s = (if lan_targets l s = [] then None else Some s') \<and> lan_inv s' P \<and> fifos (tx s') l = None \<and> lchans s' l = None"
proof -
  note e = lan_invD(2) [OF assms(1)]
  from close_existing [OF assms(1)] assms(2) obtain t where
    t: "(lan_exist_channel l s \<bind> (\<lambda>e. if e then lan_delete_channel l s else Some s)) = Some (closed_chan l t s)"
    "lan_env {l} (closed_chan l t s) P" "fifos t l = None"
    by auto
  have tabs: "lan_tabs (closed_chan l t s)" using lan_invD(1) [OF assms(1)] by simp
  have "l \<notin> set (traf_chain s)" "\<forall>d\<in>set (g_head s). dr_llid d \<noteq> l"
    using lan_socksD(5,6) [OF lan_envD(1) [OF e]] assms(2) by force+
  then have "lan_env {} (closed_chan l t s) P" using env_closed [OF t(2)] by simp
  moreover have "lan_targets l (closed_chan l t s) = lan_targets l s" by (auto simp: lan_targets_def intro: filter_cong)
  moreover have "err_init_traf_cb l s = (lan_exist_channel l s \<bind> (\<lambda>e. if e then lan_delete_channel l s else Some s)) \<bind>
      (\<lambda>s. get_llid_traf_tab l s \<bind> (\<lambda>tab. kout_if (tab = []) \<bind> (\<lambda>_. Some s)))"
    by (simp add: err_init_traf_cb_def)
  ultimately show ?thesis using tabs t(3) unfolding t(1)
    by (intro exI [of _ "closed_chan l t s"]) (simp add: get_tab_eq [OF tabs] kout_if_bind lan_inv_def)
qed

end
