(* ===== verification/Lan_Dialog.thy ===== *)
theory Lan_Dialog
  imports Lan_Safe
begin

text \<open>
  The lines of a LAN: which end the process, and that the others keep the invariant.
\<close>

section \<open>The tables\<close>

lemma drs_ok_replace:
  assumes "drs_ok D n" "d \<in> D" "dr_fields d'" "dr_addr d' = dr_addr d" "dr_llid d' = dr_llid d" "prechoice_rank d' = prechoice_rank d"
    "dr_traf d' = dr_traf d \<or> (\<forall>x\<in>D. dr_traf x \<noteq> dr_traf d' \<and> dr_llid x \<noteq> dr_traf d')"
  shows "drs_ok (insert d' (D - {d})) n"
proof -
  have sep: "dr_llid d' \<noteq> dr_traf d'" using drs_okD(4) [OF assms(1,2,2)] assms(2,5,7) by metis
  have one: "\<not> dr_clash d' x \<and> \<not> dr_clash x d' \<and> dr_llid d' \<noteq> dr_traf x \<and> dr_llid x \<noteq> dr_traf d'" if "x \<in> D" "x \<noteq> d" for x
  proof -
    have "\<not> dr_clash d x" using drs_okD(3) [OF assms(1,2) that(1)] that(2) by auto
    moreover have "dr_llid d \<noteq> dr_traf x" "dr_llid x \<noteq> dr_traf d"
      using drs_okD(4) [OF assms(1)] assms(2) that(1) by auto
    ultimately show ?thesis using assms(4-7) that(1) unfolding dr_clash_def by metis
  qed
  have "dr_fields x \<and> dr_addr x < n" if "x \<in> insert d' (D - {d})" for x
    using that assms(1-4) by (auto simp: drs_ok_def)
  moreover have "dr_llid x \<noteq> dr_traf y \<and> (dr_clash x y \<longrightarrow> x = y)" if "x \<in> insert d' (D - {d})" "y \<in> insert d' (D - {d})" for x y
    using that one sep assms(1) unfolding drs_ok_def by blast
  ultimately show ?thesis unfolding drs_ok_def by blast
qed

lemma upd_dr_sel [simp]:
  "next_dr (upd_dr d f s) = next_dr s" "traf_chain (upd_dr d f s) = traf_chain s" "sock_traf_nb (upd_dr d f s) = sock_traf_nb s"
  "max_ranks (upd_dr d f s) = max_ranks s" "rank_present (upd_dr d f s) = rank_present s" "lchans (upd_dr d f s) = lchans s"
  "tx (upd_dr d f s) = tx s" "rings (upd_dr d f s) = rings s" "in_pkts (upd_dr d f s) = in_pkts s" "in_read (upd_dr d f s) = in_read s"
  "listen_path (upd_dr d f s) = listen_path s" "ended (upd_dr d f s) = ended s"
  "llid_listen (upd_dr d f s) = llid_listen s" "g_name (upd_dr d f s) = g_name s"
  by (simp_all add: upd_dr_def)

lemma upd_dr_set:
  assumes "drs_ok (set (g_head s)) n" "d \<in> set (g_head s)"
  shows "set (g_head (upd_dr d f s)) = insert (f d) (set (g_head s) - {d})"
proof -
  have "dr_addr x = dr_addr d \<longleftrightarrow> x = d" if "x \<in> set (g_head s)" for x
    using drs_okD(3) [OF assms(1) that assms(2)] by (auto simp: dr_clash_def)
  then show ?thesis using assms(2) by (auto simp: upd_dr_def)
qed

text \<open>A new endpoint.\<close>

lemma rank_get_free_new:
  assumes "rank_get_free s \<noteq> 0"
  shows "0 < rank_get_free s" "rank_get_free s < int MAX_USOCK_RANKS" "\<And>d. d \<in> set (g_head s) \<Longrightarrow> prechoice_rank d \<noteq> rank_get_free s"
proof -
  from assms obtain i where f: "find (\<lambda>i. rank_present s i = None \<and> llid_rank_get_with_prechoice_rank (int i) s = None) [1..<MAX_USOCK_RANKS] = Some i"
    and r: "rank_get_free s = int i"
    by (auto simp: rank_get_free_def split: option.splits)
  have i: "1 \<le> i" "i < MAX_USOCK_RANKS" "llid_rank_get_with_prechoice_rank (int i) s = None" using find_SomeD [OF f] by auto
  show "0 < rank_get_free s" "rank_get_free s < int MAX_USOCK_RANKS" using i r by simp_all
  show "prechoice_rank d \<noteq> rank_get_free s" if "d \<in> set (g_head s)" for d
    using find_NoneD [OF i(3) [unfolded llid_rank_get_with_prechoice_rank_def] that] r by simp
qed

lemma create_ok:
  assumes "lan_inv s P" "lchans s l = Some Client" "rank_get_free s \<noteq> 0"
  shows "lan_inv (llid_rank_llid_create l name num tidx (rank_get_free s) s) P"
proof (cases "llid_rank_get_with_llid l s = None \<and> llid_rank_get_with_name name num tidx s = None \<and>
    llid_rank_get_with_prechoice_rank (rank_get_free s) s = None")
  case True
  let ?r = "rank_get_free s"
  let ?d = "\<lparr>dr_addr = next_dr s, dr_llid = l, dr_traf = 0, dr_name = take (LAN_NAME_LEN - 1) name, dr_num = num, dr_tidx = tidx,
       prechoice_rank = ?r, dr_rank = 0\<rparr>"
  have c: "llid_rank_llid_create l name num tidx ?r s = s\<lparr>next_dr := Suc (next_dr s), g_head := ?d # g_head s\<rparr>"
    using True by (simp add: llid_rank_llid_create_def alloc_llid_rank_def)
  note e = lan_invD(2) [OF assms(1)]
  note sk = lan_socksD [OF lan_envD(1) [OF e]]
  from lan_invD(1) [OF assms(1)] have D: "drs_ok (set (g_head s)) (next_dr s)" and R: "ranks_ok (set (g_head s)) (rank_present s) (max_ranks s)"
    and C: "chain_ok (set (g_head s)) (traf_chain s) (sock_traf_nb s)"
    by (simp_all add: lan_tabs_def)
  have l: "0 < l" "l < MAX_CHANNELS" using sk(1) [of l] assms(2) by auto
  have "l \<notin> set (traf_chain s)" using sk(3) [OF assms(2)] sk(6) [of l] by auto
  then have traf: "dr_traf x \<noteq> l" if "x \<in> set (g_head s)" for x
    using C that l by (auto simp: chain_ok_def)
  have new: "dr_llid x \<noteq> l" if "x \<in> set (g_head s)" for x
    using True find_NoneD that by (fastforce simp: llid_rank_get_with_llid_def)
  note fresh = rank_get_free_new [OF assms(3)]
  have d: "dr_fields ?d" using l fresh(1,2) by (simp add: dr_fields_def MAX_CHANNELS_def)
  have one: "\<not> dr_clash x ?d \<and> \<not> dr_clash ?d x \<and> dr_llid x \<noteq> dr_traf ?d \<and> dr_llid ?d \<noteq> dr_traf x" if "x \<in> set (g_head s)" for x
    using drs_okD(1,2) [OF D that] traf [OF that] new [OF that] fresh(3) [OF that] by (auto simp: dr_clash_def dr_fields_def)
  have "drs_ok (set (?d # g_head s)) (Suc (next_dr s))"
    unfolding drs_ok_def
  proof (intro conjI ballI)
    fix x assume "x \<in> set (?d # g_head s)"
    then have "x = ?d \<or> (dr_fields x \<and> dr_addr x < next_dr s)" using drs_okD(1,2) [OF D, of x] by auto
    with d show "dr_fields x" "dr_addr x < Suc (next_dr s)" by auto
  next
    fix x y assume x: "x \<in> set (?d # g_head s)" and y: "y \<in> set (?d # g_head s)"
    have dd: "dr_llid ?d \<noteq> dr_traf ?d" using l by simp
    have "dr_llid x \<noteq> dr_traf y \<and> (dr_clash x y \<longrightarrow> x = y)"
    proof (cases "x \<in> set (g_head s)")
      case True
      then show ?thesis using one [OF True] D y unfolding drs_ok_def by (metis set_ConsD)
    next
      case False
      with x have "x = ?d" by simp
      then show ?thesis using one [of y] y dd by (metis set_ConsD)
    qed
    then show "dr_llid x \<noteq> dr_traf y" "dr_clash x y \<longrightarrow> x = y" by blast+
  qed
  moreover have "ranks_ok (set (?d # g_head s)) (rank_present s) (max_ranks s)"
    using R unfolding ranks_ok_def by auto
  moreover have "chain_ok (set (?d # g_head s)) (traf_chain s) (sock_traf_nb s)"
    using C by (auto simp: chain_ok_def)
  ultimately have "lan_tabs (s\<lparr>next_dr := Suc (next_dr s), g_head := ?d # g_head s\<rparr>)" by (simp add: lan_tabs_def)
  moreover have "lan_env {} (s\<lparr>next_dr := Suc (next_dr s), g_head := ?d # g_head s\<rparr>) P"
    by (rule lan_env_cong [OF e]) (use sk(5,6) assms(2) in auto)
  ultimately show ?thesis unfolding c lan_inv_def by blast
next
  case False
  then have "llid_rank_llid_create l name num tidx (rank_get_free s) s = s" by (auto simp: llid_rank_llid_create_def)
  with assms(1) show ?thesis by simp
qed

text \<open>A rank is taken.\<close>

lemma rank_active_ok:
  assumes "lan_inv s P" "0 \<le> rank"
  shows "lan_inv (snd (rank_has_become_active l lan name num tidx rank resp s)) P"
proof (cases "fst (llid_rank_peer_rank_set l name num tidx rank s)")
  case None
  then have "snd (llid_rank_peer_rank_set l name num tidx rank s) = s"
    by (auto simp: llid_rank_peer_rank_set_def split: if_splits option.splits)
  with None assms(1) show ?thesis
    by (cases "llid_rank_peer_rank_set l name num tidx rank s") (simp add: rank_has_become_active_def)
next
  case (Some d)
  let ?f = "\<lambda>x. x\<lparr>dr_tidx := tidx, dr_rank := rank\<rparr>"
  have g: "rank \<noteq> 0" "rank < int MAX_USOCK_RANKS" "llid_rank_get_with_rank rank s = None" "llid_rank_get_with_llid l s = Some d"
    "prechoice_rank d = rank" "llid_rank_peer_rank_set l name num tidx rank s = (Some d, upd_dr d ?f s)"
    using Some by (auto simp: llid_rank_peer_rank_set_def split: if_splits option.splits)
  from g(4) have d: "d \<in> set (g_head s)" using find_SomeD by (fastforce simp: llid_rank_get_with_llid_def)
  have none: "dr_rank x \<noteq> rank" if "x \<in> set (g_head s)" for x
    using find_NoneD g(3) that by (fastforce simp: llid_rank_get_with_rank_def)
  from lan_invD(1) [OF assms(1)] have D: "drs_ok (set (g_head s)) (next_dr s)" and R: "ranks_ok (set (g_head s)) (rank_present s) (max_ranks s)"
    and C: "chain_ok (set (g_head s)) (traf_chain s) (sock_traf_nb s)"
    by (simp_all add: lan_tabs_def)
  have fd: "dr_fields d" by (rule drs_okD(1) [OF D d])
  then have d0: "dr_rank d = 0" using none [OF d] g(5) by (auto simp: dr_fields_def)
  define s1 where "s1 = (upd_dr d ?f s)\<lparr>rank_present := (rank_present s)(nat rank \<mapsto> dr_addr d)\<rparr>"
  have set1: "set (g_head s1) = insert (?f d) (set (g_head s) - {d})" using upd_dr_set [OF D d, of ?f] by (simp add: s1_def)
  have eq: "snd (rank_has_become_active l lan name num tidx rank resp s) = adjust_max_rank s1"
    by (simp add: rank_has_become_active_def g(6) s1_def)
  have D1: "drs_ok (set (g_head s1)) (next_dr s)"
    unfolding set1 by (rule drs_ok_replace [OF D d]) (use fd g(5) in \<open>auto simp: dr_fields_def\<close>)
  let ?pr = "(rank_present s)(nat rank \<mapsto> dr_addr d)"
  have pr: "?pr r = Some a \<longleftrightarrow> r \<noteq> 0 \<and> (\<exists>x\<in>set (g_head s1). dr_addr x = a \<and> dr_rank x = int r)" for r a
  proof (cases "r = nat rank")
    case True
    have "(\<exists>x\<in>set (g_head s1). dr_addr x = a \<and> dr_rank x = rank) \<longleftrightarrow> dr_addr d = a"
      unfolding set1 using none by auto
    moreover have "int r = rank" using True assms(2) by simp
    ultimately show ?thesis using True g(1) assms(2) by simp
  next
    case False
    then have "int r \<noteq> rank" by auto
    then have "r \<noteq> 0 \<and> (\<exists>x\<in>set (g_head s1). dr_addr x = a \<and> dr_rank x = int r) \<longleftrightarrow> r \<noteq> 0 \<and> (\<exists>x\<in>set (g_head s). dr_addr x = a \<and> dr_rank x = int r)"
      unfolding set1 using d0 by auto
    with False R show ?thesis by (simp add: ranks_ok_def)
  qed
  let ?m = "highest_rank (MAX_USOCK_RANKS - 1) ?pr + 1"
  have "r < ?m" if "?pr r \<noteq> None" for r
  proof -
    from that obtain a where "?pr r = Some a" by blast
    with pr obtain x where "r \<noteq> 0" "x \<in> set (g_head s1)" "dr_rank x = int r" by blast
    with drs_okD(1) [OF D1] have "r \<le> MAX_USOCK_RANKS - 1" by (fastforce simp: dr_fields_def)
    from highest_rank_upper [where present = ?pr, OF that this] show ?thesis by simp
  qed
  with pr have R1: "ranks_ok (set (g_head s1)) ?pr ?m" unfolding ranks_ok_def by blast
  have "dr_traf ` set (g_head s1) = dr_traf ` set (g_head s)" unfolding set1 using d by force
  then have C1: "chain_ok (set (g_head s1)) (traf_chain s) (sock_traf_nb s)" using C by (simp add: chain_ok_def)
  have a: "g_head (adjust_max_rank s1) = g_head s1" "rank_present (adjust_max_rank s1) = ?pr" "max_ranks (adjust_max_rank s1) = ?m"
    "next_dr (adjust_max_rank s1) = next_dr s" "traf_chain (adjust_max_rank s1) = traf_chain s" "sock_traf_nb (adjust_max_rank s1) = sock_traf_nb s"
    by (simp_all add: adjust_max_rank_def s1_def)
  have "lan_tabs (adjust_max_rank s1)" unfolding lan_tabs_def a using D1 R1 C1 by blast
  moreover have "lan_env {} (adjust_max_rank s1) P"
  proof (rule lan_env_cong [OF lan_invD(2) [OF assms(1)]])
    note sk = lan_socksD [OF lan_envD(1) [OF lan_invD(2) [OF assms(1)]]]
    show "dr_llid x \<in> {} \<or> lchans s (dr_llid x) = Some Client" if "x \<in> set (g_head (adjust_max_rank s1))" for x
      using that sk(5) d unfolding a set1 by auto
    show "c \<in> {} \<or> (fifos (tx s) c \<noteq> None \<and> (lchans s c = None \<or> lchans s c = Some Traffic))"
      if "c \<in> set (traf_chain (adjust_max_rank s1))" for c
      using that sk(6) unfolding a by blast
  qed (simp_all add: adjust_max_rank_def s1_def)
  ultimately show ?thesis unfolding eq lan_inv_def by blast
qed

section \<open>The end of a LAN\<close>

lemma lan_inv_send [simp]: "lan_inv (send_diag l tid line s) P = lan_inv s P"
  by (simp add: send_diag_def lan_inv_def lan_env_def lan_tabs_def lan_socks_def lan_rings_def is_traf_def)

lemma lan_inv_send_out: "lan_inv (s\<lparr>diag_out := out\<rparr>) P = lan_inv s P"
  by (simp add: lan_inv_def lan_env_def lan_tabs_def lan_socks_def lan_rings_def is_traf_def)

text \<open>Messages go out, and no element that was freed is met.\<close>

definition more_out :: "(int \<times> int \<times> string) list \<Rightarrow> t_lan \<Rightarrow> t_lan" where
  "more_out ms s = s\<lparr>diag_out := diag_out s @ ms\<rparr>"

lemma more_out_simps [simp]: "more_out [] s = s" "more_out ns (more_out ms s) = more_out (ms @ ns) s"
  "rank_present (more_out ms s) = rank_present s" "g_head (more_out ms s) = g_head s" "lchans (more_out ms s) = lchans s"
  "lan_inv (more_out ms s) P = lan_inv s P"
  by (simp_all add: more_out_def lan_inv_send_out)

lemma req_end_ok:
  assumes "lan_inv s P"
  shows "\<exists>ms. req_end_loop is s = Some (more_out ms s)"
  using assms
proof (induction "is" arbitrary: s)
  case Nil
  then show ?case by (intro exI [of _ "[]"]) simp
next
  case (Cons i js)
  note tabs = lan_invD(1) [OF Cons.prems]
  from tabs have D: "drs_ok (set (g_head s)) (next_dr s)" and R: "ranks_ok (set (g_head s)) (rank_present s) (max_ranks s)"
    by (simp_all add: lan_tabs_def)
  show ?case
  proof (cases "rank_present s i")
    case None
    with Cons show ?thesis by simp
  next
    case (Some a)
    with R obtain d where d: "d \<in> set (g_head s)" "dr_addr d = a" by (auto simp: ranks_ok_def)
    have f: "find (\<lambda>d. dr_addr d = a) (g_head s) = Some d" using dr_found(3) [OF tabs d(1)] d(2) by simp
    let ?m = "(dr_llid d, 0, rank_line ''mulan_req_end'' (g_name s) (dr_name d) (dr_num d) (dr_tidx d) (dr_rank d))"
    have "lchans s (dr_llid d) = Some Client"
      using lan_socksD(5) [OF lan_envD(1) [OF lan_invD(2) [OF Cons.prems]] d(1)] by simp
    then have "lan_exist_channel (dr_llid d) s = Some True"
      using drs_okD(1) [OF D d(1)] by (simp add: lan_exist_eq dr_fields_def)
    moreover have "send_diag (dr_llid d) 0 (snd (snd ?m)) s = more_out [?m] s" by (simp add: send_diag_def more_out_def)
    moreover obtain ms where "req_end_loop js (more_out [?m] s) = Some (more_out ms (more_out [?m] s))"
      using Cons.IH [of "more_out [?m] s"] Cons.prems by auto
    ultimately have "req_end_loop (i # js) s = Some (more_out (?m # ms) s)" using Some f by simp
    then show ?thesis by blast
  qed
qed

lemma self_destroy_ok:
  assumes "lan_inv s P"
  shows "\<exists>s'. self_destroy s = Some s' \<and> lan_inv s' P"
proof -
  have l0: "llid_listen s = 0" by (rule lan_socksD(9) [OF lan_envD(1) [OF lan_invD(2) [OF assms]]])
  then have same: "s\<lparr>llid_listen := 0\<rparr> = s" by simp
  from req_end_ok [OF assms, of "[1..<max_ranks s]"] obtain ms where "req_end_loop [1..<max_ranks s] s = Some (more_out ms s)" ..
  then have "self_destroy s = Some ((more_out ms s)\<lparr>destroy_timer := True, destroying := True\<rparr>)"
    by (simp add: self_destroy_def lan_exist_channel_def l0 same)
  moreover have "lan_inv (s\<lparr>destroy_timer := True, destroying := True\<rparr>) P" if "lan_inv s P" for s
    using that by (simp add: lan_inv_def lan_env_def lan_tabs_def lan_socks_def lan_rings_def is_traf_def)
  ultimately show ?thesis using assms by simp
qed

section \<open>Lines that end the process\<close>

text \<open>A word that does not fit in its buffer, or the name of another LAN, in the order of the tests.\<close>

definition other_lan :: "string \<Rightarrow> scan_val list \<Rightarrow> bool" where
  "other_lan name vs \<longleftrightarrow> hd vs \<noteq> SStr name"

definition line_fatal :: "string \<Rightarrow> string \<Rightarrow> bool" where
  "line_fatal name line \<longleftrightarrow> line \<noteq> ''cloonix_req_quit'' \<and>
     (let w = [LAN_NAME_LEN, LAN_NAME_LEN];
          v1 = sscanf (fmt_of ''muend_req_handshake'') line; v2 = sscanf fmt_listen line;
          v3 = sscanf (fmt_of ''muend_req_rank'') line; v4 = sscanf (fmt_rank ''muend_ack_rank'') line in
      if \<not> words_fit w v1 then True else if length v1 = 4 then other_lan name v1
      else if \<not> words_fit [LAN_PATH_LEN, LAN_NAME_LEN] v2 then True else if length v2 = 2 then other_lan name (tl v2)
      else if \<not> words_fit w v3 then True else if length v3 = 4 then other_lan name v3
      else if \<not> words_fit w v4 then True else length v4 = 5 \<and> other_lan name v4)"

text \<open>The values of a line have the types of its format.\<close>

fun val_types :: "scan_item list \<Rightarrow> scan_val list \<Rightarrow> bool" where
  "val_types fs [] \<longleftrightarrow> True"
| "val_types (Str # fs) (SStr w # vs) \<longleftrightarrow> val_types fs vs"
| "val_types (Dec # fs) (SDec n # vs) \<longleftrightarrow> val_types fs vs"
| "val_types (Lit w # fs) vs \<longleftrightarrow> val_types fs vs"
| "val_types (Blank # fs) vs \<longleftrightarrow> val_types fs vs"
| "val_types _ _ \<longleftrightarrow> False"

lemma sscanf_types: "val_types fs (sscanf fs s)"
proof (induction fs s rule: sscanf.induct)
  case (2 w fs s)
  then show ?case by (cases "sscanf fs (the (scan_lit w s))") (auto split: option.splits)
next
  case (3 fs s)
  then show ?case by (cases "sscanf fs (dropWhile is_space s)") auto
qed (auto split: option.splits)

lemma four_vals: "length vs = 4 \<Longrightarrow> val_types (fmt_of w) vs \<Longrightarrow> \<exists>lan name num tidx. vs = [SStr lan, SStr name, SDec num, SDec tidx]"
  by (auto simp: fmt_of_def numeral_eq_Suc length_Suc_conv elim!: val_types.elims)

lemma five_vals: "length vs = 5 \<Longrightarrow> val_types (fmt_rank w) vs \<Longrightarrow> \<exists>lan name num tidx rank. vs = [SStr lan, SStr name, SDec num, SDec tidx, SDec rank]"
  by (auto simp: fmt_rank_def fmt_of_def numeral_eq_Suc length_Suc_conv elim!: val_types.elims)

lemma two_vals: "length vs = 2 \<Longrightarrow> val_types fmt_listen vs \<Longrightarrow> \<exists>path lan. vs = [SStr path, SStr lan]"
  by (auto simp: fmt_listen_def numeral_eq_Suc length_Suc_conv elim!: val_types.elims)

lemma req_rank_ok:
  assumes "lan_inv s P" "lchans s l = Some Client"
  shows "lan_inv (snd (req_rank l lan name num tidx s)) P"
  using create_ok [OF assms] assms(1) by (simp add: req_rank_def Let_def)

lemma scan_line_eq: "scan_line bufs f line = (if words_fit bufs (sscanf f line) then Some (sscanf f line) else None)"
  by (simp add: scan_line_def kout_if_bind)

lemma not_four:
  assumes "length vs \<noteq> 4"
  shows "(case vs of [SStr lan, SStr name, SDec num, SDec tidx] \<Rightarrow> F lan name num tidx | _ \<Rightarrow> G) = G"
  using assms by (auto split: list.splits scan_val.splits)

lemma rank_dialog_ok:
  assumes "lan_inv s P" "lchans s l = Some Client"
  shows "if (let w = [LAN_NAME_LEN, LAN_NAME_LEN];
          v3 = sscanf (fmt_of ''muend_req_rank'') line; v4 = sscanf (fmt_rank ''muend_ack_rank'') line in
      if \<not> words_fit w v3 then True else if length v3 = 4 then other_lan (g_name s) v3
      else if \<not> words_fit w v4 then True else length v4 = 5 \<and> other_lan (g_name s) v4)
    then rank_dialog l line resp s = None
    else \<exists>resp' s'. rank_dialog l line resp s = Some (resp', s') \<and> lan_inv s' P"
proof -
  let ?v3 = "sscanf (fmt_of ''muend_req_rank'') line"
  let ?v4 = "sscanf (fmt_rank ''muend_ack_rank'') line"
  let ?w = "[LAN_NAME_LEN, LAN_NAME_LEN]"
  show ?thesis
  proof (cases "words_fit ?w ?v3")
    case False
    then show ?thesis by (simp add: rank_dialog_def scan_line_eq)
  next
    case w3: True
    show ?thesis
    proof (cases "length ?v3 = 4")
      case True
      from four_vals [OF True sscanf_types] obtain lan name num tidx where v: "?v3 = [SStr lan, SStr name, SDec num, SDec tidx]" by blast
      obtain r' s' where r: "req_rank l lan name num tidx s = (r', s')" by (cases "req_rank l lan name num tidx s")
      with req_rank_ok [OF assms, of lan name num tidx] have "lan_inv s' P" by simp
      with w3 v r show ?thesis by (auto simp: rank_dialog_def scan_line_eq other_lan_def kout_if_bind)
    next
      case n3: False
      have d: "rank_dialog l line resp s = (if words_fit ?w ?v4 then
          (case ?v4 of [SStr lan, SStr name, SDec num, SDec tidx, SDec rank] \<Rightarrow> do {
             kout_if (lan \<noteq> g_name s);
             Some (rank_has_become_active l lan name num tidx (rank mod 2 ^ 32) resp s)
           }
         | _ \<Rightarrow> Some (resp, s)) else None)"
        unfolding rank_dialog_def scan_line_eq using w3 by (simp add: not_four [OF n3])
      show ?thesis
      proof (cases "words_fit ?w ?v4 \<and> length ?v4 = 5")
        case True
        then have "length ?v4 = 5" by blast
        from five_vals [OF this sscanf_types] obtain lan name num tidx rank where
          v: "?v4 = [SStr lan, SStr name, SDec num, SDec tidx, SDec rank]" by blast
        obtain r' s' where r: "rank_has_become_active l lan name num tidx (rank mod 2 ^ 32) resp s = (r', s')"
          by (cases "rank_has_become_active l lan name num tidx (rank mod 2 ^ 32) resp s")
        with rank_active_ok [OF assms(1), of "rank mod 2 ^ 32" l lan name num tidx resp] have "lan_inv s' P" by simp
        with w3 n3 v r True show ?thesis unfolding d by (auto simp: other_lan_def kout_if_bind)
      next
        case False
        then have "rank_dialog l line resp s = (if words_fit ?w ?v4 then Some (resp, s) else None)"
          unfolding d by (auto split: list.splits scan_val.splits)
        with False w3 n3 assms(1) show ?thesis by auto
      qed
    qed
  qed
qed

lemma lan_inv_unused:
  assumes "lan_inv s P" "fifos (tx s) c = None"
  shows "lan_inv s (P(c := ks))"
proof -
  have "tx_inv (\<lambda>_. 0) {} (tx s) (P(c := ks))" using lan_envD(3) [OF lan_invD(2) [OF assms(1)]] assms(2) unfolding tx_inv_def by auto
  with assms(1) show ?thesis by (simp add: lan_inv_def lan_env_def)
qed

lemma diag_answer_ok:
  assumes "lan_inv s P" "lchans s l = Some Client" "nl = 0 \<or> usable_llid nl s"
  shows "if \<not> destroying s \<and> line_fatal (g_name s) line then diag_answer l line nl s = None
    else \<exists>resp s'. diag_answer l line nl s = Some (resp, s') \<and> lan_inv s' (P(nl := []))"
proof -
  let ?P = "P(nl := [])"
  have "fifos (tx s) 0 = None"
    using lan_socksD(8) [OF lan_envD(1) [OF lan_invD(2) [OF assms(1)]]] by (auto simp: dom_def)
  with assms(3) have "fifos (tx s) nl = None" by (auto simp: usable_llid_def)
  from lan_inv_unused [OF assms(1) this] have inv: "lan_inv s ?P" .
  show ?thesis
  proof (cases "destroying s \<or> line = ''cloonix_req_quit''")
    case True
    then have "\<not> (\<not> destroying s \<and> line_fatal (g_name s) line)" by (auto simp: line_fatal_def)
    moreover from self_destroy_ok [OF inv] obtain s' where "self_destroy s = Some s'" "lan_inv s' ?P" by blast
    then have "\<exists>resp s'. diag_answer l line nl s = Some (resp, s') \<and> lan_inv s' ?P"
    proof (cases "destroying s")
      case False
      with True have "line = ''cloonix_req_quit''" by blast
      with False have "diag_answer l line nl s = self_destroy s \<bind> (\<lambda>s. Some (''cloonix_resp_quit'', s))"
        unfolding diag_answer_def by (simp only: if_True if_False simp_thms)
      with \<open>self_destroy s = Some s'\<close> \<open>lan_inv s' ?P\<close> show ?thesis by simp
    qed (simp add: diag_answer_def inv)
    ultimately show ?thesis by (simp only: if_False)
  next
    case False
    let ?v1 = "sscanf (fmt_of ''muend_req_handshake'') line"
    let ?v2 = "sscanf fmt_listen line"
    let ?w = "[LAN_NAME_LEN, LAN_NAME_LEN]"
    define rest where "rest = scan_line [LAN_PATH_LEN, LAN_NAME_LEN] fmt_listen line \<bind> (\<lambda>v. case v of
              [SStr path, SStr lan] \<Rightarrow> do {
                kout_if (lan \<noteq> g_name s);
                req_listen nl path s
              }
            | _ \<Rightarrow> rank_dialog l line ''KO'' s)"
    have rest_eq: "rest = (if words_fit [LAN_PATH_LEN, LAN_NAME_LEN] ?v2 then (case ?v2 of
              [SStr path, SStr lan] \<Rightarrow> do {
                kout_if (lan \<noteq> g_name s);
                req_listen nl path s
              }
            | _ \<Rightarrow> rank_dialog l line ''KO'' s) else None)"
      unfolding rest_def scan_line_eq by (cases "words_fit [LAN_PATH_LEN, LAN_NAME_LEN] ?v2") (simp_all only: if_True if_False bind.simps)
    have d: "diag_answer l line nl s = (if words_fit ?w ?v1 then
        (case ?v1 of [SStr lan, SStr name, SDec num, SDec tidx] \<Rightarrow> do {
            kout_if (lan \<noteq> g_name s);
            Some (c_trunc (LAN_PATH_LEN - 1) (line_of ''muend_resp_handshake_ok'' lan name num tidx), s)
          } | _ \<Rightarrow> rest) else None)"
      unfolding diag_answer_def rest_def [symmetric] scan_line_eq [of ?w] using False
      by (cases "words_fit ?w ?v1") (simp_all only: if_True if_False bind.simps de_Morgan_disj simp_thms)
    show ?thesis
    proof (cases "words_fit ?w ?v1 \<and> length ?v1 \<noteq> 4 \<and> words_fit [LAN_PATH_LEN, LAN_NAME_LEN] ?v2")
      case True
      show ?thesis
      proof (cases "length ?v2 = 2")
        case l2: True
        from two_vals [OF this sscanf_types] obtain path lan where v: "?v2 = [SStr path, SStr lan]" by blast
        have "diag_answer l line nl s = rest" unfolding d using True by (simp add: not_four)
        with req_listen_ok [OF inv assms(3), of path] v True False show ?thesis
          by (auto simp: rest_eq line_fatal_def other_lan_def kout_if_bind Let_def)
      next
        case l2: False
        have "rest = rank_dialog l line ''KO'' s"
          unfolding rest_eq using True l2 by (auto split: list.splits scan_val.splits)
        moreover have "diag_answer l line nl s = rest" unfolding d using True by (simp add: not_four)
        ultimately have "diag_answer l line nl s = rank_dialog l line ''KO'' s" by simp
        with rank_dialog_ok [OF inv assms(2), of line "''KO''"] True False l2 show ?thesis
          by (simp add: line_fatal_def Let_def)
      qed
    next
      case other: False
      show ?thesis
      proof (cases "words_fit ?w ?v1 \<and> length ?v1 = 4")
        case True
        then have "length ?v1 = 4" by blast
        from four_vals [OF this sscanf_types] obtain lan name num tidx where v: "?v1 = [SStr lan, SStr name, SDec num, SDec tidx]" by blast
        with True False inv show ?thesis unfolding d by (auto simp: line_fatal_def other_lan_def kout_if_bind Let_def)
      next
        case n1: False
        with other have "diag_answer l line nl s = None" unfolding d by (auto simp: not_four rest_eq)
        moreover have "line_fatal (g_name s) line" using n1 other False by (auto simp: line_fatal_def Let_def)
        ultimately show ?thesis using False by simp
      qed
    qed
  qed
qed

lemma recv_diag_ok:
  assumes "lan_inv s P" "lchans s l = Some Client" "nl = 0 \<or> usable_llid nl s"
  shows "if \<not> destroying s \<and> line_fatal (g_name s) line then rpct_recv_diag_msg l tid line nl s = None
    else \<exists>s'. rpct_recv_diag_msg l tid line nl s = Some s' \<and> lan_inv s' (P(nl := []))"
  using diag_answer_ok [OF assms, of line] by (auto simp: rpct_recv_diag_msg_def)

end
