(* ===== verification/Lan_Traffic.thy ===== *)
theory Lan_Traffic
  imports Lan_Dialog
begin

text \<open>
  The traffic of a LAN: what is read from a socket goes to the other open sockets, the first packet of
  a socket opens it, and the end of a socket.
\<close>

section \<open>Where a packet goes\<close>

lemma traf_tab_distinct: "lan_tabs s \<Longrightarrow> distinct (lan_targets l s)"
  by (simp add: lan_targets_def lan_tabs_def chain_ok_def)

lemma distinct_range_length:
  assumes "distinct xs" "\<forall>x\<in>set xs. 0 < x \<and> x < (n :: int)"
  shows "int (length xs) \<le> max 0 n"
proof -
  have "set xs \<subseteq> {0<..<n}" using assms(2) by auto
  then have "card (set xs) \<le> card {0<..<n}" by (intro card_mono) auto
  then show ?thesis using distinct_card [OF assms(1)] by simp
qed

lemma targets_few: "lan_tabs s \<Longrightarrow> length (lan_targets l s) < 2 ^ 31"
proof -
  assume t: "lan_tabs s"
  have "\<forall>c\<in>set (lan_targets l s). 0 < c \<and> c < MAX_CHANNELS" using chain_range [OF t] by (auto simp: lan_targets_def)
  from distinct_range_length [OF traf_tab_distinct [OF t] this] show ?thesis by (simp add: MAX_CHANNELS_def)
qed

definition put_also :: "int list \<Rightarrow> t_pkt list \<Rightarrow> (int \<Rightarrow> t_pkt list) \<Rightarrow> int \<Rightarrow> t_pkt list" where
  "put_also tab ks P c = (if c \<in> set tab then P c @ map pkt_seen ks else P c)"

lemma put_also_simps [simp]: "put_also tab [] P = P" "put_also [] ks P = P"
  "put_also tab ks (put_also tab [k] P) = put_also tab (k # ks) P"
  by (auto simp: put_also_def)

text \<open>A step of the loop that sends on keeps all but the sending side.\<close>

lemma put_on_all_ok:
  assumes "tx_inv (\<lambda>_. 0) {} (tx s) P" "good_pkt k" "distinct tab" "length tab < 2 ^ 31"
  shows "\<exists>t. put_on_all tab (pkt_seen k) s = Some (s\<lparr>tx := t\<rparr>) \<and> dom (fifos t) = dom (fifos (tx s)) \<and>
    tx_inv (\<lambda>_. 0) {} t (put_also tab [k] P)"
proof (cases "tab = []")
  case True
  with assms(1) show ?thesis by (intro exI [of _ "tx s"]) (simp add: put_on_all_def)
next
  case False
  note b = blkd_of_pkt [OF assms(2)]
  from put_fresh_ok [OF assms(1) b(1,2) assms(4)] obtain t where
    t: "blkd_put_tx tab (next_blkd (tx s)) (with_blkd (blkd_of_pkt (pkt_seen k)) (tx s)) = Some t" "dom (fifos t) = dom (fifos (tx s))"
    "tx_inv (\<lambda>_. 0) {} t (\<lambda>c. P c @ replicate (count_list tab c) (pkt_seen k))"
    unfolding b(3) by blast
  have "count_list tab c = (if c \<in> set tab then 1 else 0)" for c
    using assms(3) by (induction tab) auto
  then have "(\<lambda>c. P c @ replicate (count_list tab c) (pkt_seen k)) = put_also tab [k] P"
    by (auto simp: put_also_def fun_eq_iff)
  moreover have "put_on_all tab (pkt_seen k) s = Some (s\<lparr>tx := t\<rparr>)"
    using False t(1) assms(2) by (auto simp: put_on_all_def good_pkt_def pkt_seen_def)
  ultimately show ?thesis using t(2,3) by auto
qed

lemma traf_loop_drains:
  assumes "rx_ok p ks cs cur ms w u" "tx_inv (\<lambda>_. 0) {} (tx s) P" "distinct tab" "length tab < 2 ^ 31"
  shows "\<exists>p' t. traf_loop tab (p, s) = Some (p', s\<lparr>tx := t\<rparr>) \<and> rx_ok p' [] [] cur ms w u \<and> dom (fifos t) = dom (fifos (tx s)) \<and>
    tx_inv (\<lambda>_. 0) {} t (put_also tab ks P)"
  using assms(1,2)
proof (induction ks arbitrary: p cs s P)
  case Nil
  then show ?case using fifo_get_empty [OF Nil(1)] rx_ok_nil [OF Nil(1)]
    by (intro exI [of _ p] exI [of _ "tx s"]) (subst traf_loop.simps, simp)
next
  case (Cons k ks)
  from take_packet [OF Cons.prems(1)] obtain b p1 p2 cs' where g: "blkd_rx_fifo_get p = Some (Some b, p1)"
    "rx_packet b p1 = Some (pkt_seen k)" "blkd_free b p1 = Some p2" "rx_ok p2 ks cs' cur ms w u"
    by blast
  have k: "good_pkt k" using Cons.prems(1) by (simp add: rx_ok_def)
  from put_on_all_ok [OF Cons.prems(2) k assms(3,4)] obtain t where t: "put_on_all tab (pkt_seen k) s = Some (s\<lparr>tx := t\<rparr>)"
    "dom (fifos t) = dom (fifos (tx s))" "tx_inv (\<lambda>_. 0) {} t (put_also tab [k] P)"
    by blast
  from t(3) have "tx_inv (\<lambda>_. 0) {} (tx (s\<lparr>tx := t\<rparr>)) (put_also tab [k] P)" by simp
  from Cons.IH [OF g(4) this] obtain p' t' where i: "traf_loop tab (p2, s\<lparr>tx := t\<rparr>) = Some (p', s\<lparr>tx := t'\<rparr>)"
    "rx_ok p' [] [] cur ms w u" "dom (fifos t') = dom (fifos t)" "tx_inv (\<lambda>_. 0) {} t' (put_also tab (k # ks) P)"
    by auto
  have "traf_loop tab (p, s) = traf_loop tab (p2, s\<lparr>tx := t\<rparr>)"
    by (subst traf_loop.simps) (simp add: g(1-3) t(1))
  then have "traf_loop tab (p, s) = Some (p', s\<lparr>tx := t'\<rparr>)" using i(1) by simp
  with i(2-4) t(2) show ?case by metis
qed

section \<open>What has arrived\<close>

text \<open>The packets of the peer that are whole after \<open>m\<close> more bytes, the last of them new or waiting.\<close>

definition arrived :: "int \<Rightarrow> nat \<Rightarrow> t_lan \<Rightarrow> t_pkt list" where
  "arrived c m s = whole_pkts (in_pkts s c) (in_read s c + m)"

definition ring_qty :: "int \<Rightarrow> t_lan \<Rightarrow> nat" where
  "ring_qty c s = (case rings s c of Some p \<Rightarrow> qty p - 1 | None \<Rightarrow> 0)"

definition fresh_pkts :: "int \<Rightarrow> nat \<Rightarrow> t_lan \<Rightarrow> t_pkt list" where
  "fresh_pkts c m s = drop (length (arrived c 0 s) - ring_qty c s) (arrived c m s)"

lemma rx_ok_short: "rx_ok p ks cs cur ms w [] \<Longrightarrow> ms = [] \<or> length w < pkt_len (hd ms)"
proof -
  assume r: "rx_ok p ks cs cur ms w []"
  show ?thesis
  proof (cases "ms = [] \<or> \<not> length w < HEADER_BLKD_SIZE")
    case True
    with r show ?thesis by (auto simp: rx_ok_def elim!: cur_recE)
  next
    case False
    moreover from this have "20 < pkt_len (hd ms)"
      using r pkt_len_bounds [of "hd ms"] by (cases ms) (auto simp: rx_ok_def)
    ultimately show ?thesis by (simp add: HEADER_BLKD_SIZE_def)
  qed
qed

lemma rx_ok_qty: "rx_ok p ks cs cur ms w u \<Longrightarrow> qty p = Suc (length ks)"
  by (auto simp: rx_ok_def ring_rep_def ring_list_def dest: list_all2_lengthD)

lemma rx_ok_whole:
  assumes "rx_ok p ks cs cur ms w []" "list_all good_pkt past"
  shows "whole_pkts (past @ ks @ ms) (length (rx_text (past @ ks)) + length w) = past @ ks"
proof -
  have "list_all good_pkt (past @ ks)" using assms by (simp add: rx_ok_def)
  from whole_pkts_prefix [OF this rx_ok_short [OF assms(1)]] show ?thesis by (simp add: add.assoc)
qed

lemma length_rx_text: "list_all good_pkt ks \<Longrightarrow> length (rx_text ks) = sum_list (map pkt_len ks)"
  by (induction ks) (simp_all add: rx_text_def length_pkt_bytes)

text \<open>A read, whatever the user of the packets.\<close>

lemma lan_ring:
  assumes "lan_rings s" "is_traf c s"
  obtains p past ks cs cur ms w x where "rings s c = Some p" "rx_ok p ks cs cur ms w []" "in_pkts s c = past @ ks @ ms"
    "list_all good_pkt past" "in_read s c = length (rx_text (past @ ks)) + length w" "w @ x = rx_text ms"
    "sum_list (map pkt_len ks) \<le> GROUP_BLKD_MAX_SIZE + MAX_TOTAL_BLKD_SIZE" "ring_qty c s = length ks" "arrived c 0 s = past @ ks"
proof -
  from assms obtain p past ks cs cur ms w x where r: "rings s c = Some p" "rx_ok p ks cs cur ms w []" "in_pkts s c = past @ ks @ ms"
    "list_all good_pkt past" "in_read s c = length (rx_text (past @ ks)) + length w" "w @ x = rx_text ms"
    "sum_list (map pkt_len ks) \<le> GROUP_BLKD_MAX_SIZE + MAX_TOTAL_BLKD_SIZE"
    unfolding lan_rings_def ring_state_def by blast
  moreover have "ring_qty c s = length ks" using r(1) rx_ok_qty [OF r(2)] by (simp add: ring_qty_def)
  moreover have "arrived c 0 s = past @ ks" using rx_ok_whole [OF r(2,4)] r(3,5) by (simp add: arrived_def)
  ultimately show thesis by (rule that)
qed

definition read_of :: "u8 list \<Rightarrow> t_rd" where
  "read_of bs = (if bs = [] then Rd_nothing else Rd_bytes bs)"

lemma lan_read:
  assumes "lan_rings s" "is_traf c s" "bs = lan_bytes c n s"
  shows "\<exists>p p' past ks cs cur ms w x. rings s c = Some p \<and>
    blkd_fd_event_rx rk cb (read_of bs) (p, t) = (if bs = [] \<or> ks = [] then Some (0, p', t) else map_option (Pair 0) (cb (p', t))) \<and>
    rx_ok p' ks cs cur ms w [] \<and> in_pkts s c = past @ ks @ ms \<and> list_all good_pkt past \<and>
    in_read s c + length bs = length (rx_text (past @ ks)) + length w \<and> w @ x = rx_text ms \<and>
    (bs = [] \<or> ring_qty c s = 0 \<longrightarrow> sum_list (map pkt_len ks) \<le> GROUP_BLKD_MAX_SIZE + MAX_TOTAL_BLKD_SIZE) \<and>
    fresh_pkts c (length bs) s = ks"
proof -
  obtain p past ks0 cs cur ms w x where r: "rings s c = Some p" "rx_ok p ks0 cs cur ms w []"
    "in_pkts s c = past @ ks0 @ ms" "list_all good_pkt past" "in_read s c = length (rx_text (past @ ks0)) + length w" "w @ x = rx_text ms"
    "sum_list (map pkt_len ks0) \<le> GROUP_BLKD_MAX_SIZE + MAX_TOTAL_BLKD_SIZE" "ring_qty c s = length ks0" "arrived c 0 s = past @ ks0"
    by (rule lan_ring [OF assms(1,2)])
  have fresh: "fresh_pkts c (length bs) s = ks" if "arrived c (length bs) s = past @ ks" for ks
    using that r(8,9) by (simp add: fresh_pkts_def)
  show ?thesis
  proof (cases "bs = []")
    case True
    obtain st i where n: "pool_rx_newest_record_state p = Some (st, rec_group cur, i)" using newest_state [OF r(2)] by blast
    moreover have "rx_queued_bytes p = int (sum_list (map pkt_len ks0))" using r(2) by (simp add: rx_ok_def)
    moreover obtain gr where "groups p (rec_group cur) = Some gr" "length (head_data gr) < GROUP_BLKD_MAX_SIZE"
      using rx_room_pos [OF r(2)] by blast
    ultimately have "blkd_fd_event_rx rk cb Rd_nothing (p, t) = Some (0, p, t)"
      using r(7) by (auto simp: blkd_fd_event_rx_def group_read_sock_unix_def MAX_GLOB_BLKD_QUEUED_BYTES_def GROUP_BLKD_MAX_SIZE_def
        MAX_TOTAL_BLKD_SIZE_def kout_if_bind)
    with True r fresh [of ks0] show ?thesis
      by (intro exI [of _ p] exI [of _ p] exI [of _ past] exI [of _ ks0] exI [of _ cs] exI [of _ cur] exI [of _ ms] exI [of _ w] exI [of _ x])
        (simp add: read_of_def)
  next
    case False
    have "drop (in_read s c) (rx_text (in_pkts s c)) = x"
      unfolding r(3,5) by (simp add: r(6) [symmetric])
    then have bs: "bs = take (min n (rx_room p)) x" using assms(3) r(1) by (simp add: lan_bytes_def)
    then have bs_x: "w @ bs @ drop (min n (rx_room p)) x = rx_text ms" and room: "length bs \<le> rx_room p" using r(6) by simp_all
    from fd_event_any [OF r(2) bs_x room False r(7), of rk cb t] obtain p' ks cs' cur' ms' w' where e:
      "blkd_fd_event_rx rk cb (Rd_bytes bs) (p, t) = (if ks0 @ ks = [] then Some (0, p', t) else map_option (Pair 0) (cb (p', t)))"
      "rx_ok p' (ks0 @ ks) cs' cur' ms' w' []" "ms = ks @ ms'" "rx_text ks @ w' = w @ bs"
      by blast
    have len: "length (rx_text ks) + length w' = length w + length bs" using e(4) [THEN arg_cong [where f = length]] by simp
    have "w' @ drop (min n (rx_room p)) x = rx_text ms'"
    proof -
      have "rx_text ks @ w' @ drop (min n (rx_room p)) x = (w @ bs) @ drop (min n (rx_room p)) x" using e(4) by simp
      also have "\<dots> = rx_text ks @ rx_text ms'" using bs_x e(3) by simp
      finally show ?thesis by simp
    qed
    moreover have n: "in_read s c + length bs = length (rx_text (past @ ks0 @ ks)) + length w'" using r(5) len by simp
    moreover have "arrived c (length bs) s = past @ ks0 @ ks"
      using rx_ok_whole [OF e(2) r(4)] r(3) e(3) n unfolding arrived_def by simp
    moreover have "sum_list (map pkt_len ks) \<le> GROUP_BLKD_MAX_SIZE + MAX_TOTAL_BLKD_SIZE"
    proof -
      have "cur_rec (groups p) ms w [] cur" "list_all good_pkt ms" "list_all good_pkt ks" using r(2) e(2) by (simp_all add: rx_ok_def)
      with cur_rec_short [of "groups p" ms w "[]" cur] have "length w < MAX_TOTAL_BLKD_SIZE" by simp
      moreover have "rx_room p \<le> GROUP_BLKD_MAX_SIZE" using rx_room_pos [OF r(2)] by auto
      ultimately show ?thesis using len room length_rx_text [OF \<open>list_all good_pkt ks\<close>] by simp
    qed
    ultimately have f: "w' @ drop (min n (rx_room p)) x = rx_text ms'" "in_read s c + length bs = length (rx_text (past @ ks0 @ ks)) + length w'"
      "fresh_pkts c (length bs) s = ks0 @ ks" "sum_list (map pkt_len ks) \<le> GROUP_BLKD_MAX_SIZE + MAX_TOTAL_BLKD_SIZE"
      using fresh [of "ks0 @ ks"] by simp_all
    have g1: "blkd_fd_event_rx rk cb (read_of bs) (p, t) = (if bs = [] \<or> ks0 @ ks = [] then Some (0, p', t) else map_option (Pair 0) (cb (p', t)))"
      using e(1) False by (simp add: read_of_def)
    have g2: "in_pkts s c = past @ (ks0 @ ks) @ ms'" using r(3) e(3) by simp
    have g3: "bs = [] \<or> ring_qty c s = 0 \<longrightarrow> sum_list (map pkt_len (ks0 @ ks)) \<le> GROUP_BLKD_MAX_SIZE + MAX_TOTAL_BLKD_SIZE"
      using False r(8) f(4) by simp
    show ?thesis
      by (intro exI [of _ p] exI [of _ p'] exI [of _ past] exI [of _ "ks0 @ ks"] exI [of _ cs'] exI [of _ cur'] exI [of _ ms'] exI [of _ w']
          exI [of _ "drop (min n (rx_room p)) x"] conjI) (fact r(1), fact g1, fact e(2), fact g2, fact r(4), fact f(2), fact f(1), fact g3, fact f(3))
  qed
qed

section \<open>Open sockets\<close>

lemma traf_sock: "lan_socks X s \<Longrightarrow> is_traf c s \<Longrightarrow> fifos (tx s) c \<noteq> None \<and> 0 < c \<and> c < MAX_CHANNELS"
  using lan_socksD(1,4) [of X s c] by (auto simp: is_traf_def)

lemma dom_None: "dom f = dom g \<Longrightarrow> f c = None \<longleftrightarrow> g c = None"
  by (metis domIff)

lemma ring_stateI:
  "rx_ok p ks cs cur ms w [] \<Longrightarrow> ps = past @ ks @ ms \<Longrightarrow> list_all good_pkt past \<Longrightarrow> n = length (rx_text (past @ ks)) + length w \<Longrightarrow>
    w @ x = rx_text ms \<Longrightarrow> sum_list (map pkt_len ks) \<le> GROUP_BLKD_MAX_SIZE + MAX_TOTAL_BLKD_SIZE \<Longrightarrow> ring_state ps n past ks p"
  unfolding ring_state_def by blast

lemma ring_update:
  assumes "lan_inv s P" "is_traf c s" "dom (fifos t) = dom (fifos (tx s))" "tx_inv (\<lambda>_. 0) {} t P'" "ring_state (in_pkts s c) m past ks p"
  shows "lan_inv (s\<lparr>in_read := (in_read s)(c := m), tx := t, rings := (rings s)(c \<mapsto> p)\<rparr>) P'"
proof -
  note e = lan_invD(2) [OF assms(1)]
  note so = lan_envD(1) [OF e]
  note c = traf_sock [OF so assms(2)]
  then have "dom ((rings s)(c \<mapsto> p)) = dom (fifos t)" using lan_socksD(2) [OF so] assms(3) by auto
  then have "lan_socks {} (s\<lparr>in_read := (in_read s)(c := m), tx := t, rings := (rings s)(c \<mapsto> p)\<rparr>)"
    using so assms(3) dom_None [OF assms(3)] unfolding lan_socks_def by simp
  moreover have "lan_rings (s\<lparr>in_read := (in_read s)(c := m), tx := t, rings := (rings s)(c \<mapsto> p)\<rparr>)"
    using lan_envD(2) [OF e] assms(5) by (auto simp: lan_rings_def is_traf_def)
  ultimately show ?thesis using assms(4) lan_invD(1) [OF assms(1)] by (simp add: lan_inv_def lan_env_def lan_tabs_def)
qed

text \<open>What waits in the ring of an open socket and what is new goes to the others.\<close>

lemma traf_read_ok:
  assumes "lan_inv s P" "lchans s c = Some Traffic" "bs = lan_bytes c n s"
  shows "\<exists>s'. lan_rx_blkd_channel c rk (read_of bs) (s\<lparr>in_read := (in_read s)(c := in_read s c + length bs)\<rparr>) = Some s' \<and>
    lan_inv s' (if bs = [] then P else put_also (lan_targets c s) (fresh_pkts c (length bs) s) P) \<and> (bs \<noteq> [] \<longrightarrow> ring_qty c s' = 0)"
proof -
  let ?m = "in_read s c + length bs"
  let ?s = "s\<lparr>in_read := (in_read s)(c := ?m)\<rparr>"
  let ?ks = "fresh_pkts c (length bs) s"
  note tabs = lan_invD(1) [OF assms(1)]
  note e = lan_invD(2) [OF assms(1)]
  have tr: "is_traf c s" using assms(2) by (simp add: is_traf_def)
  from lan_read [OF lan_envD(2) [OF e] tr assms(3), of rk "lan_rx_ready c" ?s]
  obtain p p' past cs cur ms w x where r: "rings s c = Some p"
    "blkd_fd_event_rx rk (lan_rx_ready c) (read_of bs) (p, ?s) =
       (if bs = [] \<or> ?ks = [] then Some (0, p', ?s) else map_option (Pair 0) (lan_rx_ready c (p', ?s)))"
    "rx_ok p' ?ks cs cur ms w []" "in_pkts s c = past @ ?ks @ ms" "list_all good_pkt past"
    "?m = length (rx_text (past @ ?ks)) + length w" "w @ x = rx_text ms"
    "bs = [] \<longrightarrow> sum_list (map pkt_len ?ks) \<le> GROUP_BLKD_MAX_SIZE + MAX_TOTAL_BLKD_SIZE"
    by blast
  show ?thesis
  proof (cases "bs = [] \<or> ?ks = []")
    case True
    then have "sum_list (map pkt_len ?ks) \<le> GROUP_BLKD_MAX_SIZE + MAX_TOTAL_BLKD_SIZE" using r(8) by (cases "bs = []") simp_all
    then have "ring_state (in_pkts s c) ?m past ?ks p'" by (rule ring_stateI [OF r(3-7)])
    from ring_update [OF assms(1) tr refl lan_envD(3) [OF e] this] True r(1,2) rx_ok_qty [OF r(3)] show ?thesis
      by (auto simp: lan_rx_blkd_channel_def ring_qty_def)
  next
    case False
    let ?tab = "lan_targets c s"
    have "lan_tabs ?s" using tabs by (simp add: lan_tabs_def)
    then have tab: "get_llid_traf_tab c ?s = Some ?tab" by (simp add: get_tab_eq lan_targets_def)
    have "tx_inv (\<lambda>_. 0) {} (tx ?s) P" using lan_envD(3) [OF e] by simp
    from traf_loop_drains [OF r(3) this traf_tab_distinct [OF tabs, of c] targets_few [OF tabs]] obtain p2 t where
      l: "traf_loop ?tab (p', ?s) = Some (p2, ?s\<lparr>tx := t\<rparr>)" "rx_ok p2 [] [] cur ms w []" "dom (fifos t) = dom (fifos (tx s))"
      "tx_inv (\<lambda>_. 0) {} t (put_also ?tab ?ks P)"
      by auto
    have "list_all good_pkt ?ks" using r(3) by (simp add: rx_ok_def)
    then have "ring_state (in_pkts s c) ?m (past @ ?ks) [] p2" by (intro ring_stateI [OF l(2) _ _ _ r(7)]) (use r(4-6) in simp_all)
    from ring_update [OF assms(1) tr l(3,4) this] False r(1,2) l(1) tab assms(2) rx_ok_qty [OF l(2)] show ?thesis
      by (simp add: lan_rx_blkd_channel_def lan_rx_ready_def rx_traf_cb_def ring_qty_def)
  qed
qed

section \<open>The first packet\<close>

lemma find_map_same: "(\<And>x. P (f x) \<longleftrightarrow> P x) \<Longrightarrow> find P (map f xs) = map_option f (find P xs)"
  by (induction xs) auto

text \<open>An endpoint whose rank was asked for gets its packet socket.\<close>

lemma traf_connect_ok:
  assumes "lan_inv s P" "lchans s l = Some Opening"
  shows "\<exists>good s'. llid_rank_traf_connect l name num tidx s = Some (good, s') \<and>
    lan_inv (if good then s'\<lparr>lchans := (lchans s')(l \<mapsto> Traffic)\<rparr> else s') P"
proof -
  note tabs = lan_invD(1) [OF assms(1)]
  note e = lan_invD(2) [OF assms(1)]
  note so = lan_envD(1) [OF e]
  note sk = lan_socksD [OF so]
  have l: "0 < l" "l < MAX_CHANNELS" "fifos (tx s) l \<noteq> None" using sk(1,4) [of l] assms(2) by auto
  have not_in: "l \<notin> set (traf_chain s)" using sk(6) [of l] assms(2) by auto
  have open_ok: "lan_inv (s\<lparr>lchans := (lchans s)(l \<mapsto> Traffic)\<rparr>) P"
  proof -
    have "lan_socks {} (s\<lparr>lchans := (lchans s)(l \<mapsto> Traffic)\<rparr>)" using so l assms(2) unfolding lan_socks_def by auto
    moreover have "lan_rings (s\<lparr>lchans := (lchans s)(l \<mapsto> Traffic)\<rparr>)"
      using lan_envD(2) [OF e] assms(2) by (auto simp: lan_rings_def is_traf_def)
    ultimately show ?thesis using tabs lan_envD(3) [OF e] by (simp add: lan_inv_def lan_env_def lan_tabs_def)
  qed
  show ?thesis
  proof (cases "llid_rank_get_with_name name num tidx s")
    case None
    with assms(1) show ?thesis by (intro exI [of _ False] exI [of _ s]) (simp add: llid_rank_traf_connect_def)
  next
    case (Some d)
    then have d: "d \<in> set (g_head s)" using find_SomeD by (fastforce simp: llid_rank_get_with_name_def)
    show ?thesis
    proof (cases "dr_traf d = 0")
      case False
      with Some open_ok show ?thesis by (intro exI [of _ True] exI [of _ s]) (simp add: llid_rank_traf_connect_def)
    next
      case True
      let ?f = "\<lambda>x. x\<lparr>dr_traf := l\<rparr>"
      define s1 where "s1 = (lan_set_rank l (dr_rank d) s)\<lparr>traf_chain := l # traf_chain s, sock_traf_nb := sock_traf_nb s + 1\<rparr>"
      define s2 where "s2 = (upd_dr d ?f s1)\<lparr>lchans := (lchans s)(l \<mapsto> Traffic)\<rparr>"
      have sel: "g_head s1 = g_head s" "lchans s1 = lchans s" "tx s1 = tx s" "rings s1 = rings s" "in_pkts s1 = in_pkts s" "in_read s1 = in_read s"
        "next_dr s1 = next_dr s" "rank_present s1 = rank_present s" "max_ranks s1 = max_ranks s" "llid_listen s1 = llid_listen s"
        "traf_chain s1 = l # traf_chain s" "sock_traf_nb s1 = sock_traf_nb s + 1"
        by (simp_all add: s1_def lan_set_rank_def)
      have "traf_chain_insert l (lan_set_rank l (dr_rank d) s) = Some s1"
        using l not_in by (auto simp: traf_chain_insert_def s1_def kout_if_bind lan_set_rank_def)
      then have run: "llid_rank_traf_connect l name num tidx s = Some (True, upd_dr d ?f s1)"
        using Some True by (simp add: llid_rank_traf_connect_def)
      from tabs have D: "drs_ok (set (g_head s)) (next_dr s)" and R: "ranks_ok (set (g_head s)) (rank_present s) (max_ranks s)"
        and C: "chain_ok (set (g_head s)) (traf_chain s) (sock_traf_nb s)"
        by (simp_all add: lan_tabs_def)
      have other: "dr_traf x \<noteq> l" "dr_llid x \<noteq> l" if "x \<in> set (g_head s)" for x
        using that C not_in l sk(5) [OF that] assms(2) by (auto simp: chain_ok_def)
      have set2: "set (g_head s2) = insert (?f d) (set (g_head s) - {d})"
        using upd_dr_set [of s1 _ d ?f] D d sel by (simp add: s2_def)
      have "drs_ok (set (g_head s2)) (next_dr s)"
        unfolding set2 by (rule drs_ok_replace [OF D d]) (use drs_okD(1) [OF D d] l other in \<open>auto simp: dr_fields_def\<close>)
      moreover have "ranks_ok (set (g_head s2)) (rank_present s) (max_ranks s)"
      proof -
        have "(\<exists>x\<in>set (g_head s2). dr_addr x = a \<and> dr_rank x = r) \<longleftrightarrow> (\<exists>x\<in>set (g_head s). dr_addr x = a \<and> dr_rank x = r)" for a r
          unfolding set2 using d by fastforce
        with R show ?thesis by (simp add: ranks_ok_def)
      qed
      moreover have "chain_ok (set (g_head s2)) (l # traf_chain s) (sock_traf_nb s + 1)"
      proof -
        have "dr_traf ` (set (g_head s) - {d}) - {0} = dr_traf ` set (g_head s) - {0}" using True d by force
        then have "dr_traf ` set (g_head s2) - {0} = insert l (dr_traf ` set (g_head s) - {0})" unfolding set2 using l by auto
        with C not_in show ?thesis by (simp add: chain_ok_def)
      qed
      ultimately have "lan_tabs s2" using sel by (simp add: lan_tabs_def s2_def)
      moreover have "lan_env {} s2 P"
      proof -
        have "lan_socks {} s2" using so l assms(2) d unfolding lan_socks_def set2 by (auto simp: s2_def sel)
        moreover have "lan_rings s2" using lan_envD(2) [OF e] assms(2) by (auto simp: lan_rings_def is_traf_def s2_def sel)
        ultimately show ?thesis using lan_envD(3) [OF e] by (simp add: lan_env_def s2_def sel)
      qed
      ultimately have "lan_inv s2 P" by (simp add: lan_inv_def)
      moreover have "s2 = (upd_dr d ?f s1)\<lparr>lchans := (lchans (upd_dr d ?f s1))(l \<mapsto> Traffic)\<rparr>" by (simp add: s2_def sel)
      ultimately show ?thesis using run by (intro exI [of _ True] exI [of _ "upd_dr d ?f s1"]) simp
    qed
  qed
qed

text \<open>The first packet must have a NUL, and a name that fits.\<close>

definition opening_fatal :: "t_pkt \<Rightarrow> bool" where
  "opening_fatal k \<longleftrightarrow> 0 \<notin> set (pk_data k) \<or> \<not> words_fit [LAN_PATH_LEN] (sscanf fmt_opening (pkt_text k))"

lemma three_vals: "length vs = 3 \<Longrightarrow> val_types fmt_opening vs \<Longrightarrow> \<exists>name num tidx. vs = [SStr name, SDec num, SDec tidx]"
  by (auto simp: fmt_opening_def numeral_eq_Suc length_Suc_conv elim!: val_types.elims)

lemma opening_answer_ok:
  assumes "lan_inv s P" "lchans s l = Some Opening"
  shows "if opening_fatal k then opening_answer l k s = None else \<exists>s'. opening_answer l k s = Some s' \<and> lan_inv s' P"
proof -
  let ?v = "sscanf fmt_opening (pkt_text k)"
  show ?thesis
  proof (cases "opening_fatal k")
    case True
    then show ?thesis by (auto simp: opening_answer_def opening_fatal_def scan_line_eq kout_if_bind)
  next
    case False
    then have ok: "0 \<in> set (pk_data k)" "words_fit [LAN_PATH_LEN] ?v" by (auto simp: opening_fatal_def)
    show ?thesis
    proof (cases "length ?v = 3")
      case True
      from three_vals [OF True sscanf_types] obtain name num tidx where v: "?v = [SStr name, SDec num, SDec tidx]" by blast
      from traf_connect_ok [OF assms, of name num tidx] obtain good s' where "llid_rank_traf_connect l name num tidx s = Some (good, s')"
        "lan_inv (if good then s'\<lparr>lchans := (lchans s')(l \<mapsto> Traffic)\<rparr> else s') P"
        by blast
      with ok v False show ?thesis by (simp add: opening_answer_def scan_line_eq kout_if_bind)
    next
      case n: False
      then have "opening_answer l k s = Some s"
        unfolding opening_answer_def scan_line_eq using ok by (auto simp: kout_if_bind split: list.splits scan_val.splits)
      with assms(1) False show ?thesis by simp
    qed
  qed
qed

lemma with_name_rings: "llid_rank_get_with_name name num tidx (s\<lparr>rings := r\<rparr>) = llid_rank_get_with_name name num tidx s"
  by (simp add: llid_rank_get_with_name_def)

lemma traf_connect_rings:
  "llid_rank_traf_connect l name num tidx (s\<lparr>rings := r\<rparr>) = map_option (\<lambda>(g, s). (g, s\<lparr>rings := r\<rparr>)) (llid_rank_traf_connect l name num tidx s)"
proof (cases "llid_rank_get_with_name name num tidx s")
  case (Some d)
  have i: "traf_chain_insert l (lan_set_rank l r (s\<lparr>rings := q\<rparr>)) = map_option (\<lambda>s. s\<lparr>rings := q\<rparr>) (traf_chain_insert l (lan_set_rank l r s))" for r q
    by (cases "l \<le> 0"; cases "l \<in> set (traf_chain s)"; cases "fifos (tx s) l") (simp_all add: traf_chain_insert_def lan_set_rank_def kout_if_bind)
  have u: "upd_dr d f (t\<lparr>rings := q\<rparr>) = (upd_dr d f t)\<lparr>rings := q\<rparr>" for f q and t :: t_lan by (simp add: upd_dr_def)
  show ?thesis
  proof (cases "dr_traf d = 0")
    case True
    with Some show ?thesis
      by (cases "traf_chain_insert l (lan_set_rank l (dr_rank d) s)") (simp_all add: llid_rank_traf_connect_def with_name_rings i u)
  qed (simp add: llid_rank_traf_connect_def with_name_rings Some)
qed (simp add: llid_rank_traf_connect_def with_name_rings)

lemma opening_answer_eq:
  "opening_answer l k s = (if opening_fatal k then None else case sscanf fmt_opening (pkt_text k) of
       [SStr name, SDec num, SDec tidx] \<Rightarrow>
         map_option (\<lambda>(g, s). if g then s\<lparr>lchans := (lchans s)(l \<mapsto> Traffic)\<rparr> else s) (llid_rank_traf_connect l name num tidx s)
     | _ \<Rightarrow> Some s)"
proof (cases "opening_fatal k")
  case True
  then show ?thesis by (auto simp: opening_answer_def opening_fatal_def scan_line_eq kout_if_bind)
next
  case False
  then have "0 \<in> set (pk_data k)" "words_fit [LAN_PATH_LEN] (sscanf fmt_opening (pkt_text k))" by (auto simp: opening_fatal_def)
  then have "opening_answer l k s = (case sscanf fmt_opening (pkt_text k) of
       [SStr name, SDec num, SDec tidx] \<Rightarrow> do {
         (good, s) \<leftarrow> llid_rank_traf_connect l name num tidx s;
         Some (if good then s\<lparr>lchans := (lchans s)(l \<mapsto> Traffic)\<rparr> else s)
       }
     | _ \<Rightarrow> Some s)"
    by (simp add: opening_answer_def scan_line_eq kout_if_bind)
  moreover have "(llid_rank_traf_connect l name num tidx s \<bind> (\<lambda>(good, s). Some (if good then s\<lparr>lchans := (lchans s)(l \<mapsto> Traffic)\<rparr> else s))) =
      map_option (\<lambda>(g, s). if g then s\<lparr>lchans := (lchans s)(l \<mapsto> Traffic)\<rparr> else s) (llid_rank_traf_connect l name num tidx s)" for name num tidx
    by (cases "llid_rank_traf_connect l name num tidx s") auto
  ultimately show ?thesis using False by (simp only: if_False)
qed

lemma opening_answer_rings:
  "opening_answer l k (s\<lparr>rings := r\<rparr>) = map_option (\<lambda>s. s\<lparr>rings := r\<rparr>) (opening_answer l k s)"
proof -
  have "map_option (\<lambda>(g, s). if g then s\<lparr>lchans := (lchans s)(l \<mapsto> Traffic)\<rparr> else s) (llid_rank_traf_connect l name num tidx (s\<lparr>rings := r\<rparr>)) =
      map_option (\<lambda>s. s\<lparr>rings := r\<rparr>)
        (map_option (\<lambda>(g, s). if g then s\<lparr>lchans := (lchans s)(l \<mapsto> Traffic)\<rparr> else s) (llid_rank_traf_connect l name num tidx s))" for name num tidx
    unfolding traf_connect_rings by (cases "llid_rank_traf_connect l name num tidx s") (auto split: prod.splits)
  then show ?thesis unfolding opening_answer_eq by (auto split: list.split scan_val.split)
qed

lemma opening_answer_keeps:
  assumes "opening_answer l k s = Some s'"
  shows "rings s' = rings s"
proof -
  have "opening_answer l k (s\<lparr>rings := rings s\<rparr>) = Some (s'\<lparr>rings := rings s\<rparr>)"
    unfolding opening_answer_rings using assms by simp
  with assms have "s' = s'\<lparr>rings := rings s\<rparr>" by simp
  then have "rings s' = rings (s'\<lparr>rings := rings s\<rparr>)" by (rule arg_cong)
  then show ?thesis by simp
qed

lemma opening_fatal_seen [simp]: "opening_fatal (pkt_seen k) = opening_fatal k"
  by (simp add: opening_fatal_def pkt_text_def pkt_seen_def)

text \<open>An endpoint that has not been accepted: one packet is taken.\<close>

lemma opening_read_ok:
  assumes "lan_inv s P" "lchans s c = Some Opening" "bs = lan_bytes c n s" "bs = [] \<or> ring_qty c s = 0"
  shows "if bs \<noteq> [] \<and> fresh_pkts c (length bs) s \<noteq> [] \<and> opening_fatal (hd (fresh_pkts c (length bs) s))
    then lan_rx_blkd_channel c rk (read_of bs) (s\<lparr>in_read := (in_read s)(c := in_read s c + length bs)\<rparr>) = None
    else \<exists>s'. lan_rx_blkd_channel c rk (read_of bs) (s\<lparr>in_read := (in_read s)(c := in_read s c + length bs)\<rparr>) = Some s' \<and> lan_inv s' P"
proof -
  let ?m = "in_read s c + length bs"
  let ?s = "s\<lparr>in_read := (in_read s)(c := ?m)\<rparr>"
  let ?ks = "fresh_pkts c (length bs) s"
  note e = lan_invD(2) [OF assms(1)]
  have tr: "is_traf c s" using assms(2) by (simp add: is_traf_def)
  from lan_read [OF lan_envD(2) [OF e] tr assms(3), of rk "lan_rx_ready c" ?s] assms(4)
  obtain p p' past cs cur ms w x where r: "rings s c = Some p"
    "blkd_fd_event_rx rk (lan_rx_ready c) (read_of bs) (p, ?s) =
       (if bs = [] \<or> ?ks = [] then Some (0, p', ?s) else map_option (Pair 0) (lan_rx_ready c (p', ?s)))"
    "rx_ok p' ?ks cs cur ms w []" "in_pkts s c = past @ ?ks @ ms" "list_all good_pkt past"
    "?m = length (rx_text (past @ ?ks)) + length w" "w @ x = rx_text ms"
    "sum_list (map pkt_len ?ks) \<le> GROUP_BLKD_MAX_SIZE + MAX_TOTAL_BLKD_SIZE"
    by blast
  show ?thesis
  proof (cases "bs = [] \<or> ?ks = []")
    case True
    have "ring_state (in_pkts s c) ?m past ?ks p'" by (rule ring_stateI [OF r(3-8)])
    from ring_update [OF assms(1) tr refl lan_envD(3) [OF e] this] True r(1,2) show ?thesis
      by (auto simp: lan_rx_blkd_channel_def)
  next
    case False
    then obtain k ks' where k: "?ks = k # ks'" by (cases ?ks) auto
    from take_packet [OF r(3) [unfolded k]] obtain b p1 p2 cs' where g: "blkd_rx_fifo_get p' = Some (Some b, p1)"
      "rx_packet b p1 = Some (pkt_seen k)" "blkd_free b p1 = Some p2" "rx_ok p2 ks' cs' cur ms w []"
      by blast
    have run: "lan_rx_blkd_channel c rk (read_of bs) ?s =
        map_option (\<lambda>t. t\<lparr>rings := (rings t)(c \<mapsto> p2)\<rparr>) (opening_answer c (pkt_seen k) ?s)"
      using False r(1,2) assms(2) g(1-3)
      by (cases "opening_answer c (pkt_seen k) ?s") (simp_all add: lan_rx_blkd_channel_def lan_rx_ready_def rx_init_traf_cb_def Let_def)
    let ?r = "(rings s)(c \<mapsto> p2)"
    have "list_all good_pkt (past @ [k])" using r(3,5) k by (simp add: rx_ok_def)
    then have "ring_state (in_pkts s c) ?m (past @ [k]) ks' p2"
      by (intro ring_stateI [OF g(4) _ _ _ r(7)]) (use r(4,6,8) k in simp_all)
    from ring_update [OF assms(1) tr refl lan_envD(3) [OF e] this] have inv: "lan_inv (?s\<lparr>rings := ?r\<rparr>) P" by simp
    have "lchans (?s\<lparr>rings := ?r\<rparr>) c = Some Opening" using assms(2) by simp
    note a = opening_answer_ok [OF inv this, of "pkt_seen k"]
    have "lan_rx_blkd_channel c rk (read_of bs) ?s = opening_answer c (pkt_seen k) (?s\<lparr>rings := ?r\<rparr>)"
      unfolding run opening_answer_rings using opening_answer_keeps [of c "pkt_seen k" ?s]
      by (cases "opening_answer c (pkt_seen k) ?s") simp_all
    with a False k show ?thesis by simp
  qed
qed

section \<open>The ends of sockets\<close>

lemma gone_ok:
  assumes "lan_inv s P" "lchans s l \<noteq> Some Client"
  shows "lan_inv (channel_gone l s) P"
proof -
  note so = lan_envD(1) [OF lan_invD(2) [OF assms(1)]]
  have "lan_socks {} (channel_gone l s)"
    using so assms(2) unfolding lan_socks_def channel_gone_def by auto
  moreover have "lan_rings (channel_gone l s)"
    using lan_envD(2) [OF lan_invD(2) [OF assms(1)]] by (auto simp: lan_rings_def is_traf_def channel_gone_def)
  ultimately show ?thesis using assms(1) by (simp add: lan_inv_def lan_env_def lan_tabs_def channel_gone_def)
qed

lemma read_fails_ok:
  assumes "lan_inv s P" "is_traf c s"
  shows "\<exists>s'. lan_rx_blkd_channel c rk Rd_error s = Some s' \<and> lan_inv s' P"
proof -
  note e = lan_invD(2) [OF assms(1)]
  obtain p past ks0 cs cur ms w x where r: "rings s c = Some p" "rx_ok p ks0 cs cur ms w []"
    "in_pkts s c = past @ ks0 @ ms" "list_all good_pkt past" "in_read s c = length (rx_text (past @ ks0)) + length w" "w @ x = rx_text ms"
    "sum_list (map pkt_len ks0) \<le> GROUP_BLKD_MAX_SIZE + MAX_TOTAL_BLKD_SIZE" "ring_qty c s = length ks0" "arrived c 0 s = past @ ks0"
    by (rule lan_ring [OF lan_envD(2) [OF e] assms(2)])
  obtain st i where n: "pool_rx_newest_record_state p = Some (st, rec_group cur, i)" using newest_state [OF r(2)] by blast
  moreover have "rx_queued_bytes p = int (sum_list (map pkt_len ks0))" using r(2) by (simp add: rx_ok_def)
  moreover obtain gr where "groups p (rec_group cur) = Some gr" "length (head_data gr) < GROUP_BLKD_MAX_SIZE"
    using rx_room_pos [OF r(2)] by blast
  ultimately have "blkd_fd_event_rx rk (lan_rx_ready c) Rd_error (p, s) = Some (-1, p, s)"
    using r(7) by (auto simp: blkd_fd_event_rx_def group_read_sock_unix_def MAX_GLOB_BLKD_QUEUED_BYTES_def GROUP_BLKD_MAX_SIZE_def
      MAX_TOTAL_BLKD_SIZE_def kout_if_bind)
  moreover have "s\<lparr>rings := (rings s)(c \<mapsto> p)\<rparr> = s" using r(1) by (simp add: fun_upd_idem)
  moreover have "lan_inv (channel_gone c s) P" using gone_ok [OF assms(1), of c] assms(2) by (auto simp: is_traf_def)
  ultimately show ?thesis using r(1) by (simp add: lan_rx_blkd_channel_def)
qed

lemma write_ok:
  assumes "lan_inv s P" "is_traf c s"
  shows "\<exists>s'. lan_tx_blkd_channel c ws s = Some s' \<and> lan_inv s' P"
proof -
  note e = lan_invD(2) [OF assms(1)]
  from traf_sock [OF lan_envD(1) [OF e] assms(2)] obtain f where f: "fifos (tx s) c = Some f" by blast
  from event_tx_ok [OF lan_envD(3) [OF e] f, of ws] obtain res t where t: "blkd_fd_event_tx c ws (tx s) = Some (res, t)"
    "tx_inv (\<lambda>_. 0) {} t P" "dom (fifos t) = dom (fifos (tx s))"
    by blast
  have "lan_socks {} (s\<lparr>tx := t\<rparr>)" using lan_envD(1) [OF e] t(3) dom_None [OF t(3)] unfolding lan_socks_def by simp
  moreover have "lan_rings (s\<lparr>tx := t\<rparr>)" using lan_envD(2) [OF e] by (simp add: lan_rings_def is_traf_def)
  ultimately have inv: "lan_inv (s\<lparr>tx := t\<rparr>) P" using t(2) lan_invD(1) [OF assms(1)] by (simp add: lan_inv_def lan_env_def lan_tabs_def)
  from gone_ok [OF this, of c] assms(2) have "lan_inv (channel_gone c (s\<lparr>tx := t\<rparr>)) P" by (auto simp: is_traf_def)
  with inv t(1) f show ?thesis by (simp add: lan_tx_blkd_channel_def Let_def)
qed

text \<open>The peer closes: an unopened socket may end the process, the one that is listened on does.\<close>

lemma err_channel_ok:
  assumes "lan_inv s P" "is_traf c s \<or> lchans s c = Some Listen"
  shows "if lchans s c = Some Listen \<or> (lchans s c = Some Opening \<and> lan_targets c s = []) then lan_err_blkd_channel c s = None
    else \<exists>s'. lan_err_blkd_channel c s = Some s' \<and> lan_inv s' P \<and> lchans s' c = None"
proof -
  note so = lan_envD(1) [OF lan_invD(2) [OF assms(1)]]
  have f: "fifos (tx s) c \<noteq> None" using lan_socksD(4) [OF so, of c] assms(2) by (auto simp: is_traf_def)
  consider "lchans s c = Some Listen" | "lchans s c = Some Opening" | "lchans s c = Some Traffic" using assms(2) by (auto simp: is_traf_def)
  then show ?thesis
  proof cases
    case 1
    with f show ?thesis by (simp add: lan_err_blkd_channel_def)
  next
    case 2
    from err_init_eq [OF assms(1) 2] obtain s' where "err_init_traf_cb c s = (if lan_targets c s = [] then None else Some s')"
      "lan_inv s' P" "fifos (tx s') c = None" "lchans s' c = None"
      by blast
    with 2 f show ?thesis by (simp add: lan_err_blkd_channel_def del: not_None_eq)
  next
    case 3
    from err_traf_ok [OF assms(1) 3] obtain s' where "err_traf_cb c s = Some s'" "lan_inv s' P" "fifos (tx s') c = None" "lchans s' c = None" by blast
    with 3 f show ?thesis by (simp add: lan_err_blkd_channel_def del: not_None_eq)
  qed
qed

end
