(* ===== verification/Lan_Run.thy ===== *)
theory Lan_Run
  imports Lan_Traffic
begin

text \<open>
  The process of a LAN: when it ends, what its tables say, and that it is a hub.
\<close>

section \<open>Systems that a few events end\<close>

text \<open>A state \<open>s\<close>, with what is kept aside of it \<open>h\<close>; some events of a state are legal, some end the process.\<close>

locale guarded_system =
  fixes start :: "'s"
    and note0 :: "'h"
    and step :: "'s \<Rightarrow> 'e \<Rightarrow> 's run"
    and noting :: "'s \<Rightarrow> 'e \<Rightarrow> 'h \<Rightarrow> 'h"
    and legal :: "'s \<Rightarrow> 'e \<Rightarrow> bool"
    and fatal :: "'s \<Rightarrow> 'e \<Rightarrow> bool"
    and inv :: "'s \<Rightarrow> 'h \<Rightarrow> bool"
  assumes starts: "inv start note0"
    and steps: "inv s h \<Longrightarrow> legal s e \<Longrightarrow> if fatal s e then step s e = None else \<exists>t. step s e = Some t \<and> inv t (noting s e h)"
begin

lemma step_keeps: "inv s h \<Longrightarrow> legal s e \<Longrightarrow> step s e = Some t \<Longrightarrow> inv t (noting s e h)"
  using steps [of s h e] by (auto split: if_splits)

lemma ends_iff: "inv s h \<Longrightarrow> legal s e \<Longrightarrow> step s e = None \<longleftrightarrow> fatal s e"
  using steps [of s h e] by (auto split: if_splits)

end

text \<open>A run all of whose events are legal, and what is kept aside of it.\<close>

fun legal_run :: "('s \<Rightarrow> 'e \<Rightarrow> 's run) \<Rightarrow> ('s \<Rightarrow> 'e \<Rightarrow> bool) \<Rightarrow> 's \<Rightarrow> 'e list \<Rightarrow> bool" where
  "legal_run step legal s [] \<longleftrightarrow> True"
| "legal_run step legal s (e # es) \<longleftrightarrow> legal s e \<and> (case step s e of None \<Rightarrow> True | Some t \<Rightarrow> legal_run step legal t es)"

fun noted :: "('s \<Rightarrow> 'e \<Rightarrow> 's run) \<Rightarrow> ('s \<Rightarrow> 'e \<Rightarrow> 'h \<Rightarrow> 'h) \<Rightarrow> 's \<Rightarrow> 'e list \<Rightarrow> 'h \<Rightarrow> 'h" where
  "noted step noting s [] h = h"
| "noted step noting s (e # es) h = (case step s e of None \<Rightarrow> h | Some t \<Rightarrow> noted step noting t es (noting s e h))"

context guarded_system
begin

lemma run_keeps:
  "inv s h \<Longrightarrow> legal_run step legal s es \<Longrightarrow> run_events step s es = Some t \<Longrightarrow> inv t (noted step noting s es h)"
proof (induction es arbitrary: s h)
  case (Cons e es)
  then obtain u where u: "step s e = Some u" "run_events step u es = Some t" by (auto simp: bind_eq_Some_conv)
  with Cons show ?case using step_keeps [of s h e u] by simp
qed simp

lemma reached: "legal_run step legal start es \<Longrightarrow> run_events step start es = Some t \<Longrightarrow> inv t (noted step noting start es note0)"
  by (rule run_keeps [OF starts])

end

section \<open>The events of a LAN\<close>

text \<open>
  The peers write good packets, and a socket that has not been accepted is not read while packets of it
  wait: then the memory is no longer bounded by what one read brings.
\<close>

definition lan_legal :: "t_lan \<Rightarrow> lan_ev \<Rightarrow> bool" where
  "lan_legal s e = (case e of
     Traf_connect lis c ks \<Rightarrow> list_all good_pkt ks
   | Traf_read c rk n \<Rightarrow> lchans s c = Some Opening \<longrightarrow> ring_qty c s = 0
   | _ \<Rightarrow> True)"

text \<open>The events that end the process: an evil line, an evil first packet, a socket that closes too early.\<close>

definition lan_fatal :: "t_lan \<Rightarrow> lan_ev \<Rightarrow> bool" where
  "lan_fatal s e \<longleftrightarrow> \<not> ended s \<and> (case e of
     Diag l tid line nl \<Rightarrow> lchans s l = Some Client \<and> \<not> destroying s \<and> line_fatal (g_name s) line
   | Traf_read c rk n \<Rightarrow> lchans s c = Some Opening \<and> (let ks = fresh_pkts c (length (lan_bytes c n s)) s in
       lan_bytes c n s \<noteq> [] \<and> ks \<noteq> [] \<and> opening_fatal (hd ks))
   | Traf_err c \<Rightarrow> lchans s c = Some Listen \<or> (lchans s c = Some Opening \<and> lan_targets c s = [])
   | _ \<Rightarrow> False)"

text \<open>What a hub does: the packets of an open socket go to all the others, in order. A new socket starts empty.\<close>

definition hub_notes :: "t_lan \<Rightarrow> lan_ev \<Rightarrow> (int \<Rightarrow> t_pkt list) \<Rightarrow> int \<Rightarrow> t_pkt list" where
  "hub_notes s e P =
     (if ended s then P
      else case e of
        Diag l tid line nl \<Rightarrow> if lchans s l = Some Client then P((if usable_llid nl s then nl else 0) := []) else P
      | Traf_connect lis c ks \<Rightarrow> if lchans s lis = Some Listen \<and> usable_llid c s then P(c := []) else P
      | Traf_read c rk n \<Rightarrow>
          if lchans s c = Some Traffic \<and> lan_bytes c n s \<noteq> []
          then put_also (lan_targets c s) (fresh_pkts c (length (lan_bytes c n s)) s) P
          else P
      | _ \<Rightarrow> P)"

lemma client_connect_ok:
  assumes "lan_inv s P" "usable_llid c s"
  shows "lan_inv (client_connect c s) P"
proof -
  note so = lan_envD(1) [OF lan_invD(2) [OF assms(1)]]
  have c: "0 < c" "c < MAX_CHANNELS" "lchans s c = None" "fifos (tx s) c = None" using assms(2) by (simp_all add: usable_llid_def)
  then have "c \<notin> set (traf_chain s)" using lan_socksD(6) [OF so, of c] by auto
  then have "lan_socks {} (client_connect c s)"
    using so c unfolding lan_socks_def client_connect_def Let_def by auto
  moreover have "lan_rings (client_connect c s)"
    using lan_envD(2) [OF lan_invD(2) [OF assms(1)]] by (auto simp: lan_rings_def is_traf_def client_connect_def Let_def)
  ultimately show ?thesis using assms(1) by (simp add: lan_inv_def lan_env_def lan_tabs_def client_connect_def Let_def)
qed

lemma lan_start_ok: "lan_inv (lan_start name) (\<lambda>_. [])"
  using tx_start_inv [of "[]"]
  by (simp add: lan_inv_def lan_env_def lan_tabs_def lan_socks_def lan_rings_def is_traf_def lan_start_def drs_ok_def ranks_ok_def chain_ok_def
      tx_start_def)

lemma lan_step_ok:
  assumes "lan_inv s P" "lan_legal s e"
  shows "if lan_fatal s e then lan_step s e = None else \<exists>t. lan_step s e = Some t \<and> lan_inv t (hub_notes s e P)"
proof (cases "ended s")
  case True
  with assms(1) show ?thesis by (simp add: lan_step_def hub_notes_def lan_fatal_def)
next
  case run: False
  show ?thesis
  proof (cases e)
    case (Client_connect c)
    with run assms(1) client_connect_ok [OF assms(1), of c] show ?thesis
      by (simp add: lan_step_def hub_notes_def lan_fatal_def)
  next
    case (Diag l tid line nl)
    let ?nl = "if usable_llid nl s then nl else 0"
    show ?thesis
    proof (cases "lchans s l = Some Client")
      case True
      have "?nl = 0 \<or> usable_llid ?nl s" by simp
      from recv_diag_ok [OF assms(1) True this, of line tid] True Diag run show ?thesis
        by (simp add: lan_step_def hub_notes_def lan_fatal_def)
    qed (use Diag run assms(1) in \<open>simp add: lan_step_def hub_notes_def lan_fatal_def\<close>)
  next
    case (Client_err l)
    with run assms(1) client_err_ok [OF assms(1), of l] show ?thesis
      by (simp add: lan_step_def hub_notes_def lan_fatal_def)
  next
    case (Traf_connect lis c ks)
    with run assms traf_connection_ok [OF assms(1), of c ks] show ?thesis
      by (simp add: lan_step_def hub_notes_def lan_fatal_def lan_legal_def)
  next
    case (Traf_read c rk n)
    let ?bs = "lan_bytes c n s"
    have step: "lan_step s e = (if is_traf c s
      then lan_rx_blkd_channel c rk (read_of ?bs) (s\<lparr>in_read := (in_read s)(c := in_read s c + length ?bs)\<rparr>) else Some s)"
      using run Traf_read by (simp add: lan_step_def read_of_def Let_def)
    consider "lchans s c = Some Opening" | "lchans s c = Some Traffic" | "\<not> is_traf c s" by (auto simp: is_traf_def)
    then show ?thesis
    proof cases
      case 1
      with Traf_read assms(2) have "?bs = [] \<or> ring_qty c s = 0" by (simp add: lan_legal_def)
      from opening_read_ok [OF assms(1) 1 refl this, of rk] 1 Traf_read run show ?thesis
        unfolding step by (simp add: is_traf_def hub_notes_def lan_fatal_def Let_def)
    next
      case 2
      from traf_read_ok [OF assms(1) 2 refl, of rk n] obtain t where
        "lan_rx_blkd_channel c rk (read_of ?bs) (s\<lparr>in_read := (in_read s)(c := in_read s c + length ?bs)\<rparr>) = Some t"
        "lan_inv t (if ?bs = [] then P else put_also (lan_targets c s) (fresh_pkts c (length ?bs) s) P)"
        by blast
      with 2 Traf_read run show ?thesis unfolding step
        by (cases "?bs = []") (simp_all add: is_traf_def hub_notes_def lan_fatal_def)
    next
      case 3
      with assms(1) Traf_read run show ?thesis unfolding step by (auto simp: is_traf_def hub_notes_def lan_fatal_def)
    qed
  next
    case (Traf_read_fails c rk)
    with run assms(1) read_fails_ok [OF assms(1), of c rk] show ?thesis
      by (simp add: lan_step_def hub_notes_def lan_fatal_def)
  next
    case (Traf_write c ws)
    with run assms(1) write_ok [OF assms(1), of c ws] show ?thesis
      by (simp add: lan_step_def hub_notes_def lan_fatal_def)
  next
    case (Traf_err c)
    show ?thesis
    proof (cases "is_traf c s \<or> lchans s c = Some Listen")
      case True
      show ?thesis
      proof (cases "lan_fatal s e")
        case fatal: True
        with err_channel_ok [OF assms(1) True] Traf_err run True show ?thesis
          by (auto simp: lan_step_def lan_fatal_def)
      next
        case False
        with err_channel_ok [OF assms(1) True] Traf_err run obtain t where t: "lan_err_blkd_channel c s = Some t" "lan_inv t P" "lchans t c = None"
          by (auto simp: lan_fatal_def split: if_splits)
        with t Traf_err run True False show ?thesis by (simp add: lan_step_def hub_notes_def)
      qed
    next
      case False
      with Traf_err run assms(1) show ?thesis by (auto simp: lan_step_def hub_notes_def lan_fatal_def is_traf_def)
    qed
  next
    case Destroy
    have "lan_inv (s\<lparr>ended := True\<rparr>) P"
      using assms(1) by (simp add: lan_inv_def lan_env_def lan_tabs_def lan_socks_def lan_rings_def is_traf_def)
    with Destroy run assms(1) show ?thesis by (simp add: lan_step_def hub_notes_def lan_fatal_def)
  qed
qed

text \<open>The numbers of the packets are those that fit in the header.\<close>

definition hub_inv :: "t_lan \<Rightarrow> (int \<Rightarrow> t_pkt list) \<Rightarrow> bool" where
  "hub_inv s P \<longleftrightarrow> lan_inv s P \<and> (\<forall>c. \<forall>k\<in>set (P c). pkt_seen k = k)"

lemma pkt_seen_seen [simp]: "pkt_seen (pkt_seen k) = pkt_seen k"
  by (simp add: pkt_seen_def)

lemma put_also_seen: "\<forall>c. \<forall>k\<in>set (P c). pkt_seen k = k \<Longrightarrow> k \<in> set (put_also tab ks P c) \<Longrightarrow> pkt_seen k = k"
  by (auto simp: put_also_def split: if_splits)

lemma hub_notes_forms: "hub_notes s e P = P \<or> (\<exists>c. hub_notes s e P = P(c := [])) \<or> (\<exists>tab ks. hub_notes s e P = put_also tab ks P)"
  unfolding hub_notes_def by (cases e) (simp_all split: if_split, blast+)

lemma hub_notes_seen:
  assumes "\<forall>c. \<forall>k\<in>set (P c). pkt_seen k = k"
  shows "\<forall>c. \<forall>k\<in>set (hub_notes s e P c). pkt_seen k = k"
proof -
  consider "hub_notes s e P = P" | c where "hub_notes s e P = P(c := [])" | tab ks where "hub_notes s e P = put_also tab ks P"
    using hub_notes_forms [of s e P] by blast
  then show ?thesis
  proof cases
    case (3 tab ks)
    then show ?thesis using put_also_seen [OF assms] by auto
  qed (use assms in simp_all)
qed

interpretation lan: guarded_system "lan_start name" "\<lambda>_. []" lan_step hub_notes lan_legal lan_fatal hub_inv for name
proof (unfold_locales, goal_cases)
  case 1
  then show ?case using lan_start_ok by (simp add: hub_inv_def)
next
  case (2 s h e)
  with lan_step_ok [of s h e] hub_notes_seen [of h s e] show ?case by (auto simp: hub_inv_def split: if_splits)
qed

section \<open>A short life of a LAN\<close>

text \<open>A short life of a LAN: a client asks for the socket, announces itself, takes its rank, and connects.\<close>

definition first_packet :: "string \<Rightarrow> t_pkt" where
  "first_packet w = \<lparr>pk_llid = 0, pk_type = 0, pk_val = 0, pk_usec = replicate 8 0, pk_data = map (\<lambda>c. of_nat (of_char c)) w @ [0]\<rparr>"

definition a_life :: "lan_ev list" where
  "a_life = [Client_connect 1, Diag 1 7 ''cloonix_req_listen=/t lan=la'' 2,
     Diag 1 8 ''muend_req_rank lan=la name=a num=0 tidx=0'' 0, Diag 1 9 ''muend_ack_rank lan=la name=a num=0 tidx=0 rank=1'' 0,
     Traf_connect 2 3 [first_packet ''TRAFFIC_OPENING: name=a num=0 tidx=0'']]"

lemma life_lines:
  "sscanf (fmt_of ''muend_req_handshake'') ''cloonix_req_listen=/t lan=la'' = []"
  "sscanf fmt_listen ''cloonix_req_listen=/t lan=la'' = [SStr ''/t'', SStr ''la'']"
  "sscanf (fmt_of ''muend_req_handshake'') ''muend_req_rank lan=la name=a num=0 tidx=0'' = []"
  "sscanf fmt_listen ''muend_req_rank lan=la name=a num=0 tidx=0'' = []"
  "sscanf (fmt_of ''muend_req_rank'') ''muend_req_rank lan=la name=a num=0 tidx=0'' = [SStr ''la'', SStr ''a'', SDec 0, SDec 0]"
  "sscanf (fmt_of ''muend_req_handshake'') ''muend_ack_rank lan=la name=a num=0 tidx=0 rank=1'' = []"
  "sscanf fmt_listen ''muend_ack_rank lan=la name=a num=0 tidx=0 rank=1'' = []"
  "sscanf (fmt_of ''muend_req_rank'') ''muend_ack_rank lan=la name=a num=0 tidx=0 rank=1'' = []"
  "sscanf (fmt_rank ''muend_ack_rank'') ''muend_ack_rank lan=la name=a num=0 tidx=0 rank=1'' = [SStr ''la'', SStr ''a'', SDec 0, SDec 0, SDec 1]"
  by code_simp+

lemma first_is_good: "good_pkt (first_packet ''TRAFFIC_OPENING: name=a num=0 tidx=0'')"
  "\<not> opening_fatal (first_packet ''TRAFFIC_OPENING: name=a num=0 tidx=0'')"
  by code_simp+


lemma life_rank: "rank_get_free s = 1" if "rank_present s 1 = None" "g_head s = []"
proof -
  have "[1..<MAX_USOCK_RANKS] = 1 # [2..<MAX_USOCK_RANKS]" by (simp add: MAX_USOCK_RANKS_def upt_rec numeral_2_eq_2)
  with that show ?thesis by (simp add: rank_get_free_def llid_rank_get_with_prechoice_rank_def)
qed

lemma recv_out:
  assumes "diag_answer l line nl s = Some (r, s')"
  shows "\<exists>out. rpct_recv_diag_msg l tid line nl s = Some (s'\<lparr>diag_out := out\<rparr>)"
proof (cases "take 2 r = ''KO''")
  case True
  with assms show ?thesis by (intro exI [of _ "diag_out s'"]) (simp add: rpct_recv_diag_msg_def)
next
  case False
  with assms show ?thesis by (intro exI [of _ "diag_out s' @ [(l, tid, r)]"]) (simp add: rpct_recv_diag_msg_def send_diag_def)
qed

lemma life_runs:
  "\<exists>s. run_events lan_step (lan_start ''la'') a_life = Some s \<and> legal_run lan_step lan_legal (lan_start ''la'') a_life \<and>
    lchans s 3 = Some Opening \<and> traf_chain s = [] \<and> map dr_rank (g_head s) = [1] \<and>
    in_pkts s 3 = [first_packet ''TRAFFIC_OPENING: name=a num=0 tidx=0''] \<and> in_read s 3 = 0 \<and> \<not> ended s \<and>
    g_name s = ''la'' \<and> \<not> destroying s \<and> listen_path s = ''/t'' \<and> map dr_name (g_head s) = [''a''] \<and> map dr_llid (g_head s) = [1] \<and>
    map prechoice_rank (g_head s) = [1] \<and> (\<exists>a. rank_present s = [1 \<mapsto> a])"
proof -
  let ?L = "''cloonix_req_listen=/t lan=la''"
  let ?R = "''muend_req_rank lan=la name=a num=0 tidx=0''"
  let ?A = "''muend_ack_rank lan=la name=a num=0 tidx=0 rank=1''"
  let ?k = "first_packet ''TRAFFIC_OPENING: name=a num=0 tidx=0''"
  define s1 where "s1 = client_connect 1 (lan_start ''la'')"
  have s1: "lchans s1 = [1 \<mapsto> Client]" "g_name s1 = ''la''" "fifos (tx s1) = (\<lambda>_. None)" "g_head s1 = []" "traf_chain s1 = []"
    "rank_present s1 = (\<lambda>_. None)" "\<not> destroying s1" "\<not> ended s1" "in_read s1 = (\<lambda>_. 0)"
    by (simp_all add: s1_def client_connect_def lan_start_def tx_start_def fun_eq_iff LAN_NAME_LEN_def)
  have st1: "lan_step (lan_start ''la'') (Client_connect 1) = Some s1"
    by (simp add: lan_step_def s1_def usable_llid_def lan_start_def tx_start_def MAX_CHANNELS_def)
  have u2: "usable_llid 2 s1" using s1 by (simp add: usable_llid_def MAX_CHANNELS_def)
  from lan_alloc_eq [of 2 "s1\<lparr>lchans := (lchans s1)(2 \<mapsto> Listen)\<rparr>"] s1(3) obtain p t where a: "lan_alloc_blkd 2 (s1\<lparr>lchans := (lchans s1)(2 \<mapsto> Listen)\<rparr>) =
      Some (s1\<lparr>lchans := (lchans s1)(2 \<mapsto> Listen), tx := t, rings := (rings s1)(2 \<mapsto> p), blkd_rank := (blkd_rank s1)(2 := 0)\<rparr>)"
    "dom (fifos t) = {2}"
    by (auto simp: MAX_CHANNELS_def)
  define s2 where "s2 = send_diag 1 7 (c_trunc (MAX_RESP_LEN - 1) (''cloonix_resp_listen_ok='' @ ''/t''))
    (s1\<lparr>lchans := (lchans s1)(2 \<mapsto> Listen), tx := t, rings := (rings s1)(2 \<mapsto> p), blkd_rank := (blkd_rank s1)(2 := 0), listen_path := ''/t'', llid_listen := 0\<rparr>)"
  have "diag_answer 1 ?L 2 s1 = req_listen 2 ''/t'' s1"
    unfolding diag_answer_def scan_line_eq life_lines using s1 by (simp add: kout_if_bind LAN_NAME_LEN_def LAN_PATH_LEN_def)
  then have st2: "lan_step s1 (Diag 1 7 ?L 2) = Some s2"
    using s1 u2 a(1) by (simp add: lan_step_def rpct_recv_diag_msg_def req_listen_def s2_def c_trunc_def MAX_RESP_LEN_def)
  have s2: "lchans s2 = [1 \<mapsto> Client, 2 \<mapsto> Listen]" "g_name s2 = ''la''" "dom (fifos (tx s2)) = {2}" "g_head s2 = []" "traf_chain s2 = []"
    "rank_present s2 = (\<lambda>_. None)" "\<not> destroying s2" "\<not> ended s2" "listen_path s2 = ''/t''" "in_read s2 = (\<lambda>_. 0)"
    using s1 a(2) by (simp_all add: s2_def send_diag_def)
  let ?d = "\<lparr>dr_addr = next_dr s2, dr_llid = 1, dr_traf = 0, dr_name = ''a'', dr_num = 0, dr_tidx = 0, prechoice_rank = 1, dr_rank = 0\<rparr>"
  let ?s = "s2\<lparr>next_dr := Suc (next_dr s2), g_head := [?d]\<rparr>"
  have "diag_answer 1 ?R 0 s2 = Some (req_rank 1 ''la'' ''a'' 0 0 s2)"
    unfolding diag_answer_def rank_dialog_def scan_line_eq life_lines using s2 by (simp add: kout_if_bind LAN_NAME_LEN_def LAN_PATH_LEN_def)
  moreover obtain r where "req_rank 1 ''la'' ''a'' 0 0 s2 = (r, ?s)"
    using s2 life_rank [of s2] by (simp add: req_rank_def Let_def llid_rank_llid_create_def llid_rank_get_with_name_def llid_rank_get_with_llid_def
        llid_rank_get_with_prechoice_rank_def alloc_llid_rank_def LAN_NAME_LEN_def)
  ultimately have "diag_answer 1 ?R 0 s2 = Some (r, ?s)" by simp
  from recv_out [OF this, of 8] obtain s3 where st3: "lan_step s2 (Diag 1 8 ?R 0) = Some s3" "\<exists>out. s3 = ?s\<lparr>diag_out := out\<rparr>"
    using s2 by (auto simp: lan_step_def usable_llid_def)
  from st3(2) obtain out where e3: "s3 = ?s\<lparr>diag_out := out\<rparr>" ..
  have s3: "lchans s3 = [1 \<mapsto> Client, 2 \<mapsto> Listen]" "g_name s3 = ''la''" "dom (fifos (tx s3)) = {2}" "g_head s3 = [?d]" "traf_chain s3 = []"
    "rank_present s3 = (\<lambda>_. None)" "\<not> destroying s3" "\<not> ended s3" "listen_path s3 = ''/t''"
    using s2 e3 by simp_all
  define s4 where "s4 = snd (rank_has_become_active 1 ''la'' ''a'' 0 0 1 ''KO'' s3)"
  have h4: "rank_has_become_active 1 ''la'' ''a'' 0 0 1 ''KO'' s3 = (rank_line ''mulan_req_start'' ''la'' ''a'' 0 0 1, s4)"
    "s4 = adjust_max_rank ((upd_dr ?d (\<lambda>x. x\<lparr>dr_tidx := 0, dr_rank := 1\<rparr>) s3)\<lparr>rank_present := [1 \<mapsto> next_dr s2]\<rparr>)"
    using s3 by (simp_all add: s4_def rank_has_become_active_def llid_rank_peer_rank_set_def llid_rank_get_with_rank_def llid_rank_get_with_llid_def
        MAX_USOCK_RANKS_def)
  have "diag_answer 1 ?A 0 s3 = Some (rank_line ''mulan_req_start'' ''la'' ''a'' 0 0 1, s4)"
    unfolding diag_answer_def rank_dialog_def scan_line_eq life_lines using s3 h4(1) by (simp add: kout_if_bind LAN_NAME_LEN_def LAN_PATH_LEN_def)
  from recv_out [OF this, of 9] obtain s5 where st4: "lan_step s3 (Diag 1 9 ?A 0) = Some s5" "\<exists>out. s5 = s4\<lparr>diag_out := out\<rparr>"
    using s3 by (auto simp: lan_step_def usable_llid_def)
  have s4: "lchans s4 = [1 \<mapsto> Client, 2 \<mapsto> Listen]" "dom (fifos (tx s4)) = {2}" "map dr_rank (g_head s4) = [1]" "traf_chain s4 = []"
    "\<not> destroying s4" "\<not> ended s4" "g_name s4 = ''la''" "listen_path s4 = ''/t''" "map dr_name (g_head s4) = [''a'']"
    "map dr_llid (g_head s4) = [1]" "map prechoice_rank (g_head s4) = [1]" "rank_present s4 = [1 \<mapsto> next_dr s2]"
    using s3 unfolding h4(2) by (simp_all add: adjust_max_rank_def upd_dr_def)
  from st4(2) obtain out2 where e5: "s5 = s4\<lparr>diag_out := out2\<rparr>" ..
  have s5: "lchans s5 = [1 \<mapsto> Client, 2 \<mapsto> Listen]" "dom (fifos (tx s5)) = {2}" "map dr_rank (g_head s5) = [1]" "traf_chain s5 = []"
    "\<not> ended s5" "g_name s5 = ''la''" "\<not> destroying s5" "listen_path s5 = ''/t''" "map dr_name (g_head s5) = [''a'']"
    "map dr_llid (g_head s5) = [1]" "map prechoice_rank (g_head s5) = [1]" "rank_present s5 = [1 \<mapsto> next_dr s2]"
    using s4 e5 by simp_all
  have "3 \<notin> dom (fifos (tx s5))" using s5(2) by simp
  then have "fifos (tx s5) 3 = None" by (simp add: domIff)
  moreover from this have u3: "usable_llid 3 s5" using s5(1) by (simp add: usable_llid_def MAX_CHANNELS_def)
  ultimately obtain p' t' where b: "lan_alloc_blkd 3 s5 = Some (s5\<lparr>tx := t', rings := (rings s5)(3 \<mapsto> p'), blkd_rank := (blkd_rank s5)(3 := 0)\<rparr>)"
    using lan_alloc_eq [of 3 s5] by (auto simp: MAX_CHANNELS_def)
  define s6 where "s6 = s5\<lparr>tx := t', rings := (rings s5)(3 \<mapsto> p'), blkd_rank := (blkd_rank s5)(3 := 0), lchans := (lchans s5)(3 \<mapsto> Opening),
    in_pkts := (in_pkts s5)(3 := [?k]), in_read := (in_read s5)(3 := 0)\<rparr>"
  have st5: "lan_step s5 (Traf_connect 2 3 [?k]) = Some s6"
    using s5 u3 b by (simp add: lan_step_def traf_connection_def s6_def)
  have run: "run_events lan_step (lan_start ''la'') a_life = Some s6"
    using st1 st2 st3(1) st4(1) st5 by (simp add: a_life_def)
  have legal: "legal_run lan_step lan_legal (lan_start ''la'') a_life"
    using st1 st2 st3(1) st4(1) st5 first_is_good(1) by (simp add: a_life_def lan_legal_def)
  have s6: "lchans s6 3 = Some Opening" "traf_chain s6 = []" "map dr_rank (g_head s6) = [1]" "in_pkts s6 3 = [?k]" "in_read s6 3 = 0" "\<not> ended s6"
    "g_name s6 = ''la''" "\<not> destroying s6" "listen_path s6 = ''/t''" "map dr_name (g_head s6) = [''a'']" "map dr_llid (g_head s6) = [1]"
    "map prechoice_rank (g_head s6) = [1]" "rank_present s6 = [1 \<mapsto> next_dr s2]"
    using s5 by (simp_all add: s6_def)
  show ?thesis by (intro exI [of _ s6] conjI exI [of _ "next_dr s2"]) (fact run, fact legal, (fact s6)+)
qed

section \<open>Properties\<close>



text \<open>C35: The tables of a LAN. After any legal events no two endpoints share their channel of messages, the
  rank they asked for or their packet socket; their channel of messages is open; the rank is one of 1 to
  199 and is either not taken yet or the one that was asked for; the table of the ranks lists exactly the
  ranks that are taken, each at the endpoint that has it and below the number that bounds the loops over
  the table; and the chain of the packet sockets lists exactly those of the endpoints, once each, and
  counts them.\<close>

theorem lan_tables_agree:
  assumes "legal_run lan_step lan_legal (lan_start name) evs" "run_events lan_step (lan_start name) evs = Some s"
  shows "(\<forall>d\<in>set (g_head s). \<forall>d'\<in>set (g_head s). d \<noteq> d' \<longrightarrow>
      dr_llid d \<noteq> dr_llid d' \<and> prechoice_rank d \<noteq> prechoice_rank d' \<and> (dr_traf d = 0 \<or> dr_traf d \<noteq> dr_traf d')) \<and>
    (\<forall>d\<in>set (g_head s). lchans s (dr_llid d) = Some Client \<and> 1 \<le> prechoice_rank d \<and> prechoice_rank d \<le> 199 \<and>
      dr_rank d \<in> {0, prechoice_rank d}) \<and>
    (\<forall>r a. rank_present s r = Some a \<longleftrightarrow> r \<noteq> 0 \<and> (\<exists>d\<in>set (g_head s). dr_addr d = a \<and> dr_rank d = int r)) \<and>
    (\<forall>r. rank_present s r \<noteq> None \<longrightarrow> r < max_ranks s) \<and>
    distinct (traf_chain s) \<and> sock_traf_nb s = int (length (traf_chain s)) \<and> set (traf_chain s) = dr_traf ` set (g_head s) - {0}"
proof -
  have i: "lan_inv s (noted lan_step hub_notes (lan_start name) evs (\<lambda>_. []))"
    using lan.reached [OF assms] by (simp add: hub_inv_def)
  from lan_invD(1) [OF i] have D: "drs_ok (set (g_head s)) (next_dr s)" and R: "ranks_ok (set (g_head s)) (rank_present s) (max_ranks s)"
    and C: "chain_ok (set (g_head s)) (traf_chain s) (sock_traf_nb s)"
    by (simp_all add: lan_tabs_def)
  note so = lan_socksD [OF lan_envD(1) [OF lan_invD(2) [OF i]]]
  have "dr_llid d \<noteq> dr_llid d' \<and> prechoice_rank d \<noteq> prechoice_rank d' \<and> (dr_traf d = 0 \<or> dr_traf d \<noteq> dr_traf d')"
    if "d \<in> set (g_head s)" "d' \<in> set (g_head s)" "d \<noteq> d'" for d d'
    using drs_okD(3) [OF D that(1,2)] that(3) by (auto simp: dr_clash_def)
  moreover have "lchans s (dr_llid d) = Some Client \<and> 1 \<le> prechoice_rank d \<and> prechoice_rank d \<le> 199 \<and> dr_rank d \<in> {0, prechoice_rank d}"
    if "d \<in> set (g_head s)" for d
    using so(5) [OF that] drs_okD(1) [OF D that] by (auto simp: dr_fields_def MAX_USOCK_RANKS_def)
  ultimately show ?thesis using R C by (simp add: ranks_ok_def chain_ok_def)
qed

theorem lan_tables_agree_witness:
  "\<exists>s a. run_events lan_step (lan_start ''la'') a_life = Some s \<and> rank_present s 1 = Some a \<and> 1 < max_ranks s"
proof -
  from life_runs obtain s where s: "run_events lan_step (lan_start ''la'') a_life = Some s" "legal_run lan_step lan_legal (lan_start ''la'') a_life"
    "map dr_rank (g_head s) = [1]"
    by (elim exE conjE)
  then obtain d where "g_head s = [d]" "dr_rank d = 1" by (auto simp: map_eq_Cons_conv)
  with lan_tables_agree [OF s(2,1)] have "rank_present s 1 = Some (dr_addr d)" "rank_present s 1 \<noteq> None \<longrightarrow> 1 < max_ranks s"
    by simp_all
  with s(1) show ?thesis by auto
qed

text \<open>C34: A LAN is a hub. After any legal events, let \<open>P c\<close> be what a hub has for the socket \<open>c\<close>: the
  packets that were read whole from the other open sockets while \<open>c\<close> was the open socket of an
  endpoint, in the order they were read. Then what is on its way to the peer of \<open>c\<close> is a subsequence of
  these packets, all of them while they have at most 655340 bytes, and the rest is counted as dropped;
  what was written to \<open>c\<close> is a beginning of the text of these packets, and the peer, whatever its reads
  cut, uses exactly the packets whose last byte it has. And a read of an open socket that finds a byte
  leaves no packet behind: all that is whole has been sent on.\<close>

theorem lan_is_a_hub:
  fixes use :: "t_pkt \<Rightarrow> 's \<Rightarrow> 's"
  assumes "legal_run lan_step lan_legal (lan_start name) evs" "run_events lan_step (lan_start name) evs = Some s"
    "P = noted lan_step hub_notes (lan_start name) evs (\<lambda>_. [])"
  shows "(\<forall>c f. fifos (tx s) c = Some f \<longrightarrow>
      (\<exists>ks pend. subseq ks (P c) \<and> drop_tx (tx s) c = data_len (P c) - data_len ks \<and> (pkts_len (P c) \<le> 655340 \<longrightarrow> ks = P c) \<and>
        sent (tx s) c @ pend = rx_text ks \<and> (tx_qty f = 0 \<longrightarrow> pend = []) \<and>
        (\<forall>ns st. \<exists>seen left p. (blkd_rx_init zero_fifo_rx \<bind> (\<lambda>p. rx_events use None ns (sent (tx s) c) (p, st))) =
          Some (left, p, fold use (whole_pkts ks (length seen)) st) \<and> seen @ left = sent (tx s) c))) \<and>
    (\<forall>c rk n t. \<not> ended s \<and> lchans s c = Some Traffic \<and> lan_bytes c n s \<noteq> [] \<and> lan_step s (Traf_read c rk n) = Some t \<longrightarrow> ring_qty c t = 0)"
proof -
  from lan.reached [OF assms(1,2)] have i: "lan_inv s P" "\<forall>c. \<forall>k\<in>set (P c). pkt_seen k = k"
    by (simp_all add: hub_inv_def assms(3))
  note t = lan_envD(3) [OF lan_invD(2) [OF i(1)]]
  have B: "ring_qty c t = 0" if "\<not> ended s" "lchans s c = Some Traffic" "lan_bytes c n s \<noteq> []" "lan_step s (Traf_read c rk n) = Some t" for c rk n t
    using traf_read_ok [OF i(1) that(2) refl, of rk n] that by (auto simp: lan_step_def is_traf_def read_of_def Let_def)
  have A: "\<exists>ks pend. subseq ks (P c) \<and> drop_tx (tx s) c = data_len (P c) - data_len ks \<and> (pkts_len (P c) \<le> 655340 \<longrightarrow> ks = P c) \<and>
        sent (tx s) c @ pend = rx_text ks \<and> (tx_qty f = 0 \<longrightarrow> pend = []) \<and>
        (\<forall>ns st. \<exists>seen left p. (blkd_rx_init zero_fifo_rx \<bind> (\<lambda>p. rx_events use None ns (sent (tx s) c) (p, st))) =
          Some (left, p, fold use (whole_pkts ks (length seen)) st) \<and> seen @ left = sent (tx s) c)" if "fifos (tx s) c = Some f" for c f
  proof -
    have "\<forall>k\<in>set (P c). pkt_seen k = k" using i(2) by blast
    from channel_gets [OF t that this, of use] show ?thesis .
  qed
  show ?thesis by (rule conjI; intro allI impI) (erule A, elim conjE, erule (3) B)
qed

theorem lan_is_a_hub_witness:
  "\<exists>s f ks. run_events lan_step (lan_start ''la'') a_life = Some s \<and> fifos (tx s) 3 = Some f \<and>
    subseq ks (noted lan_step hub_notes (lan_start ''la'') a_life (\<lambda>_. []) 3) \<and> (tx_qty f = 0 \<longrightarrow> sent (tx s) 3 = rx_text ks)"
proof -
  from life_runs obtain s where s: "run_events lan_step (lan_start ''la'') a_life = Some s" "legal_run lan_step lan_legal (lan_start ''la'') a_life"
    "lchans s 3 = Some Opening"
    by (elim exE conjE)
  from lan.reached [OF s(2,1)] have "lan_socks {} s" by (auto simp: hub_inv_def lan_inv_def lan_env_def)
  then obtain f where f: "fifos (tx s) 3 = Some f" using lan_socksD(4) [of "{}" s 3] s(3) by auto
  from lan_is_a_hub [OF s(2,1) refl, of "\<lambda>_ _. ()", THEN conjunct1, THEN spec, THEN spec, THEN mp, OF f] obtain ks pend where k:
    "subseq ks (noted lan_step hub_notes (lan_start ''la'') a_life (\<lambda>_. []) 3)" "sent (tx s) 3 @ pend = rx_text ks" "tx_qty f = 0 \<longrightarrow> pend = []"
    by (elim exE conjE)
  have "tx_qty f = 0 \<longrightarrow> sent (tx s) 3 = rx_text ks" using k(2,3) by auto
  note gone = this
  show ?thesis by (intro exI [of _ s] exI [of _ f] exI [of _ ks] conjI) (fact s(1), fact f, fact k(1), fact gone)
qed

end
