(* ===== verification/Endp_Connect.thy ===== *)
theory Endp_Connect
  imports Endp_Lines Lan_Run
begin

text \<open>
  An endpoint and a LAN together: the dialog that connects an endpoint.
\<close>

section \<open>The dialog\<close>

text \<open>The lines that were sent to a channel between two states.\<close>

definition new_lines :: "int \<Rightarrow> (int \<times> int \<times> string) list \<Rightarrow> (int \<times> int \<times> string) list \<Rightarrow> string list" where
  "new_lines c old new = map (snd \<circ> snd) (filter (\<lambda>m. fst m = c) (drop (length old) new))"

text \<open>
  The lines between an endpoint and a LAN: \<open>l\<close> is the channel on the side of the LAN, \<open>c\<close> on that of
  the endpoint, \<open>nl\<close> the number of the packet socket the endpoint opens. \<open>None\<close> also if \<open>n\<close> lines are
  not enough.
\<close>

fun talk :: "nat \<Rightarrow> int \<Rightarrow> int \<Rightarrow> int \<Rightarrow> string list \<Rightarrow> string list \<Rightarrow> t_lan \<times> t_mu \<Rightarrow> (t_lan \<times> t_mu) run" where
  "talk n l c nl [] [] sm = Some sm"
| "talk 0 l c nl up down sm = None"
| "talk (Suc n) l c nl (line # up) down (s, m) = do {
     s' \<leftarrow> rpct_recv_diag_msg l 0 line 0 s;
     talk n l c nl up (down @ new_lines l (diag_out s) (diag_out s')) (s', m)
   }"
| "talk (Suc n) l c nl [] (line # down) (s, m) = do {
     m' \<leftarrow> mu_recv_diag_msg c 0 line nl True m;
     talk n l c nl (new_lines c (mu_out m) (mu_out m')) down (s, m')
   }"

lemma new_lines_one: "new_lines c old (old @ [(c', t, line)]) = (if c' = c then [line] else [])"
  by (simp add: new_lines_def)

section \<open>Lengths\<close>

lemma length_dec_int:
  assumes "small i"
  shows "length (dec_int i) \<le> 11"
proof -
  have "nat \<bar>i\<bar> < 10 ^ 10" using assms by (auto simp: small_def nat_less_iff)
  from length_dec_nat [OF _ this] show ?thesis by (auto simp: dec_int_def)
qed

lemma length_line_of:
  assumes "word 64 lan" "word 64 name" "small num" "small tidx"
  shows "length (line_of w lan name num tidx) \<le> length w + 170"
  using assms(1,2) length_dec_int [OF assms(3)] length_dec_int [OF assms(4)] by (simp add: line_of_def word_def)

lemma length_rank_line:
  assumes "word 64 lan" "word 64 name" "small num" "small tidx" "small rank"
  shows "length (rank_line w lan name num tidx rank) \<le> length w + 187"
  using length_line_of [OF assms(1-4), of w] length_dec_int [OF assms(5)] by (simp add: rank_line_def)

lemma c_trunc_id: "length s < n \<Longrightarrow> c_trunc n s = s"
  by (simp add: c_trunc_def)

section \<open>The side of the LAN\<close>

lemma fits:
  assumes "word 64 lan" "word 64 name"
  shows "words_fit [LAN_NAME_LEN, LAN_NAME_LEN] [SStr lan, SStr name, SDec num, SDec tidx]"
    "words_fit [LAN_NAME_LEN, LAN_NAME_LEN] [SStr lan, SStr name, SDec num, SDec tidx, SDec rank]"
  using assms by (simp_all add: word_def LAN_NAME_LEN_def)

lemma lan_handshake:
  assumes "word 64 lan" "word 64 name" "small num" "small tidx" "g_name s = lan" "\<not> destroying s"
  shows "rpct_recv_diag_msg l 0 (line_of ''muend_req_handshake'' lan name num tidx) 0 s =
    Some (send_diag l 0 (line_of ''muend_resp_handshake_ok'' lan name num tidx) s)"
proof -
  let ?L = "line_of ''muend_req_handshake'' lan name num tidx"
  have "?L \<noteq> ''cloonix_req_quit''" by (simp add: line_of_def)
  moreover have "c_trunc (LAN_PATH_LEN - 1) (line_of ''muend_resp_handshake_ok'' lan name num tidx) = line_of ''muend_resp_handshake_ok'' lan name num tidx"
    using length_line_of [OF assms(1-4), of "''muend_resp_handshake_ok''"] by (intro c_trunc_id) (simp add: LAN_PATH_LEN_def)
  ultimately have "diag_answer l ?L 0 s = Some (line_of ''muend_resp_handshake_ok'' lan name num tidx, s)"
    unfolding diag_answer_def scan_line_eq sscanf_of_self [OF assms(1-4)] using assms(5,6) fits(1) [OF assms(1,2)] by (simp add: kout_if_bind)
  moreover have "take 2 (line_of ''muend_resp_handshake_ok'' lan name num tidx) \<noteq> ''KO''" by (simp add: line_of_def)
  ultimately show ?thesis by (simp add: rpct_recv_diag_msg_def)
qed

lemma rank_small: "0 \<le> r \<Longrightarrow> r < int MAX_USOCK_RANKS \<Longrightarrow> small r"
  by (simp add: small_def MAX_USOCK_RANKS_def)

text \<open>The lines that ask for a rank and that acknowledge it reach their functions.\<close>

lemma lan_req_line:
  assumes "word 64 lan" "word 64 name" "small num" "small tidx" "g_name s = lan" "\<not> destroying s"
  shows "diag_answer l (line_of ''muend_req_rank'' lan name num tidx) 0 s = Some (req_rank l lan name num tidx s)"
proof -
  let ?L = "line_of ''muend_req_rank'' lan name num tidx"
  have L: "?L \<noteq> ''cloonix_req_quit''" by (simp add: line_of_def)
  have other: "sscanf (fmt_of ''muend_req_handshake'') ?L = []"
    using other_line(1) [of "''muend_req_rank''" "''muend_req_handshake''" lan name num tidx "[]"] by simp
  have other2: "sscanf fmt_listen ?L = []" unfolding fmt_listen_def
    using other_fixed(1) [of "''muend_req_rank''" "''cloonix_req_listen=''" _ lan name num tidx "[]"] by simp
  show ?thesis
    unfolding diag_answer_def rank_dialog_def scan_line_eq other other2 sscanf_of_self [OF assms(1-4)]
    using assms(5,6) fits(1) [OF assms(1,2)] L by (simp add: kout_if_bind)
qed

lemma lan_ack_line:
  assumes "word 64 lan" "word 64 name" "small num" "small tidx" "g_name s = lan" "\<not> destroying s" "0 < r" "r < int MAX_USOCK_RANKS"
  shows "diag_answer l (rank_line ''muend_ack_rank'' lan name num tidx r) 0 s = Some (rank_has_become_active l lan name num tidx r ''KO'' s)"
proof -
  let ?L = "rank_line ''muend_ack_rank'' lan name num tidx r"
  have small: "small r" using assms(7,8) by (intro rank_small) auto
  have L: "?L \<noteq> ''cloonix_req_quit''" by (simp add: rank_line_def line_of_def)
  have o1: "sscanf (fmt_of ''muend_req_handshake'') ?L = []" "sscanf (fmt_of ''muend_req_rank'') ?L = []"
    using other_rank_line(1) [of "''muend_ack_rank''" _ lan name num tidx r "[]"] by simp_all
  have o2: "sscanf fmt_listen ?L = []" unfolding fmt_listen_def
    using other_fixed(2) [of "''muend_ack_rank''" "''cloonix_req_listen=''" _ lan name num tidx r "[]"] by simp
  have v: "sscanf (fmt_rank ''muend_ack_rank'') ?L = [SStr lan, SStr name, SDec num, SDec tidx, SDec r]"
    using sscanf_rank [OF assms(1-4) small, of "[]" "''muend_ack_rank''" "[]"] by simp
  have m: "r mod 2 ^ 32 = r" using assms(7,8) by (simp add: MAX_USOCK_RANKS_def)
  show ?thesis
    unfolding diag_answer_def rank_dialog_def scan_line_eq o1 o2 v
    using assms(5,6) fits(2) [OF assms(1,2)] L m by (simp add: kout_if_bind)
qed

text \<open>The answer is cut when the path is longer than 281 characters.\<close>

definition alloc_answer :: "string \<Rightarrow> string \<Rightarrow> int \<Rightarrow> int \<Rightarrow> int \<Rightarrow> string \<Rightarrow> string" where
  "alloc_answer lan name num tidx rank path = rank_line ''muend_resp_rank_alloc_ok'' lan name num tidx rank @ '' traf='' @ path"

lemma req_rank_answer:
  assumes "word 64 lan" "word 64 name" "small num" "small tidx"
    "listen_path s = path" "path \<noteq> []" "length path \<le> 281" "rank_get_free s = r" "r \<noteq> 0"
  shows "req_rank l lan name num tidx s = (alloc_answer lan name num tidx r path, llid_rank_llid_create l name num tidx r s)"
proof -
  from rank_get_free_new(1,2) [of s] assms(8,9) have "small r" by (intro rank_small) auto
  from length_rank_line [OF assms(1-4) this, of "''muend_resp_rank_alloc_ok''"] assms(7)
  have "length (alloc_answer lan name num tidx r path) < MAX_RESP_LEN - 1" by (simp add: alloc_answer_def MAX_RESP_LEN_def)
  then have "c_trunc (MAX_RESP_LEN - 1) (alloc_answer lan name num tidx r path) = alloc_answer lan name num tidx r path" by (rule c_trunc_id)
  moreover have "listen_path (llid_rank_llid_create l name num tidx r s) = listen_path s"
    by (simp add: llid_rank_llid_create_def alloc_llid_rank_def)
  ultimately show ?thesis using assms(5,6,8,9) by (simp add: req_rank_def Let_def alloc_answer_def)
qed

lemma answers_not_ko: "take 2 (alloc_answer lan name num tidx r path) \<noteq> ''KO''" "take 2 (rank_line ''mulan_req_start'' lan name num tidx r) \<noteq> ''KO''"
  by (simp_all add: alloc_answer_def rank_line_def line_of_def)

text \<open>A rank is asked for.\<close>

definition new_endpoint :: "int \<Rightarrow> string \<Rightarrow> int \<Rightarrow> int \<Rightarrow> int \<Rightarrow> t_lan \<Rightarrow> t_llid_rank" where
  "new_endpoint l name num tidx rank s = \<lparr>dr_addr = next_dr s, dr_llid = l, dr_traf = 0, dr_name = name, dr_num = num, dr_tidx = tidx,
     prechoice_rank = rank, dr_rank = 0\<rparr>"

lemma take_name: "word 64 w \<Longrightarrow> take (LAN_NAME_LEN - 1) w = w"
  by (simp add: word_def LAN_NAME_LEN_def)

lemma lan_req_rank:
  assumes "word 64 lan" "word 64 name" "small num" "small tidx" "g_name s = lan" "\<not> destroying s"
    "listen_path s = path" "path \<noteq> []" "length path \<le> 281" "rank_get_free s = r" "r \<noteq> 0"
    "llid_rank_get_with_name name num tidx s = None" "llid_rank_get_with_llid l s = None"
  shows "rpct_recv_diag_msg l 0 (line_of ''muend_req_rank'' lan name num tidx) 0 s =
    Some (send_diag l 0 (alloc_answer lan name num tidx r path)
      (s\<lparr>next_dr := Suc (next_dr s), g_head := new_endpoint l name num tidx r s # g_head s\<rparr>))"
proof -
  from assms(10,11) have "llid_rank_get_with_prechoice_rank r s = None"
    using find_SomeD by (fastforce simp: rank_get_free_def split: option.splits)
  then have "req_rank l lan name num tidx s =
      (alloc_answer lan name num tidx r path, s\<lparr>next_dr := Suc (next_dr s), g_head := new_endpoint l name num tidx r s # g_head s\<rparr>)"
    using req_rank_answer [OF assms(1-4,7-11)] assms(12,13) take_name [OF assms(2)]
    by (simp add: llid_rank_llid_create_def alloc_llid_rank_def new_endpoint_def)
  with lan_req_line [OF assms(1-6)] answers_not_ko show ?thesis by (simp add: rpct_recv_diag_msg_def)
qed

text \<open>The rank is acknowledged.\<close>

lemma lan_ack_rank:
  assumes "word 64 lan" "word 64 name" "small num" "small tidx" "g_name s = lan" "\<not> destroying s" "0 < r" "r < int MAX_USOCK_RANKS"
    "llid_rank_get_with_rank r s = None" "llid_rank_get_with_llid l s = Some d" "dr_name d = name" "dr_num d = num" "prechoice_rank d = r"
  shows "rpct_recv_diag_msg l 0 (rank_line ''muend_ack_rank'' lan name num tidx r) 0 s =
    Some (send_diag l 0 (rank_line ''mulan_req_start'' lan name num tidx r)
      (adjust_max_rank ((upd_dr d (\<lambda>x. x\<lparr>dr_tidx := tidx, dr_rank := r\<rparr>) s)\<lparr>rank_present := (rank_present s)(nat r \<mapsto> dr_addr d)\<rparr>)))"
proof -
  have "rank_has_become_active l lan name num tidx r ''KO'' s = (rank_line ''mulan_req_start'' lan name num tidx r,
      adjust_max_rank ((upd_dr d (\<lambda>x. x\<lparr>dr_tidx := tidx, dr_rank := r\<rparr>) s)\<lparr>rank_present := (rank_present s)(nat r \<mapsto> dr_addr d)\<rparr>))"
    using assms(7-13) by (simp add: rank_has_become_active_def llid_rank_peer_rank_set_def upd_dr_def)
  with lan_ack_line [OF assms(1-8)] answers_not_ko show ?thesis by (simp add: rpct_recv_diag_msg_def)
qed

section \<open>The side of the endpoint\<close>

text \<open>A line of a LAN is none of the server.\<close>

lemma no_request:
  assumes "line = CHR ''m'' # rest"
  shows "mu_requests l tid line nl ok s = map_option (\<lambda>(r, tidx, s). ([], r, tidx, s)) (lan_diag line nl s)"
proof -
  have "sscanf fmt_connect line = []" "sscanf (fmt_of ''cloonix_req_disconnect'') line = []"
    unfolding fmt_connect_def fmt_of_def assms by (simp_all add: scan_char_def)
  then show ?thesis unfolding mu_requests_def scan_line_eq
    using assms by (simp add: starts_with_def of_connect_def)
qed

lemma mu_lan_line:
  assumes "line = CHR ''m'' # rest" "lan_diag line nl s = Some (r, tidx, s')" "r = [] \<or> (0 \<le> tidx \<and> tidx < MAX_TRAF_ENDPOINT \<and>
    llid_lan (g_traf_endp s' (nat tidx)) = c \<and> c \<noteq> 0)"
  shows "mu_recv_diag_msg c tid line nl ok s = Some (if r = [] then s' else mu_send c 0 r s')"
  using assms no_request [OF assms(1), of c tid nl ok s]
  by (auto simp: mu_recv_diag_msg_def endp_at_def kout_if_bind)

definition waiting_endp :: "t_traf_endp \<Rightarrow> int \<Rightarrow> string \<Rightarrow> int \<Rightarrow> int \<Rightarrow> t_traf_endp" where
  "waiting_endp t c lan k tid = t\<lparr>llid_lan := c, con_name := lan, con_llid := k, con_tid := tid\<rparr>"

text \<open>The server asks for a connection.\<close>

lemma mu_connect:
  assumes "word 300 sock" "word 64 lan" "word 64 name" "small num" "small tidx" "mu_name m = name" "0 \<le> tidx" "tidx < MAX_TRAF_ENDPOINT"
    "llid_lan (g_traf_endp m (nat tidx)) = 0" "c \<noteq> 0"
  shows "mu_recv_diag_msg k tid (connect_line sock lan name num tidx) c ok m =
    Some (mu_send c 0 (line_of ''muend_req_handshake'' lan name num tidx)
      (endp_upd tidx (\<lambda>t. waiting_endp t c lan k tid)
        (m\<lparr>mu_chans := (mu_chans m)(c \<mapsto> False),
           mu_timers := mu_timers m @ [\<lparr>td_tidx = tidx, td_num = num, td_lan = lan, td_id = timeout_mulan_id (g_traf_endp m (nat tidx))\<rparr>]\<rparr>)))"
proof -
  let ?L = "connect_line sock lan name num tidx"
  have L: "?L \<noteq> ''cloonix_req_quit''" by (simp add: connect_line_def)
  have fit: "words_fit [LAN_PATH_LEN, LAN_NAME_LEN, LAN_NAME_LEN] [SStr sock, SStr lan, SStr name, SDec num, SDec tidx]"
    using assms(1-3) by (simp add: word_def LAN_NAME_LEN_def LAN_PATH_LEN_def)
  have "c_trunc (LAN_PATH_LEN - 1) (line_of ''muend_req_handshake'' lan name num tidx) = line_of ''muend_req_handshake'' lan name num tidx"
    using length_line_of [OF assms(2-5), of "''muend_req_handshake''"] by (intro c_trunc_id) (simp add: LAN_PATH_LEN_def)
  with assms(6-10) take_name [OF assms(2)] L fit show ?thesis
    unfolding mu_recv_diag_msg_def mu_requests_def scan_line_eq sscanf_connect [OF assms(1-5)]
    by (simp add: of_connect_def connect_req_process_def endp_at_def mu_exist_channel_def kout_if_bind Let_def waiting_endp_def)
qed

text \<open>The LAN agrees.\<close>

lemma mu_handshake:
  assumes "word 64 lan" "word 64 name" "small num" "small tidx" "mu_name m = name" "0 \<le> tidx" "tidx < MAX_TRAF_ENDPOINT"
    "llid_lan (g_traf_endp m (nat tidx)) = c" "con_name (g_traf_endp m (nat tidx)) = lan" "0 < c" "c < MAX_CHANNELS" "mu_chans m c \<noteq> None"
  shows "mu_recv_diag_msg c tid (line_of ''muend_resp_handshake_ok'' lan name num tidx) nl ok m =
    Some (mu_send c 0 (line_of ''muend_req_rank'' lan name num tidx) m)"
proof -
  let ?L = "line_of ''muend_resp_handshake_ok'' lan name num tidx"
  have o: "sscanf (fmt_rank ''mulan_req_start'') ?L = []" "sscanf (fmt_rank ''mulan_req_end'') ?L = []"
    using other_line(2) [of "''muend_resp_handshake_ok''" _ lan name num tidx "[]"] by simp_all
  have "c_trunc (MAX_RESP_LEN - 1) (line_of ''muend_req_rank'' lan name num tidx) = line_of ''muend_req_rank'' lan name num tidx"
    using length_line_of [OF assms(1-4), of "''muend_req_rank''"] by (intro c_trunc_id) (simp add: MAX_RESP_LEN_def)
  then have d: "lan_diag ?L nl m = Some (line_of ''muend_req_rank'' lan name num tidx, tidx, m)"
    unfolding lan_diag_def scan_line_eq o sscanf_of_self [OF assms(1-4)] using assms(5-12) fits(1) [OF assms(1,2)]
    by (simp add: handshake_ok_def endp_at_def mu_exist_channel_def kout_if_bind)
  have n: "line_of ''muend_req_rank'' lan name num tidx \<noteq> []" by (simp add: line_of_def)
  have L: "?L = CHR ''m'' # tl ?L" by (simp add: line_of_def)
  have "mu_recv_diag_msg c tid ?L nl ok m =
      Some (if line_of ''muend_req_rank'' lan name num tidx = [] then m else mu_send c 0 (line_of ''muend_req_rank'' lan name num tidx) m)"
    by (rule mu_lan_line [OF L d]) (use assms(6-8,10) in simp)
  then show ?thesis unfolding if_not_P [OF n] .
qed

text \<open>The rank and the path arrive.\<close>

definition opened :: "int \<Rightarrow> string \<Rightarrow> int \<Rightarrow> int \<Rightarrow> int \<Rightarrow> t_mu \<Rightarrow> t_mu" where
  "opened nl lan num tidx r m = (let m = endp_upd tidx (\<lambda>t. t\<lparr>llid_traf := nl\<rparr>) m in
     m\<lparr>mu_chans := (mu_chans m)(nl \<mapsto> True),
       reports := (reports m)(nl \<mapsto> \<lparr>rank_name = lan, rank_num = num, rank_tidx = tidx, item_rank = r\<rparr>),
       mu_puts := mu_puts m @ [(nl, opening_line (mu_name m) num tidx)]\<rparr>)"

lemma length_opening:
  assumes "word 64 name" "small num" "small tidx"
  shows "length (opening_line name num tidx) < LAN_PATH_LEN - 1"
  using assms(1) length_dec_int [OF assms(2)] length_dec_int [OF assms(3)] by (simp add: opening_line_def word_def LAN_PATH_LEN_def)

lemma mu_alloc:
  assumes "word 64 lan" "word 64 name" "small num" "small tidx" "mu_name m = name" "mu_num m = num" "0 \<le> tidx" "tidx < MAX_TRAF_ENDPOINT"
    "llid_lan (g_traf_endp m (nat tidx)) = c" "c \<noteq> 0" "0 < nl" "0 < r" "r < int MAX_USOCK_RANKS" "word 300 path"
  shows "mu_recv_diag_msg c tid (alloc_answer lan name num tidx r path) nl ok m =
    Some (mu_send c 0 (rank_line ''muend_ack_rank'' lan name num tidx r) (opened nl lan num tidx r m))"
proof -
  let ?L = "alloc_answer lan name num tidx r path"
  have small: "small r" using assms(12,13) by (intro rank_small) auto
  have o: "sscanf (fmt_rank ''mulan_req_start'') ?L = []" "sscanf (fmt_rank ''mulan_req_end'') ?L = []"
    "sscanf (fmt_of ''muend_resp_handshake_ok'') ?L = []" "sscanf (fmt_of ''muend_resp_rank_alloc_ko'') ?L = []"
    unfolding alloc_answer_def by (simp_all add: other_rank_line)
  have v: "sscanf fmt_alloc_ok ?L = [SStr lan, SStr name, SDec num, SDec tidx, SDec r, SStr path]"
    unfolding alloc_answer_def by (rule sscanf_alloc_ok [OF assms(1-4) small assms(14)])
  have fit: "words_fit ([LAN_NAME_LEN, LAN_NAME_LEN] @ [LAN_PATH_LEN]) [SStr lan, SStr name, SDec num, SDec tidx, SDec r, SStr path]"
    using assms(1,2,14) by (simp add: word_def LAN_NAME_LEN_def LAN_PATH_LEN_def)
  have m: "r mod 2 ^ 32 = r" "i32 r = r" using assms(12,13) by (simp_all add: MAX_USOCK_RANKS_def i32_id)
  have c1: "c_trunc (MAX_RESP_LEN - 1) (rank_line ''muend_ack_rank'' lan name num tidx r) = rank_line ''muend_ack_rank'' lan name num tidx r"
    using length_rank_line [OF assms(1-4) small, of "''muend_ack_rank''"] by (intro c_trunc_id) (simp add: MAX_RESP_LEN_def)
  have c2: "c_trunc (LAN_PATH_LEN - 1) (opening_line name num tidx) = opening_line name num tidx"
    using length_opening [OF assms(2-4)] by (rule c_trunc_id)
  have "alloc_ok lan name num tidx r nl m = Some (rank_line ''muend_ack_rank'' lan name num tidx r, opened nl lan num tidx r m)"
    using assms(5-8,11) c1 c2 m take_name [OF assms(1)]
    by (simp add: alloc_ok_def sock_fd_open_def endp_at_def kout_if_bind Let_def mu_set_rank_def endp_upd_def opened_def)
  then have d: "lan_diag ?L nl m = Some (rank_line ''muend_ack_rank'' lan name num tidx r, tidx, opened nl lan num tidx r m)"
    unfolding lan_diag_def scan_line_eq o v using fit m by (simp add: of_alloc_ok_def kout_if_bind)
  have n: "rank_line ''muend_ack_rank'' lan name num tidx r \<noteq> []" by (simp add: rank_line_def line_of_def)
  have L: "?L = CHR ''m'' # tl ?L" by (simp add: alloc_answer_def rank_line_def line_of_def)
  have "llid_lan (g_traf_endp (opened nl lan num tidx r m) (nat tidx)) = c"
    using assms(9) by (simp add: opened_def Let_def endp_upd_def)
  then have "mu_recv_diag_msg c tid ?L nl ok m = Some (if rank_line ''muend_ack_rank'' lan name num tidx r = [] then opened nl lan num tidx r m
      else mu_send c 0 (rank_line ''muend_ack_rank'' lan name num tidx r) (opened nl lan num tidx r m))"
    using assms(7,8,10) by (intro mu_lan_line [OF L d]) simp
  then show ?thesis unfolding if_not_P [OF n] .
qed

text \<open>The LAN starts the endpoint: the server is answered.\<close>

lemma mu_start_line:
  assumes "word 64 lan" "word 64 name" "small num" "small tidx" "mu_name m = name" "0 \<le> tidx" "tidx < MAX_TRAF_ENDPOINT"
    "con_llid (g_traf_endp m (nat tidx)) = k" "con_tid (g_traf_endp m (nat tidx)) = tid" "0 < k" "k < MAX_CHANNELS" "mu_chans m k \<noteq> None"
    "mu_get_rank (llid_traf (g_traf_endp m (nat tidx))) m = Some r" "0 < r" "r < int MAX_USOCK_RANKS"
  shows "mu_recv_diag_msg c tid' (rank_line ''mulan_req_start'' lan name num tidx r) nl ok m =
    Some (endp_upd tidx answered (mu_send k tid (rank_line ''cloonix_resp_connect_ok'' lan name num tidx r) m))"
proof -
  let ?L = "rank_line ''mulan_req_start'' lan name num tidx r"
  have small: "small r" using assms(14,15) by (intro rank_small) auto
  have v: "sscanf (fmt_rank ''mulan_req_start'') ?L = [SStr lan, SStr name, SDec num, SDec tidx, SDec r]"
    using sscanf_rank [OF assms(1-4) small, of "[]" "''mulan_req_start''" "[]"] by simp
  have "c_trunc (LAN_PATH_LEN - 1) (rank_line ''cloonix_resp_connect_ok'' lan name num tidx r) = rank_line ''cloonix_resp_connect_ok'' lan name num tidx r"
    using length_rank_line [OF assms(1-4) small, of "''cloonix_resp_connect_ok''"] by (intro c_trunc_id) (simp add: LAN_PATH_LEN_def)
  then have d: "lan_diag ?L nl m =
      Some ([], tidx, endp_upd tidx answered (mu_send k tid (rank_line ''cloonix_resp_connect_ok'' lan name num tidx r) m))"
    unfolding lan_diag_def scan_line_eq v using assms(5-13) fits(2) [OF assms(1,2)]
    by (simp add: resp_send_mueth_con_ok_def endp_at_def mu_exist_channel_def kout_if_bind)
  have L: "?L = CHR ''m'' # tl ?L" by (simp add: rank_line_def line_of_def)
  show ?thesis using mu_lan_line [OF L d, of c tid' ok] by simp
qed

section \<open>The dialog of a connection\<close>

lemma sent_sel [simp]:
  "diag_out (send_diag l tid line s) = diag_out s @ [(l, tid, line)]" "g_name (send_diag l tid line s) = g_name s"
  "destroying (send_diag l tid line s) = destroying s" "listen_path (send_diag l tid line s) = listen_path s"
  "g_head (send_diag l tid line s) = g_head s" "next_dr (send_diag l tid line s) = next_dr s" "rank_present (send_diag l tid line s) = rank_present s"
  "lchans (send_diag l tid line s) = lchans s" "traf_chain (send_diag l tid line s) = traf_chain s"
  "rank_get_free (send_diag l tid line s) = rank_get_free s"
  "llid_rank_get_with_name name num tidx (send_diag l tid line s) = llid_rank_get_with_name name num tidx s"
  "llid_rank_get_with_llid i (send_diag l tid line s) = llid_rank_get_with_llid i s"
  by (simp_all add: send_diag_def rank_get_free_def llid_rank_get_with_name_def llid_rank_get_with_llid_def llid_rank_get_with_prechoice_rank_def)

lemma mu_send_sel [simp]:
  "mu_out (mu_send l tid line m) = mu_out m @ [(l, tid, line)]" "mu_name (mu_send l tid line m) = mu_name m" "mu_num (mu_send l tid line m) = mu_num m"
  "g_traf_endp (mu_send l tid line m) = g_traf_endp m" "mu_chans (mu_send l tid line m) = mu_chans m" "reports (mu_send l tid line m) = reports m"
  "mu_puts (mu_send l tid line m) = mu_puts m"
  by (simp_all add: mu_send_def)

lemma endp_upd_sel [simp]:
  "mu_out (endp_upd i f m) = mu_out m" "mu_name (endp_upd i f m) = mu_name m" "mu_num (endp_upd i f m) = mu_num m"
  "g_traf_endp (endp_upd i f m) = (g_traf_endp m)(nat i := f (g_traf_endp m (nat i)))" "mu_chans (endp_upd i f m) = mu_chans m"
  "reports (endp_upd i f m) = reports m" "mu_puts (endp_upd i f m) = mu_puts m"
  by (simp_all add: endp_upd_def)

lemma opened_sel [simp]:
  "mu_out (opened nl lan num tidx r m) = mu_out m" "mu_name (opened nl lan num tidx r m) = mu_name m" "mu_num (opened nl lan num tidx r m) = mu_num m"
  "g_traf_endp (opened nl lan num tidx r m) = (g_traf_endp m)(nat tidx := (g_traf_endp m (nat tidx))\<lparr>llid_traf := nl\<rparr>)"
  "mu_chans (opened nl lan num tidx r m) = (mu_chans m)(nl \<mapsto> True)"
  "reports (opened nl lan num tidx r m) = (reports m)(nl \<mapsto> \<lparr>rank_name = lan, rank_num = num, rank_tidx = tidx, item_rank = r\<rparr>)"
  "mu_puts (opened nl lan num tidx r m) = mu_puts m @ [(nl, opening_line (mu_name m) num tidx)]"
  by (simp_all add: opened_def Let_def)

lemma free_rank_unused:
  assumes "lan_tabs s" "rank_get_free s = r" "r \<noteq> 0"
  shows "0 < r" "r < int MAX_USOCK_RANKS" "llid_rank_get_with_rank r s = None"
proof -
  from rank_get_free_new(1,2) [of s] assms(2,3) show r: "0 < r" "r < int MAX_USOCK_RANKS" by simp_all
  obtain i where i: "r = int i" "rank_present s i = None"
    using assms(2,3) find_SomeD by (fastforce simp: rank_get_free_def split: option.splits)
  have R: "rank_present s i = Some a \<longleftrightarrow> i \<noteq> 0 \<and> (\<exists>d\<in>set (g_head s). dr_addr d = a \<and> dr_rank d = int i)" for a
    using assms(1) by (simp add: lan_tabs_def ranks_ok_def)
  have "dr_rank d \<noteq> r" if "d \<in> set (g_head s)" for d
    using R [of "dr_addr d"] that i r(1) by auto
  then show "llid_rank_get_with_rank r s = None" unfolding llid_rank_get_with_rank_def by (auto simp: find_None_iff)
qed

lemma talk_lan: "rpct_recv_diag_msg l 0 line 0 s = Some (send_diag l 0 back s') \<Longrightarrow> diag_out s' = diag_out s \<Longrightarrow>
    talk (Suc n) l c nl [line] [] (s, m) = talk n l c nl [] [back] (send_diag l 0 back s', m)"
  by (simp add: new_lines_one)

lemma talk_mu: "mu_recv_diag_msg c 0 line nl True m = Some (mu_send c 0 back m') \<Longrightarrow> mu_out m' = mu_out m \<Longrightarrow>
    talk (Suc n) l c nl [] [line] (s, m) = talk n l c nl [back] [] (s, mu_send c 0 back m')"
  by (simp add: new_lines_one)

lemma dialog:
  assumes w: "word 300 sock" "word 64 lan" "word 64 name" "small num" "small tidx"
    and m: "mu_name m = name" "mu_num m = num" "num \<noteq> -1" "0 \<le> tidx" "tidx < MAX_TRAF_ENDPOINT" "llid_lan (g_traf_endp m (nat tidx)) = 0"
      "0 < k" "k < MAX_CHANNELS" "mu_chans m k \<noteq> None" "0 < c" "c < MAX_CHANNELS" "mu_chans m c = None" "0 < nl"
    and s: "lan_tabs s" "g_name s = lan" "\<not> destroying s" "listen_path s = path" "word 282 path" "rank_get_free s = r" "r \<noteq> 0"
      "llid_rank_get_with_name name num tidx s = None" "llid_rank_get_with_llid l s = None"
  shows "\<exists>m1 s' m' d. mu_recv_diag_msg k tid (connect_line sock lan name num tidx) c True m = Some m1 \<and>
    talk 6 l c nl (new_lines c (mu_out m) (mu_out m1)) [] (s, m1) = Some (s', m') \<and>
    llid_rank_get_with_name name num tidx s' = Some d \<and> dr_llid d = l \<and> dr_rank d = r \<and> dr_traf d = 0 \<and> rank_present s' (nat r) = Some (dr_addr d) \<and>
    traf_chain s' = traf_chain s \<and>
    filter (\<lambda>x. fst x = k) (drop (length (mu_out m)) (mu_out m')) = [(k, tid, rank_line ''cloonix_resp_connect_ok'' lan name num tidx r)] \<and>
    llid_traf (g_traf_endp m' (nat tidx)) = nl \<and> mu_puts m' = mu_puts m @ [(nl, opening_line name num tidx)] \<and>
    timeout_mulan_id (g_traf_endp m' (nat tidx)) = timeout_mulan_id (g_traf_endp m (nat tidx)) + 1"
proof -
  let ?H = "line_of ''muend_req_handshake'' lan name num tidx"
  let ?A = "line_of ''muend_resp_handshake_ok'' lan name num tidx"
  let ?Q = "line_of ''muend_req_rank'' lan name num tidx"
  let ?P = "alloc_answer lan name num tidx r path"
  let ?K = "rank_line ''muend_ack_rank'' lan name num tidx r"
  let ?S = "rank_line ''mulan_req_start'' lan name num tidx r"
  let ?O = "rank_line ''cloonix_resp_connect_ok'' lan name num tidx r"
  note w4 = w(2-5)
  note r = free_rank_unused [OF s(1,6,7)]
  have ck: "k \<noteq> c" using m(9,12) by auto
  have path: "path \<noteq> []" "length path \<le> 281" "word 300 path" using s(5) by (auto simp: word_def)
  define m0 where "m0 = endp_upd tidx (\<lambda>t. waiting_endp t c lan k tid)
        (m\<lparr>mu_chans := (mu_chans m)(c \<mapsto> False),
           mu_timers := mu_timers m @ [\<lparr>td_tidx = tidx, td_num = num, td_lan = lan, td_id = timeout_mulan_id (g_traf_endp m (nat tidx))\<rparr>]\<rparr>)"
  define m1 where "m1 = mu_send c 0 ?H m0"
  have c1: "mu_recv_diag_msg k tid (connect_line sock lan name num tidx) c True m = Some m1"
    unfolding m1_def m0_def using m(10) by (intro mu_connect [OF w m(1,4,5,6)]) simp
  have m0: "mu_out m0 = mu_out m" "mu_name m0 = name" "mu_num m0 = num" "g_traf_endp m0 (nat tidx) = waiting_endp (g_traf_endp m (nat tidx)) c lan k tid"
    "mu_chans m0 = (mu_chans m)(c \<mapsto> False)" "mu_puts m0 = mu_puts m"
    using m(1,2) by (simp_all add: m0_def)
  have n1: "new_lines c (mu_out m) (mu_out m1) = [?H]" by (simp add: m1_def m0 new_lines_one)
  define s1 where "s1 = send_diag l 0 ?A s"
  have t1: "talk 6 l c nl [?H] [] (s, m1) = talk 5 l c nl [] [?A] (s1, m1)"
    using talk_lan [OF lan_handshake [OF w4 s(2,3), of l] refl, of 5 c nl m1] by (simp add: s1_def)
  define m2 where "m2 = mu_send c 0 ?Q m1"
  have t2: "talk 5 l c nl [] [?A] (s1, m1) = talk 4 l c nl [?Q] [] (s1, m2)"
  proof -
    have "mu_recv_diag_msg c 0 ?A nl True m1 = Some m2"
      unfolding m2_def using m(4,5,10,11) by (intro mu_handshake [OF w4]) (simp_all add: m1_def m0 waiting_endp_def)
    from talk_mu [OF this [unfolded m2_def] refl, of 4 l s1] show ?thesis by (simp add: m2_def)
  qed
  let ?d = "new_endpoint l name num tidx r s1"
  define s2 where "s2 = send_diag l 0 ?P (s1\<lparr>next_dr := Suc (next_dr s1), g_head := ?d # g_head s1\<rparr>)"
  have t3: "talk 4 l c nl [?Q] [] (s1, m2) = talk 3 l c nl [] [?P] (s2, m2)"
  proof -
    have "rpct_recv_diag_msg l 0 ?Q 0 s1 = Some s2"
      unfolding s2_def using s path by (intro lan_req_rank [OF w4]) (simp_all add: s1_def)
    from talk_lan [OF this [unfolded s2_def], of 3 c nl m2] show ?thesis by (simp add: s2_def)
  qed
  define m3 where "m3 = mu_send c 0 ?K (opened nl lan num tidx r m2)"
  have t4: "talk 3 l c nl [] [?P] (s2, m2) = talk 2 l c nl [?K] [] (s2, m3)"
  proof -
    have "mu_recv_diag_msg c 0 ?P nl True m2 = Some m3"
      unfolding m3_def using m(4,5,10,13) r path(3) by (intro mu_alloc [OF w4]) (simp_all add: m2_def m1_def m0 waiting_endp_def)
    from talk_mu [OF this [unfolded m3_def], of 2 l s2] show ?thesis by (simp add: m3_def)
  qed
  define s3 where "s3 = adjust_max_rank ((upd_dr ?d (\<lambda>x. x\<lparr>dr_tidx := tidx, dr_rank := r\<rparr>) s2)\<lparr>rank_present := (rank_present s2)(nat r \<mapsto> dr_addr ?d)\<rparr>)"
  have g2: "g_head s2 = ?d # g_head s" "rank_present s2 = rank_present s" "diag_out s3 = diag_out s2" "traf_chain s2 = traf_chain s"
    by (simp_all add: s2_def s1_def s3_def adjust_max_rank_def upd_dr_def)
  have t5: "talk 2 l c nl [?K] [] (s2, m3) = talk 1 l c nl [] [?S] (send_diag l 0 ?S s3, m3)"
  proof -
    have "llid_rank_get_with_rank r s2 = None"
      using r(1,3) by (simp add: llid_rank_get_with_rank_def g2 new_endpoint_def)
    moreover have "llid_rank_get_with_llid l s2 = Some ?d" by (simp add: llid_rank_get_with_llid_def g2 new_endpoint_def)
    ultimately have "rpct_recv_diag_msg l 0 ?K 0 s2 = Some (send_diag l 0 ?S s3)"
      unfolding s3_def using r s(2,3) by (intro lan_ack_rank [OF w4]) (simp_all add: s2_def s1_def new_endpoint_def)
    from talk_lan [OF this g2(3), of 1 c nl m3] show ?thesis by (simp only: Suc_1)
  qed
  define m4 where "m4 = endp_upd tidx answered (mu_send k tid ?O m3)"
  have t6: "talk 1 l c nl [] [?S] (send_diag l 0 ?S s3, m3) = Some (send_diag l 0 ?S s3, m4)"
  proof -
    have "mu_recv_diag_msg c 0 ?S nl True m3 = Some m4"
      unfolding m4_def using m(3-5,7-9) r(1,2) ck
      by (intro mu_start_line [OF w4]) (auto simp: m3_def m2_def m1_def m0 waiting_endp_def mu_get_rank_def)
    moreover have "new_lines c (mu_out m3) (mu_out m4) = []" using ck by (simp add: m4_def new_lines_one)
    ultimately show ?thesis by simp
  qed
  let ?e = "?d\<lparr>dr_tidx := tidx, dr_rank := r\<rparr>"
  have "g_head s3 = ?e # map (\<lambda>x. if dr_addr x = dr_addr ?d then x\<lparr>dr_tidx := tidx, dr_rank := r\<rparr> else x) (g_head s)"
    by (simp add: s3_def adjust_max_rank_def upd_dr_def g2)
  then have name: "llid_rank_get_with_name name num tidx (send_diag l 0 ?S s3) = Some ?e"
    by (simp add: llid_rank_get_with_name_def new_endpoint_def)
  have e: "dr_llid ?e = l" "dr_rank ?e = r" "dr_traf ?e = 0" "rank_present (send_diag l 0 ?S s3) (nat r) = Some (dr_addr ?e)"
    "traf_chain (send_diag l 0 ?S s3) = traf_chain s"
    using g2(4) by (simp_all add: s3_def adjust_max_rank_def upd_dr_def new_endpoint_def)
  have out: "filter (\<lambda>x. fst x = k) (drop (length (mu_out m)) (mu_out m4)) = [(k, tid, ?O)]"
    using ck by (simp add: m4_def m3_def m2_def m1_def m0)
  have endp: "llid_traf (g_traf_endp m4 (nat tidx)) = nl" "mu_puts m4 = mu_puts m @ [(nl, opening_line name num tidx)]"
    "timeout_mulan_id (g_traf_endp m4 (nat tidx)) = timeout_mulan_id (g_traf_endp m (nat tidx)) + 1"
    by (simp_all add: m4_def m3_def m2_def m1_def m0 answered_def waiting_endp_def)
  show ?thesis
    by (intro exI [of _ m1] exI [of _ "send_diag l 0 ?S s3"] exI [of _ m4] exI [of _ ?e] conjI)
      (fact c1, (simp only: n1 t1 t2 t3 t4 t5 t6), fact name, (fact e)+, fact out, (fact endp)+)
qed

section \<open>Properties\<close>

text \<open>C37: An endpoint is connected. A LAN has run on any legal events, listens at a path of at most 281
  characters, has a free rank and knows neither the name with its numbers nor the channel; an endpoint of
  a process that runs for the same name and number is free. The server asks the process to connect it.
  Then the two exchange six lines, none of which ends a process, whatever the names (words of less than
  64 characters) and numbers. At the end the LAN has the endpoint with the lowest free rank, present in
  the table of the ranks; the server has had exactly one answer, the confirmation with this rank; the
  timeout of the request is void; the process has put the text of its opening on its new packet socket,
  and the LAN, when a socket brings it as its first packet, opens the socket for this endpoint.\<close>

theorem connection_is_made:
  assumes "legal_run lan_step lan_legal (lan_start lan) evs" "run_events lan_step (lan_start lan) evs = Some s"
    and "g_name s = lan" "\<not> destroying s" "listen_path s = path" "word 282 path" "rank_get_free s = r" "r \<noteq> 0"
      "llid_rank_get_with_name name num tidx s = None" "llid_rank_get_with_llid l s = None"
    and "word 300 sock" "word 64 lan" "word 64 name" "small num" "small tidx"
    and "mu_name m = name" "mu_num m = num" "num \<noteq> -1" "0 \<le> tidx" "tidx < MAX_TRAF_ENDPOINT" "llid_lan (g_traf_endp m (nat tidx)) = 0"
      "0 < k" "k < MAX_CHANNELS" "mu_chans m k \<noteq> None" "0 < c" "c < MAX_CHANNELS" "mu_chans m c = None" "0 < nl"
  shows "\<exists>m1 s' m' d. mu_recv_diag_msg k tid (connect_line sock lan name num tidx) c True m = Some m1 \<and>
    talk 6 l c nl (new_lines c (mu_out m) (mu_out m1)) [] (s, m1) = Some (s', m') \<and>
    llid_rank_get_with_name name num tidx s' = Some d \<and> dr_llid d = l \<and> dr_rank d = r \<and> rank_present s' (nat r) = Some (dr_addr d) \<and>
    filter (\<lambda>x. fst x = k) (drop (length (mu_out m)) (mu_out m')) = [(k, tid, rank_line ''cloonix_resp_connect_ok'' lan name num tidx r)] \<and>
    fct_timeout_mulan \<lparr>td_tidx = tidx, td_num = num, td_lan = lan, td_id = timeout_mulan_id (g_traf_endp m (nat tidx))\<rparr> m' = Some m' \<and>
    llid_traf (g_traf_endp m' (nat tidx)) = nl \<and> mu_puts m' = mu_puts m @ [(nl, opening_line name num tidx)] \<and>
    (\<forall>u p. 0 < u \<and> u \<notin> set (traf_chain s) \<and> 0 \<in> set (pk_data p) \<and> pkt_text p = opening_line name num tidx \<longrightarrow>
      (\<exists>t. opening_answer u p s' = Some t \<and> lchans t u = Some Traffic \<and> u \<in> set (traf_chain t)))"
proof -
  have tabs: "lan_tabs s" using lan.reached [OF assms(1,2)] lan_invD(1) by (auto simp: hub_inv_def)
  from dialog [OF assms(11-28) tabs assms(3-10), of tid] obtain m1 s' m' d where
    d1: "mu_recv_diag_msg k tid (connect_line sock lan name num tidx) c True m = Some m1"
    and d2: "talk 6 l c nl (new_lines c (mu_out m) (mu_out m1)) [] (s, m1) = Some (s', m')"
    and d3: "llid_rank_get_with_name name num tidx s' = Some d" and d4: "dr_llid d = l" and d5: "dr_rank d = r" and d6: "dr_traf d = 0"
    and d7: "rank_present s' (nat r) = Some (dr_addr d)" and d8: "traf_chain s' = traf_chain s"
    and d9: "filter (\<lambda>x. fst x = k) (drop (length (mu_out m)) (mu_out m')) = [(k, tid, rank_line ''cloonix_resp_connect_ok'' lan name num tidx r)]"
    and d10: "llid_traf (g_traf_endp m' (nat tidx)) = nl" and d11: "mu_puts m' = mu_puts m @ [(nl, opening_line name num tidx)]"
    and d12: "timeout_mulan_id (g_traf_endp m' (nat tidx)) = timeout_mulan_id (g_traf_endp m (nat tidx)) + 1"
    by (elim exE conjE)
  have void: "fct_timeout_mulan \<lparr>td_tidx = tidx, td_num = num, td_lan = lan, td_id = timeout_mulan_id (g_traf_endp m (nat tidx))\<rparr> m' = Some m'"
    using assms(19,20) d12 by (simp add: fct_timeout_mulan_def endp_at_def kout_if_bind)
  have opens: "\<exists>t. opening_answer u p s' = Some t \<and> lchans t u = Some Traffic \<and> u \<in> set (traf_chain t)"
    if "0 < u \<and> u \<notin> set (traf_chain s) \<and> 0 \<in> set (pk_data p) \<and> pkt_text p = opening_line name num tidx" for u p
  proof -
    have v: "sscanf fmt_opening (pkt_text p) = [SStr name, SDec num, SDec tidx]" using that sscanf_opening [OF assms(13-15)] by simp
    then have "\<not> opening_fatal p" using that assms(13) by (simp add: opening_fatal_def word_def LAN_PATH_LEN_def)
    moreover have "\<exists>t. llid_rank_traf_connect u name num tidx s' = Some (True, t) \<and> u \<in> set (traf_chain t)"
    proof -
      have i: "traf_chain_insert u (lan_set_rank u (dr_rank d) s') = Some ((lan_set_rank u (dr_rank d) s')\<lparr>traf_chain := u # traf_chain s,
          sock_traf_nb := sock_traf_nb s' + 1\<rparr>)"
        using that d8 by (simp add: traf_chain_insert_def lan_set_rank_def kout_if_bind)
      show ?thesis unfolding llid_rank_traf_connect_def d3 using d6 i by (simp add: upd_dr_def)
    qed
    then obtain t where t: "llid_rank_traf_connect u name num tidx s' = Some (True, t)" "u \<in> set (traf_chain t)" by (elim exE conjE)
    ultimately have "opening_answer u p s' = Some (t\<lparr>lchans := (lchans t)(u \<mapsto> Traffic)\<rparr>)"
      using v by (simp add: opening_answer_eq)
    with t(2) show ?thesis by (intro exI [of _ "t\<lparr>lchans := (lchans t)(u \<mapsto> Traffic)\<rparr>"]) simp
  qed
  show ?thesis
    by (rule exI [of _ m1], rule exI [of _ s'], rule exI [of _ m'], rule exI [of _ d], intro conjI)
      (fact d1, fact d2, fact d3, fact d4, fact d5, fact d7, fact d9, fact void, fact d10, fact d11, intro allI impI, erule opens)
qed

definition an_endpoint :: t_mu where
  "an_endpoint = cloonix_connect 1 (mu_start ''b'' 0)"

theorem connection_is_made_witness:
  "\<exists>s m1 s' m' d. run_events lan_step (lan_start ''la'') a_life = Some s \<and>
    mu_recv_diag_msg 1 5 (connect_line ''/s'' ''la'' ''b'' 0 0) 2 True an_endpoint = Some m1 \<and>
    talk 6 4 2 3 (new_lines 2 (mu_out an_endpoint) (mu_out m1)) [] (s, m1) = Some (s', m') \<and>
    llid_rank_get_with_name ''b'' 0 0 s' = Some d \<and> dr_rank d = 2"
proof -
  from life_runs obtain s a where s: "run_events lan_step (lan_start ''la'') a_life = Some s" "legal_run lan_step lan_legal (lan_start ''la'') a_life"
    "g_name s = ''la''" "\<not> destroying s" "listen_path s = ''/t''" "map dr_name (g_head s) = [''a'']" "map dr_llid (g_head s) = [1]"
    "map prechoice_rank (g_head s) = [1]" "rank_present s = [1 \<mapsto> a]"
    by (elim exE conjE)
  then obtain d where d: "g_head s = [d]" "dr_name d = ''a''" "dr_llid d = 1" "prechoice_rank d = 1" by (auto simp: map_eq_Cons_conv)
  have "[1..<MAX_USOCK_RANKS] = 1 # 2 # [3..<MAX_USOCK_RANKS]" by (simp add: MAX_USOCK_RANKS_def upt_rec numeral_2_eq_2 numeral_3_eq_3)
  then have r: "rank_get_free s = 2" using s(9) d by (simp add: rank_get_free_def llid_rank_get_with_prechoice_rank_def)
  have words: "word 282 ''/t''" "word 300 ''/s''" "word 64 ''la''" "word 64 ''b''" "small 0" by (simp_all add: word_def is_space_def small_def)
  have m: "mu_name an_endpoint = ''b''" "mu_num an_endpoint = 0" "llid_lan (g_traf_endp an_endpoint (nat 0)) = 0" "mu_chans an_endpoint = [1 \<mapsto> False]"
    by (simp_all add: an_endpoint_def cloonix_connect_def mu_start_def LAN_NAME_LEN_def)
  have none: "llid_rank_get_with_name ''b'' 0 0 s = None" "llid_rank_get_with_llid 4 s = None"
    using d by (simp_all add: llid_rank_get_with_name_def llid_rank_get_with_llid_def)
  have "(2 :: int) \<noteq> 0" "(0 :: int) \<noteq> - 1" "(0 :: int) \<le> 0" "0 < MAX_TRAF_ENDPOINT" "(0 :: int) < 1" "1 < MAX_CHANNELS"
    "mu_chans an_endpoint 1 \<noteq> None" "(0 :: int) < 2" "2 < MAX_CHANNELS" "mu_chans an_endpoint 2 = None" "(0 :: int) < 3"
    using m(4) by (simp_all add: MAX_TRAF_ENDPOINT_def MAX_CHANNELS_def)
  from connection_is_made [OF s(2,1,3,4,5) words(1) r this(1) none words(2-5,5) m(1,2) this(2-4) m(3) this(5-11), of 5] s(1)
  show ?thesis by (elim exE conjE) (rule exI, rule exI, rule exI, rule exI, rule exI, intro conjI, assumption+)
qed

end
