(* ===== verification/Endp_Faults.thy ===== *)
theory Endp_Faults
  imports Endp_Connect
begin

text \<open>
  What goes wrong between an endpoint and a LAN: a rank that cannot be taken, and a timeout that
  refuses another request than its own.
\<close>

text \<open>C39: A channel that has an endpoint asks for a rank again. The LAN announces the lowest free rank as if it
  were given, changes nothing but the message, and does not answer the acknowledgement of this rank:
  the rank is never taken, and the process that asked waits for its timeout.\<close>

theorem second_request_gets_a_dead_rank:
  assumes "word 64 lan" "word 64 name" "small num" "small tidx" "g_name s = lan" "\<not> destroying s"
    "listen_path s = path" "word 282 path" "rank_get_free s = r" "r \<noteq> 0" "llid_rank_get_with_llid l s = Some d"
  shows "rpct_recv_diag_msg l 0 (line_of ''muend_req_rank'' lan name num tidx) 0 s =
      Some (send_diag l 0 (alloc_answer lan name num tidx r path) s) \<and>
    rpct_recv_diag_msg l 0 (rank_line ''muend_ack_rank'' lan name num tidx r) 0 (send_diag l 0 (alloc_answer lan name num tidx r path) s) =
      Some (send_diag l 0 (alloc_answer lan name num tidx r path) s)"
proof -
  let ?s = "send_diag l 0 (alloc_answer lan name num tidx r path) s"
  have path: "path \<noteq> []" "length path \<le> 281" using assms(8) by (auto simp: word_def)
  note r = rank_get_free_new [of s, unfolded assms(9), OF assms(10)]
  have d: "d \<in> set (g_head s)" using assms(11) find_SomeD by (fastforce simp: llid_rank_get_with_llid_def)
  have "req_rank l lan name num tidx s = (alloc_answer lan name num tidx r path, s)"
    using req_rank_answer [OF assms(1-4,7) path assms(9,10)] assms(11) by (simp add: llid_rank_llid_create_def)
  with lan_req_line [OF assms(1-6)] answers_not_ko(1)
  have "rpct_recv_diag_msg l 0 (line_of ''muend_req_rank'' lan name num tidx) 0 s = Some ?s" by (simp add: rpct_recv_diag_msg_def)
  moreover have "rank_has_become_active l lan name num tidx r ''KO'' ?s = (''KO'', ?s)"
    using r(3) [OF d] assms(11) by (simp add: rank_has_become_active_def llid_rank_peer_rank_set_def)
  then have "rpct_recv_diag_msg l 0 (rank_line ''muend_ack_rank'' lan name num tidx r) 0 ?s = Some ?s"
    using lan_ack_line [OF assms(1-4), of ?s r l] assms(5,6) r(1,2) by (simp add: rpct_recv_diag_msg_def)
  ultimately show ?thesis by (rule conjI)
qed

theorem second_request_gets_a_dead_rank_witness:
  "\<exists>s. run_events lan_step (lan_start ''la'') a_life = Some s \<and>
    rpct_recv_diag_msg 1 0 (line_of ''muend_req_rank'' ''la'' ''a'' 0 0) 0 s = Some (send_diag 1 0 (alloc_answer ''la'' ''a'' 0 0 2 ''/t'') s)"
proof -
  from life_runs obtain s a where s: "run_events lan_step (lan_start ''la'') a_life = Some s"
    "g_name s = ''la''" "\<not> destroying s" "listen_path s = ''/t''" "map dr_llid (g_head s) = [1]"
    "map prechoice_rank (g_head s) = [1]" "rank_present s = [1 \<mapsto> a]"
    by (elim exE conjE)
  then obtain d where d: "g_head s = [d]" "dr_llid d = 1" "prechoice_rank d = 1" by (auto simp: map_eq_Cons_conv)
  have "[1..<MAX_USOCK_RANKS] = 1 # 2 # [3..<MAX_USOCK_RANKS]" by (simp add: MAX_USOCK_RANKS_def upt_rec numeral_2_eq_2 numeral_3_eq_3)
  then have r: "rank_get_free s = 2" using s(7) d by (simp add: rank_get_free_def llid_rank_get_with_prechoice_rank_def)
  have words: "word 282 ''/t''" "word 64 ''la''" "word 64 ''a''" "small 0" by (simp_all add: word_def is_space_def small_def)
  have l: "llid_rank_get_with_llid 1 s = Some d" using d by (simp add: llid_rank_get_with_llid_def)
  from second_request_gets_a_dead_rank [OF words(2,3,4,4) s(2-4) words(1) r _ l] s(1) show ?thesis by (intro exI [of _ s]) simp
qed



end
