(* ===== verification/Lan_Names.thy ===== *)
theory Lan_Names
  imports Lookup
begin

unbundle bit_operations_syntax

text \<open>
  The numbers of the LANs (\<open>uml_cloonix_switch/src/lan_to_name.c\<close>): a hash table with linear probing
  that gives each LAN in use a number and counts its users.
\<close>

section \<open>The table\<close>

definition MAX_LAN :: nat where "MAX_LAN = 0x3FFF + 2"

definition MAX_LAN_NAME :: nat where "MAX_LAN_NAME = 64"

record t_bij_elem =
  bij_name :: string
  bij_idx :: nat
  nb_users :: int

record t_lan_tab =
  tab_elems :: "nat \<Rightarrow> t_bij_elem option"
  glob_total_elems :: int
  layout_calls :: "(bool \<times> string) list"

text \<open>
  The hash is the exclusive or of the 16-bit words of the name. \<open>layout_calls\<close> are the calls of
  \<open>layout_add_lan\<close> and \<open>layout_del_lan\<close>.
\<close>

fun xor_shorts :: "u8 list \<Rightarrow> u16" where
  "xor_shorts (a # b # bs) = (ucast a OR push_bit 8 (ucast b)) XOR xor_shorts bs"
| "xor_shorts [a] = ucast a"
| "xor_shorts [] = 0"

definition get_hash_of_id :: "string \<Rightarrow> nat run" where
  "get_hash_of_id name = do {
     kout_if (name = []);
     let bs = (map of_char name :: u8 list);
     Some (if length bs = 1 then unat ((scast (hd bs) :: u16) AND 0x3FFF) + (1 :: nat)
           else unat (xor_shorts bs AND 0x3FFF) + 1)
   }"

definition wrap_idx :: "nat \<Rightarrow> nat" where
  "wrap_idx i = (if MAX_LAN \<le> i then (if i - MAX_LAN = 0 then 1 else i - MAX_LAN) else i)"

fun find_from :: "nat \<Rightarrow> nat \<Rightarrow> string \<Rightarrow> t_lan_tab \<Rightarrow> nat run" where
  "find_from 0 i name t = Some 0"
| "find_from (Suc n) i name t = do {
     let index = wrap_idx i;
     kout_if (index \<le> 0 \<or> MAX_LAN \<le> index);
     case tab_elems t index of
       Some e \<Rightarrow> if bij_name e = name then Some index else find_from n (i + 1) name t
     | None \<Rightarrow> find_from n (i + 1) name t
   }"

definition find_elem_with_name :: "string \<Rightarrow> t_lan_tab \<Rightarrow> nat run" where
  "find_elem_with_name name t = do {
     idx \<leftarrow> get_hash_of_id name;
     find_from MAX_LAN idx name t
   }"

definition bad_lan_name :: "string \<Rightarrow> bool" where
  "bad_lan_name name \<longleftrightarrow> name = [] \<or> MAX_LAN_NAME \<le> length name"

text \<open>\<open>n\<close> is \<open>MAX_LAN\<close> less the \<open>count\<close> of the loop.\<close>

fun free_from :: "nat \<Rightarrow> nat \<Rightarrow> t_lan_tab \<Rightarrow> nat run" where
  "free_from n idx t =
     (case tab_elems t idx of
        None \<Rightarrow> Some idx
      | Some _ \<Rightarrow> if n \<le> 1 then None else free_from (n - 1) (if idx + 1 = MAX_LAN then 1 else idx + 1) t)"

declare free_from.simps [simp del]

definition find_free_idx_for_name :: "string \<Rightarrow> t_lan_tab \<Rightarrow> nat run" where
  "find_free_idx_for_name name t = do {
     kout_if (bad_lan_name name);
     idx \<leftarrow> get_hash_of_id name;
     free_from MAX_LAN idx t
   }"

section \<open>The operations\<close>

definition lan_add_name :: "string \<Rightarrow> t_lan_tab \<Rightarrow> (nat \<times> t_lan_tab) run" where
  "lan_add_name name t = do {
     kout_if (bad_lan_name name);
     idx \<leftarrow> find_elem_with_name name t;
     (idx, t) \<leftarrow> (if idx = 0 then do {
         idx \<leftarrow> find_free_idx_for_name name t;
         let t = t\<lparr>tab_elems := (tab_elems t)(idx \<mapsto> \<lparr>bij_name = name, bij_idx = idx, nb_users = 0\<rparr>),
                   glob_total_elems := glob_total_elems t + 1\<rparr>;
         kout_if (int MAX_LAN \<le> glob_total_elems t);
         Some (idx, t\<lparr>layout_calls := layout_calls t @ [(True, name)]\<rparr>)
       } else Some (idx, t));
     Some (idx, t\<lparr>tab_elems := (tab_elems t)(idx := map_option (\<lambda>e. e\<lparr>nb_users := nb_users e + 1\<rparr>) (tab_elems t idx))\<rparr>)
   }"

definition lan_del_name :: "string \<Rightarrow> t_lan_tab \<Rightarrow> (nat \<times> t_lan_tab) run" where
  "lan_del_name name t = do {
     kout_if (bad_lan_name name);
     idx \<leftarrow> find_elem_with_name name t;
     if idx = 0 then Some (idx, t)
     else do {
       e \<leftarrow> tab_elems t idx;
       kout_if (nb_users e \<le> 0);
       let n = nb_users e - 1;
       if n = 0 then do {
         let t = t\<lparr>tab_elems := (tab_elems t)(idx := None), glob_total_elems := glob_total_elems t - 1\<rparr>;
         kout_if (glob_total_elems t < 0);
         Some (idx, t\<lparr>layout_calls := layout_calls t @ [(False, name)]\<rparr>)
       } else Some (idx, t\<lparr>tab_elems := (tab_elems t)(idx \<mapsto> e\<lparr>nb_users := n\<rparr>)\<rparr>)
     }
   }"

definition lan_get_with_name :: "string \<Rightarrow> t_lan_tab \<Rightarrow> nat run" where
  "lan_get_with_name name t = do {
     kout_if (bad_lan_name name);
     find_elem_with_name name t
   }"

definition lan_get_with_num :: "nat \<Rightarrow> t_lan_tab \<Rightarrow> string option" where
  "lan_get_with_num num t = map_option bij_name (tab_elems t num)"

definition lan_init :: t_lan_tab where
  "lan_init = \<lparr>tab_elems = (\<lambda>_. None), glob_total_elems = 0, layout_calls = []\<rparr>"

section \<open>The search\<close>

lemma hash_range: "get_hash_of_id name = Some i \<Longrightarrow> 0 < i \<and> i < MAX_LAN"
proof -
  have w: "unat (w AND 0x3FFF) \<le> 0x3FFF" for w :: u16
  proof -
    have "w AND 0x3FFF \<le> 0x3FFF" by (rule word_and_le1)
    then show ?thesis by (simp add: word_le_nat_alt)
  qed
  assume "get_hash_of_id name = Some i"
  then show ?thesis using w [of "xor_shorts (map of_char name)"] w [of "scast (hd (map of_char name :: u8 list))"]
    by (auto simp: get_hash_of_id_def kout_if_bind MAX_LAN_def Let_def split: if_splits)
qed

lemma hash_total: "name \<noteq> [] \<Longrightarrow> \<exists>i. get_hash_of_id name = Some i"
  by (simp add: get_hash_of_id_def kout_if_bind Let_def)

text \<open>The places that the search looks at are all places of the table.\<close>

lemma wrap_range: "0 < i \<Longrightarrow> i < 2 * MAX_LAN \<Longrightarrow> 0 < wrap_idx i \<and> wrap_idx i < MAX_LAN"
  by (auto simp: wrap_idx_def MAX_LAN_def)

lemma wrap_covers:
  assumes "0 < i" "i < MAX_LAN" "0 < j" "j < MAX_LAN"
  shows "\<exists>k. i \<le> k \<and> k < i + MAX_LAN \<and> wrap_idx k = j"
proof (cases "i \<le> j")
  case True
  with assms show ?thesis by (intro exI [of _ j]) (auto simp: wrap_idx_def)
next
  case False
  with assms show ?thesis by (intro exI [of _ "j + MAX_LAN"]) (auto simp: wrap_idx_def)
qed

definition holds :: "t_lan_tab \<Rightarrow> nat \<Rightarrow> string \<Rightarrow> bool" where
  "holds t i name \<longleftrightarrow> (\<exists>e. tab_elems t i = Some e \<and> bij_name e = name)"

lemma find_from_spec:
  assumes "0 < i" "i + n \<le> 2 * MAX_LAN"
  shows "\<exists>r. find_from n i name t = Some r \<and> (r = 0 \<and> (\<forall>k. i \<le> k \<and> k < i + n \<longrightarrow> \<not> holds t (wrap_idx k) name) \<or>
    0 < r \<and> r < MAX_LAN \<and> holds t r name)"
  using assms
proof (induction n arbitrary: i)
  case (Suc n)
  from Suc.prems have w: "0 < wrap_idx i" "wrap_idx i < MAX_LAN" using wrap_range [of i] by simp_all
  show ?case
  proof (cases "holds t (wrap_idx i) name")
    case True
    with w show ?thesis by (auto simp: holds_def kout_if_bind)
  next
    case False
    then have "find_from (Suc n) i name t = find_from n (i + 1) name t"
      using w by (auto simp: holds_def kout_if_bind Let_def split: option.splits)
    moreover have "\<exists>r. find_from n (i + 1) name t = Some r \<and> (r = 0 \<and> (\<forall>k. i + 1 \<le> k \<and> k < i + 1 + n \<longrightarrow> \<not> holds t (wrap_idx k) name) \<or>
        0 < r \<and> r < MAX_LAN \<and> holds t r name)"
      by (rule Suc.IH) (use Suc.prems in simp_all)
    moreover have "k = i \<or> i + 1 \<le> k" if "i \<le> k" for k using that by linarith
    ultimately show ?thesis using False by (metis add_Suc_shift add_Suc_right Suc_eq_plus1)
  qed
qed auto

lemma find_elem_spec:
  assumes "name \<noteq> []"
  shows "\<exists>r. find_elem_with_name name t = Some r \<and> (r = 0 \<and> (\<forall>j. 0 < j \<and> j < MAX_LAN \<longrightarrow> \<not> holds t j name) \<or>
    0 < r \<and> r < MAX_LAN \<and> holds t r name)"
proof -
  from hash_total [OF assms] obtain i where i: "get_hash_of_id name = Some i" by blast
  note r = hash_range [OF i]
  from find_from_spec [of i MAX_LAN name t] r obtain x where x: "find_from MAX_LAN i name t = Some x"
    "x = 0 \<and> (\<forall>k. i \<le> k \<and> k < i + MAX_LAN \<longrightarrow> \<not> holds t (wrap_idx k) name) \<or> 0 < x \<and> x < MAX_LAN \<and> holds t x name"
    by (auto simp: mult_2)
  then show ?thesis using i r wrap_covers [of i] by (auto simp: find_elem_with_name_def)
qed

lemma free_from_spec:
  assumes "0 < idx" "idx < MAX_LAN" "free_from n idx t = Some r"
  shows "0 < r \<and> r < MAX_LAN \<and> tab_elems t r = None"
  using assms
proof (induction n arbitrary: idx rule: less_induct)
  case (less n)
  show ?case
  proof (cases "tab_elems t idx")
    case None
    with less.prems show ?thesis by (simp add: free_from.simps)
  next
    case (Some e)
    with less.prems have n: "1 < n" and f: "free_from (n - 1) (if idx + 1 = MAX_LAN then 1 else idx + 1) t = Some r"
      by (subst (asm) free_from.simps, simp split: if_splits)+
    show ?thesis by (rule less.IH [OF _ _ _ f]) (use n less.prems in \<open>auto simp: MAX_LAN_def\<close>)
  qed
qed

text \<open>The loop meets a free place when there is one.\<close>

lemma free_from_total:
  assumes "0 < idx" "idx < MAX_LAN" "0 < j" "j < MAX_LAN" "tab_elems t j = None" "(if idx \<le> j then j - idx else MAX_LAN - 1 - idx + j) < n"
  shows "\<exists>r. free_from n idx t = Some r"
  using assms
proof (induction n arbitrary: idx rule: less_induct)
  case (less n)
  let ?next = "if idx + 1 = MAX_LAN then 1 else idx + 1"
  show ?case
  proof (cases "tab_elems t idx")
    case None
    then show ?thesis by (simp add: free_from.simps)
  next
    case (Some e)
    then have "idx \<noteq> j" using less.prems by auto
    then have n: "1 < n" and d: "(if ?next \<le> j then j - ?next else MAX_LAN - 1 - ?next + j) < n - 1"
      using less.prems by (auto split: if_splits)
    have "\<exists>r. free_from (n - 1) ?next t = Some r"
      by (rule less.IH) (use n d less.prems in \<open>auto simp: MAX_LAN_def\<close>)
    with Some n show ?thesis by (subst free_from.simps) simp
  qed
qed

section \<open>The table is a map of counts\<close>

definition tab_names :: "t_lan_tab \<Rightarrow> string set" where
  "tab_names t = {n. \<exists>i. holds t i n}"

definition lan_tab_ok :: "t_lan_tab \<Rightarrow> bool" where
  "lan_tab_ok t \<longleftrightarrow>
     (\<forall>i e. tab_elems t i = Some e \<longrightarrow> 0 < i \<and> i < MAX_LAN \<and> bij_idx e = i \<and> \<not> bad_lan_name (bij_name e) \<and> 0 < nb_users e) \<and>
     (\<forall>i j n. holds t i n \<longrightarrow> holds t j n \<longrightarrow> i = j) \<and>
     glob_total_elems t = int (card (tab_names t))"

definition lan_number :: "t_lan_tab \<Rightarrow> string \<Rightarrow> nat" where
  "lan_number t n = (if n = [] then 0 else the (find_elem_with_name n t))"

definition lan_users :: "t_lan_tab \<Rightarrow> string \<Rightarrow> int" where
  "lan_users t n = (case tab_elems t (lan_number t n) of Some e \<Rightarrow> nb_users e | None \<Rightarrow> 0)"

lemma tab_elemD:
  assumes "lan_tab_ok t" "tab_elems t i = Some e"
  shows "0 < i" "i < MAX_LAN" "bij_idx e = i" "\<not> bad_lan_name (bij_name e)" "0 < nb_users e"
  using assms by (auto simp: lan_tab_ok_def)

lemma holds_uniq: "lan_tab_ok t \<Longrightarrow> holds t i n \<Longrightarrow> holds t j n \<Longrightarrow> i = j"
  by (simp add: lan_tab_ok_def)

lemma find_elem_number: "n \<noteq> [] \<Longrightarrow> find_elem_with_name n t = Some (lan_number t n)"
  using find_elem_spec [of n t] by (auto simp: lan_number_def)

lemma number_iff:
  assumes "lan_tab_ok t" "0 < i"
  shows "lan_number t n = i \<longleftrightarrow> holds t i n"
proof (cases "n = []")
  case True
  then show ?thesis using assms tab_elemD(4) [OF assms(1)] by (auto simp: lan_number_def holds_def bad_lan_name_def)
next
  case False
  note f = find_elem_spec [OF False, of t, unfolded find_elem_number [OF False]]
  have "holds t i n \<Longrightarrow> i < MAX_LAN" using tab_elemD(2) [OF assms(1)] by (auto simp: holds_def)
  with f assms(2) holds_uniq [OF assms(1), of i n] show ?thesis by (elim exE conjE disjE) auto
qed

lemma number_0_iff: "lan_tab_ok t \<Longrightarrow> lan_number t n = 0 \<longleftrightarrow> n \<notin> tab_names t"
proof -
  assume ok: "lan_tab_ok t"
  have z: "\<not> holds t 0 n" using tab_elemD(1) [OF ok, of 0] by (auto simp: holds_def)
  show ?thesis
  proof (cases "lan_number t n = 0")
    case True
    then have "\<not> holds t i n" for i using number_iff [OF ok, of i n] z by (cases "i = 0") auto
    with True show ?thesis by (simp add: tab_names_def)
  next
    case False
    with number_iff [OF ok, of "lan_number t n" n] show ?thesis by (auto simp: tab_names_def)
  qed
qed

lemma number_cong:
  assumes "lan_tab_ok t" "lan_tab_ok t'" "\<And>i. holds t' i m \<longleftrightarrow> holds t i m"
  shows "lan_number t' m = lan_number t m"
proof (cases "lan_number t m = 0")
  case True
  then have "m \<notin> tab_names t'" using number_0_iff [OF assms(1), of m] assms(3) by (simp add: tab_names_def)
  with True number_0_iff [OF assms(2), of m] show ?thesis by simp
next
  case False
  then show ?thesis using number_iff [OF assms(2), of "lan_number t m" m] number_iff [OF assms(1), of "lan_number t m" m] assms(3) by simp
qed

lemma number_range: "lan_tab_ok t \<Longrightarrow> lan_number t n < MAX_LAN"
  using number_iff [of t "lan_number t n" n] tab_elemD(2) [of t] by (cases "lan_number t n = 0") (auto simp: holds_def MAX_LAN_def)

lemma number_inj: "lan_tab_ok t \<Longrightarrow> lan_number t n \<noteq> 0 \<Longrightarrow> lan_number t m = lan_number t n \<Longrightarrow> m = n"
  using number_iff [of t "lan_number t n"] by (fastforce simp: holds_def)

lemma get_with_num: "lan_tab_ok t \<Longrightarrow> lan_number t n \<noteq> 0 \<Longrightarrow> lan_get_with_num (lan_number t n) t = Some n"
  using number_iff [of t "lan_number t n" n] by (auto simp: lan_get_with_num_def holds_def)

lemma get_with_name: "\<not> bad_lan_name n \<Longrightarrow> lan_get_with_name n t = Some (lan_number t n)"
  by (simp add: lan_get_with_name_def kout_if_bind find_elem_number bad_lan_name_def)

lemma users_nonneg: "lan_tab_ok t \<Longrightarrow> 0 \<le> lan_users t n"
  by (auto simp: lan_users_def split: option.splits dest: tab_elemD(5))

lemma users_0_iff: "lan_tab_ok t \<Longrightarrow> lan_users t n = 0 \<longleftrightarrow> lan_number t n = 0"
proof -
  assume ok: "lan_tab_ok t"
  show ?thesis
  proof (cases "lan_number t n = 0")
    case True
    then show ?thesis using tab_elemD(1) [OF ok, of 0] by (cases "tab_elems t 0") (auto simp: lan_users_def)
  next
    case False
    then obtain e where "tab_elems t (lan_number t n) = Some e" using number_iff [OF ok, of "lan_number t n" n] by (auto simp: holds_def)
    then show ?thesis using False tab_elemD(5) [OF ok, of "lan_number t n" e] by (simp add: lan_users_def)
  qed
qed

lemma finite_tab_names: "lan_tab_ok t \<Longrightarrow> finite (tab_names t) \<and> card (tab_names t) \<le> MAX_LAN - 1"
proof -
  assume ok: "lan_tab_ok t"
  have inj: "inj_on (lan_number t) (tab_names t)"
    using number_inj [OF ok] number_0_iff [OF ok] by (intro inj_onI) metis
  have sub: "lan_number t ` tab_names t \<subseteq> {1..<MAX_LAN}"
    using number_range [OF ok] number_0_iff [OF ok] by (auto simp: Suc_le_eq simp del: neq0_conv simp flip: neq0_conv)
  with inj have "finite (tab_names t)" by (meson finite_atLeastLessThan inj_on_finite)
  moreover have "card (tab_names t) \<le> card {1..<MAX_LAN}" using inj sub by (intro card_inj_on_le) auto
  ultimately show ?thesis by simp
qed

lemma lan_init_ok: "lan_tab_ok lan_init" "tab_names lan_init = {}" "lan_users lan_init n = 0" "lan_number lan_init n = 0"
proof -
  have h: "\<not> holds lan_init i n" for i n by (simp add: holds_def lan_init_def)
  then show t: "tab_names lan_init = {}" by (simp add: tab_names_def)
  show ok: "lan_tab_ok lan_init" using h t unfolding lan_tab_ok_def by (simp add: lan_init_def)
  show "lan_number lan_init n = 0" using number_0_iff [OF ok] t by simp
  with ok show "lan_users lan_init n = 0" using users_0_iff by simp
qed

text \<open>The numbers of the LANs are a lookup table.\<close>

definition find_ref_lan :: "string \<Rightarrow> t_lan_tab \<Rightarrow> nat option run" where
  "find_ref_lan n t = map_option (\<lambda>i. if i = 0 then None else Some i) (lan_get_with_name n t)"

interpretation lan_tab: lookup_table lan_tab_ok "\<lambda>n. \<not> bad_lan_name n" find_ref_lan "\<lambda>t i. lan_get_with_num i t"
proof (unfold_locales, goal_cases)
  case (1 t n)
  then show ?case using number_iff [OF 1(1), of _ n] number_0_iff [OF 1(1), of n] get_with_num [OF 1(1), of n]
    by (auto simp: find_ref_lan_def get_with_name tab_names_def holds_def lan_get_with_num_def)
next
  case (2 t n i j)
  then show ?case using holds_uniq [OF 2(1), of i n j] by (auto simp: holds_def lan_get_with_num_def)
qed

section \<open>What the operations do\<close>

lemma lan_add_known:
  assumes ok: "lan_tab_ok t" and n: "\<not> bad_lan_name n" and k: "lan_number t n \<noteq> 0"
  shows "\<exists>t'. lan_add_name n t = Some (lan_number t n, t') \<and> lan_tab_ok t' \<and> lan_number t' = lan_number t \<and>
    lan_users t' = (lan_users t)(n := lan_users t n + 1) \<and> tab_names t' = tab_names t"
proof -
  let ?i = "lan_number t n"
  have h: "holds t ?i n" using number_iff [OF ok, of ?i n] k by simp
  then obtain e where e: "tab_elems t ?i = Some e" "bij_name e = n" by (auto simp: holds_def)
  define t' where "t' = t\<lparr>tab_elems := (tab_elems t)(?i \<mapsto> e\<lparr>nb_users := nb_users e + 1\<rparr>)\<rparr>"
  have f: "find_elem_with_name n t = Some ?i" using n by (intro find_elem_number) (auto simp: bad_lan_name_def)
  have r: "lan_add_name n t = Some (?i, t')"
    using n k f e by (simp add: lan_add_name_def kout_if_bind t'_def)
  have holds: "holds t' i m \<longleftrightarrow> holds t i m" for i m using e by (auto simp: holds_def t'_def)
  have names: "tab_names t' = tab_names t" by (simp add: tab_names_def holds)
  have ok': "lan_tab_ok t'"
    using ok e tab_elemD [OF ok e(1)] unfolding lan_tab_ok_def holds names by (auto simp: t'_def intro: less_imp_le split: if_splits)
  have num: "lan_number t' m = lan_number t m" for m by (rule number_cong [OF ok ok' holds])
  have ne: "lan_number t m \<noteq> ?i" if "m \<noteq> n" for m using that number_inj [OF ok k, of m] by blast
  have "lan_users t' m = (if m = n then lan_users t n + 1 else lan_users t m)" for m
    using ne [of m] e by (simp add: lan_users_def num) (simp add: t'_def)
  then show ?thesis using r ok' num names by (intro exI [of _ t'] conjI ext) (auto simp: fun_eq_iff)
qed

lemma lan_add_new:
  assumes ok: "lan_tab_ok t" and n: "\<not> bad_lan_name n" and k: "lan_number t n = 0" and room: "card (tab_names t) < MAX_LAN - 1"
  shows "\<exists>i t'. lan_add_name n t = Some (i, t') \<and> lan_tab_ok t' \<and> 0 < i \<and> lan_number t' = (lan_number t)(n := i) \<and>
    lan_users t' = (lan_users t)(n := 1) \<and> tab_names t' = insert n (tab_names t)"
proof -
  have n': "n \<noteq> []" using n by (auto simp: bad_lan_name_def)
  have new: "\<not> holds t i n" for i using k number_0_iff [OF ok, of n] by (auto simp: tab_names_def)
  obtain h where h: "get_hash_of_id n = Some h" using hash_total [OF n'] by blast
  have "\<exists>j. 0 < j \<and> j < MAX_LAN \<and> tab_elems t j = None"
  proof (rule ccontr)
    assume "\<nexists>j. 0 < j \<and> j < MAX_LAN \<and> tab_elems t j = None"
    then have full: "\<exists>m. lan_get_with_num j t = Some m" if "j \<in> {1..<MAX_LAN}" for j
      using that by (fastforce simp: lan_get_with_num_def)
    let ?f = "\<lambda>j. the (lan_get_with_num j t)"
    have "inj_on ?f {1..<MAX_LAN}"
    proof (rule inj_onI)
      fix i j assume "i \<in> {1..<MAX_LAN}" "j \<in> {1..<MAX_LAN}" "?f i = ?f j"
      with full [of i] full [of j] obtain m where "lan_get_with_num i t = Some m" "lan_get_with_num j t = Some m" by auto
      then show "i = j" using holds_uniq [OF ok, of i m j] by (auto simp: holds_def lan_get_with_num_def)
    qed
    moreover have "?f ` {1..<MAX_LAN} \<subseteq> tab_names t"
      using full by (fastforce simp: tab_names_def holds_def lan_get_with_num_def)
    ultimately have "card {1..<MAX_LAN} \<le> card (tab_names t)" using finite_tab_names [OF ok] by (intro card_inj_on_le) auto
    with room show False by simp
  qed
  then obtain j where j: "0 < j" "j < MAX_LAN" "tab_elems t j = None" by blast
  note hr = hash_range [OF h]
  have "(if h \<le> j then j - h else MAX_LAN - 1 - h + j) < MAX_LAN" using j hr by (auto split: if_splits)
  from free_from_total [OF _ _ j this] hr obtain i where i: "free_from MAX_LAN h t = Some i" by blast
  note ir = free_from_spec [OF _ _ i]
  have ir: "0 < i" "i < MAX_LAN" "tab_elems t i = None" using ir hr by simp_all
  define t' where "t' = t\<lparr>tab_elems := (tab_elems t)(i \<mapsto> \<lparr>bij_name = n, bij_idx = i, nb_users = 1\<rparr>),
    glob_total_elems := glob_total_elems t + 1, layout_calls := layout_calls t @ [(True, n)]\<rparr>"
  have tot: "glob_total_elems t = int (card (tab_names t))" using ok by (simp add: lan_tab_ok_def)
  have f: "find_elem_with_name n t = Some 0" using find_elem_number [OF n', of t] k by simp
  have ff: "find_free_idx_for_name n t = Some i" using n h i by (simp add: find_free_idx_for_name_def kout_if_bind)
  have "\<not> int MAX_LAN \<le> glob_total_elems t + 1" using tot room by linarith
  then have r: "lan_add_name n t = Some (i, t')" using n f ff by (simp add: lan_add_name_def kout_if_bind t'_def Let_def)
  have holds: "holds t' j m \<longleftrightarrow> (if j = i then m = n else holds t j m)" for j m using ir by (auto simp: holds_def t'_def)
  have free: "\<not> holds t i m" for m using ir by (simp add: holds_def)
  have names: "tab_names t' = insert n (tab_names t)" using free unfolding tab_names_def holds by (auto split: if_splits) metis
  have card: "card (tab_names t') = card (tab_names t) + 1"
    using finite_tab_names [OF ok] new unfolding names by (subst card_insert_disjoint) (auto simp: tab_names_def)
  have "0 < i' \<and> i' < MAX_LAN \<and> bij_idx e = i' \<and> \<not> bad_lan_name (bij_name e) \<and> 0 < nb_users e" if "tab_elems t' i' = Some e" for i' e
    using that ir n tab_elemD [OF ok, of i' e] by (cases "i' = i") (auto simp: t'_def)
  moreover have "i' = j'" if "holds t' i' m" "holds t' j' m" for i' j' m
    using that new holds_uniq [OF ok, of i' m j'] by (auto simp: holds split: if_splits)
  moreover have "glob_total_elems t' = int (card (tab_names t'))" using tot card by (simp add: t'_def)
  ultimately have ok': "lan_tab_ok t'" unfolding lan_tab_ok_def by blast
  have num: "lan_number t' m = (if m = n then i else lan_number t m)" for m
  proof (cases "m = n")
    case True
    then show ?thesis using number_iff [OF ok' ir(1), of n] holds by simp
  next
    case False
    then show ?thesis using number_cong [OF ok ok', of m] holds free by simp
  qed
  have at: "lan_number t m \<noteq> i" for m using number_iff [OF ok ir(1), of m] free by simp
  have "lan_users t' m = (if m = n then 1 else lan_users t m)" for m
    using at [of m] by (simp add: lan_users_def num) (simp add: t'_def)
  then show ?thesis using r ok' ir num names by (intro exI [of _ i] exI [of _ t'] conjI ext) (auto simp: fun_eq_iff)
qed

lemma lan_del_last:
  assumes ok: "lan_tab_ok t" and n: "\<not> bad_lan_name n" and u: "lan_users t n = 1"
  shows "\<exists>t'. lan_del_name n t = Some (lan_number t n, t') \<and> lan_tab_ok t' \<and> lan_number t' = (lan_number t)(n := 0) \<and>
    lan_users t' = (lan_users t)(n := 0) \<and> tab_names t' = tab_names t - {n}"
proof -
  let ?i = "lan_number t n"
  have k: "?i \<noteq> 0" using u users_0_iff [OF ok, of n] by simp
  have h: "holds t ?i n" using number_iff [OF ok, of ?i n] k by simp
  then obtain e where e: "tab_elems t ?i = Some e" "bij_name e = n" by (auto simp: holds_def)
  have e1: "nb_users e = 1" using u e by (simp add: lan_users_def)
  define t' where "t' = t\<lparr>tab_elems := (tab_elems t)(?i := None), glob_total_elems := glob_total_elems t - 1,
    layout_calls := layout_calls t @ [(False, n)]\<rparr>"
  have tot: "glob_total_elems t = int (card (tab_names t))" using ok by (simp add: lan_tab_ok_def)
  have in_t: "n \<in> tab_names t" using h by (auto simp: tab_names_def)
  have fin: "finite (tab_names t)" using finite_tab_names [OF ok] by simp
  have pos: "0 < card (tab_names t)" using in_t fin card_gt_0_iff by blast
  have f: "find_elem_with_name n t = Some ?i" using n by (intro find_elem_number) (auto simp: bad_lan_name_def)
  have r: "lan_del_name n t = Some (?i, t')"
    using n k f e e1 tot pos by (simp add: lan_del_name_def kout_if_bind t'_def Let_def)
  have holds: "holds t' j m \<longleftrightarrow> j \<noteq> ?i \<and> holds t j m" for j m by (auto simp: holds_def t'_def)
  have at: "holds t ?i m \<longleftrightarrow> m = n" for m using e by (auto simp: holds_def)
  have "holds t' j m \<longleftrightarrow> m \<noteq> n \<and> holds t j m" for j m
    using at [of m] holds_uniq [OF ok h, of j] by (cases "m = n") (auto simp: holds)
  then have names: "tab_names t' = tab_names t - {n}" by (simp add: tab_names_def set_eq_iff conj_commute)
  have card: "int (card (tab_names t')) = int (card (tab_names t)) - 1" using in_t fin pos unfolding names by simp
  have "0 < i' \<and> i' < MAX_LAN \<and> bij_idx e = i' \<and> \<not> bad_lan_name (bij_name e) \<and> 0 < nb_users e" if "tab_elems t' i' = Some e" for i' e
    using that tab_elemD [OF ok, of i' e] by (cases "i' = ?i") (auto simp: t'_def)
  moreover have "i' = j'" if "holds t' i' m" "holds t' j' m" for i' j' m
    using that holds_uniq [OF ok, of i' m j'] by (simp add: holds)
  moreover have "glob_total_elems t' = int (card (tab_names t'))" using tot card by (simp add: t'_def)
  ultimately have ok': "lan_tab_ok t'" unfolding lan_tab_ok_def by blast
  have num: "lan_number t' m = (if m = n then 0 else lan_number t m)" for m
  proof (cases "m = n")
    case True
    then show ?thesis using number_0_iff [OF ok', of n] names by simp
  next
    case False
    then have "holds t' j m \<longleftrightarrow> holds t j m" for j using at holds by auto
    with False show ?thesis using number_cong [OF ok ok', of m] by simp
  qed
  have z: "tab_elems t' 0 = None" using tab_elemD(1) [OF ok', of 0] by (cases "tab_elems t' 0") auto
  have ne: "lan_number t m \<noteq> ?i" if "m \<noteq> n" for m using that number_inj [OF ok k, of m] by blast
  have "lan_users t' m = (if m = n then 0 else lan_users t m)" for m
    using ne [of m] z by (simp add: lan_users_def num) (simp add: t'_def)
  then show ?thesis using r ok' num names by (intro exI [of _ t'] conjI ext) (auto simp: fun_eq_iff)
qed

lemma lan_del_more:
  assumes ok: "lan_tab_ok t" and n: "\<not> bad_lan_name n" and u: "1 < lan_users t n"
  shows "\<exists>t'. lan_del_name n t = Some (lan_number t n, t') \<and> lan_tab_ok t' \<and> lan_number t' = lan_number t \<and>
    lan_users t' = (lan_users t)(n := lan_users t n - 1) \<and> tab_names t' = tab_names t"
proof -
  let ?i = "lan_number t n"
  have k: "?i \<noteq> 0" using u users_0_iff [OF ok, of n] by simp
  have h: "holds t ?i n" using number_iff [OF ok, of ?i n] k by simp
  then obtain e where e: "tab_elems t ?i = Some e" "bij_name e = n" by (auto simp: holds_def)
  have e1: "1 < nb_users e" using u e by (simp add: lan_users_def)
  define t' where "t' = t\<lparr>tab_elems := (tab_elems t)(?i \<mapsto> e\<lparr>nb_users := nb_users e - 1\<rparr>)\<rparr>"
  have f: "find_elem_with_name n t = Some ?i" using n by (intro find_elem_number) (auto simp: bad_lan_name_def)
  have r: "lan_del_name n t = Some (?i, t')"
    using n k f e e1 by (simp add: lan_del_name_def kout_if_bind t'_def Let_def)
  have holds: "holds t' i m \<longleftrightarrow> holds t i m" for i m using e by (auto simp: holds_def t'_def)
  have names: "tab_names t' = tab_names t" by (simp add: tab_names_def holds)
  have ok': "lan_tab_ok t'"
    using ok e e1 tab_elemD [OF ok e(1)] unfolding lan_tab_ok_def holds names by (auto simp: t'_def split: if_splits)
  have num: "lan_number t' m = lan_number t m" for m by (rule number_cong [OF ok ok' holds])
  have ne: "lan_number t m \<noteq> ?i" if "m \<noteq> n" for m using that number_inj [OF ok k, of m] by blast
  have "lan_users t' m = (if m = n then lan_users t n - 1 else lan_users t m)" for m
    using ne [of m] e by (simp add: lan_users_def num) (simp add: t'_def)
  then show ?thesis using r ok' num names by (intro exI [of _ t'] conjI ext) (auto simp: fun_eq_iff)
qed

lemma lan_add_ok:
  assumes "lan_tab_ok t" "\<not> bad_lan_name n" "n \<in> tab_names t \<or> card (tab_names t) < MAX_LAN - 1"
  shows "\<exists>i t'. lan_add_name n t = Some (i, t') \<and> lan_tab_ok t' \<and> lan_users t' = (lan_users t)(n := lan_users t n + 1) \<and>
    tab_names t' = insert n (tab_names t) \<and> lan_number t' n = i \<and> (\<forall>m\<in>tab_names t. lan_number t' m = lan_number t m)"
proof (cases "lan_number t n = 0")
  case True
  then have "n \<notin> tab_names t" "lan_users t n = 0" using number_0_iff [OF assms(1), of n] users_0_iff [OF assms(1), of n] by simp_all
  with lan_add_new [OF assms(1,2) True] assms(3) show ?thesis by auto
next
  case False
  then have "n \<in> tab_names t" using number_0_iff [OF assms(1), of n] by simp
  with lan_add_known [OF assms(1,2) False] show ?thesis by auto
qed

lemma lan_del_ok:
  assumes "lan_tab_ok t" "\<not> bad_lan_name n"
  shows "\<exists>t'. lan_del_name n t = Some (lan_number t n, t') \<and> lan_tab_ok t' \<and>
    lan_users t' = (lan_users t)(n := max 0 (lan_users t n - 1)) \<and> tab_names t' \<subseteq> tab_names t \<and>
    (\<forall>m\<in>tab_names t'. lan_number t' m = lan_number t m)"
proof -
  consider "lan_users t n = 0" | "lan_users t n = 1" | "1 < lan_users t n" using users_nonneg [OF assms(1), of n] by linarith
  then show ?thesis
  proof cases
    case 1
    then have k: "lan_number t n = 0" using users_0_iff [OF assms(1)] by simp
    have "find_elem_with_name n t = Some 0" using assms(2) k find_elem_number [of n t] by (simp add: bad_lan_name_def)
    with assms k 1 show ?thesis by (simp add: lan_del_name_def kout_if_bind fun_upd_idem)
  next
    case 2
    with lan_del_last [OF assms 2] show ?thesis by auto
  next
    case 3
    with lan_del_more [OF assms 3] show ?thesis by auto
  qed
qed

section \<open>Any sequence of operations\<close>

datatype lan_op = Lan_add string | Lan_del string

fun op_name :: "lan_op \<Rightarrow> string" where
  "op_name (Lan_add n) = n"
| "op_name (Lan_del n) = n"

fun lan_op_step :: "t_lan_tab \<Rightarrow> lan_op \<Rightarrow> t_lan_tab run" where
  "lan_op_step t (Lan_add n) = map_option snd (lan_add_name n t)"
| "lan_op_step t (Lan_del n) = map_option snd (lan_del_name n t)"

text \<open>The specification: a count for each name.\<close>

fun count_op :: "(string \<Rightarrow> int) \<Rightarrow> lan_op \<Rightarrow> (string \<Rightarrow> int)" where
  "count_op c (Lan_add n) = c(n := c n + 1)"
| "count_op c (Lan_del n) = c(n := max 0 (c n - 1))"

lemma op_step_ok:
  assumes "lan_tab_ok t" "\<not> bad_lan_name (op_name a)" "tab_names t \<union> {op_name a} \<subseteq> N" "finite N" "card N < MAX_LAN"
  shows "\<exists>t'. lan_op_step t a = Some t' \<and> lan_tab_ok t' \<and> lan_users t' = count_op (lan_users t) a \<and> tab_names t' \<subseteq> N \<and>
    (\<forall>m \<in> tab_names t \<inter> tab_names t'. lan_number t' m = lan_number t m)"
proof (cases a)
  case (Lan_add n)
  have "card (tab_names t) < MAX_LAN - 1" if "n \<notin> tab_names t"
  proof -
    have "card (insert n (tab_names t)) \<le> card N" using assms(3,4) Lan_add by (intro card_mono) auto
    then have "Suc (card (tab_names t)) \<le> card N" using that finite_tab_names [OF assms(1)] by simp
    with assms(5) show ?thesis by simp
  qed
  then have "n \<in> tab_names t \<or> card (tab_names t) < MAX_LAN - 1" by blast
  from lan_add_ok [OF assms(1) _ this] assms(2,3) Lan_add show ?thesis by auto
next
  case (Lan_del n)
  with lan_del_ok [OF assms(1), of n] assms(2,3) show ?thesis by auto
qed

lemma op_run_ok:
  assumes "lan_tab_ok t" "\<forall>a\<in>set as. \<not> bad_lan_name (op_name a)" "tab_names t \<union> op_name ` set as \<subseteq> N" "finite N" "card N < MAX_LAN"
  shows "\<exists>t'. run_events lan_op_step t as = Some t' \<and> lan_tab_ok t' \<and> lan_users t' = foldl count_op (lan_users t) as \<and> tab_names t' \<subseteq> N"
  using assms(1-3)
proof (induction as arbitrary: t)
  case (Cons a as)
  from op_step_ok [OF Cons.prems(1) _ _ assms(4,5), of a] Cons.prems(2,3) obtain t1 where
    t1: "lan_op_step t a = Some t1" "lan_tab_ok t1" "lan_users t1 = count_op (lan_users t) a" "tab_names t1 \<subseteq> N" by auto
  from Cons.IH [OF t1(2)] Cons.prems(2,3) t1(4) show ?case by (auto simp: t1(1,3))
qed (simp add: le_supE)

section \<open>Property\<close>

text \<open>C40: The table of the LAN numbers counts the users of each name. Over any sequence of additions and
  deletions of at most 16384 names, each of 1 to 63 characters, none of its checks ends the server; the
  users counted for a name are the additions less the deletions that met one; a name has a number exactly
  while it has users, and the number leads back to the name, so that two names in use never share one; and
  whatever operation comes next, a name that is in use before and after it keeps its number.\<close>

theorem lan_names_count_users:
  assumes "\<forall>a\<in>set (as @ [b]). \<not> bad_lan_name (op_name a)" "card (op_name ` set (as @ [b])) < MAX_LAN"
  shows "\<exists>t t'. run_events lan_op_step lan_init as = Some t \<and> lan_op_step t b = Some t' \<and>
    lan_users t = foldl count_op (\<lambda>_. 0) as \<and>
    (\<forall>n. \<not> bad_lan_name n \<longrightarrow> (\<exists>i. lan_get_with_name n t = Some i \<and>
       (if 0 < lan_users t n then 0 < i \<and> i < MAX_LAN \<and> lan_get_with_num i t = Some n else i = 0) \<and>
       (0 < lan_users t n \<and> 0 < lan_users t' n \<longrightarrow> lan_get_with_name n t' = Some i)))"
proof -
  let ?N = "op_name ` set (as @ [b])"
  have u0: "lan_users lan_init = (\<lambda>_. 0)" using lan_init_ok(3) by (simp add: fun_eq_iff)
  from op_run_ok [OF lan_init_ok(1) _ _ _ assms(2), of as] assms(1) obtain t where
    t: "run_events lan_op_step lan_init as = Some t" "lan_tab_ok t" "lan_users t = foldl count_op (\<lambda>_. 0) as" "tab_names t \<subseteq> ?N"
    by (auto simp: lan_init_ok(2) u0)
  from op_step_ok [OF t(2) _ _ _ assms(2), of b] t(4) assms(1) obtain t' where
    t': "lan_op_step t b = Some t'" "lan_tab_ok t'" "\<forall>m \<in> tab_names t \<inter> tab_names t'. lan_number t' m = lan_number t m" by auto
  have used: "0 < lan_users x n \<longleftrightarrow> n \<in> tab_names x" if "lan_tab_ok x" for x n
    using users_nonneg [OF that, of n] users_0_iff [OF that, of n] number_0_iff [OF that, of n] by linarith
  have in_use: "if 0 < lan_users t n then 0 < lan_number t n \<and> lan_number t n < MAX_LAN \<and> lan_get_with_num (lan_number t n) t = Some n
      else lan_number t n = 0" for n
    using number_0_iff [OF t(2), of n] number_range [OF t(2), of n] get_with_num [OF t(2), of n] used [OF t(2), of n]
    by (cases "lan_number t n = 0") simp_all
  have kept: "0 < lan_users t n \<and> 0 < lan_users t' n \<longrightarrow> lan_number t' n = lan_number t n" for n
    using used [OF t(2), of n] used [OF t'(2), of n] t'(3) by simp
  have "\<exists>i. lan_get_with_name n t = Some i \<and>
       (if 0 < lan_users t n then 0 < i \<and> i < MAX_LAN \<and> lan_get_with_num i t = Some n else i = 0) \<and>
       (0 < lan_users t n \<and> 0 < lan_users t' n \<longrightarrow> lan_get_with_name n t' = Some i)" if "\<not> bad_lan_name n" for n
    using in_use [of n] kept [of n] get_with_name [OF that] by (intro exI [of _ "lan_number t n"]) simp
  with t(1,3) t'(1) show ?thesis by (intro exI [of _ t] exI [of _ t']) simp
qed

theorem lan_names_count_users_witness:
  "\<exists>t t'. run_events lan_op_step lan_init [Lan_add ''la'', Lan_add ''la'', Lan_add ''lb'', Lan_del ''la''] = Some t \<and>
    lan_op_step t (Lan_del ''lb'') = Some t' \<and> lan_users t ''la'' = 1 \<and> lan_users t ''lb'' = 1 \<and> lan_users t ''lc'' = 0"
  using lan_names_count_users [of "[Lan_add ''la'', Lan_add ''la'', Lan_add ''lb'', Lan_del ''la'']" "Lan_del ''lb''"]
  by (auto simp: bad_lan_name_def MAX_LAN_NAME_def MAX_LAN_def card_insert_if)

end
