(* ===== verification/Spec2Isabelle.thy ===== *)
theory Spec2Isabelle
  imports Circ_Threads Sched_Props Tcp_Beat Tcp_Limits Beat_Wheel Nat_Sockets Nat_Dhcp Nat_Lines Nat_Connect Tx_Queue Endp_Faults Lan_Names
begin

text \<open>
  Verification of the core of cloonix, a tool that runs virtual machines and connects them by
  emulated networks. Sources are named by their path under \<open>src/cloonix/\<close>; where no directory is
  given it is \<open>server/muswitch/\<close>.

  \<^bold>\<open>The program.\<close> A server (\<open>server/uml_cloonix_switch\<close>) starts one process for each element of an
  emulated network and talks to it in lines of text over a control channel. A LAN is a process
  \<open>mulan\<close>. What is attached to a LAN is an endpoint: an interface of a virtual machine, a tap, a
  delay line (\<open>mua2b\<close>), or the gateway to the outside (\<open>munat\<close>), which contains a TCP stack, DHCP and
  address translation. The processes are built on three libraries: \<open>lib_ioc\<close> (channels, messages,
  timeouts), \<open>common/lib_blkd\<close> (sockets for packets) and \<open>lib_mulan\<close>, \<open>lib_muend\<close> (the two sides of the
  attachment of an endpoint to a LAN). This development models the data plane from the packet
  sockets up, the LAN, the attachment, the delay line and the whole of \<open>munat\<close>. The server is the
  environment of these processes: its lines are events.

  \<^bold>\<open>Conventions.\<close> A C function is a HOL function on an explicit state that returns an option
  (\<open>'a run\<close>): \<open>None\<close> is a call that does not return (\<open>KOUT\<close>, which logs and exits, a spin lock that is
  never released) and also a call without a defined result (a read outside of a buffer, the use of
  a freed object, a string that is too long for its buffer). \<open>KERR\<close> only logs and is left out. A C
  struct is a record with the fields that the code uses, a linked list is the list of its elements
  from the head, an array of pointers a partial function, an address a natural number that is not
  used again. An \<open>int\<close> whose overflow matters is written with \<open>i32\<close>; sequence numbers, checksums and
  header fields are words. Answers of the kernel, random numbers and dates are arguments. A process
  is a step function over its events, each handled to its end (\<open>run_events\<close>), which is what the
  single-threaded loops of the sources do; only the ring of \<open>mua2b\<close> is used by several threads, and it
  is modelled a second time by atomic accesses.

  \<^bold>\<open>Shared.\<close> \<open>Prelude\<close>: runs, C integers, lists, the interfaces \<open>step_system\<close> and \<open>safe_system\<close>. \<open>C_Text\<close>:
  \<open>sprintf\<close>, \<open>sscanf\<close> and strings. \<open>Slot_Fifo\<close>, \<open>Lookup\<close>, \<open>Index_Ring\<close>: the interfaces of a bounded queue,
  of a lookup table of live objects, and the arithmetic of a ring with two indices. \<open>Beat_Wheel\<close>
  (\<open>lib_ioc/src/clownix_timer.c\<close>): the timeouts; the ring of lists refines an agenda ordered by date.

  \<^bold>\<open>Delay line\<close> (\<open>mua2b/src\<close>). \<open>Circ_Slot\<close>, \<open>Circ_Threads\<close> (\<open>circ_slot.c\<close>): the ring, an instance of
  \<open>Slot_Fifo\<close>, and its threads, linearisable under every interleaving. \<open>A2b_Config\<close> (\<open>config.c\<close>,
  \<open>main.c\<close>): the configuration and the command lines. \<open>Sched\<close>, \<open>Sched_Props\<close> (\<open>sched.c\<close>, \<open>wake_tx.c\<close>): the
  token bucket, refined to a recursion over the list of queued packets.

  \<^bold>\<open>Gateway\<close> (\<open>munat\<close>). \<open>Tcp_Packet\<close> (\<open>clo_low.c\<close>): the codec of segments. \<open>Tcp_Types\<close>, \<open>Tcp_Utils\<close>,
  \<open>Tcp_Tables\<close> (\<open>clo_utils.c\<close>): connections and their tables, instances of \<open>Lookup\<close>. \<open>Tcp_Mngt\<close>
  (\<open>clo_mngt.c\<close>): sequence numbers and buffers. \<open>Tcp_High\<close>, \<open>Tcp_Input\<close> (\<open>clo_high.c\<close>): the protocol.
  \<open>Tcp_Safe\<close>, \<open>Tcp_Calls\<close>, \<open>Tcp_Total\<close>, \<open>Tcp_Beat\<close>: every operation returns and keeps the tables
  consistent, above any layer whose callbacks do (a locale, interpreted in \<open>Nat_Layer\<close> on the real
  layer). \<open>Tcp_Receive\<close>, \<open>Tcp_Send\<close>, \<open>Tcp_Limits\<close>: what the receiver accepts, what the sender emits, and
  where the arithmetic ends. \<open>Nat_Format\<close>, \<open>Nat_Boot\<close>, \<open>Nat_Env\<close>, \<open>Nat_Clients\<close>, \<open>Nat_Udp\<close>, \<open>Nat_Packets\<close>
  (\<open>utils.c\<close>, \<open>bootp_input.c\<close>, \<open>machine.c\<close>, \<open>unix2inet.c\<close>, \<open>tcp_connect_wait_mngt.c\<close>, \<open>tcp_tux.c\<close>,
  \<open>llid_slirptux.c\<close>, \<open>packets_io.c\<close>, \<open>packet_\<close>x\<open>_input.c\<close>, \<open>main.c\<close>): the rest of the process.
  \<open>Nat_Layer\<close>, \<open>Nat_Events\<close>, \<open>Nat_Run\<close>: its events and its safety over every sequence of legal ones.
  \<open>Nat_Answers\<close>, \<open>Nat_Sockets\<close>, \<open>Nat_Dhcp\<close>, \<open>Nat_Lines\<close>, \<open>Nat_Connect\<close>: what it does for the machines and
  the clients.

  \<^bold>\<open>Control channels\<close> (\<open>lib_ioc/src\<close>). \<open>Rx_Frame\<close>, \<open>Rx_Match\<close>, \<open>Rx_Messages\<close>, \<open>Rx_Stream\<close>
  (\<open>rx_process.c\<close>, \<open>chunk.c\<close>): a stream of bytes is cut into messages by their tags, however it is cut
  into reads. \<open>Tx_Queue\<close> (\<open>msg_layer.c\<close>): the queue to send, and both ends together.

  \<^bold>\<open>Packet sockets\<close> (\<open>common/lib_blkd/src\<close>). \<open>Blkd_Types\<close>, \<open>Blkd_Rx\<close>, \<open>Blkd_Ring\<close>, \<open>Blkd_Stream\<close>,
  \<open>Blkd_Deliver\<close> (\<open>blkd_rx.c\<close>): packets are read into shared groups and given to the user once, in
  order. \<open>Blkd_Tx\<close>, \<open>Blkd_Fanout\<close>, \<open>Blkd_Send\<close> (\<open>blkd_tx.c\<close>, \<open>blkd.c\<close>): one packet waits on many channels
  and is freed with the last; the way from one process to the next.

  \<^bold>\<open>LAN\<close> (\<open>lib_mulan/src\<close>, \<open>mulan/src/main.c\<close>). \<open>Lan_Tables\<close> (\<open>llid_rank.c\<close>), \<open>Lan_Switch\<close> (\<open>rank_mngt.c\<close>,
  \<open>diag.c\<close>, \<open>client.c\<close>): the endpoints and their ranks, the lines, the traffic. \<open>Lan_Inv\<close>, \<open>Lan_Safe\<close>,
  \<open>Lan_Dialog\<close>, \<open>Lan_Traffic\<close>: each event keeps the invariant or belongs to the few that end the
  process. \<open>Lan_Run\<close>: the process over all legal events (locale \<open>guarded_system\<close>), as a refinement of
  a hub. The legal events are those in which numbers of new channels are new, and what a socket
  brings is a text of good packets.

  \<^bold>\<open>Endpoints\<close> (\<open>lib_muend/src/diag.c\<close>, \<open>sock_fd.c\<close>). \<open>Endp_Dialog\<close>: the dialog of an endpoint with the
  server and with a LAN. \<open>Endp_Lines\<close>: the lines are read back as they were printed. \<open>Endp_Connect\<close>: an
  endpoint and a LAN exchange their lines until none is left (\<open>talk\<close>), and the endpoint is
  connected. \<open>Endp_Faults\<close>: a rank that cannot be taken, and a timeout that refuses another request.

  \<^bold>\<open>Server\<close> (\<open>server/uml_cloonix_switch/src/lan_to_name.c\<close>). \<open>Lan_Names\<close>: the hash table that numbers the
  LANs in use, an instance of \<open>Lookup\<close>, as a map of counts.

  \<^bold>\<open>Loops and bounds.\<close> Loops whose end depends on the state (\<open>rx_loop\<close>, \<open>blkd_rx_loop\<close>, \<open>rx_blkd_loop\<close>,
  \<open>tx_rec_loop\<close>, \<open>tx_pool_loop\<close>, \<open>purge_loop\<close>, \<open>traf_loop\<close>) are partial functions in the option monad; the
  theorems about them prove that they return. \<open>talk\<close> has a bound on the number of lines: six are
  exchanged when an endpoint is connected, and the theorem gives it six. Constants are those of
  the headers (\<open>glob_include/glob_common.h\<close>, \<open>lib_ioc/include/ioc.h\<close>, \<open>lib_blkd/src/blkd.h\<close>).

  \<^bold>\<open>Abstractions.\<close> A packet that was read and is sent on moves between two representations of the
  same bytes (\<open>blkd_of_pkt\<close>, \<open>with_blkd\<close>). The lists of the sources are doubly linked; their \<open>prev\<close> fields
  are not kept. Counters that are only reported, debug output and the locks around single calls of
  the packet rings are left out. In \<open>Endp_Connect\<close> a line is one message: that the control channels
  carry messages whole and in order is shown in \<open>Rx_Stream\<close> and \<open>Tx_Queue\<close>.

  \<^bold>\<open>Not modelled.\<close> The rest of the server (\<open>server/uml_cloonix_switch\<close>: start of processes, virtual
  machines, the topology and its subscribers), the doors to remote clients (\<open>server/doorways\<close>), the
  graphical and the command line clients (\<open>client\<close>), the agent in the machines
  (\<open>common/agent_dropbear\<close>), the XML coders of the remote calls (\<open>common/lib_rpc_\<close>x): these are large
  bodies of start-up code, field by field coding and calls of the system, of GTK or of qemu. The
  message of the flow control between LANs and endpoints is left out because its handler uses a
  variable that it does not set. \<open>mutap\<close>, \<open>musnf\<close>, \<open>muc2c\<close> and \<open>mueth.c\<close> are thin layers around
  descriptors of the kernel. \<open>common/lib_io_clownix\<close> is a second library with the structure of \<open>lib_ioc\<close>. Sources of other
  projects (dropbear, openssh, spice, qemu) are used as they are or patched.
\<close>

end
